(* ===== verification/Hal_Prelude.thy ===== *)
theory Hal_Prelude
  imports Main "HOL-Library.Word"
begin

unbundle bit_operations_syntax

text \<open>
  Shared vocabulary of the development: the machine types of the C sources as
  type synonyms, the error numbers the sources return, the named theorem
  collections, and the generic lemmas on lists, words and relations of
  consecutive elements that the component theories share.
\<close>

section \<open>Machine types and error numbers\<close>

type_synonym u8 = "8 word"
type_synonym u32 = "32 word"
type_synonym u64 = "64 word"

text \<open>
  The values of the C error macros on Linux. Ring operations return them
  positive; the HAL functions return them negated.
\<close>

abbreviation EPERM :: int where "EPERM \<equiv> 1"
abbreviation ENOENT :: int where "ENOENT \<equiv> 2"
abbreviation E2BIG :: int where "E2BIG \<equiv> 7"
abbreviation EAGAIN :: int where "EAGAIN \<equiv> 11"
abbreviation ENOMEM :: int where "ENOMEM \<equiv> 12"
abbreviation EBUSY :: int where "EBUSY \<equiv> 16"
abbreviation EEXIST :: int where "EEXIST \<equiv> 17"
abbreviation EINVAL :: int where "EINVAL \<equiv> 22"
abbreviation ERANGE :: int where "ERANGE \<equiv> 34"
abbreviation ENOSYS :: int where "ENOSYS \<equiv> 38"

text \<open>Conversion to a signed integer of 16, 7 or 32 bits.\<close>

definition to_s16 :: "int \<Rightarrow> int" where "to_s16 x = (x + 32768) mod 65536 - 32768"
definition to_s7 :: "int \<Rightarrow> int" where "to_s7 x = (x + 64) mod 128 - 64"
definition to_s32 :: "int \<Rightarrow> int" where
  "to_s32 x = (x + 2147483648) mod 4294967296 - 2147483648"

section \<open>Named theorem collections\<close>

named_theorems heap_simps \<open>reads and writes of header fields in the heap arena\<close>
named_theorems hal_defs \<open>definitions of the HAL operations unfolded by the invariant proofs\<close>
named_theorems frame_simps \<open>what an operation leaves unchanged\<close>

section \<open>Lists\<close>

lemma sorted_wrt_less_nth_inj:
  "sorted_wrt (<) xs \<Longrightarrow> distinct (xs :: 'a :: linorder list)"
  by (induction xs) auto

lemma filter_insert_nth:
  "filter P (take i xs @ x # drop i xs) =
     filter P (take i xs) @ (if P x then [x] else []) @ filter P (drop i xs)"
  by simp

lemma sorted_wrt_append_Cons:
  "sorted_wrt R (xs @ y # ys) \<longleftrightarrow>
     sorted_wrt R xs \<and> sorted_wrt R ys \<and> (\<forall>x\<in>set xs. R x y) \<and>
     (\<forall>z\<in>set ys. R y z) \<and> (\<forall>x\<in>set xs. \<forall>z\<in>set ys. R x z)"
  by (auto simp: sorted_wrt_append)

lemma sum_map_cong:
  "(\<And>x. x \<in> set xs \<Longrightarrow> f x = g x) \<Longrightarrow> sum_list (map f xs) = sum_list (map g xs)"
  by (simp cong: map_cong)

lemma butlast_neq_last: "distinct xs \<Longrightarrow> z \<in> set (butlast xs) \<Longrightarrow> z \<noteq> last xs"
  by (cases xs rule: rev_cases) auto

text \<open>Any element of a list is the first one of some rotation of it.\<close>

lemma rotate_to_front:
  assumes "x \<in> set xs"
  obtains as bs where "xs = as @ x # bs"
  using assms by (auto simp: in_set_conv_decomp)

section \<open>Transition systems\<close>

text \<open>A step relation and a property that every step keeps.\<close>

locale transition_invariant =
  fixes step :: "'s \<Rightarrow> 's \<Rightarrow> bool" and inv :: "'s \<Rightarrow> bool"
  assumes step_keeps: "step s s' \<Longrightarrow> inv s \<Longrightarrow> inv s'"
begin

lemma reach_keeps: "step\<^sup>*\<^sup>* s s' \<Longrightarrow> inv s \<Longrightarrow> inv s'"
  by (induction rule: rtranclp_induct) (auto intro: step_keeps)

end

end
