(* ===== verification/Byte_Memory.thy ===== *)
theory Byte_Memory
  imports Hal_Prelude
begin

text \<open>
  The memory of a shared segment as a function from byte addresses to bytes,
  with the little-endian loads and stores the compiled C code performs on it,
  and circular singly linked lists threaded through such a memory. The heap
  allocator and the ring buffers are modelled on top of it.
\<close>

section \<open>Little-endian loads and stores\<close>

type_synonym bytes = "nat \<Rightarrow> u8"

fun get_le :: "bytes \<Rightarrow> nat \<Rightarrow> nat \<Rightarrow> nat" where
  "get_le m a 0 = 0"
| "get_le m a (Suc n) = unat (m a) + 256 * get_le m (Suc a) n"

text \<open>The stored value is truncated to the width of the cell, as in C.\<close>

fun put_le :: "bytes \<Rightarrow> nat \<Rightarrow> nat \<Rightarrow> nat \<Rightarrow> bytes" where
  "put_le m a 0 v = m"
| "put_le m a (Suc n) v = put_le (m(a := of_nat (v mod 256))) (Suc a) n (v div 256)"

lemma put_le_outside: "b < a \<or> a + n \<le> b \<Longrightarrow> put_le m a n v b = m b"
  by (induction m a n v rule: put_le.induct) auto

lemma get_le_cong:
  "(\<And>b. a \<le> b \<Longrightarrow> b < a + n \<Longrightarrow> m b = m' b) \<Longrightarrow> get_le m a n = get_le m' a n"
  by (induction n arbitrary: a) auto

lemma get_put_disjoint:
  "a + n \<le> b \<or> b + k \<le> a \<Longrightarrow> get_le (put_le m a n v) b k = get_le m b k"
  by (rule get_le_cong) (auto intro!: put_le_outside)

lemma get_put_same: "get_le (put_le m a n v) a n = v mod 256 ^ n"
proof (induction m a n v rule: put_le.induct)
  case (2 m a n v)
  have "put_le (m(a := of_nat (v mod 256))) (Suc a) n (v div 256) a = of_nat (v mod 256)"
    by (subst put_le_outside) auto
  moreover have "unat (of_nat (v mod 256) :: u8) = v mod 256"
    by (simp add: unat_of_nat)
  ultimately show ?case
    using 2 by (simp add: mod_mult2_eq fun_upd_def)
qed auto

lemma get_le_bound: "get_le m a n < 256 ^ n"
proof (induction n arbitrary: a)
  case (Suc n)
  have "unat (m a) < 256" using unsigned_less [of "m a"] by simp
  then show ?case using Suc [of "Suc a"] by simp
qed simp

lemma get_le_zero [simp]: "get_le (\<lambda>_. 0) a n = 0"
  by (induction n arbitrary: a) auto

lemma get_le_4:
  "get_le m a 4 = unat (m a) + 256 * (unat (m (a + 1)) + 256 * (unat (m (a + 2)) + 256 * unat (m (a + 3))))"
proof -
  have "(4 :: nat) = Suc (Suc (Suc (Suc 0)))" by simp
  then show ?thesis by (simp only: get_le.simps) (simp add: numeral_3_eq_3)
qed

section \<open>Block operations\<close>

definition fill_bytes :: "bytes \<Rightarrow> nat \<Rightarrow> nat \<Rightarrow> u8 \<Rightarrow> bytes" where
  "fill_bytes m a n c = (\<lambda>b. if a \<le> b \<and> b < a + n then c else m b)"

definition copy_bytes :: "bytes \<Rightarrow> nat \<Rightarrow> nat \<Rightarrow> nat \<Rightarrow> bytes" where
  "copy_bytes m dst src n = (\<lambda>b. if dst \<le> b \<and> b < dst + n then m (src + (b - dst)) else m b)"

definition read_bytes :: "bytes \<Rightarrow> nat \<Rightarrow> nat \<Rightarrow> u8 list" where
  "read_bytes m a n = map m [a ..< a + n]"

definition write_bytes :: "bytes \<Rightarrow> nat \<Rightarrow> u8 list \<Rightarrow> bytes" where
  "write_bytes m a xs = (\<lambda>b. if a \<le> b \<and> b < a + length xs then xs ! (b - a) else m b)"

lemma write_bytes_outside: "b < a \<or> a + length xs \<le> b \<Longrightarrow> write_bytes m a xs b = m b"
  by (auto simp: write_bytes_def)

lemma length_read_bytes [simp]: "length (read_bytes m a n) = n"
  by (simp add: read_bytes_def)

lemma read_write_same: "read_bytes (write_bytes m a xs) a (length xs) = xs"
  by (rule nth_equalityI) (auto simp: read_bytes_def write_bytes_def)

lemma read_bytes_cong:
  "(\<And>b. a \<le> b \<Longrightarrow> b < a + n \<Longrightarrow> m b = m' b) \<Longrightarrow> read_bytes m a n = read_bytes m' a n"
  by (auto simp: read_bytes_def)

lemma read_write_disjoint:
  "a + length xs \<le> b \<or> b + n \<le> a \<Longrightarrow> read_bytes (write_bytes m a xs) b n = read_bytes m b n"
  by (rule read_bytes_cong) (auto simp: write_bytes_def)

section \<open>Circular linked lists\<close>

text \<open>
  \<open>lpath nx x xs y\<close> says that following \<open>nx\<close> from \<open>x\<close> visits the elements
  of \<open>xs\<close> in order and then \<open>y\<close>.
\<close>

fun lpath :: "('a \<Rightarrow> 'a) \<Rightarrow> 'a \<Rightarrow> 'a list \<Rightarrow> 'a \<Rightarrow> bool" where
  "lpath nx x [] y \<longleftrightarrow> nx x = y"
| "lpath nx x (z # zs) y \<longleftrightarrow> nx x = z \<and> lpath nx z zs y"

lemma lpath_append [simp]:
  "lpath nx x (xs @ z # zs) y \<longleftrightarrow> lpath nx x xs z \<and> lpath nx z zs y"
  by (induction xs arbitrary: x) auto

lemma lpath_last: "lpath nx x xs y \<Longrightarrow> nx (last (x # xs)) = y"
  by (induction xs arbitrary: x) auto

lemma lpath_cong:
  "(\<And>z. z \<in> set (x # xs) \<Longrightarrow> nx z = nx' z) \<Longrightarrow> lpath nx x xs y = lpath nx' x xs y"
  by (induction xs arbitrary: x) auto

lemma lpath_snoc_change:
  assumes "lpath nx x xs y" "distinct (x # xs)"
    and "\<And>z. z \<in> set (butlast (x # xs)) \<Longrightarrow> nx' z = nx z"
    and "nx' (last (x # xs)) = y'"
  shows "lpath nx' x xs y'"
  using assms by (induction xs arbitrary: x) (auto split: if_splits)

text \<open>A path seen as its first step and the links of the remaining elements.\<close>

definition lrest :: "('a \<Rightarrow> 'a) \<Rightarrow> 'a list \<Rightarrow> 'a \<Rightarrow> bool" where
  "lrest nx ys y \<longleftrightarrow> (case ys of [] \<Rightarrow> True | w # ws \<Rightarrow> lpath nx w ws y)"

lemma lpath_lrest: "lpath nx x ys y \<longleftrightarrow> nx x = hd (ys @ [y]) \<and> lrest nx ys y"
  by (cases ys) (auto simp: lrest_def)

lemma lpath_append_lrest:
  "lpath nx x (xs @ ys) y \<longleftrightarrow> lpath nx x xs (hd (ys @ [y])) \<and> lrest nx ys y"
  by (cases ys) (auto simp: lrest_def)

lemma lpath_next:
  assumes "lpath nx x xs y" "x # xs = as @ p # bs"
  shows "nx p = hd (bs @ [y])"
proof (cases as)
  case Nil
  then show ?thesis using assms by (simp add: lpath_lrest)
next
  case (Cons a as')
  then have "lpath nx p bs y" using assms by simp
  then show ?thesis by (simp add: lpath_lrest)
qed

lemma lrest_cong: "(\<And>z. z \<in> set ys \<Longrightarrow> nx z = nx' z) \<Longrightarrow> lrest nx ys y = lrest nx' ys y"
  using lpath_cong [of "hd ys" "tl ys" nx nx' y] by (cases ys) (simp_all add: lrest_def)

text \<open>Redirecting the link in front of \<open>ys\<close>.\<close>

lemma lpath_relink:
  assumes "lpath nx x xs z" "distinct (x # xs)" "lrest nx' ys y"
    and "\<And>v. v \<in> set (x # xs) \<Longrightarrow> v \<noteq> last (x # xs) \<Longrightarrow> nx' v = nx v"
    and "nx' (last (x # xs)) = hd (ys @ [y])"
  shows "lpath nx' x (xs @ ys) y"
  unfolding lpath_append_lrest
  using lpath_snoc_change [OF assms(1,2), of nx' "hd (ys @ [y])"] assms
    butlast_neq_last [OF assms(2)] in_set_butlastD by (metis)

text \<open>Starting anywhere on the circle, it can be read as a circle from there.\<close>

lemma lpath_rotate:
  assumes "lpath nx x xs x" "y \<in> set (x # xs)"
  obtains ys where "lpath nx y ys y" "set (y # ys) = set (x # xs)"
    "length ys = length xs" "distinct (x # xs) \<Longrightarrow> distinct (y # ys)"
proof (cases "y = x")
  case True with assms that show ?thesis by blast
next
  case False
  then obtain as bs where "xs = as @ y # bs" using assms(2) by (auto simp: in_set_conv_decomp)
  with assms(1) that [of "bs @ x # as"] show ?thesis by auto
qed

lemma lpath_step_in: "lpath nx x xs x \<Longrightarrow> y \<in> set (x # xs) \<Longrightarrow> nx y \<in> set (x # xs)"
  by (erule (1) lpath_rotate) (metis list.set_intros list.simps(15) lpath.elims(2))

lemma lpath_unique_pred:
  assumes "lpath nx x xs x" "distinct (x # xs)" "y \<in> set (x # xs)" "z \<in> set (x # xs)"
    "nx y = nx z"
  shows "y = z"
proof -
  obtain ys where ys: "lpath nx (nx y) ys (nx y)" "set (nx y # ys) = set (x # xs)"
    "distinct (nx y # ys)"
    using lpath_rotate [OF assms(1) lpath_step_in [OF assms(1,3)]] assms(2) by metis
  have "w = last (nx y # ys)" if "w \<in> set (nx y # ys)" "nx w = nx y" for w
  proof (rule ccontr)
    assume "w \<noteq> last (nx y # ys)"
    with that obtain as v bs where "nx y # ys = as @ w # v # bs"
      by (metis in_set_conv_decomp last_snoc neq_Nil_conv append_Nil2 append_is_Nil_conv
          last_appendR list.distinct(1))
    then show False using ys(1,3) that(2) by (cases as) auto
  qed
  then show ?thesis using assms ys(2) by (metis)
qed

end
