(* ===== verification/Rtapi_Heap.thy ===== *)
theory Rtapi_Heap
  imports Byte_Memory
begin

text \<open>
  The shared-memory allocator of \<open>runtime/src/rtapi_heap.c\<close>: a first-fit
  allocator with a circular, address-ordered free list, in which all links
  are byte offsets from the heap descriptor. The free-list header \<open>base\<close> of
  the descriptor is at offset 0 of the byte memory \<open>arena\<close>; a header is the
  4-byte \<open>next\<close> offset, the 24-bit \<open>size\<close> (in 8-byte units) and the 8-bit
  \<open>attr\<close>, written little-endian. The remaining fields of
  \<open>struct rtapi_heap\<close> are fields of the record. The heap mutex serialises
  the operations and the trace messages have no effect on the state; neither
  appears in the model.
\<close>

section \<open>Descriptor and header fields\<close>

record rtapi_heap =
  arena :: bytes
  free_p :: nat
  arena_size :: u64
  hflags :: u32
  requested :: u64
  allocated :: u64
  freed :: u32
  heap_name :: string
  heap_at :: nat

text \<open>
  What can go wrong beyond returning \<open>NULL\<close>: a list walk that never ends, and
  a store outside the segment.
\<close>

datatype heap_err = Hang | Wild_store

definition hdr_size :: nat where "hdr_size = 8"
definition heap_sizeof :: nat where "heap_sizeof = 80"
definition RTAPIHEAP_TRIM :: u32 where "RTAPIHEAP_TRIM = 4"

definition hnext :: "bytes \<Rightarrow> nat \<Rightarrow> nat" where "hnext m p = get_le m p 4"
definition hsize :: "bytes \<Rightarrow> nat \<Rightarrow> nat" where "hsize m p = get_le m (p + 4) 3"
definition hattr :: "bytes \<Rightarrow> nat \<Rightarrow> nat" where "hattr m p = get_le m (p + 7) 1"
definition set_hnext :: "bytes \<Rightarrow> nat \<Rightarrow> nat \<Rightarrow> bytes" where "set_hnext m p v = put_le m p 4 v"
definition set_hsize :: "bytes \<Rightarrow> nat \<Rightarrow> nat \<Rightarrow> bytes" where
  "set_hsize m p v = put_le m (p + 4) 3 v"
definition set_hattr :: "bytes \<Rightarrow> nat \<Rightarrow> nat \<Rightarrow> bytes" where
  "set_hattr m p v = put_le m (p + 7) 1 v"

text \<open>The header belonging to a pointer handed to the client, \<open>(hdr *) ap - 1\<close>.\<close>

definition hdr_of :: "nat \<Rightarrow> nat" where "hdr_of ap = ap - 8"

section \<open>Allocation\<close>

definition heap_nunits :: "nat \<Rightarrow> nat" where
  "heap_nunits nbytes = ((nbytes + 7) mod 2 ^ 64) div 8 + 1"

text \<open>The search loop: the first block that is large enough, with its predecessor.\<close>

partial_function (option) heap_search ::
  "bytes \<Rightarrow> nat \<Rightarrow> nat \<Rightarrow> nat \<Rightarrow> nat \<Rightarrow> (nat \<times> nat) option option" where
  "heap_search m nu freep prevp p =
     (if nu \<le> hsize m p then Some (Some (prevp, p))
      else if p = freep then Some None
      else heap_search m nu freep p (hnext m p))"

definition rtapi_allocsize :: "rtapi_heap \<Rightarrow> nat \<Rightarrow> nat" where
  "rtapi_allocsize h ap =
     (let m = arena h;
          ap' = (if odd (hattr m (hdr_of ap)) then hsize m (hdr_of ap) else ap)
      in unat ((of_nat (hsize m (hdr_of ap')) - 1) * 8 :: u64))"

text \<open>Taking \<open>nu\<close> units from the block \<open>p\<close>: all of it, or its tail end.\<close>

definition heap_take :: "bytes \<Rightarrow> nat \<Rightarrow> nat \<Rightarrow> nat \<Rightarrow> bytes \<times> nat" where
  "heap_take m nu prevp p =
     (if hsize m p = nu
      then (set_hattr (set_hnext m prevp (hnext m p)) p 0, p)
      else let m1 = set_hsize m p (hsize m p - nu);
               q = p + 8 * hsize m1 p
           in (set_hattr (set_hsize m1 q nu) q 0, q))"

definition rtapig_malloc :: "rtapi_heap \<Rightarrow> nat \<Rightarrow> heap_err + (rtapi_heap \<times> nat option)" where
  "rtapig_malloc h nbytes =
     (let nu = heap_nunits nbytes; m = arena h; freep = free_p h in
      case heap_search m nu freep freep (hnext m freep) of
        None \<Rightarrow> Inl Hang
      | Some None \<Rightarrow> Inr (h, None)
      | Some (Some (prevp, p)) \<Rightarrow>
          (let (m', q) = heap_take m nu prevp p;
               h' = h\<lparr>arena := m', free_p := prevp\<rparr>;
               alloced = rtapi_allocsize h' (q + 8)
           in Inr (h'\<lparr>requested := requested h + of_nat nbytes,
                      allocated := allocated h + of_nat alloced\<rparr>, Some (q + 8))))"

definition rtapi_malloc :: "rtapi_heap \<Rightarrow> nat \<Rightarrow> heap_err + (rtapi_heap \<times> nat option)" where
  "rtapi_malloc h nbytes = rtapig_malloc h nbytes"

section \<open>Release\<close>

text \<open>The condition on which the search for the insertion point stops at \<open>p\<close>.\<close>

definition free_stop :: "bytes \<Rightarrow> nat \<Rightarrow> nat \<Rightarrow> bool" where
  "free_stop m bp p \<longleftrightarrow>
     (bp > p \<and> bp < hnext m p) \<or> (p \<ge> hnext m p \<and> (bp > p \<or> bp < hnext m p))"

partial_function (option) free_search :: "bytes \<Rightarrow> nat \<Rightarrow> nat \<Rightarrow> nat option" where
  "free_search m bp p = (if free_stop m bp p then Some p else free_search m bp (hnext m p))"

definition join_upper :: "bytes \<Rightarrow> nat \<Rightarrow> nat \<Rightarrow> bytes" where
  "join_upper m bp p =
     (if bp + 8 * hsize m bp = hnext m p
      then let m1 = set_hsize m bp (hsize m bp + hsize m (hnext m p))
           in set_hnext m1 bp (hnext m1 (hnext m1 p))
      else set_hnext m bp (hnext m p))"

definition join_lower :: "bytes \<Rightarrow> nat \<Rightarrow> nat \<Rightarrow> bytes" where
  "join_lower m bp p =
     (if p + 8 * hsize m p = bp
      then let m1 = set_hsize m p (hsize m p + hsize m bp) in set_hnext m1 p (hnext m1 bp)
      else set_hnext m p bp)"

definition rtapi_unlocked_free :: "rtapi_heap \<Rightarrow> nat \<Rightarrow> heap_err + rtapi_heap" where
  "rtapi_unlocked_free h ap0 =
     (let m = arena h;
          ap = (if odd (hattr m (hdr_of ap0)) then hsize m (hdr_of ap0) else ap0);
          bp = hdr_of ap
      in case free_search m bp (free_p h) of
           None \<Rightarrow> Inl Hang
         | Some p \<Rightarrow>
             Inr (h\<lparr>arena := join_lower (join_upper m bp p) bp p, free_p := p,
                    freed := freed h + ucast (8 * (of_nat (hsize m bp) - 1) :: u64)\<rparr>))"

definition rtapi_free :: "rtapi_heap \<Rightarrow> nat \<Rightarrow> heap_err + rtapi_heap" where
  "rtapi_free h ap = rtapi_unlocked_free h ap"

section \<open>Derived allocation operations\<close>

definition rtapi_malloc_aligned ::
  "rtapi_heap \<Rightarrow> nat \<Rightarrow> u64 \<Rightarrow> heap_err + (rtapi_heap \<times> nat option)" where
  "rtapi_malloc_aligned h nbytes align =
     (if align AND (align - 1) \<noteq> 0 then Inr (h, None)
      else case rtapig_malloc h (unat (of_nat nbytes + align)) of
        Inl e \<Rightarrow> Inl e
      | Inr (h1, b) \<Rightarrow>
         (let base = (case b of None \<Rightarrow> 0 | Some off \<Rightarrow> of_nat (heap_at h + off)) :: u64;
              result = (base + align) AND (- align);
              slack = result - base
          in if slack < 4 then Inr (h1, None)
             else if unat result < heap_at h + 4 then Inl Wild_store
             else
               (let boff = unat (base - of_nat (heap_at h));
                    ro = unat result - heap_at h;
                    m1 = set_hsize (set_hattr (arena h1) (ro - 8) 1) (ro - 8) boff;
                    h2 = h1\<lparr>arena := m1\<rparr>;
                    trim = unat (align - slack) div 8
                in if hflags h AND RTAPIHEAP_TRIM \<noteq> 0 \<and> trim > 0
                   then let this = hdr_of boff;
                            new = this + 8 * (hsize m1 this - trim);
                            m2 = set_hnext m1 new (hnext m1 this);
                            m3 = set_hattr (set_hsize m2 new trim) new 0;
                            m4 = set_hsize (set_hnext m3 this new) this (hsize m3 this - trim)
                        in case rtapi_unlocked_free (h2\<lparr>arena := m4\<rparr>) (new + 8) of
                             Inl e \<Rightarrow> Inl e
                           | Inr h3 \<Rightarrow> Inr (h3, Some ro)
                   else Inr (h2, Some ro))))"

definition rtapi_calloc ::
  "rtapi_heap \<Rightarrow> nat \<Rightarrow> nat \<Rightarrow> heap_err + (rtapi_heap \<times> nat option)" where
  "rtapi_calloc h nelem elsize =
     (let n = (nelem * elsize) mod 2 ^ 64 in
      case rtapi_malloc h n of
        Inl e \<Rightarrow> Inl e
      | Inr (h', None) \<Rightarrow> Inr (h', None)
      | Inr (h', Some p) \<Rightarrow> Inr (h'\<lparr>arena := fill_bytes (arena h') p n 0\<rparr>, Some p))"

definition rtapi_realloc ::
  "rtapi_heap \<Rightarrow> nat \<Rightarrow> nat \<Rightarrow> heap_err + (rtapi_heap \<times> nat option)" where
  "rtapi_realloc h ptr nsize =
     (let sz = rtapi_allocsize h ptr in
      if nsize \<le> sz then Inr (h, Some ptr)
      else case rtapi_malloc h nsize of
        Inl e \<Rightarrow> Inl e
      | Inr (h', None) \<Rightarrow> Inr (h', None)
      | Inr (h', Some p) \<Rightarrow>
         (case rtapi_free (h'\<lparr>arena := copy_bytes (arena h') p ptr (if sz > nsize then nsize else sz)\<rparr>)
                 ptr of
            Inl e \<Rightarrow> Inl e
          | Inr h'' \<Rightarrow> Inr (h'', Some p)))"

section \<open>Inspection, growth and initialisation\<close>

text \<open>
  The loop shared by \<open>rtapi_heap_walk_freelist\<close> and \<open>rtapi_heap_status\<close>:
  visit every element of the circle once, \<open>free_p\<close> last.
\<close>

partial_function (option) heap_visit ::
  "bytes \<Rightarrow> nat \<Rightarrow> ('s \<Rightarrow> nat \<Rightarrow> 's) \<Rightarrow> nat \<Rightarrow> 's \<Rightarrow> 's option" where
  "heap_visit m freep f p s =
     (if p = freep then Some (f s p) else heap_visit m freep f (hnext m p) (f s p))"

definition walk_chunk ::
  "bytes \<Rightarrow> ('u \<Rightarrow> nat \<Rightarrow> nat \<Rightarrow> 'u) option \<Rightarrow> nat \<times> 'u \<Rightarrow> nat \<Rightarrow> nat \<times> 'u" where
  "walk_chunk m callback s p =
     (case callback of None \<Rightarrow> s
      | Some cb \<Rightarrow>
          if hsize m p \<noteq> 0 then (fst s + hsize m p, cb (snd s) (hsize m p * 8) (p + 8)) else s)"

definition rtapi_heap_walk_freelist ::
  "rtapi_heap \<Rightarrow> ('u \<Rightarrow> nat \<Rightarrow> nat \<Rightarrow> 'u) option \<Rightarrow> 'u \<Rightarrow> (nat \<times> 'u) option" where
  "rtapi_heap_walk_freelist h callback user =
     heap_visit (arena h) (free_p h) (walk_chunk (arena h) callback)
       (hnext (arena h) (free_p h)) (0, user)"

definition rtapi_heap_addmem :: "rtapi_heap \<Rightarrow> nat \<Rightarrow> nat \<Rightarrow> heap_err + (rtapi_heap \<times> int)" where
  "rtapi_heap_addmem h space nbytes =
     (if space < heap_at h then Inr (h, - EINVAL)
      else
        (let a = space - heap_at h;
             clicks = nbytes div 8;
             m = set_hsize (fill_bytes (arena h) a nbytes 0) a clicks
         in case rtapi_unlocked_free (h\<lparr>arena := m\<rparr>) (a + 8) of
              Inl e \<Rightarrow> Inl e
            | Inr h' \<Rightarrow>
                Inr (h'\<lparr>freed := freed h' - ucast ((of_nat clicks - 1) * 8 :: u64),
                        arena_size := arena_size h' + of_nat nbytes\<rparr>, 0)))"

definition rtapi_heap_init :: "rtapi_heap \<Rightarrow> string option \<Rightarrow> string \<Rightarrow> rtapi_heap" where
  "rtapi_heap_init h nm at_text =
     h\<lparr>arena := set_hsize (set_hnext (arena h) 0 0) 0 0, free_p := 0, arena_size := 0,
       hflags := 0, requested := 0, allocated := 0, freed := 0,
       heap_name := (case nm of Some n \<Rightarrow> take 16 n | None \<Rightarrow> take 15 at_text)\<rparr>"

definition rtapi_heap_setflags :: "rtapi_heap \<Rightarrow> u32 \<Rightarrow> rtapi_heap \<times> u32" where
  "rtapi_heap_setflags h f = (h\<lparr>hflags := f\<rparr>, hflags h)"

record rtapi_heap_stat =
  st_arena_size :: u64
  st_total_avail :: nat
  st_fragments :: nat
  st_largest :: nat
  st_requested :: u64
  st_allocated :: u64
  st_freed :: u64

definition status_chunk :: "bytes \<Rightarrow> nat \<times> nat \<times> nat \<Rightarrow> nat \<Rightarrow> nat \<times> nat \<times> nat" where
  "status_chunk m s p =
     (case s of (avail, frags, largest) \<Rightarrow>
        if hsize m p \<noteq> 0
        then (avail + hsize m p, frags + 1, if hsize m p > largest then hsize m p else largest)
        else s)"

definition rtapi_heap_status :: "rtapi_heap \<Rightarrow> (rtapi_heap_stat \<times> nat) option" where
  "rtapi_heap_status h =
     (case heap_visit (arena h) (free_p h) (status_chunk (arena h))
             (hnext (arena h) (free_p h)) (0, 0, 0) of
        None \<Rightarrow> None
      | Some (avail, frags, largest) \<Rightarrow>
          Some (\<lparr>st_arena_size = arena_size h, st_total_avail = avail * 8, st_fragments = frags,
                  st_largest = largest * 8, st_requested = requested h,
                  st_allocated = allocated h, st_freed = scast (freed h)\<rparr>, largest * 8))"

end
