(* ===== verification/Hal_List.thy ===== *)
theory Hal_List
  imports Byte_Memory
begin

text \<open>
  The circular doubly linked lists of \<open>hal/include/hal/hal_list.h\<close>. The links
  are offsets from the start of the HAL segment; \<open>SHMPTR\<close> and \<open>SHMOFF\<close> are
  mutually inverse, so an entry is identified with its offset. The HAL
  theories keep such a list as an Isabelle list; the refinement lemmas below
  justify it.
\<close>

record dlinks =
  dnext :: "nat \<Rightarrow> nat"
  dprev :: "nat \<Rightarrow> nat"

definition dlist_prev :: "dlinks \<Rightarrow> nat \<Rightarrow> nat" where "dlist_prev d entry = dprev d entry"

definition dlist_next :: "dlinks \<Rightarrow> nat \<Rightarrow> nat" where "dlist_next d entry = dnext d entry"

definition dlist_empty :: "dlinks \<Rightarrow> nat \<Rightarrow> bool" where
  "dlist_empty d head \<longleftrightarrow> dlist_next d head = head"

definition dlist_empty_careful :: "dlinks \<Rightarrow> nat \<Rightarrow> bool" where
  "dlist_empty_careful d head \<longleftrightarrow>
     (let next = dlist_next d head in next = head \<and> next = dlist_prev d head)"

definition dlist_init_entry :: "dlinks \<Rightarrow> nat \<Rightarrow> dlinks" where
  "dlist_init_entry d entry =
     d\<lparr>dnext := (dnext d)(entry := entry), dprev := (dprev d)(entry := entry)\<rparr>"

definition dlist_add_after :: "dlinks \<Rightarrow> nat \<Rightarrow> nat \<Rightarrow> dlinks" where
  "dlist_add_after d entry prev =
     (let next = dnext d prev
      in d\<lparr>dnext := (dnext d)(entry := next, prev := entry),
           dprev := (dprev d)(entry := prev, next := entry)\<rparr>)"

definition dlist_add_before :: "dlinks \<Rightarrow> nat \<Rightarrow> nat \<Rightarrow> dlinks" where
  "dlist_add_before d entry next =
     (let prev = dprev d next
      in d\<lparr>dnext := (dnext d)(entry := next, prev := entry),
           dprev := (dprev d)(entry := prev, next := entry)\<rparr>)"

definition dlist_remove_entry :: "dlinks \<Rightarrow> nat \<Rightarrow> dlinks \<times> nat" where
  "dlist_remove_entry d entry =
     (let prev = dprev d entry; next = dnext d entry;
          d1 = d\<lparr>dnext := (dnext d)(prev := dnext d entry)\<rparr>;
          d2 = d1\<lparr>dprev := (dprev d1)(next := dprev d1 entry)\<rparr>
      in (d2\<lparr>dnext := (dnext d2)(entry := entry), dprev := (dprev d2)(entry := entry)\<rparr>, next))"

section \<open>Representation of a list\<close>

definition dlist_rep :: "dlinks \<Rightarrow> nat \<Rightarrow> nat list \<Rightarrow> bool" where
  "dlist_rep d head xs \<longleftrightarrow>
     lpath (dnext d) head xs head \<and> lpath (dprev d) head (rev xs) head \<and> distinct (head # xs)"

lemma lpath_link_in:
  assumes "lpath nx h (ys @ zs) h" "distinct (h # ys @ zs)" "e \<notin> set (h # ys @ zs)"
  shows "lpath (nx(e := hd (zs @ [h]), last (h # ys) := e)) h (ys @ e # zs) h"
    (is "lpath ?nx _ _ _")
proof -
  have p: "lpath nx h ys (hd (zs @ [h]))" "lrest nx zs h"
    using assms(1) by (auto simp: lpath_append_lrest)
  have last_in: "last (h # ys) \<in> set (h # ys)" by (rule last_in_set) simp
  then have "last (h # ys) \<notin> set zs" using assms(2) by auto
  then have "lrest ?nx zs h = lrest nx zs h"
    using assms(3) by (intro lrest_cong) (auto simp del: last.simps)
  then have "lrest ?nx (e # zs) h"
    using p last_in assms(3) by (auto simp: lrest_def [of _ "e # zs"] lpath_lrest simp del: last.simps)
  then show ?thesis
    using p(1) assms(2,3) last_in by (intro lpath_relink [of nx h ys]) (auto simp del: last.simps)
qed

lemma lpath_link_out:
  assumes "lpath nx h (ys @ e # zs) h" "distinct (h # ys @ e # zs)"
  shows "lpath (nx(last (h # ys) := nx e, e := e)) h (ys @ zs) h" (is "lpath ?nx _ _ _")
proof -
  have p: "lpath nx h ys e" "nx e = hd (zs @ [h])" "lrest nx zs h"
    using assms(1) by (auto simp: lpath_lrest [of _ e])
  have last_in: "last (h # ys) \<in> set (h # ys)" by (rule last_in_set) simp
  then have "last (h # ys) \<notin> set zs" "last (h # ys) \<noteq> e" using assms(2) by auto
  moreover from this have "lrest ?nx zs h = lrest nx zs h"
    using assms(2) by (intro lrest_cong) (auto simp del: last.simps)
  ultimately show ?thesis
    using p assms(2) by (intro lpath_relink [of nx h ys e]) (auto simp del: last.simps)
qed

lemma rev_ends: "last (h # rev zs) = hd (zs @ [h])" "hd (rev ys @ [h]) = last (h # ys)"
  by (cases zs; simp) (cases ys rule: rev_cases; simp)

lemma dlist_rep_prev: "dlist_rep d h (ys @ zs) \<Longrightarrow> dprev d (hd (zs @ [h])) = last (h # ys)"
proof -
  assume "dlist_rep d h (ys @ zs)"
  then have "lpath (dprev d) h (rev zs) (hd (rev ys @ [h]))"
    by (auto simp: dlist_rep_def lpath_append_lrest)
  then show ?thesis unfolding rev_ends by (drule_tac lpath_last) (simp only: rev_ends)
qed

lemma dlist_rep_next: "dlist_rep d h (ys @ zs) \<Longrightarrow> dnext d (last (h # ys)) = hd (zs @ [h])"
  by (auto simp: dlist_rep_def lpath_append_lrest dest: lpath_last)

lemma rep_init: "dlist_rep (dlist_init_entry d h) h []"
  by (simp add: dlist_rep_def dlist_init_entry_def)

lemma rep_add_before:
  assumes rep: "dlist_rep d h (ys @ zs)" and e: "e \<notin> set (h # ys @ zs)"
  shows "dlist_rep (dlist_add_before d e (hd (zs @ [h]))) h (ys @ e # zs)"
proof -
  have p: "dprev d (hd (zs @ [h])) = last (h # ys)" by (rule dlist_rep_prev [OF rep])
  have "lpath ((dnext d)(e := hd (zs @ [h]), last (h # ys) := e)) h (ys @ e # zs) h"
    by (rule lpath_link_in) (use rep e in \<open>auto simp: dlist_rep_def\<close>)
  moreover have "lpath ((dprev d)(e := hd (rev ys @ [h]), last (h # rev zs) := e)) h (rev zs @ e # rev ys) h"
    by (rule lpath_link_in) (use rep e in \<open>auto simp: dlist_rep_def\<close>)
  ultimately show ?thesis
    using rep e unfolding rev_ends dlist_rep_def dlist_add_before_def Let_def p by auto
qed

lemma rep_add_after:
  assumes rep: "dlist_rep d h (ys @ zs)" and e: "e \<notin> set (h # ys @ zs)"
  shows "dlist_rep (dlist_add_after d e (last (h # ys))) h (ys @ e # zs)"
proof -
  have "dlist_add_after d e (last (h # ys)) = dlist_add_before d e (hd (zs @ [h]))"
    unfolding dlist_add_after_def dlist_add_before_def Let_def
      dlist_rep_next [OF rep] dlist_rep_prev [OF rep] ..
  then show ?thesis using rep_add_before [OF assms] by simp
qed

lemma rep_remove:
  assumes rep: "dlist_rep d h (ys @ e # zs)"
  shows "dlist_rep (fst (dlist_remove_entry d e)) h (ys @ zs)"
    "snd (dlist_remove_entry d e) = hd (zs @ [h])"
proof -
  have n: "dnext d e = hd (zs @ [h])" using rep by (auto simp: dlist_rep_def lpath_lrest [of _ e])
  have p: "dprev d e = last (h # ys)" using dlist_rep_prev [of d h ys "e # zs"] rep by simp
  have d: "distinct (h # ys @ e # zs)" using rep by (simp add: dlist_rep_def)
  have "lpath ((dnext d)(last (h # ys) := dnext d e, e := e)) h (ys @ zs) h"
    by (rule lpath_link_out) (use rep in \<open>auto simp: dlist_rep_def\<close>)
  moreover have "lpath ((dprev d)(last (h # rev zs) := dprev d e, e := e)) h (rev zs @ rev ys) h"
    by (rule lpath_link_out) (use rep in \<open>auto simp: dlist_rep_def\<close>)
  ultimately show "dlist_rep (fst (dlist_remove_entry d e)) h (ys @ zs)"
    using d unfolding rev_ends dlist_rep_def dlist_remove_entry_def Let_def
    by (auto simp: n p simp del: last.simps)
  show "snd (dlist_remove_entry d e) = hd (zs @ [h])"
    by (simp add: dlist_remove_entry_def Let_def n)
qed

section \<open>The list interface\<close>

text \<open>
  What the HAL code relies on: an entry added before another one stands
  right in front of it, removal takes out exactly the entry, and the rest of
  the list keeps its order.
\<close>

locale linked_list =
  fixes rep :: "'s \<Rightarrow> 'a \<Rightarrow> 'a list \<Rightarrow> bool"
    and init :: "'s \<Rightarrow> 'a \<Rightarrow> 's"
    and add_before :: "'s \<Rightarrow> 'a \<Rightarrow> 'a \<Rightarrow> 's"
    and remove :: "'s \<Rightarrow> 'a \<Rightarrow> 's"
  assumes init_rep: "rep (init s h) h []"
    and add_rep: "rep s h (ys @ zs) \<Longrightarrow> e \<notin> set (h # ys @ zs) \<Longrightarrow>
          rep (add_before s e (hd (zs @ [h]))) h (ys @ e # zs)"
    and remove_rep: "rep s h (ys @ e # zs) \<Longrightarrow> rep (remove s e) h (ys @ zs)"
begin

lemma append_rep: "rep s h xs \<Longrightarrow> e \<notin> set (h # xs) \<Longrightarrow> rep (add_before s e h) h (xs @ [e])"
  using add_rep [of s h xs "[]" e] by simp

lemma build_rep:
  "distinct es \<Longrightarrow> h \<notin> set es \<Longrightarrow> rep (foldl (\<lambda>s e. add_before s e h) (init s h) es) h es"
proof (induction es rule: rev_induct)
  case (snoc e es)
  then show ?case using append_rep [of "foldl (\<lambda>s e. add_before s e h) (init s h) es" h es e] by auto
qed (simp add: init_rep)

lemma add_remove_rep:
  "rep s h (ys @ zs) \<Longrightarrow> e \<notin> set (h # ys @ zs) \<Longrightarrow>
   rep (remove (add_before s e (hd (zs @ [h]))) e) h (ys @ zs)"
  by (rule remove_rep [OF add_rep])

end

interpretation dl: linked_list dlist_rep dlist_init_entry dlist_add_before
  "\<lambda>d e. fst (dlist_remove_entry d e)"
  by unfold_locales (rule rep_init, rule rep_add_before, assumption+, rule rep_remove)

text \<open>C14: The pointer operations of the doubly linked list refine list
  insertion and removal, at any position and for the empty list: adding before
  an element puts the entry in front of it, adding after the last element of a
  prefix puts it behind that prefix, and removal takes out the entry and
  returns its successor.\<close>

theorem dlist_refines_list:
  assumes "dlist_rep d h (ys @ zs)" "e \<notin> set (h # ys @ zs)"
  shows "dlist_rep (dlist_add_before d e (hd (zs @ [h]))) h (ys @ e # zs) \<and>
    dlist_rep (dlist_add_after d e (last (h # ys))) h (ys @ e # zs) \<and>
    dlist_rep (fst (dlist_remove_entry (dlist_add_before d e (hd (zs @ [h]))) e)) h (ys @ zs) \<and>
    snd (dlist_remove_entry (dlist_add_before d e (hd (zs @ [h]))) e) = hd (zs @ [h])"
  using rep_add_before [OF assms] rep_add_after [OF assms] dl.add_remove_rep [OF assms] rep_remove(2)
  by blast

theorem dlist_refines_list_witness:
  "dlist_rep (dlist_add_before (dlist_add_before
     (dlist_init_entry \<lparr>dnext = \<lambda>_. 0, dprev = \<lambda>_. 0\<rparr> 8) 16 8) 24 16) 8 [24, 16]"
proof -
  have "dlist_rep (dlist_add_before (dlist_init_entry \<lparr>dnext = \<lambda>_. 0, dprev = \<lambda>_. 0\<rparr> 8) 16 8) 8 [16]"
    using dl.append_rep [OF rep_init, of 16 8] by simp
  then show ?thesis using dlist_refines_list [of _ 8 "[]" "[16]" 24] by simp
qed

end
