(* ===== verification/Rtapi_Task.thy ===== *)
theory Rtapi_Task
  imports Hal_Prelude
begin

text \<open>
  RTAPI tasks, time base and shared-memory handles: \<open>rtapi_task.c\<close>,
  \<open>rtapi_time.c\<close>, \<open>rtapi_shmem.c\<close> and the hook wrappers of
  \<open>rtapi_flavor_hook_wrappers.c\<close>. The hooks of the thread flavor, the
  resolution of the monotonic clock and the operating system's
  \<open>shm_common_new\<close> and \<open>shm_common_detach\<close> are data of the record \<open>flavor\<close>;
  a missing hook is \<open>None\<close>. Each operation holds the RTAPI mutex from its
  first access to its last one.
\<close>

definition PRIO_LOWEST :: int where "PRIO_LOWEST = 0"
definition PRIO_HIGHEST :: int where "PRIO_HIGHEST = 99"
definition RTAPI_MAX_TASKS :: nat where "RTAPI_MAX_TASKS = 64"
definition RTAPI_MAX_SHMEMS :: nat where "RTAPI_MAX_SHMEMS = 32"
definition TASK_MAGIC :: int where "TASK_MAGIC = 21979"
definition SHMEM_MAGIC :: int where "SHMEM_MAGIC = 25453"
definition MIN_STACKSIZE :: nat where "MIN_STACKSIZE = 32768"
definition RTAPI_LINELEN :: nat where "RTAPI_LINELEN = 255"

datatype task_state = EMPTY | PAUSED | PERIODIC | FREERUN | ENDED | USERLAND | DELETE_LOCKED

record task_data =
  task_magic :: int
  task_name :: string
  task_uses_fp :: int
  task_stacksize :: nat
  task_period :: int
  task_ratio :: int
  task_pll_correction :: int
  task_pll_correction_limit :: int
  task_st :: task_state
  task_prio :: int
  task_owner :: int
  task_code :: nat
  task_arg :: nat
  task_cpu :: int
  task_flags :: int
  task_cgname :: string

record shmem_data =
  shm_magic :: int
  shm_key :: int
  shm_count :: int
  shm_instance :: int
  shm_size :: nat
  shm_mem :: nat

record flavor =
  task_new_hook :: "(task_data \<Rightarrow> nat \<Rightarrow> int) option"
  task_delete_hook :: "(task_data \<Rightarrow> nat \<Rightarrow> int) option"
  task_start_hook :: "task_data \<Rightarrow> nat \<Rightarrow> int"
  task_stop_hook :: "task_data \<Rightarrow> nat \<Rightarrow> int"
  task_pause_hook :: "(task_data \<Rightarrow> nat \<Rightarrow> int) option"
  task_resume_hook :: "(task_data \<Rightarrow> nat \<Rightarrow> int) option"
  no_clock_monotonic :: bool
  clock_res :: int
  shm_common_new :: "int \<Rightarrow> nat \<Rightarrow> int \<times> nat \<times> nat"
  shm_common_detach :: "nat \<Rightarrow> nat \<Rightarrow> int"

record rtapi_state =
  flv :: flavor
  rtapi_instance :: string
  task_count :: int
  rt_cpu :: int
  task_array :: "task_data list"
  shmem_array :: "shmem_data list"
  rt_period :: int
  rt_fault :: bool

section \<open>Priorities\<close>

definition rtapi_prio_highest :: int where "rtapi_prio_highest = PRIO_HIGHEST"
definition rtapi_prio_lowest :: int where "rtapi_prio_lowest = PRIO_LOWEST"

definition rtapi_prio_next_higher :: "int \<Rightarrow> int" where
  "rtapi_prio_next_higher prio0 =
     (let prio = prio0 + 1 in
      if prio > rtapi_prio_highest then rtapi_prio_highest
      else if prio < rtapi_prio_lowest then rtapi_prio_lowest else prio)"

definition rtapi_prio_next_lower :: "int \<Rightarrow> int" where
  "rtapi_prio_next_lower prio0 =
     (let prio = prio0 - 1 in
      if prio > rtapi_prio_highest then rtapi_prio_highest
      else if prio < rtapi_prio_lowest then rtapi_prio_lowest else prio)"

section \<open>Hook wrappers\<close>

definition flavor_task_new_hook :: "flavor \<Rightarrow> task_data \<Rightarrow> nat \<Rightarrow> int" where
  "flavor_task_new_hook f t i = (case task_new_hook f of Some g \<Rightarrow> g t i | None \<Rightarrow> - ENOSYS)"
definition flavor_task_delete_hook :: "flavor \<Rightarrow> task_data \<Rightarrow> nat \<Rightarrow> int" where
  "flavor_task_delete_hook f t i = (case task_delete_hook f of Some g \<Rightarrow> g t i | None \<Rightarrow> 0)"
definition flavor_task_start_hook :: "flavor \<Rightarrow> task_data \<Rightarrow> nat \<Rightarrow> int" where
  "flavor_task_start_hook f t i = task_start_hook f t i"
definition flavor_task_stop_hook :: "flavor \<Rightarrow> task_data \<Rightarrow> nat \<Rightarrow> int" where
  "flavor_task_stop_hook f t i = task_stop_hook f t i"
definition flavor_task_pause_hook :: "flavor \<Rightarrow> task_data \<Rightarrow> nat \<Rightarrow> int" where
  "flavor_task_pause_hook f t i = (case task_pause_hook f of Some g \<Rightarrow> g t i | None \<Rightarrow> 0)"
definition flavor_task_resume_hook :: "flavor \<Rightarrow> task_data \<Rightarrow> nat \<Rightarrow> int" where
  "flavor_task_resume_hook f t i = (case task_resume_hook f of Some g \<Rightarrow> g t i | None \<Rightarrow> - ENOSYS)"

section \<open>Tasks\<close>

record rtapi_task_args =
  ra_code :: nat
  ra_arg :: nat
  ra_prio :: int
  ra_owner :: int
  ra_stacksize :: nat
  ra_uses_fp :: int
  ra_cpu_id :: int
  ra_name :: string
  ra_flags :: int
  ra_cgname :: string

text \<open>The search for an empty slot; the index may run up to the limit.\<close>

function find_task_slot :: "task_data list \<Rightarrow> nat \<Rightarrow> nat" where
  "find_task_slot ts i =
     (if i < RTAPI_MAX_TASKS \<and> task_magic (ts ! i) = TASK_MAGIC then find_task_slot ts (i + 1) else i)"
  by auto

termination find_task_slot
  by (relation "measure (\<lambda>(ts, i). RTAPI_MAX_TASKS - i)") auto

declare find_task_slot.simps [simp del]

definition rtapi_task_new :: "rtapi_task_args \<Rightarrow> rtapi_state \<Rightarrow> rtapi_state \<times> int" where
  "rtapi_task_new args r =
     (let task_id = find_task_slot (task_array r) 1 in
      if task_id = RTAPI_MAX_TASKS then (r, - ENOMEM)
      else if ra_prio args < rtapi_prio_lowest \<or> ra_prio args > rtapi_prio_highest then (r, - EINVAL)
      else
       (let task = (task_array r ! task_id)
              \<lparr>task_magic := TASK_MAGIC, task_owner := ra_owner args, task_arg := ra_arg args,
               task_stacksize := (if ra_stacksize args < MIN_STACKSIZE then MIN_STACKSIZE
                                  else ra_stacksize args),
               task_code := ra_code args, task_prio := ra_prio args, task_flags := ra_flags args,
               task_uses_fp := ra_uses_fp args,
               task_cpu := (if ra_cpu_id args > -1 then ra_cpu_id args else rt_cpu r),
               task_cgname := take RTAPI_LINELEN (ra_cgname args),
               task_name := take 30 (ra_name args @ '':'' @ rtapi_instance r),
               task_st := USERLAND\<rparr>;
            retval = flavor_task_new_hook (flv r) task task_id
        in (r\<lparr>task_array := (task_array r)[task_id := task], task_count := task_count r + 1\<rparr>,
            int task_id)))"

text \<open>\<open>IS_TASK_ID_VALID\<close> and the check of the magic number.\<close>

definition task_handle :: "rtapi_state \<Rightarrow> int \<Rightarrow> nat option" where
  "task_handle r task_id =
     (if task_id \<le> 0 \<or> task_id \<ge> int RTAPI_MAX_TASKS then None
      else if task_magic (task_array r ! nat task_id) \<noteq> TASK_MAGIC then None
      else Some (nat task_id))"

definition rtapi_task_delete :: "int \<Rightarrow> rtapi_state \<Rightarrow> rtapi_state \<times> int" where
  "rtapi_task_delete task_id r =
     (case task_handle r task_id of
        None \<Rightarrow> (r, - EINVAL)
      | Some i \<Rightarrow>
         (r\<lparr>task_array := (task_array r)[i := (task_array r ! i)\<lparr>task_st := EMPTY, task_magic := 0\<rparr>]\<rparr>, 0))"

text \<open>A period of 0 makes the C code divide by zero.\<close>

definition rtapi_task_start :: "int \<Rightarrow> int \<Rightarrow> rtapi_state \<Rightarrow> rtapi_state \<times> int" where
  "rtapi_task_start task_id period_nsec0 r =
     (case task_handle r task_id of
        None \<Rightarrow> (r, - EINVAL)
      | Some i \<Rightarrow>
         if rt_period r = 0 then (r\<lparr>rt_fault := True\<rparr>, - EINVAL)
         else
          (let period_nsec = (if period_nsec0 < rt_period r then rt_period r else period_nsec0);
               task = (task_array r ! i)\<lparr>task_period := period_nsec,
                        task_ratio := period_nsec div rt_period r,
                        task_pll_correction_limit := period_nsec div 100, task_pll_correction := 0\<rparr>
           in (r\<lparr>task_array := (task_array r)[i := task]\<rparr>, flavor_task_start_hook (flv r) task i)))"

definition rtapi_task_stop :: "int \<Rightarrow> rtapi_state \<Rightarrow> rtapi_state \<times> int" where
  "rtapi_task_stop task_id r =
     (case task_handle r task_id of None \<Rightarrow> (r, - EINVAL) | Some i \<Rightarrow> (r, 0))"

definition rtapi_task_pause :: "int \<Rightarrow> rtapi_state \<Rightarrow> rtapi_state \<times> int" where
  "rtapi_task_pause task_id r =
     (case task_handle r task_id of
        None \<Rightarrow> (r, - EINVAL)
      | Some i \<Rightarrow> (r, flavor_task_pause_hook (flv r) (task_array r ! i) i))"

definition rtapi_task_resume :: "int \<Rightarrow> rtapi_state \<Rightarrow> rtapi_state \<times> int" where
  "rtapi_task_resume task_id r =
     (case task_handle r task_id of
        None \<Rightarrow> (r, - EINVAL)
      | Some i \<Rightarrow> (r, flavor_task_resume_hook (flv r) (task_array r ! i) i))"

section \<open>Time base\<close>

definition rtapi_clock_set_period :: "int \<Rightarrow> rtapi_state \<Rightarrow> rtapi_state \<times> int" where
  "rtapi_clock_set_period nsecs r =
     (if nsecs = 0 then (r, rt_period r)
      else if rt_period r \<noteq> 0 then (r, - EINVAL)
      else if no_clock_monotonic (flv r) then (r\<lparr>rt_period := to_s32 nsecs\<rparr>, to_s32 nsecs)
      else
       (let res = clock_res (flv r); p = to_s32 ((nsecs div res) * res);
            p' = (if p < 1 then res else p)
        in (r\<lparr>rt_period := p'\<rparr>, p')))"

definition rtapi_delay :: "int \<Rightarrow> int \<Rightarrow> int" where
  "rtapi_delay max_delay nsec = (if nsec > max_delay then max_delay else nsec)"

section \<open>Shared-memory handles\<close>

function find_shmem :: "shmem_data list \<Rightarrow> int \<Rightarrow> nat \<Rightarrow> nat \<times> bool" where
  "find_shmem sa key i =
     (if i < RTAPI_MAX_SHMEMS then
        if shm_magic (sa ! i) = SHMEM_MAGIC \<and> shm_key (sa ! i) = key then (i, True)
        else if shm_magic (sa ! i) \<noteq> SHMEM_MAGIC then (i, False)
        else find_shmem sa key (i + 1)
      else (i, False))"
  by auto

termination find_shmem
  by (relation "measure (\<lambda>(sa, key, i). RTAPI_MAX_SHMEMS - i)") auto

declare find_shmem.simps [simp del]

text \<open>\<open>key\<close> is the operating-system key \<open>OS_KEY(userkey, instance)\<close>.\<close>

definition rtapi_shmem_new_inst :: "int \<Rightarrow> int \<Rightarrow> nat \<Rightarrow> rtapi_state \<Rightarrow> rtapi_state \<times> int" where
  "rtapi_shmem_new_inst key instnce sz r =
     (case find_shmem (shmem_array r) key 1 of
        (i, True) \<Rightarrow>
          (r\<lparr>shmem_array := (shmem_array r)[i := (shmem_array r ! i)
               \<lparr>shm_count := shm_count (shmem_array r ! i) + 1\<rparr>]\<rparr>, int i)
      | (i, False) \<Rightarrow>
          if i = RTAPI_MAX_SHMEMS then (r, - ENOMEM)
          else
           (case shm_common_new (flv r) key sz of
              (ret, actual_size, mem) \<Rightarrow>
                if ret < 0 then (r, ret)
                else (r\<lparr>shmem_array := (shmem_array r)[i := \<lparr>shm_magic = SHMEM_MAGIC, shm_key = key,
                          shm_count = 1, shm_instance = instnce, shm_size = actual_size,
                          shm_mem = mem\<rparr>]\<rparr>, int i)))"

definition rtapi_shmem_getptr_inst :: "int \<Rightarrow> rtapi_state \<Rightarrow> int \<times> (nat \<times> nat) option" where
  "rtapi_shmem_getptr_inst handle r =
     (if handle < 1 \<or> handle \<ge> int RTAPI_MAX_SHMEMS then (- EINVAL, None)
      else let sh = shmem_array r ! nat handle in
        if shm_magic sh \<noteq> SHMEM_MAGIC then (- ENOENT, None)
        else (0, Some (shm_mem sh, shm_size sh)))"

definition rtapi_shmem_delete_inst :: "int \<Rightarrow> rtapi_state \<Rightarrow> rtapi_state \<times> int" where
  "rtapi_shmem_delete_inst handle r =
     (if handle < 1 \<or> handle \<ge> int RTAPI_MAX_SHMEMS then (r, - EINVAL)
      else let i = nat handle; sh = shmem_array r ! i in
        if shm_magic sh \<noteq> SHMEM_MAGIC then (r, - EINVAL)
        else
         (let sh1 = sh\<lparr>shm_count := shm_count sh - 1\<rparr> in
          if shm_count sh1 \<noteq> 0 then (r\<lparr>shmem_array := (shmem_array r)[i := sh1]\<rparr>, 0)
          else
           (let retval = shm_common_detach (flv r) (shm_size sh1) (shm_mem sh1)
            in (r\<lparr>shmem_array := (shmem_array r)[i := sh1\<lparr>shm_magic := 0\<rparr>]\<rparr>, retval))))"

definition rtapi_shmem_new :: "int \<Rightarrow> nat \<Rightarrow> rtapi_state \<Rightarrow> rtapi_state \<times> int" where
  "rtapi_shmem_new key sz r = rtapi_shmem_new_inst key 0 sz r"

definition rtapi_shmem_getptr :: "int \<Rightarrow> rtapi_state \<Rightarrow> int \<times> nat option" where
  "rtapi_shmem_getptr handle r =
     (case rtapi_shmem_getptr_inst handle r of (rc, v) \<Rightarrow> (rc, map_option fst v))"

definition rtapi_shmem_getsize :: "int \<Rightarrow> rtapi_state \<Rightarrow> int \<times> nat option" where
  "rtapi_shmem_getsize handle r =
     (case rtapi_shmem_getptr_inst handle r of (rc, v) \<Rightarrow> (rc, map_option snd v))"

definition rtapi_shmem_delete :: "int \<Rightarrow> rtapi_state \<Rightarrow> rtapi_state \<times> int" where
  "rtapi_shmem_delete handle r = rtapi_shmem_delete_inst handle r"

end
