(* ===== verification/Ring.thy ===== *)
theory Ring
  imports Byte_Memory
begin

text \<open>
  The ring buffers of \<open>runtime/include/runtime/ring.h\<close> in record mode and in
  stream mode. A ring is its header fields and the bytes that follow the
  header: offsets below \<open>rsize\<close> are the storage \<open>buf\<close>, and the trailer, whose
  first word is the write index \<open>tail\<close>, starts at the cache-aligned size. A
  copy that runs past the end of the storage therefore overwrites the trailer.
  Indices are 32-bit words. The barriers order the accesses and are no state.
\<close>

section \<open>Sizes\<close>

definition RB_ALIGN :: u32 where "RB_ALIGN = 8"
definition CACHELINE :: u32 where "CACHELINE = 64"
definition sizeof_ringheader :: u32 where "sizeof_ringheader = 128"
definition sizeof_ringtrailer :: u32 where "sizeof_ringtrailer = 64"

definition RTAPI_ALIGN32 :: "u32 \<Rightarrow> u32 \<Rightarrow> u32" where
  "RTAPI_ALIGN32 x boundary = x + (- x AND (boundary - 1))"

definition size_aligned :: "u32 \<Rightarrow> u32" where
  "size_aligned x = RTAPI_ALIGN32 x RB_ALIGN"

definition RTAPI_CACHE_ALIGN :: "u32 \<Rightarrow> u32" where
  "RTAPI_CACHE_ALIGN x = RTAPI_ALIGN32 x CACHELINE"

definition next_power_of_two :: "u32 \<Rightarrow> u32" where
  "next_power_of_two v0 =
     (let v1 = v0 - 1; v2 = v1 OR drop_bit 1 v1; v3 = v2 OR drop_bit 2 v2;
          v4 = v3 OR drop_bit 4 v3; v5 = v4 OR drop_bit 8 v4; v6 = v5 OR drop_bit 16 v5
      in v6 + 1)"

definition RINGTYPE_RECORD :: u32 where "RINGTYPE_RECORD = 0"
definition RINGTYPE_MULTIPART :: u32 where "RINGTYPE_MULTIPART = 1"
definition RINGTYPE_STREAM :: u32 where "RINGTYPE_STREAM = 2"
definition RINGTYPE_ANY :: u32 where "RINGTYPE_ANY = 3"
definition RINGTYPE_MASK :: u32 where "RINGTYPE_MASK = 3"
definition ALLOC_HALMEM :: u32 where "ALLOC_HALMEM = 16"

definition ring_storage_alloc :: "u32 \<Rightarrow> u32 \<Rightarrow> u32" where
  "ring_storage_alloc flags sz =
     (if flags AND RINGTYPE_MASK = RINGTYPE_STREAM
      then RTAPI_CACHE_ALIGN (next_power_of_two sz)
      else RTAPI_CACHE_ALIGN (size_aligned sz))"

definition ring_trailer_alloc :: "u32 \<Rightarrow> u32" where
  "ring_trailer_alloc sp_size = size_aligned (sizeof_ringtrailer + sp_size)"

definition ring_memsize :: "u32 \<Rightarrow> u32 \<Rightarrow> u32 \<Rightarrow> u32" where
  "ring_memsize flags sz sp_size =
     sizeof_ringheader + ring_storage_alloc flags sz + ring_trailer_alloc sp_size"

section \<open>The ring\<close>

record ringheader =
  rtype :: u32
  refcount :: int
  reader :: int
  writer :: int
  trailer_size :: u32
  size_mask :: u32
  rsize :: u32
  generation :: u64
  head :: u32
  buf :: bytes

definition trailer_at :: "ringheader \<Rightarrow> nat" where
  "trailer_at r = unat (RTAPI_CACHE_ALIGN (rsize r))"

definition tail :: "ringheader \<Rightarrow> u32" where
  "tail r = of_nat (get_le (buf r) (trailer_at r) 4)"

definition set_tail :: "u32 \<Rightarrow> ringheader \<Rightarrow> ringheader" where
  "set_tail v r = r\<lparr>buf := put_le (buf r) (trailer_at r) 4 (unat v)\<rparr>"

definition ring_refcount :: "ringheader \<Rightarrow> int" where "ring_refcount r = refcount r"

definition ring_scratchpad_size :: "ringheader \<Rightarrow> u32" where
  "ring_scratchpad_size r = trailer_size r - sizeof_ringtrailer"

definition ringheader_init :: "u32 \<Rightarrow> u32 \<Rightarrow> u32 \<Rightarrow> ringheader \<Rightarrow> ringheader" where
  "ringheader_init flags sz sp_size r =
     (let r1 = r\<lparr>rsize := ring_storage_alloc flags sz, trailer_size := ring_trailer_alloc sp_size,
                 reader := 0, writer := 0, head := 0\<rparr>;
          r2 = (set_tail 0 r1)\<lparr>rtype := flags AND RINGTYPE_MASK\<rparr>;
          r3 = (if flags AND RINGTYPE_STREAM \<noteq> 0 then r2\<lparr>size_mask := rsize r2 - 1\<rparr>
                else r2\<lparr>generation := 0\<rparr>)
      in r3\<lparr>refcount := 1\<rparr>)"

section \<open>Record mode\<close>

text \<open>The size field of a record is a signed 32-bit integer.\<close>

definition size_at :: "ringheader \<Rightarrow> u32 \<Rightarrow> int" where
  "size_at r off = sint (of_nat (get_le (buf r) (unat off) 4) :: u32)"

definition set_size_at :: "u32 \<Rightarrow> u32 \<Rightarrow> ringheader \<Rightarrow> ringheader" where
  "set_size_at off v r = r\<lparr>buf := put_le (buf r) (unat off) 4 (unat v)\<rparr>"

definition record_usage :: "u32 \<Rightarrow> u32" where
  "record_usage record_size = size_aligned (record_size + 4)"

definition record_space :: "u32 \<Rightarrow> u32" where
  "record_space element = size_aligned (element + 4)"

text \<open>The result is the error number and the offset of the data area.\<close>

definition record_write_begin :: "u32 \<Rightarrow> ringheader \<Rightarrow> int \<times> nat" where
  "record_write_begin sz r =
     (let a = size_aligned (sz + 4) in
      if a > rsize r then (ERANGE, 0)
      else
       (let free = (rsize r + head r - tail r - 1) mod rsize r + 1 in
        if free \<le> a then (EAGAIN, 0)
        else if tail r + a > rsize r
        then (if head r \<le> a then (EAGAIN, 0) else (0, 4))
        else (0, unat (tail r) + 4)))"

definition record_write_end :: "nat \<Rightarrow> u32 \<Rightarrow> ringheader \<Rightarrow> ringheader" where
  "record_write_end data sz r =
     (let a = size_aligned (sz + 4);
          r1 = (if data = 4 then set_tail 0 (set_size_at (tail r) (- 1) r) else r);
          r2 = set_size_at (tail r1) sz r1
      in set_tail ((tail r2 + a) mod rsize r2) r2)"

definition record_write :: "u8 list \<Rightarrow> ringheader \<Rightarrow> ringheader \<times> int" where
  "record_write data r =
     (let sz = of_nat (length data) in
      case record_write_begin sz r of (rc, p) \<Rightarrow>
        if rc \<noteq> 0 then (r, rc)
        else (record_write_end p sz (r\<lparr>buf := write_bytes (buf r) p data\<rparr>), 0))"

text \<open>
  \<open>_ring_read_at\<close> calls itself at offset 0 behind a wrap mark. A wrap mark at
  offset 0 would make it call itself again; two levels cover every ring that
  the writer builds, and the third level is the recursion without end.
\<close>

fun ring_read_at :: "nat \<Rightarrow> ringheader \<Rightarrow> u32 \<Rightarrow> (nat \<times> u32) option" where
  "ring_read_at 0 r off = None"
| "ring_read_at (Suc k) r off =
     (if off = tail r then None
      else if size_at r off < 0 then ring_read_at k r 0
      else Some (unat off + 4, of_int (size_at r off)))"

definition record_read :: "ringheader \<Rightarrow> (nat \<times> u32) option" where
  "record_read r = ring_read_at 2 r (head r)"

definition record_next :: "ringheader \<Rightarrow> nat option" where
  "record_next r = map_option fst (record_read r)"

definition record_next_size :: "ringheader \<Rightarrow> int" where
  "record_next_size r = (case record_read r of None \<Rightarrow> - 1 | Some (p, sz) \<Rightarrow> sint sz)"

definition record_write_space :: "ringheader \<Rightarrow> int" where
  "record_write_space r =
     (let avail = (if tail r < head r then sint (head r - tail r)
                   else sint (max (head r) (rsize r - tail r)))
      in max 0 (avail - 16))"

fun ring_shift_offset :: "nat \<Rightarrow> ringheader \<Rightarrow> u32 \<Rightarrow> u32 option" where
  "ring_shift_offset 0 r off = None"
| "ring_shift_offset (Suc k) r off =
     (if head r = tail r then None
      else if size_at r off < 0 then ring_shift_offset k r 0
      else Some ((off + size_aligned (of_int (size_at r off) + 4)) mod rsize r))"

definition record_shift :: "ringheader \<Rightarrow> ringheader \<times> int" where
  "record_shift r =
     (case ring_shift_offset 2 r (head r) of
        None \<Rightarrow> (r, EAGAIN)
      | Some off \<Rightarrow>
          if sint off < 0 then (r, EAGAIN)
          else (r\<lparr>generation := generation r + 1, head := off\<rparr>, 0))"

text \<open>The flush loop of the reader, with a bound on its rounds.\<close>

fun flush_loop :: "nat \<Rightarrow> ringheader \<Rightarrow> nat \<Rightarrow> (ringheader \<times> nat) option" where
  "flush_loop 0 r n = None"
| "flush_loop (Suc k) r n =
     (case record_shift r of (r', rc) \<Rightarrow> if rc = 0 then flush_loop k r' (n + 1) else Some (r', n))"

text \<open>Without a concurrent reader the compare-and-swap of \<open>record_flush\<close> succeeds at once.\<close>

definition record_flush :: "ringheader \<Rightarrow> ringheader" where
  "record_flush r = r\<lparr>generation := generation r + 1, head := tail r\<rparr>"

record ringiter =
  it_offset :: u32
  it_generation :: u64

definition record_iter_init :: "ringheader \<Rightarrow> ringiter" where
  "record_iter_init r = \<lparr>it_offset = head r, it_generation = generation r\<rparr>"

definition record_iter_invalid :: "ringiter \<Rightarrow> ringheader \<Rightarrow> bool" where
  "record_iter_invalid it r \<longleftrightarrow> generation r > it_generation it"

definition record_iter_shift :: "ringiter \<Rightarrow> ringheader \<Rightarrow> ringiter \<times> int" where
  "record_iter_shift it r =
     (if record_iter_invalid it r then (it, EINVAL)
      else case ring_shift_offset 2 r (it_offset it) of
             None \<Rightarrow> (it, EAGAIN)
           | Some off \<Rightarrow>
               if sint off < 0 then (it, EAGAIN)
               else (\<lparr>it_offset = off, it_generation = it_generation it + 1\<rparr>, 0))"

definition record_iter_read :: "ringiter \<Rightarrow> ringheader \<Rightarrow> int + (nat \<times> u32)" where
  "record_iter_read it r =
     (if record_iter_invalid it r then Inl EINVAL
      else case ring_read_at 2 r (it_offset it) of None \<Rightarrow> Inl EAGAIN | Some x \<Rightarrow> Inr x)"

section \<open>Stream mode\<close>

definition stream_read_space :: "ringheader \<Rightarrow> u32" where
  "stream_read_space r =
     (let w = tail r; rd = head r in
      if w > rd then w - rd else (w - rd + rsize r) AND size_mask r)"

definition stream_write_space :: "ringheader \<Rightarrow> u32" where
  "stream_write_space r =
     (let w = tail r; rd = head r in
      if w > rd then ((rd - w + rsize r) AND size_mask r) - 1
      else if w < rd then (rd - w) - 1
      else rsize r - 1)"

text \<open>The two parts of a transfer of \<open>n\<close> bytes that starts at index \<open>i\<close>.\<close>

definition stream_split :: "ringheader \<Rightarrow> u32 \<Rightarrow> u32 \<Rightarrow> u32 \<times> u32" where
  "stream_split r i n =
     (let cnt2 = i + n in
      if cnt2 > rsize r then (rsize r - i, cnt2 AND size_mask r) else (n, 0))"

definition stream_read :: "u32 \<Rightarrow> ringheader \<Rightarrow> ringheader \<times> u8 list" where
  "stream_read cnt r =
     (let free_cnt = stream_read_space r in
      if free_cnt = 0 then (r, [])
      else
       (let to_read = (if cnt > free_cnt then free_cnt else cnt);
            (n1, n2) = stream_split r (head r) to_read;
            d1 = read_bytes (buf r) (unat (head r)) (unat n1);
            d2 = (if n2 \<noteq> 0 then read_bytes (buf r) (unat (head r + n1)) (unat n2) else [])
        in (r\<lparr>head := (head r + n1 + n2) AND size_mask r\<rparr>, d1 @ d2)))"

definition stream_peek :: "u32 \<Rightarrow> ringheader \<Rightarrow> u8 list" where
  "stream_peek cnt r =
     (let free_cnt = stream_read_space r in
      if free_cnt = 0 then []
      else
       (let to_read = (if cnt > free_cnt then free_cnt else cnt);
            (n1, n2) = stream_split r (head r) to_read;
            d1 = read_bytes (buf r) (unat (head r)) (unat n1);
            tmp_head = (head r + n1) AND size_mask r
        in d1 @ (if n2 \<noteq> 0 then read_bytes (buf r) (unat tmp_head) (unat n2) else [])))"

definition stream_read_advance :: "u32 \<Rightarrow> ringheader \<Rightarrow> ringheader" where
  "stream_read_advance cnt r = r\<lparr>head := (head r + cnt) AND size_mask r\<rparr>"

definition stream_flush :: "ringheader \<Rightarrow> ringheader \<times> u32" where
  "stream_flush r =
     (let left = stream_read_space r
      in (if left > 0 then stream_read_advance left r else r, left))"

definition stream_write :: "u8 list \<Rightarrow> ringheader \<Rightarrow> ringheader \<times> u32" where
  "stream_write src r =
     (let cnt = of_nat (length src); free_cnt = stream_write_space r in
      if free_cnt = 0 then (r, 0)
      else
       (let to_write = (if cnt > free_cnt then free_cnt else cnt);
            (n1, n2) = stream_split r (tail r) to_write;
            r1 = r\<lparr>buf := write_bytes (buf r) (unat (tail r)) (take (unat n1) src)\<rparr>;
            r2 = (if n2 \<noteq> 0
                  then r1\<lparr>buf := write_bytes (buf r1) (unat (tail r1 + n1))
                            (take (unat n2) (drop (unat n1) src))\<rparr>
                  else r1)
        in (set_tail ((tail r2 + n1 + n2) AND size_mask r) r2, to_write)))"

definition stream_write_advance :: "u32 \<Rightarrow> ringheader \<Rightarrow> ringheader" where
  "stream_write_advance cnt r = set_tail ((tail r + cnt) AND size_mask r) r"

text \<open>The zero-copy vectors: offset and length of the two parts.\<close>

definition stream_get_read_vector :: "ringheader \<Rightarrow> (nat \<times> u32) \<times> (nat \<times> u32)" where
  "stream_get_read_vector r =
     (let free_cnt = stream_read_space r; cnt2 = head r + free_cnt in
      if cnt2 > rsize r then ((unat (head r), rsize r - head r), (0, cnt2 AND size_mask r))
      else ((unat (head r), free_cnt), (0, 0)))"

definition stream_get_write_vector :: "ringheader \<Rightarrow> (nat \<times> u32) \<times> (nat \<times> u32)" where
  "stream_get_write_vector r =
     (let free_cnt = stream_write_space r; cnt2 = tail r + free_cnt in
      if cnt2 > rsize r then ((unat (tail r), rsize r - tail r), (0, cnt2 AND size_mask r))
      else ((unat (tail r), free_cnt), (0, 0)))"

section \<open>Observers\<close>

definition ring_isstream :: "ringheader \<Rightarrow> bool" where
  "ring_isstream r \<longleftrightarrow> rtype r = RINGTYPE_STREAM"

definition ring_ismultipart :: "ringheader \<Rightarrow> bool" where
  "ring_ismultipart r \<longleftrightarrow> rtype r = RINGTYPE_MULTIPART"

end
