(* ===== verification/Hal_Types.thy ===== *)
theory Hal_Types
  imports Rtapi_Heap Hal_List Rtapi_Task Ring
begin

text \<open>
  The data of the HAL library: object headers and descriptors
  (\<open>hal_object.h\<close>, \<open>hal_priv.h\<close>, \<open>hal_ring.h\<close>, \<open>hal_group.h\<close>), the master
  structure \<open>hal_data_t\<close>, and the state of a process using the library. A
  descriptor is identified with its offset in the HAL segment, so \<open>SHMPTR\<close>
  and \<open>SHMOFF\<close> are the identity and the segment starts at address 0.
\<close>

section \<open>Constants\<close>

definition HAL_NAME_LEN :: nat where "HAL_NAME_LEN = 41"
definition HAL_MAX_NAME_LEN :: nat where "HAL_MAX_NAME_LEN = 127"
definition MAX_OBJECT_NAME_LEN :: nat where "MAX_OBJECT_NAME_LEN = 127"
definition HAL_MAX_RINGS :: nat where "HAL_MAX_RINGS = 255"
definition HAL_HEAP_MINFREE :: int where "HAL_HEAP_MINFREE = 1024"
definition RTAPI_CACHELINE :: nat where "RTAPI_CACHELINE = 64"
definition HAL_VER :: int where "HAL_VER = 13"
definition MAX_ARGC :: nat where "MAX_ARGC = 30"

abbreviation HAL_PIN :: nat where "HAL_PIN \<equiv> 1"
abbreviation HAL_SIGNAL :: nat where "HAL_SIGNAL \<equiv> 2"
abbreviation HAL_PARAM :: nat where "HAL_PARAM \<equiv> 3"
abbreviation HAL_THREAD :: nat where "HAL_THREAD \<equiv> 4"
abbreviation HAL_FUNCT :: nat where "HAL_FUNCT \<equiv> 5"
abbreviation HAL_COMPONENT :: nat where "HAL_COMPONENT \<equiv> 6"
abbreviation HAL_VTABLE :: nat where "HAL_VTABLE \<equiv> 7"
abbreviation HAL_INST :: nat where "HAL_INST \<equiv> 8"
abbreviation HAL_RING :: nat where "HAL_RING \<equiv> 9"
abbreviation HAL_GROUP :: nat where "HAL_GROUP \<equiv> 10"
abbreviation HAL_MEMBER :: nat where "HAL_MEMBER \<equiv> 11"
abbreviation HAL_PLUG :: nat where "HAL_PLUG \<equiv> 12"

abbreviation HAL_BIT :: nat where "HAL_BIT \<equiv> 1"
abbreviation HAL_FLOAT :: nat where "HAL_FLOAT \<equiv> 2"
abbreviation HAL_S32 :: nat where "HAL_S32 \<equiv> 3"
abbreviation HAL_U32 :: nat where "HAL_U32 \<equiv> 4"
abbreviation HAL_S64 :: nat where "HAL_S64 \<equiv> 5"
abbreviation HAL_U64 :: nat where "HAL_U64 \<equiv> 6"

abbreviation HAL_IN :: nat where "HAL_IN \<equiv> 16"
abbreviation HAL_OUT :: nat where "HAL_OUT \<equiv> 32"
abbreviation HAL_IO :: nat where "HAL_IO \<equiv> 48"
abbreviation HAL_RO :: nat where "HAL_RO \<equiv> 64"
abbreviation HAL_RW :: nat where "HAL_RW \<equiv> 192"

abbreviation HAL_LOCK_NONE :: u8 where "HAL_LOCK_NONE \<equiv> 0"
abbreviation HAL_LOCK_LOAD :: u8 where "HAL_LOCK_LOAD \<equiv> 1"
abbreviation HAL_LOCK_CONFIG :: u8 where "HAL_LOCK_CONFIG \<equiv> 2"
abbreviation HAL_LOCK_PARAMS :: u8 where "HAL_LOCK_PARAMS \<equiv> 4"
abbreviation HAL_LOCK_RUN :: u8 where "HAL_LOCK_RUN \<equiv> 8"
abbreviation HAL_LOCK_ALL :: u8 where "HAL_LOCK_ALL \<equiv> 255"

abbreviation TYPE_INVALID :: int where "TYPE_INVALID \<equiv> 0"
abbreviation TYPE_RT :: int where "TYPE_RT \<equiv> 1"
abbreviation TYPE_USER :: int where "TYPE_USER \<equiv> 2"
abbreviation TYPE_REMOTE :: int where "TYPE_REMOTE \<equiv> 3"
abbreviation TYPE_HALLIB :: int where "TYPE_HALLIB \<equiv> 4"

abbreviation COMP_INVALID :: int where "COMP_INVALID \<equiv> 0"
abbreviation COMP_INITIALIZING :: int where "COMP_INITIALIZING \<equiv> 1"
abbreviation COMP_UNBOUND :: int where "COMP_UNBOUND \<equiv> 2"
abbreviation COMP_BOUND :: int where "COMP_BOUND \<equiv> 3"
abbreviation COMP_READY :: int where "COMP_READY \<equiv> 4"

abbreviation FS_LEGACY_THREADFUNC :: int where "FS_LEGACY_THREADFUNC \<equiv> 0"
abbreviation FS_XTHREADFUNC :: int where "FS_XTHREADFUNC \<equiv> 1"
abbreviation FS_USERLAND :: int where "FS_USERLAND \<equiv> 2"

section \<open>Object headers\<close>

text \<open>
  The list links of a header are represented by the order of \<open>halobjects\<close>
  below. The identifiers are 16 bits wide and signed, the reference count 7
  bits. The bytes of the name, which lie in the global heap, are kept beside
  the pointer to them; a null pointer means that the object has no name.
\<close>

record halhdr =
  hh_id :: int
  hh_owner_id :: int
  hh_name_ptr :: nat
  hh_name_str :: string
  hh_refcnt :: int
  hh_legacy :: bool
  hh_object_type :: nat
  hh_valid :: bool
  hh_rmb :: bool
  hh_wmb :: bool

definition hh_set_id :: "int \<Rightarrow> halhdr \<Rightarrow> halhdr" where
  "hh_set_id i hh = hh\<lparr>hh_id := to_s16 i\<rparr>"
definition hh_set_owner_id :: "int \<Rightarrow> halhdr \<Rightarrow> halhdr" where
  "hh_set_owner_id i hh = hh\<lparr>hh_owner_id := to_s16 i\<rparr>"
definition hh_set_object_type :: "nat \<Rightarrow> halhdr \<Rightarrow> halhdr" where
  "hh_set_object_type t hh = hh\<lparr>hh_object_type := t mod 32\<rparr>"
definition hh_set_rmb :: "int \<Rightarrow> halhdr \<Rightarrow> halhdr" where "hh_set_rmb b hh = hh\<lparr>hh_rmb := (b \<noteq> 0)\<rparr>"
definition hh_set_wmb :: "int \<Rightarrow> halhdr \<Rightarrow> halhdr" where "hh_set_wmb b hh = hh\<lparr>hh_wmb := (b \<noteq> 0)\<rparr>"
definition hh_incr_refcnt :: "halhdr \<Rightarrow> halhdr" where
  "hh_incr_refcnt hh = hh\<lparr>hh_refcnt := to_s7 (hh_refcnt hh + 1)\<rparr>"
definition hh_decr_refcnt :: "halhdr \<Rightarrow> halhdr" where
  "hh_decr_refcnt hh = hh\<lparr>hh_refcnt := to_s7 (hh_refcnt hh - 1)\<rparr>"

definition hh_get_name :: "halhdr \<Rightarrow> string" where
  "hh_get_name hh = (if hh_name_ptr hh = 0 then ''*** NULL ***'' else hh_name_str hh)"

definition hh_is_toplevel :: "nat \<Rightarrow> bool" where
  "hh_is_toplevel t \<longleftrightarrow> t \<notin> {HAL_PIN, HAL_PARAM, HAL_FUNCT, HAL_INST, HAL_MEMBER, HAL_PLUG}"

definition hal_object_typestr :: "nat \<Rightarrow> string" where
  "hal_object_typestr t =
     (if t = HAL_PIN then ''PIN'' else if t = HAL_SIGNAL then ''SIGNAL''
      else if t = HAL_PARAM then ''PARAM'' else if t = HAL_THREAD then ''THREAD''
      else if t = HAL_FUNCT then ''FUNCT'' else if t = HAL_COMPONENT then ''COMPONENT''
      else if t = HAL_VTABLE then ''VTABLE'' else if t = HAL_INST then ''INST''
      else if t = HAL_RING then ''RING'' else if t = HAL_GROUP then ''GROUP''
      else if t = HAL_MEMBER then ''MEMBER'' else if t = HAL_PLUG then ''PLUG''
      else ''**invalid**'')"

definition hh_clear_hdr :: "halhdr \<Rightarrow> halhdr" where
  "hh_clear_hdr hh =
     (hh_set_owner_id 0 (hh_set_id 0 hh))\<lparr>hh_valid := False, hh_refcnt := 0\<rparr>"

text \<open>The C library's \<open>strcmp\<close>, as the test for a negative result.\<close>

fun strcmp_less :: "string \<Rightarrow> string \<Rightarrow> bool" where
  "strcmp_less [] [] \<longleftrightarrow> False"
| "strcmp_less [] (y # ys) \<longleftrightarrow> True"
| "strcmp_less (x # xs) [] \<longleftrightarrow> False"
| "strcmp_less (x # xs) (y # ys) \<longleftrightarrow>
     (if x = y then strcmp_less xs ys else (of_char x :: nat) < of_char y)"

section \<open>Descriptors\<close>

record hal_pin =
  pin_data_ptr_addr :: nat
  pin_data_ptr :: nat
  pin_signal :: nat
  pin_dummysig :: u64
  pin_type :: nat
  pin_dir :: nat
  pin_flags :: int
  pin_eps_index :: nat

record hal_sig =
  sig_type :: nat
  sig_value :: u64
  sig_readers :: int
  sig_writers :: int
  sig_bidirs :: int

record hal_param =
  param_val :: u64
  param_data_ptr :: nat
  param_type :: nat
  param_dir :: nat

record hal_comp =
  comp_type :: int
  comp_state :: int
  comp_shmem_base :: nat
  comp_last_update :: int
  comp_last_bound :: int
  comp_last_unbound :: int
  comp_pid :: int
  comp_ctor :: nat
  comp_dtor :: nat
  comp_insmod_args :: nat
  comp_userarg1 :: int
  comp_userarg2 :: int

text \<open>Function pointers are numbers, 0 is \<open>NULL\<close>. A frozen argument vector is
  the pointer to it with its strings and the pointers to them.\<close>

record hal_inst =
  inst_data_ptr :: nat
  inst_size :: int
  inst_frozen_argv :: "(nat \<times> (nat \<times> string) list) option"

record hal_funct =
  funct_arg :: nat
  funct_code :: nat
  funct_type :: int
  funct_runtime :: nat
  funct_maxtime :: nat
  funct_maxtime_increased :: nat
  funct_uses_fp :: int
  funct_reentrant :: int
  funct_users :: int

record hal_funct_entry =
  fe_rmb :: bool
  fe_wmb :: bool
  fe_type :: int
  fe_arg :: nat
  fe_code :: nat
  fe_funct_ptr :: nat

record hal_thread =
  thr_uses_fp :: int
  thr_period :: int
  thr_priority :: int
  thr_task_id :: int
  thr_runtime :: nat
  thr_maxtime :: nat
  thr_curr_period :: nat
  thr_cycles :: u32
  thr_funct_list :: "nat list"
  thr_cpu_id :: int
  thr_flags :: int
  thr_cgname :: string

record hal_vtable =
  vt_context :: int
  vt_version :: int
  vt_table :: nat

record hal_ring =
  ring_id :: int
  ring_shmkey :: int
  ring_total_size :: int
  ring_offset :: nat
  ring_flags :: u32
  ring_handle :: int
  ring_encodings :: u8

text \<open>Where the header of a ring lies: in the HAL segment or in a segment of its own.\<close>

datatype ring_loc = HalMem nat | ShmMem nat

record hal_plug =
  plug_rb_header :: "ring_loc option"
  plug_rb_magic :: bool
  plug_flags :: u32
  plug_ring_id :: int
  plug_role :: nat

record hal_group =
  group_userarg1 :: int
  group_userarg2 :: int

record hal_member =
  member_sig_ptr :: nat
  member_userarg1 :: int
  member_eps_index :: nat

datatype hal_body =
    Pin hal_pin | Sig hal_sig | Param hal_param | Thread hal_thread | Funct hal_funct
  | Comp hal_comp | Vtable hal_vtable | Inst hal_inst | Ring hal_ring | Group hal_group
  | Member hal_member | Plug hal_plug

record hal_object =
  hdr :: halhdr
  body :: hal_body

section \<open>Global state\<close>

text \<open>
  The fields of \<open>hal_data_t\<close>, the heaps, the handle counter of the global
  segment, and the variables of the process: \<open>hal_attached\<close> says that
  \<open>hal_data\<close> is not \<open>NULL\<close>, \<open>rtapi_build\<close> tells the RTAPI variant of the
  library from the ULAPI one, \<open>hal_pid\<close> is the process identifier.
  \<open>hal_size\<close>, \<open>hal_thread_stack_size\<close>, \<open>hal_descriptor_alignment\<close>,
  \<open>hal_heap_flags\<close> and \<open>rtapi_app_pid\<close> come from the global segment. \<open>objs\<close> holds the object descriptors and
  \<open>fentries\<close> the function entries by offset, \<open>cells\<close> the pointer cells that
  legacy pins of components refer to, \<open>ring_hdrs\<close> the ring buffers by place,
  \<open>rtapi\<close> the state of the RTAPI layer. \<open>fault\<close> records a step on which the C
  code hangs or follows a null pointer.
\<close>

record hal =
  hal_attached :: bool
  rtapi_build :: bool
  halerrno :: int
  lib_module_id :: int
  lib_mem_id :: int
  hal_shmem_base :: nat
  hal_pid :: int
  rtapi_app_pid :: int
  hal_thread_stack_size :: nat
  hal_version :: int
  shmem_bot :: int
  shmem_top :: int
  hal_size :: nat
  halobjects :: "nat list"
  hal_threads :: "nat list"
  funct_entry_free :: "nat list"
  base_period :: int
  exact_base_period :: int
  threads_running :: int
  hal_lock :: u8
  rings_map :: "bool list"
  default_ringsize :: nat
  str_alloc :: nat
  str_freed :: nat
  rt_alignment_loss :: nat
  hal_malloced :: nat
  hal_descriptor_alignment :: nat
  hal_heap_flags :: u32
  hal_heap :: rtapi_heap
  global_heap :: rtapi_heap
  next_handle :: int
  objs :: "nat \<Rightarrow> hal_object option"
  fentries :: "nat \<Rightarrow> hal_funct_entry option"
  cells :: "nat \<Rightarrow> nat"
  rtapi :: rtapi_state
  ring_hdrs :: "ring_loc \<Rightarrow> ringheader"
  fault :: bool

text \<open>The layout of the descriptors on a 64-bit machine.\<close>

definition desc_size :: "nat \<Rightarrow> nat" where
  "desc_size t =
     (if t = HAL_PIN then 56 else if t = HAL_SIGNAL then 48 else if t = HAL_PARAM then 48
      else if t = HAL_THREAD then 360 else if t = HAL_FUNCT then 72
      else if t = HAL_COMPONENT then 96 else if t = HAL_VTABLE then 40
      else if t = HAL_INST then 40 else if t = HAL_RING then 48 else if t = HAL_GROUP then 28
      else if t = HAL_MEMBER then 32 else if t = HAL_PLUG then 120 else 20)"

definition funct_entry_size :: nat where "funct_entry_size = 40"

definition dummysig_of :: "nat \<Rightarrow> nat" where "dummysig_of pin = pin + 32"
definition value_of :: "nat \<Rightarrow> nat" where "value_of sig = sig + 24"
definition param_value_of :: "nat \<Rightarrow> nat" where "param_value_of p = p + 24"

section \<open>Errors\<close>

definition halfail :: "int \<Rightarrow> hal \<Rightarrow> hal" where
  "halfail rc s = s\<lparr>halerrno := - rc\<rparr>"

definition halfail_rc :: "int \<Rightarrow> hal \<Rightarrow> hal \<times> int" where
  "halfail_rc rc s = (halfail rc s, - rc)"

definition halfail_null :: "int \<Rightarrow> hal \<Rightarrow> hal \<times> nat option" where
  "halfail_null rc s = (halfail rc s, None)"

definition locked :: "u8 \<Rightarrow> hal \<Rightarrow> bool" where
  "locked ll s \<longleftrightarrow> hal_lock s AND ll \<noteq> 0"

definition hal_assert :: "bool \<Rightarrow> hal \<Rightarrow> hal" where
  "hal_assert p s = (if p then s else s\<lparr>halerrno := - EINVAL\<rparr>)"

end
