(* ===== verification/Hal_Memory.thy ===== *)
theory Hal_Memory
  imports Hal_Types
begin

text \<open>
  The memory functions of \<open>hal/src/hal_memory.c\<close>: descriptors come from the
  HAL heap, which grows upwards from the bottom of the segment, realtime data
  is taken from the top downwards, and strings live in the global heap.
\<close>

definition RTAPI_ALIGN :: "nat \<Rightarrow> nat \<Rightarrow> nat" where
  "RTAPI_ALIGN x boundary = x + nat ((- int x) mod int boundary)"

definition hal_freemem :: "hal \<Rightarrow> int" where
  "hal_freemem s = (if hal_attached s then shmem_top s - shmem_bot s else 0)"

definition shmfree_desc :: "nat \<Rightarrow> hal \<Rightarrow> hal" where
  "shmfree_desc p s =
     (if \<not> hal_attached s then s
      else case rtapi_free (hal_heap s) (p - heap_at (hal_heap s)) of
             Inl e \<Rightarrow> s\<lparr>fault := True\<rparr>
           | Inr h \<Rightarrow> s\<lparr>hal_heap := h\<rparr>)"

text \<open>\<open>click\<close> is a \<open>size_t\<close>; the free memory is compared as such.\<close>

definition hal_heap_addmem :: "nat \<Rightarrow> hal \<Rightarrow> hal \<times> int" where
  "hal_heap_addmem click s =
     (let actual = RTAPI_ALIGN click RTAPI_CACHELINE in
      if hal_freemem s mod 2 ^ 64 < HAL_HEAP_MINFREE then (s, 0)
      else case rtapi_heap_addmem (hal_heap s) (nat (shmem_bot s)) actual of
             Inl e \<Rightarrow> (s\<lparr>fault := True\<rparr>, 0)
           | Inr (h, rc) \<Rightarrow>
               if rc \<noteq> 0 then halfail_rc ENOMEM (s\<lparr>hal_heap := h\<rparr>)
               else (s\<lparr>hal_heap := h, shmem_bot := to_s32 (shmem_bot s + int actual)\<rparr>, 0))"

definition HAL_HEAP_INCREMENT :: "hal \<Rightarrow> nat" where
  "HAL_HEAP_INCREMENT s = nat (hal_freemem s mod 2 ^ 64 div 2)"

text \<open>The zeroing of the returned block is the zero descriptor that the
  callers store in \<open>objs\<close>.\<close>

definition shmalloc_desc :: "nat \<Rightarrow> hal \<Rightarrow> hal \<times> nat option" where
  "shmalloc_desc sz s =
     (case rtapi_calloc (hal_heap s) 1 sz of
        Inl e \<Rightarrow> (s\<lparr>fault := True\<rparr>, None)
      | Inr (h, Some p) \<Rightarrow> (s\<lparr>hal_heap := h\<rparr>, Some (heap_at h + p))
      | Inr (h, None) \<Rightarrow>
          (let s1 = fst (hal_heap_addmem (HAL_HEAP_INCREMENT s) (s\<lparr>hal_heap := h\<rparr>)) in
           case rtapi_calloc (hal_heap s1) 1 sz of
             Inl e \<Rightarrow> (s1\<lparr>fault := True\<rparr>, None)
           | Inr (h, Some p) \<Rightarrow> (s1\<lparr>hal_heap := h\<rparr>, Some (heap_at h + p))
           | Inr (h, None) \<Rightarrow> halfail_null ENOMEM (s1\<lparr>hal_heap := h\<rparr>)))"

definition shmalloc_desc_aligned :: "nat \<Rightarrow> nat \<Rightarrow> hal \<Rightarrow> hal \<times> nat option" where
  "shmalloc_desc_aligned sz alignment s =
     (case shmalloc_desc (sz + alignment) s of
        (s1, None) \<Rightarrow> (s1, None)
      | (s1, Some dummy) \<Rightarrow>
          (let s2 = shmfree_desc dummy s1 in
           case rtapi_malloc_aligned (hal_heap s2) sz (of_nat alignment) of
             Inl e \<Rightarrow> (s2\<lparr>fault := True\<rparr>, None)
           | Inr (h, None) \<Rightarrow> halfail_null ENOMEM (s2\<lparr>hal_heap := h\<rparr>)
           | Inr (h, Some p) \<Rightarrow>
               (hal_assert ((heap_at h + p) mod alignment = 0) (s2\<lparr>hal_heap := h\<rparr>),
                Some (heap_at h + p))))"

text \<open>\<open>tmp_top\<close> is a signed long; clearing its low bits rounds towards minus infinity.\<close>

definition shmalloc_rt :: "nat \<Rightarrow> hal \<Rightarrow> hal \<times> nat option" where
  "shmalloc_rt sz s =
     (let t = shmem_top s - int sz;
          tmp_top = (if sz \<ge> 8 then t - t mod 8
                     else if sz \<ge> 4 then t - t mod 4
                     else if sz = 2 then t - t mod 2 else t)
      in if tmp_top < shmem_bot s then halfail_null ENOMEM s
         else (s\<lparr>rt_alignment_loss := rt_alignment_loss s + nat (shmem_top s - tmp_top - int sz),
                 shmem_top := tmp_top\<rparr>, Some (nat tmp_top)))"

definition halg_malloc :: "nat \<Rightarrow> hal \<Rightarrow> hal \<times> nat option" where
  "halg_malloc sz s =
     (if \<not> hal_attached s then halfail_null EINVAL s
      else let (s1, retval) = shmalloc_rt sz s
           in (s1\<lparr>hal_malloced := hal_malloced s1 + sz\<rparr>, retval))"

text \<open>Strings in the global heap: the pointer together with the characters.\<close>

definition halg_strdup :: "string option \<Rightarrow> hal \<Rightarrow> hal \<times> (nat \<times> string) option" where
  "halg_strdup str s =
     (case str of
        None \<Rightarrow> (halfail EINVAL s, None)
      | Some c \<Rightarrow>
          if length c > HAL_MAX_NAME_LEN then (halfail EINVAL s, None)
          else case rtapi_calloc (global_heap s) 1 (length c + 1) of
                 Inl e \<Rightarrow> (s\<lparr>fault := True\<rparr>, None)
               | Inr (h, None) \<Rightarrow> (halfail ENOMEM (s\<lparr>global_heap := h\<rparr>), None)
               | Inr (h, Some p) \<Rightarrow>
                   (s\<lparr>global_heap := h, str_alloc := str_alloc s + length c + 1\<rparr>, Some (p, c)))"

definition global_free :: "nat \<Rightarrow> hal \<Rightarrow> hal" where
  "global_free p s =
     (case rtapi_free (global_heap s) p of
        Inl e \<Rightarrow> s\<lparr>fault := True\<rparr>
      | Inr h \<Rightarrow> s\<lparr>global_heap := h\<rparr>)"

definition halg_free_str :: "(nat \<times> string) option \<Rightarrow> hal \<Rightarrow> hal \<times> int" where
  "halg_free_str str s =
     (case str of
        None \<Rightarrow> halfail_rc EINVAL s
      | Some (p, c) \<Rightarrow> (global_free p (s\<lparr>str_freed := str_freed s + length c + 1\<rparr>), 0))"

definition halg_free_single_str :: "(nat \<times> string) option \<Rightarrow> hal \<Rightarrow> hal \<times> int" where
  "halg_free_single_str str s = halg_free_str str s"

text \<open>
  The loop of \<open>halg_dupargv\<close> over the arguments up to \<open>argc - 1\<close>; on a failed
  copy the strings copied so far and the vector stay allocated.
\<close>

fun dup_args :: "string list \<Rightarrow> hal \<Rightarrow> hal \<times> (nat \<times> string) list option" where
  "dup_args [] s = (s, Some [])"
| "dup_args (a # as) s =
     (case halg_strdup (Some a) s of
        (s1, None) \<Rightarrow> (halfail ENOMEM s1, None)
      | (s1, Some x) \<Rightarrow>
          (case dup_args as s1 of (s2, None) \<Rightarrow> (s2, None) | (s2, Some xs) \<Rightarrow> (s2, Some (x # xs))))"

definition halg_dupargv ::
  "string list option \<Rightarrow> nat \<Rightarrow> hal \<Rightarrow> hal \<times> (nat \<times> (nat \<times> string) list) option" where
  "halg_dupargv argv argc s =
     (if argc > MAX_ARGC then (halfail EINVAL s, None)
      else case argv of
        None \<Rightarrow> (s, None)
      | Some av \<Rightarrow>
         (case rtapi_calloc (global_heap s) 8 (argc + 1) of
            Inl e \<Rightarrow> (s\<lparr>fault := True\<rparr>, None)
          | Inr (h, None) \<Rightarrow> (halfail ENOMEM (s\<lparr>global_heap := h\<rparr>), None)
          | Inr (h, Some p) \<Rightarrow>
             (case dup_args (take (argc - 1) av) (s\<lparr>global_heap := h\<rparr>) of
                (s1, None) \<Rightarrow> (s1, None)
              | (s1, Some xs) \<Rightarrow> (s1, Some (p, xs)))))"

definition halg_free_argv :: "(nat \<times> (nat \<times> string) list) option \<Rightarrow> hal \<Rightarrow> hal \<times> int" where
  "halg_free_argv argv s =
     (case argv of
        None \<Rightarrow> (s, 0)
      | Some (p, xs) \<Rightarrow> (global_free p (foldl (\<lambda>s x. fst (halg_free_str (Some x) s)) s xs), 0))"

end
