(* ===== verification/Hal_Object.thy ===== *)
theory Hal_Object
  imports Hal_Memory
begin

text \<open>
  HAL objects (\<open>hal/src/hal_object.c\<close>, \<open>hal_object_selectors.c\<close>, the lookup
  functions of \<open>hal_priv.h\<close> and \<open>hal_comp.c\<close>): creation, insertion into the
  object list, iteration, lookup, deletion and the garbage collector. A
  formatted name is given as the resulting string; the model of the inner
  formatting step copies it, that is, names contain no percent sign.
\<close>

section \<open>Access to descriptors\<close>

definition hdr_of_obj :: "hal \<Rightarrow> nat \<Rightarrow> halhdr option" where
  "hdr_of_obj s a = map_option hdr (objs s a)"

definition upd_obj :: "nat \<Rightarrow> (hal_object \<Rightarrow> hal_object) \<Rightarrow> hal \<Rightarrow> hal" where
  "upd_obj a f s = s\<lparr>objs := (objs s)(a := map_option f (objs s a))\<rparr>"

definition upd_hdr :: "nat \<Rightarrow> (halhdr \<Rightarrow> halhdr) \<Rightarrow> hal \<Rightarrow> hal" where
  "upd_hdr a f s = upd_obj a (\<lambda>ob. ob\<lparr>hdr := f (hdr ob)\<rparr>) s"

definition ho_id :: "hal \<Rightarrow> nat \<Rightarrow> int" where
  "ho_id s a = (case objs s a of None \<Rightarrow> 0 | Some ob \<Rightarrow> hh_id (hdr ob))"
definition ho_owner_id :: "hal \<Rightarrow> nat \<Rightarrow> int" where
  "ho_owner_id s a = (case objs s a of None \<Rightarrow> 0 | Some ob \<Rightarrow> hh_owner_id (hdr ob))"
definition ho_name :: "hal \<Rightarrow> nat \<Rightarrow> string" where
  "ho_name s a = (case objs s a of None \<Rightarrow> '''' | Some ob \<Rightarrow> hh_get_name (hdr ob))"
definition ho_refcnt :: "hal \<Rightarrow> nat \<Rightarrow> int" where
  "ho_refcnt s a = (case objs s a of None \<Rightarrow> 0 | Some ob \<Rightarrow> hh_refcnt (hdr ob))"
definition ho_valid :: "hal \<Rightarrow> nat \<Rightarrow> bool" where
  "ho_valid s a \<longleftrightarrow> (case objs s a of None \<Rightarrow> False | Some ob \<Rightarrow> hh_valid (hdr ob))"
definition ho_object_type :: "hal \<Rightarrow> nat \<Rightarrow> nat" where
  "ho_object_type s a = (case objs s a of None \<Rightarrow> 0 | Some ob \<Rightarrow> hh_object_type (hdr ob))"
definition ho_legacy :: "hal \<Rightarrow> nat \<Rightarrow> bool" where
  "ho_legacy s a \<longleftrightarrow> (case objs s a of None \<Rightarrow> False | Some ob \<Rightarrow> hh_legacy (hdr ob))"
definition ho_referenced :: "hal \<Rightarrow> nat \<Rightarrow> bool" where "ho_referenced s a \<longleftrightarrow> ho_refcnt s a \<noteq> 0"
definition ho_incref :: "nat \<Rightarrow> hal \<Rightarrow> hal" where "ho_incref a s = upd_hdr a hh_incr_refcnt s"
definition ho_decref :: "nat \<Rightarrow> hal \<Rightarrow> hal" where "ho_decref a s = upd_hdr a hh_decr_refcnt s"

section \<open>Creation\<close>

definition rtapi_next_handle :: "hal \<Rightarrow> hal \<times> int" where
  "rtapi_next_handle s =
     (let n = to_s32 (next_handle s + 1) in (s\<lparr>next_handle := n\<rparr>, n))"

definition fmt_ap :: "nat \<Rightarrow> string \<Rightarrow> hal \<Rightarrow> hal \<times> string option" where
  "fmt_ap size_buf str s =
     (if length str > size_buf then (halfail E2BIG s, None)
      else (s, Some (take (size_buf - 1) str)))"

definition hh_set_namefv :: "halhdr \<Rightarrow> string \<Rightarrow> hal \<Rightarrow> hal \<times> halhdr \<times> int" where
  "hh_set_namefv hh str s =
     (let sz = length str; buf = take (MAX_OBJECT_NAME_LEN - 1) str in
      if sz > MAX_OBJECT_NAME_LEN then (halfail ENOMEM s, hh, - ENOMEM)
      else case rtapi_calloc (global_heap s) 1 (sz + 1) of
             Inl e \<Rightarrow> (s\<lparr>fault := True\<rparr>, hh, - ENOMEM)
           | Inr (h, None) \<Rightarrow> (halfail ENOMEM (s\<lparr>global_heap := h\<rparr>), hh, - ENOMEM)
           | Inr (h, Some p) \<Rightarrow>
               (s\<lparr>global_heap := h, str_alloc := str_alloc s + sz + 1\<rparr>,
                hh\<lparr>hh_name_ptr := p, hh_name_str := buf\<rparr>, 0))"

definition zero_hdr :: halhdr where
  "zero_hdr = \<lparr>hh_id = 0, hh_owner_id = 0, hh_name_ptr = 0, hh_name_str = [], hh_refcnt = 0,
     hh_legacy = False, hh_object_type = 0, hh_valid = False, hh_rmb = False, hh_wmb = False\<rparr>"

definition hh_init_hdrfv :: "halhdr \<Rightarrow> nat \<Rightarrow> int \<Rightarrow> string \<Rightarrow> hal \<Rightarrow> hal \<times> halhdr \<times> int" where
  "hh_init_hdrfv hh t owner_id str s =
     (let (s1, n) = rtapi_next_handle s;
          hh1 = (hh_set_owner_id owner_id (hh_set_id n (hh_set_object_type t hh)))\<lparr>hh_valid := True\<rparr>
      in hh_set_namefv hh1 str s1)"

definition create_allocsize :: "nat \<Rightarrow> nat \<Rightarrow> nat" where
  "create_allocsize t sz =
     (if t = HAL_SIGNAL \<or> t = HAL_PIN then RTAPI_ALIGN (sz + hdr_size) RTAPI_CACHELINE - hdr_size
      else sz)"

text \<open>\<open>body0\<close> is the descriptor of the given type with all bytes zero.\<close>

definition halg_create_objectfv ::
  "nat \<Rightarrow> hal_body \<Rightarrow> nat \<Rightarrow> int \<Rightarrow> string \<Rightarrow> hal \<Rightarrow> hal \<times> nat option" where
  "halg_create_objectfv sz body0 t owner_id str s =
     (case (if hal_descriptor_alignment s \<noteq> 0
            then shmalloc_desc_aligned sz (hal_descriptor_alignment s) s
            else shmalloc_desc (create_allocsize t sz) s) of
        (s1, None) \<Rightarrow> halfail_null ENOMEM s1
      | (s1, Some new) \<Rightarrow>
         (case hh_init_hdrfv zero_hdr t owner_id str s1 of
            (s2, hh, ret) \<Rightarrow>
              if ret \<noteq> 0 then (shmfree_desc new s2, None)
              else (s2\<lparr>objs := (objs s2)(new \<mapsto> \<lparr>hdr = hh, body = body0\<rparr>)\<rparr>, Some new)))"

section \<open>Iteration and lookup\<close>

record foreach_args =
  fa_type :: nat
  fa_id :: int
  fa_owner_id :: int
  fa_owning_comp :: int
  fa_name :: "string option"

definition no_args :: foreach_args where
  "no_args = \<lparr>fa_type = 0, fa_id = 0, fa_owner_id = 0, fa_owning_comp = 0, fa_name = None\<rparr>"

text \<open>The selection by type, identifier and owner; zero fields select everything.\<close>

definition match_ids :: "foreach_args \<Rightarrow> hal \<Rightarrow> nat \<Rightarrow> bool" where
  "match_ids args s a \<longleftrightarrow>
     ho_valid s a \<and> (fa_type args \<noteq> 0 \<longrightarrow> ho_object_type s a = fa_type args) \<and>
     (fa_id args \<noteq> 0 \<longrightarrow> fa_id args = ho_id s a) \<and>
     (fa_owner_id args \<noteq> 0 \<longrightarrow> fa_owner_id args = ho_owner_id s a)"

text \<open>
  The loop of \<open>halg_foreach_from\<close>. The callback works on the HAL state and on
  a state of its own (the \<open>user_*\<close> fields of the arguments); no callback of
  the library unlinks an object, so the list is traversed as it is at the
  start.
\<close>

fun foreach_loop ::
  "(hal \<Rightarrow> nat \<Rightarrow> bool) \<Rightarrow> (nat \<Rightarrow> hal \<Rightarrow> 'u \<Rightarrow> hal \<times> 'u \<times> int) \<Rightarrow> nat list \<Rightarrow>
   hal \<Rightarrow> 'u \<Rightarrow> int \<Rightarrow> hal \<times> 'u \<times> int" where
  "foreach_loop sel cb [] s u n = (s, u, n)"
| "foreach_loop sel cb (a # as) s u n =
     (if \<not> sel s a then foreach_loop sel cb as s u n
      else case cb a s u of (s1, u1, result) \<Rightarrow>
        if result < 0 then (s1, u1, result)
        else if result > 0 then (s1, u1, n + 1)
        else foreach_loop sel cb as s1 u1 (n + 1))"

definition yield_match :: "nat \<Rightarrow> hal \<Rightarrow> nat option \<Rightarrow> hal \<times> nat option \<times> int" where
  "yield_match a s u = (s, Some a, 1)"

definition yield_count :: "nat \<Rightarrow> hal \<Rightarrow> 'u \<Rightarrow> hal \<times> 'u \<times> int" where
  "yield_count a s u = (s, u, 0)"

definition halg_find_object_by_id :: "nat \<Rightarrow> int \<Rightarrow> hal \<Rightarrow> nat option" where
  "halg_find_object_by_id t i s =
     (case foreach_loop (match_ids (no_args\<lparr>fa_type := t, fa_id := i\<rparr>)) yield_match
             (halobjects s) s None 0 of
        (_, u, n) \<Rightarrow> if n = 1 then u else None)"

text \<open>When an instance refers to no component the code stops on a null pointer
  after the error message; the lookup then has no result.\<close>

definition halpr_find_owning_comp :: "int \<Rightarrow> hal \<Rightarrow> nat option" where
  "halpr_find_owning_comp owner_id s =
     (case halg_find_object_by_id HAL_INST owner_id s of
        None \<Rightarrow> halg_find_object_by_id HAL_COMPONENT owner_id s
      | Some inst \<Rightarrow> halg_find_object_by_id HAL_COMPONENT (ho_owner_id s inst) s)"

definition match_args :: "foreach_args \<Rightarrow> hal \<Rightarrow> nat \<Rightarrow> bool" where
  "match_args args s a \<longleftrightarrow>
     match_ids args s a \<and>
     (fa_owning_comp args \<noteq> 0 \<longrightarrow>
        (case halpr_find_owning_comp (ho_owner_id s a) s of
           None \<Rightarrow> False
         | Some oc \<Rightarrow> ho_id s oc = fa_owning_comp args)) \<and>
     (case fa_name args of None \<Rightarrow> True | Some nm \<Rightarrow> ho_name s a = nm)"

definition halg_foreach ::
  "foreach_args \<Rightarrow> (nat \<Rightarrow> hal \<Rightarrow> 'u \<Rightarrow> hal \<times> 'u \<times> int) \<Rightarrow> hal \<Rightarrow> 'u \<Rightarrow> hal \<times> 'u \<times> int" where
  "halg_foreach args callback s u = foreach_loop (match_args args) callback (halobjects s) s u 0"

text \<open>The resumable iterator: it continues behind the object it stopped at.\<close>

fun yield_loop ::
  "(hal \<Rightarrow> nat \<Rightarrow> bool) \<Rightarrow> (nat \<Rightarrow> hal \<Rightarrow> 'u \<Rightarrow> hal \<times> 'u \<times> int) \<Rightarrow> nat list \<Rightarrow>
   nat option \<Rightarrow> hal \<Rightarrow> 'u \<Rightarrow> int \<Rightarrow> hal \<times> 'u \<times> nat option \<times> int" where
  "yield_loop sel cb [] cur s u n = (s, u, cur, n)"
| "yield_loop sel cb (a # as) cur s u n =
     (if \<not> sel s a then yield_loop sel cb as cur s u n
      else case cb a s u of (s1, u1, result) \<Rightarrow>
        if result < 0 then (s1, u1, Some a, result)
        else if result > 0 then (s1, u1, Some a, n + 1)
        else yield_loop sel cb as (Some a) s1 u1 (n + 1))"

definition halg_yield ::
  "foreach_args \<Rightarrow> (nat \<Rightarrow> hal \<Rightarrow> 'u \<Rightarrow> hal \<times> 'u \<times> int) \<Rightarrow> nat option \<Rightarrow> hal \<Rightarrow> 'u \<Rightarrow>
   hal \<times> 'u \<times> nat option \<times> int" where
  "halg_yield args callback cursor s u =
     (let rest = (case cursor of None \<Rightarrow> halobjects s
                  | Some c \<Rightarrow> tl (dropWhile (\<lambda>x. x \<noteq> c) (halobjects s)))
      in yield_loop (match_args args) callback rest cursor s u 0)"

definition halg_find_object_by_name :: "nat \<Rightarrow> string option \<Rightarrow> hal \<Rightarrow> nat option" where
  "halg_find_object_by_name t nm s =
     (case halg_foreach (no_args\<lparr>fa_type := t, fa_name := nm\<rparr>) yield_match s None of
        (_, u, n) \<Rightarrow> if n \<noteq> 0 then u else None)"

section \<open>Insertion and deletion\<close>

definition find_previous :: "nat \<Rightarrow> nat \<Rightarrow> hal \<Rightarrow> nat option \<Rightarrow> hal \<times> nat option \<times> int" where
  "find_previous new a s u =
     (if strcmp_less (ho_name s new) (ho_name s a) then (s, Some a, 1) else (s, u, 0))"

text \<open>\<open>dlist_add_before\<close> on the list: before an element, or before the head,
  which is the end of the list.\<close>

definition list_add_before :: "'a \<Rightarrow> 'a option \<Rightarrow> 'a list \<Rightarrow> 'a list" where
  "list_add_before e pos xs =
     (case pos of None \<Rightarrow> xs @ [e]
      | Some x \<Rightarrow> takeWhile (\<lambda>y. y \<noteq> x) xs @ e # dropWhile (\<lambda>y. y \<noteq> x) xs)"

definition halg_add_object :: "nat \<Rightarrow> hal \<Rightarrow> hal" where
  "halg_add_object a s =
     (case halg_foreach (no_args\<lparr>fa_type := ho_object_type s a\<rparr>) (find_previous a) s None of
        (s1, pos, _) \<Rightarrow> s1\<lparr>halobjects := list_add_before a pos (halobjects s1)\<rparr>)"

definition halg_free_object :: "nat \<Rightarrow> hal \<Rightarrow> hal \<times> int" where
  "halg_free_object a s =
     (if ho_refcnt s a \<noteq> 0 then halfail_rc EBUSY s
      else (upd_hdr a hh_clear_hdr s, 0))"

section \<open>Garbage collection\<close>

definition sweep_one :: "nat \<Rightarrow> hal \<Rightarrow> hal" where
  "sweep_one a s =
     (let s1 = (case objs s a of
                  None \<Rightarrow> s
                | Some ob \<Rightarrow>
                    if hh_name_ptr (hdr ob) \<noteq> 0
                    then upd_hdr a (\<lambda>hh. hh\<lparr>hh_name_ptr := 0\<rparr>)
                           (global_free (hh_name_ptr (hdr ob))
                              (s\<lparr>str_freed := str_freed s + length (hh_name_str (hdr ob)) + 1\<rparr>))
                    else s);
          s2 = s1\<lparr>halobjects := remove1 a (halobjects s1)\<rparr>
      in shmfree_desc a (s2\<lparr>objs := (objs s2)(a := None)\<rparr>))"

fun sweep_loop :: "nat list \<Rightarrow> hal \<Rightarrow> int \<Rightarrow> hal \<times> int" where
  "sweep_loop [] s n = (s, n)"
| "sweep_loop (a # as) s n =
     (if ho_valid s a then sweep_loop as s n else sweep_loop as (sweep_one a s) (n + 1))"

definition hal_sweep :: "hal \<Rightarrow> hal \<times> int" where
  "hal_sweep s = sweep_loop (halobjects s) s 0"

end
