(* ===== verification/Hal_Value.thy ===== *)
theory Hal_Value
  imports Hal_Object
begin

text \<open>
  Values of pins, signals and parameters (\<open>hal_data_u\<close>, the typed setters and
  getters of \<open>hal_priv.h\<close> and the helpers of \<open>hal_accessor.c\<close>). The union is
  its eight bytes as a little-endian 64-bit word; a store of a narrower member
  leaves the other bytes as they are, and a float is its bit pattern.
\<close>

definition set_low :: "nat \<Rightarrow> u64 \<Rightarrow> u64 \<Rightarrow> u64" where
  "set_low n w v = (w AND NOT (mask n)) OR (v AND mask n)"

definition get_low :: "nat \<Rightarrow> u64 \<Rightarrow> u64" where
  "get_low n w = w AND mask n"

definition set_bit_value :: "u64 \<Rightarrow> u64 \<Rightarrow> u64" where "set_bit_value h v = set_low 8 h v"
definition set_s32_value :: "u64 \<Rightarrow> u64 \<Rightarrow> u64" where "set_s32_value h v = set_low 32 h v"
definition set_u32_value :: "u64 \<Rightarrow> u64 \<Rightarrow> u64" where "set_u32_value h v = set_low 32 h v"
definition set_s64_value :: "u64 \<Rightarrow> u64 \<Rightarrow> u64" where "set_s64_value h v = v"
definition set_u64_value :: "u64 \<Rightarrow> u64 \<Rightarrow> u64" where "set_u64_value h v = v"
definition set_float_value :: "u64 \<Rightarrow> u64 \<Rightarrow> u64" where "set_float_value h v = v"
definition get_bit_value :: "u64 \<Rightarrow> u64" where "get_bit_value h = get_low 8 h"
definition get_s32_value :: "u64 \<Rightarrow> u64" where "get_s32_value h = get_low 32 h"
definition get_u32_value :: "u64 \<Rightarrow> u64" where "get_u32_value h = get_low 32 h"
definition get_s64_value :: "u64 \<Rightarrow> u64" where "get_s64_value h = h"
definition get_u64_value :: "u64 \<Rightarrow> u64" where "get_u64_value h = h"
definition get_float_value :: "u64 \<Rightarrow> u64" where "get_float_value h = h"

definition zero_hal_data_u :: "nat \<Rightarrow> u64 \<Rightarrow> hal \<Rightarrow> hal \<times> u64 \<times> int" where
  "zero_hal_data_u t u s =
     (if t = HAL_BIT then (s, set_bit_value u 0, 0)
      else if t = HAL_FLOAT then (s, set_float_value u 0, 0)
      else if t = HAL_S32 then (s, set_s32_value u 0, 0)
      else if t = HAL_U32 then (s, set_u32_value u 0, 0)
      else if t = HAL_S64 then (s, set_s64_value u 0, 0)
      else if t = HAL_U64 then (s, set_u64_value u 0, 0)
      else (halfail EINVAL s, u, - EINVAL))"

definition hal_valid_type :: "nat \<Rightarrow> bool" where
  "hal_valid_type t \<longleftrightarrow> t \<in> {HAL_BIT, HAL_FLOAT, HAL_S32, HAL_U32, HAL_S64, HAL_U64}"

definition hal_valid_dir :: "nat \<Rightarrow> bool" where
  "hal_valid_dir d \<longleftrightarrow> d \<in> {HAL_IN, HAL_OUT, HAL_IO}"

definition hals_pindir :: "nat \<Rightarrow> string" where
  "hals_pindir d = (if d = HAL_IN then ''IN'' else if d = HAL_OUT then ''OUT''
     else if d = HAL_IO then ''I/O'' else ''*invalid*'')"

definition hals_type :: "nat \<Rightarrow> string" where
  "hals_type t = (if t = HAL_BIT then ''bit'' else if t = HAL_FLOAT then ''float''
     else if t = HAL_S32 then ''s32'' else if t = HAL_U32 then ''u32''
     else if t = HAL_S64 then ''s64'' else if t = HAL_U64 then ''u64'' else ''*invalid*'')"

section \<open>Descriptor access\<close>

definition zero_pin :: hal_pin where
  "zero_pin = \<lparr>pin_data_ptr_addr = 0, pin_data_ptr = 0, pin_signal = 0, pin_dummysig = 0,
     pin_type = 0, pin_dir = 0, pin_flags = 0, pin_eps_index = 0\<rparr>"

definition zero_sig :: hal_sig where
  "zero_sig = \<lparr>sig_type = 0, sig_value = 0, sig_readers = 0, sig_writers = 0, sig_bidirs = 0\<rparr>"

definition pin_of :: "hal \<Rightarrow> nat \<Rightarrow> hal_pin" where
  "pin_of s a = (case objs s a of None \<Rightarrow> zero_pin
     | Some ob \<Rightarrow> (case body ob of Pin p \<Rightarrow> p | _ \<Rightarrow> zero_pin))"

definition sig_of :: "hal \<Rightarrow> nat \<Rightarrow> hal_sig" where
  "sig_of s a = (case objs s a of None \<Rightarrow> zero_sig
     | Some ob \<Rightarrow> (case body ob of Sig x \<Rightarrow> x | _ \<Rightarrow> zero_sig))"

definition upd_pin :: "nat \<Rightarrow> (hal_pin \<Rightarrow> hal_pin) \<Rightarrow> hal \<Rightarrow> hal" where
  "upd_pin a f s = upd_obj a (\<lambda>ob. case body ob of Pin p \<Rightarrow> ob\<lparr>body := Pin (f p)\<rparr> | _ \<Rightarrow> ob) s"

definition upd_sig :: "nat \<Rightarrow> (hal_sig \<Rightarrow> hal_sig) \<Rightarrow> hal \<Rightarrow> hal" where
  "upd_sig a f s = upd_obj a (\<lambda>ob. case body ob of Sig x \<Rightarrow> ob\<lparr>body := Sig (f x)\<rparr> | _ \<Rightarrow> ob) s"

definition signal_of :: "hal \<Rightarrow> nat \<Rightarrow> nat option" where
  "signal_of s pin = (if pin_signal (pin_of s pin) \<noteq> 0 then Some (pin_signal (pin_of s pin)) else None)"

definition pin_value :: "hal \<Rightarrow> nat \<Rightarrow> u64" where
  "pin_value s pin =
     (if pin_signal (pin_of s pin) \<noteq> 0 then sig_value (sig_of s (pin_signal (pin_of s pin)))
      else pin_dummysig (pin_of s pin))"

definition set_signal :: "nat \<Rightarrow> nat \<Rightarrow> hal \<Rightarrow> hal" where
  "set_signal pin sig s = upd_pin pin (\<lambda>p. p\<lparr>pin_signal := sig\<rparr>) s"

definition pin_linked_to :: "hal \<Rightarrow> nat \<Rightarrow> nat \<Rightarrow> bool" where
  "pin_linked_to s pin sig \<longleftrightarrow> pin_signal (pin_of s pin) = sig"

definition pin_is_linked :: "hal \<Rightarrow> nat \<Rightarrow> bool" where
  "pin_is_linked s pin \<longleftrightarrow> pin_data_ptr (pin_of s pin) \<noteq> dummysig_of pin"

definition pin_set_unlinked :: "nat \<Rightarrow> hal \<Rightarrow> hal" where
  "pin_set_unlinked pin s =
     upd_pin pin (\<lambda>p. p\<lparr>pin_signal := 0, pin_data_ptr := dummysig_of pin\<rparr>) s"

text \<open>
  The accessors \<open>_set_*_pin\<close> and \<open>_get_*_pin\<close> of \<open>hal_accessor.h\<close> go through
  \<open>data_ptr\<close>: to the pin's own dummy signal or to the value of the signal
  whose descriptor holds the location.
\<close>

definition set_typed :: "nat \<Rightarrow> u64 \<Rightarrow> u64 \<Rightarrow> u64" where
  "set_typed t h v =
     (if t = HAL_BIT then set_bit_value h v else if t = HAL_S32 then set_s32_value h v
      else if t = HAL_U32 then set_u32_value h v else v)"

definition get_typed :: "nat \<Rightarrow> u64 \<Rightarrow> u64" where
  "get_typed t h =
     (if t = HAL_BIT then get_bit_value h else if t = HAL_S32 then get_s32_value h
      else if t = HAL_U32 then get_u32_value h else h)"

definition set_pin :: "nat \<Rightarrow> nat \<Rightarrow> u64 \<Rightarrow> hal \<Rightarrow> hal" where
  "set_pin t pin v s =
     (if pin_data_ptr (pin_of s pin) = dummysig_of pin
      then upd_pin pin (\<lambda>p. p\<lparr>pin_dummysig := set_typed t (pin_dummysig p) v\<rparr>) s
      else upd_sig (pin_data_ptr (pin_of s pin) - value_of 0)
             (\<lambda>x. x\<lparr>sig_value := set_typed t (sig_value x) v\<rparr>) s)"

definition get_pin :: "nat \<Rightarrow> nat \<Rightarrow> hal \<Rightarrow> u64" where
  "get_pin t pin s =
     get_typed t (if pin_data_ptr (pin_of s pin) = dummysig_of pin
                  then pin_dummysig (pin_of s pin)
                  else sig_value (sig_of s (pin_data_ptr (pin_of s pin) - value_of 0)))"

definition set_sig :: "nat \<Rightarrow> nat \<Rightarrow> u64 \<Rightarrow> hal \<Rightarrow> hal" where
  "set_sig t sig v s = upd_sig sig (\<lambda>x. x\<lparr>sig_value := set_typed t (sig_value x) v\<rparr>) s"

definition get_sig :: "nat \<Rightarrow> nat \<Rightarrow> hal \<Rightarrow> u64" where
  "get_sig t sig s = get_typed t (sig_value (sig_of s sig))"

definition incr_pin :: "nat \<Rightarrow> nat \<Rightarrow> u64 \<Rightarrow> hal \<Rightarrow> hal \<times> u64" where
  "incr_pin t pin v s =
     (let r = get_typed t (get_pin t pin s + v) in (set_pin t pin r s, r))"

end
