(* ===== verification/Hal_Pin.thy ===== *)
theory Hal_Pin
  imports Hal_Value
begin

text \<open>
  Pins (\<open>hal/src/hal_pin.c\<close>) and the allocators for accessor-style pins
  (\<open>hal/src/hal_accessor.c\<close>). A \<open>data_ptr_addr\<close> argument is the offset of the
  component's pointer cell, or \<open>None\<close> for \<open>NULL\<close>; the contents of the cells
  are kept in \<open>cells\<close>.
\<close>

definition comp_of :: "hal \<Rightarrow> nat \<Rightarrow> hal_comp option" where
  "comp_of s a = (case objs s a of None \<Rightarrow> None
     | Some ob \<Rightarrow> (case body ob of Comp c \<Rightarrow> Some c | _ \<Rightarrow> None))"

definition shmem_base_of :: "hal \<Rightarrow> nat \<Rightarrow> nat" where
  "shmem_base_of s a = (case comp_of s a of None \<Rightarrow> 0 | Some c \<Rightarrow> comp_shmem_base c)"

definition SHMCHK :: "hal \<Rightarrow> nat \<Rightarrow> bool" where
  "SHMCHK s p \<longleftrightarrow> 0 < p \<and> p < hal_size s"

definition dead_beef :: nat where "dead_beef = 72"

definition set_cell :: "nat \<Rightarrow> nat \<Rightarrow> hal \<Rightarrow> hal" where
  "set_cell a v s = s\<lparr>cells := (cells s)(a := v)\<rparr>"

definition halg_pin_newfv ::
  "nat \<Rightarrow> nat \<Rightarrow> nat option \<Rightarrow> int \<Rightarrow> u64 \<Rightarrow> string option \<Rightarrow> hal \<Rightarrow> hal \<times> nat option" where
  "halg_pin_newfv t dir data_ptr_addr owner_id defval fmt s =
     (if \<not> hal_attached s then halfail_null EINVAL s
      else if locked HAL_LOCK_LOAD s then halfail_null EPERM s
      else case fmt of None \<Rightarrow> halfail_null EINVAL s
      | Some str \<Rightarrow>
     (case fmt_ap (HAL_MAX_NAME_LEN + 1) str s of
        (s1, None) \<Rightarrow> halfail_null EINVAL s1
      | (s1, Some name) \<Rightarrow>
        if \<not> hal_valid_type t then halfail_null EINVAL s1
        else if \<not> hal_valid_dir dir then halfail_null EINVAL s1
        else if halg_find_object_by_name HAL_PIN (Some name) s1 \<noteq> None then halfail_null EEXIST s1
        else case halpr_find_owning_comp owner_id s1 of
          None \<Rightarrow> halfail_null EINVAL s1
        | Some cmp \<Rightarrow>
          if (case data_ptr_addr of None \<Rightarrow> False | Some d \<Rightarrow> \<not> SHMCHK s1 d)
          then halfail_null EINVAL s1
          else case halg_create_objectfv (desc_size HAL_PIN) (Pin zero_pin) HAL_PIN owner_id name s1 of
            (s2, None) \<Rightarrow> (s2, None)
          | (s2, Some new) \<Rightarrow>
             (let s3 = upd_pin new (\<lambda>p. p\<lparr>pin_type := t, pin_dir := dir, pin_signal := 0,
                                           pin_dummysig := defval\<rparr>) s2;
                  s4 = (case data_ptr_addr of
                          Some d \<Rightarrow>
                            set_cell d (shmem_base_of s3 cmp + dummysig_of new)
                              (upd_pin new (\<lambda>p. p\<lparr>pin_data_ptr_addr := d\<rparr>)
                                (upd_hdr new (\<lambda>hh. hh\<lparr>hh_legacy := True\<rparr>) s3))
                        | None \<Rightarrow> upd_pin new (\<lambda>p. p\<lparr>pin_data_ptr_addr := dead_beef\<rparr>) s3);
                  s5 = upd_pin new (\<lambda>p. p\<lparr>pin_data_ptr := dummysig_of new\<rparr>) s4
              in (halg_add_object new s5, Some new))))"

definition pin_rc :: "hal \<times> nat option \<Rightarrow> hal \<times> int" where
  "pin_rc r = (case r of (s, None) \<Rightarrow> (s, halerrno s) | (s, Some p) \<Rightarrow> (s, 0))"

definition hal_pin_bit_newf :: "nat \<Rightarrow> nat option \<Rightarrow> int \<Rightarrow> string option \<Rightarrow> hal \<Rightarrow> hal \<times> int" where
  "hal_pin_bit_newf dir data_ptr_addr owner_id fmt s =
     pin_rc (halg_pin_newfv HAL_BIT dir data_ptr_addr owner_id 0 fmt s)"

definition hal_pin_float_newf :: "nat \<Rightarrow> nat option \<Rightarrow> int \<Rightarrow> string option \<Rightarrow> hal \<Rightarrow> hal \<times> int" where
  "hal_pin_float_newf dir data_ptr_addr owner_id fmt s =
     pin_rc (halg_pin_newfv HAL_FLOAT dir data_ptr_addr owner_id 0 fmt s)"

definition hal_pin_u32_newf :: "nat \<Rightarrow> nat option \<Rightarrow> int \<Rightarrow> string option \<Rightarrow> hal \<Rightarrow> hal \<times> int" where
  "hal_pin_u32_newf dir data_ptr_addr owner_id fmt s =
     pin_rc (halg_pin_newfv HAL_U32 dir data_ptr_addr owner_id 0 fmt s)"

definition hal_pin_s32_newf :: "nat \<Rightarrow> nat option \<Rightarrow> int \<Rightarrow> string option \<Rightarrow> hal \<Rightarrow> hal \<times> int" where
  "hal_pin_s32_newf dir data_ptr_addr owner_id fmt s =
     pin_rc (halg_pin_newfv HAL_S32 dir data_ptr_addr owner_id 0 fmt s)"

definition hal_pin_u64_newf :: "nat \<Rightarrow> nat option \<Rightarrow> int \<Rightarrow> string option \<Rightarrow> hal \<Rightarrow> hal \<times> int" where
  "hal_pin_u64_newf dir data_ptr_addr owner_id fmt s =
     pin_rc (halg_pin_newfv HAL_U64 dir data_ptr_addr owner_id 0 fmt s)"

definition hal_pin_s64_newf :: "nat \<Rightarrow> nat option \<Rightarrow> int \<Rightarrow> string option \<Rightarrow> hal \<Rightarrow> hal \<times> int" where
  "hal_pin_s64_newf dir data_ptr_addr owner_id fmt s =
     pin_rc (halg_pin_newfv HAL_S64 dir data_ptr_addr owner_id 0 fmt s)"

definition hal_pin_newf ::
  "nat \<Rightarrow> nat \<Rightarrow> nat option \<Rightarrow> int \<Rightarrow> string option \<Rightarrow> hal \<Rightarrow> hal \<times> int" where
  "hal_pin_newf t dir data_ptr_addr owner_id fmt s =
     pin_rc (halg_pin_newfv t dir data_ptr_addr owner_id 0 fmt s)"

definition halg_pin_newf ::
  "nat \<Rightarrow> nat \<Rightarrow> nat option \<Rightarrow> int \<Rightarrow> string option \<Rightarrow> hal \<Rightarrow> hal \<times> nat option" where
  "halg_pin_newf t dir data_ptr_addr owner_id fmt s =
     halg_pin_newfv t dir data_ptr_addr owner_id 0 fmt s"

text \<open>The offset of the new pin, 0 for \<open>NULL\<close>.\<close>

definition hal_off_safe :: "hal \<times> nat option \<Rightarrow> hal \<times> nat" where
  "hal_off_safe r = (case r of (s, None) \<Rightarrow> (s, 0) | (s, Some p) \<Rightarrow> (s, p))"

definition halx_pin_bit_newf :: "nat \<Rightarrow> int \<Rightarrow> string option \<Rightarrow> hal \<Rightarrow> hal \<times> nat" where
  "halx_pin_bit_newf dir owner_id fmt s =
     hal_off_safe (halg_pin_newfv HAL_BIT dir None owner_id 0 fmt s)"

definition halx_pin_float_newf :: "nat \<Rightarrow> int \<Rightarrow> string option \<Rightarrow> hal \<Rightarrow> hal \<times> nat" where
  "halx_pin_float_newf dir owner_id fmt s =
     hal_off_safe (halg_pin_newfv HAL_FLOAT dir None owner_id 0 fmt s)"

definition halx_pin_u32_newf :: "nat \<Rightarrow> int \<Rightarrow> string option \<Rightarrow> hal \<Rightarrow> hal \<times> nat" where
  "halx_pin_u32_newf dir owner_id fmt s =
     hal_off_safe (halg_pin_newfv HAL_U32 dir None owner_id 0 fmt s)"

definition halx_pin_s32_newf :: "nat \<Rightarrow> int \<Rightarrow> string option \<Rightarrow> hal \<Rightarrow> hal \<times> nat" where
  "halx_pin_s32_newf dir owner_id fmt s =
     hal_off_safe (halg_pin_newfv HAL_S32 dir None owner_id 0 fmt s)"

definition halx_pin_u64_newf :: "nat \<Rightarrow> int \<Rightarrow> string option \<Rightarrow> hal \<Rightarrow> hal \<times> nat" where
  "halx_pin_u64_newf dir owner_id fmt s =
     hal_off_safe (halg_pin_newfv HAL_U64 dir None owner_id 0 fmt s)"

definition halx_pin_s64_newf :: "nat \<Rightarrow> int \<Rightarrow> string option \<Rightarrow> hal \<Rightarrow> hal \<times> nat" where
  "halx_pin_s64_newf dir owner_id fmt s =
     hal_off_safe (halg_pin_newfv HAL_S64 dir None owner_id 0 fmt s)"

definition halxd_pin_bit_newf ::
  "nat \<Rightarrow> int \<Rightarrow> u64 \<Rightarrow> string option \<Rightarrow> hal \<Rightarrow> hal \<times> nat" where
  "halxd_pin_bit_newf dir owner_id def fmt s =
     hal_off_safe (halg_pin_newfv HAL_BIT dir None owner_id (set_bit_value 0 def) fmt s)"

definition halxd_pin_float_newf ::
  "nat \<Rightarrow> int \<Rightarrow> u64 \<Rightarrow> string option \<Rightarrow> hal \<Rightarrow> hal \<times> nat" where
  "halxd_pin_float_newf dir owner_id def fmt s =
     hal_off_safe (halg_pin_newfv HAL_FLOAT dir None owner_id (set_float_value 0 def) fmt s)"

definition halxd_pin_u32_newf ::
  "nat \<Rightarrow> int \<Rightarrow> u64 \<Rightarrow> string option \<Rightarrow> hal \<Rightarrow> hal \<times> nat" where
  "halxd_pin_u32_newf dir owner_id def fmt s =
     hal_off_safe (halg_pin_newfv HAL_U32 dir None owner_id (set_u32_value 0 def) fmt s)"

definition halxd_pin_s32_newf ::
  "nat \<Rightarrow> int \<Rightarrow> u64 \<Rightarrow> string option \<Rightarrow> hal \<Rightarrow> hal \<times> nat" where
  "halxd_pin_s32_newf dir owner_id def fmt s =
     hal_off_safe (halg_pin_newfv HAL_S32 dir None owner_id (set_s32_value 0 def) fmt s)"

definition halxd_pin_u64_newf ::
  "nat \<Rightarrow> int \<Rightarrow> u64 \<Rightarrow> string option \<Rightarrow> hal \<Rightarrow> hal \<times> nat" where
  "halxd_pin_u64_newf dir owner_id def fmt s =
     hal_off_safe (halg_pin_newfv HAL_U64 dir None owner_id (set_u64_value 0 def) fmt s)"

definition halxd_pin_s64_newf ::
  "nat \<Rightarrow> int \<Rightarrow> u64 \<Rightarrow> string option \<Rightarrow> hal \<Rightarrow> hal \<times> nat" where
  "halxd_pin_s64_newf dir owner_id def fmt s =
     hal_off_safe (halg_pin_newfv HAL_S64 dir None owner_id (set_s64_value 0 def) fmt s)"

section \<open>Unlinking and deletion\<close>

text \<open>The value a pin keeps when it is unlinked: the current value of the
  signal, for the types the switch handles.\<close>

definition copy_sig_to_dummy :: "nat \<Rightarrow> nat \<Rightarrow> hal \<Rightarrow> hal" where
  "copy_sig_to_dummy pin sig s =
     (let t = pin_type (pin_of s pin); v = sig_value (sig_of s sig) in
      if t = HAL_BIT
      then upd_pin pin (\<lambda>p. p\<lparr>pin_dummysig := set_bit_value (pin_dummysig p) (get_bit_value v)\<rparr>) s
      else if t = HAL_S32
      then upd_pin pin (\<lambda>p. p\<lparr>pin_dummysig := set_s32_value (pin_dummysig p) (get_s32_value v)\<rparr>) s
      else if t = HAL_U32
      then upd_pin pin (\<lambda>p. p\<lparr>pin_dummysig := set_u32_value (pin_dummysig p) (get_u32_value v)\<rparr>) s
      else if t = HAL_FLOAT
      then upd_pin pin (\<lambda>p. p\<lparr>pin_dummysig := set_float_value (pin_dummysig p) (get_float_value v)\<rparr>) s
      else s)"

definition sig_counts_down :: "nat \<Rightarrow> hal_sig \<Rightarrow> hal_sig" where
  "sig_counts_down dir x =
     (let x1 = (if (of_nat dir :: u32) AND of_nat HAL_IN \<noteq> 0
                then x\<lparr>sig_readers := sig_readers x - 1\<rparr> else x);
          x2 = (if dir = HAL_OUT then x1\<lparr>sig_writers := sig_writers x1 - 1\<rparr> else x1)
      in if dir = HAL_IO then x2\<lparr>sig_bidirs := sig_bidirs x2 - 1\<rparr> else x2)"

definition unlink_pin :: "nat \<Rightarrow> hal \<Rightarrow> hal" where
  "unlink_pin pin s =
     (if \<not> pin_is_linked s pin then s
      else
       (let s1 = (if ho_legacy s pin
                  then case halpr_find_owning_comp (ho_owner_id s pin) s of
                         None \<Rightarrow> s\<lparr>fault := True\<rparr>
                       | Some cmp \<Rightarrow>
                           set_cell (pin_data_ptr_addr (pin_of s pin))
                             (shmem_base_of s cmp + dummysig_of pin) s
                  else s);
            s2 = upd_pin pin (\<lambda>p. p\<lparr>pin_data_ptr := dummysig_of pin\<rparr>) s1
        in case signal_of s pin of
             None \<Rightarrow> s2\<lparr>fault := True\<rparr>
           | Some sig \<Rightarrow>
               pin_set_unlinked pin
                 (upd_sig sig (sig_counts_down (pin_dir (pin_of s2 pin)))
                   (copy_sig_to_dummy pin sig s2))))"

definition free_pin_struct :: "nat \<Rightarrow> hal \<Rightarrow> hal" where
  "free_pin_struct pin s = fst (halg_free_object pin (unlink_pin pin s))"

end
