(* ===== verification/Hal_Signal.thy ===== *)
theory Hal_Signal
  imports Hal_Pin
begin

text \<open>
  Signals (\<open>hal/src/hal_signal.c\<close>): creation, deletion, linking and unlinking
  of pins, memory-barrier flags, and the barrier setter for arbitrary objects
  of \<open>hal_object.c\<close>, which propagates to the pins of a signal.
\<close>

section \<open>Iteration over the pins of a signal\<close>

definition pin_by_signal_callback ::
  "nat \<Rightarrow> (nat \<Rightarrow> nat \<Rightarrow> hal \<Rightarrow> 'u \<Rightarrow> hal \<times> 'u \<times> int) option \<Rightarrow> nat \<Rightarrow> hal \<Rightarrow> 'u \<Rightarrow> hal \<times> 'u \<times> int" where
  "pin_by_signal_callback sig cb pin s u =
     (if pin_linked_to s pin sig
      then case cb of None \<Rightarrow> (s, u, 0) | Some f \<Rightarrow> f pin sig s u
      else (s, u, 0))"

definition halg_foreach_pin_by_signal ::
  "nat \<Rightarrow> (nat \<Rightarrow> nat \<Rightarrow> hal \<Rightarrow> 'u \<Rightarrow> hal \<times> 'u \<times> int) option \<Rightarrow> hal \<Rightarrow> 'u \<Rightarrow> hal \<times> 'u \<times> int" where
  "halg_foreach_pin_by_signal sig cb s u =
     halg_foreach (no_args\<lparr>fa_type := HAL_PIN\<rparr>) (pin_by_signal_callback sig cb) s u"

section \<open>Barriers\<close>

definition ho_rmb :: "hal \<Rightarrow> nat \<Rightarrow> bool" where
  "ho_rmb s a \<longleftrightarrow> (case objs s a of None \<Rightarrow> False | Some ob \<Rightarrow> hh_rmb (hdr ob))"
definition ho_wmb :: "hal \<Rightarrow> nat \<Rightarrow> bool" where
  "ho_wmb s a \<longleftrightarrow> (case objs s a of None \<Rightarrow> False | Some ob \<Rightarrow> hh_wmb (hdr ob))"

definition propagate_barriers_cb :: "nat \<Rightarrow> nat \<Rightarrow> hal \<Rightarrow> unit \<Rightarrow> hal \<times> unit \<times> int" where
  "propagate_barriers_cb pin sig s u =
     (let rmb = ho_rmb s sig; wmb = ho_wmb s sig; dir = pin_dir (pin_of s pin);
          s' = (if dir = HAL_IN then
                  (if rmb then upd_hdr pin (hh_set_rmb (of_bool rmb)) s else s)
                else if dir = HAL_OUT then
                  (if wmb then upd_hdr pin (hh_set_wmb (of_bool rmb)) s else s)
                else if dir = HAL_IO then
                  (let s1 = (if rmb then upd_hdr pin (hh_set_rmb (of_bool rmb)) s else s)
                   in if wmb then upd_hdr pin (hh_set_wmb (of_bool rmb)) s1 else s1)
                else s)
      in (s', u, 0))"

definition halg_signal_propagate_barriers :: "nat \<Rightarrow> hal \<Rightarrow> hal \<times> int" where
  "halg_signal_propagate_barriers sig s =
     (if \<not> hal_attached s then halfail_rc EINVAL s
      else (fst (halg_foreach (no_args\<lparr>fa_type := HAL_PIN\<rparr>)
                   (pin_by_signal_callback sig (Some propagate_barriers_cb)) s ()), 0))"

definition halg_object_setbarriers :: "nat \<Rightarrow> int \<Rightarrow> int \<Rightarrow> hal \<Rightarrow> hal \<times> int" where
  "halg_object_setbarriers a read_barrier write_barrier s =
     (if \<not> hal_attached s then halfail_rc EINVAL s
      else if \<not> ho_valid s a then halfail_rc EINVAL s
      else if ho_object_type s a \<in> {HAL_PIN, HAL_PARAM} \<and> ho_legacy s a then halfail_rc EINVAL s
      else
       (let s1 = (if read_barrier > -1 then upd_hdr a (hh_set_rmb read_barrier) s else s);
            s2 = (if write_barrier > -1 then upd_hdr a (hh_set_wmb write_barrier) s1 else s1);
            s3 = (if ho_object_type s2 a = HAL_SIGNAL
                  then fst (halg_signal_propagate_barriers a s2) else s2)
        in (s3, 0)))"

text \<open>The checks \<open>CHECK_STRLEN\<close> return without setting \<open>_halerrno\<close>.\<close>

definition bad_str :: "string option \<Rightarrow> nat \<Rightarrow> bool" where
  "bad_str str n \<longleftrightarrow> (case str of None \<Rightarrow> True | Some c \<Rightarrow> length c > n)"

definition halg_signal_setbarriers :: "string option \<Rightarrow> int \<Rightarrow> int \<Rightarrow> hal \<Rightarrow> hal \<times> int" where
  "halg_signal_setbarriers name read_barrier write_barrier s =
     (if \<not> hal_attached s then halfail_rc EINVAL s
      else if locked HAL_LOCK_CONFIG s then halfail_rc EPERM s
      else if bad_str name HAL_MAX_NAME_LEN then (s, - EINVAL)
      else case halg_find_object_by_name HAL_SIGNAL name s of
        None \<Rightarrow> halfail_rc ENOENT s
      | Some sig \<Rightarrow>
         (let s1 = fst (halg_object_setbarriers sig read_barrier write_barrier s)
          in (fst (halg_signal_propagate_barriers sig s1), 0)))"

section \<open>Creation and deletion\<close>

definition halg_signal_new :: "string option \<Rightarrow> nat \<Rightarrow> hal \<Rightarrow> hal \<times> int" where
  "halg_signal_new name t s =
     (if \<not> hal_attached s then halfail_rc EINVAL s
      else if locked HAL_LOCK_CONFIG s then halfail_rc EPERM s
      else if bad_str name HAL_NAME_LEN then (s, - EINVAL)
      else if halg_find_object_by_name HAL_SIGNAL name s \<noteq> None then halfail_rc EINVAL s
      else case halg_create_objectfv (desc_size HAL_SIGNAL) (Sig zero_sig) HAL_SIGNAL 0 (the name) s of
        (s1, None) \<Rightarrow> (s1, halerrno s1)
      | (s1, Some new) \<Rightarrow>
          if t \<notin> {HAL_BIT, HAL_S32, HAL_U32, HAL_FLOAT}
          then halfail_rc EINVAL (fst (halg_free_object new s1))
          else
           (let s2 = upd_sig new (\<lambda>x. x\<lparr>sig_value := set_typed t (sig_value x) 0\<rparr>) s1;
                s3 = upd_sig new (\<lambda>x. x\<lparr>sig_type := t, sig_readers := 0, sig_writers := 0,
                                         sig_bidirs := 0\<rparr>) s2
            in (halg_add_object new s3, 0)))"

definition unlink_pin_callback :: "nat \<Rightarrow> nat \<Rightarrow> hal \<Rightarrow> unit \<Rightarrow> hal \<times> unit \<times> int" where
  "unlink_pin_callback pin sig s u = (unlink_pin pin s, u, 0)"

definition free_sig_struct :: "nat \<Rightarrow> hal \<Rightarrow> hal \<times> int" where
  "free_sig_struct sig s =
     halg_free_object sig (fst (halg_foreach_pin_by_signal sig (Some unlink_pin_callback) s ()))"

definition halg_signal_delete :: "string option \<Rightarrow> hal \<Rightarrow> hal \<times> int" where
  "halg_signal_delete name s =
     (if \<not> hal_attached s then halfail_rc EINVAL s
      else if locked HAL_LOCK_CONFIG s then halfail_rc EPERM s
      else if bad_str name HAL_NAME_LEN then (s, - EINVAL)
      else case halg_find_object_by_name HAL_SIGNAL name s of
        None \<Rightarrow> halfail_rc ENOENT s
      | Some sig \<Rightarrow> free_sig_struct sig s)"

section \<open>Linking\<close>

definition sig_counts_up :: "nat \<Rightarrow> hal_sig \<Rightarrow> hal_sig" where
  "sig_counts_up dir x =
     (let x1 = (if (of_nat dir :: u32) AND of_nat HAL_IN \<noteq> 0
                then x\<lparr>sig_readers := sig_readers x + 1\<rparr> else x);
          x2 = (if dir = HAL_OUT then x1\<lparr>sig_writers := sig_writers x1 + 1\<rparr> else x1)
      in if dir = HAL_IO then x2\<lparr>sig_bidirs := sig_bidirs x2 + 1\<rparr> else x2)"

definition link_legacy_cell :: "nat \<Rightarrow> nat \<Rightarrow> hal \<Rightarrow> hal" where
  "link_legacy_cell pin sig s =
     (if ho_legacy s pin
      then case halpr_find_owning_comp (ho_owner_id s pin) s of
             None \<Rightarrow> s\<lparr>fault := True\<rparr>
           | Some cmp \<Rightarrow>
              (let d = pin_data_ptr_addr (pin_of s pin)
               in set_cell d (shmem_base_of s cmp + value_of sig) (hal_assert (cells s d \<noteq> 0) s))
      else s)"

definition halg_link :: "string option \<Rightarrow> string option \<Rightarrow> hal \<Rightarrow> hal \<times> int" where
  "halg_link pin_name sig_name s =
     (if \<not> hal_attached s then halfail_rc EINVAL s
      else if locked HAL_LOCK_CONFIG s then halfail_rc EPERM s
      else if bad_str pin_name HAL_NAME_LEN then (s, - EINVAL)
      else if bad_str sig_name HAL_NAME_LEN then (s, - EINVAL)
      else case halg_find_object_by_name HAL_PIN pin_name s of
        None \<Rightarrow> halfail_rc EINVAL s
      | Some pin \<Rightarrow>
     (case halg_find_object_by_name HAL_SIGNAL sig_name s of
        None \<Rightarrow> halfail_rc EINVAL s
      | Some sig \<Rightarrow>
        let p = pin_of s pin; x = sig_of s sig in
        if pin_linked_to s pin sig then (s, 0)
        else if pin_is_linked s pin then halfail_rc EINVAL s
        else if pin_type p \<noteq> sig_type x then halfail_rc EINVAL s
        else if pin_dir p = HAL_OUT \<and> (sig_writers x > 0 \<or> sig_bidirs x > 0) then halfail_rc EINVAL s
        else if pin_dir p = HAL_IO \<and> sig_writers x > 0 then halfail_rc EINVAL s
        else
         (let s1 = link_legacy_cell pin sig s;
              s2 = upd_pin pin (\<lambda>p. p\<lparr>pin_data_ptr := value_of sig\<rparr>) s1;
              inherit = (pin_dir p = HAL_OUT \<or> sig_readers x + sig_writers x + sig_bidirs x = 0)
          in if inherit \<and> pin_type p \<notin> {HAL_BIT, HAL_S32, HAL_U32, HAL_FLOAT}
             then halfail_rc EINVAL s2
             else
              (let s3 = (if inherit
                         then set_sig (pin_type p) sig (get_typed (pin_type p) (pin_value s2 pin)) s2
                         else s2);
                   s4 = upd_sig sig (sig_counts_up (pin_dir p)) s3;
                   s5 = set_signal pin sig s4
               in (fst (halg_signal_propagate_barriers sig s5), 0)))))"

definition halg_unlink :: "string option \<Rightarrow> hal \<Rightarrow> hal \<times> int" where
  "halg_unlink pin_name s =
     (if \<not> hal_attached s then halfail_rc EINVAL s
      else if locked HAL_LOCK_CONFIG s then halfail_rc EPERM s
      else if bad_str pin_name HAL_NAME_LEN then (s, - EINVAL)
      else case halg_find_object_by_name HAL_PIN pin_name s of
        None \<Rightarrow> halfail_rc EINVAL s
      | Some pin \<Rightarrow> (unlink_pin pin s, 0))"

end
