(* ===== verification/Hal_Param.thy ===== *)
theory Hal_Param
  imports Hal_Signal
begin

text \<open>
  Parameters (\<open>hal/src/hal_param.c\<close>). \<open>halg_param_newfv\<close> returns a null
  pointer on every path, also after it has created the parameter.
\<close>

definition zero_param :: hal_param where
  "zero_param = \<lparr>param_val = 0, param_data_ptr = 0, param_type = 0, param_dir = 0\<rparr>"

definition upd_param :: "nat \<Rightarrow> (hal_param \<Rightarrow> hal_param) \<Rightarrow> hal \<Rightarrow> hal" where
  "upd_param a f s = upd_obj a (\<lambda>ob. case body ob of Param p \<Rightarrow> ob\<lparr>body := Param (f p)\<rparr> | _ \<Rightarrow> ob) s"

definition state_of_comp :: "hal \<Rightarrow> nat \<Rightarrow> int" where
  "state_of_comp s a = (case comp_of s a of None \<Rightarrow> 0 | Some c \<Rightarrow> comp_state c)"

definition type_of_comp :: "hal \<Rightarrow> nat \<Rightarrow> int" where
  "type_of_comp s a = (case comp_of s a of None \<Rightarrow> 0 | Some c \<Rightarrow> comp_type c)"

definition halg_param_newfv ::
  "nat \<Rightarrow> nat \<Rightarrow> nat option \<Rightarrow> int \<Rightarrow> string option \<Rightarrow> hal \<Rightarrow> hal \<times> nat option" where
  "halg_param_newfv t dir data_addr owner_id fmt s =
     (if \<not> hal_attached s then halfail_null EINVAL s
      else if locked HAL_LOCK_LOAD s then halfail_null EPERM s
      else case fmt of None \<Rightarrow> halfail_null EINVAL s
      | Some str \<Rightarrow>
     (case fmt_ap (HAL_MAX_NAME_LEN + 1) str s of
        (s1, None) \<Rightarrow> halfail_null EINVAL s1
      | (s1, Some name) \<Rightarrow>
        if t \<notin> {HAL_BIT, HAL_FLOAT, HAL_S32, HAL_U32} then halfail_null EINVAL s1
        else if dir \<noteq> HAL_RO \<and> dir \<noteq> HAL_RW then halfail_null EINVAL s1
        else case halpr_find_owning_comp owner_id s1 of
          None \<Rightarrow> halfail_null EINVAL s1
        | Some cmp \<Rightarrow>
          if (case data_addr of None \<Rightarrow> False | Some d \<Rightarrow> \<not> SHMCHK s1 d) then halfail_null EINVAL s1
          else
           (let inst_id = (case halg_find_object_by_id HAL_INST owner_id s1 of
                             None \<Rightarrow> 0 | Some i \<Rightarrow> ho_id s1 i)
            in if inst_id = 0 \<and> state_of_comp s1 cmp > COMP_INITIALIZING then halfail_null EINVAL s1
               else case halg_create_objectfv (desc_size HAL_PARAM) (Param zero_param) HAL_PARAM
                           owner_id name s1 of
                 (s2, None) \<Rightarrow> (s2, None)
               | (s2, Some new) \<Rightarrow>
                  (let s3 = (case data_addr of
                               Some d \<Rightarrow> upd_hdr new (\<lambda>hh. hh\<lparr>hh_legacy := True\<rparr>)
                                          (upd_param new (\<lambda>p. p\<lparr>param_data_ptr := d\<rparr>) s2)
                             | None \<Rightarrow> upd_param new
                                         (\<lambda>p. p\<lparr>param_data_ptr := param_value_of new\<rparr>) s2);
                       s4 = upd_param new (\<lambda>p. p\<lparr>param_type := t, param_dir := dir\<rparr>) s3
                   in (halg_add_object new s4, None)))))"

definition halg_param_newf ::
  "nat \<Rightarrow> nat \<Rightarrow> nat option \<Rightarrow> int \<Rightarrow> string option \<Rightarrow> hal \<Rightarrow> hal \<times> nat option" where
  "halg_param_newf t dir data_addr owner_id fmt s = halg_param_newfv t dir data_addr owner_id fmt s"

definition hal_param_newf ::
  "nat \<Rightarrow> nat \<Rightarrow> nat option \<Rightarrow> int \<Rightarrow> string option \<Rightarrow> hal \<Rightarrow> hal \<times> int" where
  "hal_param_newf t dir data_addr owner_id fmt s =
     (case halg_param_newfv t dir data_addr owner_id fmt s of
        (s1, None) \<Rightarrow> (s1, halerrno s1) | (s1, Some p) \<Rightarrow> (s1, 0))"

text \<open>The legacy entry \<open>hal_param_new\<close> of \<open>hal.h\<close>.\<close>

definition hal_param_new ::
  "string \<Rightarrow> nat \<Rightarrow> nat \<Rightarrow> nat option \<Rightarrow> int \<Rightarrow> hal \<Rightarrow> hal \<times> int" where
  "hal_param_new name t dir data_addr owner_id s =
     (case halg_param_newf t dir data_addr owner_id (Some name) s of
        (s1, None) \<Rightarrow> (s1, halerrno s1) | (s1, Some p) \<Rightarrow> (s1, 0))"

definition hal_param_newfv ::
  "nat \<Rightarrow> nat \<Rightarrow> nat option \<Rightarrow> int \<Rightarrow> string \<Rightarrow> hal \<Rightarrow> hal \<times> int" where
  "hal_param_newfv t dir data_addr owner_id str s =
     (if length str > HAL_NAME_LEN then halfail_rc ENOMEM s
      else hal_param_new str t dir data_addr owner_id s)"

definition hal_param_bit_newf :: "nat \<Rightarrow> nat option \<Rightarrow> int \<Rightarrow> string \<Rightarrow> hal \<Rightarrow> hal \<times> int" where
  "hal_param_bit_newf dir data_addr owner_id str s = hal_param_newfv HAL_BIT dir data_addr owner_id str s"

definition hal_param_float_newf :: "nat \<Rightarrow> nat option \<Rightarrow> int \<Rightarrow> string \<Rightarrow> hal \<Rightarrow> hal \<times> int" where
  "hal_param_float_newf dir data_addr owner_id str s =
     hal_param_newfv HAL_FLOAT dir data_addr owner_id str s"

definition hal_param_u32_newf :: "nat \<Rightarrow> nat option \<Rightarrow> int \<Rightarrow> string \<Rightarrow> hal \<Rightarrow> hal \<times> int" where
  "hal_param_u32_newf dir data_addr owner_id str s = hal_param_newfv HAL_U32 dir data_addr owner_id str s"

definition hal_param_s32_newf :: "nat \<Rightarrow> nat option \<Rightarrow> int \<Rightarrow> string \<Rightarrow> hal \<Rightarrow> hal \<times> int" where
  "hal_param_s32_newf dir data_addr owner_id str s = hal_param_newfv HAL_S32 dir data_addr owner_id str s"

end
