(* ===== verification/Hal_Ring.thy ===== *)
theory Hal_Ring
  imports Hal_Param
begin

text \<open>
  HAL rings and plugs (\<open>hal/src/hal_ring.c\<close>): named ring buffers, in the HAL
  segment or in RTAPI shared-memory segments of their own whose keys come
  from a bitmap of ring identifiers, and plugs that attach to them.
\<close>

definition RTAPI_RING_SHM_KEY :: int where "RTAPI_RING_SHM_KEY = 4280320"

definition RINGBUFFER_MAGIC :: int where "RINGBUFFER_MAGIC = 1953723241"

text \<open>\<open>OS_KEY\<close> for instance 0.\<close>

definition OS_KEY :: "int \<Rightarrow> int" where "OS_KEY key = key mod 16777216"

fun digits :: "nat \<Rightarrow> nat \<Rightarrow> string" where
  "digits 0 n = []"
| "digits (Suc k) n = (if n < 10 then [] else digits k (n div 10)) @ [char_of (48 + n mod 10)]"

definition nat_str :: "nat \<Rightarrow> string" where "nat_str n = digits (Suc n) n"

section \<open>Ring identifiers\<close>

fun first_clear :: "bool list \<Rightarrow> nat \<Rightarrow> nat option" where
  "first_clear [] i = None"
| "first_clear (b # bs) i = (if b then first_clear bs (i + 1) else Some i)"

definition next_ring_id :: "hal \<Rightarrow> hal \<times> int" where
  "next_ring_id s =
     (case first_clear (take HAL_MAX_RINGS (rings_map s)) 0 of
        Some i \<Rightarrow> (s\<lparr>rings_map := (rings_map s)[i := True]\<rparr>, int i)
      | None \<Rightarrow> halfail_rc EINVAL s)"

definition free_ring_id :: "int \<Rightarrow> hal \<Rightarrow> hal \<times> int" where
  "free_ring_id i s =
     (if i < 0 \<or> i > int HAL_MAX_RINGS then halfail_rc EINVAL s
      else if \<not> rings_map s ! nat i then halfail_rc EINVAL s
      else (s\<lparr>rings_map := (rings_map s)[nat i := False]\<rparr>, 0))"

section \<open>Descriptors\<close>

definition zero_ring :: hal_ring where
  "zero_ring = \<lparr>ring_id = 0, ring_shmkey = 0, ring_total_size = 0, ring_offset = 0,
     ring_flags = 0, ring_handle = 0, ring_encodings = 0\<rparr>"

definition zero_plug :: hal_plug where
  "zero_plug = \<lparr>plug_rb_header = None, plug_rb_magic = False, plug_flags = 0, plug_ring_id = 0,
     plug_role = 0\<rparr>"

definition ring_of :: "hal \<Rightarrow> nat \<Rightarrow> hal_ring" where
  "ring_of s a = (case objs s a of None \<Rightarrow> zero_ring
     | Some ob \<Rightarrow> (case body ob of Ring r \<Rightarrow> r | _ \<Rightarrow> zero_ring))"

definition plug_of :: "hal \<Rightarrow> nat \<Rightarrow> hal_plug" where
  "plug_of s a = (case objs s a of None \<Rightarrow> zero_plug
     | Some ob \<Rightarrow> (case body ob of Plug r \<Rightarrow> r | _ \<Rightarrow> zero_plug))"

definition upd_ring :: "nat \<Rightarrow> (hal_ring \<Rightarrow> hal_ring) \<Rightarrow> hal \<Rightarrow> hal" where
  "upd_ring a f s = upd_obj a (\<lambda>ob. case body ob of Ring p \<Rightarrow> ob\<lparr>body := Ring (f p)\<rparr> | _ \<Rightarrow> ob) s"

definition upd_plug :: "nat \<Rightarrow> (hal_plug \<Rightarrow> hal_plug) \<Rightarrow> hal \<Rightarrow> hal" where
  "upd_plug a f s = upd_obj a (\<lambda>ob. case body ob of Plug p \<Rightarrow> ob\<lparr>body := Plug (f p)\<rparr> | _ \<Rightarrow> ob) s"

definition upd_ring_hdr :: "ring_loc \<Rightarrow> (ringheader \<Rightarrow> ringheader) \<Rightarrow> hal \<Rightarrow> hal" where
  "upd_ring_hdr l f s = s\<lparr>ring_hdrs := (ring_hdrs s)(l := f (ring_hdrs s l))\<rparr>"

section \<open>Creation\<close>

definition in_halmem :: "u32 \<Rightarrow> bool" where
  "in_halmem flags \<longleftrightarrow> flags AND ALLOC_HALMEM \<noteq> 0"

text \<open>The default name of a ring, or none for an invalid type.\<close>

definition ring_default_name :: "u32 \<Rightarrow> int \<Rightarrow> string option" where
  "ring_default_name mode i =
     (let t = mode AND RINGTYPE_MASK; n = nat_str (nat i) in
      if t = RINGTYPE_RECORD then Some (''record-'' @ n)
      else if t = RINGTYPE_MULTIPART then Some (''multi-'' @ n)
      else if t = RINGTYPE_STREAM then Some (''stream-'' @ n)
      else None)"

text \<open>The exit \<open>FAIL\<close>: \<open>rptr\<close> is the pointer the function holds at that point.\<close>

definition ring_new_fail :: "int \<Rightarrow> nat option \<Rightarrow> hal \<Rightarrow> hal \<times> nat option" where
  "ring_new_fail i rptr s =
     (let s1 = fst (free_ring_id i s)
      in (case rptr of None \<Rightarrow> s1 | Some a \<Rightarrow> fst (halg_free_object a s1), None))"

text \<open>The storage of a new ring.\<close>

definition ring_alloc_storage :: "nat \<Rightarrow> int \<Rightarrow> hal \<Rightarrow> hal \<times> ring_loc option" where
  "ring_alloc_storage rptr i s =
     (let r = ring_of s rptr; total = nat (ring_total_size r) in
      if in_halmem (ring_flags r) then
        (case shmalloc_desc_aligned total RTAPI_CACHELINE s of
           (s1, None) \<Rightarrow> (halfail ENOMEM s1, None)
         | (s1, Some m) \<Rightarrow> (upd_ring rptr (\<lambda>r. r\<lparr>ring_offset := m\<rparr>) s1, Some (HalMem m)))
      else
       (let key = OS_KEY (RTAPI_RING_SHM_KEY + i);
            s1 = upd_ring rptr (\<lambda>r. r\<lparr>ring_shmkey := key\<rparr>) s
        in case rtapi_shmem_new (OS_KEY key) total (rtapi s1) of
             (rt, shmid) \<Rightarrow>
               if shmid < 0 then (halfail shmid (s1\<lparr>rtapi := rt\<rparr>), None)
               else
                (case rtapi_shmem_getptr shmid rt of
                   (rc, p) \<Rightarrow>
                     if rc < 0 then (halfail rc (s1\<lparr>rtapi := rt\<rparr>), None)
                     else (hal_assert (the p mod RTAPI_CACHELINE = 0) (s1\<lparr>rtapi := rt\<rparr>),
                           Some (ShmMem (the p))))))"

definition halg_ring_newfv ::
  "u32 \<Rightarrow> u32 \<Rightarrow> u32 \<Rightarrow> string option \<Rightarrow> hal \<Rightarrow> hal \<times> nat option" where
  "halg_ring_newfv sz sp_size mode fmt s =
     (if \<not> hal_attached s then halfail_null EINVAL s
      else if locked HAL_LOCK_LOAD s then halfail_null EPERM s
      else case next_ring_id s of (s1, i) \<Rightarrow>
        if i < 0 then (s1, None)
        else
     (case (case fmt of
              None \<Rightarrow> (case ring_default_name mode i of
                         None \<Rightarrow> (halfail EINVAL s1, None) | Some n \<Rightarrow> (s1, Some n))
            | Some str \<Rightarrow> fmt_ap (HAL_MAX_NAME_LEN + 1) str s1) of
        (s2, None) \<Rightarrow> ring_new_fail i None s2
      | (s2, Some name) \<Rightarrow>
     (case halg_find_object_by_name HAL_RING (Some name) s2 of
        Some rptr \<Rightarrow> ring_new_fail i (Some rptr) (halfail EEXIST s2)
      | None \<Rightarrow>
     (case halg_create_objectfv (desc_size HAL_RING) (Ring zero_ring) HAL_RING 0 name s2 of
        (s3, None) \<Rightarrow> ring_new_fail i None s3
      | (s3, Some rptr) \<Rightarrow>
         (let s4 = upd_ring rptr (\<lambda>r. r\<lparr>ring_flags := mode, ring_id := i,
                      ring_total_size := uint (ring_memsize mode sz sp_size)\<rparr>) s3
          in case ring_alloc_storage rptr i s4 of
               (s5, None) \<Rightarrow> ring_new_fail i (Some rptr) s5
             | (s5, Some l) \<Rightarrow>
                (let s6 = upd_ring_hdr l (\<lambda>h. (ringheader_init mode sz sp_size h)\<lparr>refcount := 0\<rparr>) s5
                 in (halg_add_object rptr s6, Some rptr)))))))"

section \<open>Deletion, attachment\<close>

text \<open>
  Finding the header of a ring: in the HAL segment, or by mapping the ring's
  segment, where size 0 asks for an existing one. \<open>EEXIST\<close> is let through and
  then has no usable handle.
\<close>

definition ring_locate :: "nat \<Rightarrow> hal \<Rightarrow> hal \<times> int \<times> int \<times> ring_loc option" where
  "ring_locate a s =
     (let r = ring_of s a in
      if in_halmem (ring_flags r) then (s, 0, - 1, Some (HalMem (ring_offset r)))
      else case rtapi_shmem_new_inst (OS_KEY (ring_shmkey r)) 0 0 (rtapi s) of
        (rt, shmid) \<Rightarrow>
          let s1 = s\<lparr>rtapi := rt\<rparr> in
          if shmid < 0 \<and> shmid \<noteq> - EEXIST then (halfail shmid s1, - shmid, shmid, None)
          else case rtapi_shmem_getptr shmid rt of
            (rc, p) \<Rightarrow>
              if rc \<noteq> 0 then (halfail ENOMEM s1, - ENOMEM, shmid, None)
              else (s1, 0, shmid, Some (ShmMem (the p))))"

definition free_ring_struct :: "nat \<Rightarrow> hal \<Rightarrow> hal \<times> int" where
  "free_ring_struct a s =
     (case ring_locate a s of
        (s1, rc, shmid, None) \<Rightarrow> (s1, rc)
      | (s1, rc, shmid, Some l) \<Rightarrow>
         if refcount (ring_hdrs s1 l) \<noteq> 0 then halfail_rc EBUSY s1
         else
          (let i = ring_id (ring_of s1 a);
               (s2, rv) = (if in_halmem (ring_flags (ring_of s1 a))
                           then (shmfree_desc (ring_offset (ring_of s1 a)) s1, 0)
                           else case rtapi_shmem_delete shmid (rtapi s1) of
                                  (rt, rv) \<Rightarrow> (s1\<lparr>rtapi := rt\<rparr>, rv))
           in if rv < 0 then halfail_rc rv s2
              else case halg_free_object a s2 of
                     (s3, rc3) \<Rightarrow> if rc3 = 0 then free_ring_id i s3 else (s3, rc3)))"

definition halg_ring_deletefv :: "string option \<Rightarrow> hal \<Rightarrow> hal \<times> int" where
  "halg_ring_deletefv fmt s =
     (if \<not> hal_attached s then halfail_rc EINVAL s
      else case fmt of None \<Rightarrow> (s, - EINVAL)
      | Some str \<Rightarrow>
     (case fmt_ap (HAL_MAX_NAME_LEN + 1) str s of
        (s1, None) \<Rightarrow> (s1, halerrno s1)
      | (s1, Some name) \<Rightarrow>
     (case halg_find_object_by_name HAL_RING (Some name) s1 of
        None \<Rightarrow> halfail_rc ENOENT s1
      | Some rptr \<Rightarrow> (fst (free_ring_struct rptr s1), 0))))"

text \<open>\<open>want\<close> says that a ringbuffer argument is given; the result carries the
  header's place and the flags.\<close>

definition halg_ring_attachfv ::
  "bool \<Rightarrow> string option \<Rightarrow> hal \<Rightarrow> hal \<times> int \<times> ring_loc option \<times> u32" where
  "halg_ring_attachfv want fmt s =
     (if \<not> hal_attached s then (halfail EINVAL s, - EINVAL, None, 0)
      else case fmt of None \<Rightarrow> (s, - EINVAL, None, 0)
      | Some str \<Rightarrow>
     (case fmt_ap (HAL_MAX_NAME_LEN + 1) str s of
        (s1, None) \<Rightarrow> (s1, halerrno s1, None, 0)
      | (s1, Some name) \<Rightarrow>
     (case halg_find_object_by_name HAL_RING (Some name) s1 of
        None \<Rightarrow> (halfail ENOENT s1, - ENOENT, None, 0)
      | Some rptr \<Rightarrow>
         (let flags = ring_flags (ring_of s1 rptr) in
          if \<not> want then (s1, 0, None, flags)
          else case ring_locate rptr s1 of
                 (s2, rc, shmid, None) \<Rightarrow> (s2, rc, None, 0)
               | (s2, rc, shmid, Some l) \<Rightarrow>
                   (upd_ring_hdr l (\<lambda>h. h\<lparr>refcount := refcount h + 1\<rparr>) s2, 0, Some l, flags)))))"

text \<open>Detaching through the ringbuffer of a plug, whose magic number is cleared.\<close>

definition halg_ring_detach :: "nat \<Rightarrow> hal \<Rightarrow> hal \<times> int" where
  "halg_ring_detach plug s =
     (if \<not> hal_attached s then halfail_rc EINVAL s
      else if locked HAL_LOCK_CONFIG s then halfail_rc EPERM s
      else case plug_rb_header (plug_of s plug) of
        None \<Rightarrow> halfail_rc EINVAL s
      | Some l \<Rightarrow>
         if \<not> plug_rb_magic (plug_of s plug) then halfail_rc EINVAL s
         else (upd_plug plug (\<lambda>p. p\<lparr>plug_rb_magic := False\<rparr>)
                 (upd_ring_hdr l (\<lambda>h. h\<lparr>refcount := refcount h - 1\<rparr>) s), 0))"

section \<open>Plugs\<close>

definition PLUG_READER :: nat where "PLUG_READER = 1"
definition PLUG_WRITER :: nat where "PLUG_WRITER = 2"

record plug_args =
  pa_type :: nat
  pa_flags :: u32
  pa_ring_name :: "string option"
  pa_ring_id :: int
  pa_owner_name :: "string option"
  pa_owner_id :: int

text \<open>
  The jumps to \<open>FAIL\<close> in front of the declaration of \<open>plug\<close> reach the test of
  that variable before it has a value; the model records a fault there.
\<close>

definition plug_early_fail :: "hal \<Rightarrow> hal \<times> nat option" where
  "plug_early_fail s = (s\<lparr>fault := True\<rparr>, None)"

definition halg_plug_new :: "plug_args option \<Rightarrow> hal \<Rightarrow> hal \<times> nat option" where
  "halg_plug_new args0 s =
     (if \<not> hal_attached s then halfail_null EINVAL s
      else case args0 of None \<Rightarrow> halfail_null EINVAL s
      | Some args \<Rightarrow>
        if locked HAL_LOCK_LOAD s then halfail_null EPERM s
        else
     (case (case pa_owner_name args of
              Some n \<Rightarrow> halg_find_object_by_name 0 (Some n) s
            | None \<Rightarrow> halg_find_object_by_id 0 (pa_owner_id args) s) of
        None \<Rightarrow> halfail_null EINVAL s
      | Some own \<Rightarrow>
     (case (case pa_ring_name args of
              Some n \<Rightarrow> halg_find_object_by_name HAL_RING (Some n) s
            | None \<Rightarrow> halg_find_object_by_id HAL_RING (pa_ring_id args) s) of
        None \<Rightarrow> plug_early_fail s
      | Some ring \<Rightarrow>
         (let tag = (if pa_type args = PLUG_WRITER then ''write'' else ''read'')
          in
     (case fmt_ap HAL_MAX_NAME_LEN (ho_name s ring @ ''.'' @ ho_name s own @ ''.'' @ tag) s of
        (s1, None) \<Rightarrow> plug_early_fail (halfail EINVAL s1)
      | (s1, Some plugname) \<Rightarrow>
        if halg_find_object_by_name HAL_PLUG (Some plugname) s1 \<noteq> None
        then plug_early_fail (halfail EEXIST s1)
        else
         (let wanted = pa_flags args AND RINGTYPE_MASK;
              ring_is = ring_flags (ring_of s1 ring) AND RINGTYPE_MASK
          in if wanted \<noteq> RINGTYPE_ANY \<and> wanted \<noteq> ring_is then plug_early_fail (halfail ENOENT s1)
             else
     (case halg_create_objectfv (desc_size HAL_PLUG) (Plug zero_plug) HAL_PLUG (ho_id s1 own)
             plugname s1 of
        (s2, None) \<Rightarrow> (s2, None)
      | (s2, Some plug) \<Rightarrow>
         (let s3 = upd_plug plug (\<lambda>p. p\<lparr>plug_ring_id := ho_id s2 ring, plug_flags := pa_flags args,
                      plug_role := pa_type args mod 4\<rparr>) s2
          in
     (case halg_ring_attachfv True (Some (ho_name s3 ring)) s3 of
        (s4, rc, None, flags) \<Rightarrow> (fst (halg_free_object plug s4), None)
      | (s4, rc, Some l, flags) \<Rightarrow>
         (let s5 = upd_plug plug (\<lambda>p. p\<lparr>plug_rb_header := Some l, plug_rb_magic := True\<rparr>) s4;
              s6 = (if pa_type args = PLUG_WRITER
                    then upd_ring_hdr l (\<lambda>h. h\<lparr>writer := ho_id s5 plug\<rparr>) s5
                    else upd_ring_hdr l (\<lambda>h. h\<lparr>reader := ho_id s5 plug\<rparr>) s5)
          in (halg_add_object plug s6, Some plug)))))))))))"

definition halg_plug_delete :: "nat \<Rightarrow> hal \<Rightarrow> hal \<times> int" where
  "halg_plug_delete plug s =
     (if \<not> hal_attached s then halfail_rc EINVAL s
      else if locked HAL_LOCK_LOAD s then halfail_rc EPERM s
      else if \<not> ho_valid s plug then halfail_rc EINVAL s
      else if ho_object_type s plug \<noteq> HAL_PLUG then halfail_rc EINVAL s
      else
       (let s1 = (case plug_rb_header (plug_of s plug) of
                    None \<Rightarrow> s
                  | Some l \<Rightarrow>
                     (let self = ho_id s plug;
                          sa = (if writer (ring_hdrs s l) = self
                                then upd_ring_hdr l (\<lambda>h. h\<lparr>writer := 0\<rparr>) s else s);
                          sb = (if reader (ring_hdrs sa l) = self
                                then upd_ring_hdr l (\<lambda>h. h\<lparr>reader := 0\<rparr>) sa else sa)
                      in fst (halg_ring_detach plug sb)))
        in halg_free_object plug s1))"

end
