(* ===== verification/Hal_Funct.thy ===== *)
theory Hal_Funct
  imports Hal_Ring
begin

text \<open>
  Functions and their use by threads (\<open>hal/src/hal_funct.c\<close>). The function
  list of a thread is the list of its entries; the walk to an insertion point
  works on positions, where 0 is the list root.
\<close>

section \<open>Descriptors\<close>

definition zero_funct :: hal_funct where
  "zero_funct = \<lparr>funct_arg = 0, funct_code = 0, funct_type = 0, funct_runtime = 0, funct_maxtime = 0,
     funct_maxtime_increased = 0, funct_uses_fp = 0, funct_reentrant = 0, funct_users = 0\<rparr>"

definition zero_thread :: hal_thread where
  "zero_thread = \<lparr>thr_uses_fp = 0, thr_period = 0, thr_priority = 0, thr_task_id = 0, thr_runtime = 0,
     thr_maxtime = 0, thr_curr_period = 0, thr_cycles = 0, thr_funct_list = [], thr_cpu_id = 0,
     thr_flags = 0, thr_cgname = []\<rparr>"

definition zero_entry :: hal_funct_entry where
  "zero_entry = \<lparr>fe_rmb = False, fe_wmb = False, fe_type = 0, fe_arg = 0, fe_code = 0, fe_funct_ptr = 0\<rparr>"

definition funct_of :: "hal \<Rightarrow> nat \<Rightarrow> hal_funct" where
  "funct_of s a = (case objs s a of None \<Rightarrow> zero_funct
     | Some ob \<Rightarrow> (case body ob of Funct f \<Rightarrow> f | _ \<Rightarrow> zero_funct))"

definition thread_of :: "hal \<Rightarrow> nat \<Rightarrow> hal_thread" where
  "thread_of s a = (case objs s a of None \<Rightarrow> zero_thread
     | Some ob \<Rightarrow> (case body ob of Thread t \<Rightarrow> t | _ \<Rightarrow> zero_thread))"

definition entry_of :: "hal \<Rightarrow> nat \<Rightarrow> hal_funct_entry" where
  "entry_of s e = (case fentries s e of None \<Rightarrow> zero_entry | Some x \<Rightarrow> x)"

definition upd_funct :: "nat \<Rightarrow> (hal_funct \<Rightarrow> hal_funct) \<Rightarrow> hal \<Rightarrow> hal" where
  "upd_funct a f s = upd_obj a (\<lambda>ob. case body ob of Funct p \<Rightarrow> ob\<lparr>body := Funct (f p)\<rparr> | _ \<Rightarrow> ob) s"

definition upd_thread :: "nat \<Rightarrow> (hal_thread \<Rightarrow> hal_thread) \<Rightarrow> hal \<Rightarrow> hal" where
  "upd_thread a f s = upd_obj a (\<lambda>ob. case body ob of Thread p \<Rightarrow> ob\<lparr>body := Thread (f p)\<rparr> | _ \<Rightarrow> ob) s"

definition set_entry :: "nat \<Rightarrow> hal_funct_entry \<Rightarrow> hal \<Rightarrow> hal" where
  "set_entry e x s = s\<lparr>fentries := (fentries s)(e \<mapsto> x)\<rparr>"

section \<open>Function entries\<close>

definition alloc_funct_entry_struct :: "hal \<Rightarrow> hal \<times> nat option" where
  "alloc_funct_entry_struct s =
     (case funct_entry_free s of
        l # ls \<Rightarrow>
          (set_entry l ((entry_of s l)\<lparr>fe_funct_ptr := 0, fe_arg := 0, fe_code := 0\<rparr>)
             (s\<lparr>funct_entry_free := ls\<rparr>), Some l)
      | [] \<Rightarrow>
          (case shmalloc_rt funct_entry_size s of
             (s1, None) \<Rightarrow> (s1\<lparr>fault := True\<rparr>, None)
           | (s1, Some p) \<Rightarrow> (set_entry p zero_entry s1, Some p)))"

definition free_funct_entry_struct :: "nat \<Rightarrow> hal \<Rightarrow> hal" where
  "free_funct_entry_struct e s =
     (let s1 = (if fe_funct_ptr (entry_of s e) > 0
                then upd_funct (fe_funct_ptr (entry_of s e))
                       (\<lambda>f. f\<lparr>funct_users := funct_users f - 1\<rparr>) s
                else s);
          s2 = set_entry e ((entry_of s1 e)\<lparr>fe_funct_ptr := 0, fe_arg := 0, fe_code := 0\<rparr>) s1
      in s2\<lparr>funct_entry_free := e # funct_entry_free s2\<rparr>)"

section \<open>Export\<close>

record hal_export_xfunct_args =
  xf_type :: int
  xf_funct :: nat
  xf_arg :: nat
  xf_uses_fp :: int
  xf_reentrant :: int
  xf_owner_id :: int

definition halg_export_xfunctfv :: "hal_export_xfunct_args \<Rightarrow> string \<Rightarrow> hal \<Rightarrow> hal \<times> int" where
  "halg_export_xfunctfv xf name s =
     (if \<not> hal_attached s then halfail_rc EINVAL s
      else if locked HAL_LOCK_LOAD s then halfail_rc EPERM s
      else if length name > HAL_NAME_LEN then halfail_rc ENOMEM s
      else if halg_find_object_by_name HAL_FUNCT (Some name) s \<noteq> None then halfail_rc EINVAL s
      else case halpr_find_owning_comp (xf_owner_id xf) s of
        None \<Rightarrow> halfail_rc EINVAL s
      | Some cmp \<Rightarrow>
        if type_of_comp s cmp = TYPE_USER then halfail_rc EINVAL s
        else if halg_find_object_by_id HAL_INST (xf_owner_id xf) s = None \<and>
                state_of_comp s cmp > COMP_INITIALIZING
        then halfail_rc EINVAL s
        else case halg_create_objectfv (desc_size HAL_FUNCT) (Funct zero_funct) HAL_FUNCT
                    (xf_owner_id xf) name s of
          (s1, None) \<Rightarrow> (s1, halerrno s1)
        | (s1, Some nf) \<Rightarrow>
           (let s2 = upd_funct nf (\<lambda>f. f\<lparr>funct_uses_fp := xf_uses_fp xf,
                        funct_reentrant := xf_reentrant xf, funct_users := 0, funct_arg := xf_arg xf,
                        funct_type := xf_type xf, funct_code := xf_funct xf\<rparr>) s1;
                s3 = halg_add_object nf s2
            in if xf_type xf = FS_LEGACY_THREADFUNC \<or> xf_type xf = FS_XTHREADFUNC
               then
                (case halx_pin_s32_newf HAL_OUT (xf_owner_id xf) (Some (name @ ''.time'')) s3 of
                   (s4, p1) \<Rightarrow>
                (case halx_pin_s32_newf HAL_IO (xf_owner_id xf) (Some (name @ ''.tmax''))
                        (upd_funct nf (\<lambda>f. f\<lparr>funct_runtime := p1\<rparr>) s4) of
                   (s5, p2) \<Rightarrow>
                (case halx_pin_bit_newf HAL_OUT (xf_owner_id xf) (Some (name @ ''.tmax-inc''))
                        (upd_funct nf (\<lambda>f. f\<lparr>funct_maxtime := p2\<rparr>) s5) of
                   (s6, p3) \<Rightarrow>
                     (upd_funct nf (\<lambda>f. f\<lparr>funct_maxtime_increased := p3\<rparr>) s6, 0))))
               else (s3, 0)))"

definition hal_export_functf ::
  "nat \<Rightarrow> nat \<Rightarrow> int \<Rightarrow> int \<Rightarrow> int \<Rightarrow> string \<Rightarrow> hal \<Rightarrow> hal \<times> int" where
  "hal_export_functf fn arg uses_fp reentrant owner_id name s =
     halg_export_xfunctfv \<lparr>xf_type = FS_LEGACY_THREADFUNC, xf_funct = fn, xf_arg = arg,
       xf_uses_fp = uses_fp, xf_reentrant = reentrant, xf_owner_id = owner_id\<rparr> name s"

definition hal_export_xfunctf :: "hal_export_xfunct_args \<Rightarrow> string \<Rightarrow> hal \<Rightarrow> hal \<times> int" where
  "hal_export_xfunctf xf name s = halg_export_xfunctfv xf name s"

definition halg_export_xfunctf :: "hal_export_xfunct_args \<Rightarrow> string \<Rightarrow> hal \<Rightarrow> hal \<times> int" where
  "halg_export_xfunctf xf name s = halg_export_xfunctfv xf name s"

definition hal_export_funct ::
  "string \<Rightarrow> nat \<Rightarrow> nat \<Rightarrow> int \<Rightarrow> int \<Rightarrow> int \<Rightarrow> hal \<Rightarrow> hal \<times> int" where
  "hal_export_funct name fn arg uses_fp reentrant owner_id s =
     hal_export_functf fn arg uses_fp reentrant owner_id name s"

text \<open>Calling a userland function: \<open>usr\<close> is the code the descriptor's function
  pointers refer to.\<close>

definition hal_call_usrfunct ::
  "(nat \<Rightarrow> string option list \<Rightarrow> hal \<Rightarrow> hal \<times> int) \<Rightarrow> string option \<Rightarrow> int \<Rightarrow>
   string option list option \<Rightarrow> hal \<Rightarrow> hal \<times> int \<times> int option" where
  "hal_call_usrfunct usr name argc argv s =
     (if \<not> hal_attached s then (halfail EINVAL s, - EINVAL, None)
      else if name = None then (s, - EINVAL, None)
      else if argc \<noteq> 0 \<and> argv = None then (halfail EINVAL s, - EINVAL, None)
      else case halg_find_object_by_name HAL_FUNCT name s of
        None \<Rightarrow> (halfail ENOENT s, - ENOENT, None)
      | Some f \<Rightarrow>
        if funct_type (funct_of s f) \<noteq> FS_USERLAND then (halfail ENOENT s, - ENOENT, None)
        else
         (let av = take (nat argc) (case argv of None \<Rightarrow> [] | Some xs \<Rightarrow> xs) in
          if None \<in> set av then (halfail EINVAL s, - EINVAL, None)
          else case usr (funct_code (funct_of s f)) av s of (s1, rv) \<Rightarrow> (s1, 0, Some rv)))"

section \<open>Adding and removing functions\<close>

text \<open>Walking a list of \<open>len\<close> entries by position; \<open>None\<close> when the root is reached.\<close>

fun walk_next :: "nat \<Rightarrow> nat \<Rightarrow> nat \<Rightarrow> nat option" where
  "walk_next 0 len e = Some e"
| "walk_next (Suc k) len e =
     (let e' = (if e = len then 0 else e + 1) in if e' = 0 then None else walk_next k len e')"

fun walk_prev :: "nat \<Rightarrow> nat \<Rightarrow> nat \<Rightarrow> nat option" where
  "walk_prev 0 len e = Some e"
| "walk_prev (Suc k) len e =
     (let e' = (if e = 0 then len else e - 1) in if e' = 0 then None else walk_prev k len e')"

definition insertion_point :: "int \<Rightarrow> nat \<Rightarrow> nat option" where
  "insertion_point position len =
     (if position > 0 then walk_next (nat (position - 1)) len 0
      else case walk_prev (nat (- position - 1)) len 0 of
             None \<Rightarrow> None
           | Some e \<Rightarrow> Some (if e = 0 then len else e - 1))"

definition find_funct :: "string option \<Rightarrow> hal \<Rightarrow> nat option" where
  "find_funct funct_name s =
     (case halg_find_object_by_name HAL_FUNCT funct_name s of
        Some f \<Rightarrow> Some f
      | None \<Rightarrow> halg_find_object_by_name HAL_FUNCT
                  (Some (take (HAL_NAME_LEN - 1) (the funct_name @ ''.funct''))) s)"

definition hal_add_funct_to_thread ::
  "string option \<Rightarrow> string option \<Rightarrow> int \<Rightarrow> int \<Rightarrow> int \<Rightarrow> hal \<Rightarrow> hal \<times> int" where
  "hal_add_funct_to_thread funct_name thread_name position read_barrier write_barrier s =
     (if \<not> hal_attached s then halfail_rc EINVAL s
      else if locked HAL_LOCK_CONFIG s then halfail_rc EPERM s
      else if funct_name = None then (s, - EINVAL)
      else if thread_name = None then (s, - EINVAL)
      else if position = 0 then halfail_rc EINVAL s
      else case find_funct funct_name s of
        None \<Rightarrow> halfail_rc EINVAL s
      | Some fn \<Rightarrow>
        (let f = funct_of s fn in
        if funct_type f \<noteq> FS_LEGACY_THREADFUNC \<and> funct_type f \<noteq> FS_XTHREADFUNC
        then halfail_rc EINVAL s
        else if funct_users f > 0 \<and> funct_reentrant f = 0 then halfail_rc EINVAL s
        else case halg_find_object_by_name HAL_THREAD thread_name s of
          None \<Rightarrow> halfail_rc EINVAL s
        | Some th \<Rightarrow>
          if funct_uses_fp f \<noteq> 0 \<and> thr_uses_fp (thread_of s th) = 0 then halfail_rc EINVAL s
          else case insertion_point position (length (thr_funct_list (thread_of s th))) of
            None \<Rightarrow> halfail_rc EINVAL s
          | Some e \<Rightarrow>
            (case alloc_funct_entry_struct s of
               (s1, None) \<Rightarrow> halfail_rc ENOMEM s1
             | (s1, Some fe) \<Rightarrow>
                (let s2 = set_entry fe ((entry_of s1 fe)\<lparr>fe_funct_ptr := fn, fe_arg := funct_arg f,
                            fe_code := funct_code f, fe_rmb := (read_barrier mod 256 \<noteq> 0),
                            fe_wmb := (write_barrier mod 256 \<noteq> 0), fe_type := funct_type f\<rparr>) s1;
                     s3 = upd_thread th (\<lambda>t. t\<lparr>thr_funct_list :=
                            take e (thr_funct_list t) @ fe # drop e (thr_funct_list t)\<rparr>) s2
                 in (upd_funct fn (\<lambda>f. f\<lparr>funct_users := funct_users f + 1\<rparr>) s3, 0)))))"

text \<open>The first entry of a thread's list that refers to the function.\<close>

definition entry_for :: "hal \<Rightarrow> nat \<Rightarrow> nat list \<Rightarrow> nat option" where
  "entry_for s fn es = List.find (\<lambda>e. fe_funct_ptr (entry_of s e) = fn) es"

definition hal_del_funct_from_thread :: "string option \<Rightarrow> string option \<Rightarrow> hal \<Rightarrow> hal \<times> int" where
  "hal_del_funct_from_thread funct_name thread_name s =
     (if \<not> hal_attached s then halfail_rc EINVAL s
      else if locked HAL_LOCK_CONFIG s then halfail_rc EPERM s
      else if funct_name = None then (s, - EINVAL)
      else if thread_name = None then (s, - EINVAL)
      else case find_funct funct_name s of
        None \<Rightarrow> halfail_rc EINVAL s
      | Some fn \<Rightarrow>
        if funct_users (funct_of s fn) = 0 then halfail_rc EINVAL s
        else case halg_find_object_by_name HAL_THREAD thread_name s of
          None \<Rightarrow> halfail_rc EINVAL s
        | Some th \<Rightarrow>
          (case entry_for s fn (thr_funct_list (thread_of s th)) of
             None \<Rightarrow> halfail_rc EINVAL s
           | Some e \<Rightarrow>
               (free_funct_entry_struct e
                  (upd_thread th (\<lambda>t. t\<lparr>thr_funct_list := remove1 e (thr_funct_list t)\<rparr>) s), 0)))"

section \<open>Deletion\<close>

text \<open>The loop of \<open>thread_cb\<close> over the entries of a thread.\<close>

fun unlink_entries :: "nat \<Rightarrow> nat \<Rightarrow> nat list \<Rightarrow> hal \<Rightarrow> hal" where
  "unlink_entries fn th [] s = s"
| "unlink_entries fn th (e # es) s =
     (if fe_funct_ptr (entry_of s e) = fn
      then unlink_entries fn th es
             (free_funct_entry_struct e
               (upd_thread th (\<lambda>t. t\<lparr>thr_funct_list := remove1 e (thr_funct_list t)\<rparr>) s))
      else unlink_entries fn th es s)"

definition thread_cb :: "nat \<Rightarrow> nat \<Rightarrow> hal \<Rightarrow> unit \<Rightarrow> hal \<times> unit \<times> int" where
  "thread_cb fn th s u = (unlink_entries fn th (thr_funct_list (thread_of s th)) s, u, 0)"

definition free_funct_struct :: "nat \<Rightarrow> hal \<Rightarrow> hal" where
  "free_funct_struct fn s =
     (let s1 = (if funct_users (funct_of s fn) > 0
                then fst (halg_foreach (no_args\<lparr>fa_type := HAL_THREAD\<rparr>) (thread_cb fn) s ())
                else s)
      in fst (halg_free_object fn s1))"

end
