(* ===== verification/Hal_Thread.thy ===== *)
theory Hal_Thread
  imports Hal_Funct
begin

text \<open>
  Threads (\<open>hal/src/hal_thread.c\<close>): creation and deletion, the global start and
  stop switch, and the cycle of \<open>thread_task\<close>. The code behind the function
  pointers of a component (\<open>lcode\<close>, \<open>xcode\<close>) and the readings of
  \<open>rtapi_get_time\<close> (\<open>clk\<close>, by call number) are parameters. The running mean
  and variance of the period, which are floating point, and the memory
  barriers, which have no effect on a sequential state, are left out.
\<close>

section \<open>The cycle of a thread\<close>

record hal_funct_args =
  fa_start_time :: int
  fa_last_start_time :: int
  fa_thread_start_time :: int
  fa_funct :: nat
  fa_end_time :: int
  fa_calls :: nat

definition s32_word :: "int \<Rightarrow> u64" where "s32_word i = word_of_int i"
definition word_s32 :: "u64 \<Rightarrow> int" where "word_s32 w = to_s32 (uint (get_low 32 w))"

definition set_s32_pin :: "nat \<Rightarrow> int \<Rightarrow> hal \<Rightarrow> hal" where
  "set_s32_pin pin v s = set_pin HAL_S32 pin (s32_word v) s"
definition get_s32_pin :: "nat \<Rightarrow> hal \<Rightarrow> int" where
  "get_s32_pin pin s = word_s32 (get_pin HAL_S32 pin s)"

text \<open>\<open>rtapi_get_time\<close>: the next reading of the clock.\<close>

definition get_time :: "(nat \<Rightarrow> int) \<Rightarrow> hal_funct_args \<Rightarrow> int \<times> hal_funct_args" where
  "get_time clk fa = (clk (fa_calls fa), fa\<lparr>fa_calls := fa_calls fa + 1\<rparr>)"

type_synonym lfunct = "nat \<Rightarrow> nat \<Rightarrow> int \<Rightarrow> hal \<Rightarrow> hal"
type_synonym xfunct = "nat \<Rightarrow> nat \<Rightarrow> hal_funct_args \<Rightarrow> hal \<Rightarrow> hal"

definition run_funct :: "lfunct \<Rightarrow> xfunct \<Rightarrow> int \<Rightarrow> nat \<Rightarrow> hal_funct_args \<Rightarrow> hal \<Rightarrow> hal" where
  "run_funct lcode xcode period e fa s =
     (let x = entry_of s e in
      if fe_type x = FS_LEGACY_THREADFUNC then lcode (fe_code x) (fe_arg x) period s
      else if fe_type x = FS_XTHREADFUNC then xcode (fe_code x) (fe_arg x) fa s
      else s)"

text \<open>The execution-time pins of the function that has just run.\<close>

definition update_times :: "nat \<Rightarrow> int \<Rightarrow> hal \<Rightarrow> hal" where
  "update_times fn delta s =
     (let s1 = set_s32_pin (funct_runtime (funct_of s fn)) delta s;
          mx = funct_maxtime (funct_of s1 fn)
      in if delta > get_s32_pin mx s1 then set_s32_pin mx delta s1 else s1)"

text \<open>The inner loop, over the function list as it is at the release point.\<close>

fun run_functs ::
  "lfunct \<Rightarrow> xfunct \<Rightarrow> (nat \<Rightarrow> int) \<Rightarrow> int \<Rightarrow> nat list \<Rightarrow> hal_funct_args \<Rightarrow> hal \<Rightarrow>
   hal_funct_args \<times> hal" where
  "run_functs lcode xcode clk period [] fa s = (fa, s)"
| "run_functs lcode xcode clk period (e # es) fa s =
     (let fn = fe_funct_ptr (entry_of s e);
          fa1 = fa\<lparr>fa_funct := fn\<rparr>;
          s1 = run_funct lcode xcode period e fa1 s;
          (end_time, fa2) = get_time clk fa1;
          s2 = update_times fn (to_s32 (end_time - fa_start_time fa2)) s1
      in run_functs lcode xcode clk period es
           (fa2\<lparr>fa_start_time := end_time, fa_end_time := end_time\<rparr>) s2)"

definition thread_cycle ::
  "lfunct \<Rightarrow> xfunct \<Rightarrow> (nat \<Rightarrow> int) \<Rightarrow> nat \<Rightarrow> hal_funct_args \<Rightarrow> hal \<Rightarrow> hal_funct_args \<times> hal" where
  "thread_cycle lcode xcode clk th fa s =
     (if threads_running s > 0 then
       (let es = thr_funct_list (thread_of s th);
            (now, fa1) = get_time clk fa;
            s1 = set_s32_pin (thr_curr_period (thread_of s th))
                   (to_s32 (now - fa_last_start_time fa1)) s;
            fa2 = fa1\<lparr>fa_start_time := now, fa_last_start_time := now, fa_thread_start_time := now\<rparr>;
            (fa3, s2) = run_functs lcode xcode clk (thr_period (thread_of s1 th)) es fa2 s1;
            rt = to_s32 (fa_end_time fa3 - fa_thread_start_time fa3);
            s3 = set_s32_pin (thr_runtime (thread_of s2 th)) rt s2;
            mx = thr_maxtime (thread_of s3 th);
            s4 = (if rt > get_s32_pin mx s3 then set_s32_pin mx rt s3 else s3)
        in (fa3, upd_thread th (\<lambda>t. t\<lparr>thr_cycles := thr_cycles t + 1\<rparr>) s4))
      else
       (let (act_period, fa1) =
              (if fa_last_start_time fa > 0
               then (let (now, fa') = get_time clk fa in (to_s32 (now - fa_last_start_time fa), fa'))
               else (to_s32 (thr_period (thread_of s th)), fa));
            s1 = set_s32_pin (thr_curr_period (thread_of s th)) act_period s;
            (now, fa2) = get_time clk fa1
        in (fa2\<lparr>fa_last_start_time := now\<rparr>, s1)))"

text \<open>The task after \<open>n\<close> iterations of its endless loop. \<open>end0\<close> is the value of
  the uninitialised variable \<open>end_time\<close>.\<close>

fun thread_iterate ::
  "lfunct \<Rightarrow> xfunct \<Rightarrow> (nat \<Rightarrow> int) \<Rightarrow> nat \<Rightarrow> nat \<Rightarrow> hal_funct_args \<Rightarrow> hal \<Rightarrow> hal_funct_args \<times> hal" where
  "thread_iterate lcode xcode clk th 0 fa s = (fa, s)"
| "thread_iterate lcode xcode clk th (Suc n) fa s =
     (let (fa1, s1) = thread_cycle lcode xcode clk th fa s
      in thread_iterate lcode xcode clk th n fa1 s1)"

definition thread_task ::
  "lfunct \<Rightarrow> xfunct \<Rightarrow> (nat \<Rightarrow> int) \<Rightarrow> int \<Rightarrow> nat \<Rightarrow> nat \<Rightarrow> hal \<Rightarrow> hal_funct_args \<times> hal" where
  "thread_task lcode xcode clk end0 th n s =
     thread_iterate lcode xcode clk th n
       \<lparr>fa_start_time = 0, fa_last_start_time = 0, fa_thread_start_time = 0, fa_funct = 0,
        fa_end_time = end0, fa_calls = 0\<rparr>
       (upd_thread th (\<lambda>t. t\<lparr>thr_cycles := 0\<rparr>) s)"

section \<open>Creation\<close>

record hal_threadargs =
  ta_name :: "string option"
  ta_period_nsec :: nat
  ta_uses_fp :: int
  ta_cpu_id :: int
  ta_flags :: int
  ta_cgname :: string

text \<open>The number that \<open>thread_task\<close> has as code pointer.\<close>

definition thread_task_code :: nat where "thread_task_code = 1"

text \<open>
  The base period and the predecessor's priority and period. \<open>period_nsec\<close> is
  an unsigned long, so comparisons with it are unsigned; a negative \<open>rc\<close> stands
  for \<open>-EINVAL\<close>.
\<close>

definition ulong :: "int \<Rightarrow> int" where "ulong i = i mod 2 ^ 64"

definition thread_base :: "nat \<Rightarrow> hal \<Rightarrow> hal \<times> int \<times> int \<times> int" where
  "thread_base period_nsec s =
     (case hal_threads s of
        [] \<Rightarrow>
         (let curr = snd (rtapi_clock_set_period 0 (rtapi s));
              (rt, curr_period) = (if curr = 0 then rtapi_clock_set_period (int period_nsec) (rtapi s)
                                   else (rtapi s, curr));
              s1 = s\<lparr>rtapi := rt\<rparr>
          in if curr = 0 \<and> curr_period < 0 then (s1, - EINVAL, 0, 0)
             else if ulong curr_period > ulong (int period_nsec + int (period_nsec div 100))
             then (s1, - EINVAL, 0, 0)
             else (s1\<lparr>base_period := (if exact_base_period s1 \<noteq> 0 then int period_nsec else curr_period)\<rparr>,
                   0, rtapi_prio_highest, 0))
      | t # _ \<Rightarrow> (s, 0, thr_priority (thread_of s t), thr_period (thread_of s t)))"

definition thread_pins :: "nat \<Rightarrow> string \<Rightarrow> hal \<Rightarrow> hal" where
  "thread_pins new name s =
     (case hal_off_safe (halg_pin_newf HAL_S32 HAL_OUT None (lib_module_id s) (Some (name @ ''.time'')) s) of
        (s1, p1) \<Rightarrow>
      (case hal_off_safe (halg_pin_newf HAL_S32 HAL_IO None (lib_module_id s) (Some (name @ ''.tmax''))
              (upd_thread new (\<lambda>t. t\<lparr>thr_runtime := p1\<rparr>) s1)) of
        (s2, p2) \<Rightarrow>
      (case hal_off_safe (halg_pin_newf HAL_S32 HAL_OUT None (lib_module_id s)
              (Some (name @ ''.curr-period'')) (upd_thread new (\<lambda>t. t\<lparr>thr_maxtime := p2\<rparr>) s2)) of
        (s3, p3) \<Rightarrow>
          set_s32_pin p3 (thr_period (thread_of s3 new))
            (upd_thread new (\<lambda>t. t\<lparr>thr_curr_period := p3\<rparr>) s3))))"

definition hal_create_xthread :: "hal_threadargs option \<Rightarrow> hal \<Rightarrow> hal \<times> int" where
  "hal_create_xthread targs s =
     (case targs of None \<Rightarrow> halfail_rc EINVAL s
      | Some args \<Rightarrow>
      if bad_str (ta_name args) HAL_NAME_LEN then (s, - EINVAL)
      else if \<not> hal_attached s then halfail_rc EINVAL s
      else if locked HAL_LOCK_CONFIG s then halfail_rc EPERM s
      else if ta_period_nsec args = 0 then halfail_rc EINVAL s
      else if halg_find_object_by_name HAL_THREAD (ta_name args) s \<noteq> None then halfail_rc EINVAL s
      else case halg_create_objectfv (desc_size HAL_THREAD) (Thread zero_thread) HAL_THREAD 0
                  (the (ta_name args)) s of
        (s1, None) \<Rightarrow> (s1, halerrno s1)
      | (s1, Some new) \<Rightarrow>
     (let s2 = upd_thread new (\<lambda>t. t\<lparr>thr_funct_list := [], thr_uses_fp := ta_uses_fp args,
                 thr_cpu_id := ta_cpu_id args, thr_flags := ta_flags args,
                 thr_cgname := take RTAPI_LINELEN (ta_cgname args)\<rparr>) s1
      in case thread_base (ta_period_nsec args) s2 of (s3, rc, prev_priority, prev_period) \<Rightarrow>
        if rc < 0 then halfail_rc EINVAL s3
        else if int (ta_period_nsec args) < ulong (base_period s3) then halfail_rc EINVAL s3
        else if base_period s3 = 0 then (s3\<lparr>fault := True\<rparr>, - EINVAL)
        else
         (let n = to_s32 (ulong (int (ta_period_nsec args) + base_period s3 div 2)
                            div ulong (base_period s3));
              s4 = upd_thread new (\<lambda>t. t\<lparr>thr_period := base_period s3 * n\<rparr>) s3
          in if base_period s3 * n < prev_period then halfail_rc EINVAL s4
             else
              (let prio = rtapi_prio_next_lower prev_priority;
                   s5 = upd_thread new (\<lambda>t. t\<lparr>thr_priority := prio\<rparr>) s4;
                   t5 = thread_of s5 new;
                   (rt, retval) = rtapi_task_new \<lparr>ra_code = thread_task_code, ra_arg = new,
                      ra_prio = prio, ra_owner = lib_module_id s5,
                      ra_stacksize = hal_thread_stack_size s5, ra_uses_fp = thr_uses_fp t5,
                      ra_cpu_id = thr_cpu_id t5, ra_name = ho_name s5 new, ra_flags = thr_flags t5,
                      ra_cgname = thr_cgname t5\<rparr> (rtapi s5);
                   s6 = s5\<lparr>rtapi := rt\<rparr>
               in if retval < 0 then halfail_rc EINVAL s6
                  else
                   (let s7 = thread_pins new (the (ta_name args))
                               (upd_thread new (\<lambda>t. t\<lparr>thr_task_id := retval\<rparr>) s6);
                        (rt2, rc2) = rtapi_task_start (thr_task_id (thread_of s7 new))
                                       (thr_period (thread_of s7 new)) (rtapi s7);
                        s8 = s7\<lparr>rtapi := rt2\<rparr>
                    in if rc2 < 0 then halfail_rc EINVAL s8
                       else (halg_add_object new (s8\<lparr>hal_threads := hal_threads s8 @ [new]\<rparr>), 0))))))"

definition hal_create_thread :: "string option \<Rightarrow> nat \<Rightarrow> int \<Rightarrow> hal \<Rightarrow> hal \<times> int" where
  "hal_create_thread name period_nsec uses_fp s =
     hal_create_xthread (Some \<lparr>ta_name = name, ta_period_nsec = period_nsec, ta_uses_fp = uses_fp,
       ta_cpu_id = -1, ta_flags = 0, ta_cgname = []\<rparr>) s"

section \<open>Deletion, start and stop\<close>

text \<open>Clearing the function list: each entry is unlinked, then freed.\<close>

fun free_entries :: "nat \<Rightarrow> nat list \<Rightarrow> hal \<Rightarrow> hal" where
  "free_entries th [] s = s"
| "free_entries th (e # es) s =
     free_entries th es
       (free_funct_entry_struct e
         (upd_thread th (\<lambda>t. t\<lparr>thr_funct_list := remove1 e (thr_funct_list t)\<rparr>) s))"

definition free_thread_struct :: "nat \<Rightarrow> hal \<Rightarrow> hal" where
  "free_thread_struct th s =
     (let s1 = s\<lparr>threads_running := 0\<rparr>;
          s2 = s1\<lparr>rtapi := fst (rtapi_task_delete (thr_task_id (thread_of s1 th))
                             (fst (rtapi_task_pause (thr_task_id (thread_of s1 th)) (rtapi s1))))\<rparr>;
          s3 = free_entries th (thr_funct_list (thread_of s2 th)) s2;
          s4 = s3\<lparr>hal_threads := remove1 th (hal_threads s3)\<rparr>
      in fst (halg_free_object th s4))"

definition delete_thread_cb :: "nat \<Rightarrow> hal \<Rightarrow> unit \<Rightarrow> hal \<times> unit \<times> int" where
  "delete_thread_cb th s u =
     (let s1 = free_pin_struct (thr_runtime (thread_of s th)) s;
          s2 = free_pin_struct (thr_maxtime (thread_of s1 th)) s1;
          s3 = free_pin_struct (thr_curr_period (thread_of s2 th)) s2
      in (free_thread_struct th s3, u, 0))"

definition halg_exit_thread :: "string option \<Rightarrow> hal \<Rightarrow> hal \<times> int" where
  "halg_exit_thread name s =
     (if \<not> hal_attached s then halfail_rc EINVAL s
      else if locked HAL_LOCK_RUN s then halfail_rc EPERM s
      else case halg_foreach (no_args\<lparr>fa_type := HAL_THREAD, fa_name := name\<rparr>) delete_thread_cb
                  (s\<lparr>threads_running := 0\<rparr>) () of
        (s1, _, ret) \<Rightarrow> if name \<noteq> None \<and> ret = 0 then halfail_rc EINVAL s1 else (s1, 0))"

definition hal_thread_delete :: "string option \<Rightarrow> hal \<Rightarrow> hal \<times> int" where
  "hal_thread_delete name s = (if name = None then (s, - EINVAL) else halg_exit_thread name s)"

definition hal_exit_threads :: "hal \<Rightarrow> hal \<times> int" where
  "hal_exit_threads s = halg_exit_thread None s"

definition hal_start_threads :: "hal \<Rightarrow> hal \<times> int" where
  "hal_start_threads s =
     (if \<not> hal_attached s then halfail_rc EINVAL s
      else if locked HAL_LOCK_RUN s then halfail_rc EPERM s
      else (s\<lparr>threads_running := 1\<rparr>, 0))"

definition hal_stop_threads :: "hal \<Rightarrow> hal \<times> int" where
  "hal_stop_threads s =
     (if \<not> hal_attached s then halfail_rc EINVAL s
      else if locked HAL_LOCK_RUN s then halfail_rc EPERM s
      else (s\<lparr>threads_running := 0\<rparr>, 0))"

end
