(* ===== verification/Hal_Comp.thy ===== *)
theory Hal_Comp
  imports Hal_Thread
begin

text \<open>
  Components and instances (\<open>hal/src/hal_comp.c\<close>, \<open>hal_instance.c\<close>), the
  initialisation of the HAL segment, the selector \<open>yield_free\<close> of
  \<open>hal_object_selectors.c\<close>, and the module entry points of \<open>hal_lib.c\<close>. The
  constructors and destructors behind a component's function pointers are the
  parameters \<open>ctor\<close> and \<open>dtor\<close>. \<open>rtapi_init\<close> hands out the next handle and
  \<open>rtapi_exit\<close> does nothing; the global segment is attached already.
\<close>

type_synonym ctor_code = "nat \<Rightarrow> string list \<Rightarrow> hal \<Rightarrow> hal \<times> int"
type_synonym dtor_code = "nat \<Rightarrow> string \<Rightarrow> nat \<Rightarrow> int \<Rightarrow> hal \<Rightarrow> hal"

definition HAL_KEY :: int where "HAL_KEY = 4279346"
definition HAL_DEFAULT_RINGSIZE :: nat where "HAL_DEFAULT_RINGSIZE = 1024"
definition HAL_HEAP_INITIAL :: nat where "HAL_HEAP_INITIAL = 2"

text \<open>Offsets in \<open>hal_data_t\<close> of the heap and of the memory behind it.\<close>

definition hal_heap_offset :: nat where "hal_heap_offset = 192"
definition hal_arena_offset :: int where "hal_arena_offset = 320"

definition zero_comp :: hal_comp where
  "zero_comp = \<lparr>comp_type = 0, comp_state = 0, comp_shmem_base = 0, comp_last_update = 0,
     comp_last_bound = 0, comp_last_unbound = 0, comp_pid = 0, comp_ctor = 0, comp_dtor = 0,
     comp_insmod_args = 0, comp_userarg1 = 0, comp_userarg2 = 0\<rparr>"

definition zero_inst :: hal_inst where
  "zero_inst = \<lparr>inst_data_ptr = 0, inst_size = 0, inst_frozen_argv = None\<rparr>"

definition the_comp :: "hal \<Rightarrow> nat \<Rightarrow> hal_comp" where
  "the_comp s a = (case comp_of s a of None \<Rightarrow> zero_comp | Some c \<Rightarrow> c)"

definition upd_comp :: "nat \<Rightarrow> (hal_comp \<Rightarrow> hal_comp) \<Rightarrow> hal \<Rightarrow> hal" where
  "upd_comp a f s = upd_obj a (\<lambda>ob. case body ob of Comp p \<Rightarrow> ob\<lparr>body := Comp (f p)\<rparr> | _ \<Rightarrow> ob) s"

definition inst_of :: "hal \<Rightarrow> nat \<Rightarrow> hal_inst" where
  "inst_of s a = (case objs s a of None \<Rightarrow> zero_inst
     | Some ob \<Rightarrow> (case body ob of Inst p \<Rightarrow> p | _ \<Rightarrow> zero_inst))"

definition upd_inst :: "nat \<Rightarrow> (hal_inst \<Rightarrow> hal_inst) \<Rightarrow> hal \<Rightarrow> hal" where
  "upd_inst a f s = upd_obj a (\<lambda>ob. case body ob of Inst p \<Rightarrow> ob\<lparr>body := Inst (f p)\<rparr> | _ \<Rightarrow> ob) s"

section \<open>Freeing objects\<close>

text \<open>
  \<open>yield_free\<close> dispatches on the type of the selection and is mutually
  recursive with the functions that free the parts of an instance, a component
  or a group. The recursion is at most two levels deep: \<open>yield_free_leaf\<close> has
  the types without parts, \<open>yield_free_part\<close> adds instances, and \<open>yield_free\<close>
  has all.
\<close>

definition yield_free_leaf :: "nat \<Rightarrow> nat \<Rightarrow> hal \<Rightarrow> unit \<Rightarrow> hal \<times> unit \<times> int" where
  "yield_free_leaf t a s u =
     (if t = HAL_PIN then (free_pin_struct a s, u, 0)
      else if t = HAL_SIGNAL then (fst (free_sig_struct a s), u, 0)
      else if t \<in> {HAL_PARAM, HAL_VTABLE, HAL_MEMBER} then (fst (halg_free_object a s), u, 0)
      else if t = HAL_THREAD \<and> rtapi_build s then (free_thread_struct a s, u, 0)
      else if t = HAL_FUNCT \<and> rtapi_build s then (free_funct_struct a s, u, 0)
      else if t = HAL_RING then (fst (free_ring_struct a s), u, 0)
      else if t = HAL_PLUG then (fst (halg_plug_delete a s), u, 0)
      else (s, u, -1))"

text \<open>Frees the objects of one leaf type that belong to \<open>owner\<close>.\<close>

definition free_owned :: "nat \<Rightarrow> int \<Rightarrow> hal \<Rightarrow> hal" where
  "free_owned t owner s =
     fst (halg_foreach (no_args\<lparr>fa_type := t, fa_owner_id := owner\<rparr>) (yield_free_leaf t) s ())"

definition call_dtor :: "dtor_code \<Rightarrow> nat \<Rightarrow> hal \<Rightarrow> hal" where
  "call_dtor dtor inst s =
     (case halpr_find_owning_comp (ho_id s inst) s of
        None \<Rightarrow> s\<lparr>fault := True\<rparr>
      | Some cmp \<Rightarrow>
          if comp_dtor (the_comp s cmp) \<noteq> 0
          then dtor (comp_dtor (the_comp s cmp)) (ho_name s inst) (inst_data_ptr (inst_of s inst))
                 (inst_size (inst_of s inst)) s
          else s)"

definition free_inst_struct :: "dtor_code \<Rightarrow> nat \<Rightarrow> hal \<Rightarrow> hal" where
  "free_inst_struct dtor inst s =
     (let owner = ho_id s inst;
          s1 = (if rtapi_build s then call_dtor dtor inst (free_owned HAL_FUNCT owner s) else s);
          s2 = free_owned HAL_PLUG owner (free_owned HAL_PARAM owner (free_owned HAL_PIN owner s1));
          s3 = (case inst_frozen_argv (inst_of s2 inst) of
                  None \<Rightarrow> s2 | Some v \<Rightarrow> fst (halg_free_argv (Some v) s2))
      in fst (halg_free_object inst s3))"

definition yield_free_part :: "dtor_code \<Rightarrow> nat \<Rightarrow> nat \<Rightarrow> hal \<Rightarrow> unit \<Rightarrow> hal \<times> unit \<times> int" where
  "yield_free_part dtor t a s u =
     (if t = HAL_INST then (free_inst_struct dtor a s, u, 0) else yield_free_leaf t a s u)"

definition free_comp_struct :: "dtor_code \<Rightarrow> nat \<Rightarrow> hal \<Rightarrow> hal \<times> int" where
  "free_comp_struct dtor cmp s =
     (if ho_referenced s cmp then halfail_rc EBUSY s
      else
       (let owner = ho_id s cmp;
            s1 = (if rtapi_build s
                  then fst (halg_foreach (no_args\<lparr>fa_type := HAL_INST, fa_owner_id := owner\<rparr>)
                              (yield_free_part dtor HAL_INST) (free_owned HAL_FUNCT owner s) ())
                  else s);
            s2 = free_owned HAL_PLUG owner (free_owned HAL_PARAM owner (free_owned HAL_PIN owner s1))
        in (fst (halg_free_object cmp s2), 0)))"

definition free_group_struct :: "nat \<Rightarrow> hal \<Rightarrow> hal" where
  "free_group_struct grp s = fst (halg_free_object grp (free_owned HAL_MEMBER (ho_id s grp) s))"

definition yield_free :: "dtor_code \<Rightarrow> nat \<Rightarrow> nat \<Rightarrow> hal \<Rightarrow> unit \<Rightarrow> hal \<times> unit \<times> int" where
  "yield_free dtor t a s u =
     (if t = HAL_COMPONENT then (fst (free_comp_struct dtor a s), u, 0)
      else if t = HAL_GROUP then (free_group_struct a s, u, 0)
      else yield_free_part dtor t a s u)"

section \<open>Instances\<close>

definition halg_inst_create :: "string option \<Rightarrow> int \<Rightarrow> int \<Rightarrow> hal \<Rightarrow> hal \<times> int" where
  "halg_inst_create name comp_id sz s =
     (if \<not> hal_attached s then halfail_rc EINVAL s
      else if name = None then (s, - EINVAL)
      else case halg_find_object_by_id HAL_COMPONENT comp_id s of
        None \<Rightarrow> halfail_rc ENOENT s
      | Some cmp \<Rightarrow>
        if halg_find_object_by_name HAL_INST name s \<noteq> None then halfail_rc EEXIST s
        else case halg_create_objectfv (desc_size HAL_INST) (Inst zero_inst) HAL_INST (ho_id s cmp)
                    (the name) s of
          (s1, None) \<Rightarrow> (s1, halerrno s1)
        | (s1, Some inst) \<Rightarrow>
           (case (if sz > 0 then shmalloc_rt (nat sz) s1 else (s1, Some 0)) of
              (s2, None) \<Rightarrow> halfail_rc ENOMEM s2
            | (s2, Some m) \<Rightarrow>
               (let s3 = halg_add_object inst
                           (upd_inst inst (\<lambda>i. i\<lparr>inst_data_ptr := m, inst_size := sz,
                                                  inst_frozen_argv := None\<rparr>) s2)
                in (s3, ho_id s3 inst))))"

definition halg_inst_delete :: "dtor_code \<Rightarrow> string option \<Rightarrow> hal \<Rightarrow> hal \<times> int" where
  "halg_inst_delete dtor name s =
     (if \<not> hal_attached s then halfail_rc EINVAL s
      else if name = None then (s, - EINVAL)
      else case halg_find_object_by_name HAL_INST name s of
        None \<Rightarrow> halfail_rc ENOENT s
      | Some inst \<Rightarrow> (free_inst_struct dtor inst s, 0))"

definition halg_find_inst_by_id :: "int \<Rightarrow> hal \<Rightarrow> nat option" where
  "halg_find_inst_by_id i s =
     (case halg_foreach (no_args\<lparr>fa_type := HAL_INST, fa_id := i\<rparr>) yield_match s None of
        (_, u, n) \<Rightarrow> if n \<noteq> 0 then u else None)"

text \<open>The userland functions \<open>newinst\<close> and \<open>delinst\<close>.\<close>

definition create_instance :: "ctor_code \<Rightarrow> string list \<Rightarrow> hal \<Rightarrow> hal \<times> int" where
  "create_instance ctor argv s =
     (case argv of
        cname # iname # _ \<Rightarrow>
         (case halg_find_object_by_name HAL_COMPONENT (Some cname) s of
            None \<Rightarrow> halfail_rc EINVAL s
          | Some cmp \<Rightarrow>
             if comp_ctor (the_comp s cmp) = 0 then halfail_rc EINVAL s
             else if halg_find_object_by_name HAL_INST (Some iname) s \<noteq> None then halfail_rc EBUSY s
             else ctor (comp_ctor (the_comp s cmp)) argv s)
      | _ \<Rightarrow> halfail_rc EINVAL s)"

definition delete_instance :: "dtor_code \<Rightarrow> string list \<Rightarrow> hal \<Rightarrow> hal \<times> int" where
  "delete_instance dtor argv s =
     (case argv of [] \<Rightarrow> halfail_rc EINVAL s | iname # _ \<Rightarrow> halg_inst_delete dtor (Some iname) s)"

section \<open>Components\<close>

definition halg_ready :: "int \<Rightarrow> hal \<Rightarrow> hal \<times> int" where
  "halg_ready comp_id s =
     (case halg_find_object_by_id HAL_COMPONENT comp_id s of
        None \<Rightarrow> halfail_rc EINVAL s
      | Some cmp \<Rightarrow>
         if comp_state (the_comp s cmp) > COMP_INITIALIZING then halfail_rc EINVAL s
         else (upd_comp cmp (\<lambda>c. c\<lparr>comp_state :=
                 (if comp_type c = TYPE_REMOTE then COMP_UNBOUND else COMP_READY)\<rparr>) s, 0))"

definition hal_comp_name :: "int \<Rightarrow> hal \<Rightarrow> string option" where
  "hal_comp_name comp_id s =
     map_option (ho_name s) (halg_find_object_by_id HAL_COMPONENT comp_id s)"

text \<open>The bytes of a fresh heap are zero after the \<open>memset\<close> of the segment.\<close>

definition init_hal_data :: "hal \<Rightarrow> hal \<times> int" where
  "init_hal_data s =
     (if hal_version s \<noteq> 0 then (s, if hal_version s = HAL_VER then 0 else -1)
      else
       (let h0 = (hal_heap s)\<lparr>arena := (\<lambda>_. 0), heap_at := hal_heap_offset\<rparr>;
            h1 = fst (rtapi_heap_setflags (rtapi_heap_init h0 (Some ''hal heap'') []) (hal_heap_flags s));
            s1 = s\<lparr>hal_version := HAL_VER, halobjects := [], funct_entry_free := [], hal_threads := [],
                   base_period := 0, exact_base_period := 0, threads_running := 0,
                   default_ringsize := HAL_DEFAULT_RINGSIZE, str_alloc := 0, str_freed := 0,
                   rt_alignment_loss := 0, hal_malloced := 0,
                   rings_map := (replicate HAL_MAX_RINGS False)[0 := True],
                   shmem_bot := hal_arena_offset, shmem_top := to_s32 (int (hal_size s)),
                   hal_lock := HAL_LOCK_NONE, hal_heap := h1, objs := (\<lambda>_. None),
                   fentries := (\<lambda>_. None), cells := (\<lambda>_. 0)\<rparr>
        in (fst (hal_heap_addmem (hal_size s div HAL_HEAP_INITIAL) s1), 0)))"

text \<open>The part of \<open>halg_xinitfv\<close> that maps the HAL segment.\<close>

definition xinit_map_segment :: "int \<Rightarrow> hal \<Rightarrow> hal \<times> bool" where
  "xinit_map_segment comp_id s =
     (case rtapi_shmem_new (OS_KEY HAL_KEY) (hal_size s) (rtapi s) of
        (rt, shm_id) \<Rightarrow>
          if shm_id < 0 then (halfail shm_id (s\<lparr>rtapi := rt\<rparr>), False)
          else
           (case rtapi_shmem_getptr shm_id rt of
              (rc, mem) \<Rightarrow>
                if rc < 0 then (halfail rc (s\<lparr>rtapi := rt\<rparr>), False)
                else
                 (let s1 = s\<lparr>rtapi := rt, hal_shmem_base := the mem, hal_attached := True\<rparr>;
                      (s2, retval) = (if rtapi_build s1 then init_hal_data s1 else (s1, 0))
                  in if retval \<noteq> 0 then (halfail retval (s2\<lparr>lib_module_id := -1\<rparr>), False)
                     else (s2\<lparr>lib_module_id := comp_id, lib_mem_id := shm_id\<rparr>, True))))"

text \<open>The part of \<open>halg_xinitfv\<close> that finishes the library component.\<close>

definition newinst_code :: nat where "newinst_code = 2"
definition delinst_code :: nat where "delinst_code = 3"

definition export_inst_functs :: "hal \<Rightarrow> hal \<times> int" where
  "export_inst_functs s =
     (case halg_export_xfunctf \<lparr>xf_type = FS_USERLAND, xf_funct = newinst_code, xf_arg = 0,
             xf_uses_fp = 0, xf_reentrant = 0, xf_owner_id = lib_module_id s\<rparr> ''newinst'' s of
        (s1, retval) \<Rightarrow>
          if retval < 0 then (s1, retval)
          else halg_export_xfunctf \<lparr>xf_type = FS_USERLAND, xf_funct = delinst_code, xf_arg = 0,
                 xf_uses_fp = 0, xf_reentrant = 0, xf_owner_id = lib_module_id s1\<rparr> ''delinst'' s1)"

definition xinit_finish_hallib :: "nat \<Rightarrow> hal \<Rightarrow> hal \<times> nat option" where
  "xinit_finish_hallib cmp s =
     (case (if rtapi_build s then export_inst_functs s else (s, 0)) of
        (s1, rc) \<Rightarrow>
          if rc < 0 then (s1, None)
          else (case halg_ready (lib_module_id s1) s1 of
                  (s2, retval) \<Rightarrow> if retval \<noteq> 0 then halfail_null retval s2 else (s2, Some cmp)))"

text \<open>\<open>halg_xinitfv\<close> from the point behind the recursion for \<open>hal_lib\<close>.\<close>

definition xinit_comp :: "int \<Rightarrow> int \<Rightarrow> int \<Rightarrow> nat \<Rightarrow> nat \<Rightarrow> string \<Rightarrow> hal \<Rightarrow> hal \<times> nat option" where
  "xinit_comp t userarg1 userarg2 ctor dtor name s =
     (case rtapi_next_handle s of (s1, comp_id) \<Rightarrow>
      if comp_id < 0 then halfail_null comp_id s1
      else case (if lib_module_id s1 < 0 \<and> t = TYPE_HALLIB then xinit_map_segment comp_id s1
                 else (s1, True)) of
        (s2, False) \<Rightarrow> (s2, None)
      | (s2, True) \<Rightarrow>
        if lib_module_id s2 < 0 then halfail_null (lib_module_id s2) s2
        else if halg_find_object_by_name HAL_COMPONENT (Some name) s2 \<noteq> None
        then halfail_null EBUSY s2
        else case halg_create_objectfv (desc_size HAL_COMPONENT) (Comp zero_comp) HAL_COMPONENT 0 name s2 of
          (s3, None) \<Rightarrow> (s3, None)
        | (s3, Some cmp) \<Rightarrow>
           (let s4 = upd_hdr cmp (hh_set_id comp_id) s3;
                s5 = upd_comp cmp (\<lambda>c. c\<lparr>comp_userarg1 := userarg1, comp_userarg2 := userarg2,
                       comp_type := t, comp_ctor := ctor, comp_dtor := dtor,
                       comp_pid := (if rtapi_build s4 \<or> t = TYPE_REMOTE then 0 else hal_pid s4),
                       comp_state := COMP_INITIALIZING, comp_last_update := 0, comp_last_bound := 0,
                       comp_last_unbound := 0, comp_shmem_base := hal_shmem_base s4,
                       comp_insmod_args := 0\<rparr>) s4;
                s6 = halg_add_object cmp s5
            in if t = TYPE_HALLIB then xinit_finish_hallib cmp s6 else (s6, Some cmp)))"

definition hal_lib_name :: "hal \<Rightarrow> string" where
  "hal_lib_name s = (if rtapi_build s then ''hal_lib'' else ''hal_lib'' @ nat_str (nat (hal_pid s)))"

definition halg_xinitfv ::
  "int \<Rightarrow> int \<Rightarrow> int \<Rightarrow> nat \<Rightarrow> nat \<Rightarrow> string option \<Rightarrow> hal \<Rightarrow> hal \<times> nat option" where
  "halg_xinitfv t userarg1 userarg2 ctor dtor fmt s =
     (case fmt of None \<Rightarrow> halfail_null EINVAL s
      | Some str \<Rightarrow>
     (case fmt_ap (HAL_MAX_NAME_LEN + 1) str s of
        (s1, None) \<Rightarrow> halfail_null EINVAL s1
      | (s1, Some name) \<Rightarrow>
        if dtor \<noteq> 0 \<and> ctor = 0 then halfail_null EINVAL s1
        else if lib_module_id s1 < 0 \<and> t \<noteq> TYPE_HALLIB
        then (case xinit_comp TYPE_HALLIB 0 0 0 0 (hal_lib_name s1) s1 of
                (s2, None) \<Rightarrow> (s2, None)
              | (s2, Some hallib) \<Rightarrow> xinit_comp t userarg1 userarg2 ctor dtor name s2)
        else xinit_comp t userarg1 userarg2 ctor dtor name s1))"

definition halg_xinitf ::
  "int \<Rightarrow> int \<Rightarrow> int \<Rightarrow> nat \<Rightarrow> nat \<Rightarrow> string option \<Rightarrow> hal \<Rightarrow> hal \<times> nat option" where
  "halg_xinitf t userarg1 userarg2 ctor dtor fmt s = halg_xinitfv t userarg1 userarg2 ctor dtor fmt s"

definition hal_xinit :: "int \<Rightarrow> int \<Rightarrow> int \<Rightarrow> nat \<Rightarrow> nat \<Rightarrow> string option \<Rightarrow> hal \<Rightarrow> hal \<times> int" where
  "hal_xinit t userarg1 userarg2 ctor dtor name s =
     (case halg_xinitf t userarg1 userarg2 ctor dtor name s of
        (s1, None) \<Rightarrow> (s1, halerrno s1) | (s1, Some c) \<Rightarrow> (s1, ho_id s1 c))"

definition halg_exit :: "dtor_code \<Rightarrow> int \<Rightarrow> hal \<Rightarrow> hal \<times> int" where
  "halg_exit dtor comp_id s =
     (if \<not> hal_attached s then halfail_rc EINVAL s
      else case halg_find_object_by_id HAL_COMPONENT comp_id s of
        None \<Rightarrow> halfail_rc EINVAL s
      | Some cmp \<Rightarrow>
         (let comptype = comp_type (the_comp s cmp);
              s1 = fst (free_comp_struct dtor cmp s)
          in if comptype = TYPE_HALLIB
             then
              (let s2 = (if rtapi_build s1 then fst (hal_sweep s1) else s1);
                   rt = fst (rtapi_shmem_delete (lib_mem_id s2) (rtapi s2))
               in (s2\<lparr>rtapi := rt, lib_mem_id := -1, hal_shmem_base := 0, hal_attached := False,
                      lib_module_id := -1\<rparr>, 0))
             else (s1, 0)))"

text \<open>The processes that receive a termination signal are collected.\<close>

definition unload_usr_cb :: "dtor_code \<Rightarrow> nat \<Rightarrow> hal \<Rightarrow> int list \<Rightarrow> hal \<times> int list \<times> int" where
  "unload_usr_cb dtor cmp s killed =
     (let c = the_comp s cmp in
      if comp_type c = TYPE_REMOTE \<and> comp_pid c = 0
      then (fst (halg_exit dtor (ho_id s cmp) s), killed, 0)
      else if comp_type c = TYPE_REMOTE \<or> comp_type c = TYPE_USER
      then (s, killed @ [\<bar>comp_pid c\<bar>], 0)
      else (s, killed, 0))"

definition hal_exit_usercomps :: "dtor_code \<Rightarrow> string option \<Rightarrow> hal \<Rightarrow> hal \<times> int list \<times> int" where
  "hal_exit_usercomps dtor name s =
     (case halg_foreach (no_args\<lparr>fa_type := HAL_COMPONENT, fa_name := name\<rparr>) (unload_usr_cb dtor) s [] of
        (s1, killed, _) \<Rightarrow> (s1, killed, 0))"

section \<open>The module\<close>

definition rtapi_app_main :: "hal \<Rightarrow> hal \<times> int" where
  "rtapi_app_main s = hal_xinit TYPE_HALLIB 0 0 0 0 (Some ''hal_lib'') s"

definition rtapi_app_exit :: "dtor_code \<Rightarrow> hal \<Rightarrow> hal" where
  "rtapi_app_exit dtor s =
     (let s1 = fst (halg_exit_thread None s) in fst (halg_exit dtor (lib_module_id s1) s1))"

definition ulapi_hal_lib_cleanup :: "dtor_code \<Rightarrow> hal \<Rightarrow> hal" where
  "ulapi_hal_lib_cleanup dtor s =
     (if lib_module_id s > -1 then fst (halg_exit dtor (lib_module_id s) s) else s)"

end
