(* ===== verification/Hal_Rcomp.thy ===== *)
theory Hal_Rcomp
  imports Hal_Comp
begin

text \<open>
  Remote components, groups and vtables (\<open>hal/src/hal_rcomp.c\<close>,
  \<open>hal_group.c\<close>, \<open>hal_vtable.c\<close>). Compiled components and groups are objects of
  the process that keep the last reported value of each tracked pin or signal.
  \<open>now\<close> is the result of \<open>time\<close>. Whether two floating-point values differ by
  more than the epsilon of an index is the parameter \<open>fdiff\<close>; a report
  callback is the parameter \<open>cb\<close> with a state of its own.
\<close>

section \<open>The state machine of remote components\<close>

definition remote_comp ::
  "string option \<Rightarrow> hal \<Rightarrow> (nat \<Rightarrow> hal \<times> int) \<Rightarrow> hal \<times> int" where
  "remote_comp comp_name s action =
     (if \<not> hal_attached s then halfail_rc EINVAL s
      else if bad_str comp_name HAL_NAME_LEN then (s, - EINVAL)
      else case halg_find_object_by_name HAL_COMPONENT comp_name s of
        None \<Rightarrow> halfail_rc EINVAL s
      | Some cmp \<Rightarrow>
         if comp_type (the_comp s cmp) \<noteq> TYPE_REMOTE then halfail_rc EINVAL s else action cmp)"

definition halg_bind :: "int \<Rightarrow> string option \<Rightarrow> hal \<Rightarrow> hal \<times> int" where
  "halg_bind now comp_name s =
     remote_comp comp_name s (\<lambda>cmp.
       if comp_state (the_comp s cmp) \<noteq> COMP_UNBOUND then halfail_rc EINVAL s
       else (upd_comp cmp (\<lambda>c. c\<lparr>comp_state := COMP_BOUND, comp_last_bound := now\<rparr>) s, 0))"

definition halg_unbind :: "int \<Rightarrow> string option \<Rightarrow> hal \<Rightarrow> hal \<times> int" where
  "halg_unbind now comp_name s =
     remote_comp comp_name s (\<lambda>cmp.
       if comp_state (the_comp s cmp) \<noteq> COMP_BOUND then halfail_rc EINVAL s
       else (upd_comp cmp (\<lambda>c. c\<lparr>comp_state := COMP_UNBOUND, comp_last_unbound := now\<rparr>) s, 0))"

definition halg_acquire :: "string option \<Rightarrow> int \<Rightarrow> hal \<Rightarrow> hal \<times> int" where
  "halg_acquire comp_name pid s =
     remote_comp comp_name s (\<lambda>cmp.
       let c = the_comp s cmp in
       if comp_state c = COMP_BOUND then halfail_rc EINVAL s
       else if comp_pid c \<noteq> 0 \<and> comp_pid c \<noteq> rtapi_app_pid s then halfail_rc EINVAL s
       else (ho_incref cmp (upd_comp cmp (\<lambda>c. c\<lparr>comp_pid := pid\<rparr>) s), ho_id s cmp))"

definition halg_release :: "string option \<Rightarrow> hal \<Rightarrow> hal \<times> int" where
  "halg_release comp_name s =
     remote_comp comp_name s (\<lambda>cmp.
       let c = the_comp s cmp in
       if comp_pid c = 0 then halfail_rc EINVAL s
       else if comp_pid c \<noteq> hal_pid s then halfail_rc EINVAL s
       else (ho_decref cmp (upd_comp cmp (\<lambda>c. c\<lparr>comp_pid := 0\<rparr>) s), 0))"

section \<open>Change detection\<close>

text \<open>One case of the switch over the types: whether the value has changed, and
  the tracking value afterwards; \<open>None\<close> for a type the switch does not handle.\<close>

definition track ::
  "(nat \<Rightarrow> u64 \<Rightarrow> u64 \<Rightarrow> bool) \<Rightarrow> nat \<Rightarrow> nat \<Rightarrow> u64 \<Rightarrow> u64 \<Rightarrow> (bool \<times> u64) option" where
  "track fdiff t eps v tr =
     (if t = HAL_BIT then
        Some (if get_bit_value tr \<noteq> v then (True, set_bit_value tr v) else (False, tr))
      else if t = HAL_FLOAT then
        Some (if fdiff eps v (get_float_value tr) then (True, set_float_value tr v) else (False, tr))
      else if t = HAL_S32 then
        Some (if get_s32_value tr \<noteq> v then (True, set_s32_value tr v) else (False, tr))
      else if t = HAL_U32 then
        Some (if get_u32_value tr \<noteq> v then (True, set_u32_value tr v) else (False, tr))
      else None)"

section \<open>Compiled components\<close>

definition PIN_DO_NOT_TRACK :: u32 where "PIN_DO_NOT_TRACK = 1"

record hal_compiled_comp =
  cc_comp :: nat
  cc_pin :: "nat list"
  cc_tracking :: "u64 list"
  cc_changed :: "bool list"

definition pin_tracked :: "hal \<Rightarrow> nat \<Rightarrow> bool" where
  "pin_tracked s pin \<longleftrightarrow> (word_of_int (pin_flags (pin_of s pin)) :: u32) AND PIN_DO_NOT_TRACK = 0"

definition count_pins_and_tracked_pins ::
  "nat \<Rightarrow> hal \<Rightarrow> int \<times> int \<Rightarrow> hal \<times> (int \<times> int) \<times> int" where
  "count_pins_and_tracked_pins pin s u =
     (s, (fst u + 1, if pin_tracked s pin then snd u + 1 else snd u), 0)"

definition fill_pin_array :: "nat \<Rightarrow> hal \<Rightarrow> nat list \<Rightarrow> hal \<times> nat list \<times> int" where
  "fill_pin_array pin s u = (s, if pin_tracked s pin then u @ [pin] else u, 0)"

definition halg_compile_comp ::
  "string option \<Rightarrow> hal \<Rightarrow> hal \<times> int \<times> hal_compiled_comp option" where
  "halg_compile_comp name s =
     (if \<not> hal_attached s then (halfail EINVAL s, - EINVAL, None)
      else if bad_str name HAL_NAME_LEN then (s, - EINVAL, None)
      else case halg_find_object_by_name HAL_COMPONENT name s of
        None \<Rightarrow> (halfail EINVAL s, - EINVAL, None)
      | Some cmp \<Rightarrow>
         (let args = no_args\<lparr>fa_type := HAL_PIN, fa_owner_id := ho_id s cmp\<rparr>;
              (s1, counts, _) = halg_foreach args count_pins_and_tracked_pins s (0, 0);
              n = nat (snd counts)
          in if n = 0 then (halfail EINVAL s1, - EINVAL, None)
             else
              (let (s2, pins, _) = halg_foreach args fill_pin_array s1 []
               in (s2, 0, Some \<lparr>cc_comp = cmp, cc_pin = pins, cc_tracking = replicate n 0,
                                cc_changed = replicate n False\<rparr>))))"

text \<open>The scan of \<open>hal_ccomp_match\<close>: tracking values and change bits afterwards
  and the number of changes. It stops, without a count, at a pin of a type the
  switch does not handle.\<close>

fun ccomp_scan ::
  "(nat \<Rightarrow> u64 \<Rightarrow> u64 \<Rightarrow> bool) \<Rightarrow> hal \<Rightarrow> nat list \<Rightarrow> u64 list \<Rightarrow>
   u64 list \<times> bool list \<times> int option" where
  "ccomp_scan fdiff s (p # ps) (tr # trs) =
     (case track fdiff (pin_type (pin_of s p)) (pin_eps_index (pin_of s p))
             (get_pin (pin_type (pin_of s p)) p s) tr of
        None \<Rightarrow> (tr # trs, replicate (Suc (length ps)) False, None)
      | Some (ch, tr') \<Rightarrow>
         (let (trs', chs, n) = ccomp_scan fdiff s ps trs
          in (tr' # trs', ch # chs, map_option (\<lambda>k. k + of_bool ch) n)))"
| "ccomp_scan fdiff s _ trs = (trs, [], Some 0)"

definition hal_ccomp_match ::
  "(nat \<Rightarrow> u64 \<Rightarrow> u64 \<Rightarrow> bool) \<Rightarrow> hal \<Rightarrow> hal_compiled_comp \<Rightarrow> hal_compiled_comp \<times> int" where
  "hal_ccomp_match fdiff s cc =
     (case ccomp_scan fdiff s (cc_pin cc) (cc_tracking cc) of
        (trs, chs, n) \<Rightarrow>
          (cc\<lparr>cc_tracking := trs, cc_changed := chs\<rparr>, case n of None \<Rightarrow> - EINVAL | Some k \<Rightarrow> k))"

datatype report_phase = REPORT_BEGIN | REPORT_SIGNAL | REPORT_PIN | REPORT_END

fun report_loop ::
  "('u \<Rightarrow> nat \<Rightarrow> 'u \<times> int) \<Rightarrow> bool \<Rightarrow> nat list \<Rightarrow> bool list \<Rightarrow> 'u \<Rightarrow> 'u \<times> int" where
  "report_loop cb report_all (p # ps) (c # cs) u =
     (if report_all \<or> c then
        (case cb u p of (u1, retval) \<Rightarrow>
           if retval < 0 then (u1, retval) else report_loop cb report_all ps cs u1)
      else report_loop cb report_all ps cs u)"
| "report_loop cb report_all _ _ u = (u, 0)"

definition hal_ccomp_report ::
  "(report_phase \<Rightarrow> nat \<Rightarrow> 'u \<Rightarrow> 'u \<times> int) option \<Rightarrow> bool \<Rightarrow> hal_compiled_comp \<Rightarrow> 'u \<Rightarrow> 'u \<times> int" where
  "hal_ccomp_report report_cb report_all cc u =
     (case report_cb of None \<Rightarrow> (u, 0)
      | Some cb \<Rightarrow>
        (case cb REPORT_BEGIN 0 u of (u1, retval) \<Rightarrow>
         if retval < 0 then (u1, retval)
         else (case report_loop (\<lambda>u p. cb REPORT_PIN p u) report_all (cc_pin cc) (cc_changed cc) u1 of
                 (u2, rc) \<Rightarrow> if rc < 0 then (u2, rc) else cb REPORT_END 0 u2)))"

definition hal_ccomp_args :: "hal_compiled_comp option \<Rightarrow> hal \<Rightarrow> (int \<times> int) option" where
  "hal_ccomp_args cc s =
     map_option (\<lambda>c. (comp_userarg1 (the_comp s (cc_comp c)), comp_userarg2 (the_comp s (cc_comp c)))) cc"

section \<open>Vtables\<close>

definition zero_vtable :: hal_vtable where
  "zero_vtable = \<lparr>vt_context = 0, vt_version = 0, vt_table = 0\<rparr>"

definition vtable_of :: "hal \<Rightarrow> nat \<Rightarrow> hal_vtable" where
  "vtable_of s a = (case objs s a of None \<Rightarrow> zero_vtable
     | Some ob \<Rightarrow> (case body ob of Vtable v \<Rightarrow> v | _ \<Rightarrow> zero_vtable))"

definition upd_vtable :: "nat \<Rightarrow> (hal_vtable \<Rightarrow> hal_vtable) \<Rightarrow> hal \<Rightarrow> hal" where
  "upd_vtable a f s = upd_obj a (\<lambda>ob. case body ob of Vtable p \<Rightarrow> ob\<lparr>body := Vtable (f p)\<rparr> | _ \<Rightarrow> ob) s"

definition yield_versioned_vtable_object ::
  "int \<Rightarrow> nat \<Rightarrow> hal \<Rightarrow> nat option \<Rightarrow> hal \<times> nat option \<times> int" where
  "yield_versioned_vtable_object version a s u =
     (if vt_version (vtable_of s a) = version then (s, Some a, 1) else (s, u, 0))"

definition halg_find_vtable_by_name :: "string option \<Rightarrow> int \<Rightarrow> hal \<Rightarrow> nat option" where
  "halg_find_vtable_by_name name version s =
     (case halg_foreach (no_args\<lparr>fa_type := HAL_VTABLE, fa_name := name\<rparr>)
             (yield_versioned_vtable_object version) s None of
        (_, u, n) \<Rightarrow> if n \<noteq> 0 then u else None)"

text \<open>The context of a vtable: 0 in the realtime process, else the process.\<close>

definition vtable_context :: "hal \<Rightarrow> int" where
  "vtable_context s = (if rtapi_build s then 0 else hal_pid s)"

definition halg_export_vtable :: "string option \<Rightarrow> int \<Rightarrow> nat \<Rightarrow> int \<Rightarrow> hal \<Rightarrow> hal \<times> int" where
  "halg_export_vtable name version vtref comp_id s =
     (if \<not> hal_attached s then halfail_rc EINVAL s
      else if bad_str name HAL_NAME_LEN then (s, - EINVAL)
      else if vtref = 0 then halfail_rc EINVAL s
      else if locked HAL_LOCK_LOAD s then halfail_rc EPERM s
      else if halg_find_vtable_by_name name version s \<noteq> None then halfail_rc EEXIST s
      else case halg_create_objectfv (desc_size HAL_VTABLE) (Vtable zero_vtable) HAL_VTABLE comp_id
                  (the name) s of
        (s1, None) \<Rightarrow> (s1, halerrno s1)
      | (s1, Some vt) \<Rightarrow>
         (let s2 = upd_vtable vt (\<lambda>v. v\<lparr>vt_table := vtref, vt_version := version,
                                          vt_context := vtable_context s1\<rparr>) s1;
              s3 = halg_add_object vt s2
          in (s3, ho_id s3 vt)))"

definition halg_remove_vtable :: "int \<Rightarrow> hal \<Rightarrow> hal \<times> int" where
  "halg_remove_vtable vtable_id s =
     (if \<not> hal_attached s then halfail_rc EINVAL s
      else if locked HAL_LOCK_LOAD s then halfail_rc EPERM s
      else case halg_find_object_by_id HAL_VTABLE vtable_id s of
        None \<Rightarrow> halfail_rc ENOENT s
      | Some vt \<Rightarrow> if ho_referenced s vt then halfail_rc ENOENT s else halg_free_object vt s)"

definition halg_reference_vtable ::
  "string option \<Rightarrow> int \<Rightarrow> bool \<Rightarrow> hal \<Rightarrow> hal \<times> int \<times> nat option" where
  "halg_reference_vtable name version have_ref s =
     (if \<not> hal_attached s then (halfail EINVAL s, - EINVAL, None)
      else if bad_str name HAL_NAME_LEN then (s, - EINVAL, None)
      else if \<not> have_ref then (halfail EINVAL s, - EINVAL, None)
      else if locked HAL_LOCK_LOAD s then (halfail EPERM s, - EPERM, None)
      else case halg_find_vtable_by_name name version s of
        None \<Rightarrow> (halfail ENOENT s, - ENOENT, None)
      | Some vt \<Rightarrow>
         if vt_context (vtable_of s vt) \<noteq> vtable_context s then (halfail ENOENT s, - ENOENT, None)
         else (ho_incref vt s, ho_id s vt, Some (vt_table (vtable_of s vt))))"

definition halg_unreference_vtable :: "int \<Rightarrow> hal \<Rightarrow> hal \<times> int" where
  "halg_unreference_vtable vtable_id s =
     (if \<not> hal_attached s then halfail_rc EINVAL s
      else case halg_find_object_by_id HAL_VTABLE vtable_id s of
        None \<Rightarrow> halfail_rc ENOENT s
      | Some vt \<Rightarrow>
         if vt_context (vtable_of s vt) \<noteq> vtable_context s then halfail_rc ENOENT s
         else (ho_decref vt s, 0))"

definition count_exported_vtables_cb :: "int \<Rightarrow> nat \<Rightarrow> hal \<Rightarrow> int \<Rightarrow> hal \<times> int \<times> int" where
  "count_exported_vtables_cb comp_id a s n = (s, if ho_owner_id s a = comp_id then n + 1 else n, 0)"

definition halg_count_exported_vtables :: "int \<Rightarrow> hal \<Rightarrow> int" where
  "halg_count_exported_vtables comp_id s =
     (case halg_foreach (no_args\<lparr>fa_type := HAL_VTABLE\<rparr>) (count_exported_vtables_cb comp_id) s 0 of
        (_, n, _) \<Rightarrow> n)"

end
