(* ===== verification/Hal_Group.thy ===== *)
theory Hal_Group
  imports Hal_Rcomp
begin

text \<open>
  Signal groups (\<open>hal/src/hal_group.c\<close>): groups and their members, compiled
  groups with change detection and reporting; and the small lookup and lock
  functions of \<open>hal_misc.c\<close> and \<open>hal_lib.c\<close>. The allocation of a compiled
  group on the process heap succeeds.
\<close>

section \<open>Groups and members\<close>

definition zero_group :: hal_group where "zero_group = \<lparr>group_userarg1 = 0, group_userarg2 = 0\<rparr>"

definition zero_member :: hal_member where
  "zero_member = \<lparr>member_sig_ptr = 0, member_userarg1 = 0, member_eps_index = 0\<rparr>"

definition group_of :: "hal \<Rightarrow> nat \<Rightarrow> hal_group" where
  "group_of s a = (case objs s a of None \<Rightarrow> zero_group
     | Some ob \<Rightarrow> (case body ob of Group g \<Rightarrow> g | _ \<Rightarrow> zero_group))"

definition member_of :: "hal \<Rightarrow> nat \<Rightarrow> hal_member" where
  "member_of s a = (case objs s a of None \<Rightarrow> zero_member
     | Some ob \<Rightarrow> (case body ob of Member m \<Rightarrow> m | _ \<Rightarrow> zero_member))"

definition upd_group :: "nat \<Rightarrow> (hal_group \<Rightarrow> hal_group) \<Rightarrow> hal \<Rightarrow> hal" where
  "upd_group a f s = upd_obj a (\<lambda>ob. case body ob of Group p \<Rightarrow> ob\<lparr>body := Group (f p)\<rparr> | _ \<Rightarrow> ob) s"

definition upd_member :: "nat \<Rightarrow> (hal_member \<Rightarrow> hal_member) \<Rightarrow> hal \<Rightarrow> hal" where
  "upd_member a f s = upd_obj a (\<lambda>ob. case body ob of Member p \<Rightarrow> ob\<lparr>body := Member (f p)\<rparr> | _ \<Rightarrow> ob) s"

definition halg_group_new :: "string option \<Rightarrow> int \<Rightarrow> int \<Rightarrow> hal \<Rightarrow> hal \<times> int" where
  "halg_group_new name arg1 arg2 s =
     (if \<not> hal_attached s then halfail_rc EINVAL s
      else if bad_str name HAL_NAME_LEN then (s, - EINVAL)
      else if locked HAL_LOCK_LOAD s then halfail_rc EPERM s
      else if halg_find_object_by_name HAL_GROUP name s \<noteq> None then halfail_rc EINVAL s
      else case halg_create_objectfv (desc_size HAL_GROUP) (Group zero_group) HAL_GROUP 0 (the name) s of
        (s1, None) \<Rightarrow> (s1, halerrno s1)
      | (s1, Some g) \<Rightarrow>
         (halg_add_object g
            (upd_group g (\<lambda>x. x\<lparr>group_userarg1 := arg1, group_userarg2 := arg2\<rparr>) s1), 0))"

definition halg_group_delete :: "string option \<Rightarrow> hal \<Rightarrow> hal \<times> int" where
  "halg_group_delete name s =
     (if \<not> hal_attached s then halfail_rc EINVAL s
      else if name = None then (s, - EINVAL)
      else if locked HAL_LOCK_CONFIG s then halfail_rc EPERM s
      else case halg_find_object_by_name HAL_GROUP name s of
        None \<Rightarrow> halfail_rc ENOENT s
      | Some g \<Rightarrow> if ho_referenced s g then halfail_rc EBUSY s else (free_group_struct g s, 0))"

definition hal_ref_group :: "string option \<Rightarrow> hal \<Rightarrow> hal \<times> int" where
  "hal_ref_group name s =
     (case halg_find_object_by_name HAL_GROUP name s of
        None \<Rightarrow> halfail_rc ENOENT s | Some g \<Rightarrow> (ho_incref g s, 0))"

definition hal_unref_group :: "string option \<Rightarrow> hal \<Rightarrow> hal \<times> int" where
  "hal_unref_group name s =
     (case halg_find_object_by_name HAL_GROUP name s of
        None \<Rightarrow> halfail_rc ENOENT s | Some g \<Rightarrow> (ho_decref g s, 0))"

definition halg_member_new ::
  "string option \<Rightarrow> string option \<Rightarrow> int \<Rightarrow> nat \<Rightarrow> hal \<Rightarrow> hal \<times> int" where
  "halg_member_new gname member arg1 eps_index s =
     (if \<not> hal_attached s then halfail_rc EINVAL s
      else if locked HAL_LOCK_LOAD s then halfail_rc EPERM s
      else if bad_str gname HAL_NAME_LEN then (s, - EINVAL)
      else if bad_str member HAL_NAME_LEN then (s, - EINVAL)
      else case halg_find_object_by_name HAL_GROUP gname s of
        None \<Rightarrow> halfail_rc ENOENT s
      | Some grp \<Rightarrow>
        if ho_referenced s grp then halfail_rc EBUSY s
        else case halg_find_object_by_name HAL_SIGNAL member s of
          None \<Rightarrow> halfail_rc ENOENT s
        | Some sig \<Rightarrow>
          if halg_find_object_by_name HAL_MEMBER member s \<noteq> None then halfail_rc EBUSY s
          else case halg_create_objectfv (desc_size HAL_MEMBER) (Member zero_member) HAL_MEMBER
                      (ho_id s grp) (the member) s of
            (s1, None) \<Rightarrow> (s1, halerrno s1)
          | (s1, Some new) \<Rightarrow>
             (halg_add_object new
                (upd_member new (\<lambda>m. m\<lparr>member_sig_ptr := sig, member_userarg1 := arg1,
                                       member_eps_index := eps_index mod 256\<rparr>) (ho_incref sig s1)), 0))"

definition halg_member_delete :: "string option \<Rightarrow> string option \<Rightarrow> hal \<Rightarrow> hal \<times> int" where
  "halg_member_delete gname member s =
     (if \<not> hal_attached s then halfail_rc EINVAL s
      else if locked HAL_LOCK_LOAD s then halfail_rc EPERM s
      else if bad_str gname HAL_NAME_LEN then (s, - EINVAL)
      else if bad_str member HAL_NAME_LEN then (s, - EINVAL)
      else case halg_find_object_by_name HAL_GROUP gname s of
        None \<Rightarrow> halfail_rc EINVAL s
      | Some grp \<Rightarrow>
        if ho_referenced s grp then halfail_rc EBUSY s
        else case halg_find_object_by_name HAL_MEMBER member s of
          None \<Rightarrow> halfail_rc ENOENT s
        | Some mptr \<Rightarrow>
          (case halg_find_object_by_name HAL_SIGNAL member s of
             None \<Rightarrow> halfail_rc ENOENT s
           | Some sig \<Rightarrow> (fst (halg_free_object mptr (ho_decref sig s)), 0)))"

section \<open>Compiled groups\<close>

definition GROUP_REPORT_ON_CHANGE :: u32 where "GROUP_REPORT_ON_CHANGE = 1"
definition GROUP_MONITOR_ALL_MEMBERS :: u32 where "GROUP_MONITOR_ALL_MEMBERS = 2"
definition GROUP_REPORT_CHANGED_MEMBERS :: u32 where "GROUP_REPORT_CHANGED_MEMBERS = 4"
definition MEMBER_MONITOR_CHANGE :: u32 where "MEMBER_MONITOR_CHANGE = 1"

record hal_compiled_group =
  cg_group :: nat
  cg_member :: "nat list"
  cg_n_monitored :: nat
  cg_tracking :: "u64 list"
  cg_changed :: "bool list"

definition monitored :: "hal \<Rightarrow> nat \<Rightarrow> nat \<Rightarrow> bool" where
  "monitored s grp m \<longleftrightarrow>
     (word_of_int (member_userarg1 (member_of s m)) :: u32) AND MEMBER_MONITOR_CHANGE \<noteq> 0 \<or>
     (word_of_int (group_userarg2 (group_of s grp)) :: u32) AND GROUP_MONITOR_ALL_MEMBERS \<noteq> 0"

definition change_reporting :: "hal \<Rightarrow> nat \<Rightarrow> bool" where
  "change_reporting s grp \<longleftrightarrow>
     (word_of_int (group_userarg2 (group_of s grp)) :: u32) AND
       (GROUP_REPORT_ON_CHANGE OR GROUP_REPORT_CHANGED_MEMBERS) \<noteq> 0"

definition cgroup_size_cb :: "nat \<Rightarrow> nat \<Rightarrow> hal \<Rightarrow> nat \<times> nat \<Rightarrow> hal \<times> (nat \<times> nat) \<times> int" where
  "cgroup_size_cb grp m s u =
     (s, (fst u + 1, if monitored s grp m then snd u + 1 else snd u), 0)"

definition cgroup_init_members_cb ::
  "nat \<Rightarrow> nat \<Rightarrow> hal \<Rightarrow> nat list \<times> nat \<Rightarrow> hal \<times> (nat list \<times> nat) \<times> int" where
  "cgroup_init_members_cb grp m s u =
     (s, (fst u @ [m], if monitored s grp m then snd u + 1 else snd u), 0)"

definition halpr_group_compile ::
  "string option \<Rightarrow> hal \<Rightarrow> hal \<times> int \<times> hal_compiled_group option" where
  "halpr_group_compile name s =
     (if name = None then (s, - EINVAL, None)
      else case halg_find_object_by_name HAL_GROUP name s of
        None \<Rightarrow> (halfail EINVAL s, - EINVAL, None)
      | Some grp \<Rightarrow>
         (let args = no_args\<lparr>fa_type := HAL_MEMBER, fa_owner_id := ho_id s grp\<rparr>;
              (s1, counts, _) = halg_foreach args (cgroup_size_cb grp) s (0, 0);
              (s2, filled, _) = halg_foreach args (cgroup_init_members_cb grp) s1 ([], 0);
              n_members = fst counts; n_monitored = snd counts
          in if change_reporting s2 grp \<and> n_monitored = 0 then (halfail EINVAL s2, - EINVAL, None)
             else
              (let tracking = change_reporting s2 grp \<or> n_monitored > 0
               in (ho_incref grp s2, 0,
                   Some \<lparr>cg_group = grp, cg_member = fst filled,
                         cg_n_monitored = (if tracking then n_monitored else 0),
                         cg_tracking = (if tracking then replicate n_monitored 0 else []),
                         cg_changed = (if tracking then replicate n_members False else [])\<rparr>))))"

text \<open>The scan of \<open>hal_cgroup_match\<close>; the tracking values are consumed by the
  monitored members only. It stops, without a count, at a signal of a type the
  switch does not handle.\<close>

fun cgroup_scan ::
  "(nat \<Rightarrow> u64 \<Rightarrow> u64 \<Rightarrow> bool) \<Rightarrow> hal \<Rightarrow> nat \<Rightarrow> nat list \<Rightarrow> u64 list \<Rightarrow>
   u64 list \<times> bool list \<times> int option" where
  "cgroup_scan fdiff s grp [] trs = (trs, [], Some 0)"
| "cgroup_scan fdiff s grp (m # ms) trs =
     (if \<not> monitored s grp m then
       (let (trs', chs, n) = cgroup_scan fdiff s grp ms trs in (trs', False # chs, n))
      else case trs of [] \<Rightarrow> (trs, replicate (Suc (length ms)) False, None)
      | tr # trs0 \<Rightarrow>
         (let sig = member_sig_ptr (member_of s m); t = sig_type (sig_of s sig)
          in case track fdiff t (member_eps_index (member_of s m)) (get_sig t sig s) tr of
               None \<Rightarrow> (trs, replicate (Suc (length ms)) False, None)
             | Some (ch, tr') \<Rightarrow>
                (let (trs', chs, n) = cgroup_scan fdiff s grp ms trs0
                 in (tr' # trs', ch # chs, map_option (\<lambda>k. k + of_bool ch) n))))"

definition hal_cgroup_match ::
  "(nat \<Rightarrow> u64 \<Rightarrow> u64 \<Rightarrow> bool) \<Rightarrow> hal \<Rightarrow> hal_compiled_group \<Rightarrow> hal_compiled_group \<times> int" where
  "hal_cgroup_match fdiff s cg =
     (if change_reporting s (cg_group cg) \<or> cg_n_monitored cg > 0
      then case cgroup_scan fdiff s (cg_group cg) (cg_member cg) (cg_tracking cg) of
             (trs, chs, n) \<Rightarrow>
               (cg\<lparr>cg_tracking := trs, cg_changed := chs\<rparr>,
                case n of None \<Rightarrow> - EINVAL | Some k \<Rightarrow> k)
      else (cg, 1))"

definition hal_cgroup_report ::
  "(report_phase \<Rightarrow> nat \<Rightarrow> 'u \<Rightarrow> 'u \<times> int) option \<Rightarrow> bool \<Rightarrow> hal \<Rightarrow> hal_compiled_group \<Rightarrow> 'u \<Rightarrow> 'u \<times> int" where
  "hal_cgroup_report report_cb force_all s cg u =
     (case report_cb of None \<Rightarrow> (u, 0)
      | Some cb \<Rightarrow>
        (case cb REPORT_BEGIN 0 u of (u1, retval) \<Rightarrow>
         if retval < 0 then (u1, retval)
         else
          (let reportall = (force_all \<or> cg_n_monitored cg = 0 \<or>
                 (word_of_int (group_userarg2 (group_of s (cg_group cg))) :: u32) AND
                   GROUP_REPORT_CHANGED_MEMBERS = 0);
               changed = (if cg_changed cg = [] then replicate (length (cg_member cg)) False
                          else cg_changed cg)
           in case report_loop (\<lambda>u m. cb REPORT_SIGNAL (member_sig_ptr (member_of s m)) u)
                     reportall (cg_member cg) changed u1 of
                (u2, rc) \<Rightarrow> if rc < 0 then (u2, rc) else cb REPORT_END 0 u2)))"

section \<open>Locks and lookups of the library\<close>

definition hal_set_lock :: "u8 \<Rightarrow> hal \<Rightarrow> hal \<times> int" where
  "hal_set_lock lock_type s =
     (if \<not> hal_attached s then halfail_rc EINVAL s else (s\<lparr>hal_lock := lock_type\<rparr>, 0))"

definition hal_get_lock :: "hal \<Rightarrow> hal \<times> u8" where
  "hal_get_lock s = (if \<not> hal_attached s then (halfail EINVAL s, word_of_int (- EINVAL)) else (s, hal_lock s))"

text \<open>The getters return the type, the value and the connection flag.\<close>

definition hal_get_pin_value_by_name :: "string option \<Rightarrow> hal \<Rightarrow> (nat \<times> u64 \<times> bool) option" where
  "hal_get_pin_value_by_name name s =
     (case halg_find_object_by_name HAL_PIN name s of
        None \<Rightarrow> None
      | Some pin \<Rightarrow> Some (pin_type (pin_of s pin), pin_value s pin, pin_is_linked s pin))"

definition hal_get_signal_value_by_name :: "string option \<Rightarrow> hal \<Rightarrow> (nat \<times> u64 \<times> bool) option" where
  "hal_get_signal_value_by_name name s =
     (case halg_find_object_by_name HAL_SIGNAL name s of
        None \<Rightarrow> None
      | Some sig \<Rightarrow> Some (sig_type (sig_of s sig), sig_value (sig_of s sig), sig_writers (sig_of s sig) \<noteq> 0))"

definition param_of :: "hal \<Rightarrow> nat \<Rightarrow> hal_param" where
  "param_of s a = (case objs s a of None \<Rightarrow> zero_param
     | Some ob \<Rightarrow> (case body ob of Param p \<Rightarrow> p | _ \<Rightarrow> zero_param))"

definition hal_get_param_value_by_name :: "string option \<Rightarrow> hal \<Rightarrow> (nat \<times> nat) option" where
  "hal_get_param_value_by_name name s =
     (case halg_find_object_by_name HAL_PARAM name s of
        None \<Rightarrow> None
      | Some p \<Rightarrow> Some (param_type (param_of s p), param_data_ptr (param_of s p)))"

definition halpr_pin_count :: "string option \<Rightarrow> hal \<Rightarrow> hal \<times> int" where
  "halpr_pin_count name s =
     (if name = None then halfail_rc EINVAL s
      else if \<not> hal_attached s then halfail_rc EINVAL s
      else case halg_find_object_by_name HAL_COMPONENT name s of
        None \<Rightarrow> halfail_rc ENOENT s
      | Some cmp \<Rightarrow>
         (let args = (if comp_type (the_comp s cmp) = TYPE_REMOTE
                      then no_args\<lparr>fa_type := HAL_PIN, fa_owner_id := ho_id s cmp\<rparr>
                      else no_args\<lparr>fa_type := HAL_PIN, fa_owning_comp := ho_id s cmp\<rparr>)
          in case halg_foreach args yield_count s () of (s1, _, n) \<Rightarrow> (s1, n)))"

definition halpr_param_count :: "string option \<Rightarrow> hal \<Rightarrow> hal \<times> int" where
  "halpr_param_count name s =
     (if name = None then halfail_rc EINVAL s
      else if \<not> hal_attached s then halfail_rc EINVAL s
      else case halg_find_object_by_name HAL_COMPONENT name s of
        None \<Rightarrow> halfail_rc ENOENT s
      | Some cmp \<Rightarrow>
         (case halg_foreach (no_args\<lparr>fa_type := HAL_PARAM, fa_owning_comp := ho_id s cmp\<rparr>)
                 yield_count s () of (s1, _, n) \<Rightarrow> (s1, n)))"

definition hal_find_pin_by_name :: "string option \<Rightarrow> hal \<Rightarrow> hal \<times> nat option" where
  "hal_find_pin_by_name name s =
     (if name = None \<or> \<not> hal_attached s then halfail_null EINVAL s
      else (s, halg_find_object_by_name HAL_PIN name s))"

definition hal_comp_state_by_name :: "string option \<Rightarrow> hal \<Rightarrow> hal \<times> int" where
  "hal_comp_state_by_name name s =
     (case halg_find_object_by_name HAL_COMPONENT name s of
        None \<Rightarrow> halfail_rc ENOENT s
      | Some cmp \<Rightarrow> (s, comp_state (the_comp s cmp)))"

end
