(* ===== verification/Rtapi_Heap_Correct.thy ===== *)
theory Rtapi_Heap_Correct
  imports Rtapi_Heap
begin

text \<open>
  Correctness of the shared-memory allocator: the well-formedness invariant
  of the arena, the walks along the free list, and what allocation and
  release do to the set of blocks.
\<close>

section \<open>Header fields of distinct headers\<close>

lemma hnext_set_hnext [heap_simps]: "hnext (set_hnext m p v) p = v mod 2 ^ 32"
  by (simp add: hnext_def set_hnext_def get_put_same)

lemma hsize_set_hsize [heap_simps]: "hsize (set_hsize m p v) p = v mod 2 ^ 24"
  by (simp add: hsize_def set_hsize_def get_put_same)

lemma hattr_set_hattr [heap_simps]: "hattr (set_hattr m p v) p = v mod 2 ^ 8"
  using get_put_same [of m "p + 7" 1 v] by (simp add: hattr_def set_hattr_def)

lemma hdr_fields_same [heap_simps]:
  "hsize (set_hnext m p v) p = hsize m p" "hattr (set_hnext m p v) p = hattr m p"
  "hnext (set_hsize m p v) p = hnext m p" "hattr (set_hsize m p v) p = hattr m p"
  "hnext (set_hattr m p v) p = hnext m p" "hsize (set_hattr m p v) p = hsize m p"
  unfolding hnext_def hsize_def hattr_def set_hnext_def set_hsize_def set_hattr_def
  by (rule get_put_disjoint; simp)+

definition apart :: "nat \<Rightarrow> nat \<Rightarrow> bool" where
  "apart p q \<longleftrightarrow> p + 8 \<le> q \<or> q + 8 \<le> p"

lemma hdr_fields_apart [heap_simps]:
  assumes "apart p q"
  shows "hnext (set_hnext m p v) q = hnext m q" "hsize (set_hnext m p v) q = hsize m q"
    "hattr (set_hnext m p v) q = hattr m q" "hnext (set_hsize m p v) q = hnext m q"
    "hsize (set_hsize m p v) q = hsize m q" "hattr (set_hsize m p v) q = hattr m q"
    "hnext (set_hattr m p v) q = hnext m q" "hsize (set_hattr m p v) q = hsize m q"
    "hattr (set_hattr m p v) q = hattr m q"
  using assms unfolding apart_def hnext_def hsize_def hattr_def set_hnext_def set_hsize_def set_hattr_def
  by (intro get_put_disjoint; linarith)+

lemma aligned_apart: "8 dvd p \<Longrightarrow> 8 dvd q \<Longrightarrow> p \<noteq> q \<Longrightarrow> apart p q"
  unfolding apart_def by presburger

text \<open>For headers on 8-byte boundaries the fields behave like separate variables.\<close>

lemma hdr_fields_aligned:
  assumes "8 dvd p" "8 dvd q"
  shows "hnext (set_hnext m p v) q = (if q = p then v mod 2 ^ 32 else hnext m q)"
    "hsize (set_hnext m p v) q = hsize m q" "hattr (set_hnext m p v) q = hattr m q"
    "hnext (set_hsize m p v) q = hnext m q"
    "hsize (set_hsize m p v) q = (if q = p then v mod 2 ^ 24 else hsize m q)"
    "hattr (set_hsize m p v) q = hattr m q" "hnext (set_hattr m p v) q = hnext m q"
    "hsize (set_hattr m p v) q = hsize m q"
    "hattr (set_hattr m p v) q = (if q = p then v mod 2 ^ 8 else hattr m q)"
  using assms aligned_apart [OF assms] by (cases "p = q"; simp add: heap_simps)+

lemma set_hdr_outside:
  assumes "b < p \<or> p + 8 \<le> b"
  shows "set_hnext m p v b = m b" "set_hsize m p v b = m b" "set_hattr m p v b = m b"
  using assms unfolding set_hnext_def set_hsize_def set_hattr_def
  by (auto intro!: put_le_outside)

lemma hdr_cong:
  assumes "\<And>a. p \<le> a \<Longrightarrow> a < p + 8 \<Longrightarrow> m a = m' a"
  shows "hnext m p = hnext m' p" "hsize m p = hsize m' p" "hattr m p = hattr m' p"
  unfolding hnext_def hsize_def hattr_def by (rule get_le_cong; use assms in simp)+

lemma hsize_bound: "hsize m p < 2 ^ 24"
  using get_le_bound [of m "p + 4" 3] by (simp add: hsize_def)

lemma hnext_bound: "hnext m p < 2 ^ 32"
  using get_le_bound [of m p 4] by (simp add: hnext_def)

section \<open>The invariant\<close>

definition blk_end :: "bytes \<Rightarrow> nat \<Rightarrow> nat" where
  "blk_end m b = b + 8 * hsize m b"

definition arena_limit :: nat where "arena_limit = 2 ^ 27"

definition wf_block :: "bytes \<Rightarrow> nat \<Rightarrow> bool" where
  "wf_block m b \<longleftrightarrow>
     heap_sizeof \<le> b \<and> 8 dvd b \<and> 0 < hsize m b \<and> blk_end m b \<le> arena_limit"

definition blocks_disjoint :: "bytes \<Rightarrow> nat set \<Rightarrow> bool" where
  "blocks_disjoint m B \<longleftrightarrow>
     (\<forall>x\<in>B. \<forall>y\<in>B. x \<noteq> y \<longrightarrow> blk_end m x \<le> y \<or> blk_end m y \<le> x)"

text \<open>All blocks of \<open>B\<close> end at or below the offset \<open>l\<close>.\<close>

definition below :: "bytes \<Rightarrow> nat set \<Rightarrow> nat \<Rightarrow> bool" where
  "below m B l \<longleftrightarrow> (\<forall>b\<in>B. blk_end m b \<le> l)"

text \<open>
  \<open>wf_heap h fs A\<close>: the free list of \<open>h\<close> is the base header followed by the
  blocks \<open>fs\<close>, in ascending address order and never adjacent to one another;
  \<open>A\<close> is the set of headers of the allocated blocks.
\<close>

definition wf_arena :: "bytes \<Rightarrow> nat \<Rightarrow> nat list \<Rightarrow> nat set \<Rightarrow> bool" where
  "wf_arena m fp fs A \<longleftrightarrow>
     lpath (hnext m) 0 fs 0 \<and>
     hsize m 0 = 0 \<and>
     sorted_wrt (\<lambda>x y. blk_end m x < y) fs \<and>
     (\<forall>b\<in>set fs \<union> A. wf_block m b) \<and>
     blocks_disjoint m (set fs \<union> A) \<and>
     set fs \<inter> A = {} \<and>
     (\<forall>b\<in>A. hattr m b = 0) \<and>
     fp \<in> set (0 # fs)"

definition wf_heap :: "rtapi_heap \<Rightarrow> nat list \<Rightarrow> nat set \<Rightarrow> bool" where
  "wf_heap h fs A \<longleftrightarrow> wf_arena (arena h) (free_p h) fs A"

text \<open>The number of units in free and allocated blocks together.\<close>

definition heap_units :: "bytes \<Rightarrow> nat list \<Rightarrow> nat set \<Rightarrow> nat" where
  "heap_units m fs A = sum_list (map (hsize m) fs) + sum (hsize m) A"

section \<open>Walks along the free list\<close>

lemma heap_search_walk:
  assumes "lpath (hnext m) prevp xs freep" "freep \<notin> set xs"
  shows "\<exists>r. heap_search m nu freep prevp (hnext m prevp) = Some r \<and>
     (case r of None \<Rightarrow> \<forall>y\<in>insert freep (set xs). hsize m y < nu
      | Some (q, p) \<Rightarrow> q \<in> set (prevp # xs) \<and> hnext m q = p \<and> nu \<le> hsize m p)"
  using assms
proof (induction xs arbitrary: prevp)
  case Nil
  then show ?case by (subst heap_search.simps) auto
next
  case (Cons x xs)
  then have nx: "hnext m prevp = x" "x \<noteq> freep" by auto
  show ?case
  proof (cases "nu \<le> hsize m x")
    case True
    then show ?thesis using nx by (subst heap_search.simps) auto
  next
    case False
    have step: "heap_search m nu freep prevp x = heap_search m nu freep x (hnext m x)"
      using False nx by (subst heap_search.simps) simp
    obtain r where "heap_search m nu freep x (hnext m x) = Some r"
      "case r of None \<Rightarrow> \<forall>y\<in>insert freep (set xs). hsize m y < nu
        | Some (q, p) \<Rightarrow> q \<in> set (x # xs) \<and> hnext m q = p \<and> nu \<le> hsize m p"
      using Cons.IH [of x] Cons.prems by auto
    then show ?thesis using nx step False by (cases r) auto
  qed
qed

lemma free_search_walk:
  assumes "lpath (hnext m) p xs z" "t \<in> set (p # xs)"
    "\<And>q. q \<in> set (p # xs) \<Longrightarrow> free_stop m bp q \<longleftrightarrow> q = t"
  shows "free_search m bp p = Some t"
  using assms
proof (induction xs arbitrary: p)
  case Nil
  then show ?case by (subst free_search.simps) auto
next
  case (Cons x xs)
  then show ?case by (subst free_search.simps) auto
qed

lemma heap_visit_walk:
  assumes "lpath (hnext m) prevp xs freep" "freep \<notin> set xs"
  shows "heap_visit m freep f (hnext m prevp) s = Some (foldl f s (xs @ [freep]))"
  using assms
proof (induction xs arbitrary: prevp s)
  case Nil
  then show ?case by (subst heap_visit.simps) auto
next
  case (Cons x xs)
  then show ?case by (subst heap_visit.simps) auto
qed

lemma blk_end_gt: "wf_block m b \<Longrightarrow> b + 8 \<le> blk_end m b"
  by (auto simp: wf_block_def blk_end_def)

lemma wf_heap_sorted: "wf_heap h fs A \<Longrightarrow> sorted_wrt (<) (0 # fs)"
  unfolding wf_heap_def wf_arena_def
  by (fastforce intro!: sorted_wrt_mono_rel [of fs "\<lambda>x y. blk_end (arena h) x < y" "(<)"]
      simp: blk_end_def wf_block_def heap_sizeof_def)

lemma wf_heap_circle:
  assumes "wf_heap h fs A"
  obtains ys where "lpath (hnext (arena h)) (free_p h) ys (free_p h)"
    "set (free_p h # ys) = set (0 # fs)" "distinct (free_p h # ys)" "length ys = length fs"
proof -
  have d: "distinct (0 # fs)" using wf_heap_sorted [OF assms] by (rule sorted_wrt_less_nth_inj)
  have "lpath (hnext (arena h)) 0 fs 0" "free_p h \<in> set (0 # fs)"
    using assms by (auto simp: wf_heap_def wf_arena_def)
  then obtain ys where "lpath (hnext (arena h)) (free_p h) ys (free_p h)"
    "set (free_p h # ys) = set (0 # fs)" "length ys = length fs" "distinct (free_p h # ys)"
    using lpath_rotate [of "hnext (arena h)" 0 fs "free_p h"] d by metis
  then show ?thesis using that by blast
qed

lemma heap_search_wf:
  assumes "wf_heap h fs A"
  obtains (none) "heap_search (arena h) nu (free_p h) (free_p h) (hnext (arena h) (free_p h)) = Some None"
      "\<And>b. b \<in> set (0 # fs) \<Longrightarrow> hsize (arena h) b < nu"
  | (found) q p where
      "heap_search (arena h) nu (free_p h) (free_p h) (hnext (arena h) (free_p h)) = Some (Some (q, p))"
      "q \<in> set (0 # fs)" "p \<in> set (0 # fs)" "hnext (arena h) q = p" "nu \<le> hsize (arena h) p"
proof -
  obtain ys where ys: "lpath (hnext (arena h)) (free_p h) ys (free_p h)"
    "set (free_p h # ys) = set (0 # fs)" "distinct (free_p h # ys)"
    using wf_heap_circle [OF assms] by metis
  obtain r where r: "heap_search (arena h) nu (free_p h) (free_p h) (hnext (arena h) (free_p h)) = Some r"
    "case r of None \<Rightarrow> \<forall>y\<in>insert (free_p h) (set ys). hsize (arena h) y < nu
      | Some (q, p) \<Rightarrow> q \<in> set (free_p h # ys) \<and> hnext (arena h) q = p \<and> nu \<le> hsize (arena h) p"
    using heap_search_walk [OF ys(1)] ys(3) by force
  show thesis
  proof (cases r)
    case None
    then have "hsize (arena h) b < nu" if "b \<in> set (0 # fs)" for b
      using r(2) that unfolding ys(2) [symmetric] by auto
    then show ?thesis using none r(1) None by blast
  next
    case (Some qp)
    then show ?thesis
      using found [of "fst qp" "snd qp"] r ys lpath_step_in [OF ys(1), of "fst qp"]
      by (auto simp: case_prod_beta)
  qed
qed


section \<open>Facts drawn from the invariant\<close>

lemma wf_arenaD:
  assumes "wf_arena m fp fs A"
  shows wfa_path: "lpath (hnext m) 0 fs 0"
  and wfa_base: "hsize m 0 = 0"
  and wfa_coalesced: "sorted_wrt (\<lambda>x y. blk_end m x < y) fs"
  and wfa_block: "b \<in> set fs \<union> A \<Longrightarrow> wf_block m b"
  and wfa_fresh: "b \<in> set fs \<Longrightarrow> b \<notin> A"
  and wfa_attr: "b \<in> A \<Longrightarrow> hattr m b = 0"
  and wfa_freep: "fp \<in> set (0 # fs)"
  and wfa_disjoint: "blocks_disjoint m (set fs \<union> A)"
  and wfa_apart: "x \<in> set fs \<union> A \<Longrightarrow> y \<in> set fs \<union> A \<Longrightarrow> x \<noteq> y \<Longrightarrow>
     blk_end m x \<le> y \<or> blk_end m y \<le> x"
  and wfa_dvd: "c \<in> set (0 # fs) \<union> A \<Longrightarrow> 8 dvd c"
  and wfa_sorted: "sorted_wrt (<) (0 # fs)"
  and wfa_distinct: "distinct (0 # fs)"
proof -
  show "sorted_wrt (<) (0 # fs)"
    using wf_heap_sorted [of "undefined\<lparr>arena := m, free_p := fp\<rparr>"] assms
    by (simp add: wf_heap_def)
  then show "distinct (0 # fs)" by (rule sorted_wrt_less_nth_inj)
qed (use assms in \<open>auto simp: wf_arena_def blocks_disjoint_def wf_block_def\<close>)

lemma wf_arena_finite: "wf_arena m fp fs A \<Longrightarrow> finite A"
proof (rule finite_subset [of A "{..arena_limit}"])
  assume "wf_arena m fp fs A"
  then have "x \<le> arena_limit" if "x \<in> A" for x
    using wfa_block [of m fp fs A x] that by (auto simp: wf_block_def blk_end_def)
  then show "A \<subseteq> {..arena_limit}" by auto
qed simp

text \<open>The predecessor of a free block in the list is the element before it.\<close>

lemma wfa_split_at:
  assumes "wf_arena m fp fs A" "q \<in> set (0 # fs)" "hnext m q = p" "p \<in> set fs"
  obtains xs ys where "fs = xs @ p # ys" "q = last (0 # xs)"
proof -
  obtain xs ys where fs: "fs = xs @ p # ys" using assms(4) by (auto simp: in_set_conv_decomp)
  note w = wf_arenaD [OF assms(1)]
  have "hnext m (last (0 # xs)) = p" using wfa_path [OF assms(1)] fs by (auto dest: lpath_last)
  then have "q = last (0 # xs)"
    by (intro lpath_unique_pred [OF wfa_path [OF assms(1)] wfa_distinct [OF assms(1)] assms(2)])
      (use assms fs in auto)
  with fs that show ?thesis by blast
qed

section \<open>Allocation\<close>

lemma sorted_wrt_sublist: "sorted_wrt R (xs @ p # ys) \<Longrightarrow> sorted_wrt R (xs @ ys)"
  by (simp add: sorted_wrt_append)

lemma take_exact_wf:
  assumes wf: "wf_arena m fp (xs @ p # ys) A" and q: "q = last (0 # xs)"
    and m': "m' = set_hattr (set_hnext m q (hnext m p)) p 0"
  shows "wf_arena m' q (xs @ ys) (insert p A)"
proof -
  let ?fs = "xs @ p # ys"
  note dvd = wfa_dvd [OF wf]
  have q_in: "q \<in> set (0 # xs)" by (simp add: q)
  have d: "distinct (0 # ?fs)" by (rule wfa_distinct [OF wf])
  have qp: "8 dvd q" "8 dvd p" "q \<noteq> p" using q_in dvd d by auto
  have size: "hsize m' x = hsize m x" if "8 dvd x" for x
    using that qp by (simp add: m' hdr_fields_aligned)
  have nx: "hnext m' x = (if x = q then hnext m p else hnext m x)" if "8 dvd x" for x
    using that qp hnext_bound [of m p] by (simp add: m' hdr_fields_aligned)
  have be: "blk_end m' x = blk_end m x" if "x \<in> set ?fs \<union> A" for x
    using that size dvd by (simp add: blk_end_def)
  have "lpath (hnext m) 0 xs p" "hnext m p = hd (ys @ [0])" "lrest (hnext m) ys 0"
    using wfa_path [OF wf] by (auto simp: lpath_lrest [of _ p])
  moreover have "lrest (hnext m') ys 0 = lrest (hnext m) ys 0"
    by (rule lrest_cong) (use nx dvd d q_in in auto)
  moreover have "hnext m' z = hnext m z" if "z \<in> set (0 # xs)" "z \<noteq> q" for z
    using that nx [of z] dvd [of z] by auto
  moreover have "hnext m' q = hnext m p" using nx qp by simp
  ultimately have path: "lpath (hnext m') 0 (xs @ ys) 0"
    using d unfolding q by (intro lpath_relink [of "hnext m" 0 xs p]) simp_all
  have attr: "hattr m' x = 0" if "x \<in> insert p A" for x
    using that qp dvd wfa_attr [OF wf] by (auto simp: m' hdr_fields_aligned)
  have sorted: "sorted_wrt (\<lambda>x y. blk_end m' x < y) (xs @ ys)"
    using be by (intro sorted_wrt_mono_rel [OF _ sorted_wrt_sublist [OF wfa_coalesced [OF wf]]]) auto
  have "wf_block m' x" if "x \<in> set ?fs \<union> A" for x
    using wfa_block [OF wf that] be [OF that] size dvd that by (auto simp: wf_block_def)
  moreover have "blocks_disjoint m' (set ?fs \<union> A)"
    using wfa_disjoint [OF wf] be by (simp add: blocks_disjoint_def)
  ultimately show ?thesis
    using path sorted attr d size wfa_base [OF wf] wfa_fresh [OF wf] q_in
    unfolding wf_arena_def by (auto simp: insert_commute)
qed

lemma blocks_disjoint_insertI:
  assumes "blocks_disjoint m B" "\<And>x. x \<in> B \<Longrightarrow> blk_end m q \<le> x \<or> blk_end m x \<le> q"
  shows "blocks_disjoint m (insert q B)"
  using assms unfolding blocks_disjoint_def by blast

lemma blocks_disjoint_subset: "blocks_disjoint m B \<Longrightarrow> C \<subseteq> B \<Longrightarrow> blocks_disjoint m C"
  unfolding blocks_disjoint_def by blast

lemma blocks_disjoint_shrink:
  assumes "blocks_disjoint m B" "\<And>x. x \<in> B \<Longrightarrow> blk_end m' x \<le> blk_end m x"
  shows "blocks_disjoint m' B"
  using assms unfolding blocks_disjoint_def by (meson le_trans)

lemma take_tail_wf:
  assumes wf: "wf_arena m fp fs A" and p: "p \<in> set fs" and nu: "0 < nu" "nu < hsize m p"
    and q: "q = p + 8 * (hsize m p - nu)"
    and m': "m' = set_hattr (set_hsize (set_hsize m p (hsize m p - nu)) q nu) q 0"
    and fp': "fp' \<in> set (0 # fs)"
  shows "wf_arena m' fp' fs (insert q A)"
proof -
  have pb: "wf_block m p" using wfa_block [OF wf] p by blast
  have p8: "8 dvd p" "8 dvd q" "p < q" using pb nu by (auto simp: wf_block_def q)
  have size: "hsize m' x = (if x = q then nu else if x = p then hsize m p - nu else hsize m x)"
    if "8 dvd x" for x
    using that p8 nu hsize_bound [of m p] by (simp add: m' hdr_fields_aligned)
  have nx: "hnext m' x = hnext m x" if "8 dvd x" for x
    using that p8 by (simp add: m' hdr_fields_aligned)
  have end_q: "blk_end m' q = blk_end m p" using size p8 nu by (simp add: blk_end_def q)
  have end_p: "blk_end m' p = q" using size p8 by (simp add: blk_end_def q)
  have sep: "blk_end m x \<le> p \<or> blk_end m p \<le> x" if "x \<in> set fs \<union> A" "x \<noteq> p" for x
    using wfa_apart [OF wf that(1) _ that(2)] p by auto
  have q_lt: "q + 8 \<le> blk_end m p" using nu by (simp add: blk_end_def q)
  have x_lt: "x + 8 \<le> blk_end m x" if "x \<in> set fs \<union> A" for x
    using blk_end_gt [OF wfa_block [OF wf that]] .
  have q_new: "q \<notin> set (0 # fs) \<union> A"
    using sep [of q] x_lt [of q] p8 q_lt by fastforce
  have be: "blk_end m' x = (if x = p then q else blk_end m x)" if "x \<in> set fs \<union> A" for x
    using that size [of x] wfa_dvd [OF wf, of x] q_new end_p by (auto simp: blk_end_def)
  have "wf_block m' x" if "x \<in> insert q (set fs \<union> A)" for x
  proof (cases "x = q")
    case True
    then show ?thesis using pb p8 size [of q] nu end_q by (auto simp: wf_block_def)
  next
    case False
    then have x: "x \<in> set fs \<union> A" using that by simp
    have "0 < hsize m' x" using False size [of x] wfa_dvd [OF wf, of x] nu x wfa_block [OF wf x]
      by (auto simp: wf_block_def)
    then show ?thesis using wfa_block [OF wf x] be [OF x] q_lt by (auto simp: wf_block_def)
  qed
  moreover have "blocks_disjoint m' (insert q (set fs \<union> A))"
  proof (rule blocks_disjoint_insertI)
    show "blocks_disjoint m' (set fs \<union> A)"
      by (rule blocks_disjoint_shrink [OF wfa_disjoint [OF wf]]) (use be q_lt in auto)
    show "blk_end m' q \<le> x \<or> blk_end m' x \<le> q" if "x \<in> set fs \<union> A" for x
      using sep [OF that] be [OF that] end_q p8(3) by (cases "x = p") auto
  qed
  moreover have "sorted_wrt (\<lambda>x y. blk_end m' x < y) fs"
  proof (rule sorted_wrt_mono_rel [OF _ wfa_coalesced [OF wf]])
    show "blk_end m' x < y" if "x \<in> set fs" "y \<in> set fs" "blk_end m x < y" for x y
      using that be [of x] q_lt by (auto split: if_splits)
  qed
  moreover have "lpath (hnext m') 0 fs 0"
    by (rule iffD1 [OF lpath_cong wfa_path [OF wf]])
      (use nx wfa_dvd [OF wf] in \<open>metis UnCI\<close>)
  moreover have "hattr m' x = 0" if "x \<in> insert q A" for x
    using that p8 wfa_attr [OF wf] wfa_dvd [OF wf] by (auto simp: m' hdr_fields_aligned)
  ultimately show ?thesis
    using q_new size [of 0] wfa_base [OF wf] wfa_fresh [OF wf] p8 fp' pb
    unfolding wf_arena_def by (auto simp: wf_block_def heap_sizeof_def)
qed

text \<open>
  Two byte memories agree on the extent of every block of \<open>A\<close>: no header and
  no client byte of it has changed.
\<close>

definition blocks_kept :: "bytes \<Rightarrow> bytes \<Rightarrow> nat set \<Rightarrow> bool" where
  "blocks_kept m m' A \<longleftrightarrow> (\<forall>b\<in>A. \<forall>a. b \<le> a \<and> a < blk_end m b \<longrightarrow> m' a = m a)"

lemma blocks_kept_outside:
  assumes "\<And>b a. b \<in> A \<Longrightarrow> b \<le> a \<Longrightarrow> a < blk_end m b \<Longrightarrow> (a < p \<or> p + 8 \<le> a) \<and> (a < q \<or> q + 8 \<le> a)"
    and "\<And>a. (a < p \<or> p + 8 \<le> a) \<and> (a < q \<or> q + 8 \<le> a) \<Longrightarrow> m' a = m a"
  shows "blocks_kept m m' A"
  using assms unfolding blocks_kept_def by blast

lemma free_hdr_outside:
  assumes "wf_arena m fp fs A" "b \<in> A" "b \<le> a" "a < blk_end m b" "p \<in> set (0 # fs)"
  shows "a < p \<or> p + 8 \<le> a"
proof (cases "p = 0")
  case True
  then show ?thesis using wfa_block [OF assms(1), of b] assms
    by (auto simp: wf_block_def heap_sizeof_def)
next
  case False
  then have "p \<in> set fs" "p \<noteq> b" using assms wfa_fresh [OF assms(1)] by auto
  then show ?thesis
    using wfa_apart [OF assms(1), of p b] blk_end_gt [OF wfa_block [OF assms(1), of p]] assms by auto
qed

lemma blocks_kept_hsize:
  assumes "blocks_kept m m' A" "b \<in> A" "wf_arena m fp fs A"
  shows "hsize m' b = hsize m b"
proof (rule sym, rule hdr_cong)
  show "m a = m' a" if "b \<le> a" "a < b + 8" for a
    using assms that blk_end_gt [OF wfa_block [OF assms(3), of b]] by (auto simp: blocks_kept_def)
qed

lemma take_wf:
  assumes wf: "wf_arena m fp fs A" and nu: "0 < nu"
    and q: "q \<in> set (0 # fs)" "hnext m q = p" "p \<in> set (0 # fs)" "nu \<le> hsize m p"
    and tk: "heap_take m nu q p = (m', r)"
  shows "\<exists>fs'. wf_arena m' q fs' (insert r A) \<and> r \<notin> A \<and> hsize m' r = nu \<and>
      blocks_kept m m' A \<and> heap_units m' fs' (insert r A) = heap_units m fs A \<and>
      (\<forall>l. below m (set fs \<union> A) l \<longrightarrow> below m' (set fs' \<union> insert r A) l)"
proof -
  have p: "p \<in> set fs" using q(3,4) nu wfa_base [OF wf] by auto
  have size8: "\<And>x. x \<in> set (0 # fs) \<union> A \<Longrightarrow> 8 dvd x" by (rule wfa_dvd [OF wf])
  have fin: "finite A" by (rule wf_arena_finite [OF wf])
  show ?thesis
  proof (cases "hsize m p = nu")
    case True
    obtain xs ys where fs: "fs = xs @ p # ys" "q = last (0 # xs)"
      using wfa_split_at [OF wf q(1,2) p] .
    have m': "m' = set_hattr (set_hnext m q (hnext m p)) p 0" "r = p"
      using tk True by (auto simp: heap_take_def)
    have size: "hsize m' x = hsize m x" if "8 dvd x" for x
      using that size8 [of q] size8 [of p] q p by (auto simp: m' hdr_fields_aligned)
    have "p \<notin> A" using wfa_fresh [OF wf p] .
    have "blocks_kept m m' A"
      by (rule blocks_kept_outside [of _ _ p q])
        (use free_hdr_outside [OF wf] p q in \<open>auto simp: m' set_hdr_outside\<close>)
    moreover have "wf_arena m' q (xs @ ys) (insert p A)"
      using take_exact_wf [OF wf [unfolded fs] fs(2) m'(1)] .
    moreover have "heap_units m' (xs @ ys) (insert p A) = heap_units m fs A"
    proof -
      have "sum (hsize m') A = sum (hsize m) A" using size size8 by (intro sum.cong) auto
      moreover have "sum_list (map (hsize m') xs) = sum_list (map (hsize m) xs)"
        "sum_list (map (hsize m') ys) = sum_list (map (hsize m) ys)"
        using size size8 fs(1) by (auto intro!: sum_map_cong)
      ultimately show ?thesis
        using size [of p] size8 [of p] p \<open>p \<notin> A\<close> fin by (simp add: heap_units_def fs(1))
    qed
    moreover have "hsize m' p = nu" using size [of p] size8 [of p] p True by simp
    moreover have "below m' (set (xs @ ys) \<union> insert p A) l" if "below m (set fs \<union> A) l" for l
      using that size size8 fs(1) by (auto simp: below_def blk_end_def)
    ultimately show ?thesis using \<open>p \<notin> A\<close> m'(2) by blast
  next
    case False
    then have lt: "nu < hsize m p" using q by simp
    have m': "r = p + 8 * (hsize m p - nu)"
      "m' = set_hattr (set_hsize (set_hsize m p (hsize m p - nu)) r nu) r 0"
      using tk False hsize_bound [of m p] size8 p by (auto simp: heap_take_def Let_def hdr_fields_aligned)
    have p8: "8 dvd p" "8 dvd r" "p < r" using size8 p lt by (auto simp: m')
    have wf': "wf_arena m' q fs (insert r A)"
      using take_tail_wf [OF wf p nu lt m' q(1)] .
    have ins: "r + 8 \<le> blk_end m p" using nu lt by (simp add: blk_end_def m')
    have out: "a < p \<or> blk_end m p \<le> a" if "b \<in> A" "b \<le> a" "a < blk_end m b" for a b
      using wfa_apart [OF wf, of p b] wfa_fresh [OF wf p] that p by fastforce
    have rA: "r \<notin> set fs \<union> A"
    proof
      assume r: "r \<in> set fs \<union> A"
      then show False
        using wfa_apart [OF wf r, of p] p p8 ins blk_end_gt [OF wfa_block [OF wf r]] by auto
    qed
    have "blocks_kept m m' A"
      by (rule blocks_kept_outside [of _ _ p r])
        (use out p8 ins in \<open>fastforce simp: m' set_hdr_outside\<close>)+
    moreover have size: "hsize m' x = (if x = r then nu else if x = p then hsize m p - nu else hsize m x)"
      if "8 dvd x" for x
      using that p8 lt hsize_bound [of m p] by (simp add: m' hdr_fields_aligned)
    moreover have "sum (hsize m') A = sum (hsize m) A"
      using size size8 rA wfa_fresh [OF wf p] by (intro sum.cong) auto
    moreover have "sum_list (map (hsize m') fs) + nu = sum_list (map (hsize m) fs)"
    proof -
      obtain xs ys where fs: "fs = xs @ p # ys" using p by (auto simp: in_set_conv_decomp)
      have "hsize m' x = hsize m x" if "x \<in> set xs \<union> set ys" for x
        using that size [of x] size8 [of x] rA fs wfa_distinct [OF wf] by auto
      then have "sum_list (map (hsize m') xs) = sum_list (map (hsize m) xs)"
        "sum_list (map (hsize m') ys) = sum_list (map (hsize m) ys)"
        by (simp_all cong: map_cong)
      then show ?thesis using size p8 lt fs by simp
    qed
    ultimately have "heap_units m' fs (insert r A) = heap_units m fs A"
      using rA p8 fin by (simp add: heap_units_def)
    moreover have "hsize m' r = nu" using size p8 by simp
    moreover have "below m' (set fs \<union> insert r A) l" if l: "below m (set fs \<union> A) l" for l
      unfolding below_def
    proof
      fix x assume x: "x \<in> set fs \<union> insert r A"
      have "blk_end m p \<le> l" using l p by (simp add: below_def)
      then have end_r: "r + 8 * nu \<le> l" "p + 8 * (hsize m p - nu) \<le> l"
        using lt by (auto simp: m'(1) blk_end_def)
      show "blk_end m' x \<le> l"
      proof (cases "x = r")
        case True
        then show ?thesis using end_r size p8 by (simp add: blk_end_def)
      next
        case False
        then have "blk_end m x \<le> l" "8 dvd x" using x l size8 [of x] by (auto simp: below_def)
        then show ?thesis using False end_r size [of x] by (auto simp: blk_end_def)
      qed
    qed
    ultimately show ?thesis using wf' rA \<open>blocks_kept m m' A\<close> by blast
  qed
qed

lemma heap_nunits_pos: "0 < heap_nunits n"
  by (simp add: heap_nunits_def)

lemma heap_nunits_covers: "n + 7 < 2 ^ 64 \<Longrightarrow> n \<le> 8 * (heap_nunits n - 1)"
  by (simp add: heap_nunits_def)

lemma malloc_cases:
  assumes "wf_heap h fs A"
  obtains (null) "rtapig_malloc h n = Inr (h, None)" "\<And>b. b \<in> set fs \<Longrightarrow> hsize (arena h) b < heap_nunits n"
  | (block) h' fs' r where "rtapig_malloc h n = Inr (h', Some (r + 8))" "wf_heap h' fs' (insert r A)"
      "r \<notin> A" "hsize (arena h') r = heap_nunits n" "blocks_kept (arena h) (arena h') A"
      "heap_units (arena h') fs' (insert r A) = heap_units (arena h) fs A"
      "heap_at h' = heap_at h" "hflags h' = hflags h"
      "\<And>l. below (arena h) (set fs \<union> A) l \<Longrightarrow> below (arena h') (set fs' \<union> insert r A) l"
      "\<exists>b\<in>set fs. heap_nunits n \<le> hsize (arena h) b"
proof -
  let ?nu = "heap_nunits n"
  show thesis
  proof (rule heap_search_wf [OF assms, of ?nu])
    assume none: "heap_search (arena h) ?nu (free_p h) (free_p h) (hnext (arena h) (free_p h)) = Some None"
      "\<And>b. b \<in> set (0 # fs) \<Longrightarrow> hsize (arena h) b < ?nu"
    then show thesis using null by (simp add: rtapig_malloc_def)
  next
    fix q p
    assume found: "heap_search (arena h) ?nu (free_p h) (free_p h) (hnext (arena h) (free_p h)) = Some (Some (q, p))"
      "q \<in> set (0 # fs)" "p \<in> set (0 # fs)" "hnext (arena h) q = p" "?nu \<le> hsize (arena h) p"
    obtain m' r where tk: "heap_take (arena h) ?nu q p = (m', r)" by fastforce
    obtain fs' where "wf_arena m' q fs' (insert r A)" "r \<notin> A" "hsize m' r = ?nu"
      "blocks_kept (arena h) m' A" "heap_units m' fs' (insert r A) = heap_units (arena h) fs A"
      "\<And>l. below (arena h) (set fs \<union> A) l \<Longrightarrow> below m' (set fs' \<union> insert r A) l"
      using take_wf [OF assms [unfolded wf_heap_def] heap_nunits_pos found(2,4,3,5) tk] by blast
    moreover have "p \<in> set fs"
      using found(3,5) heap_nunits_pos [of n] wfa_base [OF assms [unfolded wf_heap_def]] by auto
    then have "\<exists>b\<in>set fs. ?nu \<le> hsize (arena h) b" using found(5) by blast
    moreover define h1 where "h1 = h\<lparr>arena := m', free_p := q\<rparr>"
    ultimately show thesis
      using found(1) tk
      by (intro block [of "h1\<lparr>requested := requested h + of_nat n,
              allocated := allocated h + of_nat (rtapi_allocsize h1 (r + 8))\<rparr>" r fs'])
        (simp_all add: rtapig_malloc_def wf_heap_def Let_def)
  qed
qed

section \<open>Release\<close>

text \<open>The walk of \<open>free\<close> stops at the last list element below the block.\<close>

lemma free_stop_iff:
  assumes wf: "wf_arena m fp (xs @ ys) A" and t: "t = last (0 # xs)"
    and bp: "\<And>x. x \<in> set (0 # xs) \<Longrightarrow> x < bp" "\<And>y. y \<in> set ys \<Longrightarrow> bp < y"
    and p: "p \<in> set (0 # xs @ ys)"
  shows "free_stop m bp p \<longleftrightarrow> p = t"
proof -
  note sorted = wfa_sorted [OF wf]
  have nx_t: "hnext m t = hd (ys @ [0])"
    using wfa_path [OF wf] t by (auto simp: lpath_append_lrest dest: lpath_last)
  have t_lt: "t < bp" using bp(1) [of t] t by simp
  have stop: "free_stop m bp t"
    using nx_t t_lt bp(2) by (cases ys) (auto simp: free_stop_def)
  moreover have "\<not> free_stop m bp p" if ne: "p \<noteq> t"
  proof -
    obtain as bs where split: "0 # xs @ ys = as @ p # bs" using p by (metis in_set_conv_decomp)
    have nx: "hnext m p = hd (bs @ [0])"
      using lpath_next [OF wfa_path [OF wf] split] .
    show ?thesis
    proof (cases "p \<in> set (0 # xs)")
      case True
      then obtain cs c ds where "0 # xs = cs @ p # c # ds"
        using ne t by (metis append_butlast_last_id in_set_conv_decomp last_snoc list.distinct(1)
            neq_Nil_conv append_Nil2 last_appendR)
      then have "hnext m p = c" "c \<in> set (0 # xs)" "p < c"
        using wfa_path [OF wf] sorted by (cases cs; auto simp: sorted_wrt_append)+
      then show ?thesis using bp(1) [of c] by (auto simp: free_stop_def)
    next
      case False
      then have "p \<in> set ys" using p by auto
      then have "bp < p" using bp by blast
      moreover have "hnext m p = 0 \<or> p < hnext m p"
        using nx split sorted by (cases bs) (auto simp: sorted_wrt_append split: if_splits)
      ultimately show ?thesis by (auto simp: free_stop_def)
    qed
  qed
  ultimately show ?thesis by blast
qed

text \<open>
  The state between the two joins of \<open>free\<close>: the block \<open>bp\<close> heads the upper
  part \<open>ys\<close> of the list, and the lower part \<open>xs\<close> does not lead to it yet.
\<close>

definition wf_pending :: "bytes \<Rightarrow> nat list \<Rightarrow> nat \<Rightarrow> nat list \<Rightarrow> nat set \<Rightarrow> bool" where
  "wf_pending m xs bp ys A \<longleftrightarrow>
     (\<exists>z. lpath (hnext m) 0 xs z) \<and> lpath (hnext m) bp ys 0 \<and> hsize m 0 = 0 \<and>
     sorted_wrt (\<lambda>x y. blk_end m x < y) (xs @ ys) \<and>
     (\<forall>x\<in>set xs. blk_end m x \<le> bp) \<and> (\<forall>y\<in>set ys. blk_end m bp < y) \<and>
     (\<forall>b\<in>insert bp (set xs \<union> set ys \<union> A). wf_block m b) \<and>
     blocks_disjoint m (insert bp (set xs \<union> set ys \<union> A)) \<and>
     bp \<notin> A \<and> (set xs \<union> set ys) \<inter> A = {} \<and> (\<forall>b\<in>A. hattr m b = 0)"

text \<open>Where a block of \<open>A\<close> lies with respect to the free blocks.\<close>

lemma alloc_between:
  assumes wf: "wf_arena m fp fs A" and bp: "bp \<in> A"
  obtains xs ys where "fs = xs @ ys" "\<And>x. x \<in> set (0 # xs) \<Longrightarrow> x < bp"
    "\<And>x. x \<in> set xs \<Longrightarrow> blk_end m x \<le> bp" "\<And>y. y \<in> set ys \<Longrightarrow> blk_end m bp \<le> y"
proof -
  define xs ys where "xs = takeWhile (\<lambda>x. x < bp) fs" and "ys = dropWhile (\<lambda>x. x < bp) fs"
  have fs: "fs = xs @ ys" by (simp add: xs_def ys_def)
  have xs: "x < bp" if "x \<in> set xs" for x using that by (auto simp: xs_def dest: set_takeWhileD)
  have ys: "bp < y" if "y \<in> set ys" for y
  proof (cases ys)
    case (Cons z zs)
    then have "\<not> z < bp" using hd_dropWhile [of "\<lambda>x. x < bp" fs] by (auto simp: ys_def)
    moreover have "z \<noteq> bp" using wfa_fresh [OF wf, of z] bp fs Cons by auto
    moreover have "z \<le> y" using wfa_sorted [OF wf] fs that Cons by (auto simp: sorted_wrt_append)
    ultimately show ?thesis by simp
  qed (use that in simp)
  have sep: "blk_end m x \<le> bp \<or> blk_end m bp \<le> x" if "x \<in> set fs" for x
    using wfa_apart [OF wf, of x bp] wfa_fresh [OF wf that] that bp by auto
  have gt: "b + 8 \<le> blk_end m b" if "b \<in> set fs \<union> A" for b
    using blk_end_gt [OF wfa_block [OF wf that]] .
  have "0 < bp" using wfa_block [OF wf, of bp] bp by (auto simp: wf_block_def heap_sizeof_def)
  then show ?thesis
    using that [OF fs] xs ys sep gt gt [of bp] bp fs by fastforce
qed

lemma wf_pendingI:
  assumes wf: "wf_arena m fp (xs @ ws @ zs) (insert bp A)" and new: "bp \<notin> A"
    and same: "\<And>x. 8 dvd x \<Longrightarrow> x \<noteq> bp \<Longrightarrow> hsize m' x = hsize m x \<and> hnext m' x = hnext m x \<and> hattr m' x = hattr m x"
    and nx: "hnext m' bp = hd (zs @ [0])"
    and lo: "\<And>x. x \<in> set xs \<Longrightarrow> blk_end m x \<le> bp"
    and hi: "\<And>y. y \<in> set zs \<Longrightarrow> blk_end m' bp < y"
    and bpb: "wf_block m' bp"
    and sep: "\<And>x. x \<in> set xs \<union> set zs \<union> A \<Longrightarrow> blk_end m' bp \<le> x \<or> blk_end m x \<le> bp"
  shows "wf_pending m' xs bp zs A"
proof -
  note dvd = wfa_dvd [OF wf]
  have nbp: "bp \<notin> set (0 # xs @ ws @ zs)"
    using wfa_fresh [OF wf] wfa_block [OF wf, of bp] by (auto simp: wf_block_def heap_sizeof_def)
  have be: "blk_end m' x = blk_end m x" if "x \<in> set xs \<union> set ws \<union> set zs \<union> A" for x
    using that same [of x] dvd [of x] nbp new by (auto simp: blk_end_def)
  have eq: "hnext m z = hnext m' z" if "z \<in> set (0 # xs @ ws @ zs)" for z
  proof -
    have "z \<noteq> bp" using that nbp by blast
    then show ?thesis using that same [of z] dvd [of z] by auto
  qed
  have "lpath (hnext m) 0 xs (hd (ws @ zs @ [0]))" "lrest (hnext m) (ws @ zs) 0"
    using wfa_path [OF wf] by (auto simp: lpath_append_lrest)
  then have "lpath (hnext m') 0 xs (hd (ws @ zs @ [0]))" "lrest (hnext m') zs 0"
    using lpath_cong [of 0 xs "hnext m" "hnext m'"] lrest_cong [of zs "hnext m" "hnext m'"] eq
    by (cases ws; cases zs; auto simp: lrest_def)+
  moreover have "sorted_wrt (\<lambda>x y. blk_end m' x < y) (xs @ zs)"
  proof (rule sorted_wrt_mono_rel)
    show "sorted_wrt (\<lambda>x y. blk_end m x < y) (xs @ zs)"
      using wfa_coalesced [OF wf] by (simp add: sorted_wrt_append)
    show "blk_end m' x < y" if "x \<in> set (xs @ zs)" "y \<in> set (xs @ zs)" "blk_end m x < y" for x y
      using that be [of x] by auto
  qed
  moreover have "wf_block m' x" if "x \<in> insert bp (set xs \<union> set zs \<union> A)" for x
    using that bpb wfa_block [OF wf, of x] be [of x] same [of x] by (cases "x = bp") (auto simp: wf_block_def)
  moreover have "blocks_disjoint m' (insert bp (set xs \<union> set zs \<union> A))"
  proof (rule blocks_disjoint_insertI)
    show "blocks_disjoint m' (set xs \<union> set zs \<union> A)"
      by (rule blocks_disjoint_shrink [OF blocks_disjoint_subset [OF wfa_disjoint [OF wf]]])
        (use be in auto)
    show "blk_end m' bp \<le> x \<or> blk_end m' x \<le> bp" if "x \<in> set xs \<union> set zs \<union> A" for x
      using sep [OF that] be [of x] that by auto
  qed
  moreover have "hattr m' x = 0" if "x \<in> A" for x
    using that same [of x] dvd [of x] wfa_attr [OF wf, of x] new by auto
  ultimately show ?thesis
    using nx lo hi be same [of 0] wfa_base [OF wf] nbp new wfa_fresh [OF wf]
    unfolding wf_pending_def by (auto simp: lpath_lrest [of _ bp])
qed

lemma join_upper_pending:
  assumes wf: "wf_arena m fp (xs @ ys) (insert bp A)" and new: "bp \<notin> A" and t: "t = last (0 # xs)"
    and lo: "\<And>x. x \<in> set xs \<Longrightarrow> blk_end m x \<le> bp" and hi: "\<And>y. y \<in> set ys \<Longrightarrow> blk_end m bp \<le> y"
  shows "\<exists>zs. wf_pending (join_upper m bp t) xs bp zs A \<and>
     hsize (join_upper m bp t) bp + sum_list (map (hsize m) zs) = hsize m bp + sum_list (map (hsize m) ys) \<and>
     set zs \<subseteq> set ys \<and> (\<forall>x. 8 dvd x \<longrightarrow> x \<noteq> bp \<longrightarrow> hsize (join_upper m bp t) x = hsize m x) \<and>
     (\<forall>l. below m (insert bp (set (xs @ ys) \<union> A)) l \<longrightarrow>
          below (join_upper m bp t) (insert bp (set (xs @ zs) \<union> A)) l)"
proof -
  note dvd = wfa_dvd [OF wf] and blk = wfa_block [OF wf]
  have bp8: "8 dvd bp" "bp \<noteq> 0" and bpb: "wf_block m bp"
    using dvd [of bp] blk [of bp] by (auto simp: wf_block_def heap_sizeof_def)
  have nbp: "bp \<notin> set (xs @ ys)" using wfa_fresh [OF wf] by blast
  have nx_t: "hnext m t = hd (ys @ [0])"
    using wfa_path [OF wf] t by (auto simp: lpath_append_lrest dest: lpath_last)
  have t8: "8 dvd t" "t \<noteq> bp" using dvd [of t] t nbp bp8 by (auto split: if_splits)
  show ?thesis
  proof (cases "blk_end m bp = hnext m t")
    case True
    then obtain y zs where ys: "ys = y # zs" "blk_end m bp = y"
      using nx_t blk_end_gt [OF bpb] by (cases ys) auto
    have y8: "8 dvd y" "y \<noteq> bp" "wf_block m y" using dvd [of y] blk [of y] ys nbp by auto
    let ?s = "hsize m bp + hsize m y"
    have bound: "?s < 2 ^ 24" "blk_end m y = bp + 8 * ?s"
      using y8(3) ys(2) bpb by (auto simp: wf_block_def blk_end_def arena_limit_def heap_sizeof_def)
    define m' where "m' = set_hnext (set_hsize m bp ?s) bp (hnext m y)"
    have ju: "join_upper m bp t = m'"
      using True t8 bp8 y8 ys nx_t
      by (auto simp: join_upper_def m'_def blk_end_def Let_def hdr_fields_aligned)
    have size: "hsize m' x = (if x = bp then ?s else hsize m x)" if "8 dvd x" for x
      using that bp8 bound by (simp add: m'_def hdr_fields_aligned)
    have nx: "hnext m' x = (if x = bp then hnext m y else hnext m x)" if "8 dvd x" for x
      using that bp8 hnext_bound [of m y] by (simp add: m'_def hdr_fields_aligned)
    have end_bp: "blk_end m' bp = blk_end m y" using size bp8 bound by (simp add: blk_end_def)
    have "wf_pending m' xs bp zs A"
    proof (rule wf_pendingI [where ws = "[y]"])
      show "wf_arena m fp (xs @ [y] @ zs) (insert bp A)" using wf ys by simp
      show "hnext m' bp = hd (zs @ [0])"
        using nx bp8 wfa_path [OF wf] ys by (simp add: lpath_lrest [of _ y])
      show "blk_end m' bp < z" if "z \<in> set zs" for z
        using that wfa_coalesced [OF wf] ys end_bp by (simp add: sorted_wrt_append)
      show "wf_block m' bp"
        using bpb y8(3) end_bp size bp8 by (auto simp: wf_block_def)
      show "blk_end m' bp \<le> x \<or> blk_end m x \<le> bp" if x: "x \<in> set xs \<union> set zs \<union> A" for x
      proof -
        have "x \<noteq> y" "x \<noteq> bp" using wfa_distinct [OF wf] wfa_fresh [OF wf, of y] x ys nbp new by auto
        then show ?thesis
          using wfa_apart [OF wf, of x bp] wfa_apart [OF wf, of x y] x ys end_bp
            blk_end_gt [OF blk, of x] by auto
      qed
    qed (use new size nx lo bp8 in \<open>auto simp: m'_def hdr_fields_aligned\<close>)
    moreover have "below m' (insert bp (set (xs @ zs) \<union> A)) l"
      if l: "below m (insert bp (set (xs @ ys) \<union> A)) l" for l
      unfolding below_def
    proof
      fix x assume x: "x \<in> insert bp (set (xs @ zs) \<union> A)"
      have "blk_end m y \<le> l" "x \<noteq> bp \<Longrightarrow> blk_end m x \<le> l" "8 dvd x"
        using l x ys dvd [of x] by (auto simp: below_def)
      then show "blk_end m' x \<le> l"
        using end_bp size [of x] by (cases "x = bp") (auto simp: blk_end_def)
    qed
    ultimately show ?thesis using ju ys size bp8 by (intro exI [of _ zs]) auto
  next
    case False
    define m' where "m' = set_hnext m bp (hnext m t)"
    have ju: "join_upper m bp t = m'"
      using False by (simp add: join_upper_def m'_def blk_end_def)
    have size: "hsize m' x = hsize m x" if "8 dvd x" for x
      using that bp8 by (simp add: m'_def hdr_fields_aligned)
    have end_bp: "blk_end m' bp = blk_end m bp" using size bp8 by (simp add: blk_end_def)
    have "wf_pending m' xs bp ys A"
    proof (rule wf_pendingI [where ws = "[]"])
      show "wf_arena m fp (xs @ [] @ ys) (insert bp A)" using wf by simp
      show "hnext m' bp = hd (ys @ [0])"
        using nx_t bp8 hnext_bound [of m t] by (simp add: m'_def hdr_fields_aligned)
      show "blk_end m' bp < z" if "z \<in> set ys" for z
      proof -
        obtain y zs where ys: "ys = y # zs" using \<open>z \<in> set ys\<close> by (cases ys) auto
        then have "blk_end m bp < y" using hi [of y] False nx_t by simp
        moreover have "y \<le> z" using that ys wfa_sorted [OF wf] by (auto simp: sorted_wrt_append)
        ultimately show ?thesis using end_bp by simp
      qed
      show "wf_block m' bp" using bpb end_bp size bp8 by (simp add: wf_block_def)
      show "blk_end m' bp \<le> x \<or> blk_end m x \<le> bp" if x: "x \<in> set xs \<union> set ys \<union> A" for x
      proof -
        have "x \<noteq> bp" using x nbp new by auto
        then show ?thesis using wfa_apart [OF wf, of x bp] x end_bp by auto
      qed
    qed (use new lo bp8 in \<open>auto simp: m'_def hdr_fields_aligned\<close>)
    moreover have "below m' (insert bp (set (xs @ ys) \<union> A)) l"
      if "below m (insert bp (set (xs @ ys) \<union> A)) l" for l
      using that size dvd bp8 by (auto simp: below_def blk_end_def)
    ultimately show ?thesis using ju size bp8 by (intro exI [of _ ys]) auto
  qed
qed

lemma join_lower_wf:
  assumes pend: "wf_pending m xs bp ys A" and t: "t = last (0 # xs)"
  shows "\<exists>fs'. wf_arena (join_lower m bp t) t fs' A \<and>
     sum_list (map (hsize (join_lower m bp t)) fs') = sum_list (map (hsize m) (xs @ bp # ys)) \<and>
     (\<forall>x\<in>A. hsize (join_lower m bp t) x = hsize m x) \<and>
     (\<forall>l. below m (insert bp (set (xs @ ys) \<union> A)) l \<longrightarrow> below (join_lower m bp t) (set fs' \<union> A) l)"
proof -
  obtain z where path: "lpath (hnext m) 0 xs z" "lpath (hnext m) bp ys 0" "hsize m 0 = 0"
    and sorted: "sorted_wrt (\<lambda>x y. blk_end m x < y) (xs @ ys)"
    and lo: "\<And>x. x \<in> set xs \<Longrightarrow> blk_end m x \<le> bp" and hi: "\<And>y. y \<in> set ys \<Longrightarrow> blk_end m bp < y"
    and blk: "\<And>b. b \<in> insert bp (set xs \<union> set ys \<union> A) \<Longrightarrow> wf_block m b"
    and dis: "blocks_disjoint m (insert bp (set xs \<union> set ys \<union> A))"
    and A: "bp \<notin> A" "(set xs \<union> set ys) \<inter> A = {}" "\<And>b. b \<in> A \<Longrightarrow> hattr m b = 0"
    using pend unfolding wf_pending_def by blast
  have gt: "b + 8 \<le> blk_end m b" if "b \<in> insert bp (set xs \<union> set ys \<union> A)" for b
    using blk_end_gt [OF blk [OF that]] .
  have dvd: "8 dvd b" "0 < b" if "b \<in> insert bp (set xs \<union> set ys \<union> A)" for b
    using blk [OF that] by (auto simp: wf_block_def heap_sizeof_def)
  have sep: "blk_end m x \<le> y \<or> blk_end m y \<le> x"
    if "x \<in> insert bp (set xs \<union> set ys \<union> A)" "y \<in> insert bp (set xs \<union> set ys \<union> A)" "x \<noteq> y" for x y
    using dis that unfolding blocks_disjoint_def by blast
  have t_in: "t \<in> set (0 # xs)" by (simp add: t)
  have t8: "8 dvd t" "t \<notin> A" using t_in dvd [of t] A(2) dvd(2) [of 0] by auto
  have xlt: "x < bp" if "x \<in> set xs" for x using lo [OF that] gt [of x] that by simp
  have bp8: "8 dvd bp" "0 < bp" "bp \<notin> set xs" "bp \<notin> set ys" "t \<noteq> bp" "t \<notin> set ys"
    using dvd [of bp] xlt hi gt [of bp] t_in
    by (auto; fastforce)+
  have distinct_xs: "distinct (0 # xs)"
  proof -
    have "sorted_wrt (<) xs"
    proof (rule sorted_wrt_mono_rel)
      show "sorted_wrt (\<lambda>x y. blk_end m x < y) xs" using sorted by (simp add: sorted_wrt_append)
      show "x < y" if "x \<in> set xs" "y \<in> set xs" "blk_end m x < y" for x y
        using that gt [of x] by simp
    qed
    then show ?thesis using sorted_wrt_less_nth_inj dvd(2) [of 0] by auto
  qed
  show ?thesis
  proof (cases "t + 8 * hsize m t = bp")
    case True
    then have tx: "t \<in> set xs" "blk_end m t = bp" using t_in bp8 path(3) by (auto simp: blk_end_def)
    define m' where "m' = set_hnext (set_hsize m t (hsize m t + hsize m bp)) t (hnext m bp)"
    have jl: "join_lower m bp t = m'"
      using True t8 bp8 by (simp add: join_lower_def m'_def Let_def hdr_fields_aligned)
    have end_t: "t + 8 * (hsize m t + hsize m bp) = blk_end m bp" using tx by (simp add: blk_end_def)
    have "8 * (hsize m t + hsize m bp) \<le> arena_limit - heap_sizeof"
      using end_t blk [of bp] blk [of t] tx by (auto simp: wf_block_def)
    then have bound: "hsize m t + hsize m bp < 2 ^ 24" by (simp add: arena_limit_def heap_sizeof_def)
    have size: "hsize m' x = (if x = t then hsize m t + hsize m bp else hsize m x)" if "8 dvd x" for x
      using that t8 bound by (simp add: m'_def hdr_fields_aligned)
    have nx: "hnext m' x = (if x = t then hnext m bp else hnext m x)" if "8 dvd x" for x
      using that t8 hnext_bound [of m bp] by (simp add: m'_def hdr_fields_aligned)
    have be: "blk_end m' x = (if x = t then blk_end m bp else blk_end m x)"
      if "x \<in> set xs \<union> set ys \<union> A" for x
      using that size [of x] dvd [of x] end_t by (auto simp: blk_end_def)
    have "lrest (hnext m') ys 0 = lrest (hnext m) ys 0"
      by (rule lrest_cong) (use nx dvd(1) bp8 in force)
    moreover have "hnext m' v = hnext m v" if "v \<in> set (0 # xs)" "v \<noteq> t" for v
      using that nx [of v] dvd(1) [of v] by auto
    ultimately have "lpath (hnext m') 0 (xs @ ys) 0"
      using distinct_xs path(1,2) nx [OF t8(1)] unfolding t
      by (intro lpath_relink [of "hnext m" 0 xs z]) (simp_all add: lpath_lrest [of _ bp])
    moreover have "sorted_wrt (\<lambda>x y. blk_end m' x < y) (xs @ ys)"
    proof (rule sorted_wrt_mono_rel [OF _ sorted])
      show "blk_end m' x < y" if "x \<in> set (xs @ ys)" "y \<in> set (xs @ ys)" "blk_end m x < y" for x y
      proof (cases "x = t")
        case True
        then have "y \<in> set ys" using that tx xlt [of y] by auto
        then show ?thesis using True hi be tx by simp
      next
        case False
        then show ?thesis using that be [of x] by auto
      qed
    qed
    moreover have "wf_block m' x" if "x \<in> set (xs @ ys) \<union> A" for x
      using that blk [of x] blk [of bp] be [of x] size [of x] by (auto simp: wf_block_def)
    moreover have "blocks_disjoint m' (set (xs @ ys) \<union> A)"
      unfolding blocks_disjoint_def
    proof (intro ballI impI)
      fix x y assume x: "x \<in> set (xs @ ys) \<union> A" "y \<in> set (xs @ ys) \<union> A" "x \<noteq> y"
      then have ne: "x \<noteq> bp" "y \<noteq> bp" using bp8 A by auto
      then show "blk_end m' x \<le> y \<or> blk_end m' y \<le> x"
        using x sep [of x y] sep [of x bp] sep [of y bp] be [of x] be [of y] tx gt [of x] gt [of y] gt [of bp]
        by (auto split: if_splits)
    qed
    moreover have "hattr m' x = 0" if "x \<in> A" for x
      using that A(3) [of x] dvd(1) [of x] t8 by (auto simp: m'_def hdr_fields_aligned)
    ultimately have "wf_arena m' t (xs @ ys) A"
      using A(2) path(3) size [of 0] tx dvd(2) [of t] unfolding wf_arena_def by auto
    moreover have "sum_list (map (hsize m') (xs @ ys)) = sum_list (map (hsize m) (xs @ bp # ys))"
    proof -
      obtain xs' where xs: "xs = xs' @ [t]" using t tx(1) by (cases xs rule: rev_cases) auto
      have "hsize m' x = hsize m x" if "x \<in> set xs' \<union> set ys" for x
        using that size [of x] dvd(1) [of x] bp8 distinct_xs xs by auto
      then have "sum_list (map (hsize m') xs') = sum_list (map (hsize m) xs')"
        "sum_list (map (hsize m') ys) = sum_list (map (hsize m) ys)"
        by (simp_all cong: map_cong)
      then show ?thesis using xs size [OF t8(1)] by simp
    qed
    moreover have "\<forall>x\<in>A. hsize m' x = hsize m x" using size dvd(1) t8 by auto
    moreover have "below m' (set (xs @ ys) \<union> A) l"
      if "below m (insert bp (set (xs @ ys) \<union> A)) l" for l
      using that be by (auto simp: below_def)
    ultimately show ?thesis using jl by blast
  next
    case False
    define m' where "m' = set_hnext m t bp"
    have jl: "join_lower m bp t = m'" using False by (simp add: join_lower_def m'_def)
    have size: "hsize m' x = hsize m x" "hattr m' x = hattr m x" if "8 dvd x" for x
      using that t8 by (simp_all add: m'_def hdr_fields_aligned)
    have "bp < 2 ^ 32" using blk [of bp] gt [of bp] by (auto simp: wf_block_def arena_limit_def)
    then have nx: "hnext m' x = (if x = t then bp else hnext m x)" if "8 dvd x" for x
      using that t8 by (simp add: m'_def hdr_fields_aligned)
    have be: "blk_end m' x = blk_end m x" if "x \<in> insert bp (set xs \<union> set ys \<union> A)" for x
      using size(1) [OF dvd(1) [OF that]] by (simp add: blk_end_def)
    have strict: "blk_end m x < bp" if "x \<in> set xs" for x
    proof (cases "x = t")
      case True
      then show ?thesis using lo [OF that] False by (auto simp: blk_end_def)
    next
      case neq: False
      obtain us where us: "xs = us @ [t]" using \<open>x \<in> set xs\<close> t by (cases xs rule: rev_cases) auto
      then have "x \<in> set us" using \<open>x \<in> set xs\<close> neq by simp
      with us show ?thesis using sorted xlt [of t] by (fastforce simp: sorted_wrt_append)
    qed
    have "lpath (hnext m') bp ys 0"
      by (rule iffD1 [OF lpath_cong path(2)]) (use nx dvd(1) bp8 in force)
    moreover have "hnext m' v = hnext m v" if "v \<in> set (0 # xs)" "v \<noteq> t" for v
      using that nx [of v] dvd(1) [of v] by auto
    ultimately have "lpath (hnext m') 0 (xs @ bp # ys) 0"
      using distinct_xs path(1) nx [OF t8(1)] unfolding t
      by (intro lpath_relink [of "hnext m" 0 xs z]) (simp_all add: lrest_def)
    moreover have "sorted_wrt (\<lambda>x y. blk_end m x < y) (xs @ bp # ys)"
      using sorted strict hi by (auto simp: sorted_wrt_append)
    then have "sorted_wrt (\<lambda>x y. blk_end m' x < y) (xs @ bp # ys)"
      by (rule sorted_wrt_mono_rel [rotated]) (auto simp: be)
    moreover have "wf_block m' x" if "x \<in> insert bp (set xs \<union> set ys \<union> A)" for x
      using blk [OF that] be [OF that] size [OF dvd(1) [OF that]] by (auto simp: wf_block_def)
    moreover have "blocks_disjoint m' (insert bp (set xs \<union> set ys \<union> A))"
      using dis be by (simp add: blocks_disjoint_def)
    moreover have "hattr m' x = 0" if "x \<in> A" for x
      using that A(3) [of x] dvd(1) [of x] size by auto
    ultimately have "wf_arena m' t (xs @ bp # ys) A"
      using A path(3) size [of 0] t_in unfolding wf_arena_def by auto
    moreover have "sum_list (map (hsize m') (xs @ bp # ys)) = sum_list (map (hsize m) (xs @ bp # ys))"
      by (rule sum_map_cong) (use size dvd(1) in auto)
    moreover have "\<forall>x\<in>A. hsize m' x = hsize m x" using size dvd(1) by auto
    moreover have "below m' (set (xs @ bp # ys) \<union> A) l"
      if "below m (insert bp (set (xs @ ys) \<union> A)) l" for l
      using that be by (auto simp: below_def)
    ultimately show ?thesis using jl by blast
  qed
qed

lemma join_outside:
  "a < bp \<or> bp + 8 \<le> a \<Longrightarrow> join_upper m bp p a = m a"
  "a < p \<or> p + 8 \<le> a \<Longrightarrow> join_lower m bp p a = m a"
  by (auto simp: join_upper_def join_lower_def Let_def set_hdr_outside)

lemma free_cases:
  assumes wf: "wf_heap h fs A" and bp: "bp \<in> A"
  obtains h' fs' where "rtapi_unlocked_free h (bp + 8) = Inr h'" "wf_heap h' fs' (A - {bp})"
    "blocks_kept (arena h) (arena h') (A - {bp})"
    "heap_units (arena h') fs' (A - {bp}) = heap_units (arena h) fs A"
    "heap_at h' = heap_at h" "hflags h' = hflags h"
    "\<And>l. below (arena h) (set fs \<union> A) l \<Longrightarrow> below (arena h') (set fs' \<union> (A - {bp})) l"
proof -
  let ?m = "arena h" and ?A = "A - {bp}"
  have wfa: "wf_arena ?m (free_p h) fs A" using wf by (simp add: wf_heap_def)
  obtain xs ys where fs: "fs = xs @ ys" and lo: "\<And>x. x \<in> set (0 # xs) \<Longrightarrow> x < bp"
    "\<And>x. x \<in> set xs \<Longrightarrow> blk_end ?m x \<le> bp" and hi: "\<And>y. y \<in> set ys \<Longrightarrow> blk_end ?m bp \<le> y"
    using alloc_between [OF wfa bp] by blast
  define t where "t = last (0 # xs)"
  define m' where "m' = join_lower (join_upper ?m bp t) bp t"
  have bpb: "wf_block ?m bp" "bp + 8 \<le> blk_end ?m bp"
    using wfa_block [OF wfa, of bp] bp blk_end_gt by auto
  have ins: "insert bp ?A = A" using bp by blast
  have t_in: "t \<in> set (0 # fs)" using fs by (simp add: t_def)
  obtain cs where cs: "lpath (hnext ?m) (free_p h) cs (free_p h)"
    "set (free_p h # cs) = set (0 # fs)"
    using wf_heap_circle [OF wf] by metis
  have "free_search ?m bp (free_p h) = Some t"
  proof (rule free_search_walk [OF cs(1)])
    show "t \<in> set (free_p h # cs)" using t_in cs(2) by simp
    show "free_stop ?m bp q = (q = t)" if "q \<in> set (free_p h # cs)" for q
    proof (rule free_stop_iff [OF wfa [unfolded fs] t_def lo(1)])
      show "bp < y" if "y \<in> set ys" for y using hi [OF that] bpb by simp
      show "q \<in> set (0 # xs @ ys)" using \<open>q \<in> set (free_p h # cs)\<close> unfolding cs(2) fs .
    qed
  qed
  moreover have "hdr_of (bp + 8) = bp" "even (hattr ?m bp)"
    using wfa_attr [OF wfa bp] by (simp_all add: hdr_of_def)
  ultimately have run: "\<exists>h'. rtapi_unlocked_free h (bp + 8) = Inr h' \<and> arena h' = m' \<and> free_p h' = t
      \<and> heap_at h' = heap_at h \<and> hflags h' = hflags h"
    by (simp add: rtapi_unlocked_free_def Let_def m'_def)
  obtain zs where zs: "wf_pending (join_upper ?m bp t) xs bp zs ?A"
    "hsize (join_upper ?m bp t) bp + sum_list (map (hsize ?m) zs) = hsize ?m bp + sum_list (map (hsize ?m) ys)"
    "set zs \<subseteq> set ys" "\<And>x. 8 dvd x \<Longrightarrow> x \<noteq> bp \<Longrightarrow> hsize (join_upper ?m bp t) x = hsize ?m x"
    "\<And>l. below ?m (insert bp (set (xs @ ys) \<union> ?A)) l \<Longrightarrow>
         below (join_upper ?m bp t) (insert bp (set (xs @ zs) \<union> ?A)) l"
    using join_upper_pending [of ?m "free_p h" xs ys bp ?A t] wfa fs ins t_def lo(2) hi by auto
  obtain fs' where fs': "wf_arena m' t fs' ?A"
    "sum_list (map (hsize m') fs') = sum_list (map (hsize (join_upper ?m bp t)) (xs @ bp # zs))"
    "\<And>x. x \<in> ?A \<Longrightarrow> hsize m' x = hsize (join_upper ?m bp t) x"
    "\<And>l. below (join_upper ?m bp t) (insert bp (set (xs @ zs) \<union> ?A)) l \<Longrightarrow> below m' (set fs' \<union> ?A) l"
    using join_lower_wf [OF zs(1) t_def] unfolding m'_def by blast
  have sum: "heap_units m' fs' ?A = heap_units ?m fs A"
  proof -
    have same: "hsize (join_upper ?m bp t) x = hsize ?m x" if "x \<in> set xs \<union> set zs \<union> ?A" for x
      using that zs(3) zs(4) [of x] wfa_dvd [OF wfa, of x] wfa_fresh [OF wfa, of x] bp fs by auto
    have "sum_list (map (hsize m') fs') = sum_list (map (hsize ?m) fs) + hsize ?m bp"
      using fs'(2) zs(2) same fs by (simp cong: map_cong)
    moreover have "sum (hsize m') ?A = sum (hsize ?m) ?A"
      using fs'(3) same by (intro sum.cong) auto
    moreover have "sum (hsize ?m) A = hsize ?m bp + sum (hsize ?m) ?A"
      using bp wf_arena_finite [OF wfa] by (simp add: sum.remove)
    ultimately show ?thesis by (simp add: heap_units_def)
  qed
  have "blocks_kept ?m m' ?A"
  proof (rule blocks_kept_outside [of _ _ bp t])
    show "(a < bp \<or> bp + 8 \<le> a) \<and> (a < t \<or> t + 8 \<le> a)" if "b \<in> ?A" "b \<le> a" "a < blk_end ?m b" for b a
      using that wfa_apart [OF wfa, of b bp] bp bpb free_hdr_outside [OF wfa _ that(2,3) t_in] by auto
  qed (auto simp: m'_def join_outside)
  moreover have "below m' (set fs' \<union> ?A) l" if "below ?m (set fs \<union> A) l" for l
    using that fs'(4) zs(5) fs bp by (auto simp: below_def)
  ultimately show ?thesis using run fs'(1) sum that by (auto simp: wf_heap_def)
qed

section \<open>Growth and initialisation\<close>

lemma hdr_fill_inside:
  assumes "a \<le> p" "p + 8 \<le> a + n"
  shows "hnext (fill_bytes m a n 0) p = 0" "hattr (fill_bytes m a n 0) p = 0"
  using assms unfolding hnext_def hattr_def fill_bytes_def
  by (simp_all add: eval_nat_numeral)

text \<open>A region of the segment that no block of the heap uses.\<close>

definition region_free :: "bytes \<Rightarrow> nat set \<Rightarrow> nat \<Rightarrow> nat \<Rightarrow> bool" where
  "region_free m B a n \<longleftrightarrow>
     heap_sizeof \<le> a \<and> 8 dvd a \<and> 8 \<le> n \<and> a + n \<le> arena_limit \<and>
     (\<forall>b\<in>B. a + n \<le> b \<or> blk_end m b \<le> a)"

lemma addmem_wf:
  assumes wf: "wf_heap h fs A" and reg: "region_free (arena h) (set fs \<union> A) (space - heap_at h) n"
    and at: "heap_at h \<le> space"
  obtains h' fs' where "rtapi_heap_addmem h space n = Inr (h', 0)" "wf_heap h' fs' A"
    "blocks_kept (arena h) (arena h') A"
    "heap_units (arena h') fs' A = heap_units (arena h) fs A + n div 8"
    "heap_at h' = heap_at h" "hflags h' = hflags h" "arena_size h' = arena_size h + of_nat n"
    "\<And>l. below (arena h) (set fs \<union> A) l \<Longrightarrow> space - heap_at h + n \<le> l \<Longrightarrow> below (arena h') (set fs' \<union> A) l"
proof -
  define a where "a = space - heap_at h"
  define m1 where "m1 = set_hsize (fill_bytes (arena h) a n 0) a (n div 8)"
  have wfa: "wf_arena (arena h) (free_p h) fs A" using wf by (simp add: wf_heap_def)
  have a: "heap_sizeof \<le> a" "8 dvd a" "8 \<le> n" "a + n \<le> arena_limit"
    and out: "\<And>b. b \<in> set fs \<union> A \<Longrightarrow> a + n \<le> b \<or> blk_end (arena h) b \<le> a"
    using reg by (auto simp: region_free_def a_def)
  have gt: "b + 8 \<le> blk_end (arena h) b" if "b \<in> set fs \<union> A" for b
    using blk_end_gt [OF wfa_block [OF wfa that]] .
  have eq: "m1 x = arena h x" if "x < a \<or> a + n \<le> x" for x
    using that a by (auto simp: m1_def set_hdr_outside fill_bytes_def)
  have same: "hnext m1 b = hnext (arena h) b \<and> hsize m1 b = hsize (arena h) b \<and> hattr m1 b = hattr (arena h) b"
    if "b \<in> set (0 # fs) \<union> A" for b
  proof -
    have "b + 8 \<le> a \<or> a + n \<le> b"
      using that out [of b] gt [of b] a by (auto simp: heap_sizeof_def)
    then show ?thesis by (intro conjI hdr_cong eq) auto
  qed
  have ndiv: "n div 8 < 2 ^ 24" using a by (auto simp: arena_limit_def heap_sizeof_def)
  have new: "hsize m1 a = n div 8" "hattr m1 a = 0"
    using hdr_fill_inside [of a a n "arena h"] a ndiv by (auto simp: m1_def hdr_fields_aligned)
  have be: "blk_end m1 b = blk_end (arena h) b" if "b \<in> set fs \<union> A" for b
    using same [of b] that by (auto simp: blk_end_def)
  have end_a: "blk_end m1 a \<le> a + n" using new by (simp add: blk_end_def)
  have nin: "a \<notin> set fs \<union> A" using out [of a] gt [of a] a by auto
  have "blocks_disjoint m1 (insert a (set fs \<union> A))"
  proof (rule blocks_disjoint_insertI)
    show "blocks_disjoint m1 (set fs \<union> A)"
      by (rule blocks_disjoint_shrink [OF wfa_disjoint [OF wfa]]) (simp add: be)
    show "blk_end m1 a \<le> x \<or> blk_end m1 x \<le> a" if "x \<in> set fs \<union> A" for x
      using out [OF that] be [OF that] end_a by auto
  qed
  moreover have "lpath (hnext m1) 0 fs 0"
    by (rule iffD1 [OF lpath_cong wfa_path [OF wfa]]) (use same in auto)
  moreover have "sorted_wrt (\<lambda>x y. blk_end m1 x < y) fs"
    by (rule sorted_wrt_mono_rel [OF _ wfa_coalesced [OF wfa]]) (simp add: be)
  moreover have "wf_block m1 b" if "b \<in> insert a (set fs \<union> A)" for b
    using that wfa_block [OF wfa, of b] same [of b] be [of b] new a end_a
    by (cases "b = a") (auto simp: wf_block_def)
  ultimately have wf1: "wf_heap (h\<lparr>arena := m1\<rparr>) fs (insert a A)"
    using nin same [of 0] wfa_base [OF wfa] wfa_fresh [OF wfa] wfa_attr [OF wfa] same new wfa_freep [OF wfa]
    unfolding wf_heap_def wf_arena_def by auto
  obtain h' fs' where h': "rtapi_unlocked_free (h\<lparr>arena := m1\<rparr>) (a + 8) = Inr h'"
    "wf_heap h' fs' (insert a A - {a})" "blocks_kept m1 (arena h') (insert a A - {a})"
    "heap_units (arena h') fs' (insert a A - {a}) = heap_units m1 fs (insert a A)"
    "heap_at h' = heap_at h" "hflags h' = hflags h"
    "\<And>l. below m1 (set fs \<union> insert a A) l \<Longrightarrow> below (arena h') (set fs' \<union> (insert a A - {a})) l"
    using free_cases [OF wf1, of a] by auto
  have A: "insert a A - {a} = A" using nin by blast
  have asz: "arena_size h' = arena_size h"
    using h'(1) by (auto simp: rtapi_unlocked_free_def Let_def split: option.splits)
  have units: "heap_units m1 fs (insert a A) = heap_units (arena h) fs A + n div 8"
  proof -
    have "sum_list (map (hsize m1) fs) = sum_list (map (hsize (arena h)) fs)"
      by (rule sum_map_cong) (use same in auto)
    moreover have "sum (hsize m1) A = sum (hsize (arena h)) A" by (rule sum.cong) (use same in auto)
    ultimately show ?thesis using wf_arena_finite [OF wfa] nin new by (simp add: heap_units_def)
  qed
  have kept: "blocks_kept (arena h) (arena h') A"
  proof -
    have "m1 x = arena h x" if "b \<in> A" "b \<le> x" "x < blk_end (arena h) b" for b x
      using eq [of x] out [of b] that by auto
    then show ?thesis using h'(3) be A unfolding blocks_kept_def by auto
  qed
  have bel: "below (arena h') (set fs' \<union> A) l" if "below (arena h) (set fs \<union> A) l" "a + n \<le> l" for l
    using h'(7) [of l] that be end_a unfolding A by (auto simp: below_def)
  show ?thesis
    by (rule that [of "h'\<lparr>freed := freed h' - ucast ((of_nat (n div 8) - 1) * 8 :: u64),
            arena_size := arena_size h' + of_nat n\<rparr>" fs'])
      (use h' A asz units kept at bel in \<open>simp_all add: rtapi_heap_addmem_def Let_def
        a_def [symmetric] m1_def [symmetric] wf_heap_def\<close>)
qed

lemma init_wf: "wf_heap (rtapi_heap_init h nm txt) [] {}"
  by (simp add: rtapi_heap_init_def wf_heap_def wf_arena_def blocks_disjoint_def hdr_fields_aligned)

section \<open>Client data\<close>

text \<open>Stores into the payload of an allocated block leave the heap well formed.\<close>

lemma payload_store_wf:
  assumes wf: "wf_arena m fp fs A" and b: "b \<in> A"
    and m': "\<And>a. a < b + 8 \<or> blk_end m b \<le> a \<Longrightarrow> m' a = m a"
  shows "wf_arena m' fp fs A" "\<And>x. x \<in> set (0 # fs) \<union> A \<Longrightarrow> hsize m' x = hsize m x"
proof -
  have same: "hnext m' x = hnext m x" "hsize m' x = hsize m x" "hattr m' x = hattr m x"
    if "x \<in> set (0 # fs) \<union> A" for x
  proof -
    have "x + 8 \<le> b + 8 \<or> blk_end m b \<le> x"
    proof (cases "x = 0 \<or> x = b")
      case False
      then show ?thesis
        using that b wfa_apart [OF wf, of x b] blk_end_gt [OF wfa_block [OF wf, of x]] by auto
    qed auto
    then show "hnext m' x = hnext m x" "hsize m' x = hsize m x" "hattr m' x = hattr m x"
      by (auto intro!: hdr_cong m')
  qed
  then show "\<And>x. x \<in> set (0 # fs) \<union> A \<Longrightarrow> hsize m' x = hsize m x" by blast
  have be: "blk_end m' x = blk_end m x" if "x \<in> set fs \<union> A" for x
    using same(2) [of x] that by (auto simp: blk_end_def)
  have "lpath (hnext m') 0 fs 0"
    by (rule iffD1 [OF lpath_cong wfa_path [OF wf]]) (use same in auto)
  moreover have "sorted_wrt (\<lambda>x y. blk_end m' x < y) fs"
    by (rule sorted_wrt_mono_rel [OF _ wfa_coalesced [OF wf]]) (simp add: be)
  moreover have "blocks_disjoint m' (set fs \<union> A)"
    by (rule blocks_disjoint_shrink [OF wfa_disjoint [OF wf]]) (simp add: be)
  moreover have "wf_block m' x" if "x \<in> set fs \<union> A" for x
    using wfa_block [OF wf that] be [OF that] same(2) [of x] that by (auto simp: wf_block_def)
  ultimately show "wf_arena m' fp fs A"
    using same(2) [of 0] same(3) wfa_base [OF wf] wfa_fresh [OF wf] wfa_attr [OF wf] wfa_freep [OF wf]
    unfolding wf_arena_def by auto
qed

lemma calloc_cases:
  assumes wf: "wf_heap h fs A" and n: "nelem * elsize + 7 < 2 ^ 64"
  obtains (null) "rtapi_calloc h nelem elsize = Inr (h, None)"
      "\<And>b. b \<in> set fs \<Longrightarrow> hsize (arena h) b < heap_nunits (nelem * elsize)"
  | (block) h' fs' r where "rtapi_calloc h nelem elsize = Inr (h', Some (r + 8))"
      "wf_heap h' fs' (insert r A)" "r \<notin> A" "blocks_kept (arena h) (arena h') A"
      "read_bytes (arena h') (r + 8) (nelem * elsize) = replicate (nelem * elsize) 0"
      "hsize (arena h') r = heap_nunits (nelem * elsize)"
      "heap_units (arena h') fs' (insert r A) = heap_units (arena h) fs A" "heap_at h' = heap_at h"
      "\<And>l. below (arena h) (set fs \<union> A) l \<Longrightarrow> below (arena h') (set fs' \<union> insert r A) l"
      "\<exists>b\<in>set fs. heap_nunits (nelem * elsize) \<le> hsize (arena h) b"
proof -
  let ?n = "nelem * elsize"
  have n': "?n mod 2 ^ 64 = ?n" using n by simp
  show thesis
  proof (rule malloc_cases [OF wf, of ?n])
    assume "rtapig_malloc h ?n = Inr (h, None)" "\<And>b. b \<in> set fs \<Longrightarrow> hsize (arena h) b < heap_nunits ?n"
    then show thesis using null n' by (simp add: rtapi_calloc_def rtapi_malloc_def)
  next
    fix h1 fs1 r
    assume h1: "rtapig_malloc h ?n = Inr (h1, Some (r + 8))" "wf_heap h1 fs1 (insert r A)" "r \<notin> A"
      "hsize (arena h1) r = heap_nunits ?n" "blocks_kept (arena h) (arena h1) A"
      "heap_units (arena h1) fs1 (insert r A) = heap_units (arena h) fs A" "heap_at h1 = heap_at h"
      and bel: "\<And>l. below (arena h) (set fs \<union> A) l \<Longrightarrow> below (arena h1) (set fs1 \<union> insert r A) l"
      and room: "\<exists>b\<in>set fs. heap_nunits ?n \<le> hsize (arena h) b"
    define m' where "m' = fill_bytes (arena h1) (r + 8) ?n 0"
    have wfa1: "wf_arena (arena h1) (free_p h1) fs1 (insert r A)" using h1(2) by (simp add: wf_heap_def)
    have fits: "r + 8 + ?n \<le> blk_end (arena h1) r"
      using heap_nunits_covers [OF n] h1(4) heap_nunits_pos [of ?n] unfolding blk_end_def by simp
    then have same: "\<And>a. a < r + 8 \<or> blk_end (arena h1) r \<le> a \<Longrightarrow> m' a = arena h1 a"
      by (auto simp: m'_def fill_bytes_def)
    note pay = payload_store_wf [OF wfa1 _ same]
    have "blocks_kept (arena h) m' A"
      unfolding blocks_kept_def
    proof (intro ballI allI impI)
      fix b a assume b: "b \<in> A" "b \<le> a \<and> a < blk_end (arena h) b"
      then have eq: "arena h1 a = arena h a" using h1(5) by (auto simp: blocks_kept_def)
      have "blk_end (arena h1) b = blk_end (arena h) b"
        using blocks_kept_hsize [OF h1(5) b(1)] wf b(1) by (simp add: blk_end_def wf_heap_def)
      moreover have "b \<noteq> r" using b h1(3) by auto
      ultimately have "a < r + 8 \<or> blk_end (arena h1) r \<le> a"
        using wfa_apart [OF wfa1, of b r] b h1(3) by auto
      then show "m' a = arena h a" using same eq by simp
    qed
    moreover have "wf_arena m' (free_p h1) fs1 (insert r A)" using pay(1) by blast
    moreover have "read_bytes m' (r + 8) ?n = replicate ?n 0"
      by (rule nth_equalityI) (auto simp: read_bytes_def m'_def fill_bytes_def)
    moreover have "hsize m' r = heap_nunits ?n" using pay(2) [of r] h1(4) by simp
    moreover have "heap_units m' fs1 (insert r A) = heap_units (arena h1) fs1 (insert r A)"
      using pay(2) [of _] by (auto simp: heap_units_def intro!: arg_cong2 [of _ _ _ _ "(+)"] sum_map_cong sum.cong)
    moreover have "below m' (set fs1 \<union> insert r A) l" if "below (arena h) (set fs \<union> A) l" for l
      using bel [OF that] pay(2) [of r] by (simp add: below_def blk_end_def)
    ultimately show thesis
      using h1 n' room
      by (intro block [of "h1\<lparr>arena := m'\<rparr>" r fs1])
        (simp_all add: rtapi_calloc_def rtapi_malloc_def wf_heap_def m'_def [symmetric] del: One_nat_def)
  qed
qed

section \<open>The allocator as an interface\<close>

text \<open>
  What the clients of an allocator rely on. \<open>live h P\<close> says that \<open>h\<close> is in
  good order and that exactly the pointers \<open>P\<close> are allocated.
\<close>

locale block_allocator =
  fixes live :: "'h \<Rightarrow> nat set \<Rightarrow> bool"
    and alloc :: "'h \<Rightarrow> nat \<Rightarrow> 'e + ('h \<times> nat option)"
    and release :: "'h \<Rightarrow> nat \<Rightarrow> 'e + 'h"
    and fits :: "nat \<Rightarrow> bool"
  assumes alloc_total: "live h P \<Longrightarrow> fits n \<Longrightarrow> \<exists>h' r. alloc h n = Inr (h', r)"
    and alloc_null: "live h P \<Longrightarrow> fits n \<Longrightarrow> alloc h n = Inr (h', None) \<Longrightarrow> h' = h"
    and alloc_fresh: "live h P \<Longrightarrow> fits n \<Longrightarrow> alloc h n = Inr (h', Some p) \<Longrightarrow>
          p \<notin> P \<and> 0 < p \<and> live h' (insert p P)"
    and release_live: "live h P \<Longrightarrow> p \<in> P \<Longrightarrow> \<exists>h'. release h p = Inr h' \<and> live h' (P - {p})"
begin

text \<open>Requests served one after the other, \<open>None\<close> where one returned \<open>NULL\<close>.\<close>

fun alloc_all :: "'h \<Rightarrow> nat list \<Rightarrow> 'e + ('h \<times> nat option list)" where
  "alloc_all h [] = Inr (h, [])"
| "alloc_all h (n # ns) =
     (case alloc h n of Inl e \<Rightarrow> Inl e
      | Inr (h', r) \<Rightarrow> (case alloc_all h' ns of Inl e \<Rightarrow> Inl e | Inr (h'', rs) \<Rightarrow> Inr (h'', r # rs)))"

lemma alloc_all_distinct:
  assumes "live h P" "\<And>n. n \<in> set ns \<Longrightarrow> fits n"
  shows "\<exists>h' rs. alloc_all h ns = Inr (h', rs) \<and> length rs = length ns \<and>
     distinct (map the (filter (\<lambda>r. r \<noteq> None) rs)) \<and>
     (the ` (set rs - {None})) \<inter> P = {} \<and> live h' (P \<union> the ` (set rs - {None}))"
  using assms
proof (induction ns arbitrary: h P)
  case (Cons n ns)
  obtain h1 r where a: "alloc h n = Inr (h1, r)" using alloc_total Cons.prems by (meson list.set_intros(1))
  show ?case
  proof (cases r)
    case None
    then have "h1 = h" using a alloc_null Cons.prems by (meson list.set_intros(1))
    then show ?thesis using Cons.IH [of h P] Cons.prems a None by auto
  next
    case (Some p)
    then have p: "p \<notin> P" "live h1 (insert p P)"
      using a alloc_fresh Cons.prems by (meson list.set_intros(1))+
    obtain h' rs where rs: "alloc_all h1 ns = Inr (h', rs)" "length rs = length ns"
      "distinct (map the (filter (\<lambda>r. r \<noteq> None) rs))"
      "(the ` (set rs - {None})) \<inter> insert p P = {}" "live h' (insert p P \<union> the ` (set rs - {None}))"
      using Cons.IH [OF p(2)] Cons.prems by (meson list.set_intros(2))
    have "set (Some p # rs) - {None} = insert (Some p) (set rs - {None})" by auto
    then have "the ` (set (Some p # rs) - {None}) = insert p (the ` (set rs - {None}))" by simp
    moreover have "p \<notin> set (map the (filter (\<lambda>r. r \<noteq> None) rs))"
      using rs(4) by (auto; force)
    ultimately show ?thesis using rs a Some p by (auto simp: Un_insert_right)
  qed
qed simp

lemma alloc_release_same:
  "live h P \<Longrightarrow> fits n \<Longrightarrow> alloc h n = Inr (h', Some p) \<Longrightarrow>
   \<exists>h''. release h' p = Inr h'' \<and> live h'' P"
  using alloc_fresh [of h P n h' p] release_live [of h' "insert p P" p] by auto

end

definition heap_live :: "rtapi_heap \<Rightarrow> nat set \<Rightarrow> bool" where
  "heap_live h P \<longleftrightarrow> (\<exists>fs A. wf_heap h fs A \<and> P = (\<lambda>b. b + 8) ` A)"

definition heap_request_ok :: "nat \<Rightarrow> bool" where
  "heap_request_ok n \<longleftrightarrow> n + 7 < 2 ^ 64"

interpretation heap: block_allocator heap_live rtapi_malloc rtapi_free heap_request_ok
proof
  fix h :: rtapi_heap and P n
  assume live: "heap_live h P" and "heap_request_ok n"
  obtain fs A where wf: "wf_heap h fs A" "P = (\<lambda>b. b + 8) ` A"
    using live unfolding heap_live_def by blast
  show "\<exists>h' r. rtapi_malloc h n = Inr (h', r)"
    by (rule malloc_cases [OF wf(1), of n]) (simp_all add: rtapi_malloc_def)
  show "h' = h" if "rtapi_malloc h n = Inr (h', None)" for h'
    by (rule malloc_cases [OF wf(1), of n]) (use that in \<open>simp_all add: rtapi_malloc_def\<close>)
  show "p \<notin> P \<and> 0 < p \<and> heap_live h' (insert p P)" if p: "rtapi_malloc h n = Inr (h', Some p)" for h' p
  proof (rule malloc_cases [OF wf(1), of n])
    fix h1 fs1 r
    assume "rtapig_malloc h n = Inr (h1, Some (r + 8))" "wf_heap h1 fs1 (insert r A)" "r \<notin> A"
    then show ?thesis using p wf(2) unfolding heap_live_def rtapi_malloc_def
      by (auto intro!: exI [of _ fs1] exI [of _ "insert r A"])
  qed (use p in \<open>simp add: rtapi_malloc_def\<close>)
next
  fix h :: rtapi_heap and P p
  assume live: "heap_live h P" and p: "p \<in> P"
  obtain fs A b where wf: "wf_heap h fs A" "P = (\<lambda>b. b + 8) ` A" "b \<in> A" "p = b + 8"
    using live p unfolding heap_live_def by blast
  have "P - {p} = (\<lambda>b. b + 8) ` (A - {b})" using wf by auto
  then show "\<exists>h'. rtapi_free h p = Inr h' \<and> heap_live h' (P - {p})"
    unfolding rtapi_free_def heap_live_def
    by (rule_tac free_cases [OF wf(1,3)]) (use wf(4) in auto)
qed

section \<open>Properties of the allocator\<close>

text \<open>C5: Allocation is total on a well-formed heap, its search loop ends. It
  either returns \<open>NULL\<close>, and then the heap is unchanged and no free block has
  enough units, or a pointer to a fresh block: the heap stays well formed with
  that block added, hence disjoint from every other block, the block holds the
  requested bytes, no byte of any other allocated block changes and no unit
  gets lost.\<close>

theorem rtapi_malloc_correct:
  assumes "wf_heap h fs A" "n + 7 < 2 ^ 64"
  shows "(rtapi_malloc h n = Inr (h, None) \<and> (\<forall>b\<in>set fs. hsize (arena h) b < heap_nunits n)) \<or>
    (\<exists>h' fs' r. rtapi_malloc h n = Inr (h', Some (r + 8)) \<and> wf_heap h' fs' (insert r A) \<and> r \<notin> A \<and>
       r + 8 + n \<le> blk_end (arena h') r \<and> blocks_kept (arena h) (arena h') A \<and>
       heap_units (arena h') fs' (insert r A) = heap_units (arena h) fs A)"
proof (rule malloc_cases [OF assms(1), of n])
  fix h' fs' r
  assume *: "rtapig_malloc h n = Inr (h', Some (r + 8))" "wf_heap h' fs' (insert r A)" "r \<notin> A"
    "hsize (arena h') r = heap_nunits n" "blocks_kept (arena h) (arena h') A"
    "heap_units (arena h') fs' (insert r A) = heap_units (arena h) fs A"
  have "r + 8 + n \<le> blk_end (arena h') r"
    using heap_nunits_covers [OF assms(2)] heap_nunits_pos [of n] *(4) unfolding blk_end_def by simp
  with * show ?thesis unfolding rtapi_malloc_def by blast
qed (simp add: rtapi_malloc_def)

text \<open>C6: Releasing an allocated block always ends and gives a well-formed heap
  again, in which the free list is sorted and coalesced, the block is no longer
  allocated, every byte of the remaining allocated blocks is unchanged and all
  units are accounted for.\<close>

theorem rtapi_free_correct:
  assumes "wf_heap h fs A" "b \<in> A"
  shows "\<exists>h' fs'. rtapi_free h (b + 8) = Inr h' \<and> wf_heap h' fs' (A - {b}) \<and>
    blocks_kept (arena h) (arena h') (A - {b}) \<and>
    heap_units (arena h') fs' (A - {b}) = heap_units (arena h) fs A"
  by (rule free_cases [OF assms]) (auto simp: rtapi_free_def)

text \<open>Zeroed allocation behaves like allocation and the returned memory
  reads as zeros.\<close>

theorem rtapi_calloc_correct:
  assumes "wf_heap h fs A" "k * e + 7 < 2 ^ 64"
  shows "(rtapi_calloc h k e = Inr (h, None) \<and> (\<forall>b\<in>set fs. hsize (arena h) b < heap_nunits (k * e))) \<or>
    (\<exists>h' fs' r. rtapi_calloc h k e = Inr (h', Some (r + 8)) \<and> wf_heap h' fs' (insert r A) \<and> r \<notin> A \<and>
       read_bytes (arena h') (r + 8) (k * e) = replicate (k * e) 0 \<and>
       blocks_kept (arena h) (arena h') A)"
  by (rule calloc_cases [OF assms]) auto

text \<open>Adding a region that overlaps no block turns it into free memory of
  the heap: the units of the region are added and nothing else changes.\<close>

theorem rtapi_heap_addmem_correct:
  assumes "wf_heap h fs A" "heap_at h \<le> space"
    "region_free (arena h) (set fs \<union> A) (space - heap_at h) n"
  shows "\<exists>h' fs'. rtapi_heap_addmem h space n = Inr (h', 0) \<and> wf_heap h' fs' A \<and>
    blocks_kept (arena h) (arena h') A \<and>
    heap_units (arena h') fs' A = heap_units (arena h) fs A + n div 8"
  by (rule addmem_wf [OF assms(1,3,2)]) blast

text \<open>Successive allocations on a well-formed heap all return, and the
  non-null pointers are pairwise distinct and distinct from all pointers that
  were live before.\<close>

theorem rtapi_malloc_distinct:
  assumes "heap_live h P" "\<forall>n\<in>set ns. heap_request_ok n"
  shows "\<exists>h' rs. heap.alloc_all h ns = Inr (h', rs) \<and>
     distinct (map the (filter (\<lambda>r. r \<noteq> None) rs)) \<and> the ` (set rs - {None}) \<inter> P = {} \<and>
     heap_live h' (P \<union> the ` (set rs - {None}))"
  using heap.alloc_all_distinct [OF assms(1), of ns] assms(2) by blast

lemma status_fold:
  "foldl (status_chunk m) (a, k, l) xs =
     (a + sum_list (map (hsize m) xs), k + length (filter (\<lambda>x. hsize m x \<noteq> 0) xs),
      foldl (\<lambda>l x. max l (hsize m x)) l xs)"
  by (induction xs arbitrary: a k l) (auto simp: status_chunk_def max_def)

lemma foldl_max_Max: "foldl (\<lambda>l x. max l (f x)) l xs = Max (insert (l :: nat) (f ` set xs))"
proof (induction xs arbitrary: l)
  case (Cons x xs)
  then show ?case by (cases "xs = []") (simp_all add: max.assoc)
qed simp

text \<open>The status report of a well-formed heap: its walk ends, the number of
  fragments is the number of free blocks, the available memory is the sum of
  their sizes and the largest fragment bounds each of them.\<close>

theorem rtapi_heap_status_correct:
  assumes "wf_heap h fs A"
  shows "\<exists>st. rtapi_heap_status h = Some (st, st_largest st) \<and>
    st_total_avail st = 8 * sum_list (map (hsize (arena h)) fs) \<and> st_fragments st = length fs \<and>
    st_largest st = 8 * Max (insert 0 (hsize (arena h) ` set fs))"
proof -
  let ?m = "arena h"
  obtain ys where ys: "lpath (hnext ?m) (free_p h) ys (free_p h)" "set (free_p h # ys) = set (0 # fs)"
    "distinct (free_p h # ys)"
    using wf_heap_circle [OF assms] by metis
  have wfa: "wf_arena ?m (free_p h) fs A" using assms by (simp add: wf_heap_def)
  have d: "distinct (ys @ [free_p h])" "set (ys @ [free_p h]) = insert 0 (set fs)"
    using ys(2,3) by auto
  have base: "hsize ?m 0 = 0" "0 \<notin> set fs" "distinct fs"
    using wfa_base [OF wfa] wfa_distinct [OF wfa] by auto
  have pos: "hsize ?m b \<noteq> 0" if "b \<in> set fs" for b
    using wfa_block [OF wfa, of b] that by (auto simp: wf_block_def)
  have "sum_list (map (hsize ?m) (ys @ [free_p h])) = sum (hsize ?m) (insert 0 (set fs))"
    using d by (simp only: sum_list_distinct_conv_sum_set)
  then have sum: "sum_list (map (hsize ?m) (ys @ [free_p h])) = sum_list (map (hsize ?m) fs)"
    using base by (simp add: sum_list_distinct_conv_sum_set)
  have "set (filter (\<lambda>x. hsize ?m x \<noteq> 0) (ys @ [free_p h])) = {x \<in> insert 0 (set fs). hsize ?m x \<noteq> 0}"
    unfolding set_filter d(2) ..
  also have "\<dots> = set fs" using base pos by force
  finally have "card (set (filter (\<lambda>x. hsize ?m x \<noteq> 0) (ys @ [free_p h]))) = card (set fs)" by simp
  then have len: "length (filter (\<lambda>x. hsize ?m x \<noteq> 0) (ys @ [free_p h])) = length fs"
    using distinct_card [OF distinct_filter [OF d(1), of "\<lambda>x. hsize ?m x \<noteq> 0"]]
      distinct_card [OF base(3)] by simp
  have "heap_visit ?m (free_p h) (status_chunk ?m) (hnext ?m (free_p h)) (0, 0, 0) =
      Some (foldl (status_chunk ?m) (0, 0, 0) (ys @ [free_p h]))"
    using heap_visit_walk [OF ys(1)] ys(3) by simp
  then show ?thesis
    unfolding rtapi_heap_status_def status_fold foldl_max_Max d(2) sum len using base by simp
qed

text \<open>The bytes on the free list, whether some free block can hold a request of
  \<open>n\<close> bytes, and the bytes of an allocated block, its header included.\<close>

definition heap_avail :: "rtapi_heap \<Rightarrow> nat" where
  "heap_avail h = (case rtapi_heap_status h of None \<Rightarrow> 0 | Some (st, l) \<Rightarrow> st_total_avail st)"

definition heap_fits :: "rtapi_heap \<Rightarrow> nat \<Rightarrow> bool" where
  "heap_fits h n = (case rtapi_heap_status h of None \<Rightarrow> False | Some (st, l) \<Rightarrow> 8 * heap_nunits n \<le> l)"

definition block_bytes :: "rtapi_heap \<Rightarrow> nat \<Rightarrow> nat" where
  "block_bytes h p = 8 * hsize (arena h) (p - 8)"

lemma heap_status_wf:
  assumes "wf_heap h fs A"
  shows "heap_avail h = 8 * sum_list (map (hsize (arena h)) fs)"
    "heap_fits h n \<longleftrightarrow> (\<exists>b\<in>set fs. heap_nunits n \<le> hsize (arena h) b)"
proof -
  obtain st where st: "rtapi_heap_status h = Some (st, st_largest st)"
    "st_total_avail st = 8 * sum_list (map (hsize (arena h)) fs)"
    "st_largest st = 8 * Max (insert 0 (hsize (arena h) ` set fs))"
    using rtapi_heap_status_correct [OF assms] by blast
  show "heap_avail h = 8 * sum_list (map (hsize (arena h)) fs)" by (simp add: heap_avail_def st)
  have "heap_nunits n \<le> Max (insert 0 (hsize (arena h) ` set fs)) \<longleftrightarrow>
      (\<exists>x\<in>insert 0 (hsize (arena h) ` set fs). heap_nunits n \<le> x)"
    by (rule Max_ge_iff) auto
  then show "heap_fits h n \<longleftrightarrow> (\<exists>b\<in>set fs. heap_nunits n \<le> hsize (arena h) b)"
    using heap_nunits_pos [of n] by (simp add: heap_fits_def st)
qed

text \<open>Units that are neither created nor lost, as bytes of the free list.\<close>

lemma heap_avail_units:
  assumes "wf_heap h fs A" "wf_heap h' fs' A'" "heap_units (arena h') fs' A' = heap_units (arena h) fs A + k"
  shows "heap_avail h' + 8 * sum (hsize (arena h')) A' = heap_avail h + 8 * sum (hsize (arena h)) A + 8 * k"
  using assms(3) unfolding heap_status_wf(1) [OF assms(1)] heap_status_wf(1) [OF assms(2)] heap_units_def by simp

lemma kept_hsize_sum:
  assumes "blocks_kept (arena h) (arena h') A'" "A' \<subseteq> A" "wf_heap h fs A"
  shows "sum (hsize (arena h')) A' = sum (hsize (arena h)) A'" "b \<in> A' \<Longrightarrow> hsize (arena h') b = hsize (arena h) b"
proof -
  show k: "hsize (arena h') b = hsize (arena h) b" if "b \<in> A'" for b
  proof (rule sym, rule hdr_cong)
    have "b + 8 \<le> blk_end (arena h) b"
      using blk_end_gt [OF wfa_block [OF assms(3) [unfolded wf_heap_def], of b]] that assms(2) by auto
    then show "arena h a = arena h' a" if "b \<le> a" "a < b + 8" for a
      using assms(1) \<open>b \<in> A'\<close> that by (auto simp: blocks_kept_def)
  qed
  show "sum (hsize (arena h')) A' = sum (hsize (arena h)) A'" by (rule sum.cong) (simp_all add: k)
qed

lemma free_live_avail:
  assumes "heap_live h P" "p \<in> P"
  obtains h' where "rtapi_free h p = Inr h'" "heap_live h' (P - {p})" "heap_avail h' = heap_avail h + block_bytes h p"
    "\<forall>q\<in>P - {p}. block_bytes h' q = block_bytes h q"
proof -
  obtain fs A b where wf: "wf_heap h fs A" and P: "P = (\<lambda>b. b + 8) ` A" and b: "b \<in> A" "p = b + 8"
    using assms unfolding heap_live_def by blast
  obtain h' fs' where f: "rtapi_unlocked_free h (b + 8) = Inr h'" "wf_heap h' fs' (A - {b})"
    "blocks_kept (arena h) (arena h') (A - {b})" "heap_units (arena h') fs' (A - {b}) = heap_units (arena h) fs A"
    using free_cases [OF wf b(1)] by metis
  note kept = kept_hsize_sum [OF f(3) Diff_subset wf]
  have "finite A" using wf by (auto simp: wf_heap_def intro: wf_arena_finite)
  then have "sum (hsize (arena h)) A = hsize (arena h) b + sum (hsize (arena h)) (A - {b})"
    using b(1) by (simp add: sum.remove)
  then have "heap_avail h' = heap_avail h + block_bytes h p"
    using heap_avail_units [OF wf f(2), of 0] f(4) kept(1) b(2) by (simp add: block_bytes_def)
  moreover have "P - {p} = (\<lambda>b. b + 8) ` (A - {b})" unfolding P b(2) by auto
  then have "heap_live h' (P - {p})" "\<forall>q\<in>P - {p}. block_bytes h' q = block_bytes h q"
    using f(2) kept(2) unfolding heap_live_def by (auto simp: block_bytes_def)
  ultimately show ?thesis using that f(1) b(2) by (simp add: rtapi_free_def)
qed

section \<open>A small heap\<close>

text \<open>One free block of 50 units at offset 80, one allocated block at offset 480.\<close>

definition small_heap :: rtapi_heap where
  "small_heap = \<lparr>arena = set_hsize (set_hsize (set_hnext (set_hnext (\<lambda>_. 0) 0 80) 80 0) 80 50) 480 50,
     free_p = 0, arena_size = 800, hflags = 0, requested = 0, allocated = 0, freed = 0,
     heap_name = ''small'', heap_at = 4096\<rparr>"

lemma small_heap_fields:
  "hsize (arena small_heap) 0 = 0" "hsize (arena small_heap) 80 = 50" "hsize (arena small_heap) 480 = 50"
  "hnext (arena small_heap) 0 = 80" "hnext (arena small_heap) 80 = 0" "hattr (arena small_heap) 480 = 0"
  by (simp_all add: small_heap_def hdr_fields_aligned)
    (simp_all add: hsize_def hattr_def eval_nat_numeral)

lemma small_heap_wf: "wf_heap small_heap [80] {480}"
  unfolding wf_heap_def wf_arena_def blocks_disjoint_def wf_block_def blk_end_def
  by (simp add: small_heap_fields heap_sizeof_def arena_limit_def) (simp add: small_heap_def)

theorem rtapi_malloc_correct_witness:
  "\<exists>h' fs' r. rtapi_malloc small_heap 100 = Inr (h', Some (r + 8)) \<and> wf_heap h' fs' {r, 480} \<and> r \<noteq> 480"
  using rtapi_malloc_correct [OF small_heap_wf, of 100]
  by (auto simp: small_heap_fields heap_nunits_def)

theorem rtapi_free_correct_witness:
  "\<exists>h' fs'. rtapi_free small_heap 488 = Inr h' \<and> wf_heap h' fs' {} \<and> heap_units (arena h') fs' {} = 100"
  using rtapi_free_correct [OF small_heap_wf, of 480]
  by (auto simp: small_heap_fields heap_units_def)

theorem rtapi_calloc_correct_witness:
  "\<exists>h' fs' r. rtapi_calloc small_heap 5 8 = Inr (h', Some (r + 8)) \<and> wf_heap h' fs' {r, 480} \<and>
     read_bytes (arena h') (r + 8) 40 = replicate 40 0"
  using rtapi_calloc_correct [OF small_heap_wf, of 5 8]
  by (auto simp: small_heap_fields heap_nunits_def)

theorem rtapi_heap_addmem_correct_witness:
  "\<exists>h' fs'. rtapi_heap_addmem small_heap (4096 + 960) 64 = Inr (h', 0) \<and> wf_heap h' fs' {480} \<and>
     heap_units (arena h') fs' {480} = 108"
  using rtapi_heap_addmem_correct [OF small_heap_wf, of "4096 + 960" 64]
  by (auto simp: small_heap_def [THEN arg_cong, of heap_at] small_heap_fields heap_units_def
      region_free_def heap_sizeof_def arena_limit_def blk_end_def)

theorem rtapi_malloc_distinct_witness:
  "\<exists>h' rs. heap.alloc_all small_heap [10, 20, 9999] = Inr (h', rs) \<and>
     distinct (map the (filter (\<lambda>r. r \<noteq> None) rs))"
proof -
  have "heap_live small_heap {488}" unfolding heap_live_def using small_heap_wf by force
  then show ?thesis
    using rtapi_malloc_distinct [of small_heap "{488}" "[10, 20, 9999]"]
    by (auto simp: heap_request_ok_def)
qed

theorem rtapi_heap_status_correct_witness:
  "\<exists>st. rtapi_heap_status small_heap = Some (st, 400) \<and> st_fragments st = 1 \<and> st_total_avail st = 400"
  using rtapi_heap_status_correct [OF small_heap_wf] by (auto simp: small_heap_fields)

end
