(* ===== verification/Hal_Segment.thy ===== *)
theory Hal_Segment
  imports Hal_Memory Rtapi_Heap_Correct
begin

text \<open>
  Correctness of the memory functions of \<open>hal_memory.c\<close>: the HAL segment
  between \<open>shmem_bot\<close> and \<open>shmem_top\<close>, the descriptor heap below it and the
  realtime data above it never overlap.
\<close>

section \<open>Alignment\<close>

lemma RTAPI_ALIGN_bounds:
  "x \<le> RTAPI_ALIGN x 64" "RTAPI_ALIGN x 64 < x + 64" "64 dvd RTAPI_ALIGN x 64"
proof -
  have m: "0 \<le> (- int x) mod 64" "(- int x) mod 64 < 64" by simp_all
  then show "x \<le> RTAPI_ALIGN x 64" "RTAPI_ALIGN x 64 < x + 64" by (simp_all add: RTAPI_ALIGN_def)
  have "int (RTAPI_ALIGN x 64) = int x + (- int x) mod 64" using m by (simp add: RTAPI_ALIGN_def)
  then have "int (RTAPI_ALIGN x 64) mod 64 = 0" by (simp add: mod_simps)
  then show "64 dvd RTAPI_ALIGN x 64" by presburger
qed

lemma to_s32_id: "- (2 ^ 31) \<le> i \<Longrightarrow> i < 2 ^ 31 \<Longrightarrow> to_s32 i = i"
  unfolding to_s32_def by simp

section \<open>The invariant of the segment\<close>

text \<open>
  \<open>seg_ok s B\<close>: the descriptor heap is well formed and lies below \<open>shmem_bot\<close>,
  which is below \<open>shmem_top\<close>; \<open>B\<close> is the set of the offsets of the allocated
  descriptors.
\<close>

definition seg_blocks :: "rtapi_heap \<Rightarrow> nat set \<Rightarrow> nat set" where
  "seg_blocks h A = (\<lambda>b. heap_at h + (b + 8)) ` A"

definition heap_below :: "rtapi_heap \<Rightarrow> nat list \<Rightarrow> nat set \<Rightarrow> nat \<Rightarrow> bool" where
  "heap_below h fs A l \<longleftrightarrow>
     wf_heap h fs A \<and> below (arena h) (set fs \<union> A) l \<and> (\<forall>b\<in>A. 2 \<le> hsize (arena h) b)"

definition seg_ok :: "hal \<Rightarrow> nat set \<Rightarrow> bool" where
  "seg_ok s B \<longleftrightarrow>
     hal_attached s \<and> (\<exists>fs A. heap_below (hal_heap s) fs A (nat (shmem_bot s) - heap_at (hal_heap s)) \<and>
        B = seg_blocks (hal_heap s) A) \<and>
     int (heap_at (hal_heap s) + heap_sizeof) \<le> shmem_bot s \<and>
     8 dvd nat (shmem_bot s) - heap_at (hal_heap s) \<and>
     shmem_bot s \<le> shmem_top s \<and> shmem_top s \<le> int arena_limit"

text \<open>The bytes of a descriptor, and the bytes by which the heap grows when it
  cannot serve a request: half of the free area, rounded up to a cache line,
  unless less than \<open>HAL_HEAP_MINFREE\<close> bytes are left.\<close>

definition desc_len :: "hal \<Rightarrow> nat \<Rightarrow> nat" where
  "desc_len s p = block_bytes (hal_heap s) (p - heap_at (hal_heap s)) - 8"

definition heap_growth :: "hal \<Rightarrow> nat" where
  "heap_growth s = (if HAL_HEAP_MINFREE \<le> shmem_top s - shmem_bot s
     then RTAPI_ALIGN (nat ((shmem_top s - shmem_bot s) div 2)) 64 else 0)"

definition desc_kept :: "hal \<Rightarrow> hal \<Rightarrow> nat set \<Rightarrow> bool" where
  "desc_kept s s' B \<longleftrightarrow> (\<forall>q\<in>B. desc_len s' q = desc_len s q)"

lemma heap_nunits_ge2: "1 \<le> n \<Longrightarrow> n + 7 < 2 ^ 64 \<Longrightarrow> 2 \<le> heap_nunits n"
  by (simp add: heap_nunits_def)

lemma calloc_below:
  assumes "heap_below h fs A l" "1 \<le> n" "n + 7 < 2 ^ 64"
  obtains (null) "rtapi_calloc h 1 n = Inr (h, None)" "\<not> heap_fits h n"
  | (block) h' fs' r where "rtapi_calloc h 1 n = Inr (h', Some (r + 8))" "r \<notin> A"
      "heap_below h' fs' (insert r A) l" "heap_at h' = heap_at h" "heap_fits h n"
      "hsize (arena h') r = heap_nunits n" "heap_avail h' + 8 * heap_nunits n = heap_avail h"
      "\<And>b. b \<in> A \<Longrightarrow> hsize (arena h') b = hsize (arena h) b"
proof -
  have wf: "wf_heap h fs A" and bel: "below (arena h) (set fs \<union> A) l"
    and two: "\<And>b. b \<in> A \<Longrightarrow> 2 \<le> hsize (arena h) b"
    using assms(1) by (auto simp: heap_below_def)
  have n: "1 * n + 7 < 2 ^ 64" using assms(3) by simp
  show thesis
  proof (rule calloc_cases [OF wf n])
    assume "rtapi_calloc h 1 n = Inr (h, None)" "\<And>b. b \<in> set fs \<Longrightarrow> hsize (arena h) b < heap_nunits (1 * n)"
    then show thesis using null heap_status_wf(2) [OF wf, of n] by fastforce
  next
    fix h' fs' r
    assume c: "rtapi_calloc h 1 n = Inr (h', Some (r + 8))" "wf_heap h' fs' (insert r A)" "r \<notin> A"
      "blocks_kept (arena h) (arena h') A" "hsize (arena h') r = heap_nunits (1 * n)" "heap_at h' = heap_at h"
      "heap_units (arena h') fs' (insert r A) = heap_units (arena h) fs A"
      "\<exists>b\<in>set fs. heap_nunits (1 * n) \<le> hsize (arena h) b"
      and bel': "\<And>l. below (arena h) (set fs \<union> A) l \<Longrightarrow> below (arena h') (set fs' \<union> insert r A) l"
    note kept = kept_hsize_sum [OF c(4) subset_refl wf]
    have "2 \<le> hsize (arena h') b" if "b \<in> insert r A" for b
      using that c(5) kept(2) [of b] two [of b] heap_nunits_ge2 [OF assms(2,3)] by auto
    then have hb': "heap_below h' fs' (insert r A) l" using c(2) bel' [OF bel] by (simp add: heap_below_def)
    have "finite A" using wf by (auto simp: wf_heap_def intro: wf_arena_finite)
    then have av: "heap_avail h' + 8 * heap_nunits n = heap_avail h"
      using heap_avail_units [OF wf c(2), of 0] c(3,5,7) kept(1) by simp
    have fit: "heap_fits h n" using c(8) heap_status_wf(2) [OF wf, of n] by simp
    show thesis by (rule block [OF c(1,3) hb' c(6) fit _ av kept(2)]) (use c(5) in simp_all)
  qed
qed

lemma seg_blocks_simps [simp]:
  "heap_at h' = heap_at h \<Longrightarrow> seg_blocks h' (insert r A) = insert (heap_at h + (r + 8)) (seg_blocks h A)"
  "heap_at h + (r + 8) \<in> seg_blocks h A \<longleftrightarrow> r \<in> A"
  by (auto simp: seg_blocks_def)

lemma seg_okE:
  assumes "seg_ok s B"
  obtains fs A where "heap_below (hal_heap s) fs A (nat (shmem_bot s) - heap_at (hal_heap s))"
    "B = seg_blocks (hal_heap s) A"
  using assms unfolding seg_ok_def by blast

lemma seg_ok_heap:
  assumes "seg_ok s B" "heap_below h fs A (nat (shmem_bot s) - heap_at (hal_heap s))"
    "heap_at h = heap_at (hal_heap s)"
  shows "seg_ok (s\<lparr>hal_heap := h\<rparr>) (seg_blocks h A)"
  using assms unfolding seg_ok_def by auto

lemma seg_ok_cong:
  assumes "seg_ok s B" "hal_heap s' = hal_heap s" "shmem_bot s' = shmem_bot s" "shmem_top s' = shmem_top s"
    "hal_attached s' = hal_attached s"
  shows "seg_ok s' B"
  using assms unfolding seg_ok_def by simp

lemma seg_ok_halerrno [simp]: "seg_ok (s\<lparr>halerrno := e\<rparr>) B = seg_ok s B"
  by (simp add: seg_ok_def)

lemma seg_ok_desc_len:
  assumes "seg_ok s B" "p \<in> B"
  shows "8 \<le> desc_len s p" "int (p + desc_len s p) \<le> shmem_bot s"
    "q \<in> B \<Longrightarrow> p < q \<Longrightarrow> p + desc_len s p + 8 \<le> q"
proof -
  let ?h = "hal_heap s"
  obtain fs A where hb: "heap_below ?h fs A (nat (shmem_bot s) - heap_at ?h)"
    and B: "B = seg_blocks ?h A" using assms(1) by (rule seg_okE)
  obtain b where b: "b \<in> A" "p = heap_at ?h + (b + 8)" using assms(2) unfolding B seg_blocks_def by blast
  have wfa: "wf_arena (arena ?h) (free_p ?h) fs A" and two: "2 \<le> hsize (arena ?h) b"
    using hb b by (auto simp: heap_below_def wf_heap_def)
  have len: "p + desc_len s p = heap_at ?h + blk_end (arena ?h) b" "desc_len s p = 8 * hsize (arena ?h) b - 8"
    using two by (simp_all add: b(2) desc_len_def block_bytes_def blk_end_def)
  show "8 \<le> desc_len s p" using two len(2) by simp
  have "blk_end (arena ?h) b \<le> nat (shmem_bot s) - heap_at ?h" using hb b(1) by (simp add: heap_below_def below_def)
  then show "int (p + desc_len s p) \<le> shmem_bot s" using assms(1) unfolding len(1) by (auto simp: seg_ok_def heap_sizeof_def)
  show "p + desc_len s p + 8 \<le> q" if q: "q \<in> B" "p < q"
  proof -
    obtain c where c: "c \<in> A" "q = heap_at ?h + (c + 8)" using q(1) unfolding B seg_blocks_def by blast
    have "c + 8 \<le> blk_end (arena ?h) c" using blk_end_gt [OF wfa_block [OF wfa, of c]] c by simp
    then have "blk_end (arena ?h) b \<le> c" using wfa_apart [OF wfa, of b c] b c q(2) by auto
    then show ?thesis using len(1) c(2) by simp
  qed
qed

lemma seg_ok_spaced:
  assumes "seg_ok s B" "p \<in> B" "q \<in> B" "p < q"
  shows "p + 16 \<le> q"
  using seg_ok_desc_len [OF assms(1,2)] assms(3,4) by fastforce

lemma seg_ok_block:
  assumes "seg_ok s B" "p \<in> B"
  shows "0 < p" "finite B" "heap_at (hal_heap s) \<le> p"
proof -
  obtain fs A where hb: "heap_below (hal_heap s) fs A (nat (shmem_bot s) - heap_at (hal_heap s))"
    and B: "B = seg_blocks (hal_heap s) A" using assms(1) by (rule seg_okE)
  then have "finite A" by (auto simp: heap_below_def wf_heap_def intro: wf_arena_finite)
  then show "0 < p" "finite B" "heap_at (hal_heap s) \<le> p"
    using assms(2) unfolding B by (auto simp: seg_blocks_def)
qed

section \<open>The descriptor heap\<close>

lemma addmem_seg_ok:
  assumes ok: "seg_ok s B" and room: "int (RTAPI_ALIGN click 64) \<le> shmem_top s - shmem_bot s"
    and pos: "1 \<le> click"
  obtains e where "hal_heap_addmem click s = (e, 0)" "seg_ok e B"
    "\<exists>h b. e = s\<lparr>hal_heap := h, shmem_bot := b\<rparr>" "desc_kept s e B"
    "HAL_HEAP_MINFREE \<le> shmem_top s - shmem_bot s \<Longrightarrow> shmem_bot e = shmem_bot s + int (RTAPI_ALIGN click 64) \<and>
       heap_avail (hal_heap e) = heap_avail (hal_heap s) + RTAPI_ALIGN click 64"
proof -
  let ?h = "hal_heap s" and ?n = "RTAPI_ALIGN click 64" and ?l = "nat (shmem_bot s) - heap_at (hal_heap s)"
  obtain fs A where hb: "heap_below ?h fs A ?l" and B: "B = seg_blocks ?h A"
    using ok by (rule seg_okE)
  have at: "hal_attached s" "int (heap_at ?h + heap_sizeof) \<le> shmem_bot s" "8 dvd ?l"
    "shmem_bot s \<le> shmem_top s" "shmem_top s \<le> int arena_limit"
    using ok by (auto simp: seg_ok_def)
  have n: "64 dvd ?n" "64 \<le> ?n" using RTAPI_ALIGN_bounds [of click] pos by (auto dest: dvd_imp_le)
  have free: "hal_freemem s mod 2 ^ 64 = shmem_top s - shmem_bot s"
    using at by (simp add: hal_freemem_def arena_limit_def)
  show thesis
  proof (cases "shmem_top s - shmem_bot s < HAL_HEAP_MINFREE")
    case True
    then have "hal_heap_addmem click s = (s, 0)"
      using free by (simp add: hal_heap_addmem_def Let_def)
    moreover have "s = s\<lparr>hal_heap := hal_heap s, shmem_bot := shmem_bot s\<rparr>" by simp
    moreover have "desc_kept s s B" by (simp add: desc_kept_def)
    ultimately show ?thesis using that [of s] ok True by (metis linorder_not_le)
  next
    case False
    have wf: "wf_heap ?h fs A" and bel: "below (arena ?h) (set fs \<union> A) ?l"
      using hb by (auto simp: heap_below_def)
    have "heap_sizeof \<le> ?l" "?l + ?n \<le> arena_limit" using at room by (auto simp: heap_sizeof_def)
    then have reg: "region_free (arena ?h) (set fs \<union> A) ?l ?n"
      using bel n at by (auto simp: region_free_def below_def)
    have le: "heap_at ?h \<le> nat (shmem_bot s)" using at by (auto simp: heap_sizeof_def)
    obtain h' fs' where h': "rtapi_heap_addmem ?h (nat (shmem_bot s)) ?n = Inr (h', 0)"
      "wf_heap h' fs' A" "blocks_kept (arena ?h) (arena h') A" "heap_at h' = heap_at ?h"
      "\<And>l. below (arena ?h) (set fs \<union> A) l \<Longrightarrow> ?l + ?n \<le> l \<Longrightarrow> below (arena h') (set fs' \<union> A) l"
      "heap_units (arena h') fs' A = heap_units (arena ?h) fs A + ?n div 8"
      using addmem_wf [OF wf reg le] by metis
    note kept = kept_hsize_sum [OF h'(3) subset_refl wf]
    define b where "b = shmem_bot s + int ?n"
    have b: "to_s32 b = b" using at room n by (intro to_s32_id) (auto simp: b_def arena_limit_def heap_sizeof_def)
    have nb: "nat b - heap_at ?h = ?l + ?n" using at le by (simp add: b_def)
    have "2 \<le> hsize (arena h') x" if "x \<in> A" for x
      using that hb kept(2) [OF that] by (simp add: heap_below_def)
    moreover have "below (arena h') (set fs' \<union> A) (?l + ?n)"
      by (rule h'(5)) (use bel in \<open>auto simp: below_def intro: le_trans\<close>)
    ultimately have hb': "heap_below h' fs' A (?l + ?n)" using h'(2) by (simp add: heap_below_def)
    have "8 dvd ?n" by (rule dvd_trans [OF _ n(1)]) simp
    then have "heap_avail h' = heap_avail ?h + ?n" using heap_avail_units [OF wf h'(2,6)] kept(1) by simp
    moreover have "desc_kept s (s\<lparr>hal_heap := h', shmem_bot := b\<rparr>) B"
      using kept(2) h'(4) unfolding B by (auto simp: desc_kept_def seg_blocks_def desc_len_def block_bytes_def)
    moreover have "8 dvd ?l + ?n" using at(3) \<open>8 dvd ?n\<close> by (rule dvd_add)
    then have "seg_ok (s\<lparr>hal_heap := h', shmem_bot := b\<rparr>) B"
      using hb' at room h'(4) nb B unfolding seg_ok_def
      by (auto simp: seg_blocks_def b_def heap_sizeof_def)
    moreover have "hal_heap_addmem click s = (s\<lparr>hal_heap := h', shmem_bot := b\<rparr>, 0)"
      using False free h'(1) b
      by (simp add: hal_heap_addmem_def Let_def RTAPI_CACHELINE_def b_def HAL_HEAP_MINFREE_def)
    moreover have "\<exists>h c. s\<lparr>hal_heap := h', shmem_bot := b\<rparr> = s\<lparr>hal_heap := h, shmem_bot := c\<rparr>" by blast
    ultimately show ?thesis
      by (intro that [of "s\<lparr>hal_heap := h', shmem_bot := b\<rparr>"]) (assumption | simp add: b_def)+
  qed
qed

lemma increment_room:
  assumes "seg_ok s B" "HAL_HEAP_MINFREE \<le> shmem_top s - shmem_bot s"
  shows "int (RTAPI_ALIGN (HAL_HEAP_INCREMENT s) 64) \<le> shmem_top s - shmem_bot s" "1 \<le> HAL_HEAP_INCREMENT s"
    "heap_growth s = RTAPI_ALIGN (HAL_HEAP_INCREMENT s) 64"
proof -
  have "hal_freemem s mod 2 ^ 64 = shmem_top s - shmem_bot s"
    using assms(1) by (simp add: seg_ok_def hal_freemem_def arena_limit_def)
  then have inc: "int (HAL_HEAP_INCREMENT s) = (shmem_top s - shmem_bot s) div 2"
    using assms by (simp add: HAL_HEAP_INCREMENT_def HAL_HEAP_MINFREE_def)
  then have "HAL_HEAP_INCREMENT s = nat ((shmem_top s - shmem_bot s) div 2)" by simp
  then show "heap_growth s = RTAPI_ALIGN (HAL_HEAP_INCREMENT s) 64" using assms(2) by (simp add: heap_growth_def)
  show "1 \<le> HAL_HEAP_INCREMENT s" using inc assms(2) by (simp add: HAL_HEAP_MINFREE_def)
  show "int (RTAPI_ALIGN (HAL_HEAP_INCREMENT s) 64) \<le> shmem_top s - shmem_bot s"
    using RTAPI_ALIGN_bounds(2) [of "HAL_HEAP_INCREMENT s"] inc assms(2)
    by (auto simp: HAL_HEAP_MINFREE_def)
qed

lemma grow_seg_ok:
  assumes "seg_ok s B"
  obtains e where "fst (hal_heap_addmem (HAL_HEAP_INCREMENT s) s) = e" "seg_ok e B"
    "\<exists>h b. e = s\<lparr>hal_heap := h, shmem_bot := b\<rparr>" "desc_kept s e B"
    "shmem_bot e = shmem_bot s + int (heap_growth s)"
    "heap_avail (hal_heap e) = heap_avail (hal_heap s) + heap_growth s"
proof (cases "HAL_HEAP_MINFREE \<le> shmem_top s - shmem_bot s")
  case True
  note room = increment_room [OF assms True]
  show ?thesis
  proof (rule addmem_seg_ok [OF assms room(1,2)])
    fix e assume "hal_heap_addmem (HAL_HEAP_INCREMENT s) s = (e, 0)" "seg_ok e B"
      "\<exists>h b. e = s\<lparr>hal_heap := h, shmem_bot := b\<rparr>" "desc_kept s e B"
      "HAL_HEAP_MINFREE \<le> shmem_top s - shmem_bot s \<Longrightarrow>
         shmem_bot e = shmem_bot s + int (RTAPI_ALIGN (HAL_HEAP_INCREMENT s) 64) \<and>
         heap_avail (hal_heap e) = heap_avail (hal_heap s) + RTAPI_ALIGN (HAL_HEAP_INCREMENT s) 64"
    then show ?thesis using True room(3) by (intro that [of e]) simp_all
  qed
next
  case False
  then have "hal_heap_addmem (HAL_HEAP_INCREMENT s) s = (s, 0)"
    using assms by (simp add: hal_heap_addmem_def Let_def seg_ok_def hal_freemem_def arena_limit_def)
  moreover have "s = s\<lparr>hal_heap := hal_heap s, shmem_bot := shmem_bot s\<rparr>" by simp
  moreover have "heap_growth s = 0" "desc_kept s s B" using False by (simp_all add: heap_growth_def desc_kept_def)
  moreover have "\<exists>h b. s = s\<lparr>hal_heap := h, shmem_bot := b\<rparr>" using calculation(2) by blast
  ultimately show ?thesis using assms by (intro that [of s]) simp_all
qed

text \<open>The fields that the memory functions may change.\<close>

definition seg_frame :: "hal \<Rightarrow> hal \<Rightarrow> bool" where
  "seg_frame s s' \<longleftrightarrow> (\<exists>e h b. s' = s\<lparr>halerrno := e, hal_heap := h, shmem_bot := b\<rparr>)"

lemma seg_frameI: "s' = s\<lparr>halerrno := e, hal_heap := h, shmem_bot := b\<rparr> \<Longrightarrow> seg_frame s s'"
  unfolding seg_frame_def by blast

lemma seg_frame_heap: "seg_frame s (s\<lparr>hal_heap := h\<rparr>)"
  by (rule seg_frameI [where e = "halerrno s" and b = "shmem_bot s"]) simp

lemma seg_frame_grow: "s1 = s\<lparr>hal_heap := h, shmem_bot := b\<rparr> \<Longrightarrow> seg_frame s (s1\<lparr>hal_heap := h'\<rparr>)"
  by (rule seg_frameI [where e = "halerrno s" and b = b and h = h']) simp

text \<open>A successful request on the heap of \<open>s\<close>.\<close>

lemma calloc_seg_ok:
  assumes ok: "seg_ok s B" and n: "1 \<le> n" "n + 7 < 2 ^ 64"
  obtains (null) "rtapi_calloc (hal_heap s) 1 n = Inr (hal_heap s, None)" "\<not> heap_fits (hal_heap s) n"
  | (block) h' r where "rtapi_calloc (hal_heap s) 1 n = Inr (h', Some r)" "heap_fits (hal_heap s) n"
      "heap_at (hal_heap s) + r \<notin> B" "seg_ok (s\<lparr>hal_heap := h'\<rparr>) (insert (heap_at (hal_heap s) + r) B)"
      "heap_at h' = heap_at (hal_heap s)" "heap_avail h' + 8 * heap_nunits n = heap_avail (hal_heap s)"
      "desc_len (s\<lparr>hal_heap := h'\<rparr>) (heap_at (hal_heap s) + r) = 8 * (heap_nunits n - 1)"
      "\<And>q. q \<in> B \<Longrightarrow> desc_len (s\<lparr>hal_heap := h'\<rparr>) q = desc_len s q"
proof -
  let ?h = "hal_heap s"
  obtain fs A where hb: "heap_below ?h fs A (nat (shmem_bot s) - heap_at ?h)" and B: "B = seg_blocks ?h A"
    using ok by (rule seg_okE)
  show thesis
  proof (rule calloc_below [OF hb n])
    fix h' fs' r
    assume c: "rtapi_calloc ?h 1 n = Inr (h', Some (r + 8))" "r \<notin> A"
      "heap_below h' fs' (insert r A) (nat (shmem_bot s) - heap_at ?h)" "heap_at h' = heap_at ?h" "heap_fits ?h n"
      "hsize (arena h') r = heap_nunits n" "heap_avail h' + 8 * heap_nunits n = heap_avail ?h"
      "\<And>b. b \<in> A \<Longrightarrow> hsize (arena h') b = hsize (arena ?h) b"
    have "desc_len (s\<lparr>hal_heap := h'\<rparr>) q = desc_len s q" if "q \<in> B" for q
      using that c(4,8) unfolding B by (auto simp: seg_blocks_def desc_len_def block_bytes_def)
    moreover have "desc_len (s\<lparr>hal_heap := h'\<rparr>) (heap_at ?h + (r + 8)) = 8 * (heap_nunits n - 1)"
      using c(4,6) by (simp add: desc_len_def block_bytes_def diff_mult_distrib2)
    ultimately show thesis
      using c B seg_ok_heap [OF ok c(3,4)] by (intro block [of h' "r + 8"]) simp_all
  qed (rule null)
qed

lemma shmalloc_desc_cases:
  assumes ok: "seg_ok s B" and n: "1 \<le> n" "n + 7 < 2 ^ 64"
  defines "g \<equiv> if heap_fits (hal_heap s) n then 0 else heap_growth s"
  obtains (null) s' where "shmalloc_desc n s = (s', None)" "seg_ok s' B" "seg_frame s s'"
      "\<not> heap_fits (hal_heap s) n" "\<not> heap_fits (hal_heap s') n" "shmem_bot s' = shmem_bot s + int g"
      "heap_avail (hal_heap s') = heap_avail (hal_heap s) + g" "desc_kept s s' B"
  | (block) s' p where "shmalloc_desc n s = (s', Some p)" "p \<notin> B" "seg_ok s' (insert p B)" "seg_frame s s'"
      "desc_len s' p = 8 * (heap_nunits n - 1)" "shmem_bot s' = shmem_bot s + int g"
      "heap_avail (hal_heap s') + 8 * heap_nunits n = heap_avail (hal_heap s) + g" "desc_kept s s' B"
proof -
  let ?h = "hal_heap s"
  show thesis
  proof (rule calloc_seg_ok [OF ok n])
    fix h' r
    assume c: "rtapi_calloc ?h 1 n = Inr (h', Some r)" "heap_fits ?h n" "heap_at ?h + r \<notin> B"
      "seg_ok (s\<lparr>hal_heap := h'\<rparr>) (insert (heap_at ?h + r) B)" "heap_at h' = heap_at ?h"
      "heap_avail h' + 8 * heap_nunits n = heap_avail ?h"
      "desc_len (s\<lparr>hal_heap := h'\<rparr>) (heap_at ?h + r) = 8 * (heap_nunits n - 1)"
      "\<And>q. q \<in> B \<Longrightarrow> desc_len (s\<lparr>hal_heap := h'\<rparr>) q = desc_len s q"
    show thesis
      by (rule block [of "s\<lparr>hal_heap := h'\<rparr>" "heap_at ?h + r"])
        (use c seg_frame_heap in \<open>simp_all add: shmalloc_desc_def g_def desc_kept_def\<close>)
  next
    assume c: "rtapi_calloc ?h 1 n = Inr (?h, None)" "\<not> heap_fits ?h n"
    have "g = heap_growth s" using c(2) by (simp add: g_def)
    then obtain s1 where "\<exists>h b. s1 = s\<lparr>hal_heap := h, shmem_bot := b\<rparr>" and kept: "desc_kept s s1 B"
      and g: "shmem_bot s1 = shmem_bot s + int g" "heap_avail (hal_heap s1) = heap_avail ?h + g"
      and s12: "fst (hal_heap_addmem (HAL_HEAP_INCREMENT s) s) = s1" "seg_ok s1 B"
      using grow_seg_ok [OF ok] by metis
    then obtain h1 b1 where s1: "fst (hal_heap_addmem (HAL_HEAP_INCREMENT s) s) = s1" "seg_ok s1 B"
      "s1 = s\<lparr>hal_heap := h1, shmem_bot := b1\<rparr>" by blast
    show thesis
    proof (rule calloc_seg_ok [OF s1(2) n])
      assume c1: "rtapi_calloc (hal_heap s1) 1 n = Inr (hal_heap s1, None)" "\<not> heap_fits (hal_heap s1) n"
      have eq: "shmalloc_desc n s = (halfail ENOMEM s1, None)"
        using c(1) c1(1) s1(1) by (simp add: shmalloc_desc_def halfail_null_def)
      have fr: "seg_frame s (halfail ENOMEM s1)"
        by (rule seg_frameI [where e = "- ENOMEM" and b = b1 and h = h1])
          (simp add: s1(3) halfail_def)
      show thesis
        by (rule null [OF eq _ fr c(2)])
          (use s1(2) c1(2) g kept in \<open>simp_all add: halfail_def desc_kept_def desc_len_def\<close>)
    next
      fix h' r
      assume c1: "rtapi_calloc (hal_heap s1) 1 n = Inr (h', Some r)" "heap_at (hal_heap s1) + r \<notin> B"
        "seg_ok (s1\<lparr>hal_heap := h'\<rparr>) (insert (heap_at (hal_heap s1) + r) B)" "heap_at h' = heap_at (hal_heap s1)"
        "heap_avail h' + 8 * heap_nunits n = heap_avail (hal_heap s1)"
        "desc_len (s1\<lparr>hal_heap := h'\<rparr>) (heap_at (hal_heap s1) + r) = 8 * (heap_nunits n - 1)"
        "\<And>q. q \<in> B \<Longrightarrow> desc_len (s1\<lparr>hal_heap := h'\<rparr>) q = desc_len s1 q"
      have "shmalloc_desc n s = (s1\<lparr>hal_heap := h'\<rparr>, Some (heap_at (hal_heap s1) + r))"
        using c(1) c1(1,4) s1(1) by (simp add: shmalloc_desc_def)
      then show thesis
        by (rule block [OF _ c1(2,3) seg_frame_grow [OF s1(3)] c1(6)])
          (use c1(5,7) g kept in \<open>simp_all add: desc_kept_def\<close>)
    qed
  qed
qed

lemma shmfree_desc_ok:
  assumes ok: "seg_ok s B" and p: "p \<in> B"
  shows "seg_ok (shmfree_desc p s) (B - {p})" "\<exists>h. shmfree_desc p s = s\<lparr>hal_heap := h\<rparr>"
    "heap_avail (hal_heap (shmfree_desc p s)) = heap_avail (hal_heap s) + (desc_len s p + 8)"
    "desc_kept s (shmfree_desc p s) (B - {p})"
proof -
  let ?h = "hal_heap s"
  obtain fs A where hb: "heap_below ?h fs A (nat (shmem_bot s) - heap_at ?h)" and B: "B = seg_blocks ?h A"
    using ok by (rule seg_okE)
  obtain r where r: "r \<in> A" "p = heap_at ?h + (r + 8)" using p unfolding B seg_blocks_def by blast
  have wf: "wf_heap ?h fs A" using hb by (simp add: heap_below_def)
  obtain h' fs' where h': "rtapi_unlocked_free ?h (r + 8) = Inr h'" "wf_heap h' fs' (A - {r})"
    "blocks_kept (arena ?h) (arena h') (A - {r})" "heap_at h' = heap_at ?h"
    "below (arena h') (set fs' \<union> (A - {r})) (nat (shmem_bot s) - heap_at ?h)"
    "heap_units (arena h') fs' (A - {r}) = heap_units (arena ?h) fs A"
    using free_cases [OF wf r(1)] hb by (metis heap_below_def)
  note kept = kept_hsize_sum [OF h'(3) Diff_subset wf]
  have "2 \<le> hsize (arena h') b" if "b \<in> A - {r}" for b
    using hb that kept(2) [OF that] by (simp add: heap_below_def)
  then have hb': "heap_below h' fs' (A - {r}) (nat (shmem_bot s) - heap_at ?h)"
    using h' by (simp add: heap_below_def)
  have eq: "shmfree_desc p s = s\<lparr>hal_heap := h'\<rparr>"
    using ok r(2) h'(1) by (simp add: shmfree_desc_def seg_ok_def rtapi_free_def)
  have B': "seg_blocks h' (A - {r}) = B - {p}" unfolding B r(2) using h'(4) by (auto simp: seg_blocks_def)
  then show "seg_ok (shmfree_desc p s) (B - {p})" using seg_ok_heap [OF ok hb' h'(4)] eq by simp
  show "\<exists>h. shmfree_desc p s = s\<lparr>hal_heap := h\<rparr>" using eq by blast
  have "finite A" using wf by (auto simp: wf_heap_def intro: wf_arena_finite)
  then have "sum (hsize (arena ?h)) A = hsize (arena ?h) r + sum (hsize (arena ?h)) (A - {r})"
    using r(1) by (simp add: sum.remove)
  then have "heap_avail h' = heap_avail ?h + 8 * hsize (arena ?h) r"
    using heap_avail_units [OF wf h'(2), of 0] h'(6) kept(1) by simp
  moreover have "2 \<le> hsize (arena ?h) r" using hb r(1) by (simp add: heap_below_def)
  ultimately show "heap_avail (hal_heap (shmfree_desc p s)) = heap_avail ?h + (desc_len s p + 8)"
    unfolding eq by (simp add: r(2) desc_len_def block_bytes_def)
  show "desc_kept s (shmfree_desc p s) (B - {p})"
    unfolding eq B' [symmetric] using kept(2) h'(4)
    by (auto simp: desc_kept_def seg_blocks_def desc_len_def block_bytes_def)
qed

section \<open>Realtime memory\<close>

definition rt_align :: "nat \<Rightarrow> nat" where
  "rt_align n = (if n \<ge> 8 then 8 else if n \<ge> 4 then 4 else if n = 2 then 2 else 1)"

lemma shmalloc_rt_eq:
  "shmalloc_rt n s =
     (let t = shmem_top s - int n; p = t - t mod int (rt_align n)
      in if p < shmem_bot s then halfail_null ENOMEM s
         else (s\<lparr>rt_alignment_loss := rt_alignment_loss s + nat (shmem_top s - p - int n),
                 shmem_top := p\<rparr>, Some (nat p)))"
proof -
  have "(if 8 \<le> n then x - x mod 8 else if 4 \<le> n then x - x mod 4 else if n = 2 then x - x mod 2 else x) =
      x - x mod int (rt_align n)" for x :: int
    by (simp add: rt_align_def)
  then show ?thesis unfolding shmalloc_rt_def Let_def by presburger
qed

lemma shmalloc_rt_cases:
  assumes "seg_ok s B"
  obtains (null) "shmalloc_rt n s = (halfail ENOMEM s, None)" "shmem_top s - int n < shmem_bot s + int (rt_align n)"
  | (block) p k where "shmalloc_rt n s = (s\<lparr>rt_alignment_loss := k, shmem_top := int p\<rparr>, Some p)"
      "shmem_bot s \<le> int p" "int p + int n \<le> shmem_top s" "shmem_top s - int n - int p < int (rt_align n)"
      "rt_align n dvd p" "seg_ok (s\<lparr>rt_alignment_loss := k, shmem_top := int p\<rparr>) B"
proof -
  define t where "t = shmem_top s - int n"
  define p where "p = t - t mod int (rt_align n)"
  have a: "0 < int (rt_align n)" by (simp add: rt_align_def)
  have p: "p \<le> t" "t - p < int (rt_align n)" "int (rt_align n) dvd p"
    using a by (simp_all add: p_def dvd_minus_mod)
  have eq: "shmalloc_rt n s = (if p < shmem_bot s then halfail_null ENOMEM s
         else (s\<lparr>rt_alignment_loss := rt_alignment_loss s + nat (shmem_top s - p - int n),
                 shmem_top := p\<rparr>, Some (nat p)))"
    unfolding shmalloc_rt_eq Let_def t_def p_def ..
  show thesis
  proof (cases "p < shmem_bot s")
    case True
    then show ?thesis using null eq p(2) by (simp add: halfail_null_def t_def)
  next
    case False
    have bot: "0 \<le> shmem_bot s" using assms by (simp add: seg_ok_def heap_sizeof_def)
    have np: "int (nat p) = p" using False bot by simp
    have "rt_align n dvd nat p" using p(3) np by (metis int_dvd_int_iff)
    moreover have "seg_ok (s\<lparr>rt_alignment_loss := k, shmem_top := int (nat p)\<rparr>) B" for k
      using assms False p(1) np unfolding seg_ok_def t_def by auto
    moreover have "shmalloc_rt n s = (s\<lparr>rt_alignment_loss := rt_alignment_loss s + nat (shmem_top s - p - int n),
        shmem_top := int (nat p)\<rparr>, Some (nat p))"
      unfolding eq np using False by (rule if_not_P)
    ultimately show ?thesis
      using block False p(1,2) np unfolding t_def by (metis add.commute diff_diff_eq2 le_diff_eq not_le)
  qed
qed

section \<open>Properties of the segment\<close>

text \<open>C16: Descriptor allocation always returns. When no free block of the heap
  can hold the request, the heap first grows by half of the free area between
  it and the realtime data (rounded up to a cache line, or not at all when less
  than \<open>HAL_HEAP_MINFREE\<close> bytes are left); it never grows otherwise. \<open>NULL\<close> is
  returned only when no free block can hold the request even then. Otherwise
  the descriptor has at least the requested bytes, lies below \<open>shmem_bot\<close> and
  overlaps no live descriptor, and all of those keep their length. The free
  bytes of the heap are accounted for exactly, and nothing but the heap, its
  upper bound and the error variable changes.\<close>

theorem shmalloc_desc_correct:
  assumes "seg_ok s B" "1 \<le> n" "n + 7 < 2 ^ 64"
  shows "\<exists>s' r g. shmalloc_desc n s = (s', r) \<and> seg_frame s s' \<and>
    g = (if heap_fits (hal_heap s) n then 0 else heap_growth s) \<and>
    shmem_bot s' = shmem_bot s + int g \<and> shmem_bot s' \<le> shmem_top s' \<and> shmem_top s' = shmem_top s \<and>
    heap_avail (hal_heap s') + (if r = None then 0 else 8 * heap_nunits n) = heap_avail (hal_heap s) + g \<and>
    (case r of None \<Rightarrow> seg_ok s' B \<and> \<not> heap_fits (hal_heap s) n \<and> \<not> heap_fits (hal_heap s') n
     | Some p \<Rightarrow> p \<notin> B \<and> seg_ok s' (insert p B) \<and> n \<le> desc_len s' p \<and> int (p + desc_len s' p) \<le> shmem_bot s' \<and>
         (\<forall>q\<in>B. p + desc_len s' p \<le> q \<or> q + desc_len s q \<le> p)) \<and>
    (\<forall>q\<in>B. desc_len s' q = desc_len s q)"
proof -
  have fr: "shmem_top s' = shmem_top s" if "seg_frame s s'" for s' using that by (auto simp: seg_frame_def)
  have le: "shmem_bot s' \<le> shmem_top s'" if "seg_ok s' B'" for s' B' using that by (simp add: seg_ok_def)
  show ?thesis
  proof (rule shmalloc_desc_cases [OF assms])
    fix s'
    assume *: "shmalloc_desc n s = (s', None)" "seg_ok s' B" "seg_frame s s'" "\<not> heap_fits (hal_heap s) n"
      "\<not> heap_fits (hal_heap s') n" "desc_kept s s' B"
      "shmem_bot s' = shmem_bot s + int (if heap_fits (hal_heap s) n then 0 else heap_growth s)"
      "heap_avail (hal_heap s') = heap_avail (hal_heap s) + (if heap_fits (hal_heap s) n then 0 else heap_growth s)"
    show ?thesis
      by (intro exI conjI) (use * fr [OF *(3)] le [OF *(2)] in \<open>auto simp: desc_kept_def\<close>)
  next
    fix s' p
    assume *: "shmalloc_desc n s = (s', Some p)" "p \<notin> B" "seg_ok s' (insert p B)" "seg_frame s s'"
      "desc_len s' p = 8 * (heap_nunits n - 1)" "desc_kept s s' B"
      "shmem_bot s' = shmem_bot s + int (if heap_fits (hal_heap s) n then 0 else heap_growth s)"
      "heap_avail (hal_heap s') + 8 * heap_nunits n =
         heap_avail (hal_heap s) + (if heap_fits (hal_heap s) n then 0 else heap_growth s)"
    have apart: "p + desc_len s' p \<le> q \<or> q + desc_len s q \<le> p" if "q \<in> B" for q
    proof -
      have "p < q \<or> q < p" using that *(2) by (cases p q rule: linorder_cases) auto
      then show ?thesis
        using seg_ok_desc_len(3) [OF *(3), of p q] seg_ok_desc_len(3) [OF *(3), of q p] that *(6)
        by (auto simp: desc_kept_def)
    qed
    have len: "n \<le> desc_len s' p" using heap_nunits_covers [OF assms(3)] *(5) by simp
    show ?thesis
      by (intro exI conjI)
        (use * fr [OF *(4)] le [OF *(3)] apart len seg_ok_desc_len(2) [OF *(3), of p] in \<open>auto simp: desc_kept_def\<close>)
  qed
qed

text \<open>Realtime memory is taken from the top of the free area: the returned
  block lies between the heap and the old top, is aligned to its size class,
  and wastes less than one alignment unit; \<open>NULL\<close> is returned only when the
  free area is too small for the block and its alignment.\<close>

theorem shmalloc_rt_correct:
  assumes "seg_ok s B"
  shows "(shmalloc_rt n s = (halfail ENOMEM s, None) \<and> shmem_top s - int n < shmem_bot s + int (rt_align n)) \<or>
    (\<exists>s' p. shmalloc_rt n s = (s', Some p) \<and> shmem_bot s \<le> int p \<and> int p + int n \<le> shmem_top s \<and>
       shmem_top s - int n - int p < int (rt_align n) \<and> rt_align n dvd p \<and> shmem_top s' = int p \<and>
       hal_heap s' = hal_heap s \<and> shmem_bot s' = shmem_bot s \<and> seg_ok s' B)"
  by (rule shmalloc_rt_cases [OF assms, of n]) auto

end
