(* ===== verification/Hal_Store.thy ===== *)
theory Hal_Store
  imports Hal_Object Hal_Segment
begin

text \<open>
  The store of HAL objects: every descriptor occupies a block of the HAL heap
  and its name a block of the global heap, and creating, listing, looking up,
  freeing and sweeping objects keeps this.
\<close>

section \<open>The invariant of the store\<close>

lemma calloc_live:
  assumes "heap_live h P" "n + 7 < 2 ^ 64"
  obtains (null) "rtapi_calloc h 1 n = Inr (h, None)"
  | (block) h' p where "rtapi_calloc h 1 n = Inr (h', Some p)" "p \<notin> P" "0 < p" "heap_live h' (insert p P)"
proof -
  obtain fs A where wf: "wf_heap h fs A" "P = (\<lambda>b. b + 8) ` A" using assms(1) unfolding heap_live_def by blast
  have n: "1 * n + 7 < 2 ^ 64" using assms(2) by simp
  show thesis
  proof (rule calloc_cases [OF wf(1) n])
    fix h' fs' r
    assume c: "rtapi_calloc h 1 n = Inr (h', Some (r + 8))" "wf_heap h' fs' (insert r A)" "r \<notin> A"
    have "insert (r + 8) P = (\<lambda>b. b + 8) ` insert r A" using wf(2) by simp
    then have "heap_live h' (insert (r + 8) P)" using c(2) unfolding heap_live_def by blast
    moreover have "r + 8 \<notin> P" using c(3) wf(2) by auto
    ultimately show thesis using block [OF c(1)] by simp
  qed (use null in simp)
qed

definition name_ptr :: "hal \<Rightarrow> nat \<Rightarrow> nat" where
  "name_ptr s a = (case objs s a of None \<Rightarrow> 0 | Some ob \<Rightarrow> hh_name_ptr (hdr ob))"

definition names_ok :: "hal \<Rightarrow> nat set \<Rightarrow> bool" where
  "names_ok s G \<longleftrightarrow>
     heap_live (global_heap s) G \<and> (\<forall>a. name_ptr s a \<noteq> 0 \<longrightarrow> name_ptr s a \<in> G) \<and>
     (\<forall>a b. name_ptr s a \<noteq> 0 \<longrightarrow> name_ptr s a = name_ptr s b \<longrightarrow> a = b)"

definition store_ok :: "hal \<Rightarrow> bool" where
  "store_ok s \<longleftrightarrow>
     (\<exists>B. seg_ok s B \<and> dom (objs s) \<subseteq> B) \<and> (\<exists>G. names_ok s G) \<and>
     hal_descriptor_alignment s = 0 \<and> distinct (halobjects s) \<and> set (halobjects s) \<subseteq> dom (objs s)"

lemma store_okI:
  "seg_ok s B \<Longrightarrow> dom (objs s) \<subseteq> B \<Longrightarrow> names_ok s G \<Longrightarrow> hal_descriptor_alignment s = 0 \<Longrightarrow>
   distinct (halobjects s) \<Longrightarrow> set (halobjects s) \<subseteq> dom (objs s) \<Longrightarrow> store_ok s"
  unfolding store_ok_def by blast

text \<open>The fields that the creation of an object may change besides the objects.\<close>

definition create_frame :: "hal \<Rightarrow> hal \<Rightarrow> bool" where
  "create_frame s s' \<longleftrightarrow>
     (\<exists>e h b g n k ob. s' = s\<lparr>halerrno := e, hal_heap := h, shmem_bot := b, global_heap := g,
        next_handle := n, str_alloc := k, objs := ob\<rparr>)"

lemma create_frameI:
  "s' = s\<lparr>halerrno := e, hal_heap := h, shmem_bot := b, global_heap := g, next_handle := n,
     str_alloc := k, objs := ob\<rparr> \<Longrightarrow> create_frame s s'"
  unfolding create_frame_def by blast

lemma create_frame_trans: "create_frame s s1 \<Longrightarrow> create_frame s1 s2 \<Longrightarrow> create_frame s s2"
  unfolding create_frame_def by (elim exE) (simp, rule exI, rule exI, rule exI, rule exI, rule exI, rule exI, rule exI, rule hal.equality; simp)

lemma create_frame_fields [frame_simps]:
  assumes "create_frame s s'"
  shows "hal_attached s' = hal_attached s" "halobjects s' = halobjects s" "hal_threads s' = hal_threads s"
    "hal_lock s' = hal_lock s" "fault s' = fault s" "shmem_top s' = shmem_top s" "cells s' = cells s"
    "fentries s' = fentries s" "funct_entry_free s' = funct_entry_free s" "rtapi s' = rtapi s"
    "hal_descriptor_alignment s' = hal_descriptor_alignment s" "threads_running s' = threads_running s"
    "lib_module_id s' = lib_module_id s" "base_period s' = base_period s" "hal_size s' = hal_size s"
    "rtapi_build s' = rtapi_build s" "hal_shmem_base s' = hal_shmem_base s" "ring_hdrs s' = ring_hdrs s"
    "rings_map s' = rings_map s" "exact_base_period s' = exact_base_period s" "hal_pid s' = hal_pid s"
    "rtapi_app_pid s' = rtapi_app_pid s" "hal_thread_stack_size s' = hal_thread_stack_size s"
  using assms unfolding create_frame_def by auto

lemma seg_create_frame: "seg_frame s s' \<Longrightarrow> create_frame s s'"
  unfolding seg_frame_def
  by (elim exE) (rule create_frameI [where g = "global_heap s" and n = "next_handle s" and
      k = "str_alloc s" and ob = "objs s"], simp)

lemma create_frame_halfail: "create_frame s (halfail e s)"
  by (rule create_frameI [where e = "- e" and h = "hal_heap s" and b = "shmem_bot s" and
      g = "global_heap s" and n = "next_handle s" and k = "str_alloc s" and ob = "objs s"])
    (simp add: halfail_def)

section \<open>Creation of objects\<close>

text \<open>A state that differs from an intact one only in fields the invariant does
  not mention is intact.\<close>

lemma store_ok_cong:
  assumes "store_ok s" "hal_heap s' = hal_heap s" "shmem_bot s' = shmem_bot s" "shmem_top s' = shmem_top s"
    "hal_attached s' = hal_attached s" "global_heap s' = global_heap s"
    "hal_descriptor_alignment s' = hal_descriptor_alignment s" "halobjects s' = halobjects s"
    "\<And>a. map_option (\<lambda>ob. hh_name_ptr (hdr ob)) (objs s' a) = map_option (\<lambda>ob. hh_name_ptr (hdr ob)) (objs s a)"
  shows "store_ok s'"
proof -
  have dom: "dom (objs s') = dom (objs s)"
    using assms(9) by (auto simp: dom_def) (metis map_option_is_None not_None_eq)+
  have np: "name_ptr s' a = name_ptr s a" for a
    using assms(9) [of a] by (auto simp: name_ptr_def split: option.splits)
  have "seg_ok s' B = seg_ok s B" for B using assms(2-5) by (simp add: seg_ok_def)
  moreover have "names_ok s' G = names_ok s G" for G using assms(6) np by (simp add: names_ok_def)
  ultimately show ?thesis using assms(1,7,8) dom by (simp add: store_ok_def)
qed

lemma set_namefv_cases:
  assumes "names_ok s G"
  obtains (fail) e g where "hh_set_namefv hh str s = (s\<lparr>halerrno := e, global_heap := g\<rparr>, hh, - ENOMEM)"
      "heap_live g G"
  | (ok) p g where "hh_set_namefv hh str s =
        (s\<lparr>global_heap := g, str_alloc := str_alloc s + length str + 1\<rparr>,
         hh\<lparr>hh_name_ptr := p, hh_name_str := take 126 str\<rparr>, 0)"
      "p \<notin> G" "0 < p" "heap_live g (insert p G)" "length str \<le> 127"
proof (cases "length str > MAX_OBJECT_NAME_LEN")
  case True
  then have "hh_set_namefv hh str s = (s\<lparr>halerrno := - ENOMEM, global_heap := global_heap s\<rparr>, hh, - ENOMEM)"
    by (simp add: hh_set_namefv_def halfail_def)
  moreover have "heap_live (global_heap s) G" using assms by (simp add: names_ok_def)
  ultimately show ?thesis by (rule fail)
next
  case False
  then have len: "length str \<le> 127" by (simp add: MAX_OBJECT_NAME_LEN_def)
  have live: "heap_live (global_heap s) G" using assms by (simp add: names_ok_def)
  have n: "(length str + 1) + 7 < 2 ^ 64" using len by simp
  show ?thesis
  proof (rule calloc_live [OF live n])
    assume c: "rtapi_calloc (global_heap s) 1 (length str + 1) = Inr (global_heap s, None)"
    have "hh_set_namefv hh str s = (s\<lparr>halerrno := - ENOMEM, global_heap := global_heap s\<rparr>, hh, - ENOMEM)"
      using False c by (simp add: hh_set_namefv_def halfail_def)
    then show thesis using fail live by blast
  next
    fix g p
    assume c: "rtapi_calloc (global_heap s) 1 (length str + 1) = Inr (g, Some p)" "p \<notin> G" "0 < p"
      "heap_live g (insert p G)"
    have "hh_set_namefv hh str s = (s\<lparr>global_heap := g, str_alloc := str_alloc s + length str + 1\<rparr>,
         hh\<lparr>hh_name_ptr := p, hh_name_str := take 126 str\<rparr>, 0)"
      using False c(1) by (simp add: hh_set_namefv_def MAX_OBJECT_NAME_LEN_def)
    then show thesis using ok c len by blast
  qed
qed

text \<open>The header of a new object.\<close>

definition new_hdr :: "hal \<Rightarrow> nat \<Rightarrow> int \<Rightarrow> string \<Rightarrow> nat \<Rightarrow> halhdr" where
  "new_hdr s t owner str p =
     \<lparr>hh_id = to_s16 (to_s32 (next_handle s + 1)), hh_owner_id = to_s16 owner, hh_name_ptr = p,
      hh_name_str = take 126 str, hh_refcnt = 0, hh_legacy = False, hh_object_type = t mod 32,
      hh_valid = True, hh_rmb = False, hh_wmb = False\<rparr>"

lemma create_allocsize_bounds: "sz \<le> create_allocsize t sz" "create_allocsize t sz < sz + 64"
  using RTAPI_ALIGN_bounds [of "sz + 8"]
  by (auto simp: create_allocsize_def hdr_size_def RTAPI_CACHELINE_def)

lemma create_object_cases:
  assumes ok: "store_ok s" and sz: "1 \<le> sz" "sz < 2 ^ 32"
  obtains (none) s' where "halg_create_objectfv sz bd t owner str s = (s', None)" "store_ok s'"
      "create_frame s s'" "objs s' = objs s"
  | (some) s' new p where "halg_create_objectfv sz bd t owner str s = (s', Some new)" "store_ok s'"
      "create_frame s s'" "objs s new = None" "0 < new"
      "objs s' = (objs s)(new \<mapsto> \<lparr>hdr = new_hdr s t owner str p, body = bd\<rparr>)" "0 < p"
      "\<And>a. a \<in> dom (objs s) \<Longrightarrow> a + 16 \<le> new \<or> new + 16 \<le> a" "length str \<le> 127"
proof -
  obtain B G where B: "seg_ok s B" "dom (objs s) \<subseteq> B" and G: "names_ok s G"
    and rest: "hal_descriptor_alignment s = 0" "distinct (halobjects s)" "set (halobjects s) \<subseteq> dom (objs s)"
    using ok unfolding store_ok_def by blast
  let ?n = "create_allocsize t sz"
  have n: "1 \<le> ?n" "?n + 7 < 2 ^ 64" using create_allocsize_bounds(1) [of sz t] create_allocsize_bounds(2) [of t sz] sz by auto
  show thesis
  proof (rule shmalloc_desc_cases [OF B(1) n])
    fix s1 assume s1: "shmalloc_desc ?n s = (s1, None)" "seg_ok s1 B" "seg_frame s s1"
    have fr: "create_frame s (halfail ENOMEM s1)"
      by (rule create_frame_trans [OF seg_create_frame [OF s1(3)] create_frame_halfail])
    have eq: "objs s1 = objs s" "global_heap s1 = global_heap s" using s1(3) by (auto simp: seg_frame_def)
    have "store_ok (halfail ENOMEM s1)"
      using B(2) G rest s1(2) eq create_frame_fields [OF seg_create_frame [OF s1(3)]]
      unfolding store_ok_def names_ok_def name_ptr_def halfail_def by auto
    then show thesis
      using none [OF _ _ fr] s1(1) rest(1) eq
      by (simp add: halg_create_objectfv_def halfail_null_def) (simp add: halfail_def)
  next
    fix s1 new
    assume s1: "shmalloc_desc ?n s = (s1, Some new)" "new \<notin> B" "seg_ok s1 (insert new B)" "seg_frame s s1"
    have eq: "objs s1 = objs s" "global_heap s1 = global_heap s" "next_handle s1 = next_handle s"
      "str_alloc s1 = str_alloc s" using s1(4) by (auto simp: seg_frame_def)
    note fr1 = create_frame_fields [OF seg_create_frame [OF s1(4)]]
    define h where "h = to_s32 (next_handle s + 1)"
    define s2 where "s2 = s1\<lparr>next_handle := h\<rparr>"
    define hh where "hh = new_hdr s t owner [] 0"
    have hh: "(hh_set_owner_id owner (hh_set_id h (hh_set_object_type t zero_hdr)))\<lparr>hh_valid := True\<rparr> = hh"
      by (simp add: hh_def new_hdr_def zero_hdr_def hh_set_owner_id_def hh_set_id_def hh_set_object_type_def h_def)
    have init: "hh_init_hdrfv zero_hdr t owner str s1 = hh_set_namefv hh str s2"
      unfolding hh_init_hdrfv_def rtapi_next_handle_def Let_def eq h_def [symmetric] prod.case hh s2_def ..
    have G2: "names_ok s2 G" using G eq by (simp add: names_ok_def name_ptr_def s2_def)
    have new_out: "objs s new = None" using s1(2) B(2) by blast
    show thesis
    proof (rule set_namefv_cases [OF G2, of hh str])
      fix e g assume f: "hh_set_namefv hh str s2 = (s2\<lparr>halerrno := e, global_heap := g\<rparr>, hh, - ENOMEM)" "heap_live g G"
      let ?s3 = "s2\<lparr>halerrno := e, global_heap := g\<rparr>"
      have "seg_ok ?s3 (insert new B)" by (rule seg_ok_cong [OF s1(3)]) (simp_all add: s2_def)
      then have so: "seg_ok (shmfree_desc new ?s3) (insert new B - {new})"
        and sh: "\<exists>h. shmfree_desc new ?s3 = ?s3\<lparr>hal_heap := h\<rparr>"
        using shmfree_desc_ok [of ?s3 "insert new B" new] by simp_all
      obtain h' where h': "shmfree_desc new ?s3 = ?s3\<lparr>hal_heap := h'\<rparr>" using sh by blast
      have "insert new B - {new} = B" using s1(2) by simp
      moreover have "names_ok (?s3\<lparr>hal_heap := h'\<rparr>) G"
        using G f(2) eq by (simp add: names_ok_def name_ptr_def s2_def)
      moreover have "objs (?s3\<lparr>hal_heap := h'\<rparr>) = objs s" "halobjects (?s3\<lparr>hal_heap := h'\<rparr>) = halobjects s"
        "fault (?s3\<lparr>hal_heap := h'\<rparr>) = fault s"
        "hal_descriptor_alignment (?s3\<lparr>hal_heap := h'\<rparr>) = hal_descriptor_alignment s"
        using eq fr1 by (simp_all add: s2_def)
      ultimately have "store_ok (shmfree_desc new ?s3)"
        using so B(2) rest unfolding h' by (intro store_okI [of _ B G]) simp_all
      moreover have "create_frame s (shmfree_desc new ?s3)"
        unfolding h'
        by (rule create_frame_trans [OF seg_create_frame [OF s1(4)]],
            rule create_frameI [where e = e and g = g and n = h and h = h' and b = "shmem_bot s1"
              and k = "str_alloc s1" and ob = "objs s1"], simp add: s2_def)
      ultimately show thesis
        by (rule none [rotated]) (use s1(1) init f rest(1) eq h' in
          \<open>simp_all add: halg_create_objectfv_def s2_def\<close>)
    next
      fix p g
      assume o: "hh_set_namefv hh str s2 = (s2\<lparr>global_heap := g, str_alloc := str_alloc s2 + length str + 1\<rparr>,
         hh\<lparr>hh_name_ptr := p, hh_name_str := take 126 str\<rparr>, 0)"
        "p \<notin> G" "0 < p" "heap_live g (insert p G)" "length str \<le> 127"
      let ?ob = "\<lparr>hdr = new_hdr s t owner str p, body = bd\<rparr>"
      define s3 where "s3 = s2\<lparr>global_heap := g, str_alloc := str_alloc s2 + length str + 1,
        objs := (objs s)(new \<mapsto> ?ob)\<rparr>"
      have hh': "hh\<lparr>hh_name_ptr := p, hh_name_str := take 126 str\<rparr> = new_hdr s t owner str p"
        by (simp add: hh_def new_hdr_def)
      have cr: "halg_create_objectfv sz bd t owner str s = (s3, Some new)"
        using s1(1) init o(1) rest(1) eq hh' by (simp add: halg_create_objectfv_def s3_def s2_def)
      have fr: "create_frame s s3"
        unfolding s3_def s2_def
        by (rule create_frame_trans [OF seg_create_frame [OF s1(4)]],
            rule create_frameI [where e = "halerrno s1" and g = g and n = h and h = "hal_heap s1"
              and b = "shmem_bot s1" and k = "str_alloc s1 + length str + 1"
              and ob = "(objs s)(new \<mapsto> ?ob)"], simp)
      have seg3: "seg_ok s3 (insert new B)" by (rule seg_ok_cong [OF s1(3)]) (simp_all add: s3_def s2_def)
      have np: "name_ptr s3 a = (if a = new then p else name_ptr s a)" for a
        by (simp add: name_ptr_def s3_def new_hdr_def)
      have nG: "name_ptr s a \<noteq> 0 \<Longrightarrow> name_ptr s a \<in> G" for a using G by (simp add: names_ok_def)
      have "names_ok s3 (insert p G)"
        using G o(2-4) np nG unfolding names_ok_def by (auto simp: s3_def split: if_splits)
      then have st: "store_ok s3"
        using seg3 B(2) rest create_frame_fields [OF fr] unfolding store_ok_def by (auto simp: s3_def)
      have sp: "a + 16 \<le> new \<or> new + 16 \<le> a" if "a \<in> dom (objs s)" for a
      proof -
        have "a \<in> B" "a \<noteq> new" using that B(2) s1(2) by auto
        then show ?thesis using seg_ok_spaced [OF s1(3), of a new] seg_ok_spaced [OF s1(3), of new a]
          by (cases a new rule: linorder_cases) auto
      qed
      show thesis
        by (rule some [OF cr st fr new_out _ _ o(3) sp o(5)])
          (use seg_ok_block(1) [OF s1(3)] in \<open>simp_all add: s3_def\<close>)
    qed
  qed
qed

end
