(* ===== verification/Hal_Object_Correct.thy ===== *)
theory Hal_Object_Correct
  imports Hal_Store
begin

text \<open>
  Correctness of the object list of \<open>hal_object.c\<close>: lookups, insertion in name
  order, deletion and garbage collection.
\<close>

section \<open>Iteration\<close>

lemma find_Some_decomp:
  "List.find P xs = Some x \<Longrightarrow> \<exists>ys zs. xs = ys @ x # zs \<and> P x \<and> (\<forall>y\<in>set ys. \<not> P y)"
proof (induction xs)
  case (Cons a xs)
  show ?case
  proof (cases "P a")
    case True
    then show ?thesis using Cons.prems by (intro exI [of _ "[]"] exI [of _ xs]) auto
  next
    case False
    then obtain ys zs where "xs = ys @ x # zs" "P x" "\<forall>y\<in>set ys. \<not> P y"
      using Cons by auto
    then show ?thesis using False by (intro exI [of _ "a # ys"] exI [of _ zs]) simp
  qed
qed simp

lemma foreach_yield_match:
  "foreach_loop sel yield_match xs s u n =
     (case List.find (sel s) xs of None \<Rightarrow> (s, u, n) | Some a \<Rightarrow> (s, Some a, n + 1))"
  by (induction xs arbitrary: n) (auto simp: yield_match_def)

lemma foreach_find_previous:
  "foreach_loop sel (find_previous new) xs s u n =
     (let p = List.find (\<lambda>a. sel s a \<and> strcmp_less (ho_name s new) (ho_name s a)) xs
      in (s, if p = None then u else p, snd (snd (foreach_loop sel (find_previous new) xs s u n))))"
  by (induction xs arbitrary: n) (auto simp: find_previous_def Let_def split: option.splits)

definition selected :: "nat \<Rightarrow> string option \<Rightarrow> hal \<Rightarrow> nat \<Rightarrow> bool" where
  "selected t nm s a \<longleftrightarrow>
     ho_valid s a \<and> (t \<noteq> 0 \<longrightarrow> ho_object_type s a = t) \<and> (nm \<noteq> None \<longrightarrow> ho_name s a = the nm)"

lemma match_args_selected:
  "match_args (no_args\<lparr>fa_type := t, fa_name := nm\<rparr>) s a = selected t nm s a"
  by (auto simp: match_args_def match_ids_def no_args_def selected_def split: option.splits)

lemma match_args_type:
  "match_args (no_args\<lparr>fa_type := t\<rparr>) s a \<longleftrightarrow> ho_valid s a \<and> (t \<noteq> 0 \<longrightarrow> ho_object_type s a = t)"
  by (simp add: match_args_def match_ids_def no_args_def)

lemma find_by_name_eq:
  "halg_find_object_by_name t nm s = List.find (selected t nm s) (halobjects s)"
proof -
  have "match_args (no_args\<lparr>fa_type := t, fa_name := nm\<rparr>) s = selected t nm s"
    by (rule ext) (rule match_args_selected)
  then show ?thesis
    by (simp add: halg_find_object_by_name_def halg_foreach_def foreach_yield_match split: option.splits)
qed

lemma find_by_id_eq:
  "halg_find_object_by_id t i s =
     List.find (\<lambda>a. ho_valid s a \<and> (t \<noteq> 0 \<longrightarrow> ho_object_type s a = t) \<and> (i \<noteq> 0 \<longrightarrow> i = ho_id s a)) (halobjects s)"
proof -
  have "match_ids (no_args\<lparr>fa_type := t, fa_id := i\<rparr>) s =
      (\<lambda>a. ho_valid s a \<and> (t \<noteq> 0 \<longrightarrow> ho_object_type s a = t) \<and> (i \<noteq> 0 \<longrightarrow> i = ho_id s a))"
    by (rule ext) (simp add: match_ids_def no_args_def)
  then show ?thesis
    by (simp add: halg_find_object_by_id_def foreach_yield_match split: option.splits)
qed

lemma find_by_name_Some:
  assumes "halg_find_object_by_name t nm s = Some a"
  shows "a \<in> set (halobjects s)" "ho_valid s a" "t \<noteq> 0 \<Longrightarrow> ho_object_type s a = t"
    "nm = Some x \<Longrightarrow> ho_name s a = x"
  using assms by (auto simp: find_by_name_eq find_Some_iff selected_def)

lemma find_by_id_valid: "halg_find_object_by_id t i s = Some a \<Longrightarrow> ho_valid s a"
  by (auto simp: find_by_id_eq find_Some_iff)

section \<open>The order of names\<close>

lemma strcmp_less_irrefl [simp]: "\<not> strcmp_less xs xs"
  by (induction xs) auto

lemma strcmp_less_trans: "strcmp_less xs ys \<Longrightarrow> strcmp_less ys zs \<Longrightarrow> strcmp_less xs zs"
proof (induction xs ys arbitrary: zs rule: strcmp_less.induct)
  case (4 x xs y ys)
  then show ?case by (cases zs) (auto split: if_splits)
next
  case (2 y ys)
  then show ?case by (cases zs) auto
qed simp_all

lemma strcmp_less_linear: "strcmp_less xs ys \<or> xs = ys \<or> strcmp_less ys xs"
proof (induction xs ys rule: strcmp_less.induct)
  case (4 x xs y ys)
  have "x \<noteq> y \<Longrightarrow> (of_char x :: nat) < of_char y \<or> (of_char y :: nat) < of_char x"
    using of_char_eq_iff [of x y, where ?'a = nat] by (metis linorder_neqE)
  then show ?case using 4 by auto
qed auto

section \<open>Insertion\<close>

definition by_name :: "hal \<Rightarrow> nat \<Rightarrow> nat \<Rightarrow> bool" where
  "by_name s a b \<longleftrightarrow> \<not> strcmp_less (ho_name s b) (ho_name s a)"

definition live_of_type :: "hal \<Rightarrow> nat \<Rightarrow> nat list" where
  "live_of_type s t = filter (\<lambda>a. ho_valid s a \<and> ho_object_type s a = t) (halobjects s)"

definition sorted_by_name :: "hal \<Rightarrow> bool" where
  "sorted_by_name s \<longleftrightarrow> (\<forall>t. sorted_wrt (by_name s) (live_of_type s t))"

lemma ho_halobjects [simp]:
  "ho_valid (s\<lparr>halobjects := l\<rparr>) = ho_valid s" "ho_object_type (s\<lparr>halobjects := l\<rparr>) = ho_object_type s"
  "ho_name (s\<lparr>halobjects := l\<rparr>) = ho_name s" "by_name (s\<lparr>halobjects := l\<rparr>) = by_name s"
  by (auto simp: ho_valid_def ho_object_type_def ho_name_def by_name_def fun_eq_iff)

definition add_pos :: "nat \<Rightarrow> hal \<Rightarrow> nat option" where
  "add_pos new s = List.find (\<lambda>a. ho_valid s a \<and>
     (ho_object_type s new \<noteq> 0 \<longrightarrow> ho_object_type s a = ho_object_type s new) \<and>
     strcmp_less (ho_name s new) (ho_name s a)) (halobjects s)"

lemma add_object_eq:
  "halg_add_object new s = s\<lparr>halobjects := list_add_before new (add_pos new s) (halobjects s)\<rparr>"
proof -
  let ?args = "no_args\<lparr>fa_type := ho_object_type s new\<rparr>"
  have "List.find (\<lambda>a. match_args ?args s a \<and> strcmp_less (ho_name s new) (ho_name s a)) (halobjects s)
      = add_pos new s"
    unfolding add_pos_def match_args_type by (rule arg_cong2 [where f = List.find]) auto
  then show ?thesis
    unfolding halg_add_object_def halg_foreach_def
    by (subst foreach_find_previous) (simp add: Let_def split: prod.splits)
qed

text \<open>Where the new object goes: behind every object of its type whose name is
  not greater, and before all that follow.\<close>

lemma add_object_split:
  assumes "distinct (halobjects s)" "ho_object_type s new \<noteq> 0"
  obtains ys zs where "halobjects s = ys @ zs" "halobjects (halg_add_object new s) = ys @ new # zs"
    "\<And>y. y \<in> set ys \<Longrightarrow> ho_valid s y \<Longrightarrow> ho_object_type s y = ho_object_type s new \<Longrightarrow>
       \<not> strcmp_less (ho_name s new) (ho_name s y)"
    "zs = [] \<or> (\<exists>x xs. zs = x # xs \<and> ho_valid s x \<and> ho_object_type s x = ho_object_type s new \<and>
       strcmp_less (ho_name s new) (ho_name s x))"
proof (cases "add_pos new s")
  case None
  then have "halobjects (halg_add_object new s) = halobjects s @ [new]"
    by (simp add: add_object_eq list_add_before_def)
  moreover have "\<not> strcmp_less (ho_name s new) (ho_name s y)"
    if "y \<in> set (halobjects s)" "ho_valid s y" "ho_object_type s y = ho_object_type s new" for y
    using None that assms(2) by (auto simp: add_pos_def find_None_iff)
  ultimately show ?thesis using that [of "halobjects s" "[]"] by simp
next
  case (Some x)
  then obtain ys zs where d: "halobjects s = ys @ x # zs" "ho_valid s x"
    "ho_object_type s x = ho_object_type s new" "strcmp_less (ho_name s new) (ho_name s x)"
    "\<And>y. y \<in> set ys \<Longrightarrow> ho_valid s y \<Longrightarrow> ho_object_type s y = ho_object_type s new \<Longrightarrow>
       \<not> strcmp_less (ho_name s new) (ho_name s y)"
    using assms(2) unfolding add_pos_def by (auto dest!: find_Some_decomp)
  have x: "x \<notin> set ys" using assms(1) d(1) by simp
  have "takeWhile (\<lambda>y. y \<noteq> x) (halobjects s) = ys" "dropWhile (\<lambda>y. y \<noteq> x) (halobjects s) = x # zs"
    using x unfolding d(1) by (induction ys) auto
  then have "halobjects (halg_add_object new s) = ys @ new # x # zs"
    using Some by (simp add: add_object_eq list_add_before_def)
  then show ?thesis using that [of ys "x # zs"] d by auto
qed

lemma add_object_set:
  assumes "distinct (halobjects s)" "ho_object_type s new \<noteq> 0" "new \<notin> set (halobjects s)"
  shows "set (halobjects (halg_add_object new s)) = insert new (set (halobjects s))"
    "distinct (halobjects (halg_add_object new s))"
  by (rule add_object_split [OF assms(1,2)], use assms in auto)+

lemma add_object_sorted:
  assumes "distinct (halobjects s)" "ho_object_type s new \<noteq> 0" "new \<notin> set (halobjects s)" "sorted_by_name s"
  shows "sorted_by_name (halg_add_object new s)"
proof -
  obtain ys zs where d: "halobjects s = ys @ zs" "halobjects (halg_add_object new s) = ys @ new # zs"
    "\<And>y. y \<in> set ys \<Longrightarrow> ho_valid s y \<Longrightarrow> ho_object_type s y = ho_object_type s new \<Longrightarrow>
       \<not> strcmp_less (ho_name s new) (ho_name s y)"
    "zs = [] \<or> (\<exists>x xs. zs = x # xs \<and> ho_valid s x \<and> ho_object_type s x = ho_object_type s new \<and>
       strcmp_less (ho_name s new) (ho_name s x))"
    using add_object_split [OF assms(1,2)] by metis
  have same: "ho_valid (halg_add_object new s) = ho_valid s" "by_name (halg_add_object new s) = by_name s"
    "ho_object_type (halg_add_object new s) = ho_object_type s"
    by (simp_all add: add_object_eq)
  show ?thesis
    unfolding sorted_by_name_def live_of_type_def same d(2)
  proof
    fix t
    let ?P = "\<lambda>a. ho_valid s a \<and> ho_object_type s a = t"
    have srt: "sorted_wrt (by_name s) (filter ?P ys @ filter ?P zs)"
      using assms(4) d(1) unfolding sorted_by_name_def live_of_type_def by (metis filter_append)
    have lo: "by_name s y new" if "?P new" "y \<in> set (filter ?P ys)" for y
      using that d(3) by (auto simp: by_name_def)
    have hi: "by_name s new z" if n: "?P new" and z: "z \<in> set (filter ?P zs)" for z
    proof -
      obtain x xs where x: "zs = x # xs" "?P x" "strcmp_less (ho_name s new) (ho_name s x)"
        using d(4) z n by auto
      have "x = z \<or> by_name s x z" using srt z x by (auto simp: sorted_wrt_append)
      then show ?thesis
        using x(3) strcmp_less_trans [of "ho_name s z" "ho_name s new" "ho_name s x"]
          strcmp_less_trans [of "ho_name s x" "ho_name s new" "ho_name s x"]
        by (auto simp: by_name_def)
    qed
    show "sorted_wrt (by_name s) (filter ?P (ys @ new # zs))"
    proof (cases "?P new")
      case True
      then show ?thesis using srt lo hi by (auto simp: sorted_wrt_append)
    next
      case False
      then show ?thesis using srt by auto
    qed
  qed
qed

section \<open>Deletion and garbage collection\<close>

lemma upd_obj_fields [frame_simps]:
  "halobjects (upd_obj a f s) = halobjects s" "hal_attached (upd_obj a f s) = hal_attached s"
  "hal_lock (upd_obj a f s) = hal_lock s" "fault (upd_obj a f s) = fault s"
  "hal_heap (upd_obj a f s) = hal_heap s" "global_heap (upd_obj a f s) = global_heap s"
  "shmem_bot (upd_obj a f s) = shmem_bot s" "shmem_top (upd_obj a f s) = shmem_top s"
  "hal_descriptor_alignment (upd_obj a f s) = hal_descriptor_alignment s"
  "cells (upd_obj a f s) = cells s" "fentries (upd_obj a f s) = fentries s"
  "halerrno (upd_obj a f s) = halerrno s" "hal_threads (upd_obj a f s) = hal_threads s"
  by (simp_all add: upd_obj_def)

lemma objs_upd_obj [frame_simps]:
  "objs (upd_obj a f s) = (objs s)(a := map_option f (objs s a))"
  by (simp add: upd_obj_def)

lemma store_ok_upd_obj:
  assumes "store_ok s" "\<And>ob. hh_name_ptr (hdr (f ob)) = hh_name_ptr (hdr ob)"
  shows "store_ok (upd_obj a f s)"
  by (rule store_ok_cong [OF assms(1)]) (simp_all add: frame_simps option.map_comp comp_def assms(2))

lemma free_object_eq:
  "halg_free_object a s =
     (if ho_refcnt s a \<noteq> 0 then (halfail EBUSY s, - EBUSY) else (upd_hdr a hh_clear_hdr s, 0))"
  by (simp add: halg_free_object_def halfail_rc_def)

lemma ho_clear_hdr:
  "ho_valid (upd_hdr a hh_clear_hdr s) b \<longleftrightarrow> b \<noteq> a \<and> ho_valid s b"
  by (auto simp: ho_valid_def upd_hdr_def frame_simps hh_clear_hdr_def split: option.splits)

lemma global_free_ok:
  assumes "names_ok s G" "p \<in> G"
  obtains g where "global_free p s = s\<lparr>global_heap := g\<rparr>" "heap_live g (G - {p})"
    "heap_avail g = heap_avail (global_heap s) + block_bytes (global_heap s) p"
    "\<forall>q\<in>G - {p}. block_bytes g q = block_bytes (global_heap s) q"
proof -
  obtain g where "rtapi_free (global_heap s) p = Inr g" "heap_live g (G - {p})"
    "heap_avail g = heap_avail (global_heap s) + block_bytes (global_heap s) p"
    "\<forall>q\<in>G - {p}. block_bytes g q = block_bytes (global_heap s) q"
    using free_live_avail [of "global_heap s" G p] assms unfolding names_ok_def by blast
  then show ?thesis using that by (simp add: global_free_def)
qed

lemma names_ok_cong:
  assumes "names_ok s G" "global_heap s' = global_heap s" "\<And>a. name_ptr s' a = name_ptr s a"
  shows "names_ok s' G"
  using assms(1) unfolding names_ok_def assms(2,3) .

lemma names_ok_remove:
  assumes ok: "names_ok s G" and live: "heap_live (global_heap s') G'" and G': "G - {name_ptr s a} \<subseteq> G'"
    and np: "\<And>b. name_ptr s' b = (if b = a then 0 else name_ptr s b)"
  shows "names_ok s' G'"
  unfolding names_ok_def
proof (intro conjI allI impI)
  have inj: "name_ptr s b \<noteq> 0 \<Longrightarrow> name_ptr s b = name_ptr s c \<Longrightarrow> b = c" for b c
    using ok unfolding names_ok_def by blast
  show "b = c" if "name_ptr s' b \<noteq> 0" "name_ptr s' b = name_ptr s' c" for b c
    using that inj [of b c] unfolding np by (metis (full_types))
  show "name_ptr s' b \<in> G'" if "name_ptr s' b \<noteq> 0" for b
  proof -
    have b: "b \<noteq> a" "name_ptr s b \<noteq> 0" "name_ptr s' b = name_ptr s b" using that unfolding np by (metis)+
    then have "name_ptr s b \<noteq> name_ptr s a" using inj [of b a] by blast
    moreover have "name_ptr s b \<in> G" using ok b(2) unfolding names_ok_def by blast
    ultimately show ?thesis using G' b(3) by auto
  qed
qed (rule live)

lemma heap_live_0: "heap_live h G \<Longrightarrow> 0 \<notin> G"
  unfolding heap_live_def by auto

text \<open>The bytes of the name of an object.\<close>

definition name_bytes :: "hal \<Rightarrow> nat \<Rightarrow> nat" where
  "name_bytes s a = (if name_ptr s a = 0 then 0 else block_bytes (global_heap s) (name_ptr s a))"

text \<open>What sweeping one object changes.\<close>

definition sweep_frame :: "hal \<Rightarrow> hal \<Rightarrow> bool" where
  "sweep_frame s s' \<longleftrightarrow>
     (\<exists>k g h l ob. s' = s\<lparr>str_freed := k, global_heap := g, hal_heap := h, halobjects := l, objs := ob\<rparr>)"

lemma sweep_frameI:
  "s' = s\<lparr>str_freed := k, global_heap := g, hal_heap := h, halobjects := l, objs := ob\<rparr> \<Longrightarrow> sweep_frame s s'"
  unfolding sweep_frame_def by blast

lemma sweep_frame_refl: "sweep_frame s s"
  by (rule sweep_frameI [where k = "str_freed s" and g = "global_heap s" and h = "hal_heap s"
      and l = "halobjects s" and ob = "objs s"]) simp

lemma sweep_frame_trans: "sweep_frame s s1 \<Longrightarrow> sweep_frame s1 s2 \<Longrightarrow> sweep_frame s s2"
  unfolding sweep_frame_def by (elim exE) (simp, rule exI, rule exI, rule exI, rule exI, rule exI, rule hal.equality; simp)

lemma sweep_one_ok:
  assumes ok: "store_ok s" and a: "a \<in> set (halobjects s)"
  shows "store_ok (sweep_one a s)" "objs (sweep_one a s) = (objs s)(a := None)"
    "halobjects (sweep_one a s) = remove1 a (halobjects s)" "sweep_frame s (sweep_one a s)"
    "heap_avail (hal_heap (sweep_one a s)) = heap_avail (hal_heap s) + (desc_len s a + 8)"
    "heap_avail (global_heap (sweep_one a s)) = heap_avail (global_heap s) + name_bytes s a"
    "b \<noteq> a \<Longrightarrow> b \<in> dom (objs s) \<Longrightarrow>
       desc_len (sweep_one a s) b = desc_len s b \<and> name_bytes (sweep_one a s) b = name_bytes s b"
proof -
  obtain B G where B: "seg_ok s B" "dom (objs s) \<subseteq> B" and G: "names_ok s G"
    and rest: "hal_descriptor_alignment s = 0" "distinct (halobjects s)" "set (halobjects s) \<subseteq> dom (objs s)"
    using ok unfolding store_ok_def by blast
  obtain ob where ob: "objs s a = Some ob" "a \<in> B" using a rest(3) B(2) by blast
  define p where "p = hh_name_ptr (hdr ob)"
  have np: "name_ptr s a = p" using ob by (simp add: name_ptr_def p_def)
  define s1 where "s1 = (if p \<noteq> 0
      then upd_hdr a (\<lambda>hh. hh\<lparr>hh_name_ptr := 0\<rparr>)
             (global_free p (s\<lparr>str_freed := str_freed s + length (hh_name_str (hdr ob)) + 1\<rparr>)) else s)"
  obtain k g where g: "objs s1 = (objs s)(a := objs s1 a)" "names_ok (s1\<lparr>objs := (objs s)(a := None)\<rparr>) (G - {p} - {0})"
    "s1 = s\<lparr>str_freed := k, global_heap := g, objs := objs s1\<rparr>"
    "heap_avail (global_heap s1) = heap_avail (global_heap s) + name_bytes s a"
    "\<forall>q\<in>G - {p}. block_bytes (global_heap s1) q = block_bytes (global_heap s) q"
  proof (cases "p = 0")
    case True
    then have s1: "s1 = s" by (simp add: s1_def)
    have "names_ok (s\<lparr>objs := (objs s)(a := None)\<rparr>) G"
      by (rule names_ok_remove [OF G, where a = a]) (use G in \<open>auto simp: names_ok_def name_ptr_def\<close>)
    moreover have "0 \<notin> G" using G by (auto simp: names_ok_def dest: heap_live_0)
    ultimately show ?thesis using that [where k = "str_freed s" and g = "global_heap s"] s1 True np
      by (simp add: name_bytes_def)
  next
    case False
    let ?s0 = "s\<lparr>str_freed := str_freed s + length (hh_name_str (hdr ob)) + 1\<rparr>"
    have "names_ok ?s0 G" using G by (simp add: names_ok_def name_ptr_def)
    moreover have "p \<in> G" using G np False by (auto simp: names_ok_def)
    ultimately obtain g where g: "global_free p ?s0 = ?s0\<lparr>global_heap := g\<rparr>" "heap_live g (G - {p})"
      "heap_avail g = heap_avail (global_heap s) + block_bytes (global_heap s) p"
      "\<forall>q\<in>G - {p}. block_bytes g q = block_bytes (global_heap s) q"
      using global_free_ok [of ?s0 G p] by auto
    have s1: "s1 = upd_hdr a (\<lambda>hh. hh\<lparr>hh_name_ptr := 0\<rparr>) (?s0\<lparr>global_heap := g\<rparr>)"
      using False g(1) by (simp add: s1_def)
    have "0 \<notin> G - {p}" using g(2) by (rule heap_live_0)
    then have G0: "G - {p} - {0} = G - {p}" by simp
    have npn: "name_ptr (s1\<lparr>objs := (objs s)(a := None)\<rparr>) b = (if b = a then 0 else name_ptr s b)" for b
      by (simp add: name_ptr_def)
    have gh: "global_heap (s1\<lparr>objs := (objs s)(a := None)\<rparr>) = g" "global_heap s1 = g"
      by (simp_all add: s1 upd_hdr_def upd_obj_def)
    then have "names_ok (s1\<lparr>objs := (objs s)(a := None)\<rparr>) (G - {p})"
      using names_ok_remove [OF G, of "s1\<lparr>objs := (objs s)(a := None)\<rparr>" "G - {p}" a] g(2) npn np by simp
    moreover have "heap_avail (global_heap s1) = heap_avail (global_heap s) + name_bytes s a"
      "\<forall>q\<in>G - {p}. block_bytes (global_heap s1) q = block_bytes (global_heap s) q"
      using g(3,4) False np by (simp_all add: gh(2) name_bytes_def)
    ultimately show ?thesis
      using that [where g = g and k = "str_freed s + length (hh_name_str (hdr ob)) + 1"]
      unfolding G0 s1 by (auto simp: upd_hdr_def upd_obj_def)
  qed
  define s2 where "s2 = s1\<lparr>halobjects := remove1 a (halobjects s1), objs := (objs s1)(a := None)\<rparr>"
  have sw: "sweep_one a s = shmfree_desc a s2"
    using ob unfolding sweep_one_def Let_def s2_def s1_def p_def by simp
  have o2: "objs s2 = (objs s)(a := None)" using g(1) unfolding s2_def by (simp) (metis fun_upd_upd)
  have f2: "halobjects s2 = remove1 a (halobjects s)" "hal_heap s2 = hal_heap s" "shmem_bot s2 = shmem_bot s"
    "shmem_top s2 = shmem_top s" "hal_attached s2 = hal_attached s" "fault s2 = fault s"
    "hal_descriptor_alignment s2 = hal_descriptor_alignment s"
    using arg_cong [OF g(3), of halobjects] arg_cong [OF g(3), of hal_heap] arg_cong [OF g(3), of shmem_bot]
      arg_cong [OF g(3), of shmem_top] arg_cong [OF g(3), of hal_attached] arg_cong [OF g(3), of fault]
      arg_cong [OF g(3), of hal_descriptor_alignment]
    by (simp_all add: s2_def)
  have "seg_ok s2 B" using B(1) f2 by (simp add: seg_ok_def)
  note fre = shmfree_desc_ok [OF this ob(2)]
  have seg: "seg_ok (sweep_one a s) (B - {a})" and fr: "\<exists>h. sweep_one a s = s2\<lparr>hal_heap := h\<rparr>"
    unfolding sw using fre(1,2) by blast+
  have dl: "desc_len s2 = desc_len s" by (simp add: fun_eq_iff desc_len_def f2)
  show "heap_avail (hal_heap (sweep_one a s)) = heap_avail (hal_heap s) + (desc_len s a + 8)"
    using fre(3) unfolding sw dl f2(2) .
  obtain h where h: "sweep_one a s = s2\<lparr>hal_heap := h\<rparr>" using fr by blast
  show obj: "objs (sweep_one a s) = (objs s)(a := None)" using h o2 by simp
  show hal: "halobjects (sweep_one a s) = remove1 a (halobjects s)" using h f2 by simp
  have gh: "global_heap (sweep_one a s) = global_heap s1" using h by (simp add: s2_def)
  then show "heap_avail (global_heap (sweep_one a s)) = heap_avail (global_heap s) + name_bytes s a" using g(4) by simp
  show "desc_len (sweep_one a s) b = desc_len s b \<and> name_bytes (sweep_one a s) b = name_bytes s b"
    if "b \<noteq> a" "b \<in> dom (objs s)"
  proof
    show "desc_len (sweep_one a s) b = desc_len s b"
      using fre(4) that B(2) unfolding sw dl by (auto simp: desc_kept_def dl)
    have "name_ptr (sweep_one a s) b = name_ptr s b" using that(1) by (simp add: name_ptr_def obj)
    moreover have "name_ptr s b \<in> G - {p}" if "name_ptr s b \<noteq> 0"
    proof -
      have "name_ptr s b \<in> G" "name_ptr s b = name_ptr s a \<Longrightarrow> b = a"
        using G that unfolding names_ok_def by blast+
      then show ?thesis using \<open>b \<noteq> a\<close> np by auto
    qed
    ultimately show "name_bytes (sweep_one a s) b = name_bytes s b" using g(5) by (simp add: name_bytes_def gh)
  qed
  from gh have nam: "names_ok (sweep_one a s) (G - {p} - {0})"
    by (intro names_ok_cong [OF g(2)]) (simp_all add: name_ptr_def obj)
  have "fault (sweep_one a s) = fault s"
    "hal_descriptor_alignment (sweep_one a s) = hal_descriptor_alignment s" using h f2 by simp_all
  moreover have "dom (objs (sweep_one a s)) \<subseteq> B - {a}" using B(2) obj by auto
  moreover have "distinct (halobjects (sweep_one a s))" using rest hal by simp
  moreover have "set (halobjects (sweep_one a s)) \<subseteq> dom (objs (sweep_one a s))"
    using rest(2,3) unfolding hal obj by (auto simp: set_remove1_eq)
  ultimately show "store_ok (sweep_one a s)"
    using rest(1) by (intro store_okI [OF seg _ nam]) simp_all
  have "sweep_frame s s1"
    by (rule sweep_frameI [where k = k and g = g and h = "hal_heap s" and l = "halobjects s" and ob = "objs s1"])
      (simp add: g(3) [symmetric])
  moreover have "sweep_frame s1 (sweep_one a s)"
    unfolding h s2_def
    by (rule sweep_frameI [where k = "str_freed s1" and g = "global_heap s1" and h = h
          and l = "remove1 a (halobjects s1)" and ob = "(objs s1)(a := None)"]) simp
  ultimately show "sweep_frame s (sweep_one a s)" by (rule sweep_frame_trans)
qed

text \<open>The loop removes exactly the invalid ones of the objects it visits.\<close>

lemma sweep_loop_ok:
  assumes "store_ok s" "set xs \<subseteq> set (halobjects s)" "distinct xs"
  defines "ys \<equiv> filter (\<lambda>a. \<not> ho_valid s a) xs"
  shows "\<exists>s'. sweep_loop xs s n = (s', n + int (length ys)) \<and> store_ok s' \<and>
     halobjects s' = filter (\<lambda>a. a \<notin> set xs \<or> ho_valid s a) (halobjects s) \<and>
     objs s' = (\<lambda>a. if a \<in> set xs \<and> \<not> ho_valid s a then None else objs s a) \<and> sweep_frame s s' \<and>
     heap_avail (hal_heap s') = heap_avail (hal_heap s) + sum_list (map (\<lambda>a. desc_len s a + 8) ys) \<and>
     heap_avail (global_heap s') = heap_avail (global_heap s) + sum_list (map (name_bytes s) ys)"
  using assms(1-3) unfolding ys_def
proof (induction xs arbitrary: s n)
  case Nil
  then show ?case by (auto simp: sweep_frame_refl)
next
  case (Cons a xs)
  show ?case
  proof (cases "ho_valid s a")
    case True
    then obtain s' where s': "sweep_loop xs s n = (s', n + int (length (filter (\<lambda>a. \<not> ho_valid s a) xs)))"
      "store_ok s'" "halobjects s' = filter (\<lambda>a. a \<notin> set xs \<or> ho_valid s a) (halobjects s)"
      "objs s' = (\<lambda>a. if a \<in> set xs \<and> \<not> ho_valid s a then None else objs s a)" "sweep_frame s s'"
      "heap_avail (hal_heap s') = heap_avail (hal_heap s) +
         sum_list (map (\<lambda>a. desc_len s a + 8) (filter (\<lambda>a. \<not> ho_valid s a) xs))"
      "heap_avail (global_heap s') = heap_avail (global_heap s) +
         sum_list (map (name_bytes s) (filter (\<lambda>a. \<not> ho_valid s a) xs))"
      using Cons.IH [of s n] Cons.prems by auto
    have "filter (\<lambda>x. x \<notin> set (a # xs) \<or> ho_valid s x) (halobjects s) = halobjects s'"
      unfolding s'(3) by (rule filter_cong) (use True in auto)
    moreover have "(\<lambda>x. if x \<in> set (a # xs) \<and> \<not> ho_valid s x then None else objs s x) = objs s'"
      unfolding s'(4) using True by (auto simp: fun_eq_iff)
    ultimately show ?thesis using True s'(1,2,5-7) by (intro exI [of _ s']) simp
  next
    case False
    let ?s1 = "sweep_one a s" and ?ys = "filter (\<lambda>a. \<not> ho_valid s a) xs"
    have a: "a \<in> set (halobjects s)" "a \<notin> set xs" using Cons.prems by auto
    note one = sweep_one_ok [OF Cons.prems(1) a(1)]
    have d: "distinct (halobjects s)" "set (halobjects s) \<subseteq> dom (objs s)"
      using Cons.prems(1) by (auto simp: store_ok_def)
    have val: "ho_valid ?s1 x \<longleftrightarrow> x \<noteq> a \<and> ho_valid s x" for x
      by (simp add: ho_valid_def one(2))
    have sub: "set xs \<subseteq> set (halobjects ?s1)"
      using Cons.prems(2) a(2) d unfolding one(3) by (auto simp: set_remove1_eq)
    have len: "filter (\<lambda>a. \<not> ho_valid ?s1 a) xs = ?ys"
    proof (rule filter_cong)
      show "(\<not> ho_valid ?s1 x) = (\<not> ho_valid s x)" if "x \<in> set xs" for x
        using val [of x] a(2) that by metis
    qed simp
    have bytes: "map (\<lambda>a. desc_len ?s1 a + 8) ?ys = map (\<lambda>a. desc_len s a + 8) ?ys"
      "map (name_bytes ?s1) ?ys = map (name_bytes s) ?ys"
    proof -
      have "desc_len ?s1 x = desc_len s x \<and> name_bytes ?s1 x = name_bytes s x" if "x \<in> set xs" for x
        using that Cons.prems(2) a(2) d(2) by (intro one(7)) auto
      then show "map (\<lambda>a. desc_len ?s1 a + 8) ?ys = map (\<lambda>a. desc_len s a + 8) ?ys"
        "map (name_bytes ?s1) ?ys = map (name_bytes s) ?ys" by simp_all
    qed
    obtain s' where s': "sweep_loop xs ?s1 (n + 1) = (s', n + 1 + int (length ?ys))"
      "store_ok s'" "halobjects s' = filter (\<lambda>a. a \<notin> set xs \<or> ho_valid ?s1 a) (halobjects ?s1)"
      "objs s' = (\<lambda>a. if a \<in> set xs \<and> \<not> ho_valid ?s1 a then None else objs ?s1 a)" "sweep_frame ?s1 s'"
      "heap_avail (hal_heap s') = heap_avail (hal_heap ?s1) + sum_list (map (\<lambda>a. desc_len s a + 8) ?ys)"
      "heap_avail (global_heap s') = heap_avail (global_heap ?s1) + sum_list (map (name_bytes s) ?ys)"
      using Cons.IH [OF one(1) sub, of "n + 1"] Cons.prems(3) unfolding len bytes by auto
    have "halobjects s' = filter (\<lambda>x. x \<notin> set (a # xs) \<or> ho_valid s x) (halobjects s)"
      unfolding s'(3) one(3) distinct_remove1_removeAll [OF d(1)] removeAll_filter_not_eq filter_filter
      by (rule filter_cong) (use val False in auto)
    moreover have "objs s' = (\<lambda>x. if x \<in> set (a # xs) \<and> \<not> ho_valid s x then None else objs s x)"
      unfolding s'(4) one(2) using val False by (auto simp: fun_eq_iff)
    moreover have "sweep_frame s s'" using one(4) s'(5) by (rule sweep_frame_trans)
    ultimately show ?thesis using False s'(1,2,6,7) one(5,6) by (intro exI [of _ s']) simp
  qed
qed

section \<open>Properties of the object store\<close>

text \<open>A lookup by name and type returns a listed, valid object of that type
  and name, and it returns \<open>NULL\<close> exactly when there is none.\<close>

theorem halg_find_object_by_name_correct:
  assumes "t \<noteq> 0"
  shows "case halg_find_object_by_name t (Some nm) s of
      None \<Rightarrow> \<nexists>a. a \<in> set (halobjects s) \<and> ho_valid s a \<and> ho_object_type s a = t \<and> ho_name s a = nm
    | Some b \<Rightarrow> b \<in> set (halobjects s) \<and> ho_valid s b \<and> ho_object_type s b = t \<and> ho_name s b = nm"
  using assms
  by (auto simp: find_by_name_eq find_None_iff find_Some_iff selected_def split: option.splits)

text \<open>C15: Creating an object on an intact store either fails, and then leaves all
  objects as they are, or yields a descriptor at a fresh offset, at least 16
  bytes from every other descriptor, with a valid header that holds the type,
  the owner and the name, no references, and the next handle as identifier. In
  both cases the store stays intact and the object list is unchanged.\<close>

theorem halg_create_object_correct:
  assumes "store_ok s" "1 \<le> sz" "sz < 2 ^ 32"
  shows "\<exists>s' r. halg_create_objectfv sz bd t owner str s = (s', r) \<and> store_ok s' \<and> create_frame s s' \<and>
    (case r of None \<Rightarrow> objs s' = objs s
     | Some new \<Rightarrow> objs s new = None \<and> (\<forall>a\<in>dom (objs s). a + 16 \<le> new \<or> new + 16 \<le> a) \<and>
         (\<exists>p. objs s' = (objs s)(new \<mapsto> \<lparr>hdr = new_hdr s t owner str p, body = bd\<rparr>) \<and> 0 < p))"
  by (rule create_object_cases [OF assms, of bd t owner str]) auto

text \<open>C13: Inserting an object into the list keeps the valid objects of each type
  in ascending order of their names, adds exactly that object and changes
  nothing else.\<close>

theorem halg_add_object_correct:
  assumes "distinct (halobjects s)" "ho_object_type s new \<noteq> 0" "new \<notin> set (halobjects s)" "sorted_by_name s"
  shows "sorted_by_name (halg_add_object new s) \<and> distinct (halobjects (halg_add_object new s)) \<and>
    set (halobjects (halg_add_object new s)) = insert new (set (halobjects s)) \<and>
    halg_add_object new s = s\<lparr>halobjects := halobjects (halg_add_object new s)\<rparr>"
  using add_object_sorted [OF assms] add_object_set [OF assms(1-3)] by (simp add: add_object_eq)

text \<open>C32: Freeing an object is refused with \<open>EBUSY\<close> while it is referenced, and
  then no object changes. Otherwise the object becomes invalid: no lookup by
  name or identifier finds it, and every other object stays as it is.\<close>

theorem halg_free_object_correct:
  "(ho_refcnt s a \<noteq> 0 \<and> halg_free_object a s = (halfail EBUSY s, - EBUSY)) \<or>
   (ho_refcnt s a = 0 \<and> (\<exists>s'. halg_free_object a s = (s', 0) \<and> halobjects s' = halobjects s \<and>
      (\<forall>b. b \<noteq> a \<longrightarrow> objs s' b = objs s b) \<and>
      (\<forall>t nm. halg_find_object_by_name t nm s' \<noteq> Some a) \<and> (\<forall>t i. halg_find_object_by_id t i s' \<noteq> Some a)))"
proof (cases "ho_refcnt s a = 0")
  case True
  let ?s' = "upd_hdr a hh_clear_hdr s"
  have "\<not> ho_valid ?s' a" by (simp add: ho_clear_hdr)
  then have "halg_find_object_by_name t nm ?s' \<noteq> Some a" "halg_find_object_by_id t i ?s' \<noteq> Some a" for t nm i
    using find_by_name_Some(2) find_by_id_valid by blast+
  then show ?thesis using True by (simp add: free_object_eq) (simp add: upd_hdr_def frame_simps)
qed (simp add: free_object_eq)

lemma hal_sweep_full:
  assumes "store_ok s"
  defines "xs \<equiv> filter (\<lambda>a. \<not> ho_valid s a) (halobjects s)"
  shows "\<exists>s'. hal_sweep s = (s', int (length xs)) \<and> store_ok s' \<and>
     halobjects s' = filter (ho_valid s) (halobjects s) \<and>
     objs s' = (\<lambda>a. if a \<in> set (halobjects s) \<and> \<not> ho_valid s a then None else objs s a) \<and>
     heap_avail (hal_heap s') = heap_avail (hal_heap s) + sum_list (map (\<lambda>a. desc_len s a + 8) xs) \<and>
     heap_avail (global_heap s') = heap_avail (global_heap s) + sum_list (map (name_bytes s) xs)"
proof -
  have "distinct (halobjects s)" using assms(1) by (simp add: store_ok_def)
  moreover have "filter (\<lambda>a. a \<notin> set (halobjects s) \<or> ho_valid s a) (halobjects s) =
      filter (ho_valid s) (halobjects s)"
    by (rule filter_cong) auto
  ultimately show ?thesis
    using sweep_loop_ok [OF assms(1) subset_refl, of 0] unfolding hal_sweep_def xs_def by auto
qed

lemma hal_sweep_effect:
  assumes "store_ok s"
  shows "\<exists>s'. hal_sweep s = (s', int (length (filter (\<lambda>a. \<not> ho_valid s a) (halobjects s)))) \<and> store_ok s' \<and>
     halobjects s' = filter (ho_valid s) (halobjects s) \<and>
     objs s' = (\<lambda>a. if a \<in> set (halobjects s) \<and> \<not> ho_valid s a then None else objs s a)"
  using hal_sweep_full [OF assms] by blast

text \<open>C11: The garbage collector terminates, removes exactly the invalid objects
  of the list and returns their number; valid objects and their order are
  untouched. The memory of every removed descriptor and of its name goes back:
  the free lists of the descriptor heap and of the global heap grow by exactly
  the bytes of the blocks of the removed objects, and both heaps stay intact.\<close>

theorem hal_sweep_correct:
  assumes "store_ok s"
  shows "\<exists>s' xs. hal_sweep s = (s', int (length xs)) \<and> store_ok s' \<and>
     xs = filter (\<lambda>a. \<not> ho_valid s a) (halobjects s) \<and> halobjects s' = filter (ho_valid s) (halobjects s) \<and>
     objs s' = (\<lambda>a. if a \<in> set xs then None else objs s a) \<and>
     heap_avail (hal_heap s') = heap_avail (hal_heap s) + sum_list (map (\<lambda>a. desc_len s a + 8) xs) \<and>
     heap_avail (global_heap s') = heap_avail (global_heap s) + sum_list (map (name_bytes s) xs)"
  using hal_sweep_full [OF assms] by (auto simp: set_filter)

end
