(* ===== verification/Hal_Link.thy ===== *)
theory Hal_Link
  imports Hal_Signal Hal_Object_Correct
begin

text \<open>
  The links between pins and signals. \<open>links_ok\<close> is the invariant of the
  network: a pin that is not linked uses its own dummy value, a linked one the
  value of a valid signal of its type, the reader, writer and bidirectional
  counts of a signal are the numbers of pins linked to it, and no signal has
  two writers. The operations that link, unlink and delete keep it, and act on
  the map from pins to signals as assignments and removals.
\<close>

section \<open>Pins and signals of a state\<close>

definition pin_body :: "hal_body \<Rightarrow> hal_pin option" where
  "pin_body bd = (case bd of Pin p \<Rightarrow> Some p | _ \<Rightarrow> None)"

definition sig_body :: "hal_body \<Rightarrow> hal_sig option" where
  "sig_body bd = (case bd of Sig x \<Rightarrow> Some x | _ \<Rightarrow> None)"

definition pin_at :: "hal \<Rightarrow> nat \<Rightarrow> hal_pin option" where
  "pin_at s a = (case objs s a of None \<Rightarrow> None | Some ob \<Rightarrow> pin_body (body ob))"

definition sig_at :: "hal \<Rightarrow> nat \<Rightarrow> hal_sig option" where
  "sig_at s a = (case objs s a of None \<Rightarrow> None | Some ob \<Rightarrow> sig_body (body ob))"

definition live :: "hal \<Rightarrow> nat set" where
  "live s = {a \<in> set (halobjects s). ho_valid s a}"

definition link_map :: "hal \<Rightarrow> nat \<Rightarrow> nat option" where
  "link_map s a = (case pin_at s a of None \<Rightarrow> None
     | Some p \<Rightarrow> if pin_signal p = 0 then None else Some (pin_signal p))"

text \<open>The pins linked to a signal with one of the given directions.\<close>

definition linked_pins :: "(nat \<Rightarrow> hal_pin option) \<Rightarrow> nat \<Rightarrow> nat set \<Rightarrow> nat set" where
  "linked_pins P g D = {a. \<exists>p. P a = Some p \<and> pin_signal p = g \<and> pin_dir p \<in> D}"

definition pin_ok :: "(nat \<Rightarrow> hal_sig option) \<Rightarrow> nat set \<Rightarrow> nat \<Rightarrow> hal_pin \<Rightarrow> bool" where
  "pin_ok S V a p \<longleftrightarrow> pin_dir p \<in> {HAL_IN, HAL_OUT, HAL_IO} \<and>
     (if pin_signal p = 0 then pin_data_ptr p = dummysig_of a
      else a \<in> V \<and> pin_signal p \<in> V \<and> pin_data_ptr p = value_of (pin_signal p) \<and>
        (\<exists>x. S (pin_signal p) = Some x \<and> sig_type x = pin_type p))"

definition link_types :: "nat set" where "link_types = {HAL_BIT, HAL_FLOAT, HAL_S32, HAL_U32}"

definition sig_ok :: "(nat \<Rightarrow> hal_pin option) \<Rightarrow> nat set \<Rightarrow> nat \<Rightarrow> hal_sig \<Rightarrow> bool" where
  "sig_ok P V g x \<longleftrightarrow> (g \<in> V \<longrightarrow> sig_type x \<in> link_types) \<and>
     sig_readers x = int (card (linked_pins P g {HAL_IN, HAL_IO})) \<and>
     sig_writers x = int (card (linked_pins P g {HAL_OUT})) \<and>
     sig_bidirs x = int (card (linked_pins P g {HAL_IO})) \<and>
     sig_writers x \<le> 1 \<and> (sig_writers x = 1 \<longrightarrow> sig_bidirs x = 0)"

definition links_wf :: "(nat \<Rightarrow> hal_pin option) \<Rightarrow> (nat \<Rightarrow> hal_sig option) \<Rightarrow> nat set \<Rightarrow> bool" where
  "links_wf P S V \<longleftrightarrow> finite (dom P) \<and> S 0 = None \<and>
     (\<forall>a p. P a = Some p \<longrightarrow> pin_ok S V a p) \<and> (\<forall>g x. S g = Some x \<longrightarrow> sig_ok P V g x)"

definition typed_objs :: "hal \<Rightarrow> bool" where
  "typed_objs s \<longleftrightarrow> objs s 0 = None \<and>
     (\<forall>a ob. objs s a = Some ob \<longrightarrow>
        (hh_object_type (hdr ob) = HAL_PIN \<longleftrightarrow> pin_body (body ob) \<noteq> None) \<and>
        (hh_object_type (hdr ob) = HAL_SIGNAL \<longleftrightarrow> sig_body (body ob) \<noteq> None))"

definition links_ok :: "hal \<Rightarrow> bool" where
  "links_ok s \<longleftrightarrow> store_ok s \<and> typed_objs s \<and> links_wf (pin_at s) (sig_at s) (live s)"

text \<open>When a pin may be linked to a signal, over the map of links alone.\<close>

definition may_link :: "hal \<Rightarrow> nat \<Rightarrow> nat \<Rightarrow> bool" where
  "may_link s pin sig \<longleftrightarrow> link_map s pin = Some sig \<or>
     link_map s pin = None \<and> map_option pin_type (pin_at s pin) = map_option sig_type (sig_at s sig) \<and>
     (map_option pin_dir (pin_at s pin) = Some HAL_OUT \<longrightarrow> linked_pins (pin_at s) sig {HAL_OUT, HAL_IO} = {}) \<and>
     (map_option pin_dir (pin_at s pin) = Some HAL_IO \<longrightarrow> linked_pins (pin_at s) sig {HAL_OUT} = {})"

definition link_request :: "hal \<Rightarrow> string option \<Rightarrow> string option \<Rightarrow> (nat \<times> nat) option" where
  "link_request s pn sn =
     (if hal_attached s \<and> \<not> locked HAL_LOCK_CONFIG s \<and> \<not> bad_str pn HAL_NAME_LEN \<and> \<not> bad_str sn HAL_NAME_LEN
      then case (halg_find_object_by_name HAL_PIN pn s, halg_find_object_by_name HAL_SIGNAL sn s) of
             (Some pin, Some sig) \<Rightarrow> if may_link s pin sig then Some (pin, sig) else None
           | _ \<Rightarrow> None
      else None)"

lemma body_simps [simp]:
  "pin_body (Pin p) = Some p" "sig_body (Sig x) = Some x" "pin_body (Sig x) = None" "sig_body (Pin p) = None"
  by (simp_all add: pin_body_def sig_body_def)

lemma pin_body_eq: "pin_body bd = Some p \<longleftrightarrow> bd = Pin p"
  by (cases bd) (simp_all add: pin_body_def)

lemma sig_body_eq: "sig_body bd = Some x \<longleftrightarrow> bd = Sig x"
  by (cases bd) (simp_all add: sig_body_def)

lemma pin_of_at: "pin_at s a = Some p \<Longrightarrow> pin_of s a = p"
  by (cases "objs s a") (simp_all add: pin_at_def pin_of_def pin_body_eq)

lemma sig_of_at: "sig_at s a = Some x \<Longrightarrow> sig_of s a = x"
  by (cases "objs s a") (simp_all add: sig_at_def sig_of_def sig_body_eq)

named_theorems link_simps \<open>pins, signals and live objects after a change of the state\<close>

lemma upd_pin_body:
  fixes ob :: hal_object and f :: "hal_pin \<Rightarrow> hal_pin"
  defines "ob' \<equiv> (case body ob of Pin p \<Rightarrow> ob\<lparr>body := Pin (f p)\<rparr> | _ \<Rightarrow> ob)"
  shows "pin_body (body ob') = map_option f (pin_body (body ob))" "sig_body (body ob') = sig_body (body ob)"
    "hdr ob' = hdr ob"
  unfolding ob'_def by (cases "body ob"; simp add: pin_body_def sig_body_def)+

lemma upd_sig_body:
  fixes ob :: hal_object and f :: "hal_sig \<Rightarrow> hal_sig"
  defines "ob' \<equiv> (case body ob of Sig p \<Rightarrow> ob\<lparr>body := Sig (f p)\<rparr> | _ \<Rightarrow> ob)"
  shows "sig_body (body ob') = map_option f (sig_body (body ob))" "pin_body (body ob') = pin_body (body ob)"
    "hdr ob' = hdr ob"
  unfolding ob'_def by (cases "body ob"; simp add: pin_body_def sig_body_def)+

lemma upd_obj_at:
  "pin_at (upd_obj a f s) b = (if b = a then Option.bind (objs s a) (\<lambda>ob. pin_body (body (f ob))) else pin_at s b)"
  "sig_at (upd_obj a f s) b = (if b = a then Option.bind (objs s a) (\<lambda>ob. sig_body (body (f ob))) else sig_at s b)"
  by (simp_all add: pin_at_def sig_at_def frame_simps split: option.splits)

lemma ho_upd_obj_hdr:
  assumes "\<And>ob. hdr (f ob) = hdr ob"
  shows "ho_valid (upd_obj a f s) = ho_valid s" "ho_object_type (upd_obj a f s) = ho_object_type s"
    "ho_name (upd_obj a f s) = ho_name s" "ho_legacy (upd_obj a f s) = ho_legacy s"
    "ho_id (upd_obj a f s) = ho_id s" "ho_owner_id (upd_obj a f s) = ho_owner_id s"
    "ho_refcnt (upd_obj a f s) = ho_refcnt s" "live (upd_obj a f s) = live s"
proof -
  show "ho_valid (upd_obj a f s) = ho_valid s" "ho_object_type (upd_obj a f s) = ho_object_type s"
    "ho_name (upd_obj a f s) = ho_name s" "ho_legacy (upd_obj a f s) = ho_legacy s"
    "ho_id (upd_obj a f s) = ho_id s" "ho_owner_id (upd_obj a f s) = ho_owner_id s"
    "ho_refcnt (upd_obj a f s) = ho_refcnt s"
    unfolding fun_eq_iff ho_valid_def ho_object_type_def ho_name_def ho_legacy_def ho_id_def ho_owner_id_def
      ho_refcnt_def
    by (simp_all add: frame_simps assms split: option.splits)
  then show "live (upd_obj a f s) = live s" by (simp add: live_def frame_simps)
qed

lemma at_bind:
  "pin_at s a = Option.bind (objs s a) (\<lambda>ob. pin_body (body ob))"
  "sig_at s a = Option.bind (objs s a) (\<lambda>ob. sig_body (body ob))"
  by (cases "objs s a"; simp add: pin_at_def sig_at_def)+

lemma upd_pin_at [link_simps]:
  "pin_at (upd_pin a f s) = (pin_at s)(a := map_option f (pin_at s a))"
  "sig_at (upd_pin a f s) = sig_at s" "live (upd_pin a f s) = live s"
proof -
  show "pin_at (upd_pin a f s) = (pin_at s)(a := map_option f (pin_at s a))"
    by (rule ext) (cases "objs s a"; simp add: upd_pin_def upd_obj_at upd_pin_body at_bind [of s a])
  show "sig_at (upd_pin a f s) = sig_at s"
    by (rule ext) (cases "objs s a"; simp add: upd_pin_def upd_obj_at upd_pin_body at_bind [of s a])
  show "live (upd_pin a f s) = live s" unfolding upd_pin_def by (rule ho_upd_obj_hdr) (rule upd_pin_body)
qed

lemma upd_sig_at [link_simps]:
  "pin_at (upd_sig a f s) = pin_at s"
  "sig_at (upd_sig a f s) = (sig_at s)(a := map_option f (sig_at s a))" "live (upd_sig a f s) = live s"
proof -
  show "pin_at (upd_sig a f s) = pin_at s"
    by (rule ext) (cases "objs s a"; simp add: upd_sig_def upd_obj_at upd_sig_body at_bind [of s a])
  show "sig_at (upd_sig a f s) = (sig_at s)(a := map_option f (sig_at s a))"
    by (rule ext) (cases "objs s a"; simp add: upd_sig_def upd_obj_at upd_sig_body at_bind [of s a])
  show "live (upd_sig a f s) = live s" unfolding upd_sig_def by (rule ho_upd_obj_hdr) (rule upd_sig_body)
qed

lemma objs_only_at:
  assumes "objs s' = objs s" "halobjects s' = halobjects s"
  shows "pin_at s' = pin_at s" "sig_at s' = sig_at s" "live s' = live s" "typed_objs s' = typed_objs s"
    "ho_valid s' = ho_valid s" "ho_object_type s' = ho_object_type s"
  using assms by (auto simp: pin_at_def sig_at_def live_def ho_valid_def typed_objs_def ho_object_type_def fun_eq_iff)

lemma other_at [link_simps]:
  "pin_at (set_cell d v s) = pin_at s" "sig_at (set_cell d v s) = sig_at s" "live (set_cell d v s) = live s"
  "pin_at (s\<lparr>fault := b\<rparr>) = pin_at s" "sig_at (s\<lparr>fault := b\<rparr>) = sig_at s" "live (s\<lparr>fault := b\<rparr>) = live s"
  "pin_at (hal_assert c s) = pin_at s" "sig_at (hal_assert c s) = sig_at s" "live (hal_assert c s) = live s"
  "pin_at (halfail e s) = pin_at s" "sig_at (halfail e s) = sig_at s" "live (halfail e s) = live s"
  "typed_objs (set_cell d v s) = typed_objs s" "typed_objs (s\<lparr>fault := b\<rparr>) = typed_objs s"
  "typed_objs (hal_assert c s) = typed_objs s" "typed_objs (halfail e s) = typed_objs s"
  by (rule objs_only_at; simp add: set_cell_def hal_assert_def halfail_def)+

section \<open>The network under linking and unlinking\<close>

lemma sig_counts_up_fields:
  assumes "dir \<in> {HAL_IN, HAL_OUT, HAL_IO}"
  shows "sig_readers (sig_counts_up dir x) = sig_readers x + of_bool (dir \<in> {HAL_IN, HAL_IO})"
    "sig_writers (sig_counts_up dir x) = sig_writers x + of_bool (dir = HAL_OUT)"
    "sig_bidirs (sig_counts_up dir x) = sig_bidirs x + of_bool (dir = HAL_IO)"
    "sig_type (sig_counts_up dir x) = sig_type x" "sig_value (sig_counts_up dir x) = sig_value x"
  using assms by (auto simp: sig_counts_up_def Let_def)

lemma sig_counts_down_fields:
  assumes "dir \<in> {HAL_IN, HAL_OUT, HAL_IO}"
  shows "sig_readers (sig_counts_down dir x) = sig_readers x - of_bool (dir \<in> {HAL_IN, HAL_IO})"
    "sig_writers (sig_counts_down dir x) = sig_writers x - of_bool (dir = HAL_OUT)"
    "sig_bidirs (sig_counts_down dir x) = sig_bidirs x - of_bool (dir = HAL_IO)"
    "sig_type (sig_counts_down dir x) = sig_type x" "sig_value (sig_counts_down dir x) = sig_value x"
  using assms by (auto simp: sig_counts_down_def Let_def)

lemma linked_pins_finite: "finite (dom P) \<Longrightarrow> finite (linked_pins P g D)"
  by (rule finite_subset [of _ "dom P"]) (auto simp: linked_pins_def)

lemma linked_pins_upd:
  assumes "P a = Some p" "pin_dir p' = pin_dir p"
  shows "linked_pins (P(a \<mapsto> p')) g D =
    (if pin_dir p \<in> D \<and> pin_signal p' = g then insert a (linked_pins P g D)
     else linked_pins P g D - (if pin_signal p' = g then {} else {a}))"
  using assms by (auto simp: linked_pins_def)

text \<open>The number of pins linked to a signal when one pin is linked to it or taken off.\<close>

lemma card_linked_pins:
  assumes "finite (dom P)" "P a = Some p" "pin_dir p' = pin_dir p"
  shows "int (card (linked_pins (P(a \<mapsto> p')) g D)) =
    int (card (linked_pins P g D)) + of_bool (pin_dir p \<in> D \<and> pin_signal p' = g)
      - of_bool (pin_dir p \<in> D \<and> pin_signal p = g)"
proof -
  have fin: "finite (linked_pins P g D)" by (rule linked_pins_finite [OF assms(1)])
  have mem: "a \<in> linked_pins P g D \<longleftrightarrow> pin_dir p \<in> D \<and> pin_signal p = g"
    using assms(2) by (auto simp: linked_pins_def)
  then have pos: "pin_dir p \<in> D \<Longrightarrow> pin_signal p = g \<Longrightarrow> 0 < card (linked_pins P g D)"
    using fin by (auto simp: card_gt_0_iff)
  show ?thesis
    unfolding linked_pins_upd [where P = P and a = a and p = p and p' = p', OF assms(2,3)]
    using fin mem pos by (auto simp: card_insert_if card_Diff_singleton_if of_nat_diff)
qed

lemma links_wf_link:
  assumes wf: "links_wf P S V" and p: "P a = Some p" "pin_signal p = 0" and x: "S g = Some x"
    and V: "a \<in> V" "g \<in> V" and ty: "pin_type p = sig_type x"
    and out: "pin_dir p = HAL_OUT \<longrightarrow> \<not> sig_writers x > 0 \<and> \<not> sig_bidirs x > 0"
    and io: "pin_dir p = HAL_IO \<longrightarrow> \<not> sig_writers x > 0"
    and p': "pin_dir p' = pin_dir p" "pin_type p' = pin_type p" "pin_signal p' = g" "pin_data_ptr p' = value_of g"
    and x': "sig_readers x' = sig_readers x" "sig_writers x' = sig_writers x" "sig_bidirs x' = sig_bidirs x"
      "sig_type x' = sig_type x"
  shows "links_wf (P(a \<mapsto> p')) (S(g \<mapsto> sig_counts_up (pin_dir p) x')) V"
proof -
  have fin: "finite (dom P)" and S0: "S 0 = None" using wf by (auto simp: links_wf_def)
  have g0: "g \<noteq> 0" using S0 x by (cases "g = 0") auto
  have pin: "pin_ok S V b q" if "P b = Some q" for b q using wf that by (auto simp: links_wf_def)
  have sig: "sig_ok P V h y" if "S h = Some y" for h y using wf that by (auto simp: links_wf_def)
  have dir: "pin_dir p \<in> {HAL_IN, HAL_OUT, HAL_IO}" using pin [OF p(1)] by (auto simp: pin_ok_def)
  note up = sig_counts_up_fields [OF dir, of x']
  note cards = card_linked_pins [OF fin p(1) p'(1), unfolded p(2) p'(3)]
  show ?thesis unfolding links_wf_def
  proof (intro conjI allI impI)
    show "finite (dom (P(a \<mapsto> p')))" using fin by simp
    show "(S(g \<mapsto> sig_counts_up (pin_dir p) x')) 0 = None" using S0 g0 by simp
    show "pin_ok (S(g \<mapsto> sig_counts_up (pin_dir p) x')) V b q" if "(P(a \<mapsto> p')) b = Some q" for b q
    proof (cases "b = a")
      case True
      then show ?thesis using that p' V ty dir up x' g0 by (auto simp: pin_ok_def)
    next
      case False
      then have "pin_ok S V b q" using that pin by simp
      then show ?thesis using up x' x by (auto simp: pin_ok_def)
    qed
    show "sig_ok (P(a \<mapsto> p')) V h y" if h: "(S(g \<mapsto> sig_counts_up (pin_dir p) x')) h = Some y" for h y
    proof (cases "h = g")
      case True
      then have y: "y = sig_counts_up (pin_dir p) x'" using h by simp
      have c: "sig_ok P V g x" by (rule sig [OF x])
      consider "pin_dir p = HAL_IN" | "pin_dir p = HAL_OUT" | "pin_dir p = HAL_IO" using dir by auto
      then show ?thesis
        by cases (use y c out io up x' g0 True cards [where g = g and D = "{HAL_IN, HAL_IO}"]
          cards [where g = g and D = "{HAL_OUT}"] cards [where g = g and D = "{HAL_IO}"]
          in \<open>auto simp: sig_ok_def\<close>)
    next
      case False
      then have "S h = Some y" "h \<noteq> 0" using h S0 by (auto intro: ccontr)
      then show ?thesis using sig [of h y] cards [where g = h] False by (auto simp: sig_ok_def)
    qed
  qed
qed

lemma links_wf_unlink:
  assumes wf: "links_wf P S V" and p: "P a = Some p" "pin_signal p \<noteq> 0" and x: "S (pin_signal p) = Some x"
    and p': "pin_dir p' = pin_dir p" "pin_signal p' = 0" "pin_data_ptr p' = dummysig_of a"
  shows "links_wf (P(a \<mapsto> p')) (S(pin_signal p \<mapsto> sig_counts_down (pin_dir p) x)) V"
proof -
  let ?g = "pin_signal p"
  have fin: "finite (dom P)" and S0: "S 0 = None" using wf by (auto simp: links_wf_def)
  have pin: "pin_ok S V b q" if "P b = Some q" for b q using wf that by (auto simp: links_wf_def)
  have sig: "sig_ok P V h y" if "S h = Some y" for h y using wf that by (auto simp: links_wf_def)
  have dir: "pin_dir p \<in> {HAL_IN, HAL_OUT, HAL_IO}" using pin [OF p(1)] by (auto simp: pin_ok_def)
  note dn = sig_counts_down_fields [OF dir, of x]
  note cards = card_linked_pins [OF fin p(1) p'(1), unfolded p'(2)]
  show ?thesis unfolding links_wf_def
  proof (intro conjI allI impI)
    show "finite (dom (P(a \<mapsto> p')))" using fin by simp
    show "(S(?g \<mapsto> sig_counts_down (pin_dir p) x)) 0 = None" using S0 p(2) by simp
    show "pin_ok (S(?g \<mapsto> sig_counts_down (pin_dir p) x)) V b q" if "(P(a \<mapsto> p')) b = Some q" for b q
    proof (cases "b = a")
      case True
      then show ?thesis using that p' dir by (auto simp: pin_ok_def)
    next
      case False
      then have "pin_ok S V b q" using that pin by simp
      then show ?thesis using dn x by (auto simp: pin_ok_def)
    qed
    show "sig_ok (P(a \<mapsto> p')) V h y" if h: "(S(?g \<mapsto> sig_counts_down (pin_dir p) x)) h = Some y" for h y
    proof (cases "h = ?g")
      case True
      then have y: "y = sig_counts_down (pin_dir p) x" using h by simp
      have c: "sig_ok P V ?g x" by (rule sig [OF x])
      have n: "0 \<le> int (card (linked_pins (P(a \<mapsto> p')) ?g D))" for D by simp
      consider "pin_dir p = HAL_IN" | "pin_dir p = HAL_OUT" | "pin_dir p = HAL_IO" using dir by auto
      then show ?thesis
        by cases (use y c n [of "{HAL_IO}"] dn p(2) True cards [where g = ?g and D = "{HAL_IN, HAL_IO}"]
          cards [where g = ?g and D = "{HAL_OUT}"] cards [where g = ?g and D = "{HAL_IO}"]
          in \<open>auto simp: sig_ok_def\<close>)
    next
      case False
      then have "S h = Some y" "h \<noteq> 0" using h S0 by (auto intro: ccontr)
      then show ?thesis using sig [of h y] cards [where g = h] False by (auto simp: sig_ok_def)
    qed
  qed
qed

lemma links_wfD:
  assumes "links_wf P S V"
  shows "finite (dom P)" "S 0 = None" "P a = Some p \<Longrightarrow> pin_ok S V a p" "S g = Some x \<Longrightarrow> sig_ok P V g x"
  using assms by (auto simp: links_wf_def)

lemma links_wfI:
  assumes "finite (dom P)" "S 0 = None" "\<And>a p. P a = Some p \<Longrightarrow> pin_ok S V a p"
    "\<And>g x. S g = Some x \<Longrightarrow> sig_ok P V g x"
  shows "links_wf P S V"
  using assms by (auto simp: links_wf_def)

lemma links_wf_restrict:
  assumes "links_wf P S V" "V' \<subseteq> V"
    "\<And>a p. P a = Some p \<Longrightarrow> pin_signal p \<noteq> 0 \<Longrightarrow> a \<in> V' \<and> pin_signal p \<in> V'"
  shows "links_wf P S V'"
proof (rule links_wfI)
  show "pin_ok S V' a p" if "P a = Some p" for a p
    using links_wfD(3) [OF assms(1) that] assms(3) [OF that] by (auto simp: pin_ok_def split: if_splits)
  show "sig_ok P V' g x" if "S g = Some x" for g x
    using links_wfD(4) [OF assms(1) that] assms(2) by (auto simp: sig_ok_def)
qed (use links_wfD [OF assms(1)] in auto)

text \<open>A new pin is not linked, a new signal has no pins.\<close>

lemma linked_pins_new: "P a = None \<Longrightarrow> pin_signal p \<noteq> g \<Longrightarrow> linked_pins (P(a \<mapsto> p)) g D = linked_pins P g D"
  by (auto simp: linked_pins_def)

lemma links_wf_new_pin:
  assumes "links_wf P S V" "P a = None" "pin_signal p = 0" "pin_data_ptr p = dummysig_of a"
    "pin_dir p \<in> {HAL_IN, HAL_OUT, HAL_IO}" "V \<subseteq> V'" "\<And>g. g \<in> V' \<Longrightarrow> S g \<noteq> None \<Longrightarrow> g \<in> V"
  shows "links_wf (P(a \<mapsto> p)) S V'"
proof (rule links_wfI)
  show "pin_ok S V' b q" if "(P(a \<mapsto> p)) b = Some q" for b q
    using links_wfD(3) [OF assms(1), of b q] assms that by (cases "b = a") (auto simp: pin_ok_def split: if_splits)
  show "sig_ok (P(a \<mapsto> p)) V' g x" if "S g = Some x" for g x
  proof -
    have "g \<noteq> 0" using that links_wfD(2) [OF assms(1)] by (cases "g = 0") auto
    then have "linked_pins (P(a \<mapsto> p)) g D = linked_pins P g D" for D
      using assms(2,3) by (intro linked_pins_new) auto
    then show ?thesis using links_wfD(4) [OF assms(1) that] assms(7) [of g] that by (auto simp: sig_ok_def)
  qed
qed (use links_wfD [OF assms(1)] in auto)

lemma links_wf_new_sig:
  assumes "links_wf P S V" "S g = None" "g \<noteq> 0" "sig_readers x = 0" "sig_writers x = 0" "sig_bidirs x = 0"
    "V \<subseteq> V'" "V' \<subseteq> insert g V" "g \<in> V' \<Longrightarrow> sig_type x \<in> link_types"
  shows "links_wf P (S(g \<mapsto> x)) V'"
proof (rule links_wfI)
  have "linked_pins P g D = {}" for D
    using links_wfD(3) [OF assms(1)] assms(2,3) by (fastforce simp: linked_pins_def pin_ok_def)
  then show "sig_ok P V' h y" if "(S(g \<mapsto> x)) h = Some y" for h y
    using links_wfD(4) [OF assms(1), of h y] assms that by (cases "h = g") (auto simp: sig_ok_def)
  show "pin_ok (S(g \<mapsto> x)) V' b q" if "P b = Some q" for b q
    using links_wfD(3) [OF assms(1) that] assms(2,7) by (auto simp: pin_ok_def split: if_splits)
qed (use links_wfD [OF assms(1)] assms(3) in auto)

section \<open>Changes of descriptors keep the store\<close>

lemma typed_objs_upd_obj:
  assumes "typed_objs s" "\<And>ob. hh_object_type (hdr (f ob)) = hh_object_type (hdr ob)"
    "\<And>ob. pin_body (body (f ob)) = None \<longleftrightarrow> pin_body (body ob) = None"
    "\<And>ob. sig_body (body (f ob)) = None \<longleftrightarrow> sig_body (body ob) = None"
  shows "typed_objs (upd_obj a f s)"
  unfolding typed_objs_def
proof (intro conjI allI impI)
  show "objs (upd_obj a f s) 0 = None" using assms(1) by (simp add: typed_objs_def frame_simps)
  fix b ob assume "objs (upd_obj a f s) b = Some ob"
  then obtain o0 where "objs s b = Some o0" "ob = o0 \<or> ob = f o0"
    by (auto simp: frame_simps split: if_splits)
  then show "(hh_object_type (hdr ob) = HAL_PIN) = (pin_body (body ob) \<noteq> None)"
    "(hh_object_type (hdr ob) = HAL_SIGNAL) = (sig_body (body ob) \<noteq> None)"
    using assms(1) unfolding typed_objs_def by (metis assms(2-4))+
qed

lemma upd_pin_store [link_simps]:
  "store_ok s \<Longrightarrow> store_ok (upd_pin a f s)" "typed_objs s \<Longrightarrow> typed_objs (upd_pin a f s)"
  "store_ok s \<Longrightarrow> store_ok (upd_sig a h s)" "typed_objs s \<Longrightarrow> typed_objs (upd_sig a h s)"
  unfolding upd_pin_def upd_sig_def
  by (auto intro!: store_ok_upd_obj typed_objs_upd_obj simp: upd_pin_body upd_sig_body)

lemma store_ok_other [link_simps]:
  "store_ok (set_cell d v s) = store_ok s" "store_ok (s\<lparr>fault := b\<rparr>) = store_ok s"
  "store_ok (hal_assert c s) = store_ok s" "store_ok (halfail e s) = store_ok s"
proof -
  have c: "store_ok s' = store_ok s"
    if "hal_heap s' = hal_heap s" "shmem_bot s' = shmem_bot s" "shmem_top s' = shmem_top s"
      "hal_attached s' = hal_attached s" "global_heap s' = global_heap s"
      "hal_descriptor_alignment s' = hal_descriptor_alignment s" "halobjects s' = halobjects s"
      "objs s' = objs s" for s s' :: hal
    using store_ok_cong [of s s'] store_ok_cong [of s' s] that by auto
  show "store_ok (set_cell d v s) = store_ok s" "store_ok (s\<lparr>fault := b\<rparr>) = store_ok s"
    "store_ok (hal_assert c s) = store_ok s" "store_ok (halfail e s) = store_ok s"
    by (rule c; simp add: set_cell_def hal_assert_def halfail_def)+
qed

text \<open>States that agree on everything the invariant speaks of.\<close>

definition same_links :: "hal \<Rightarrow> hal \<Rightarrow> bool" where
  "same_links s s' \<longleftrightarrow> pin_at s' = pin_at s \<and> sig_at s' = sig_at s \<and> live s' = live s \<and>
     (typed_objs s \<longrightarrow> typed_objs s') \<and> (store_ok s \<longrightarrow> store_ok s') \<and> halobjects s' = halobjects s"

lemma same_links_refl [simp]: "same_links s s" by (simp add: same_links_def)

lemma same_links_trans: "same_links s s1 \<Longrightarrow> same_links s1 s2 \<Longrightarrow> same_links s s2"
  by (simp add: same_links_def)

lemma same_links_ok: "same_links s s' \<Longrightarrow> links_ok s \<Longrightarrow> links_ok s'"
  by (simp add: same_links_def links_ok_def)

lemma same_links_map: "same_links s s' \<Longrightarrow> link_map s' = link_map s"
  by (simp add: same_links_def link_map_def fun_eq_iff)

lemma same_links_halfail [simp]: "same_links s (halfail e s)"
  by (simp add: same_links_def link_simps) (simp add: halfail_def)

lemma same_links_upd_hdr:
  assumes "\<And>hh. hh_valid (f hh) = hh_valid hh" "\<And>hh. hh_object_type (f hh) = hh_object_type hh"
    "\<And>hh. hh_name_ptr (f hh) = hh_name_ptr hh"
  shows "same_links s (upd_hdr a f s)"
proof -
  have "pin_at (upd_hdr a f s) = pin_at s" "sig_at (upd_hdr a f s) = sig_at s"
    by (rule ext, simp add: upd_hdr_def upd_obj_at at_bind [of s a])+
  moreover have "ho_valid (upd_hdr a f s) = ho_valid s"
    by (rule ext) (simp add: ho_valid_def upd_hdr_def frame_simps assms split: option.splits)
  moreover have "typed_objs s \<Longrightarrow> typed_objs (upd_hdr a f s)"
    unfolding upd_hdr_def by (rule typed_objs_upd_obj) (simp_all add: assms)
  moreover have "store_ok s \<Longrightarrow> store_ok (upd_hdr a f s)"
    unfolding upd_hdr_def by (rule store_ok_upd_obj) (simp_all add: assms)
  ultimately show ?thesis by (simp add: same_links_def live_def) (simp add: upd_hdr_def frame_simps)
qed

lemma propagate_barriers_same: "same_links s (fst (propagate_barriers_cb pin sig s u))"
proof -
  have r: "same_links s (upd_hdr a (hh_set_rmb b) s)" "same_links s (upd_hdr a (hh_set_wmb b) s)" for s a b
    by (rule same_links_upd_hdr; simp add: hh_set_rmb_def hh_set_wmb_def)+
  show ?thesis
    unfolding propagate_barriers_cb_def Let_def
    using r r(1) [THEN same_links_trans, OF r(2)] by (simp split del: if_split) (simp add: r)
qed

text \<open>An iteration whose callback keeps a transitive relation to the start state.\<close>

lemma foreach_loop_rel:
  assumes "\<And>s. R s s" "\<And>s t u. R s t \<Longrightarrow> R t u \<Longrightarrow> R s u"
    "\<And>a s u. a \<in> set xs \<Longrightarrow> sel s a \<Longrightarrow> R s (fst (cb a s u))"
  shows "R s (fst (foreach_loop sel cb xs s u n))"
  using assms(3)
proof (induction xs arbitrary: s u n)
  case (Cons a xs)
  obtain s1 u1 rc where cb: "cb a s u = (s1, u1, rc)" by (metis prod_cases3)
  have IH: "R s (fst (foreach_loop sel cb xs s u n))" for s u n using Cons by auto
  have "sel s a \<Longrightarrow> R s s1" using Cons.prems [of a s u] cb by simp
  then show ?case using IH cb assms(2) [of s s1] by auto
qed (simp add: assms(1))

lemma propagate_same: "same_links s (fst (halg_signal_propagate_barriers sig s))"
proof -
  have "same_links s (fst (halg_foreach args (pin_by_signal_callback sig (Some propagate_barriers_cb)) s ()))"
    for args
    unfolding halg_foreach_def
    by (rule foreach_loop_rel) (auto intro: same_links_trans simp: pin_by_signal_callback_def propagate_barriers_same)
  then show ?thesis by (simp add: halg_signal_propagate_barriers_def halfail_rc_def)
qed

section \<open>Linking\<close>

lemma find_pin:
  assumes "halg_find_object_by_name HAL_PIN nm s = Some a" "typed_objs s"
  obtains p where "pin_at s a = Some p" "a \<in> live s"
proof -
  note f = find_by_name_Some [OF assms(1)]
  then obtain ob where ob: "objs s a = Some ob" "hh_object_type (hdr ob) = HAL_PIN"
    by (auto simp: ho_valid_def ho_object_type_def split: option.splits)
  then have "pin_body (body ob) \<noteq> None" using assms(2) unfolding typed_objs_def by blast
  then show ?thesis using that f ob by (auto simp: pin_at_def live_def)
qed

lemma find_sig:
  assumes "halg_find_object_by_name HAL_SIGNAL nm s = Some a" "typed_objs s"
  obtains x where "sig_at s a = Some x" "a \<in> live s"
proof -
  note f = find_by_name_Some [OF assms(1)]
  then obtain ob where ob: "objs s a = Some ob" "hh_object_type (hdr ob) = HAL_SIGNAL"
    by (auto simp: ho_valid_def ho_object_type_def split: option.splits)
  then have "sig_body (body ob) \<noteq> None" using assms(2) unfolding typed_objs_def by blast
  then show ?thesis using that f ob by (auto simp: sig_at_def live_def)
qed

text \<open>The value of a signal is never the dummy value of a pin, since descriptors are apart.\<close>

lemma value_not_dummy:
  assumes "store_ok s" "pin_at s a = Some p" "sig_at s g = Some x"
  shows "value_of g \<noteq> dummysig_of a" "g \<noteq> a"
proof -
  obtain B where B: "seg_ok s B" "dom (objs s) \<subseteq> B" using assms(1) unfolding store_ok_def by blast
  have "a \<in> B" "g \<in> B" using assms(2,3) B(2) by (auto simp: pin_at_def sig_at_def split: option.splits)
  moreover show "g \<noteq> a" using assms(2,3)
    by (auto simp: pin_at_def sig_at_def pin_body_eq sig_body_eq split: option.splits)
  ultimately show "value_of g \<noteq> dummysig_of a"
    using seg_ok_spaced [OF B(1), of a g] seg_ok_spaced [OF B(1), of g a]
    by (auto simp: value_of_def dummysig_of_def)
qed

lemma links_ok_pin:
  assumes "links_ok s" "pin_at s a = Some p"
  shows "pin_is_linked s a \<longleftrightarrow> pin_signal p \<noteq> 0" "pin_ok (sig_at s) (live s) a p"
proof -
  show ok: "pin_ok (sig_at s) (live s) a p" using assms by (auto simp: links_ok_def links_wf_def)
  have "pin_of s a = p" by (rule pin_of_at [OF assms(2)])
  then show "pin_is_linked s a \<longleftrightarrow> pin_signal p \<noteq> 0"
    using ok assms value_not_dummy(1) [of s a p]
    by (auto simp: pin_is_linked_def pin_ok_def links_ok_def split: if_splits)
qed

lemma link_legacy_cell_same:
  "objs (link_legacy_cell pin sig s) = objs s" "same_links s (link_legacy_cell pin sig s)"
proof -
  show "objs (link_legacy_cell pin sig s) = objs s"
    by (simp add: link_legacy_cell_def set_cell_def hal_assert_def Let_def split: option.splits)
  show "same_links s (link_legacy_cell pin sig s)"
    by (simp add: link_legacy_cell_def same_links_def Let_def link_simps split: option.splits)
      (simp add: set_cell_def hal_assert_def)
qed

lemma sig_counts_up_value [simp]: "sig_value (sig_counts_up d x) = sig_value x"
  by (simp add: sig_counts_up_def Let_def)

lemma get_set_typed [simp]: "get_typed t (set_typed t h v) = get_typed t v"
  unfolding get_typed_def set_typed_def get_bit_value_def set_bit_value_def get_s32_value_def set_s32_value_def
    get_u32_value_def set_u32_value_def get_low_def set_low_def
  by (auto intro!: bit_word_eqI simp: bit_simps)

lemma get_get_typed [simp]: "get_typed t (get_typed t v) = get_typed t v"
  unfolding get_typed_def get_bit_value_def get_s32_value_def get_u32_value_def get_low_def
  by (auto intro!: bit_word_eqI simp: bit_simps)

lemma halg_link_cases:
  assumes ok: "links_ok s" and l: "halg_link pn sn s = (s', rc)"
  obtains (fail) "rc < 0" "same_links s s'" "link_request s pn sn = None"
  | (already) pin sig where "rc = 0" "s' = s" "link_request s pn sn = Some (pin, sig)"
      "halg_find_object_by_name HAL_PIN pn s = Some pin"
      "halg_find_object_by_name HAL_SIGNAL sn s = Some sig" "link_map s pin = Some sig"
  | (linked) pin sig p x where "rc = 0" "link_request s pn sn = Some (pin, sig)"
      "halg_find_object_by_name HAL_PIN pn s = Some pin"
      "halg_find_object_by_name HAL_SIGNAL sn s = Some sig" "link_map s pin = None"
      "pin_at s pin = Some p" "sig_at s sig = Some x" "pin_type p = sig_type x"
      "links_ok s'" "link_map s' = (link_map s)(pin \<mapsto> sig)" "halobjects s' = halobjects s"
      "\<exists>x'. sig_at s' sig = Some x' \<and> get_typed (pin_type p) (sig_value x') =
         (if pin_dir p = HAL_OUT \<or> sig_readers x + sig_writers x + sig_bidirs x = 0
          then get_typed (pin_type p) (pin_dummysig p) else get_typed (pin_type p) (sig_value x))"
proof -
  have st: "store_ok s" "typed_objs s" "links_wf (pin_at s) (sig_at s) (live s)"
    using ok by (auto simp: links_ok_def)
  show thesis
  proof (cases "\<not> hal_attached s \<or> locked HAL_LOCK_CONFIG s \<or> bad_str pn HAL_NAME_LEN \<or> bad_str sn HAL_NAME_LEN
      \<or> halg_find_object_by_name HAL_PIN pn s = None \<or> halg_find_object_by_name HAL_SIGNAL sn s = None")
    case True
    then show ?thesis using l fail
      by (auto simp: halg_link_def halfail_rc_def link_request_def split: if_splits option.splits)
  next
    case False
    then obtain pin sig where f: "halg_find_object_by_name HAL_PIN pn s = Some pin"
      "halg_find_object_by_name HAL_SIGNAL sn s = Some sig" by auto
    obtain p where p: "pin_at s pin = Some p" "pin \<in> live s" using find_pin [OF f(1) st(2)] .
    obtain x where x: "sig_at s sig = Some x" "sig \<in> live s" using find_sig [OF f(2) st(2)] .
    note pp = links_ok_pin [OF ok p(1)]
    have sig0: "sig \<noteq> 0" using st(3) x(1) by (cases "sig = 0") (auto simp: links_wf_def)
    have of: "pin_of s pin = p" "sig_of s sig = x" using pin_of_at sig_of_at p x by auto
    have lm: "link_map s pin = (if pin_signal p = 0 then None else Some (pin_signal p))"
      using p by (simp add: link_map_def)
    have ty: "sig_type x \<in> link_types" using st(3) x by (auto simp: links_wf_def sig_ok_def)
    have so: "sig_ok (pin_at s) (live s) sig x" using st(3) x by (auto simp: links_wf_def)
    have fin: "finite (linked_pins (pin_at s) sig D)" for D
      using st(3) linked_pins_finite by (auto simp: links_wf_def)
    let ?t = "pin_type p" and ?d = "pin_dir p"
    have un: "linked_pins (pin_at s) sig {HAL_OUT, HAL_IO} =
        linked_pins (pin_at s) sig {HAL_OUT} \<union> linked_pins (pin_at s) sig {HAL_IO}"
      by (auto simp: linked_pins_def)
    have req: "link_request s pn sn = (if may_link s pin sig then Some (pin, sig) else None)"
      using False f by (simp add: link_request_def)
    have ml: "may_link s pin sig \<longleftrightarrow> pin_linked_to s pin sig \<or> \<not> pin_is_linked s pin \<and> ?t = sig_type x \<and>
        \<not> (?d = HAL_OUT \<and> (sig_writers x > 0 \<or> sig_bidirs x > 0)) \<and> \<not> (?d = HAL_IO \<and> sig_writers x > 0)"
      using so sig0 fin unfolding may_link_def lm pp(1) un
      by (auto simp: p x sig_ok_def pin_linked_to_def of card_gt_0_iff)
    define inherit where "inherit \<longleftrightarrow> ?d = HAL_OUT \<or> sig_readers x + sig_writers x + sig_bidirs x = 0"
    define s1 where "s1 = link_legacy_cell pin sig s"
    define s2 where "s2 = upd_pin pin (\<lambda>p. p\<lparr>pin_data_ptr := value_of sig\<rparr>) s1"
    define s3 where "s3 = (if inherit then set_sig ?t sig (get_typed ?t (pin_value s2 pin)) s2 else s2)"
    define s5 where "s5 = set_signal pin sig (upd_sig sig (sig_counts_up ?d) s3)"
    have "halg_link pn sn s =
      (if pin_linked_to s pin sig then (s, 0)
       else if pin_is_linked s pin then halfail_rc EINVAL s
       else if ?t \<noteq> sig_type x then halfail_rc EINVAL s
       else if ?d = HAL_OUT \<and> (sig_writers x > 0 \<or> sig_bidirs x > 0) then halfail_rc EINVAL s
       else if ?d = HAL_IO \<and> sig_writers x > 0 then halfail_rc EINVAL s
       else if inherit \<and> ?t \<notin> {HAL_BIT, HAL_S32, HAL_U32, HAL_FLOAT} then halfail_rc EINVAL s2
       else (fst (halg_signal_propagate_barriers sig s5), 0))"
      using False f
      unfolding halg_link_def Let_def inherit_def s5_def s3_def s2_def s1_def of [symmetric]
      by (simp split del: if_split)
    then consider (a) "pin_linked_to s pin sig" "rc = 0" "s' = s"
      | (e) "rc = - EINVAL" "s' = halfail EINVAL s" "\<not> may_link s pin sig"
      | (ok) "\<not> pin_linked_to s pin sig" "\<not> pin_is_linked s pin" "?t = sig_type x"
          "\<not> (?d = HAL_OUT \<and> (sig_writers x > 0 \<or> sig_bidirs x > 0))"
          "\<not> (?d = HAL_IO \<and> sig_writers x > 0)"
          "rc = 0" "s' = fst (halg_signal_propagate_barriers sig s5)"
      using l ty by (auto simp: ml halfail_rc_def link_types_def split: if_splits)
    then show ?thesis
    proof cases
      case a
      then show ?thesis using already [OF _ _ _ f] lm of sig0 ml req by (auto simp: pin_linked_to_def)
    next
      case e
      then show ?thesis using fail req by simp
    next
      case ok
      have p0: "pin_signal p = 0" using ok(2) pp(1) by simp
      have c1: "pin_at s1 = pin_at s" "sig_at s1 = sig_at s" "live s1 = live s" "store_ok s1" "typed_objs s1"
        "halobjects s1 = halobjects s"
        using link_legacy_cell_same(2) [of s pin sig] st by (simp_all add: same_links_def s1_def)
      define x' where "x' = (if inherit then x\<lparr>sig_value := set_typed ?t (sig_value x) (get_typed ?t (pin_value s2 pin))\<rparr> else x)"
      have at5: "pin_at s5 = (pin_at s)(pin \<mapsto> p\<lparr>pin_data_ptr := value_of sig, pin_signal := sig\<rparr>)"
        "sig_at s5 = (sig_at s)(sig \<mapsto> sig_counts_up ?d x')" "live s5 = live s"
        using p x c1 by (simp_all add: s5_def s3_def s2_def x'_def set_signal_def set_sig_def link_simps)
      have st5: "store_ok s5" "typed_objs s5"
        using c1 by (simp_all add: s5_def s3_def s2_def set_signal_def set_sig_def link_simps)
      have ho5: "halobjects s5 = halobjects s"
        using c1 by (simp add: s5_def s3_def s2_def set_signal_def set_sig_def upd_pin_def upd_sig_def frame_simps)
      have "links_wf (pin_at s5) (sig_at s5) (live s5)"
        unfolding at5
        by (rule links_wf_link [OF st(3) p(1) p0 x(1) p(2) x(2)]) (use ok in \<open>auto simp: x'_def\<close>)
      then have "links_ok s5" using st5 by (simp add: links_ok_def)
      then have ok': "links_ok s'" using same_links_ok [OF propagate_same] ok(7) by simp
      have "link_map s' = link_map s5" using same_links_map [OF propagate_same] ok(7) by simp
      also have "link_map s5 = (link_map s)(pin \<mapsto> sig)"
        using at5 sig0 by (auto simp: link_map_def fun_eq_iff)
      finally have "link_map s' = (link_map s)(pin \<mapsto> sig)" .
      moreover have "halobjects s' = halobjects s"
        using propagate_same [of s5 sig] ho5 ok(7) by (simp add: same_links_def)
      moreover have "sig_at s' sig = Some (sig_counts_up ?d x')"
        using propagate_same [of s5 sig] at5 ok(7) by (simp add: same_links_def)
      moreover have "pin_value s2 pin = pin_dummysig p"
      proof -
        have "pin_at s2 pin = Some (p\<lparr>pin_data_ptr := value_of sig\<rparr>)" using p c1 by (simp add: s2_def link_simps)
        then show ?thesis using p0 by (simp add: pin_value_def pin_of_at)
      qed
      ultimately show ?thesis using linked [OF ok(6) _ f _ p(1) x(1) ok(3) ok'] lm p0 ok ml req
        by (simp add: x'_def inherit_def)
    qed
  qed
qed

section \<open>Unlinking\<close>

lemma copy_sig_to_dummy_eq:
  "\<exists>f. copy_sig_to_dummy a g s = upd_pin a f s \<and>
     (\<forall>p. pin_dir (f p) = pin_dir p \<and> pin_type (f p) = pin_type p \<and> pin_signal (f p) = pin_signal p \<and>
        pin_data_ptr (f p) = pin_data_ptr p \<and>
        (pin_of s a = p \<and> pin_type p \<in> link_types \<longrightarrow>
           pin_dummysig (f p) = set_typed (pin_type p) (pin_dummysig p) (get_typed (pin_type p) (sig_value (sig_of s g)))))"
proof -
  have id: "upd_pin a (\<lambda>p. p) s = s"
  proof -
    have "map_option (\<lambda>ob. case body ob of Pin p \<Rightarrow> ob\<lparr>body := Pin p\<rparr> | _ \<Rightarrow> ob) y = y" for y :: "hal_object option"
    proof (cases y)
      case (Some ob)
      then show ?thesis by (cases "body ob") auto
    qed simp
    then show ?thesis by (simp add: upd_pin_def upd_obj_def)
  qed
  let ?t = "pin_type (pin_of s a)" and ?v = "sig_value (sig_of s g)"
  let ?f = "\<lambda>p. p\<lparr>pin_dummysig := set_typed ?t (pin_dummysig p) (get_typed ?t ?v)\<rparr>"
  show ?thesis
  proof (cases "?t \<in> link_types")
    case True
    then have "copy_sig_to_dummy a g s = upd_pin a ?f s"
      by (auto simp: copy_sig_to_dummy_def link_types_def Let_def set_typed_def get_typed_def
          set_float_value_def get_float_value_def)
    then show ?thesis by (intro exI [of _ ?f]) auto
  next
    case False
    then have "copy_sig_to_dummy a g s = upd_pin a (\<lambda>p. p) s"
      by (simp add: copy_sig_to_dummy_def link_types_def Let_def id)
    then show ?thesis using False by (intro exI [of _ "\<lambda>p. p"]) auto
  qed
qed

lemma unlink_pin_effect:
  assumes ok: "links_ok s" and p: "pin_at s a = Some p" "pin_signal p \<noteq> 0"
  obtains p' x where "pin_at (unlink_pin a s) = (pin_at s)(a \<mapsto> p')" "sig_at s (pin_signal p) = Some x"
    "sig_at (unlink_pin a s) = (sig_at s)(pin_signal p \<mapsto> sig_counts_down (pin_dir p) x)"
    "pin_signal p' = 0" "pin_dir p' = pin_dir p" "pin_type p' = pin_type p" "pin_data_ptr p' = dummysig_of a"
    "pin_type p \<in> link_types \<Longrightarrow>
       pin_dummysig p' = set_typed (pin_type p) (pin_dummysig p) (get_typed (pin_type p) (sig_value x))"
    "live (unlink_pin a s) = live s" "halobjects (unlink_pin a s) = halobjects s" "links_ok (unlink_pin a s)"
proof -
  have st: "store_ok s" "typed_objs s" "links_wf (pin_at s) (sig_at s) (live s)"
    using ok by (auto simp: links_ok_def)
  let ?g = "pin_signal p"
  note pp = links_ok_pin [OF ok p(1)]
  obtain x where x: "sig_at s ?g = Some x" using pp(2) p(2) by (auto simp: pin_ok_def)
  have of: "pin_of s a = p" by (rule pin_of_at [OF p(1)])
  define s1 where "s1 = (if ho_legacy s a
                  then case halpr_find_owning_comp (ho_owner_id s a) s of
                         None \<Rightarrow> s\<lparr>fault := True\<rparr>
                       | Some cmp \<Rightarrow>
                           set_cell (pin_data_ptr_addr (pin_of s a)) (shmem_base_of s cmp + dummysig_of a) s
                  else s)"
  define s2 where "s2 = upd_pin a (\<lambda>p. p\<lparr>pin_data_ptr := dummysig_of a\<rparr>) s1"
  have o1: "objs s1 = objs s" "halobjects s1 = halobjects s"
    by (simp_all add: s1_def set_cell_def split: option.splits)
  note c1 = objs_only_at [OF o1]
  have st1: "store_ok s1" using st(1) by (simp add: s1_def link_simps split: option.splits)
  have at2: "pin_at s2 = (pin_at s)(a \<mapsto> p\<lparr>pin_data_ptr := dummysig_of a\<rparr>)" "sig_at s2 = sig_at s"
    using p c1 by (simp_all add: s2_def link_simps)
  have of2: "pin_of s2 a = p\<lparr>pin_data_ptr := dummysig_of a\<rparr>" "sig_of s2 ?g = x"
    using at2 x by (auto intro!: pin_of_at sig_of_at)
  obtain f where f: "copy_sig_to_dummy a ?g s2 = upd_pin a f s2"
    "\<And>p. pin_dir (f p) = pin_dir p" "\<And>p. pin_type (f p) = pin_type p"
    "\<And>p. pin_of s2 a = p \<Longrightarrow> pin_type p \<in> link_types \<Longrightarrow>
       pin_dummysig (f p) = set_typed (pin_type p) (pin_dummysig p) (get_typed (pin_type p) (sig_value (sig_of s2 ?g)))"
    using copy_sig_to_dummy_eq [of a ?g s2] by blast
  have u: "unlink_pin a s = pin_set_unlinked a (upd_sig ?g (sig_counts_down (pin_dir p)) (upd_pin a f s2))"
    using pp(1) p(2) of of2(1) f(1) by (simp add: unlink_pin_def Let_def signal_of_def flip: s1_def s2_def)
  define p' where "p' = (f (p\<lparr>pin_data_ptr := dummysig_of a\<rparr>))\<lparr>pin_signal := 0, pin_data_ptr := dummysig_of a\<rparr>"
  have pa: "pin_at (unlink_pin a s) = (pin_at s)(a \<mapsto> p')" and
    sa: "sig_at (unlink_pin a s) = (sig_at s)(?g \<mapsto> sig_counts_down (pin_dir p) x)" and
    lv: "live (unlink_pin a s) = live s"
    using at2 x c1 by (simp_all add: u pin_set_unlinked_def link_simps p'_def s2_def)
  have ho: "halobjects (unlink_pin a s) = halobjects s"
    using o1 by (simp add: u pin_set_unlinked_def s2_def upd_pin_def upd_sig_def frame_simps)
  have p': "pin_signal p' = 0" "pin_dir p' = pin_dir p" "pin_type p' = pin_type p" "pin_data_ptr p' = dummysig_of a"
    by (simp_all add: p'_def f)
  have dm: "pin_type p \<in> link_types \<Longrightarrow>
       pin_dummysig p' = set_typed (pin_type p) (pin_dummysig p) (get_typed (pin_type p) (sig_value x))"
    using f(4) [OF of2(1)] of2(2) by (simp add: p'_def)
  have "store_ok (unlink_pin a s)" "typed_objs (unlink_pin a s)"
    using st1 st(2) c1 by (simp_all add: u pin_set_unlinked_def s2_def link_simps)
  moreover have "links_wf (pin_at (unlink_pin a s)) (sig_at (unlink_pin a s)) (live (unlink_pin a s))"
    unfolding pa sa lv by (rule links_wf_unlink [OF st(3) p x p'(2) p'(1) p'(4)])
  ultimately have "links_ok (unlink_pin a s)" by (simp add: links_ok_def)
  then show ?thesis using that [OF pa x sa p' dm lv ho] by blast
qed

lemma unlink_pin_ok:
  assumes "links_ok s" "pin_at s a = Some p"
  shows "links_ok (unlink_pin a s)" "link_map (unlink_pin a s) = (link_map s)(a := None)"
    "live (unlink_pin a s) = live s" "halobjects (unlink_pin a s) = halobjects s"
    "dom (pin_at (unlink_pin a s)) = dom (pin_at s)"
proof -
  have "links_ok (unlink_pin a s) \<and> link_map (unlink_pin a s) = (link_map s)(a := None) \<and>
    live (unlink_pin a s) = live s \<and> halobjects (unlink_pin a s) = halobjects s \<and>
    dom (pin_at (unlink_pin a s)) = dom (pin_at s)"
  proof (cases "pin_signal p = 0")
    case True
    then have "unlink_pin a s = s" using links_ok_pin(1) [OF assms] by (simp add: unlink_pin_def)
    moreover have "link_map s a = None" using True assms(2) by (simp add: link_map_def)
    ultimately show ?thesis using assms(1) by (simp add: fun_upd_idem)
  next
    case False
    obtain p' where "pin_at (unlink_pin a s) = (pin_at s)(a \<mapsto> p')" "pin_signal p' = 0"
      "live (unlink_pin a s) = live s" "halobjects (unlink_pin a s) = halobjects s" "links_ok (unlink_pin a s)"
      using unlink_pin_effect [OF assms False] by metis
    then show ?thesis using assms(2) by (auto simp: link_map_def fun_eq_iff split: if_splits)
  qed
  then show "links_ok (unlink_pin a s)" "link_map (unlink_pin a s) = (link_map s)(a := None)"
    "live (unlink_pin a s) = live s" "halobjects (unlink_pin a s) = halobjects s"
    "dom (pin_at (unlink_pin a s)) = dom (pin_at s)" by auto
qed

lemma halg_unlink_cases:
  assumes ok: "links_ok s" and l: "halg_unlink pn s = (s', rc)"
  obtains (fail) "rc < 0" "same_links s s'"
  | (cut) pin where "rc = 0" "halg_find_object_by_name HAL_PIN pn s = Some pin" "links_ok s'"
      "link_map s' = (link_map s)(pin := None)" "halobjects s' = halobjects s"
proof (cases "\<not> hal_attached s \<or> locked HAL_LOCK_CONFIG s \<or> bad_str pn HAL_NAME_LEN \<or>
    halg_find_object_by_name HAL_PIN pn s = None")
  case True
  then show ?thesis using l fail by (auto simp: halg_unlink_def halfail_rc_def split: if_splits option.splits)
next
  case False
  then obtain pin where f: "halg_find_object_by_name HAL_PIN pn s = Some pin" by auto
  have "typed_objs s" using ok by (simp add: links_ok_def)
  then obtain p where p: "pin_at s pin = Some p" using find_pin [OF f] by blast
  have "s' = unlink_pin pin s" "rc = 0" using l False f by (auto simp: halg_unlink_def)
  then show ?thesis using cut [OF _ f] unlink_pin_ok [OF ok p] by simp
qed

lemma match_pin:
  assumes "typed_objs s" "match_args (no_args\<lparr>fa_type := HAL_PIN\<rparr>) s a"
  obtains p where "pin_at s a = Some p"
proof -
  obtain ob where "objs s a = Some ob" "hh_object_type (hdr ob) = HAL_PIN"
    using assms(2) unfolding match_args_type by (auto simp: ho_valid_def ho_object_type_def split: option.splits)
  then show ?thesis using assms(1) that unfolding typed_objs_def pin_at_def by fastforce
qed

lemma match_pin_live:
  assumes "links_ok s" "link_map s a = Some g"
  shows "match_args (no_args\<lparr>fa_type := HAL_PIN\<rparr>) s a" "a \<in> set (halobjects s)" "pin_linked_to s a g"
proof -
  obtain p where p: "pin_at s a = Some p" "pin_signal p = g" "g \<noteq> 0"
    using assms(2) by (auto simp: link_map_def split: option.splits if_splits)
  then have "a \<in> live s" using links_ok_pin(2) [OF assms(1) p(1)] by (auto simp: pin_ok_def)
  moreover obtain ob where ob: "objs s a = Some ob" "pin_body (body ob) = Some p"
    using p(1) by (auto simp: pin_at_def split: option.splits)
  moreover have "hh_object_type (hdr ob) = HAL_PIN"
    using assms(1) ob by (auto simp: links_ok_def typed_objs_def)
  ultimately show "match_args (no_args\<lparr>fa_type := HAL_PIN\<rparr>) s a" "a \<in> set (halobjects s)"
    unfolding match_args_type by (auto simp: live_def ho_object_type_def)
  show "pin_linked_to s a g" using pin_of_at [OF p(1)] p(2) by (simp add: pin_linked_to_def)
qed

lemma unlink_loop:
  assumes "links_ok s" "g \<noteq> 0"
  shows "\<exists>s'. fst (foreach_loop (match_args (no_args\<lparr>fa_type := HAL_PIN\<rparr>))
        (pin_by_signal_callback g (Some unlink_pin_callback)) xs s u n) = s' \<and> links_ok s' \<and> live s' = live s \<and>
     halobjects s' = halobjects s \<and>
     link_map s' = (\<lambda>a. if a \<in> set xs \<and> link_map s a = Some g then None else link_map s a)"
  using assms
proof (induction xs arbitrary: s u n)
  case Nil
  then show ?case by simp
next
  case (Cons a xs)
  let ?sel = "match_args (no_args\<lparr>fa_type := HAL_PIN\<rparr>)"
  show ?case
  proof (cases "link_map s a = Some g")
    case True
    note m = match_pin_live [OF Cons.prems(1) True]
    obtain p where p: "pin_at s a = Some p" using True by (auto simp: link_map_def split: option.splits)
    note un = unlink_pin_ok [OF Cons.prems(1) p]
    have "foreach_loop ?sel (pin_by_signal_callback g (Some unlink_pin_callback)) (a # xs) s u n =
        foreach_loop ?sel (pin_by_signal_callback g (Some unlink_pin_callback)) xs (unlink_pin a s) u (n + 1)"
      using m by (simp add: pin_by_signal_callback_def unlink_pin_callback_def)
    then show ?thesis using Cons.IH [OF un(1) Cons.prems(2), of u "n + 1"] un True by (auto simp: fun_eq_iff)
  next
    case False
    have "\<exists>n'. foreach_loop ?sel (pin_by_signal_callback g (Some unlink_pin_callback)) (a # xs) s u n =
        foreach_loop ?sel (pin_by_signal_callback g (Some unlink_pin_callback)) xs s u n'"
    proof (cases "?sel s a")
      case True
      have "typed_objs s" using Cons.prems(1) by (simp add: links_ok_def)
      then obtain p where p: "pin_at s a = Some p" using match_pin [OF _ True] by blast
      then have "\<not> pin_linked_to s a g" using False Cons.prems(2) pin_of_at [OF p]
        by (auto simp: link_map_def pin_linked_to_def split: if_splits)
      then show ?thesis using True by (auto simp: pin_by_signal_callback_def)
    qed auto
    then obtain n' where n': "foreach_loop ?sel (pin_by_signal_callback g (Some unlink_pin_callback)) (a # xs) s u n =
        foreach_loop ?sel (pin_by_signal_callback g (Some unlink_pin_callback)) xs s u n'" by blast
    show ?thesis unfolding n' using Cons.IH [OF Cons.prems, of u n'] False by (auto simp: fun_eq_iff)
  qed
qed

text \<open>Clearing the header of an object nothing is linked to.\<close>

lemma clear_hdr_at:
  "pin_at (upd_hdr a hh_clear_hdr s) = pin_at s" "sig_at (upd_hdr a hh_clear_hdr s) = sig_at s"
  "live (upd_hdr a hh_clear_hdr s) = live s - {a}" "halobjects (upd_hdr a hh_clear_hdr s) = halobjects s"
proof -
  show "pin_at (upd_hdr a hh_clear_hdr s) = pin_at s" "sig_at (upd_hdr a hh_clear_hdr s) = sig_at s"
    by (rule ext, simp add: upd_hdr_def upd_obj_at at_bind [of s a])+
  show h: "halobjects (upd_hdr a hh_clear_hdr s) = halobjects s" by (simp add: upd_hdr_def frame_simps)
  show "live (upd_hdr a hh_clear_hdr s) = live s - {a}" unfolding live_def h ho_clear_hdr by auto
qed

lemma free_object_links:
  assumes ok: "links_ok s" and "link_map s a = None" "\<And>b. link_map s b \<noteq> Some a"
  shows "links_ok (fst (halg_free_object a s))" "link_map (fst (halg_free_object a s)) = link_map s"
    "halobjects (fst (halg_free_object a s)) = halobjects s"
proof -
  let ?s = "upd_hdr a hh_clear_hdr s"
  have st: "store_ok ?s" "typed_objs ?s"
    unfolding upd_hdr_def using ok
    by (auto intro!: store_ok_upd_obj typed_objs_upd_obj simp: hh_clear_hdr_def hh_set_id_def hh_set_owner_id_def links_ok_def)
  have "links_wf (pin_at s) (sig_at s) (live s)" using ok by (simp add: links_ok_def)
  then have "links_wf (pin_at s) (sig_at s) (live s - {a})"
  proof (rule links_wf_restrict)
    show "b \<in> live s - {a} \<and> pin_signal p \<in> live s - {a}" if "pin_at s b = Some p" "pin_signal p \<noteq> 0" for b p
    proof -
      have "link_map s b = Some (pin_signal p)" using that by (simp add: link_map_def)
      then have "b \<noteq> a" "pin_signal p \<noteq> a" using assms(2,3) by auto
      then show ?thesis using links_ok_pin(2) [OF ok that(1)] that(2) by (auto simp: pin_ok_def)
    qed
  qed auto
  then have "links_ok ?s" using st by (simp add: links_ok_def clear_hdr_at)
  moreover have "link_map ?s = link_map s" by (simp add: link_map_def clear_hdr_at fun_eq_iff)
  ultimately show "links_ok (fst (halg_free_object a s))" "link_map (fst (halg_free_object a s)) = link_map s"
    "halobjects (fst (halg_free_object a s)) = halobjects s"
    using same_links_ok [OF same_links_halfail ok] same_links_map [OF same_links_halfail]
    by (simp_all add: free_object_eq clear_hdr_at) (simp add: halfail_def)
qed

lemma free_sig_struct_ok:
  assumes ok: "links_ok s" and x: "sig_at s g = Some x"
  shows "links_ok (fst (free_sig_struct g s))" "halobjects (fst (free_sig_struct g s)) = halobjects s"
    "link_map (fst (free_sig_struct g s)) = (\<lambda>a. if link_map s a = Some g then None else link_map s a)"
proof -
  have g0: "g \<noteq> 0" using ok x by (cases "g = 0") (auto simp: links_ok_def links_wf_def)
  let ?s1 = "fst (halg_foreach_pin_by_signal g (Some unlink_pin_callback) s ())"
  have s1: "links_ok ?s1" "halobjects ?s1 = halobjects s"
    "link_map ?s1 = (\<lambda>a. if a \<in> set (halobjects s) \<and> link_map s a = Some g then None else link_map s a)"
    using unlink_loop [OF ok g0, of "halobjects s" "()" 0]
    by (auto simp: halg_foreach_pin_by_signal_def halg_foreach_def)
  have m: "link_map ?s1 = (\<lambda>a. if link_map s a = Some g then None else link_map s a)"
    unfolding s1(3) using match_pin_live(2) [OF ok] by (auto simp: fun_eq_iff)
  have "pin_at s g = None"
    using x by (auto simp: pin_at_def sig_at_def pin_body_def sig_body_eq split: option.splits)
  then have "link_map ?s1 g = None" unfolding m by (simp add: link_map_def)
  moreover have "link_map ?s1 b \<noteq> Some g" for b unfolding m by simp
  ultimately show "links_ok (fst (free_sig_struct g s))" "halobjects (fst (free_sig_struct g s)) = halobjects s"
    "link_map (fst (free_sig_struct g s)) = (\<lambda>a. if link_map s a = Some g then None else link_map s a)"
    using free_object_links [OF s1(1)] s1(2) m by (simp_all add: free_sig_struct_def)
qed

lemma free_pin_struct_ok:
  assumes ok: "links_ok s" and p: "pin_at s a = Some p"
  shows "links_ok (free_pin_struct a s)" "link_map (free_pin_struct a s) = (link_map s)(a := None)"
    "halobjects (free_pin_struct a s) = halobjects s"
proof -
  note u = unlink_pin_ok [OF ok p]
  have "link_map (unlink_pin a s) b \<noteq> Some a" for b
  proof
    assume "link_map (unlink_pin a s) b = Some a"
    then obtain q where q: "pin_at s b = Some q" "pin_signal q = a" "a \<noteq> 0"
      unfolding u(2) by (auto simp: link_map_def split: if_splits option.splits)
    then have "sig_at s a \<noteq> None" using links_ok_pin(2) [OF ok q(1)] by (auto simp: pin_ok_def)
    then show False using p by (auto simp: pin_at_def sig_at_def pin_body_eq sig_body_eq split: option.splits)
  qed
  then show "links_ok (free_pin_struct a s)" "link_map (free_pin_struct a s) = (link_map s)(a := None)"
    "halobjects (free_pin_struct a s) = halobjects s"
    using free_object_links [OF u(1), of a] u by (simp_all add: free_pin_struct_def)
qed

lemma halg_signal_delete_cases:
  assumes ok: "links_ok s" and l: "halg_signal_delete sn s = (s', rc)"
  obtains (fail) "rc < 0" "same_links s s'"
  | (gone) sig where "halg_find_object_by_name HAL_SIGNAL sn s = Some sig" "links_ok s'"
      "link_map s' = (\<lambda>a. if link_map s a = Some sig then None else link_map s a)" "halobjects s' = halobjects s"
proof (cases "\<not> hal_attached s \<or> locked HAL_LOCK_CONFIG s \<or> bad_str sn HAL_NAME_LEN \<or>
    halg_find_object_by_name HAL_SIGNAL sn s = None")
  case True
  then show ?thesis using l fail by (auto simp: halg_signal_delete_def halfail_rc_def split: if_splits option.splits)
next
  case False
  then obtain sig where f: "halg_find_object_by_name HAL_SIGNAL sn s = Some sig" by auto
  have "typed_objs s" using ok by (simp add: links_ok_def)
  then obtain x where x: "sig_at s sig = Some x" using find_sig [OF f] by blast
  have "s' = fst (free_sig_struct sig s)" using l False f by (auto simp: halg_signal_delete_def)
  then show ?thesis using gone [OF f] free_sig_struct_ok [OF ok x] by simp
qed

section \<open>New pins and signals\<close>

lemma add_object_store:
  assumes "store_ok s" "new \<in> dom (objs s)" "new \<notin> set (halobjects s)" "ho_object_type s new \<noteq> 0"
  shows "store_ok (halg_add_object new s)" "pin_at (halg_add_object new s) = pin_at s"
    "sig_at (halg_add_object new s) = sig_at s" "typed_objs (halg_add_object new s) = typed_objs s"
    "live (halg_add_object new s) = live s \<union> (if ho_valid s new then {new} else {})"
proof -
  have d: "distinct (halobjects s)" using assms(1) by (simp add: store_ok_def)
  note set = add_object_set [OF d assms(4,3)]
  have o: "objs (halg_add_object new s) = objs s" "seg_ok (halg_add_object new s) = seg_ok s"
    "names_ok (halg_add_object new s) = names_ok s"
    by (simp_all add: add_object_eq seg_ok_def names_ok_def name_ptr_def fun_eq_iff)
  show "store_ok (halg_add_object new s)"
    using assms(1,2) set o by (auto simp: store_ok_def add_object_eq)
  show "pin_at (halg_add_object new s) = pin_at s" "sig_at (halg_add_object new s) = sig_at s"
    "typed_objs (halg_add_object new s) = typed_objs s"
    using o(1) by (simp_all add: pin_at_def sig_at_def typed_objs_def fun_eq_iff)
  show "live (halg_add_object new s) = live s \<union> (if ho_valid s new then {new} else {})"
    using set o(1) by (auto simp: live_def ho_valid_def)
qed

text \<open>The creation of a pin or signal descriptor, seen from the network.\<close>

lemma create_links:
  assumes ok: "links_ok s" and c: "halg_create_objectfv sz bd t owner str s = (s', r)"
    and sz: "1 \<le> sz" "sz < 2 ^ 32"
    and t: "t = HAL_PIN \<and> bd = Pin zero_pin \<or> t = HAL_SIGNAL \<and> bd = Sig zero_sig"
  obtains (none) "r = None" "same_links s s'"
  | (some) new where "r = Some new" "store_ok s'" "typed_objs s'" "objs s new = None" "new \<noteq> 0"
      "pin_at s' = (pin_at s)(new := pin_body bd)" "sig_at s' = (sig_at s)(new := sig_body bd)"
      "live s' = live s" "new \<notin> set (halobjects s')" "ho_object_type s' new = t" "ho_valid s' new"
      "halobjects s' = halobjects s"
proof -
  have st: "store_ok s" "typed_objs s" using ok by (auto simp: links_ok_def)
  from st(1) sz show thesis
  proof (cases rule: create_object_cases [where bd = bd and t = t and owner = owner and str = str])
    case (none s1)
    have "halobjects s1 = halobjects s" using none(3) by (simp add: frame_simps)
    from objs_only_at [OF none(4) this] have "same_links s s1"
      using none(2) \<open>halobjects s1 = halobjects s\<close> by (simp add: same_links_def)
    then show ?thesis using that(1) none(1) c by simp
  next
    case (some s1 new p)
    have eq: "s' = s1" "r = Some new" using some(1) c by auto
    have h: "halobjects s1 = halobjects s" using some(3) by (simp add: frame_simps)
    have sub: "set (halobjects s) \<subseteq> dom (objs s)" using st(1) by (simp add: store_ok_def)
    let ?hd = "new_hdr s t owner str p"
    have hd: "hh_object_type ?hd = t" "hh_valid ?hd" using t by (auto simp: new_hdr_def)
    have nn: "new \<notin> set (halobjects s1)" using h sub some(4) by auto
    have "typed_objs s1"
      using st(2) some(6) t hd(1) some(5) unfolding typed_objs_def by auto
    moreover have "pin_at s1 = (pin_at s)(new := pin_body bd)" "sig_at s1 = (sig_at s)(new := sig_body bd)"
      using some(6) by (auto simp: pin_at_def sig_at_def fun_eq_iff)
    moreover have "live s1 = live s" using h some(4,6) sub by (auto simp: live_def ho_valid_def)
    moreover have "ho_object_type s1 new = t" "ho_valid s1 new"
      using some(6) hd by (simp_all add: ho_object_type_def ho_valid_def)
    ultimately show ?thesis using that(2) [OF eq(2)] eq(1) some(2,4,5) nn h by simp
  qed
qed

lemma ho_upd_pin [link_simps]:
  "ho_valid (upd_pin a f s) = ho_valid s" "ho_object_type (upd_pin a f s) = ho_object_type s"
  "ho_valid (upd_sig a h s) = ho_valid s" "ho_object_type (upd_sig a h s) = ho_object_type s"
  unfolding upd_pin_def upd_sig_def by (rule ho_upd_obj_hdr, simp add: upd_pin_body upd_sig_body)+

lemma dom_objs_upd [link_simps]:
  "dom (objs (upd_pin a f s)) = dom (objs s)" "dom (objs (upd_sig a h s)) = dom (objs s)"
  "dom (objs (upd_hdr a k s)) = dom (objs s)" "halobjects (upd_pin a f s) = halobjects s"
  "halobjects (upd_sig a h s) = halobjects s" "halobjects (upd_hdr a k s) = halobjects s"
  by (auto simp: upd_pin_def upd_sig_def upd_hdr_def frame_simps split: if_splits)

lemma halg_signal_new_ok:
  assumes ok: "links_ok s" and l: "halg_signal_new sn t s = (s', rc)"
  shows "links_ok s'" "link_map s' = link_map s"
proof -
  have "links_ok s' \<and> link_map s' = link_map s"
  proof (cases "\<not> hal_attached s \<or> locked HAL_LOCK_CONFIG s \<or> bad_str sn HAL_NAME_LEN \<or>
      halg_find_object_by_name HAL_SIGNAL sn s \<noteq> None")
    case True
    then have "same_links s s'"
      using l by (auto simp: halg_signal_new_def halfail_rc_def split: if_splits option.splits)
    then show ?thesis using same_links_ok same_links_map ok by blast
  next
    case False
    obtain s1 r where c: "halg_create_objectfv (desc_size HAL_SIGNAL) (Sig zero_sig) HAL_SIGNAL 0 (the sn) s = (s1, r)"
      by fastforce
    have sz: "1 \<le> desc_size HAL_SIGNAL" "desc_size HAL_SIGNAL < 2 ^ 32" by (simp_all add: desc_size_def)
    have st: "links_wf (pin_at s) (sig_at s) (live s)" using ok by (simp add: links_ok_def)
    have "HAL_SIGNAL = HAL_PIN \<and> Sig zero_sig = Pin zero_pin \<or> HAL_SIGNAL = HAL_SIGNAL \<and> Sig zero_sig = Sig zero_sig"
      by simp
    from ok c sz this show ?thesis
    proof (cases rule: create_links [consumes 5, case_names none some])
      case none
      then have "s' = s1" using l c False by (auto simp: halg_signal_new_def)
      then show ?thesis using same_links_ok [OF none(2)] same_links_map [OF none(2)] ok by simp
    next
      case (some new)
      have at0: "pin_at s new = None" "sig_at s new = None" using some(4) by (simp_all add: pin_at_def sig_at_def)
      then have p1: "pin_at s1 = pin_at s" using some(6) by (simp add: fun_upd_idem)
      have nl: "link_map s new = None" "link_map s b \<noteq> Some new" for b
      proof -
        show "link_map s new = None" using at0 by (simp add: link_map_def)
        show "link_map s b \<noteq> Some new"
          using links_ok_pin(2) [OF ok, of b] at0
          by (auto simp: link_map_def pin_ok_def split: option.splits if_splits)
      qed
      have m1: "link_map s1 = link_map s" using p1 by (simp add: link_map_def fun_eq_iff)
      show ?thesis
      proof (cases "t \<in> link_types")
        case False
        have "links_wf (pin_at s) ((sig_at s)(new \<mapsto> zero_sig)) (live s)"
          by (rule links_wf_new_sig [OF st at0(2) some(5)]) (use some(8,9) in \<open>auto simp: zero_sig_def live_def\<close>)
        then have "links_ok s1" using some p1 by (simp add: links_ok_def)
        then have f: "links_ok (fst (halg_free_object new s1))" "link_map (fst (halg_free_object new s1)) = link_map s"
          using free_object_links [of s1 new] nl m1 by auto
        have "s' = halfail EINVAL (fst (halg_free_object new s1))"
          using l c False \<open>\<not> (\<not> hal_attached s \<or> _)\<close> some(1)
          by (auto simp: halg_signal_new_def halfail_rc_def link_types_def split: if_splits)
        then show ?thesis using f same_links_ok [OF same_links_halfail f(1)] same_links_map [OF same_links_halfail] by simp
      next
        case True
        define x where "x = zero_sig\<lparr>sig_value := set_typed t 0 0, sig_type := t\<rparr>"
        define s3 where "s3 = upd_sig new (\<lambda>x. x\<lparr>sig_type := t, sig_readers := 0, sig_writers := 0, sig_bidirs := 0\<rparr>)
            (upd_sig new (\<lambda>x. x\<lparr>sig_value := set_typed t (sig_value x) 0\<rparr>) s1)"
        have s': "s' = halg_add_object new s3"
          using l c \<open>\<not> (\<not> hal_attached s \<or> _)\<close> some(1) True
          by (auto simp: halg_signal_new_def s3_def link_types_def)
        have s3: "pin_at s3 = pin_at s" "sig_at s3 = (sig_at s)(new \<mapsto> x)" "live s3 = live s"
          "store_ok s3" "typed_objs s3" "halobjects s3 = halobjects s1" "ho_object_type s3 new = HAL_SIGNAL"
          "ho_valid s3 new" "dom (objs s3) = dom (objs s1)"
          using some p1 by (simp_all add: s3_def link_simps x_def zero_sig_def)
        have "new \<in> dom (objs s3)" using some(11) s3(9) by (auto simp: ho_valid_def split: option.splits)
        note add = add_object_store [OF s3(4) this, unfolded s3(6,7), OF some(9)]
        have "links_wf (pin_at s) ((sig_at s)(new \<mapsto> x)) (insert new (live s))"
          by (rule links_wf_new_sig [OF st at0(2) some(5)]) (use True in \<open>auto simp: x_def zero_sig_def\<close>)
        then have "links_ok s'" using add s3 by (simp add: links_ok_def s')
        moreover have "link_map s' = link_map s" using add(2) s3(1) by (simp add: s' link_map_def fun_eq_iff)
        ultimately show ?thesis by simp
      qed
    qed
  qed
  then show "links_ok s'" "link_map s' = link_map s" by auto
qed

lemma upd_legacy_at [link_simps]:
  fixes s :: hal and a :: nat
  defines "s' \<equiv> upd_hdr a (\<lambda>hh. hh\<lparr>hh_legacy := True\<rparr>) s"
  shows "pin_at s' = pin_at s" "sig_at s' = sig_at s" "live s' = live s" "typed_objs s \<Longrightarrow> typed_objs s'"
    "store_ok s \<Longrightarrow> store_ok s'" "ho_valid s' = ho_valid s" "ho_object_type s' = ho_object_type s"
proof -
  have "same_links s s'" unfolding s'_def by (rule same_links_upd_hdr) simp_all
  then show "pin_at s' = pin_at s" "sig_at s' = sig_at s" "live s' = live s" "typed_objs s \<Longrightarrow> typed_objs s'"
    "store_ok s \<Longrightarrow> store_ok s'" by (auto simp: same_links_def)
  show "ho_valid s' = ho_valid s" "ho_object_type s' = ho_object_type s"
    unfolding s'_def fun_eq_iff ho_valid_def ho_object_type_def upd_hdr_def
    by (simp_all add: frame_simps split: option.splits)
qed

lemma set_cell_at [link_simps]:
  "halobjects (set_cell d v s) = halobjects s" "objs (set_cell d v s) = objs s"
  "ho_valid (set_cell d v s) = ho_valid s" "ho_object_type (set_cell d v s) = ho_object_type s"
  by (simp_all add: set_cell_def ho_valid_def ho_object_type_def fun_eq_iff)

lemma halg_pin_newfv_ok:
  assumes ok: "links_ok s" and l: "halg_pin_newfv t dir dpa owner defval fmt s = (s', r)"
  shows "links_ok s'" "link_map s' = link_map s"
proof -
  have "links_ok s' \<and> link_map s' = link_map s"
  proof (cases "same_links s s'")
    case True
    then show ?thesis using same_links_ok same_links_map ok by blast
  next
    case False
    note ns = this
    have hn: "same_links s (fst (halfail_null e s))" "same_links s (fst (halfail_null e (halfail e' s)))" for e e'
      using same_links_trans [OF same_links_halfail same_links_halfail]
      by (simp_all add: halfail_null_def)
    have s'_fst: "fst (halg_pin_newfv t dir dpa owner defval fmt s) = s'" using l by simp
    have bad: False if "s' = fst (halfail_null e s)" for e using that hn(1) ns by simp
    have a1: "hal_attached s" by (rule ccontr, rule bad) (simp add: halg_pin_newfv_def flip: s'_fst)
    have a2: "\<not> locked HAL_LOCK_LOAD s"
      by (rule notI, rule bad) (simp add: halg_pin_newfv_def a1 flip: s'_fst)
    have "fmt \<noteq> None" by (rule notI, rule bad) (simp add: halg_pin_newfv_def a1 a2 flip: s'_fst)
    then obtain str where a: "hal_attached s" "\<not> locked HAL_LOCK_LOAD s" "fmt = Some str" using a1 a2 by auto
    define name where "name = take HAL_MAX_NAME_LEN str"
    have fa: "fmt_ap (HAL_MAX_NAME_LEN + 1) str s = (s, Some name)"
    proof (rule ccontr)
      assume "\<not> ?thesis"
      then have "fmt_ap (HAL_MAX_NAME_LEN + 1) str s = (halfail E2BIG s, None)"
        by (auto simp: fmt_ap_def name_def split: if_splits)
      then have "s' = fst (halfail_null EINVAL (halfail E2BIG s))" using l a by (simp add: halg_pin_newfv_def)
      then show False using hn(2) ns by simp
    qed
    note fa' = fa [simplified]
    note unf = halg_pin_newfv_def a fa'
    have b1: "hal_valid_type t" by (rule ccontr, rule bad) (simp add: unf flip: s'_fst)
    have b2: "hal_valid_dir dir" by (rule ccontr, rule bad) (simp add: unf b1 flip: s'_fst)
    have b3: "halg_find_object_by_name HAL_PIN (Some name) s = None"
      by (rule ccontr, rule bad) (simp add: unf b1 b2 flip: s'_fst)
    note b3 = b3 [simplified]
    have "halpr_find_owning_comp owner s \<noteq> None"
      by (rule notI, rule bad) (simp add: unf b1 b2 b3 flip: s'_fst)
    then obtain cmp where cmp: "halpr_find_owning_comp owner s = Some cmp" by auto
    have b4: "\<not> (case dpa of None \<Rightarrow> False | Some d \<Rightarrow> \<not> SHMCHK s d)"
      by (rule notI, rule bad) (simp add: unf b1 b2 b3 cmp flip: s'_fst)
    note b = b1 b2 b3 b4
    obtain s2 r2 where c: "halg_create_objectfv (desc_size HAL_PIN) (Pin zero_pin) HAL_PIN owner name s = (s2, r2)"
      by fastforce
    have sz: "1 \<le> desc_size HAL_PIN" "desc_size HAL_PIN < 2 ^ 32" by (simp_all add: desc_size_def)
    have st: "links_wf (pin_at s) (sig_at s) (live s)" using ok by (simp add: links_ok_def)
    have "HAL_PIN = HAL_PIN \<and> Pin zero_pin = Pin zero_pin \<or> HAL_PIN = HAL_SIGNAL \<and> Pin zero_pin = Sig zero_sig"
      by simp
    from ok c sz this show ?thesis
    proof (cases rule: create_links [consumes 5, case_names none some])
      case none
      then have "s' = s2" using l c a fa b cmp by (auto simp: halg_pin_newfv_def split: option.splits)
      then show ?thesis using none ns by simp
    next
      case (some new)
      have at0: "pin_at s new = None" "sig_at s new = None" using some(4) by (simp_all add: pin_at_def sig_at_def)
      define s3 where "s3 = upd_pin new (\<lambda>p. p\<lparr>pin_type := t, pin_dir := dir, pin_signal := 0, pin_dummysig := defval\<rparr>) s2"
      define s4 where "s4 = (case dpa of
                          Some d \<Rightarrow> set_cell d (shmem_base_of s3 cmp + dummysig_of new)
                              (upd_pin new (\<lambda>p. p\<lparr>pin_data_ptr_addr := d\<rparr>)
                                (upd_hdr new (\<lambda>hh. hh\<lparr>hh_legacy := True\<rparr>) s3))
                        | None \<Rightarrow> upd_pin new (\<lambda>p. p\<lparr>pin_data_ptr_addr := dead_beef\<rparr>) s3)"
      define s5 where "s5 = upd_pin new (\<lambda>p. p\<lparr>pin_data_ptr := dummysig_of new\<rparr>) s4"
      have s': "s' = halg_add_object new s5"
        using l a fa' b cmp c some(1) unfolding s3_def s4_def s5_def by (simp add: halg_pin_newfv_def Let_def)
      define p where "p = zero_pin\<lparr>pin_type := t, pin_dir := dir, pin_signal := 0, pin_dummysig := defval,
          pin_data_ptr_addr := (case dpa of None \<Rightarrow> dead_beef | Some d \<Rightarrow> d), pin_data_ptr := dummysig_of new\<rparr>"
      have s5: "pin_at s5 = (pin_at s)(new \<mapsto> p)" "sig_at s5 = sig_at s" "live s5 = live s"
        "store_ok s5" "typed_objs s5" "halobjects s5 = halobjects s2" "ho_object_type s5 new = HAL_PIN"
        "ho_valid s5 new" "dom (objs s5) = dom (objs s2)"
        using some at0
        by (simp_all add: s5_def s4_def s3_def link_simps p_def zero_pin_def fun_upd_idem split: option.splits)
      have "new \<in> dom (objs s5)" using s5(8) by (auto simp: ho_valid_def split: option.splits)
      note add = add_object_store [OF s5(4) this, unfolded s5(6,7), OF some(9)]
      have "links_wf ((pin_at s)(new \<mapsto> p)) (sig_at s) (insert new (live s))"
        by (rule links_wf_new_pin [OF st at0(1)]) (use b(2) at0 in \<open>auto simp: p_def hal_valid_dir_def\<close>)
      then have "links_ok s'" using add s5 by (simp add: links_ok_def s')
      moreover have "link_map s' = link_map s"
        using add(2) s5(1) at0 by (auto simp: s' link_map_def fun_eq_iff p_def)
      ultimately show ?thesis by simp
    qed
  qed
  then show "links_ok s'" "link_map s' = link_map s" by auto
qed

end
