(* ===== verification/Hal_Demo.thy ===== *)
theory Hal_Demo
  imports Hal_Object_Correct
begin

text \<open>
  A small HAL state with a component, two pins and a signal, on which the
  properties of the library are applied.
\<close>

section \<open>Two small heaps\<close>

text \<open>Four allocated blocks of 8 to 16 units and a free one of 100 units.\<close>

definition demo_heap :: "nat \<Rightarrow> rtapi_heap" where
  "demo_heap at =
     \<lparr>arena = set_hsize (set_hsize (set_hsize (set_hsize (set_hsize (set_hnext (set_hnext
        (\<lambda>_. 0) 0 512) 512 0) 128 8) 192 8) 256 16) 384 16) 512 100,
      free_p = 0, arena_size = 1184, hflags = 0, requested = 0, allocated = 0, freed = 0,
      heap_name = ''demo'', heap_at = at\<rparr>"

lemma demo_heap_fields:
  "hsize (arena (demo_heap l)) 0 = 0" "hsize (arena (demo_heap l)) 128 = 8" "hsize (arena (demo_heap l)) 192 = 8"
  "hsize (arena (demo_heap l)) 256 = 16" "hsize (arena (demo_heap l)) 384 = 16" "hsize (arena (demo_heap l)) 512 = 100"
  "hnext (arena (demo_heap l)) 0 = 512" "hnext (arena (demo_heap l)) 512 = 0"
  "hattr (arena (demo_heap l)) 128 = 0" "hattr (arena (demo_heap l)) 192 = 0"
  "hattr (arena (demo_heap l)) 256 = 0" "hattr (arena (demo_heap l)) 384 = 0"
  by (simp_all add: demo_heap_def hdr_fields_aligned)
    (simp_all add: hsize_def hattr_def eval_nat_numeral)

lemma demo_heap_wf: "wf_heap (demo_heap l) [512] {128, 192, 256, 384}"
  unfolding wf_heap_def wf_arena_def blocks_disjoint_def wf_block_def blk_end_def
  by (simp add: demo_heap_fields heap_sizeof_def arena_limit_def) (simp add: demo_heap_def)

lemma demo_heap_live: "heap_live (demo_heap l) {136, 200, 264, 392}"
  unfolding heap_live_def
  by (rule exI [of _ "[512]"], rule exI [of _ "{128, 192, 256, 384}"]) (simp add: demo_heap_wf)

section \<open>A small HAL state\<close>

definition demo_rtapi :: rtapi_state where
  "demo_rtapi = \<lparr>flv = \<lparr>task_new_hook = Some (\<lambda>t i. 0), task_delete_hook = None,
       task_start_hook = (\<lambda>t i. 0), task_stop_hook = (\<lambda>t i. 0), task_pause_hook = None,
       task_resume_hook = None, no_clock_monotonic = True, clock_res = 1,
       shm_common_new = (\<lambda>key sz. (0, sz, 65536)), shm_common_detach = (\<lambda>sz mem. 0)\<rparr>,
     rtapi_instance = ''0'', task_count = 0, rt_cpu = 0,
     task_array = replicate 65 \<lparr>task_magic = 0, task_name = [], task_uses_fp = 0, task_stacksize = 0,
       task_period = 0, task_ratio = 0, task_pll_correction = 0, task_pll_correction_limit = 0,
       task_st = EMPTY, task_prio = 0, task_owner = 0, task_code = 0, task_arg = 0, task_cpu = -1,
       task_flags = 0, task_cgname = []\<rparr>,
     shmem_array = replicate 33 \<lparr>shm_magic = 0, shm_key = 0, shm_count = 0, shm_instance = 0,
       shm_size = 0, shm_mem = 0\<rparr>,
     rt_period = 0, rt_fault = False\<rparr>"

definition demo_hdr :: "int \<Rightarrow> int \<Rightarrow> nat \<Rightarrow> string \<Rightarrow> nat \<Rightarrow> halhdr" where
  "demo_hdr i owner p nm t = \<lparr>hh_id = i, hh_owner_id = owner, hh_name_ptr = p, hh_name_str = nm,
     hh_refcnt = 0, hh_legacy = False, hh_object_type = t, hh_valid = True, hh_rmb = False, hh_wmb = False\<rparr>"

definition demo_comp :: hal_comp where
  "demo_comp = \<lparr>comp_type = TYPE_RT, comp_state = COMP_INITIALIZING, comp_shmem_base = 0,
     comp_last_update = 0, comp_last_bound = 0, comp_last_unbound = 0, comp_pid = 0, comp_ctor = 0,
     comp_dtor = 0, comp_insmod_args = 0, comp_userarg1 = 0, comp_userarg2 = 0\<rparr>"

definition demo_pin :: "nat \<Rightarrow> nat \<Rightarrow> hal_pin" where
  "demo_pin a dir = \<lparr>pin_data_ptr_addr = 72, pin_data_ptr = dummysig_of a, pin_signal = 0,
     pin_dummysig = 0, pin_type = HAL_BIT, pin_dir = dir, pin_flags = 0, pin_eps_index = 0\<rparr>"

definition demo_objs :: "nat \<Rightarrow> hal_object option" where
  "demo_objs = [
     328 \<mapsto> \<lparr>hdr = demo_hdr 10 0 136 ''c'' HAL_COMPONENT, body = Comp demo_comp\<rparr>,
     392 \<mapsto> \<lparr>hdr = demo_hdr 11 10 200 ''out'' HAL_PIN, body = Pin (demo_pin 392 HAL_OUT)\<rparr>,
     456 \<mapsto> \<lparr>hdr = demo_hdr 12 0 264 ''sig'' HAL_SIGNAL,
            body = Sig \<lparr>sig_type = HAL_BIT, sig_value = 0, sig_readers = 0, sig_writers = 0, sig_bidirs = 0\<rparr>\<rparr>,
     584 \<mapsto> \<lparr>hdr = demo_hdr 13 10 392 ''in'' HAL_PIN, body = Pin (demo_pin 584 HAL_IN)\<rparr>]"

definition demo_hal :: hal where
  "demo_hal = \<lparr>hal_attached = True, rtapi_build = True, halerrno = 0, lib_module_id = 1, lib_mem_id = 1,
     hal_shmem_base = 0, hal_pid = 0, rtapi_app_pid = 0, hal_thread_stack_size = 16384,
     hal_version = HAL_VER, shmem_bot = 1504, shmem_top = 65536, hal_size = 65536,
     halobjects = [328, 584, 392, 456], hal_threads = [], funct_entry_free = [], base_period = 0,
     exact_base_period = 0, threads_running = 0, hal_lock = HAL_LOCK_NONE,
     rings_map = True # replicate 254 False, default_ringsize = 1024, str_alloc = 0, str_freed = 0,
     rt_alignment_loss = 0, hal_malloced = 0, hal_descriptor_alignment = 0, hal_heap_flags = 0,
     hal_heap = demo_heap 192, global_heap = demo_heap 0, next_handle = 13, objs = demo_objs,
     fentries = (\<lambda>_. None), cells = (\<lambda>_. 0), rtapi = demo_rtapi, ring_hdrs = (\<lambda>_. undefined),
     fault = False\<rparr>"

lemma demo_seg: "seg_ok demo_hal {328, 392, 456, 584}"
proof -
  have "heap_below (demo_heap 192) [512] {128, 192, 256, 384} 1312"
    by (simp add: heap_below_def demo_heap_wf below_def blk_end_def demo_heap_fields)
  moreover have "{328, 392, 456, 584} = seg_blocks (demo_heap 192) {128, 192, 256, 384}"
    by (simp add: seg_blocks_def demo_heap_def)
  moreover have "heap_at (demo_heap 192) = 192" by (simp add: demo_heap_def)
  ultimately show ?thesis
    unfolding seg_ok_def demo_hal_def
    by (intro conjI exI [of _ "[512]"] exI [of _ "{128, 192, 256, 384}"])
      (simp_all add: heap_sizeof_def arena_limit_def del: seg_blocks_simps)
qed

lemma demo_dom: "dom (objs demo_hal) = {328, 392, 456, 584}"
  by (auto simp: demo_hal_def demo_objs_def)

lemma demo_name_ptr:
  "name_ptr demo_hal a = (if a = 328 then 136 else if a = 392 then 200 else if a = 456 then 264
     else if a = 584 then 392 else 0)"
  by (simp add: name_ptr_def demo_hal_def demo_objs_def demo_hdr_def)

lemma demo_names: "names_ok demo_hal {136, 200, 264, 392}"
proof -
  have "heap_live (global_heap demo_hal) {136, 200, 264, 392}"
    by (simp add: demo_hal_def demo_heap_live)
  then show ?thesis unfolding names_ok_def demo_name_ptr by auto
qed

lemma demo_store: "store_ok demo_hal"
  by (rule store_okI [OF demo_seg _ demo_names]) (simp_all add: demo_dom, simp_all add: demo_hal_def)

lemma demo_obj:
  "ho_object_type demo_hal 328 = HAL_COMPONENT" "ho_object_type demo_hal 392 = HAL_PIN"
  "ho_object_type demo_hal 456 = HAL_SIGNAL" "ho_object_type demo_hal 584 = HAL_PIN"
  "ho_name demo_hal 328 = ''c''" "ho_name demo_hal 392 = ''out''" "ho_name demo_hal 456 = ''sig''"
  "ho_name demo_hal 584 = ''in''"
  "ho_valid demo_hal 328" "ho_valid demo_hal 392" "ho_valid demo_hal 456" "ho_valid demo_hal 584"
  "halobjects demo_hal = [328, 584, 392, 456]"
  by (simp_all add: ho_object_type_def ho_name_def ho_valid_def hh_get_name_def demo_hal_def
      demo_objs_def demo_hdr_def)

section \<open>Applications\<close>

lemma demo_heap_status: "heap_avail (demo_heap l) = 800" "heap_fits (demo_heap l) n \<longleftrightarrow> heap_nunits n \<le> 100"
  by (simp_all add: heap_status_wf [OF demo_heap_wf] demo_heap_fields)

text \<open>A request that does not fit into the free block of 800 bytes: the heap
  grows by 32064 bytes, half of the free area.\<close>

theorem shmalloc_desc_correct_witness:
  "\<exists>s' r. shmalloc_desc 4000 demo_hal = (s', r) \<and> shmem_bot s' = 33568 \<and>
     heap_avail (hal_heap s') + (if r = None then 0 else 4008) = 32864"
proof -
  have h: "hal_heap demo_hal = demo_heap 192" "shmem_bot demo_hal = 1504" by (simp_all add: demo_hal_def)
  have "heap_growth demo_hal = 32064" "heap_nunits 4000 = 501"
    by (simp_all add: heap_growth_def demo_hal_def HAL_HEAP_MINFREE_def RTAPI_ALIGN_def heap_nunits_def)
  moreover obtain s' r g where "shmalloc_desc 4000 demo_hal = (s', r)"
    "g = (if heap_fits (hal_heap demo_hal) 4000 then 0 else heap_growth demo_hal)" "shmem_bot s' = shmem_bot demo_hal + int g"
    "heap_avail (hal_heap s') + (if r = None then 0 else 8 * heap_nunits 4000) = heap_avail (hal_heap demo_hal) + g"
    using shmalloc_desc_correct [OF demo_seg, of 4000] by auto
  ultimately show ?thesis by (intro exI [of _ s'] exI [of _ r]) (simp add: h demo_heap_status split: if_splits)
qed

theorem shmalloc_rt_correct_witness:
  "\<exists>s' p. shmalloc_rt 40 demo_hal = (s', Some p) \<and> 8 dvd p \<and> p + 40 \<le> 65536"
  using shmalloc_rt_correct [OF demo_seg, of 40] by (auto simp: rt_align_def demo_hal_def)

theorem halg_find_object_by_name_correct_witness:
  "halg_find_object_by_name HAL_PIN (Some ''nix'') demo_hal = None"
  using halg_find_object_by_name_correct [where t = HAL_PIN and nm = "''nix''" and s = demo_hal]
  by (auto simp: demo_obj split: option.splits)

theorem halg_create_object_correct_witness:
  "\<exists>s' r. halg_create_objectfv 56 (Pin (demo_pin 0 HAL_IN)) HAL_PIN 10 ''x'' demo_hal = (s', r) \<and> store_ok s'"
  using halg_create_object_correct [OF demo_store, of 56] by fastforce

theorem halg_add_object_correct_witness:
  "set (halobjects (halg_add_object 392 (demo_hal\<lparr>halobjects := [584, 456]\<rparr>))) = {392, 584, 456}"
  using halg_add_object_correct [of "demo_hal\<lparr>halobjects := [584, 456]\<rparr>" 392]
  by (simp add: demo_obj sorted_by_name_def live_of_type_def)

theorem halg_free_object_correct_witness:
  "\<exists>s'. halg_free_object 392 demo_hal = (s', 0) \<and> halg_find_object_by_name HAL_PIN (Some ''out'') s' \<noteq> Some 392"
proof -
  have "ho_refcnt demo_hal 392 = 0" by (simp add: ho_refcnt_def demo_hal_def demo_objs_def demo_hdr_def)
  then show ?thesis using halg_free_object_correct [of demo_hal 392] by auto
qed

text \<open>The pin at 392 has been freed: its descriptor of 64 bytes and its name of
  64 bytes go back to the heaps.\<close>

definition demo_freed :: hal where
  "demo_freed = upd_hdr 392 hh_clear_hdr demo_hal"

lemma demo_freed_store: "store_ok demo_freed"
  unfolding demo_freed_def upd_hdr_def by (rule store_ok_upd_obj [OF demo_store]) (simp add: hh_clear_hdr_def hh_set_owner_id_def hh_set_id_def)

theorem hal_sweep_correct_witness:
  "\<exists>s'. hal_sweep demo_freed = (s', 1) \<and> store_ok s' \<and> halobjects s' = [328, 584, 456] \<and> objs s' 392 = None \<and>
     heap_avail (hal_heap s') = 864 \<and> heap_avail (global_heap s') = 864"
proof -
  have h: "halobjects demo_freed = [328, 584, 392, 456]" "hal_heap demo_freed = demo_heap 192"
    "global_heap demo_freed = demo_heap 0"
    by (simp_all add: demo_freed_def upd_hdr_def frame_simps) (simp_all add: demo_hal_def)
  have "ho_valid demo_freed a \<longleftrightarrow> a \<noteq> 392 \<and> ho_valid demo_hal a" for a
    unfolding demo_freed_def by (rule ho_clear_hdr)
  then have f: "filter (\<lambda>a. \<not> ho_valid demo_freed a) [328, 584, 392, 456] = [392]"
    "filter (ho_valid demo_freed) [328, 584, 392, 456] = [328, 584, 456]" by (simp_all add: demo_obj)
  have "name_ptr demo_freed 392 = 200"
    by (simp add: name_ptr_def demo_freed_def upd_hdr_def frame_simps demo_hal_def demo_objs_def demo_hdr_def hh_clear_hdr_def
        hh_set_owner_id_def hh_set_id_def)
  then have "desc_len demo_freed 392 = 56" "name_bytes demo_freed 392 = 64"
    using demo_heap_fields [of 192] demo_heap_fields [of 0]
    by (simp_all add: desc_len_def name_bytes_def block_bytes_def h) (simp add: demo_heap_def)
  then show ?thesis using hal_sweep_correct [OF demo_freed_store] f by (auto simp: h demo_heap_status)
qed

end
