(* ===== verification/Hal_Network.thy ===== *)
theory Hal_Network
  imports Hal_Link Hal_Demo
begin

text \<open>
  The network of pins and signals as a transition system. Every operation that
  creates, links, unlinks, deletes, sweeps or stores values is a step; the
  invariant of \<open>Hal_Link\<close> holds in every reachable state, and the values of
  linked pins are those of their signal.
\<close>

section \<open>The sweep and value stores\<close>

lemma linked_pins_restrict:
  assumes "\<And>a. a \<in> X \<Longrightarrow> P a = None \<or> (\<exists>p. P a = Some p \<and> pin_signal p \<noteq> g)"
  shows "linked_pins (\<lambda>a. if a \<in> X then None else P a) g D = linked_pins P g D"
  unfolding linked_pins_def
proof (intro Collect_cong)
  show "(\<exists>p. (if a \<in> X then None else P a) = Some p \<and> pin_signal p = g \<and> pin_dir p \<in> D) \<longleftrightarrow>
      (\<exists>p. P a = Some p \<and> pin_signal p = g \<and> pin_dir p \<in> D)" for a
    using assms [of a] by (cases "a \<in> X") auto
qed

lemma sig_ok_cong:
  assumes "\<And>D. linked_pins P' g D = linked_pins P g D" "sig_type x' = sig_type x" "sig_readers x' = sig_readers x"
    "sig_writers x' = sig_writers x" "sig_bidirs x' = sig_bidirs x"
  shows "sig_ok P' V g x' = sig_ok P V g x"
  unfolding sig_ok_def assms ..

lemma links_wf_remove:
  assumes wf: "links_wf P S V" and X: "X \<inter> V = {}"
  shows "links_wf (\<lambda>a. if a \<in> X then None else P a) (\<lambda>a. if a \<in> X then None else S a) V"
proof (rule links_wfI)
  let ?P = "\<lambda>a. if a \<in> X then None else P a" and ?S = "\<lambda>a. if a \<in> X then None else S a"
  show "finite (dom ?P)" by (rule finite_subset [OF _ links_wfD(1) [OF wf]]) (auto split: if_splits)
  show "?S 0 = None" using links_wfD(2) [OF wf] by simp
  show "pin_ok ?S V a p" if "?P a = Some p" for a p
  proof -
    have "pin_ok S V a p" using that links_wfD(3) [OF wf, of a p] by (auto split: if_splits)
    then show ?thesis using X by (auto simp: pin_ok_def split: if_splits)
  qed
  show "sig_ok ?P V g x" if "?S g = Some x" for g x
  proof -
    have g: "S g = Some x" using that by (auto split: if_splits)
    then have "g \<noteq> 0" using links_wfD(2) [OF wf] by (cases "g = 0") auto
    then have "P a = None \<or> (\<exists>p. P a = Some p \<and> pin_signal p \<noteq> g)" if "a \<in> X" for a
      using links_wfD(3) [OF wf, of a] that X by (cases "P a") (auto simp: pin_ok_def split: if_splits)
    then have "linked_pins ?P g D = linked_pins P g D" for D by (rule linked_pins_restrict)
    then have "sig_ok ?P V g x = sig_ok P V g x" by (rule sig_ok_cong) simp_all
    then show ?thesis using links_wfD(4) [OF wf g] by simp
  qed
qed

lemma hal_sweep_links:
  assumes "links_ok s" "hal_sweep s = (s', n)"
  shows "links_ok s'" "link_map s' = link_map s"
proof -
  have st: "store_ok s" "typed_objs s" "links_wf (pin_at s) (sig_at s) (live s)"
    using assms by (auto simp: links_ok_def)
  define X where "X = {a \<in> set (halobjects s). \<not> ho_valid s a}"
  have e: "store_ok s'" "halobjects s' = filter (ho_valid s) (halobjects s)"
    "objs s' = (\<lambda>a. if a \<in> X then None else objs s a)"
    using hal_sweep_effect [OF st(1)] assms(2) by (auto simp: X_def fun_eq_iff)
  have at: "pin_at s' = (\<lambda>a. if a \<in> X then None else pin_at s a)"
    "sig_at s' = (\<lambda>a. if a \<in> X then None else sig_at s a)"
    by (auto simp: pin_at_def sig_at_def e(3) fun_eq_iff)
  have "ho_valid s' a = (a \<notin> X \<and> ho_valid s a)" for a by (simp add: ho_valid_def e(3))
  then have V: "live s' = live s" by (auto simp: live_def e(2) X_def)
  have "X \<inter> live s = {}" by (auto simp: X_def live_def)
  then have "links_wf (pin_at s') (sig_at s') (live s')"
    unfolding at V by (rule links_wf_remove [OF st(3)])
  moreover have "typed_objs s'" using st(2) by (auto simp: typed_objs_def e(3))
  ultimately show "links_ok s'" using e(1) by (simp add: links_ok_def)
  have "link_map s a = None" if "a \<in> X" for a
    using that \<open>X \<inter> live s = {}\<close> links_wfD(3) [OF st(3), of a]
    by (cases "pin_at s a") (auto simp: link_map_def pin_ok_def split: if_splits)
  then show "link_map s' = link_map s" by (auto simp: link_map_def at fun_eq_iff)
qed

lemma links_wf_values:
  assumes wf: "links_wf P S V" and
    P: "\<And>p. pin_signal (f p) = pin_signal p \<and> pin_dir (f p) = pin_dir p \<and> pin_type (f p) = pin_type p \<and>
          pin_data_ptr (f p) = pin_data_ptr p" and
    S: "\<And>x. sig_type (h x) = sig_type x \<and> sig_readers (h x) = sig_readers x \<and>
          sig_writers (h x) = sig_writers x \<and> sig_bidirs (h x) = sig_bidirs x"
  shows "links_wf (P(a := map_option f (P a))) S V" "links_wf P (S(g := map_option h (S g))) V"
proof -
  let ?P = "P(a := map_option f (P a))" and ?S = "S(g := map_option h (S g))"
  have l: "linked_pins ?P k D = linked_pins P k D" for k D
    using P by (auto simp: linked_pins_def)
  show "links_wf ?P S V"
  proof (rule links_wfI)
    have "dom ?P = dom P" by (auto simp: dom_def)
    then show "finite (dom ?P)" using links_wfD(1) [OF wf] by simp
    show "pin_ok S V b p" if pb: "?P b = Some p" for b p
    proof (cases "b = a")
      case True
      then obtain q where "P a = Some q" "p = f q" using pb by auto
      then show ?thesis using True links_wfD(3) [OF wf, of a q] P [of q] by (simp add: pin_ok_def)
    qed (use that links_wfD(3) [OF wf] in auto)
    show "sig_ok ?P V k x" if "S k = Some x" for k x
      using links_wfD(4) [OF wf that] by (subst sig_ok_cong [where P = P]) (simp_all add: l)
  qed (use links_wfD(2) [OF wf] in auto)
  show "links_wf P ?S V"
  proof (rule links_wfI)
    show "pin_ok ?S V b p" if "P b = Some p" for b p
      using links_wfD(3) [OF wf that] S by (auto simp: pin_ok_def split: if_splits)
    show "sig_ok P V k x" if sk: "?S k = Some x" for k x
    proof (cases "k = g")
      case True
      then obtain y where y: "S g = Some y" "x = h y" using sk by auto
      then have "sig_ok P V g x = sig_ok P V g y" by (intro sig_ok_cong) (simp_all add: S)
      then show ?thesis using True links_wfD(4) [OF wf y(1)] by simp
    qed (use that links_wfD(4) [OF wf] in auto)
  qed (use links_wfD(1,2) [OF wf] in auto)
qed

lemma set_sig_links:
  assumes "links_ok s"
  shows "links_ok (set_sig t g v s)" "link_map (set_sig t g v s) = link_map s"
proof -
  show "links_ok (set_sig t g v s)"
    using assms unfolding links_ok_def set_sig_def by (auto simp: link_simps intro!: links_wf_values(2))
  show "link_map (set_sig t g v s) = link_map s" by (simp add: link_map_def set_sig_def link_simps fun_eq_iff)
qed

lemma set_pin_links:
  assumes "links_ok s"
  shows "links_ok (set_pin t a v s)" "link_map (set_pin t a v s) = link_map s"
proof -
  have e: "set_pin t a v s = (if pin_data_ptr (pin_of s a) = dummysig_of a
      then upd_pin a (\<lambda>p. p\<lparr>pin_dummysig := set_typed t (pin_dummysig p) v\<rparr>) s
      else set_sig t (pin_data_ptr (pin_of s a) - value_of 0) v s)"
    by (simp add: set_pin_def set_sig_def)
  show "links_ok (set_pin t a v s)"
    using assms set_sig_links(1) [OF assms] unfolding e
    by (auto simp: links_ok_def link_simps intro!: links_wf_values(1))
  show "link_map (set_pin t a v s) = link_map s"
    using set_sig_links(2) [OF assms] unfolding e by (auto simp: link_map_def link_simps fun_eq_iff split: option.splits)
qed


section \<open>The value seen through a pin\<close>

lemma get_pin_links:
  assumes "links_ok s" "pin_at s a = Some p"
  shows "get_pin t a s = (case link_map s a of
    None \<Rightarrow> get_typed t (pin_dummysig p) | Some g \<Rightarrow> get_sig t g s)"
proof -
  have pk: "pin_ok (sig_at s) (live s) a p" by (rule links_ok_pin(2) [OF assms])
  have ofp: "pin_of s a = p" by (rule pin_of_at [OF assms(2)])
  show ?thesis
  proof (cases "pin_signal p = 0")
    case True
    then show ?thesis using pk by (simp add: get_pin_def ofp link_map_def assms(2) pin_ok_def)
  next
    case False
    then obtain x where x: "sig_at s (pin_signal p) = Some x" "pin_data_ptr p = value_of (pin_signal p)"
      using pk by (auto simp: pin_ok_def)
    have "store_ok s" using assms(1) by (simp add: links_ok_def)
    from value_not_dummy(1) [OF this assms(2) x(1)] show ?thesis using x(2) False
      by (simp add: get_pin_def ofp link_map_def assms(2) get_sig_def) (simp add: value_of_def)
  qed
qed

lemma set_pin_cases:
  assumes "links_ok s" "pin_at s a = Some p"
  shows "set_pin t a v s = (case link_map s a of
    None \<Rightarrow> upd_pin a (\<lambda>p. p\<lparr>pin_dummysig := set_typed t (pin_dummysig p) v\<rparr>) s | Some g \<Rightarrow> set_sig t g v s)"
proof -
  have pk: "pin_ok (sig_at s) (live s) a p" by (rule links_ok_pin(2) [OF assms])
  have ofp: "pin_of s a = p" by (rule pin_of_at [OF assms(2)])
  show ?thesis
  proof (cases "pin_signal p = 0")
    case True
    then show ?thesis using pk by (simp add: set_pin_def ofp link_map_def assms(2) pin_ok_def)
  next
    case False
    then obtain x where x: "sig_at s (pin_signal p) = Some x" "pin_data_ptr p = value_of (pin_signal p)"
      using pk by (auto simp: pin_ok_def)
    have "store_ok s" using assms(1) by (simp add: links_ok_def)
    from value_not_dummy(1) [OF this assms(2) x(1)] show ?thesis using x(2) False
      by (simp add: set_pin_def ofp link_map_def assms(2) set_sig_def) (simp add: value_of_def)
  qed
qed

lemma get_sig_at: "sig_at s g = Some x \<Longrightarrow> get_sig t g s = get_typed t (sig_value x)"
  by (simp add: get_sig_def sig_of_at)

lemma sig_of_set_sig:
  "sig_at s g = Some x \<Longrightarrow> sig_of (set_sig t g v s) k =
     (if k = g then x\<lparr>sig_value := set_typed t (sig_value x) v\<rparr> else sig_of s k)"
proof -
  have e: "sig_of s k = (case sig_at s k of None \<Rightarrow> zero_sig | Some y \<Rightarrow> y)" for s :: hal and k
    by (auto simp: sig_of_def sig_at_def sig_body_def split: option.splits hal_body.splits)
  show "sig_at s g = Some x \<Longrightarrow> ?thesis"
    unfolding e by (simp add: set_sig_def link_simps)
qed

lemma links_ok_sig: "links_ok s \<Longrightarrow> sig_at s g = Some x \<Longrightarrow> sig_ok (pin_at s) (live s) g x"
  by (auto simp: links_ok_def links_wf_def)

lemma linked_sig_at:
  assumes "links_ok s" "link_map s a = Some g"
  obtains p x where "pin_at s a = Some p" "pin_signal p = g" "g \<noteq> 0" "sig_at s g = Some x" "a \<in> live s" "g \<in> live s"
    "sig_type x = pin_type p" "sig_type x \<in> link_types"
proof -
  obtain p where p: "pin_at s a = Some p" "pin_signal p = g" "g \<noteq> 0"
    using assms(2) by (auto simp: link_map_def split: option.splits if_splits)
  then obtain x where x: "sig_at s g = Some x" "a \<in> live s" "g \<in> live s" "sig_type x = pin_type p"
    using links_ok_pin(2) [OF assms(1) p(1)] by (auto simp: pin_ok_def)
  then have "sig_type x \<in> link_types" using links_ok_sig [OF assms(1) x(1)] by (simp add: sig_ok_def)
  with p x that show thesis by blast
qed

lemma set_pin_get_linked:
  assumes ok: "links_ok s" and a: "link_map s a = Some g" and b: "pin_at s b \<noteq> None"
  shows "get_pin t b (set_pin t a v s) = (if link_map s b = Some g then get_typed t v else get_pin t b s)"
proof -
  obtain p x where p: "pin_at s a = Some p" "sig_at s g = Some x" using linked_sig_at [OF ok a] by metis
  obtain q where q: "pin_at s b = Some q" using b by auto
  have e: "set_pin t a v s = set_sig t g v s" using set_pin_cases [OF ok p(1)] a by simp
  have "pin_at (set_sig t g v s) b = Some q" using q by (simp add: set_sig_def link_simps)
  from get_pin_links [OF set_sig_links(1) [OF ok] this] get_pin_links [OF ok q]
  show ?thesis unfolding e
    by (auto simp: set_sig_links(2) [OF ok] get_sig_def sig_of_set_sig [OF p(2)] split: option.splits)
qed

section \<open>The transition system\<close>

inductive net_step :: "hal \<Rightarrow> hal \<Rightarrow> bool" where
  link: "net_step s (fst (halg_link pn sn s))"
| unlink: "net_step s (fst (halg_unlink pn s))"
| new_signal: "net_step s (fst (halg_signal_new sn t s))"
| delete_signal: "net_step s (fst (halg_signal_delete sn s))"
| new_pin: "net_step s (fst (halg_pin_newfv t dir addr owner v fmt s))"
| free_pin: "pin_at s a \<noteq> None \<Longrightarrow> net_step s (free_pin_struct a s)"
| sweep: "net_step s (fst (hal_sweep s))"
| barriers: "net_step s (fst (halg_object_setbarriers a r w s))"
| signal_barriers: "net_step s (fst (halg_signal_setbarriers sn r w s))"
| store_pin: "net_step s (set_pin t a v s)"
| store_sig: "net_step s (set_sig t a v s)"

lemma setbarriers_same: "same_links s (fst (halg_object_setbarriers a r w s))"
proof -
  have u: "same_links s (upd_hdr a (hh_set_rmb b) s)" "same_links s (upd_hdr a (hh_set_wmb b) s)" for s b
    by (rule same_links_upd_hdr; simp add: hh_set_rmb_def hh_set_wmb_def)+
  define s1 where "s1 = (if r > -1 then upd_hdr a (hh_set_rmb r) s else s)"
  define s2 where "s2 = (if w > -1 then upd_hdr a (hh_set_wmb w) s1 else s1)"
  have s2: "same_links s s2" unfolding s2_def s1_def using u u(1) [THEN same_links_trans, OF u(2)] by simp
  have "same_links s (if ho_object_type s2 a = HAL_SIGNAL then fst (halg_signal_propagate_barriers a s2) else s2)"
    using s2 same_links_trans [OF s2 propagate_same] by auto
  then show ?thesis
    unfolding halg_object_setbarriers_def Let_def s1_def [symmetric] s2_def [symmetric]
    by (simp add: halfail_rc_def)
qed

lemma signal_setbarriers_same: "same_links s (fst (halg_signal_setbarriers sn r w s))"
  using same_links_trans [OF setbarriers_same propagate_same]
  by (auto simp: halg_signal_setbarriers_def halfail_rc_def Let_def split: option.splits)

lemma net_step_ok:
  assumes "net_step s s'" "links_ok s"
  shows "links_ok s'"
  using assms
proof cases
  case (link pn sn)
  obtain rc where "halg_link pn sn s = (s', rc)" using link by (metis prod.collapse)
  from assms(2) this show ?thesis
    by (cases rule: halg_link_cases) (use assms(2) same_links_ok in auto)
next
  case (unlink pn)
  obtain rc where "halg_unlink pn s = (s', rc)" using unlink by (metis prod.collapse)
  from assms(2) this show ?thesis
    by (cases rule: halg_unlink_cases) (use assms(2) same_links_ok in auto)
next
  case (delete_signal sn)
  obtain rc where "halg_signal_delete sn s = (s', rc)" using delete_signal by (metis prod.collapse)
  from assms(2) this show ?thesis
    by (cases rule: halg_signal_delete_cases) (use assms(2) same_links_ok in auto)
next
  case (new_signal sn t)
  then show ?thesis using halg_signal_new_ok(1) [OF assms(2)] by (metis prod.collapse)
next
  case (new_pin t dir addr owner v fmt)
  then show ?thesis using halg_pin_newfv_ok(1) [OF assms(2)] by (metis prod.collapse)
next
  case (free_pin a)
  then show ?thesis using free_pin_struct_ok(1) [OF assms(2)] by auto
next
  case sweep
  then show ?thesis using hal_sweep_links(1) [OF assms(2)] by (metis prod.collapse)
next
  case (barriers a r w)
  then show ?thesis using same_links_ok [OF setbarriers_same assms(2)] by simp
next
  case (signal_barriers sn r w)
  then show ?thesis using same_links_ok [OF signal_setbarriers_same assms(2)] by simp
next
  case (store_pin t a v)
  then show ?thesis using set_pin_links(1) [OF assms(2)] by simp
next
  case (store_sig t a v)
  then show ?thesis using set_sig_links(1) [OF assms(2)] by simp
qed

interpretation net: transition_invariant net_step links_ok
  by unfold_locales (rule net_step_ok)


lemma ho_refcnt_upd:
  "ho_refcnt (upd_pin a f s) = ho_refcnt s" "ho_refcnt (upd_sig a h s) = ho_refcnt s"
  "ho_refcnt (set_cell d v s) = ho_refcnt s" "ho_refcnt (s\<lparr>fault := b\<rparr>) = ho_refcnt s"
  unfolding upd_pin_def upd_sig_def
  by (rule ho_upd_obj_hdr(7), simp add: upd_pin_body upd_sig_body)+
    (simp_all add: ho_refcnt_def set_cell_def fun_eq_iff)

lemma unlink_pin_refcnt: "ho_refcnt (unlink_pin a s) = ho_refcnt s"
proof -
  have "ho_refcnt (copy_sig_to_dummy a g s) = ho_refcnt s" for a g s
    using copy_sig_to_dummy_eq [of a g s] by (auto simp: ho_refcnt_upd)
  then show ?thesis
    by (auto simp: unlink_pin_def Let_def ho_refcnt_upd pin_set_unlinked_def split: option.splits)
qed

lemma signal_delete_rc:
  assumes "hal_attached s" "\<not> locked HAL_LOCK_CONFIG s" "\<not> bad_str sn HAL_NAME_LEN"
    "halg_find_object_by_name HAL_SIGNAL sn s = Some g"
  shows "snd (halg_signal_delete sn s) = (if ho_refcnt s g = 0 then 0 else - EBUSY)"
proof -
  let ?R = "\<lambda>s s'. ho_refcnt s' = ho_refcnt s"
  have "?R s (fst (foreach_loop sel (pin_by_signal_callback g (Some unlink_pin_callback)) xs s u n))" for sel xs u n
    by (rule foreach_loop_rel [where R = ?R])
      (simp_all add: pin_by_signal_callback_def unlink_pin_callback_def unlink_pin_refcnt)
  then show ?thesis
    using assms by (simp add: halg_signal_delete_def free_sig_struct_def free_object_eq
        halg_foreach_pin_by_signal_def halg_foreach_def)
qed

section \<open>Properties\<close>

text \<open>C1: Linking refines an assignment to the map from pins to signals. A
  request is accepted exactly when both objects exist, the configuration is not
  locked and either the pin is linked to that signal already or it is not
  linked, has the type of the signal and, as an output, the signal has no other
  output or bidirectional pin, as a bidirectional pin, no output. A refused
  request changes no pin and no signal.\<close>

theorem halg_link_correct:
  assumes "links_ok s"
  shows "\<exists>s' rc. halg_link pn sn s = (s', rc) \<and> links_ok s' \<and> halobjects s' = halobjects s \<and>
    (case link_request s pn sn of
       None \<Rightarrow> rc < 0 \<and> pin_at s' = pin_at s \<and> sig_at s' = sig_at s
     | Some (pin, sig) \<Rightarrow> rc = 0 \<and> link_map s' = (link_map s)(pin \<mapsto> sig))"
proof -
  obtain s' rc where l: "halg_link pn sn s = (s', rc)" by fastforce
  from assms l show ?thesis
  proof (cases rule: halg_link_cases)
    case fail
    then show ?thesis using l assms same_links_ok by (auto simp: same_links_def)
  next
    case (already pin sig)
    then show ?thesis using l assms by (auto simp: fun_eq_iff)
  next
    case (linked pin sig p x)
    then show ?thesis using l by auto
  qed
qed

lemma sig_counts_zero:
  assumes "links_ok s" "sig_at s g = Some x"
  shows "sig_readers x + sig_writers x + sig_bidirs x = 0 \<longleftrightarrow> (\<forall>a. link_map s a \<noteq> Some g)"
proof -
  have so: "sig_ok (pin_at s) (live s) g x" and g0: "g \<noteq> 0" and wf: "links_wf (pin_at s) (sig_at s) (live s)"
    using links_ok_sig [OF assms] assms by (auto simp: links_ok_def links_wf_def intro: ccontr)
  let ?L = "linked_pins (pin_at s) g"
  have fin: "finite (?L D)" for D using wf linked_pins_finite by (auto simp: links_wf_def)
  have "sig_readers x + sig_writers x + sig_bidirs x = 0 \<longleftrightarrow> ?L {HAL_IN, HAL_IO} = {} \<and> ?L {HAL_OUT} = {} \<and> ?L {HAL_IO} = {}"
    using so fin by (simp add: sig_ok_def flip: card_0_eq) linarith
  also have "\<dots> \<longleftrightarrow> (\<forall>a. link_map s a \<noteq> Some g)"
  proof
    assume e: "?L {HAL_IN, HAL_IO} = {} \<and> ?L {HAL_OUT} = {} \<and> ?L {HAL_IO} = {}"
    show "\<forall>a. link_map s a \<noteq> Some g"
    proof (intro allI notI)
      fix a assume "link_map s a = Some g"
      from linked_sig_at [OF assms(1) this] obtain p where p: "pin_at s a = Some p" "pin_signal p = g" by metis
      then have "pin_dir p \<in> {HAL_IN, HAL_OUT, HAL_IO}"
        using links_ok_pin(2) [OF assms(1) p(1)] by (simp add: pin_ok_def)
      then show False using e p by (auto simp: linked_pins_def)
    qed
  next
    assume n: "\<forall>a. link_map s a \<noteq> Some g"
    have "?L D = {}" for D
    proof -
      have "a \<notin> ?L D" for a using n [rule_format, of a] g0 by (auto simp: linked_pins_def link_map_def)
      then show ?thesis by auto
    qed
    then show "?L {HAL_IN, HAL_IO} = {} \<and> ?L {HAL_OUT} = {} \<and> ?L {HAL_IO} = {}" by simp
  qed
  finally show ?thesis .
qed

text \<open>Linking never changes the value of an output pin, nor that of the
  first pin of a signal: the signal takes the value of the pin. Any other pin
  takes the value of the signal.\<close>

theorem halg_link_value:
  assumes "links_ok s" "link_request s pn sn = Some (pin, sig)" "link_map s pin = None" "pin_at s pin = Some p"
  shows "get_pin (pin_type p) pin (fst (halg_link pn sn s)) =
    (if pin_dir p = HAL_OUT \<or> (\<forall>a. link_map s a \<noteq> Some sig) then get_pin (pin_type p) pin s
     else get_sig (pin_type p) sig s)"
proof -
  obtain s' rc where l: "halg_link pn sn s = (s', rc)" by fastforce
  from assms(1) l show ?thesis
  proof (cases rule: halg_link_cases)
    case (linked pin' sig' p' x)
    then have e: "pin' = pin" "sig' = sig" "p' = p" using assms by auto
    obtain x' where x': "sig_at s' sig = Some x'" "get_typed (pin_type p) (sig_value x') =
         (if pin_dir p = HAL_OUT \<or> sig_readers x + sig_writers x + sig_bidirs x = 0
          then get_typed (pin_type p) (pin_dummysig p) else get_typed (pin_type p) (sig_value x))"
      using linked(12) unfolding e by blast
    have lm: "link_map s' pin = Some sig" using linked e by simp
    then obtain q where q: "pin_at s' pin = Some q" using linked_sig_at [OF linked(9)] by metis
    have "get_pin (pin_type p) pin s' = get_typed (pin_type p) (sig_value x')"
      using get_pin_links [OF linked(9) q, of "pin_type p"] get_sig_at [OF x'(1), of "pin_type p"] lm by simp
    then show ?thesis
      using x'(2) sig_counts_zero [OF assms(1), of sig x] linked e l
        get_pin_links [OF assms(1,4), of "pin_type p"] get_sig_at [of s sig x "pin_type p"] assms(3)
      by simp
  qed (use assms in auto)
qed


lemma unlink_pin_value:
  assumes "links_ok s" "pin_at s a = Some p"
  shows "get_pin (pin_type p) a (unlink_pin a s) = get_pin (pin_type p) a s"
proof (cases "pin_signal p = 0")
  case True
  then have "unlink_pin a s = s" using links_ok_pin(1) [OF assms] by (simp add: unlink_pin_def)
  then show ?thesis by simp
next
  case False
  then have lm: "link_map s a = Some (pin_signal p)" using assms(2) by (simp add: link_map_def)
  from unlink_pin_effect [OF assms False] obtain p' x where e:
    "pin_at (unlink_pin a s) = (pin_at s)(a \<mapsto> p')" "sig_at s (pin_signal p) = Some x" "pin_signal p' = 0"
    "pin_type p \<in> link_types \<Longrightarrow>
       pin_dummysig p' = set_typed (pin_type p) (pin_dummysig p) (get_typed (pin_type p) (sig_value x))"
    "links_ok (unlink_pin a s)" by metis
  have "pin_type p \<in> link_types" using linked_sig_at [OF assms(1) lm] assms(2) by (metis option.inject)
  then have "get_typed (pin_type p) (pin_dummysig p') = get_typed (pin_type p) (sig_value x)" using e(4) by simp
  moreover have "pin_at (unlink_pin a s) a = Some p'" "link_map (unlink_pin a s) a = None"
    using e(1,3) by (simp_all add: link_map_def)
  ultimately show ?thesis
    using get_pin_links [OF e(5)] get_pin_links [OF assms] get_sig_at [OF e(2)] lm by simp
qed

text \<open>Unlinking removes the pin from the map of links and leaves every other
  link alone; the pin keeps the value it had through its signal. A refused
  request changes no pin and no signal.\<close>

theorem halg_unlink_correct:
  assumes "links_ok s"
  shows "\<exists>s' rc. halg_unlink pn s = (s', rc) \<and> links_ok s' \<and>
    (if hal_attached s \<and> \<not> locked HAL_LOCK_CONFIG s \<and> \<not> bad_str pn HAL_NAME_LEN \<and>
        halg_find_object_by_name HAL_PIN pn s \<noteq> None
     then rc = 0 \<and> (\<exists>pin p. halg_find_object_by_name HAL_PIN pn s = Some pin \<and> pin_at s pin = Some p \<and>
       link_map s' = (link_map s)(pin := None) \<and> get_pin (pin_type p) pin s' = get_pin (pin_type p) pin s)
     else rc < 0 \<and> pin_at s' = pin_at s \<and> sig_at s' = sig_at s)"
proof (cases "hal_attached s \<and> \<not> locked HAL_LOCK_CONFIG s \<and> \<not> bad_str pn HAL_NAME_LEN \<and>
    halg_find_object_by_name HAL_PIN pn s \<noteq> None")
  case True
  then obtain pin where f: "halg_find_object_by_name HAL_PIN pn s = Some pin" by auto
  then obtain p where p: "pin_at s pin = Some p" using find_pin [OF f] assms by (metis links_ok_def)
  have "halg_unlink pn s = (unlink_pin pin s, 0)" using True f by (simp add: halg_unlink_def)
  then show ?thesis using True f p unlink_pin_ok [OF assms p] unlink_pin_value [OF assms p] by auto
next
  case False
  obtain s' rc where l: "halg_unlink pn s = (s', rc)" by fastforce
  then have "rc < 0 \<and> same_links s s'"
    using False by (auto simp: halg_unlink_def halfail_rc_def split: if_splits option.splits)
  then show ?thesis using l False same_links_ok [OF _ assms] by (auto simp: same_links_def)
qed

text \<open>Deleting a signal cuts every link to it and no other link, and keeps
  the network well formed; the signal itself is freed exactly when it is not
  referenced, and EBUSY is returned otherwise. A request for an unknown signal
  or under a lock changes nothing.\<close>

theorem halg_signal_delete_correct:
  assumes "links_ok s"
  shows "\<exists>s' rc. halg_signal_delete sn s = (s', rc) \<and> links_ok s' \<and>
    (if hal_attached s \<and> \<not> locked HAL_LOCK_CONFIG s \<and> \<not> bad_str sn HAL_NAME_LEN \<and>
        halg_find_object_by_name HAL_SIGNAL sn s \<noteq> None
     then \<exists>sig. halg_find_object_by_name HAL_SIGNAL sn s = Some sig \<and>
       rc = (if ho_refcnt s sig = 0 then 0 else - EBUSY) \<and>
       link_map s' = (\<lambda>a. if link_map s a = Some sig then None else link_map s a)
     else rc < 0 \<and> pin_at s' = pin_at s \<and> sig_at s' = sig_at s)"
proof (cases "hal_attached s \<and> \<not> locked HAL_LOCK_CONFIG s \<and> \<not> bad_str sn HAL_NAME_LEN \<and>
    halg_find_object_by_name HAL_SIGNAL sn s \<noteq> None")
  case True
  then obtain g where f: "halg_find_object_by_name HAL_SIGNAL sn s = Some g" by auto
  then obtain x where x: "sig_at s g = Some x" using find_sig [OF f] assms by (metis links_ok_def)
  have "fst (halg_signal_delete sn s) = fst (free_sig_struct g s)"
    using True f by (simp add: halg_signal_delete_def)
  then show ?thesis
    using True f free_sig_struct_ok [OF assms x] signal_delete_rc [of s sn g]
    by (cases "halg_signal_delete sn s") auto
next
  case False
  obtain s' rc where l: "halg_signal_delete sn s = (s', rc)" by fastforce
  then have "rc < 0 \<and> same_links s s'"
    using False by (auto simp: halg_signal_delete_def halfail_rc_def split: if_splits option.splits)
  then show ?thesis using l False same_links_ok [OF _ assms] by (auto simp: same_links_def)
qed

text \<open>C8: A value stored through a pin is read back, at the width of its type,
  through that pin and every other pin linked to the same signal, and through
  no other pin.\<close>

theorem set_pin_get_pin:
  assumes ok: "links_ok s" and a: "pin_at s a \<noteq> None" and b: "pin_at s b \<noteq> None"
  shows "get_pin t b (set_pin t a v s) =
    (if b = a \<or> link_map s a \<noteq> None \<and> link_map s b = link_map s a then get_typed t v else get_pin t b s)"
proof (cases "link_map s a")
  case (Some g)
  then show ?thesis using set_pin_get_linked [OF ok Some b] by auto
next
  case None
  obtain p where p: "pin_at s a = Some p" using a by auto
  obtain q where q: "pin_at s b = Some q" using b by auto
  let ?s' = "set_pin t a v s"
  have e: "?s' = upd_pin a (\<lambda>p. p\<lparr>pin_dummysig := set_typed t (pin_dummysig p) v\<rparr>) s"
    using set_pin_cases [OF ok p] None by simp
  define q' where "q' = (if b = a then q\<lparr>pin_dummysig := set_typed t (pin_dummysig q) v\<rparr> else q)"
  have q': "pin_at ?s' b = Some q'" using p q unfolding e by (auto simp: link_simps q'_def)
  have "sig_of ?s' k = sig_of s k" for k
    using e by (simp add: sig_of_def upd_pin_def frame_simps split: option.splits hal_body.splits)
  then show ?thesis
    using get_pin_links [OF set_pin_links(1) [OF ok] q'] get_pin_links [OF ok q] None p q
    by (auto simp: set_pin_links(2) [OF ok] q'_def get_sig_def split: option.splits)
qed

text \<open>C2: In every state reached from a well-formed network by any sequence of
  the operations that create, link, unlink, delete, sweep and store, a linked
  pin has the type of its valid signal and an output pin shares its signal with
  input pins only.\<close>

theorem net_reachable_single_writer:
  assumes "net_step\<^sup>*\<^sup>* s0 s" "links_ok s0" "link_map s a = Some g" "pin_at s a = Some p"
  shows "g \<in> live s \<and> (\<exists>x. sig_at s g = Some x \<and> sig_type x = pin_type p) \<and>
    (pin_dir p = HAL_OUT \<longrightarrow>
       (\<forall>b q. b \<noteq> a \<and> link_map s b = Some g \<and> pin_at s b = Some q \<longrightarrow> pin_dir q = HAL_IN))"
proof -
  have ok: "links_ok s" by (rule net.reach_keeps [OF assms(1,2)])
  obtain x where x: "sig_at s g = Some x" "g \<in> live s" "sig_type x = pin_type p"
    using linked_sig_at [OF ok assms(3)] assms(4) by (metis option.inject)
  have so: "sig_ok (pin_at s) (live s) g x" by (rule links_ok_sig [OF ok x(1)])
  have fin: "finite (linked_pins (pin_at s) g D)" for D
    using ok linked_pins_finite by (auto simp: links_ok_def links_wf_def)
  have dir: "pin_dir q = HAL_IN" if out: "pin_dir p = HAL_OUT" and b: "b \<noteq> a" "link_map s b = Some g" "pin_at s b = Some q"
    for b q
  proof -
    have ab: "a \<in> linked_pins (pin_at s) g {HAL_OUT}" "b \<in> linked_pins (pin_at s) g {pin_dir q}"
      using assms(3,4) b out by (auto simp: linked_pins_def link_map_def split: if_splits)
    then have "card (linked_pins (pin_at s) g {HAL_OUT}) \<noteq> 0" using fin by (auto simp: card_eq_0_iff)
    then have w: "sig_writers x = 1" using so by (simp add: sig_ok_def)
    then have "sig_bidirs x = 0" using so by (simp add: sig_ok_def)
    then have c: "card (linked_pins (pin_at s) g {HAL_OUT}) = 1" "linked_pins (pin_at s) g {HAL_IO} = {}"
      using so w fin [of "{HAL_IO}"] by (simp_all add: sig_ok_def card_eq_0_iff)
    then have "linked_pins (pin_at s) g {HAL_OUT} = {a}" using ab(1) by (auto simp: card_1_singleton_iff)
    then have "pin_dir q \<noteq> HAL_OUT" "pin_dir q \<noteq> HAL_IO" using ab(2) b(1) c(2) by auto
    then show ?thesis using links_ok_pin(2) [OF ok b(3)] by (simp add: pin_ok_def)
  qed
  show ?thesis using x dir by auto
qed


text \<open>C19: Every reachable state is well typed: a header of type HAL_PIN stands
  before a pin descriptor and no other, a header of type HAL_SIGNAL before a
  signal descriptor and no other, every pin has a direction the code knows,
  every valid signal a type that pins can be linked with, and an object that
  lookups return has the descriptor its type announces.\<close>

theorem net_reachable_typed:
  assumes "net_step\<^sup>*\<^sup>* s0 s" "links_ok s0"
  shows "(\<forall>a ob. objs s a = Some ob \<longrightarrow>
      (hh_object_type (hdr ob) = HAL_PIN \<longleftrightarrow> (\<exists>p. body ob = Pin p \<and> hal_valid_dir (pin_dir p))) \<and>
      (hh_object_type (hdr ob) = HAL_SIGNAL \<longleftrightarrow> (\<exists>x. body ob = Sig x))) \<and>
    (halg_find_object_by_name HAL_PIN nm s = Some a \<longrightarrow> (\<exists>p. pin_at s a = Some p)) \<and>
    (halg_find_object_by_name HAL_SIGNAL nm s = Some a \<longrightarrow>
       (\<exists>x. sig_at s a = Some x \<and> sig_type x \<in> {HAL_BIT, HAL_FLOAT, HAL_S32, HAL_U32}))"
proof -
  have ok: "links_ok s" by (rule net.reach_keeps [OF assms])
  then have ty: "typed_objs s" by (simp add: links_ok_def)
  have dir: "hal_valid_dir (pin_dir p)" if "objs s a = Some ob" "body ob = Pin p" for a ob p
  proof -
    have "pin_at s a = Some p" using that by (simp add: pin_at_def)
    then show ?thesis using links_ok_pin(2) [OF ok] by (auto simp: pin_ok_def hal_valid_dir_def)
  qed
  have t: "(hh_object_type (hdr ob) = HAL_PIN \<longleftrightarrow> (\<exists>p. body ob = Pin p)) \<and>
      (hh_object_type (hdr ob) = HAL_SIGNAL \<longleftrightarrow> (\<exists>x. body ob = Sig x))" if "objs s a = Some ob" for a ob
    using ty that unfolding typed_objs_def by (metis pin_body_eq sig_body_eq option.exhaust option.distinct(1))
  have p: "\<exists>p. pin_at s a = Some p" if "halg_find_object_by_name HAL_PIN nm s = Some a"
    using find_pin [OF that ty] by blast
  have g: "\<exists>x. sig_at s a = Some x \<and> sig_type x \<in> {HAL_BIT, HAL_FLOAT, HAL_S32, HAL_U32}"
    if f: "halg_find_object_by_name HAL_SIGNAL nm s = Some a"
  proof -
    obtain x where x: "sig_at s a = Some x" "a \<in> live s" using find_sig [OF f ty] .
    then have "sig_type x \<in> link_types" using links_ok_sig [OF ok x(1)] unfolding sig_ok_def by blast
    then show ?thesis using x(1) unfolding link_types_def by blast
  qed
  have "(hh_object_type (hdr ob) = HAL_PIN \<longleftrightarrow> (\<exists>p. body ob = Pin p \<and> hal_valid_dir (pin_dir p))) \<and>
      (hh_object_type (hdr ob) = HAL_SIGNAL \<longleftrightarrow> (\<exists>x. body ob = Sig x))" if "objs s a = Some ob" for a ob
    using t [OF that] dir [OF that] by blast
  then show ?thesis using p g by blast
qed

section \<open>Applications\<close>

lemma demo_at:
  "pin_at demo_hal = [392 \<mapsto> demo_pin 392 HAL_OUT, 584 \<mapsto> demo_pin 584 HAL_IN]"
  "sig_at demo_hal = [456 \<mapsto> \<lparr>sig_type = HAL_BIT, sig_value = 0, sig_readers = 0, sig_writers = 0, sig_bidirs = 0\<rparr>]"
  by (simp_all add: fun_eq_iff pin_at_def sig_at_def demo_hal_def demo_objs_def pin_body_def sig_body_def)

lemma demo_link_map: "link_map demo_hal = (\<lambda>_. None)"
  by (simp add: link_map_def demo_at fun_eq_iff demo_pin_def)

lemma demo_linked: "g \<noteq> 0 \<Longrightarrow> linked_pins (pin_at demo_hal) g D = {}"
  by (auto simp: linked_pins_def demo_at demo_pin_def split: if_splits)

lemma demo_links_ok: "links_ok demo_hal"
proof -
  have "typed_objs demo_hal"
    by (auto simp: typed_objs_def demo_hal_def demo_objs_def demo_hdr_def pin_body_def sig_body_def split: if_splits)
  moreover have "links_wf (pin_at demo_hal) (sig_at demo_hal) (live demo_hal)"
  proof (rule links_wfI)
    show "pin_ok (sig_at demo_hal) (live demo_hal) a p" if "pin_at demo_hal a = Some p" for a p
      using that by (auto simp: demo_at demo_pin_def pin_ok_def split: if_splits)
    show "sig_ok (pin_at demo_hal) (live demo_hal) g x" if "sig_at demo_hal g = Some x" for g x
    proof -
      have "g = 456" "x = \<lparr>sig_type = HAL_BIT, sig_value = 0, sig_readers = 0, sig_writers = 0, sig_bidirs = 0\<rparr>"
        using that by (auto simp: demo_at split: if_splits)
      then show ?thesis by (simp add: sig_ok_def demo_linked link_types_def)
    qed
  qed (simp_all add: demo_at)
  ultimately show ?thesis using demo_store by (simp add: links_ok_def)
qed

lemma demo_find:
  "halg_find_object_by_name HAL_PIN (Some ''out'') demo_hal = Some 392"
  "halg_find_object_by_name HAL_PIN (Some ''in'') demo_hal = Some 584"
  "halg_find_object_by_name HAL_SIGNAL (Some ''sig'') demo_hal = Some 456"
  by (simp_all add: find_by_name_eq selected_def demo_obj)

lemma demo_open: "hal_attached demo_hal" "\<not> locked HAL_LOCK_CONFIG demo_hal"
  "\<not> bad_str (Some ''out'') HAL_NAME_LEN" "\<not> bad_str (Some ''sig'') HAL_NAME_LEN"
  by (simp_all add: demo_hal_def locked_def bad_str_def HAL_NAME_LEN_def)

lemma demo_request: "link_request demo_hal (Some ''out'') (Some ''sig'') = Some (392, 456)"
  using demo_open demo_find
  by (simp add: link_request_def may_link_def demo_link_map demo_linked) (simp add: demo_at demo_pin_def)

theorem halg_link_correct_witness:
  "\<exists>s'. halg_link (Some ''out'') (Some ''sig'') demo_hal = (s', 0) \<and> link_map s' = [392 \<mapsto> 456]"
  using halg_link_correct [OF demo_links_ok, of "Some ''out''" "Some ''sig''"]
  by (auto simp: demo_request demo_link_map)

theorem halg_link_value_witness:
  "get_pin HAL_BIT 392 (fst (halg_link (Some ''out'') (Some ''sig'') demo_hal)) = get_pin HAL_BIT 392 demo_hal"
  using halg_link_value [OF demo_links_ok demo_request]
  by (simp add: demo_link_map demo_at) (simp add: demo_pin_def)

theorem halg_unlink_correct_witness:
  "\<exists>s'. halg_unlink (Some ''out'') demo_hal = (s', 0) \<and> links_ok s'"
  using halg_unlink_correct [OF demo_links_ok, of "Some ''out''"] demo_open demo_find by auto

theorem halg_signal_delete_correct_witness:
  "\<exists>s'. halg_signal_delete (Some ''sig'') demo_hal = (s', 0) \<and> link_map s' = Map.empty"
proof -
  have "ho_refcnt demo_hal 456 = 0" by (simp add: ho_refcnt_def demo_hal_def demo_objs_def demo_hdr_def)
  then show ?thesis
    using halg_signal_delete_correct [OF demo_links_ok, of "Some ''sig''"] demo_open demo_find
    by (auto simp: demo_link_map)
qed

theorem set_pin_get_pin_witness: "get_pin HAL_BIT 392 (set_pin HAL_BIT 392 1 demo_hal) = get_typed HAL_BIT 1"
  using set_pin_get_pin [OF demo_links_ok, of 392 392] by (simp add: demo_at)

lemma demo_linked_pin:
  obtains p where "pin_at (fst (halg_link (Some ''out'') (Some ''sig'') demo_hal)) 392 = Some p"
    "link_map (fst (halg_link (Some ''out'') (Some ''sig'') demo_hal)) 392 = Some 456"
proof -
  let ?s = "fst (halg_link (Some ''out'') (Some ''sig'') demo_hal)"
  obtain s' rc where l: "halg_link (Some ''out'') (Some ''sig'') demo_hal = (s', rc)" by fastforce
  from demo_links_ok l have "link_map ?s 392 = Some 456"
    by (cases rule: halg_link_cases) (use l demo_request demo_link_map in auto)
  then show thesis using that by (auto simp: link_map_def split: option.splits)
qed

theorem net_reachable_single_writer_witness:
  "456 \<in> live (fst (halg_link (Some ''out'') (Some ''sig'') demo_hal))"
proof -
  let ?s = "fst (halg_link (Some ''out'') (Some ''sig'') demo_hal)"
  have r: "net_step\<^sup>*\<^sup>* demo_hal ?s" by (rule r_into_rtranclp) (rule net_step.link)
  obtain p where p: "pin_at ?s 392 = Some p" "link_map ?s 392 = Some 456" by (rule demo_linked_pin)
  show ?thesis using net_reachable_single_writer [OF r demo_links_ok p(2,1)] by simp
qed


theorem net_reachable_typed_witness:
  "\<exists>x. sig_at demo_hal 456 = Some x \<and> sig_type x \<in> {HAL_BIT, HAL_FLOAT, HAL_S32, HAL_U32}"
  using net_reachable_typed [OF rtranclp.rtrancl_refl demo_links_ok, of "Some ''sig''" 456] demo_find(3) by blast

end
