(* ===== verification/Hal_Funct_Correct.thy ===== *)
theory Hal_Funct_Correct
  imports Hal_Thread Hal_Network
begin

text \<open>
  Functions in threads. The position argument of \<open>addf\<close> against a closed form,
  and the invariant of the function lists: every entry is in one place, the
  user count of a function is the number of its entries in all threads, and a
  function that is not reentrant has at most one.
\<close>

section \<open>Positions\<close>

lemma walk_next_eq: "e \<noteq> 0 \<or> k = 0 \<Longrightarrow> e \<le> len \<Longrightarrow> walk_next k len e = (if e + k \<le> len then Some (e + k) else None)"
  by (induction k len e rule: walk_next.induct) (auto simp: Let_def)

lemma walk_prev_eq: "e \<noteq> 0 \<Longrightarrow> walk_prev k len e = (if k < e then Some (e - k) else None)"
  by (induction k len e rule: walk_prev.induct) (auto simp: Let_def)

text \<open>The two walks over the circular list compute the documented positions:
  position \<open>n > 0\<close> inserts so that the function becomes the \<open>n\<close>-th, position
  \<open>-n\<close> so that it becomes the \<open>n\<close>-th from the end, and a position beyond the
  list is refused.\<close>

theorem insertion_point_correct:
  assumes "position \<noteq> 0"
  shows "insertion_point position len =
    (if 0 < position then if position \<le> int len + 1 then Some (nat (position - 1)) else None
     else if - position \<le> int len + 1 then Some (nat (int len + 1 + position)) else None)"
proof (cases "0 < position")
  case True
  define n where "n = nat (position - 1)"
  have n: "position = int n + 1" using True by (simp add: n_def)
  have "walk_next n len 0 = (if n \<le> len then Some n else None)"
  proof (cases n)
    case (Suc j)
    then show ?thesis using walk_next_eq [of 1 j len] by (cases "len = 0") (auto simp: Let_def)
  qed simp
  then show ?thesis using n by (simp add: insertion_point_def)
next
  case False
  define n where "n = nat (- position - 1)"
  have n: "position = - int n - 1" using False assms by (simp add: n_def)
  have "walk_prev n len 0 = (if n = 0 then Some 0 else if n \<le> len then Some (len + 1 - n) else None)"
  proof (cases n)
    case (Suc j)
    then show ?thesis using walk_prev_eq [of len j len] by (cases "len = 0") (auto simp: Let_def)
  qed simp
  then show ?thesis using n by (auto simp: insertion_point_def nat_diff_distrib)
qed


section \<open>Lists, entries and users\<close>

type_synonym flists = "nat \<Rightarrow> nat list option"
type_synonym fents = "nat \<Rightarrow> hal_funct_entry option"
type_synonym functs = "nat \<Rightarrow> hal_funct option"

definition in_use :: "flists \<Rightarrow> nat set" where
  "in_use T = (\<Union>es \<in> ran T. set es)"

definition entries_for :: "flists \<Rightarrow> fents \<Rightarrow> nat \<Rightarrow> nat set" where
  "entries_for T E fn = {e \<in> in_use T. map_option fe_funct_ptr (E e) = Some fn}"

definition functs_wf :: "flists \<Rightarrow> fents \<Rightarrow> functs \<Rightarrow> nat list \<Rightarrow> bool" where
  "functs_wf T E F free \<longleftrightarrow> finite (in_use T) \<and> in_use T \<union> set free \<subseteq> dom E \<and> in_use T \<inter> set free = {} \<and>
     distinct free \<and> (\<forall>th es. T th = Some es \<longrightarrow> distinct es) \<and>
     (\<forall>th th' es es'. T th = Some es \<and> T th' = Some es' \<and> th \<noteq> th' \<longrightarrow> set es \<inter> set es' = {}) \<and>
     (\<forall>fn f. F fn = Some f \<longrightarrow> funct_users f = int (card (entries_for T E fn)) \<and>
        (funct_reentrant f = 0 \<longrightarrow> funct_users f \<le> 1))"

lemma in_use_upd:
  assumes "T th = Some es"
    and "\<forall>th' es'. T th' = Some es' \<and> th' \<noteq> th \<longrightarrow> set es \<inter> set es' = {}"
  shows "in_use (T(th \<mapsto> es')) = in_use T - set es \<union> set es'"
proof -
  have "in_use T = set es \<union> in_use (T(th := None))"
    using assms(1) by (force simp: in_use_def ran_def)
  moreover have "set es \<inter> in_use (T(th := None)) = {}"
    using assms(2) by (auto simp: in_use_def ran_def)
  moreover have "in_use (T(th \<mapsto> es')) = set es' \<union> in_use (T(th := None))"
    by (force simp: in_use_def ran_def)
  ultimately show ?thesis by auto
qed

lemma in_use_list: "T th = Some es \<Longrightarrow> set es \<subseteq> in_use T"
  by (auto simp: in_use_def ran_def)

lemma functs_wf_disjoint:
  "functs_wf T E F free \<Longrightarrow> T th = Some es \<Longrightarrow> \<forall>th' es'. T th' = Some es' \<and> th' \<noteq> th \<longrightarrow> set es \<inter> set es' = {}"
  unfolding functs_wf_def by blast

text \<open>An unused entry is put into a list.\<close>

lemma functs_wf_add:
  assumes wf: "functs_wf T E F free" and T: "T th = Some es" and F: "F fn = Some f"
    and e: "e \<notin> in_use T" "e \<notin> set free" and x: "fe_funct_ptr x = fn"
    and r: "funct_reentrant f \<noteq> 0 \<or> funct_users f \<le> 0"
  shows "functs_wf (T(th \<mapsto> take i es @ e # drop i es)) (E(e \<mapsto> x)) (F(fn \<mapsto> f\<lparr>funct_users := funct_users f + 1\<rparr>)) free"
    (is "functs_wf ?T ?E ?F free")
proof -
  have set_es: "set (take i es @ e # drop i es) = insert e (set es)"
    by (metis append_take_drop_id insert_is_Un list.simps(15) set_append sup.left_commute)
  have use: "in_use ?T = insert e (in_use T)"
    unfolding in_use_upd [OF T functs_wf_disjoint [OF wf T]] set_es using in_use_list [of T th es] T by auto
  have fin: "finite (in_use T)" using wf by (simp add: functs_wf_def)
  have old: "entries_for T (E(e \<mapsto> x)) a = entries_for T E a" for a
    using e(1) by (auto simp: entries_for_def)
  have ent: "entries_for ?T ?E a = (if a = fn then insert e (entries_for T E a) else entries_for T E a)" for a
    using e(1) x by (auto simp: entries_for_def use)
  have e_old: "e \<notin> entries_for T E a" "finite (entries_for T E a)" for a
    using e(1) fin by (auto simp: entries_for_def)
  have "distinct (take i es @ e # drop i es)"
    using wf T e(1) in_use_list [of T th es] by (auto simp: functs_wf_def dest: in_set_takeD in_set_dropD)
      (metis append_take_drop_id distinct_append disjoint_iff)
  then have d: "\<forall>th' es'. ?T th' = Some es' \<longrightarrow> distinct es'" using wf by (auto simp: functs_wf_def)
  have dis: "\<forall>th1 th2 es1 es2. ?T th1 = Some es1 \<and> ?T th2 = Some es2 \<and> th1 \<noteq> th2 \<longrightarrow> set es1 \<inter> set es2 = {}"
  proof (intro allI impI)
    fix th1 th2 es1 es2
    assume a: "?T th1 = Some es1 \<and> ?T th2 = Some es2 \<and> th1 \<noteq> th2"
    have D: "set xs \<inter> set ys = {}" if "T t1 = Some xs" "T t2 = Some ys" "t1 \<noteq> t2" for t1 t2 xs ys
      using wf that unfolding functs_wf_def by blast
    have n: "e \<notin> set ys" if "T t = Some ys" for t ys using in_use_list [of T t ys] that e(1) by auto
    consider "th1 = th" | "th2 = th" | "th1 \<noteq> th" "th2 \<noteq> th" by blast
    then show "set es1 \<inter> set es2 = {}"
    proof cases
      case 1
      then have "set es1 = insert e (set es)" "T th2 = Some es2" using a set_es by auto
      then show ?thesis using D [OF T, of th2 es2] n [of th2 es2] a 1 by auto
    next
      case 2
      then have "set es2 = insert e (set es)" "T th1 = Some es1" using a set_es by auto
      then show ?thesis using D [OF T, of th1 es1] n [of th1 es1] a 2 by auto
    qed (use D [of th1 es1 th2 es2] a in auto)
  qed
  have users: "\<forall>a g. ?F a = Some g \<longrightarrow> funct_users g = int (card (entries_for ?T ?E a)) \<and>
      (funct_reentrant g = 0 \<longrightarrow> funct_users g \<le> 1)"
  proof (intro allI impI)
    fix a g assume g: "?F a = Some g"
    have W: "F b = Some h \<Longrightarrow> funct_users h = int (card (entries_for T E b)) \<and> (funct_reentrant h = 0 \<longrightarrow> funct_users h \<le> 1)"
      for b h using wf unfolding functs_wf_def by blast
    show "funct_users g = int (card (entries_for ?T ?E a)) \<and> (funct_reentrant g = 0 \<longrightarrow> funct_users g \<le> 1)"
      using g W [of a g] W [OF F] F e_old r unfolding ent by (cases "a = fn") auto
  qed
  have "in_use ?T \<union> set free \<subseteq> dom ?E" "in_use ?T \<inter> set free = {}" "distinct free"
    using wf e unfolding use functs_wf_def by auto
  moreover have "finite (in_use ?T)" using fin by (simp add: use)
  ultimately show ?thesis using d dis users unfolding functs_wf_def by (intro conjI)
qed

text \<open>An entry is taken out of its list and goes to the free entries.\<close>

lemma functs_wf_remove:
  assumes wf: "functs_wf T E F free" and T: "T th = Some es" and e: "e \<in> set es" "E e = Some x"
    and F: "F (fe_funct_ptr x) = Some f" and x': "fe_funct_ptr x' = 0"
  shows "functs_wf (T(th \<mapsto> remove1 e es)) (E(e \<mapsto> x'))
    (F(fe_funct_ptr x \<mapsto> f\<lparr>funct_users := funct_users f - 1\<rparr>)) (e # free)"
    (is "functs_wf ?T ?E ?F _")
proof -
  let ?fn = "fe_funct_ptr x"
  have dist: "distinct es" using wf T by (simp add: functs_wf_def)
  then have set_es: "set (remove1 e es) = set es - {e}" by simp
  have eu: "e \<in> in_use T" using in_use_list [of T th es] T e(1) by auto
  have use: "in_use ?T = in_use T - {e}"
    unfolding in_use_upd [OF T functs_wf_disjoint [OF wf T]] set_es using in_use_list [of T th es] T e(1) by auto
  have fin: "finite (in_use T)" using wf by (simp add: functs_wf_def)
  have ent: "entries_for ?T ?E a = (if a = ?fn then entries_for T E a - {e} else entries_for T E a)" for a
    using e x' by (auto simp: entries_for_def use)
  have e_in: "e \<in> entries_for T E ?fn" "finite (entries_for T E a)" for a
    using eu e(2) fin by (auto simp: entries_for_def)
  have d: "\<forall>th' es'. ?T th' = Some es' \<longrightarrow> distinct es'" using wf dist by (auto simp: functs_wf_def)
  have D: "set xs \<inter> set ys = {}" if "T t1 = Some xs" "T t2 = Some ys" "t1 \<noteq> t2" for t1 t2 xs ys
    using wf that unfolding functs_wf_def by blast
  have sub: "\<exists>ys. T t = Some ys \<and> set xs \<subseteq> set ys" if "?T t = Some xs" for t xs
    using that T set_es by (auto split: if_splits)
  have dis: "set es1 \<inter> set es2 = {}" if "?T th1 = Some es1" "?T th2 = Some es2" "th1 \<noteq> th2" for th1 th2 es1 es2
    using sub [OF that(1)] sub [OF that(2)] D that(3) by blast
  have W: "funct_users h = int (card (entries_for T E b)) \<and> (funct_reentrant h = 0 \<longrightarrow> funct_users h \<le> 1)"
    if "F b = Some h" for b h using wf that unfolding functs_wf_def by blast
  have users: "funct_users g = int (card (entries_for ?T ?E a)) \<and> (funct_reentrant g = 0 \<longrightarrow> funct_users g \<le> 1)"
    if g: "?F a = Some g" for a g
  proof (cases "a = ?fn")
    case True
    have "0 < card (entries_for T E ?fn)" using e_in by (auto simp: card_gt_0_iff)
    then show ?thesis using True g W [OF F] e_in unfolding ent by (auto simp: card_Diff_singleton)
  qed (use g W [of a g] in \<open>auto simp: ent\<close>)
  have "in_use ?T \<union> set (e # free) \<subseteq> dom ?E" "in_use ?T \<inter> set (e # free) = {}" "distinct (e # free)"
    using wf eu unfolding use functs_wf_def by auto
  then show ?thesis using d dis users fin unfolding functs_wf_def use by blast
qed


text \<open>An entry that is in no list may change.\<close>

lemma functs_wf_spare:
  assumes wf: "functs_wf T E F free" and "e \<notin> in_use T" "set free' \<subseteq> set free" "distinct free'"
  shows "functs_wf T (E(e \<mapsto> x)) F free'"
proof -
  have ent: "entries_for T (E(e \<mapsto> x)) a = entries_for T E a" for a
    using assms(2) by (auto simp: entries_for_def)
  have "in_use T \<union> set free' \<subseteq> dom (E(e \<mapsto> x))" "in_use T \<inter> set free' = {}"
    using assms unfolding functs_wf_def by auto
  then show ?thesis using wf assms(4) unfolding functs_wf_def ent by blast
qed

section \<open>The invariant of a state\<close>

definition funct_body :: "hal_body \<Rightarrow> hal_funct option" where
  "funct_body bd = (case bd of Funct f \<Rightarrow> Some f | _ \<Rightarrow> None)"

definition thread_body :: "hal_body \<Rightarrow> hal_thread option" where
  "thread_body bd = (case bd of Thread t \<Rightarrow> Some t | _ \<Rightarrow> None)"

definition funct_at :: "hal \<Rightarrow> nat \<Rightarrow> hal_funct option" where
  "funct_at s a = Option.bind (objs s a) (\<lambda>ob. funct_body (body ob))"

definition thread_at :: "hal \<Rightarrow> nat \<Rightarrow> hal_thread option" where
  "thread_at s a = Option.bind (objs s a) (\<lambda>ob. thread_body (body ob))"

definition flist :: "hal \<Rightarrow> nat \<Rightarrow> nat list option" where
  "flist s th = map_option thr_funct_list (thread_at s th)"

definition functs_ok :: "hal \<Rightarrow> bool" where
  "functs_ok s \<longleftrightarrow> functs_wf (flist s) (fentries s) (funct_at s) (funct_entry_free s) \<and>
     0 \<le> shmem_bot s \<and> (\<forall>e \<in> dom (fentries s). shmem_top s \<le> int e) \<and> objs s 0 = None \<and>
     (\<forall>a ob. objs s a = Some ob \<longrightarrow>
        (hh_object_type (hdr ob) = HAL_FUNCT \<longrightarrow> funct_body (body ob) \<noteq> None) \<and>
        (hh_object_type (hdr ob) = HAL_THREAD \<longrightarrow> thread_body (body ob) \<noteq> None))"

lemma funct_bodies [simp]:
  "funct_body (Funct f) = Some f" "thread_body (Thread t) = Some t" "funct_body (Thread t) = None"
  "thread_body (Funct f) = None"
  by (simp_all add: funct_body_def thread_body_def)

lemma funct_of_at: "funct_at s a = Some f \<Longrightarrow> funct_of s a = f"
  by (cases "objs s a") (auto simp: funct_at_def funct_of_def funct_body_def split: hal_body.splits)

lemma thread_of_at: "thread_at s a = Some t \<Longrightarrow> thread_of s a = t"
  by (cases "objs s a") (auto simp: thread_at_def thread_of_def thread_body_def split: hal_body.splits)

lemma upd_funct_body:
  "funct_body (body (case body ob of Funct p \<Rightarrow> ob\<lparr>body := Funct (f p)\<rparr> | _ \<Rightarrow> ob)) = map_option f (funct_body (body ob))"
  "thread_body (body (case body ob of Funct p \<Rightarrow> ob\<lparr>body := Funct (f p)\<rparr> | _ \<Rightarrow> ob)) = thread_body (body ob)"
  "hdr (case body ob of Funct p \<Rightarrow> ob\<lparr>body := Funct (f p)\<rparr> | _ \<Rightarrow> ob) = hdr ob"
  by (simp_all add: funct_body_def thread_body_def split: hal_body.splits)

lemma upd_thread_body:
  "funct_body (body (case body ob of Thread p \<Rightarrow> ob\<lparr>body := Thread (h p)\<rparr> | _ \<Rightarrow> ob)) = funct_body (body ob)"
  "thread_body (body (case body ob of Thread p \<Rightarrow> ob\<lparr>body := Thread (h p)\<rparr> | _ \<Rightarrow> ob)) = map_option h (thread_body (body ob))"
  "hdr (case body ob of Thread p \<Rightarrow> ob\<lparr>body := Thread (h p)\<rparr> | _ \<Rightarrow> ob) = hdr ob"
  by (simp_all add: funct_body_def thread_body_def split: hal_body.splits)

lemma upd_obj_objs: "objs (upd_obj a f s) = (objs s)(a := map_option f (objs s a))"
  by (simp add: upd_obj_def)

lemma upd_funct_at:
  "funct_at (upd_funct a f s) = (funct_at s)(a := map_option f (funct_at s a))"
  "thread_at (upd_funct a f s) = thread_at s"
  by (cases "objs s a"; auto simp: fun_eq_iff funct_at_def thread_at_def upd_funct_def upd_obj_objs upd_funct_body)+

lemma upd_thread_at:
  "funct_at (upd_thread a h s) = funct_at s"
  "thread_at (upd_thread a h s) = (thread_at s)(a := map_option h (thread_at s a))"
  by (cases "objs s a"; auto simp: fun_eq_iff funct_at_def thread_at_def upd_thread_def upd_obj_objs upd_thread_body)+

lemma upd_other [simp]:
  "fentries (upd_funct a f s) = fentries s" "fentries (upd_thread a h s) = fentries s"
  "funct_entry_free (upd_funct a f s) = funct_entry_free s" "funct_entry_free (upd_thread a h s) = funct_entry_free s"
  "shmem_bot (upd_funct a f s) = shmem_bot s" "shmem_bot (upd_thread a h s) = shmem_bot s"
  "shmem_top (upd_funct a f s) = shmem_top s" "shmem_top (upd_thread a h s) = shmem_top s"
  "halobjects (upd_funct a f s) = halobjects s" "halobjects (upd_thread a h s) = halobjects s"
  by (simp_all add: upd_funct_def upd_thread_def upd_obj_def)

definition funct_types :: "hal \<Rightarrow> bool" where
  "funct_types s \<longleftrightarrow> objs s 0 = None \<and> (\<forall>a ob. objs s a = Some ob \<longrightarrow>
        (hh_object_type (hdr ob) = HAL_FUNCT \<longrightarrow> funct_body (body ob) \<noteq> None) \<and>
        (hh_object_type (hdr ob) = HAL_THREAD \<longrightarrow> thread_body (body ob) \<noteq> None))"

lemma funct_types_upd:
  "funct_types s \<Longrightarrow> funct_types (upd_funct a f s)" "funct_types s \<Longrightarrow> funct_types (upd_thread a h s)"
  unfolding funct_types_def upd_funct_def upd_thread_def upd_obj_objs
  by (auto simp: upd_funct_body upd_thread_body)

lemma functs_ok_eq:
  "functs_ok s \<longleftrightarrow> functs_wf (flist s) (fentries s) (funct_at s) (funct_entry_free s) \<and>
     0 \<le> shmem_bot s \<and> (\<forall>e \<in> dom (fentries s). shmem_top s \<le> int e) \<and> funct_types s"
  unfolding functs_ok_def funct_types_def by simp

lemma shmalloc_rt_below:
  assumes "0 \<le> shmem_bot s"
  obtains (null) "shmalloc_rt n s = (halfail ENOMEM s, None)"
  | (block) p k where "shmalloc_rt n s = (s\<lparr>rt_alignment_loss := k, shmem_top := int p\<rparr>, Some p)"
      "int p + int n \<le> shmem_top s"
proof -
  let ?t = "shmem_top s - int n"
  define q where "q = ?t - ?t mod int (rt_align n)"
  have "0 < int (rt_align n)" by (simp add: rt_align_def)
  then have "q \<le> ?t" by (simp add: q_def)
  have eq: "shmalloc_rt n s = (if q < shmem_bot s then halfail_null ENOMEM s
      else (s\<lparr>rt_alignment_loss := rt_alignment_loss s + nat (shmem_top s - q - int n), shmem_top := q\<rparr>, Some (nat q)))"
    unfolding shmalloc_rt_eq Let_def q_def ..
  show thesis
  proof (cases "q < shmem_bot s")
    case True
    then show ?thesis using eq by (intro null) (simp add: halfail_null_def)
  next
    case False
    then show ?thesis using eq \<open>q \<le> ?t\<close> assms
      by (intro block [of "nat q" "rt_alignment_loss s + nat (shmem_top s - q - int n)"]) simp_all
  qed
qed

lemma objs_at: "objs s' = objs s \<Longrightarrow> flist s' = flist s \<and> funct_at s' = funct_at s \<and> funct_types s' = funct_types s"
  by (simp add: flist_def thread_at_def funct_at_def funct_types_def fun_eq_iff)

lemma functs_same:
  assumes "objs s' = objs s" "fentries s' = fentries s" "funct_entry_free s' = funct_entry_free s"
    "shmem_bot s' = shmem_bot s" "shmem_top s' = shmem_top s"
  shows "functs_ok s' = functs_ok s" "flist s' = flist s" "funct_at s' = funct_at s"
  using objs_at [OF assms(1)] assms by (simp_all add: functs_ok_eq)

lemma functs_halfail: "functs_ok (halfail e s) = functs_ok s" "flist (halfail e s) = flist s" "funct_at (halfail e s) = funct_at s"
  by (rule functs_same; simp add: halfail_def)+

text \<open>A new entry comes from the free entries or from the realtime memory below
  all entries.\<close>

lemma alloc_entry_cases:
  assumes ok: "functs_ok s" and a: "alloc_funct_entry_struct s = (s1, r)"
  obtains (none) "r = None" "functs_ok s1" "flist s1 = flist s" "funct_at s1 = funct_at s"
  | (some) e where "r = Some e" "functs_wf (flist s) (fentries s1) (funct_at s) (funct_entry_free s1)"
      "e \<notin> in_use (flist s)" "e \<notin> set (funct_entry_free s1)" "objs s1 = objs s" "shmem_bot s1 = shmem_bot s"
      "\<forall>d \<in> dom (fentries s1). shmem_top s1 \<le> int d" "e \<in> dom (fentries s1)"
proof (cases "funct_entry_free s")
  case (Cons l ls)
  have wf: "functs_wf (flist s) (fentries s) (funct_at s) (l # ls)" using ok Cons by (simp add: functs_ok_def)
  then have l: "l \<notin> in_use (flist s)" "l \<notin> set ls" "distinct ls" "l \<in> dom (fentries s)"
    by (auto simp: functs_wf_def)
  define x where "x = (entry_of s l)\<lparr>fe_funct_ptr := 0, fe_arg := 0, fe_code := 0\<rparr>"
  have s1: "s1 = set_entry l x (s\<lparr>funct_entry_free := ls\<rparr>)" "r = Some l"
    using a Cons by (auto simp: alloc_funct_entry_struct_def x_def)
  have "functs_wf (flist s) ((fentries s)(l \<mapsto> x)) (funct_at s) ls"
    by (rule functs_wf_spare [OF wf l(1)]) (use l in auto)
  then show ?thesis using s1 l ok by (intro some) (auto simp: set_entry_def functs_ok_def)
next
  case Nil
  have wf: "functs_wf (flist s) (fentries s) (funct_at s) []" using ok Nil by (simp add: functs_ok_def)
  have "0 \<le> shmem_bot s" using ok by (simp add: functs_ok_def)
  then show ?thesis
  proof (cases rule: shmalloc_rt_below [where n = funct_entry_size])
    case null
    then have "s1 = (halfail ENOMEM s)\<lparr>fault := True\<rparr>" "r = None"
      using a Nil by (auto simp: alloc_funct_entry_struct_def)
    then have "objs s1 = objs s" "fentries s1 = fentries s" "funct_entry_free s1 = funct_entry_free s"
      "shmem_bot s1 = shmem_bot s" "shmem_top s1 = shmem_top s" "r = None" by (simp_all add: halfail_def)
    then show ?thesis using functs_same [of s1 s] ok by (intro none) auto
  next
    case (block p k)
    then have s1: "s1 = set_entry p zero_entry (s\<lparr>rt_alignment_loss := k, shmem_top := int p\<rparr>)" "r = Some p"
      using a Nil by (auto simp: alloc_funct_entry_struct_def)
    have top: "shmem_top s \<le> int d" if "d \<in> dom (fentries s)" for d using ok that by (simp add: functs_ok_def)
    have lt: "int p < shmem_top s" using block(2) by (simp add: funct_entry_size_def)
    have "p \<notin> dom (fentries s)" using top [of p] lt by auto
    then have p: "p \<notin> in_use (flist s)" using wf by (auto simp: functs_wf_def)
    have "functs_wf (flist s) ((fentries s)(p \<mapsto> zero_entry)) (funct_at s) []"
      by (rule functs_wf_spare [OF wf p]) auto
    moreover have "int p \<le> int d" if "d \<in> dom ((fentries s)(p \<mapsto> zero_entry))" for d
      using that top [of d] lt by (cases "d = p") auto
    ultimately show ?thesis using s1 p Nil by (intro some [of p]) (simp_all add: set_entry_def)
  qed
qed


lemma find_funct_at:
  assumes "functs_ok s" "find_funct nm s = Some fn"
  obtains f where "funct_at s fn = Some f" "fn \<noteq> 0"
proof -
  obtain nm' where "halg_find_object_by_name HAL_FUNCT nm' s = Some fn"
    using assms(2) by (auto simp: find_funct_def split: option.splits)
  then have "ho_object_type s fn = HAL_FUNCT" "ho_valid s fn" using find_by_name_Some by auto
  then obtain ob where ob: "objs s fn = Some ob" "hh_object_type (hdr ob) = HAL_FUNCT"
    by (auto simp: ho_object_type_def ho_valid_def split: option.splits)
  then show thesis using that assms(1) by (fastforce simp: functs_ok_def funct_at_def)
qed

lemma find_thread_at:
  assumes "functs_ok s" "halg_find_object_by_name HAL_THREAD nm s = Some th"
  obtains t where "thread_at s th = Some t"
proof -
  have "ho_object_type s th = HAL_THREAD" "ho_valid s th" using assms(2) find_by_name_Some by auto
  then obtain ob where ob: "objs s th = Some ob" "hh_object_type (hdr ob) = HAL_THREAD"
    by (auto simp: ho_object_type_def ho_valid_def split: option.splits)
  then show thesis using that assms(1) by (fastforce simp: functs_ok_def thread_at_def)
qed

section \<open>Adding and removing\<close>

lemma hal_add_funct_cases:
  assumes ok: "functs_ok s" and a: "hal_add_funct_to_thread nm tn position rmb wmb s = (s', rc)"
  obtains (fail) "rc < 0" "functs_ok s'" "flist s' = flist s" "funct_at s' = funct_at s"
  | (added) fn f th es i e x where "rc = 0" "functs_ok s'" "find_funct nm s = Some fn"
      "halg_find_object_by_name HAL_THREAD tn s = Some th" "funct_at s fn = Some f" "flist s th = Some es"
      "insertion_point position (length es) = Some i" "e \<notin> in_use (flist s)"
      "flist s' = (flist s)(th \<mapsto> take i es @ e # drop i es)"
      "fentries s' e = Some x" "fe_funct_ptr x = fn" "fe_code x = funct_code f" "fe_arg x = funct_arg f"
      "fe_type x = funct_type f" "position \<noteq> 0"
      "funct_at s' = (funct_at s)(fn \<mapsto> f\<lparr>funct_users := funct_users f + 1\<rparr>)"
proof -
  have bad: thesis if "s' = halfail e s \<and> rc = - e \<or> s' = s \<and> rc = - e" "0 < e" for e
    using that functs_halfail ok by (intro fail) auto
  show thesis
  proof (cases "\<not> hal_attached s \<or> locked HAL_LOCK_CONFIG s \<or> nm = None \<or> tn = None \<or> position = 0 \<or> find_funct nm s = None")
    case True
    then show thesis using a bad [of EINVAL] bad [of EPERM]
      by (auto simp: hal_add_funct_to_thread_def halfail_rc_def split: if_splits)
  next
    case False
    then obtain fn where fn: "find_funct nm s = Some fn" by auto
    obtain f where f: "funct_at s fn = Some f" "fn \<noteq> 0" using find_funct_at [OF ok fn] .
    have fof: "funct_of s fn = f" by (rule funct_of_at [OF f(1)])
    show thesis
    proof (cases "(funct_type f \<noteq> FS_LEGACY_THREADFUNC \<and> funct_type f \<noteq> FS_XTHREADFUNC) \<or>
        (funct_users f > 0 \<and> funct_reentrant f = 0) \<or> halg_find_object_by_name HAL_THREAD tn s = None")
      case True
      then show thesis using a False fn fof bad [of EINVAL]
        by (auto simp: hal_add_funct_to_thread_def halfail_rc_def Let_def split: if_splits)
    next
      case F2: False
      then obtain th where th: "halg_find_object_by_name HAL_THREAD tn s = Some th" by auto
      obtain t where t: "thread_at s th = Some t" using find_thread_at [OF ok th] .
      have tof: "thread_of s th = t" by (rule thread_of_at [OF t])
      let ?es = "thr_funct_list t"
      show thesis
      proof (cases "(funct_uses_fp f \<noteq> 0 \<and> thr_uses_fp t = 0) \<or> insertion_point position (length ?es) = None")
        case True
        then show thesis using a False F2 fn fof th tof bad [of EINVAL]
          by (auto simp: hal_add_funct_to_thread_def halfail_rc_def Let_def split: if_splits)
      next
        case F3: False
        then obtain i where i: "insertion_point position (length ?es) = Some i" by auto
        obtain s1 r where al: "alloc_funct_entry_struct s = (s1, r)" by fastforce
        have eq: "hal_add_funct_to_thread nm tn position rmb wmb s = (case r of None \<Rightarrow> halfail_rc ENOMEM s1
          | Some fe \<Rightarrow>
            (let s2 = set_entry fe ((entry_of s1 fe)\<lparr>fe_funct_ptr := fn, fe_arg := funct_arg f,
                        fe_code := funct_code f, fe_rmb := (rmb mod 256 \<noteq> 0),
                        fe_wmb := (wmb mod 256 \<noteq> 0), fe_type := funct_type f\<rparr>) s1;
                 s3 = upd_thread th (\<lambda>t. t\<lparr>thr_funct_list :=
                        take i (thr_funct_list t) @ fe # drop i (thr_funct_list t)\<rparr>) s2
             in (upd_funct fn (\<lambda>f. f\<lparr>funct_users := funct_users f + 1\<rparr>) s3, 0)))"
        proof -
          have g: "hal_attached s" "\<not> locked HAL_LOCK_CONFIG s" "nm \<noteq> None" "tn \<noteq> None" "position \<noteq> 0"
            "\<not> (funct_type f \<noteq> FS_LEGACY_THREADFUNC \<and> funct_type f \<noteq> FS_XTHREADFUNC)"
            "\<not> (funct_users f > 0 \<and> funct_reentrant f = 0)" "\<not> (funct_uses_fp f \<noteq> 0 \<and> thr_uses_fp t = 0)"
            using False F2 F3 by (simp_all only: de_Morgan_disj not_not not_False_eq_True)
          show ?thesis
            unfolding hal_add_funct_to_thread_def fn fof th tof Let_def option.case i al
            by (cases r) (simp_all only: g if_False if_True not_True_eq_False simp_thms option.case prod.case)
        qed
        from ok al show thesis
        proof (cases rule: alloc_entry_cases)
          case none
          then have "s' = halfail ENOMEM s1" "rc = - ENOMEM" using a eq by (auto simp: halfail_rc_def)
          then show thesis using none functs_halfail by (intro fail) auto
        next
          case (some e)
          define x where "x = (entry_of s1 e)\<lparr>fe_funct_ptr := fn, fe_arg := funct_arg f,
                        fe_code := funct_code f, fe_rmb := (rmb mod 256 \<noteq> 0),
                        fe_wmb := (wmb mod 256 \<noteq> 0), fe_type := funct_type f\<rparr>"
          define s2 where "s2 = set_entry e x s1"
          define s3 where "s3 = upd_thread th (\<lambda>t. t\<lparr>thr_funct_list :=
                        take i (thr_funct_list t) @ e # drop i (thr_funct_list t)\<rparr>) s2"
          have s': "s' = upd_funct fn (\<lambda>f. f\<lparr>funct_users := funct_users f + 1\<rparr>) s3" "rc = 0"
            using a unfolding eq some(1) by (auto simp: x_def s2_def s3_def)
          have s2: "objs s2 = objs s" "fentries s2 = (fentries s1)(e \<mapsto> x)" "funct_entry_free s2 = funct_entry_free s1"
            "shmem_bot s2 = shmem_bot s" "shmem_top s2 = shmem_top s1"
            using some by (simp_all add: s2_def set_entry_def)
          have at2: "flist s2 = flist s" "funct_at s2 = funct_at s" "funct_types s2 = funct_types s" "thread_at s2 = thread_at s"
            using objs_at [OF s2(1)] s2(1) by (simp_all add: thread_at_def fun_eq_iff)
          have fl: "flist s' = (flist s)(th \<mapsto> take i ?es @ e # drop i ?es)"
            using t by (auto simp: s' s3_def flist_def upd_funct_at upd_thread_at at2 fun_eq_iff)
          have fa: "funct_at s' = (funct_at s)(fn \<mapsto> f\<lparr>funct_users := funct_users f + 1\<rparr>)"
            using f by (simp add: s' s3_def upd_funct_at upd_thread_at at2)
          have es: "flist s th = Some ?es" using t by (simp add: flist_def)
          have "functs_wf (flist s') ((fentries s1)(e \<mapsto> x)) (funct_at s') (funct_entry_free s1)"
            unfolding fl fa
            by (rule functs_wf_add [OF some(2) es f(1) some(3,4)]) (use F2 in \<open>auto simp: x_def\<close>)
          moreover have "funct_types s'"
            unfolding s' s3_def by (intro funct_types_upd) (use ok at2 in \<open>simp add: functs_ok_eq\<close>)
          moreover have "dom ((fentries s1)(e \<mapsto> x)) = dom (fentries s1)" using some(8) by auto
          ultimately have ok': "functs_ok s'"
            using some(6,7) ok unfolding functs_ok_eq by (simp add: s' s3_def s2)
          have "fe_funct_ptr x = fn" "fe_code x = funct_code f" "fe_arg x = funct_arg f" "fe_type x = funct_type f"
            by (simp_all add: x_def)
          moreover have "fentries s' e = Some x" by (simp add: s' s3_def s2)
          ultimately show thesis using False fa by (intro added [OF s'(2) ok' fn th f(1) es i some(3) fl]) simp_all
        qed
      qed
    qed
  qed
qed


lemma remove_entry:
  assumes ok: "functs_ok s" and t: "thread_at s th = Some t" and e: "e \<in> set (thr_funct_list t)"
    and x: "fentries s e = Some x" and f: "funct_at s (fe_funct_ptr x) = Some f"
  defines "s' \<equiv> free_funct_entry_struct e (upd_thread th (\<lambda>t. t\<lparr>thr_funct_list := remove1 e (thr_funct_list t)\<rparr>) s)"
  shows "functs_ok s'" "flist s' = (flist s)(th \<mapsto> remove1 e (thr_funct_list t))"
    "funct_at s' = (funct_at s)(fe_funct_ptr x \<mapsto> f\<lparr>funct_users := funct_users f - 1\<rparr>)"
    "fentries s' = (fentries s)(e \<mapsto> x\<lparr>fe_funct_ptr := 0, fe_arg := 0, fe_code := 0\<rparr>)" "halobjects s' = halobjects s"
proof -
  let ?fn = "fe_funct_ptr x"
  define s1 where "s1 = upd_thread th (\<lambda>t. t\<lparr>thr_funct_list := remove1 e (thr_funct_list t)\<rparr>) s"
  define s2 where "s2 = upd_funct ?fn (\<lambda>f. f\<lparr>funct_users := funct_users f - 1\<rparr>) s1"
  define x' where "x' = x\<lparr>fe_funct_ptr := 0, fe_arg := 0, fe_code := 0\<rparr>"
  have "funct_at s 0 = None" using ok by (simp add: functs_ok_def funct_at_def)
  then have fn0: "?fn \<noteq> 0" using f by (cases "?fn = 0") auto
  have e1: "entry_of s1 e = x" "entry_of s2 e = x" using x by (simp_all add: entry_of_def s1_def s2_def)
  have s': "s' = (set_entry e x' s2)\<lparr>funct_entry_free := e # funct_entry_free s2\<rparr>"
    using fn0 e1 unfolding s'_def s1_def [symmetric]
    by (simp add: free_funct_entry_struct_def Let_def x'_def flip: s2_def) (simp add: set_entry_def)
  have objs': "objs s' = objs s2" by (simp add: s' set_entry_def)
  show fl: "flist s' = (flist s)(th \<mapsto> remove1 e (thr_funct_list t))"
    using objs_at [OF objs'] t by (auto simp: s2_def s1_def flist_def upd_funct_at upd_thread_at fun_eq_iff)
  show fa: "funct_at s' = (funct_at s)(?fn \<mapsto> f\<lparr>funct_users := funct_users f - 1\<rparr>)"
    using objs_at [OF objs'] f by (simp add: s2_def s1_def upd_funct_at upd_thread_at)
  show fe: "fentries s' = (fentries s)(e \<mapsto> x\<lparr>fe_funct_ptr := 0, fe_arg := 0, fe_code := 0\<rparr>)"
    by (simp add: s' set_entry_def s2_def s1_def x'_def)
  show "halobjects s' = halobjects s" by (simp add: s' set_entry_def s2_def s1_def)
  have es: "flist s th = Some (thr_funct_list t)" using t by (simp add: flist_def)
  have wf: "functs_wf (flist s) (fentries s) (funct_at s) (funct_entry_free s)" using ok by (simp add: functs_ok_def)
  have "functs_wf (flist s') (fentries s') (funct_at s') (e # funct_entry_free s)"
    unfolding fl fa fe by (rule functs_wf_remove [OF wf es e x f]) simp
  moreover have "funct_types s'"
    using objs_at [OF objs'] ok funct_types_upd by (simp add: s2_def s1_def functs_ok_eq)
  moreover have "dom (fentries s') = dom (fentries s)" unfolding fe using x by auto
  moreover have "funct_entry_free s' = e # funct_entry_free s" "shmem_bot s' = shmem_bot s" "shmem_top s' = shmem_top s"
    by (simp_all add: s' set_entry_def s2_def s1_def)
  ultimately show "functs_ok s'" using ok unfolding functs_ok_eq by simp
qed

lemma hal_del_funct_cases:
  assumes ok: "functs_ok s" and d: "hal_del_funct_from_thread nm tn s = (s', rc)"
  obtains (fail) "rc < 0" "functs_ok s'" "flist s' = flist s" "funct_at s' = funct_at s"
  | (removed) fn th es e where "rc = 0" "functs_ok s'" "find_funct nm s = Some fn"
      "halg_find_object_by_name HAL_THREAD tn s = Some th" "flist s th = Some es"
      "entry_for s fn es = Some e" "flist s' = (flist s)(th \<mapsto> remove1 e es)"
proof -
  have bad: thesis if "s' = halfail e s \<and> rc = - e \<or> s' = s \<and> rc = - e" "0 < e" for e
    using that functs_halfail ok by (intro fail) auto
  show thesis
  proof (cases "\<not> hal_attached s \<or> locked HAL_LOCK_CONFIG s \<or> nm = None \<or> tn = None \<or> find_funct nm s = None \<or>
      funct_users (funct_of s (the (find_funct nm s))) = 0 \<or> halg_find_object_by_name HAL_THREAD tn s = None")
    case True
    then show thesis using d bad [of EINVAL] bad [of EPERM]
      by (auto simp: hal_del_funct_from_thread_def halfail_rc_def split: if_splits option.splits)
  next
    case False
    then obtain fn th where fn: "find_funct nm s = Some fn" and th: "halg_find_object_by_name HAL_THREAD tn s = Some th"
      by auto
    obtain f where f: "funct_at s fn = Some f" "fn \<noteq> 0" using find_funct_at [OF ok fn] .
    obtain t where t: "thread_at s th = Some t" using find_thread_at [OF ok th] .
    have tof: "thread_of s th = t" by (rule thread_of_at [OF t])
    let ?es = "thr_funct_list t"
    have eq: "(s', rc) = (case entry_for s fn ?es of None \<Rightarrow> halfail_rc EINVAL s
      | Some e \<Rightarrow> (free_funct_entry_struct e
          (upd_thread th (\<lambda>t. t\<lparr>thr_funct_list := remove1 e (thr_funct_list t)\<rparr>) s), 0))"
      using d False fn th unfolding hal_del_funct_from_thread_def tof by (auto simp: tof)
    show thesis
    proof (cases "entry_for s fn ?es")
      case None
      then show thesis using eq bad [of EINVAL] by (auto simp: halfail_rc_def)
    next
      case (Some e)
      then have e: "e \<in> set ?es" "fe_funct_ptr (entry_of s e) = fn"
        by (auto simp: entry_for_def find_Some_iff)
      have es: "flist s th = Some ?es" using t by (simp add: flist_def)
      have "e \<in> dom (fentries s)" using ok e(1) in_use_list [where T = "flist s", OF es] by (auto simp: functs_ok_def functs_wf_def)
      then obtain x where x: "fentries s e = Some x" by auto
      then have "fe_funct_ptr x = fn" using e(2) by (simp add: entry_of_def)
      then have fx: "funct_at s (fe_funct_ptr x) = Some f" using f by simp
      show thesis
        using removed [OF _ _ fn th es Some] remove_entry(1,2) [OF ok t e(1) x fx] eq Some by simp
    qed
  qed
qed

text \<open>When the guards of the code let a request through.\<close>

lemma hal_add_funct_accepted:
  assumes a: "hal_add_funct_to_thread nm tn position rmb wmb s = (s', rc)"
    and h: "hal_attached s \<and> \<not> locked HAL_LOCK_CONFIG s \<and> nm \<noteq> None \<and> tn \<noteq> None \<and> find_funct nm s = Some fn \<and>
     funct_type (funct_of s fn) \<in> {FS_LEGACY_THREADFUNC, FS_XTHREADFUNC} \<and>
     (funct_users (funct_of s fn) = 0 \<or> funct_reentrant (funct_of s fn) \<noteq> 0) \<and>
     halg_find_object_by_name HAL_THREAD tn s = Some th \<and>
     (funct_uses_fp (funct_of s fn) = 0 \<or> thr_uses_fp (thread_of s th) \<noteq> 0) \<and>
     position \<noteq> 0 \<and> \<bar>position\<bar> \<le> int (length (thr_funct_list (thread_of s th))) + 1 \<and>
     snd (alloc_funct_entry_struct s) \<noteq> None"
  shows "rc = 0"
proof -
  have "insertion_point position (length (thr_funct_list (thread_of s th))) \<noteq> None"
    using h insertion_point_correct [of position "length (thr_funct_list (thread_of s th))"]
    by (auto simp: abs_if split: if_splits)
  then obtain i where "insertion_point position (length (thr_funct_list (thread_of s th))) = Some i" by blast
  moreover obtain s1 e where "alloc_funct_entry_struct s = (s1, Some e)"
    using h by (cases "alloc_funct_entry_struct s") auto
  ultimately show ?thesis using h a by (auto simp: hal_add_funct_to_thread_def Let_def)
qed

section \<open>Properties\<close>

text \<open>C34: Adding a function to a thread either fails and leaves every function
  list and every function as it is, or puts one entry, which was in no list,
  into the thread's list so that it becomes the \<open>n\<close>-th for position \<open>n\<close>, and
  the \<open>n\<close>-th from the end for position \<open>-n\<close>; the entry calls the function
  with its argument, and all other lists are unchanged. The invariant of the
  lists is kept in both cases. It succeeds when HAL is attached and not locked,
  the function and the thread exist and fit together, the position is in the
  list or one behind its end, and there is memory for an entry.\<close>

theorem hal_add_funct_to_thread_correct:
  assumes "functs_ok s"
  shows "\<exists>s' rc. hal_add_funct_to_thread nm tn position rmb wmb s = (s', rc) \<and> functs_ok s' \<and>
    (rc < 0 \<and> flist s' = flist s \<and> funct_at s' = funct_at s \<or>
     rc = 0 \<and> (\<exists>fn f th es es' e x. find_funct nm s = Some fn \<and> funct_at s fn = Some f \<and>
       halg_find_object_by_name HAL_THREAD tn s = Some th \<and> flist s th = Some es \<and> e \<notin> in_use (flist s) \<and>
       flist s' = (flist s)(th \<mapsto> es') \<and> length es' = Suc (length es) \<and> remove1 e es' = es \<and>
       position \<noteq> 0 \<and> \<bar>position\<bar> \<le> int (length es') \<and>
       es' ! nat (if 0 < position then position - 1 else int (length es') + position) = e \<and>
       fentries s' e = Some x \<and> fe_funct_ptr x = fn \<and> fe_code x = funct_code f \<and> fe_arg x = funct_arg f)) \<and>
    (hal_attached s \<and> \<not> locked HAL_LOCK_CONFIG s \<and> nm \<noteq> None \<and> tn \<noteq> None \<and> find_funct nm s = Some fn \<and>
     funct_type (funct_of s fn) \<in> {FS_LEGACY_THREADFUNC, FS_XTHREADFUNC} \<and>
     (funct_users (funct_of s fn) = 0 \<or> funct_reentrant (funct_of s fn) \<noteq> 0) \<and>
     halg_find_object_by_name HAL_THREAD tn s = Some th \<and>
     (funct_uses_fp (funct_of s fn) = 0 \<or> thr_uses_fp (thread_of s th) \<noteq> 0) \<and>
     position \<noteq> 0 \<and> \<bar>position\<bar> \<le> int (length (thr_funct_list (thread_of s th))) + 1 \<and>
     snd (alloc_funct_entry_struct s) \<noteq> None \<longrightarrow> rc = 0)"
proof -
  obtain s' rc where a: "hal_add_funct_to_thread nm tn position rmb wmb s = (s', rc)" by fastforce
  note ok = hal_add_funct_accepted [OF a]
  from assms a show ?thesis
  proof (cases rule: hal_add_funct_cases)
    case fail
    then show ?thesis using a ok by blast
  next
    case (added fn f th es i e x)
    have i: "i \<le> length es" "int i = (if 0 < position then position - 1 else int (length es) + 1 + position)"
      "\<bar>position\<bar> \<le> int (length es) + 1"
      using added(7,15) insertion_point_correct [OF added(15), of "length es"] by (auto split: if_splits)
    let ?es = "take i es @ e # drop i es"
    have "e \<notin> set es" using added(8) in_use_list [where T = "flist s", OF added(6)] by blast
    then have "e \<notin> set (take i es)" by (auto dest: in_set_takeD)
    then have "remove1 e ?es = es" by (simp add: remove1_append)
    moreover have "length ?es = Suc (length es)" using i(1) by simp
    moreover have "nat (if 0 < position then position - 1 else int (length ?es) + position) = i"
      using i by (auto split: if_splits)
    then have "?es ! nat (if 0 < position then position - 1 else int (length ?es) + position) = e"
      using i(1) by (simp add: nth_append)
    moreover have "\<bar>position\<bar> \<le> int (length ?es)" using i by simp
    ultimately have "\<exists>fn f th es es' e x. find_funct nm s = Some fn \<and> funct_at s fn = Some f \<and>
       halg_find_object_by_name HAL_THREAD tn s = Some th \<and> flist s th = Some es \<and> e \<notin> in_use (flist s) \<and>
       flist s' = (flist s)(th \<mapsto> es') \<and> length es' = Suc (length es) \<and> remove1 e es' = es \<and>
       position \<noteq> 0 \<and> \<bar>position\<bar> \<le> int (length es') \<and>
       es' ! nat (if 0 < position then position - 1 else int (length es') + position) = e \<and>
       fentries s' e = Some x \<and> fe_funct_ptr x = fn \<and> fe_code x = funct_code f \<and> fe_arg x = funct_arg f"
      by (intro exI conjI) (rule added | assumption)+
    then show ?thesis using a added(1,2) by blast
  qed
qed

text \<open>Any sequence of additions and removals.\<close>

inductive funct_step :: "hal \<Rightarrow> hal \<Rightarrow> bool" where
  add: "funct_step s (fst (hal_add_funct_to_thread nm tn position rmb wmb s))"
| del: "funct_step s (fst (hal_del_funct_from_thread nm tn s))"

lemma funct_step_ok: "funct_step s s' \<Longrightarrow> functs_ok s \<Longrightarrow> functs_ok s'"
proof (induction rule: funct_step.induct)
  case (add s nm tn position rmb wmb)
  obtain s' rc where a: "hal_add_funct_to_thread nm tn position rmb wmb s = (s', rc)" by fastforce
  from add a show ?case by (cases rule: hal_add_funct_cases) (use a in auto)
next
  case (del s nm tn)
  obtain s' rc where a: "hal_del_funct_from_thread nm tn s = (s', rc)" by fastforce
  from del a show ?case by (cases rule: hal_del_funct_cases) (use a in auto)
qed

interpretation sched: transition_invariant funct_step functs_ok
  by unfold_locales (rule funct_step_ok)

text \<open>C10: After any sequence of additions and removals the user count of every
  function is the number of its entries in all threads, and a function that is
  not reentrant has at most one: it is never run by two threads.\<close>

theorem nonreentrant_once:
  assumes "funct_step\<^sup>*\<^sup>* s0 s" "functs_ok s0" "funct_at s fn = Some f"
  shows "funct_users f = int (card (entries_for (flist s) (fentries s) fn)) \<and>
    (funct_reentrant f = 0 \<and> flist s th = Some es \<and> e \<in> set es \<and> fe_funct_ptr (entry_of s e) = fn \<and>
     flist s th' = Some es' \<and> e' \<in> set es' \<and> fe_funct_ptr (entry_of s e') = fn \<longrightarrow> th = th' \<and> e = e')"
proof -
  have ok: "functs_ok s" by (rule sched.reach_keeps [OF assms(1,2)])
  then have wf: "functs_wf (flist s) (fentries s) (funct_at s) (funct_entry_free s)" by (simp add: functs_ok_def)
  have u: "funct_users f = int (card (entries_for (flist s) (fentries s) fn))"
    "funct_reentrant f = 0 \<longrightarrow> funct_users f \<le> 1" using wf assms(3) unfolding functs_wf_def by blast+
  have mem: "d \<in> entries_for (flist s) (fentries s) fn"
    if "flist s t = Some ds" "d \<in> set ds" "fe_funct_ptr (entry_of s d) = fn" for t d ds
  proof -
    have d: "d \<in> in_use (flist s)" using in_use_list [where T = "flist s", OF that(1)] that(2) by blast
    then have "d \<in> dom (fentries s)" using wf by (auto simp: functs_wf_def)
    then show ?thesis using d that(3) by (auto simp: entries_for_def entry_of_def)
  qed
  have fin: "finite (entries_for (flist s) (fentries s) fn)"
    using wf by (auto simp: functs_wf_def entries_for_def)
  have "th = th' \<and> e = e'" if a: "funct_reentrant f = 0" "flist s th = Some es" "e \<in> set es"
    "fe_funct_ptr (entry_of s e) = fn" "flist s th' = Some es'" "e' \<in> set es'" "fe_funct_ptr (entry_of s e') = fn"
  proof -
    have "card (entries_for (flist s) (fentries s) fn) \<le> Suc 0" using u a(1) by auto
    then have "e = e'" using mem [OF a(2,3,4)] mem [OF a(5,6,7)] fin by (auto simp: card_le_Suc0_iff_eq)
    moreover have "th = th'"
      using functs_wf_disjoint [OF wf a(2)] a \<open>e = e'\<close> by (cases "th = th'") auto
    ultimately show ?thesis by simp
  qed
  then show ?thesis using u by blast
qed


section \<open>Applications\<close>

definition demo_funct :: hal_funct where
  "demo_funct = zero_funct\<lparr>funct_code := 7, funct_arg := 3, funct_type := FS_XTHREADFUNC\<rparr>"

definition demo_threads :: hal where
  "demo_threads = demo_hal\<lparr>halobjects := [648, 712],
     objs := [648 \<mapsto> \<lparr>hdr = demo_hdr 14 10 136 ''f'' HAL_FUNCT, body = Funct demo_funct\<rparr>,
              712 \<mapsto> \<lparr>hdr = demo_hdr 15 0 200 ''t'' HAL_THREAD, body = Thread zero_thread\<rparr>]\<rparr>"

lemma demo_threads_at:
  "flist demo_threads = [712 \<mapsto> []]" "funct_at demo_threads = [648 \<mapsto> demo_funct]" "fentries demo_threads = Map.empty"
  "funct_entry_free demo_threads = []"
  by (auto simp: fun_eq_iff flist_def thread_at_def funct_at_def demo_threads_def funct_body_def thread_body_def zero_thread_def)
    (simp_all add: demo_hal_def)

lemma demo_threads_ok: "functs_ok demo_threads"
proof -
  have "in_use [712 \<mapsto> []] = {}" by (simp add: in_use_def ran_def)
  then have "functs_wf [712 \<mapsto> []] Map.empty [648 \<mapsto> demo_funct] []"
    by (auto simp: functs_wf_def entries_for_def demo_funct_def zero_funct_def split: if_splits)
  moreover have "funct_types demo_threads"
    by (auto simp: funct_types_def demo_threads_def demo_hdr_def split: if_splits)
  ultimately show ?thesis unfolding functs_ok_eq demo_threads_at by (simp add: demo_threads_def demo_hal_def)
qed

theorem insertion_point_correct_witness: "insertion_point (-1) 5 = Some 5"
  using insertion_point_correct [of "-1" 5] by simp

lemma demo_add_guards:
  "hal_attached demo_threads" "\<not> locked HAL_LOCK_CONFIG demo_threads"
  "find_funct (Some ''f'') demo_threads = Some 648"
  "halg_find_object_by_name HAL_THREAD (Some ''t'') demo_threads = Some 712"
  "funct_of demo_threads 648 = demo_funct" "thread_of demo_threads 712 = zero_thread"
  "snd (alloc_funct_entry_struct demo_threads) \<noteq> None"
proof -
  show "hal_attached demo_threads" "\<not> locked HAL_LOCK_CONFIG demo_threads"
    by (simp_all add: demo_threads_def demo_hal_def locked_def)
  show "find_funct (Some ''f'') demo_threads = Some 648"
    "halg_find_object_by_name HAL_THREAD (Some ''t'') demo_threads = Some 712"
    by (simp_all add: find_funct_def find_by_name_eq selected_def ho_object_type_def ho_name_def ho_valid_def
        hh_get_name_def demo_threads_def demo_hdr_def)
  show "funct_of demo_threads 648 = demo_funct" "thread_of demo_threads 712 = zero_thread"
    by (simp_all add: demo_threads_def funct_of_def thread_of_def)
  show "snd (alloc_funct_entry_struct demo_threads) \<noteq> None"
    by (simp add: alloc_funct_entry_struct_def shmalloc_rt_def demo_threads_def demo_hal_def Let_def funct_entry_size_def)
qed

theorem hal_add_funct_to_thread_correct_witness:
  "\<exists>s' e. hal_add_funct_to_thread (Some ''f'') (Some ''t'') (- 1) 0 0 demo_threads = (s', 0) \<and> functs_ok s' \<and>
     flist s' = [712 \<mapsto> [e]]"
proof -
  have "funct_type demo_funct = FS_XTHREADFUNC" "funct_users demo_funct = 0" "funct_uses_fp demo_funct = 0"
    by (simp_all add: demo_funct_def zero_funct_def)
  then show ?thesis
    using hal_add_funct_to_thread_correct [OF demo_threads_ok, where nm = "Some ''f''" and tn = "Some ''t''" and
        position = "- 1" and rmb = 0 and wmb = 0 and fn = 648 and th = 712] demo_add_guards
    by (auto simp: zero_thread_def demo_threads_at length_Suc_conv)
qed

text \<open>After the function has been added, it has one entry and one user.\<close>

theorem nonreentrant_once_witness:
  "\<exists>s f e. funct_step\<^sup>*\<^sup>* demo_threads s \<and> funct_at s 648 = Some f \<and> flist s = [712 \<mapsto> [e]] \<and> funct_users f = 1"
proof -
  obtain s rc where a: "hal_add_funct_to_thread (Some ''f'') (Some ''t'') 1 0 0 demo_threads = (s, rc)" by fastforce
  have "funct_type demo_funct = FS_XTHREADFUNC" "funct_users demo_funct = 0" "funct_uses_fp demo_funct = 0"
    by (simp_all add: demo_funct_def zero_funct_def)
  then have rc: "rc = 0"
    by (intro hal_add_funct_accepted [OF a, of 648 712]) (simp add: demo_add_guards)
  have r: "funct_step\<^sup>*\<^sup>* demo_threads s"
    using funct_step.add [of demo_threads "Some ''f''" "Some ''t''" 1 0 0] a by (simp add: r_into_rtranclp)
  obtain e x where e: "flist s = [712 \<mapsto> [e]]" "fentries s e = Some x" "fe_funct_ptr x = 648"
    and f: "funct_at s = [648 \<mapsto> demo_funct\<lparr>funct_users := funct_users demo_funct + 1\<rparr>]"
  proof (rule hal_add_funct_cases [OF demo_threads_ok a])
    fix fn f th es i e x
    assume c: "find_funct (Some ''f'') demo_threads = Some fn"
      "halg_find_object_by_name HAL_THREAD (Some ''t'') demo_threads = Some th" "funct_at demo_threads fn = Some f"
      "flist demo_threads th = Some es" "flist s = (flist demo_threads)(th \<mapsto> take i es @ e # drop i es)"
      "fentries s e = Some x" "fe_funct_ptr x = fn"
      "funct_at s = (funct_at demo_threads)(fn \<mapsto> f\<lparr>funct_users := funct_users f + 1\<rparr>)"
    have "fn = 648" "th = 712" using c(1,2) demo_add_guards(3,4) by simp_all
    then show thesis using c(3-8) by (intro that) (simp_all add: demo_threads_at)
  qed (use rc in simp)
  have "in_use (flist s) = {e}" by (simp add: e(1) in_use_def)
  then have "entries_for (flist s) (fentries s) 648 = {e}" using e(2,3) by (auto simp: entries_for_def)
  moreover obtain f' where f': "funct_at s 648 = Some f'" using f by simp
  ultimately have "funct_users f' = 1" using nonreentrant_once [OF r demo_threads_ok f'] by simp
  then show ?thesis using r f' e(1) by blast
qed

end
