(* ===== verification/Rtapi_Task_Correct.thy ===== *)
theory Rtapi_Task_Correct
  imports Rtapi_Task Hal_Demo
begin

text \<open>
  Tasks and shared-memory handles: the slot a new task or segment gets, what
  the handle gives access to afterwards, and what other handles keep.
\<close>

section \<open>Slots\<close>

definition rtapi_wf :: "rtapi_state \<Rightarrow> bool" where
  "rtapi_wf r \<longleftrightarrow> length (task_array r) = RTAPI_MAX_TASKS + 1 \<and> length (shmem_array r) = RTAPI_MAX_SHMEMS + 1"

lemma find_task_slot_correct:
  assumes "i \<le> RTAPI_MAX_TASKS"
  shows "i \<le> find_task_slot ts i" "find_task_slot ts i \<le> RTAPI_MAX_TASKS"
    "\<And>j. i \<le> j \<Longrightarrow> j < find_task_slot ts i \<Longrightarrow> task_magic (ts ! j) = TASK_MAGIC"
    "find_task_slot ts i < RTAPI_MAX_TASKS \<Longrightarrow> task_magic (ts ! find_task_slot ts i) \<noteq> TASK_MAGIC"
proof -
  have "i \<le> find_task_slot ts i \<and> find_task_slot ts i \<le> RTAPI_MAX_TASKS \<and>
    (\<forall>j. i \<le> j \<and> j < find_task_slot ts i \<longrightarrow> task_magic (ts ! j) = TASK_MAGIC) \<and>
    (find_task_slot ts i < RTAPI_MAX_TASKS \<longrightarrow> task_magic (ts ! find_task_slot ts i) \<noteq> TASK_MAGIC)"
    using assms
  proof (induction ts i rule: find_task_slot.induct)
    case (1 ts i)
    show ?case
    proof (cases "i < RTAPI_MAX_TASKS \<and> task_magic (ts ! i) = TASK_MAGIC")
      case True
      then have IH: "i + 1 \<le> find_task_slot ts (i + 1) \<and> find_task_slot ts (i + 1) \<le> RTAPI_MAX_TASKS \<and>
        (\<forall>j. i + 1 \<le> j \<and> j < find_task_slot ts (i + 1) \<longrightarrow> task_magic (ts ! j) = TASK_MAGIC) \<and>
        (find_task_slot ts (i + 1) < RTAPI_MAX_TASKS \<longrightarrow> task_magic (ts ! find_task_slot ts (i + 1)) \<noteq> TASK_MAGIC)"
        using 1 by simp
      have e: "find_task_slot ts i = find_task_slot ts (i + 1)"
        using True by (subst find_task_slot.simps) simp
      have "task_magic (ts ! j) = TASK_MAGIC" if "i \<le> j" "j < find_task_slot ts (i + 1)" for j
        using that True IH by (cases "j = i") auto
      then show ?thesis unfolding e using IH by auto
    next
      case False
      then have "find_task_slot ts i = i" by (subst find_task_slot.simps) auto
      then show ?thesis using False 1(2) by auto
    qed
  qed
  then show "i \<le> find_task_slot ts i" "find_task_slot ts i \<le> RTAPI_MAX_TASKS"
    "\<And>j. i \<le> j \<Longrightarrow> j < find_task_slot ts i \<Longrightarrow> task_magic (ts ! j) = TASK_MAGIC"
    "find_task_slot ts i < RTAPI_MAX_TASKS \<Longrightarrow> task_magic (ts ! find_task_slot ts i) \<noteq> TASK_MAGIC"
    by auto
qed

lemma task_handle_some:
  "task_handle r h = Some i \<longleftrightarrow> 0 < h \<and> h < int RTAPI_MAX_TASKS \<and> i = nat h \<and> task_magic (task_array r ! i) = TASK_MAGIC"
  by (auto simp: task_handle_def)

text \<open>A new task is refused with ENOMEM exactly when every slot is taken and
  else with EINVAL exactly when its priority is out of range, without any
  change. Otherwise it gets an unused handle, which then denotes a task with
  the requested priority and owner and at least the minimal stack, every other
  task stays as it is, and deleting it gives the slot back.\<close>

theorem rtapi_task_new_correct:
  assumes "rtapi_wf r"
  shows "\<exists>r' rc. rtapi_task_new args r = (r', rc) \<and> rtapi_wf r' \<and>
    (if \<forall>h. 0 < h \<and> h < int RTAPI_MAX_TASKS \<longrightarrow> task_handle r h \<noteq> None then rc = - ENOMEM \<and> r' = r
     else if ra_prio args < PRIO_LOWEST \<or> PRIO_HIGHEST < ra_prio args then rc = - EINVAL \<and> r' = r
     else task_handle r rc = None \<and> task_handle r' rc = Some (nat rc) \<and>
       task_prio (task_array r' ! nat rc) = ra_prio args \<and> task_owner (task_array r' ! nat rc) = ra_owner args \<and>
       MIN_STACKSIZE \<le> task_stacksize (task_array r' ! nat rc) \<and>
       (\<forall>j. j \<noteq> nat rc \<longrightarrow> task_array r' ! j = task_array r ! j) \<and>
       task_handle (fst (rtapi_task_delete rc r')) rc = None)"
proof -
  let ?i = "find_task_slot (task_array r) 1"
  have one: "1 \<le> RTAPI_MAX_TASKS" by (simp add: RTAPI_MAX_TASKS_def)
  note slot = find_task_slot_correct [OF one, where ts = "task_array r"]
  have full: "?i = RTAPI_MAX_TASKS \<longleftrightarrow> (\<forall>h. 0 < h \<and> h < int RTAPI_MAX_TASKS \<longrightarrow> task_handle r h \<noteq> None)"
  proof
    assume e: "?i = RTAPI_MAX_TASKS"
    have "task_handle r h \<noteq> None" if "0 < h" "h < int RTAPI_MAX_TASKS" for h
      using slot(3) [of "nat h"] that e by (auto simp: task_handle_def)
    then show "\<forall>h. 0 < h \<and> h < int RTAPI_MAX_TASKS \<longrightarrow> task_handle r h \<noteq> None" by auto
  next
    assume a: "\<forall>h. 0 < h \<and> h < int RTAPI_MAX_TASKS \<longrightarrow> task_handle r h \<noteq> None"
    show "?i = RTAPI_MAX_TASKS"
    proof (rule ccontr)
      assume "?i \<noteq> RTAPI_MAX_TASKS"
      then have "?i < RTAPI_MAX_TASKS" using slot(2) by simp
      then show False using a [rule_format, of "int ?i"] slot(1,4) by (auto simp: task_handle_def)
    qed
  qed
  show ?thesis
  proof (cases "?i = RTAPI_MAX_TASKS \<or> ra_prio args < PRIO_LOWEST \<or> PRIO_HIGHEST < ra_prio args")
    case True
    then have "rtapi_task_new args r = (r, if ?i = RTAPI_MAX_TASKS then - ENOMEM else - EINVAL)"
      by (auto simp: rtapi_task_new_def rtapi_prio_lowest_def rtapi_prio_highest_def)
    then show ?thesis unfolding full [symmetric] using True assms by (elim disjE) simp_all
  next
    case False
    then have lt: "?i < RTAPI_MAX_TASKS" using slot(2) by simp
    have len: "?i < length (task_array r)" using lt assms by (simp add: rtapi_wf_def)
    obtain t where new: "rtapi_task_new args r =
        (r\<lparr>task_array := (task_array r)[?i := t], task_count := task_count r + 1\<rparr>, int ?i)"
      and t: "task_magic t = TASK_MAGIC" "task_prio t = ra_prio args" "task_owner t = ra_owner args"
        "MIN_STACKSIZE \<le> task_stacksize t"
      using False by (simp add: rtapi_task_new_def rtapi_prio_lowest_def rtapi_prio_highest_def Let_def)
    have h: "task_handle r (int ?i) = None" using slot(1,4) lt by (auto simp: task_handle_def)
    have "0 \<noteq> TASK_MAGIC" by (simp add: TASK_MAGIC_def)
    then show ?thesis unfolding full [symmetric] using new t h len lt slot(1) False assms
      by (simp add: rtapi_wf_def task_handle_def rtapi_task_delete_def)
  qed
qed


section \<open>Shared-memory handles\<close>

lemma find_shmem_correct:
  assumes "i \<le> RTAPI_MAX_SHMEMS" "find_shmem sa key i = (j, found)"
  shows "i \<le> j" "j \<le> RTAPI_MAX_SHMEMS" "found \<Longrightarrow> j < RTAPI_MAX_SHMEMS \<and> shm_magic (sa ! j) = SHMEM_MAGIC \<and> shm_key (sa ! j) = key"
    "\<not> found \<Longrightarrow> j < RTAPI_MAX_SHMEMS \<Longrightarrow> shm_magic (sa ! j) \<noteq> SHMEM_MAGIC"
proof -
  have "i \<le> j \<and> j \<le> RTAPI_MAX_SHMEMS \<and>
    (found \<longrightarrow> j < RTAPI_MAX_SHMEMS \<and> shm_magic (sa ! j) = SHMEM_MAGIC \<and> shm_key (sa ! j) = key) \<and>
    (\<not> found \<and> j < RTAPI_MAX_SHMEMS \<longrightarrow> shm_magic (sa ! j) \<noteq> SHMEM_MAGIC)"
    using assms
  proof (induction sa key i rule: find_shmem.induct)
    case (1 sa key i)
    show ?case
    proof (cases "i < RTAPI_MAX_SHMEMS \<and> shm_magic (sa ! i) = SHMEM_MAGIC \<and> shm_key (sa ! i) \<noteq> key")
      case True
      then have "find_shmem sa key (i + 1) = (j, found)" using 1(3) by (subst (asm) find_shmem.simps) simp
      then show ?thesis using 1(1) True by simp
    next
      case False
      then show ?thesis using 1(2,3) by (subst (asm) find_shmem.simps) (auto split: if_splits)
    qed
  qed
  then show "i \<le> j" "j \<le> RTAPI_MAX_SHMEMS" "found \<Longrightarrow> j < RTAPI_MAX_SHMEMS \<and> shm_magic (sa ! j) = SHMEM_MAGIC \<and> shm_key (sa ! j) = key"
    "\<not> found \<Longrightarrow> j < RTAPI_MAX_SHMEMS \<Longrightarrow> shm_magic (sa ! j) \<noteq> SHMEM_MAGIC" by auto
qed

text \<open>When a segment can be had, the handle returned denotes a segment with
  the requested key, its reference count has gone up by one (from zero for a
  slot that was unused), no other handle changes, and the matching delete
  takes the reference back: a handle that was in use stays valid with its old
  count, a new one is invalid again.\<close>

theorem rtapi_shmem_roundtrip:
  assumes "rtapi_wf r" "rtapi_shmem_new_inst key inst sz r = (r', h)" "0 \<le> h"
  shows "0 < h \<and> h < int RTAPI_MAX_SHMEMS \<and> shm_magic (shmem_array r' ! nat h) = SHMEM_MAGIC \<and>
    shm_key (shmem_array r' ! nat h) = key \<and>
    shm_count (shmem_array r' ! nat h) =
      (if shm_magic (shmem_array r ! nat h) = SHMEM_MAGIC then shm_count (shmem_array r ! nat h) else 0) + 1 \<and>
    (\<forall>j. j \<noteq> nat h \<longrightarrow> shmem_array r' ! j = shmem_array r ! j) \<and>
    (shm_magic (shmem_array r ! nat h) = SHMEM_MAGIC \<and> shm_count (shmem_array r ! nat h) > 0 \<longrightarrow>
       fst (rtapi_shmem_delete_inst h r') = r) \<and>
    (shm_magic (shmem_array r ! nat h) \<noteq> SHMEM_MAGIC \<longrightarrow>
       fst (rtapi_shmem_getptr_inst h (fst (rtapi_shmem_delete_inst h r'))) = - ENOENT)"
proof -
  obtain i found where f: "find_shmem (shmem_array r) key 1 = (i, found)" by fastforce
  have one: "1 \<le> RTAPI_MAX_SHMEMS" by (simp add: RTAPI_MAX_SHMEMS_def)
  note c = find_shmem_correct [OF one f]
  have neg: "- ENOMEM < 0" "0 \<noteq> SHMEM_MAGIC" by (simp_all add: SHMEM_MAGIC_def)
  have len: "length (shmem_array r) = RTAPI_MAX_SHMEMS + 1" using assms(1) by (simp add: rtapi_wf_def)
  show ?thesis
  proof (cases found)
    case True
    let ?sh = "shmem_array r ! i"
    have e: "r' = r\<lparr>shmem_array := (shmem_array r)[i := ?sh\<lparr>shm_count := shm_count ?sh + 1\<rparr>]\<rparr>" "h = int i"
      using assms(2) f True by (auto simp: rtapi_shmem_new_inst_def)
    have "fst (rtapi_shmem_delete_inst h r') = r" if "shm_count ?sh > 0"
      using that e c(1,3) True len by (simp add: rtapi_shmem_delete_inst_def Let_def)
    then show ?thesis using e c(1,3) True len by simp
  next
    case False
    obtain ret sz' mem where m: "shm_common_new (flv r) key sz = (ret, sz', mem)" by (metis prod_cases3)
    let ?sh = "\<lparr>shm_magic = SHMEM_MAGIC, shm_key = key, shm_count = 1, shm_instance = inst, shm_size = sz',
      shm_mem = mem\<rparr>"
    have e: "i < RTAPI_MAX_SHMEMS" "r' = r\<lparr>shmem_array := (shmem_array r)[i := ?sh]\<rparr>" "h = int i"
      using assms(2,3) f False m neg c(2) by (auto simp: rtapi_shmem_new_inst_def split: if_splits)
    then show ?thesis using c(1,4) False len neg
      by (simp add: rtapi_shmem_delete_inst_def rtapi_shmem_getptr_inst_def Let_def)
  qed
qed

text \<open>The search stops at the first unused slot. After a segment in a lower slot
  is gone, a key that is in use in a higher one gets a second handle.\<close>

definition two_segments :: rtapi_state where
  "two_segments = fst (rtapi_shmem_new_inst 2 0 64 (fst (rtapi_shmem_new_inst 1 0 64 demo_rtapi)))"

lemmas shmem_eval = demo_rtapi_def rtapi_shmem_new_inst_def rtapi_shmem_delete_inst_def find_shmem.simps
  SHMEM_MAGIC_def RTAPI_MAX_SHMEMS_def

lemma shmem_key_twice:
  "snd (rtapi_shmem_new_inst 2 0 64 two_segments) = 2 \<and>
   snd (rtapi_shmem_new_inst 2 0 64 (fst (rtapi_shmem_delete_inst 1 two_segments))) = 1"
  by (simp add: two_segments_def shmem_eval)

section \<open>Applications\<close>

lemma demo_rtapi_wf: "rtapi_wf demo_rtapi"
  by (simp add: rtapi_wf_def demo_rtapi_def RTAPI_MAX_TASKS_def RTAPI_MAX_SHMEMS_def)

definition demo_task :: rtapi_task_args where
  "demo_task = \<lparr>ra_code = 1, ra_arg = 0, ra_prio = 98, ra_owner = 1, ra_stacksize = 16384, ra_uses_fp = 1,
     ra_cpu_id = -1, ra_name = ''servo'', ra_flags = 0, ra_cgname = []\<rparr>"

theorem rtapi_task_new_correct_witness:
  "\<exists>r' h. rtapi_task_new demo_task demo_rtapi = (r', h) \<and> task_handle r' h = Some (nat h)"
proof -
  have "task_handle demo_rtapi 1 = None" "0 < (1 :: int)" "1 < int RTAPI_MAX_TASKS"
    by (simp_all add: task_handle_def demo_rtapi_def TASK_MAGIC_def RTAPI_MAX_TASKS_def)
  then have "\<not> (\<forall>h. 0 < h \<and> h < int RTAPI_MAX_TASKS \<longrightarrow> task_handle demo_rtapi h \<noteq> None)" by blast
  moreover have "\<not> (ra_prio demo_task < PRIO_LOWEST \<or> PRIO_HIGHEST < ra_prio demo_task)"
    by (simp add: demo_task_def PRIO_LOWEST_def PRIO_HIGHEST_def)
  ultimately show ?thesis
    using rtapi_task_new_correct [OF demo_rtapi_wf, of demo_task] by (simp only: if_False) blast
qed

theorem rtapi_shmem_roundtrip_witness:
  "shm_key (shmem_array (fst (rtapi_shmem_new_inst 1 0 64 demo_rtapi)) ! 1) = 1"
proof -
  have "snd (rtapi_shmem_new_inst 1 0 64 demo_rtapi) = 1" by (simp add: shmem_eval)
  then show ?thesis
    using rtapi_shmem_roundtrip [OF demo_rtapi_wf, of 1 0 64 "fst (rtapi_shmem_new_inst 1 0 64 demo_rtapi)" 1]
    by (simp add: prod_eq_iff)
qed

end
