(* ===== verification/Ring_Correct.thy ===== *)
theory Ring_Correct
  imports Ring
begin

text \<open>
  Record mode of the ring buffers refines a queue of byte strings. \<open>ring_rep r xs\<close>
  says that ring \<open>r\<close> holds the records \<open>xs\<close>: they are laid out between the read
  and the write index, in one run or in two with a wrap mark behind the first.
  The interface a client relies on is the locale \<open>message_queue\<close>, whose
  laws the record operations are shown to satisfy.
\<close>

section \<open>Alignment\<close>

definition align_up :: "nat \<Rightarrow> nat \<Rightarrow> nat" where "align_up n m = (n + m - 1) div m * m"

lemma align_up_eq:
  "0 < m \<Longrightarrow> align_up n m = (if n mod m = 0 then n else n + (m - n mod m))"
proof (cases "n mod m = 0")
  case True
  assume m: "0 < m"
  from True obtain q where "n = m * q" by auto
  then have "(n + m - 1) div m = q" using m by (intro div_nat_eqI) auto
  with True \<open>n = m * q\<close> show ?thesis by (simp add: align_up_def)
next
  case False
  assume m: "0 < m"
  define q r where "q = n div m" and "r = n mod m"
  have n: "n = m * q + r" "0 < r" "r < m" using False m by (auto simp: q_def r_def)
  then have "(n + m - 1) div m = Suc q" by (intro div_nat_eqI) auto
  then show ?thesis using False n by (simp add: align_up_def algebra_simps flip: r_def)
qed

lemma align_up_bounds:
  assumes "0 < m" shows "n \<le> align_up n m" "align_up n m < n + m" "m dvd align_up n m"
proof -
  have "n mod m < m" using assms by simp
  then have "n \<le> n + m - n mod m" by linarith
  with \<open>n mod m < m\<close> show "n \<le> align_up n m" "align_up n m < n + m"
    using assms by (auto simp: align_up_eq)
qed (simp add: align_up_def)

lemma align_up_id: "0 < m \<Longrightarrow> m dvd n \<Longrightarrow> align_up n m = n"
  by (simp add: align_up_eq)

lemma neg_mod_align:
  assumes "0 < m" shows "(- int n) mod int m = int (align_up n m - n)"
  using assms by (simp add: align_up_eq zmod_zminus1_eq_if of_nat_diff less_imp_le flip: of_nat_mod)

lemma unat_RTAPI_ALIGN32:
  assumes k: "k < 32" and x: "align_up (unat x) (2 ^ k) < 2 ^ 32"
  shows "unat (RTAPI_ALIGN32 x (2 ^ k)) = align_up (unat x) (2 ^ k)"
proof -
  have "uint (- x AND mask k) = (- uint x mod 2 ^ 32) mod 2 ^ k"
    unfolding take_bit_eq_mask [symmetric] unsigned_take_bit_eq
    by (simp add: take_bit_eq_mod uint_word_ariths)
  also have "(- uint x mod 2 ^ 32) mod 2 ^ k = - uint x mod 2 ^ k"
    using k by (intro mod_mod_cancel le_imp_power_dvd) simp
  also have "\<dots> = int (align_up (unat x) (2 ^ k) - unat x)"
    using neg_mod_align [of "2 ^ k" "unat x"] by simp
  finally have "unat (- x AND mask k) = align_up (unat x) (2 ^ k) - unat x"
    by (simp only: uint_nat of_nat_eq_iff)
  moreover have "unat x \<le> align_up (unat x) (2 ^ k)" by (rule align_up_bounds) simp
  ultimately have "unat (x + (- x AND mask k)) = align_up (unat x) (2 ^ k)"
    using x by (subst unat_add_lem [THEN iffD1]) auto
  then show ?thesis by (simp add: RTAPI_ALIGN32_def mask_eq_exp_minus_1)
qed

lemma unat_size_aligned:
  "align_up (unat x) 8 < 2 ^ 32 \<Longrightarrow> unat (size_aligned x) = align_up (unat x) 8"
  using unat_RTAPI_ALIGN32 [of 3 x] by (simp add: size_aligned_def RB_ALIGN_def)

lemma unat_CACHE_ALIGN:
  "align_up (unat x) 64 < 2 ^ 32 \<Longrightarrow> unat (RTAPI_CACHE_ALIGN x) = align_up (unat x) 64"
  using unat_RTAPI_ALIGN32 [of 6 x] by (simp add: RTAPI_CACHE_ALIGN_def CACHELINE_def)

section \<open>Records in the storage\<close>

abbreviation rec_len :: "u8 list \<Rightarrow> nat" where "rec_len x \<equiv> align_up (length x + 4) 8"

fun recs :: "bytes \<Rightarrow> nat \<Rightarrow> u8 list list \<Rightarrow> nat \<Rightarrow> bool" where
  "recs b p [] q \<longleftrightarrow> p = q"
| "recs b p (x # xs) q \<longleftrightarrow>
     get_le b p 4 = length x \<and> read_bytes b (p + 4) (length x) = x \<and> recs b (p + rec_len x) xs q"

lemma rec_len_bounds: "length x + 4 \<le> rec_len x" "8 dvd rec_len x" "0 < rec_len x"
  using align_up_bounds [of 8 "length x + 4"] by auto

lemma recs_append: "recs b p (xs @ ys) q \<longleftrightarrow> (\<exists>m. recs b p xs m \<and> recs b m ys q)"
  by (induction xs arbitrary: p) auto

lemma recs_le: "recs b p xs q \<Longrightarrow> p \<le> q"
  by (induction xs arbitrary: p) (auto dest: add_leD1)

lemma recs_less: "recs b p (x # xs) q \<Longrightarrow> p + rec_len x \<le> q"
  by (auto dest: recs_le)

lemma recs_dvd: "recs b p xs q \<Longrightarrow> 8 dvd p \<Longrightarrow> 8 dvd q"
  by (induction xs arbitrary: p) (auto simp: rec_len_bounds)

lemma recs_cong:
  assumes "recs b p xs q" "\<And>a. p \<le> a \<Longrightarrow> a < q \<Longrightarrow> b' a = b a"
  shows "recs b' p xs q"
  using assms
proof (induction xs arbitrary: p)
  case (Cons x xs)
  have le: "p + rec_len x \<le> q" using Cons.prems(1) by (rule recs_less)
  have "length x + 4 \<le> rec_len x" by (rule rec_len_bounds)
  then have "get_le b' p 4 = get_le b p 4" "read_bytes b' (p + 4) (length x) = read_bytes b (p + 4) (length x)"
    using Cons.prems(2) le by (intro get_le_cong read_bytes_cong; simp)+
  then show ?case using Cons.prems Cons.IH [of "p + rec_len x"] by simp
qed simp

definition ring_ok :: "ringheader \<Rightarrow> bool" where
  "ring_ok r \<longleftrightarrow> 0 < unat (rsize r) \<and> unat (rsize r) < 2 ^ 31 \<and> 64 dvd unat (rsize r) \<and>
     unat (head r) < unat (rsize r) \<and> unat (tail r) < unat (rsize r) \<and>
     8 dvd unat (head r) \<and> 8 dvd unat (tail r)"

definition ring_rep :: "ringheader \<Rightarrow> u8 list list \<Rightarrow> bool" where
  "ring_rep r xs \<longleftrightarrow> ring_ok r \<and>
     (unat (head r) \<le> unat (tail r) \<and> recs (buf r) (unat (head r)) xs (unat (tail r)) \<or>
      unat (tail r) < unat (head r) \<and>
      (\<exists>ys zs w. xs = ys @ zs \<and> recs (buf r) (unat (head r)) ys w \<and> recs (buf r) 0 zs (unat (tail r)) \<and>
         (w = unat (rsize r) \<or>
          w < unat (rsize r) \<and> get_le (buf r) w 4 = 2 ^ 32 - 1 \<and> zs \<noteq> [] \<and> unat (rsize r) < w + rec_len (hd zs))))"

lemma trailer_at_eq: "ring_ok r \<Longrightarrow> trailer_at r = unat (rsize r)"
  by (simp add: trailer_at_def ring_ok_def unat_CACHE_ALIGN align_up_id)

lemma size_at_eq: "get_le (buf r) (unat off) 4 = n \<Longrightarrow> n < 2 ^ 31 \<Longrightarrow> size_at r off = int n"
  by (simp add: size_at_def sint_uint unsigned_of_nat take_bit_nat_eq_self signed_take_bit_int_eq_self)

lemma size_at_mark: "get_le (buf r) (unat off) 4 = 2 ^ 32 - 1 \<Longrightarrow> size_at r off = - 1"
  by (simp add: size_at_def)

lemma word_of_nat_mod: "word_of_nat (unat (v :: u32) mod 4294967296) = v"
proof -
  have "unat v < 2 ^ LENGTH(32)" by (rule unsigned_less)
  then show ?thesis by simp
qed

lemma tail_set_tail [simp]: "tail (set_tail v r) = v"
  by (simp add: tail_def set_tail_def trailer_at_def get_put_same word_of_nat_mod)

lemma ring_rep_empty: "ring_rep r [] \<Longrightarrow> head r = tail r"
  by (auto simp: ring_rep_def ring_ok_def word_unat_eq_iff)

lemma recs_first:
  assumes "recs (buf r) (unat off) (x # xs) q" "q \<le> s" "s < 2 ^ 31"
  shows "size_at r off = int (length x)" "length x < 2 ^ 31"
proof -
  have "length x < 2 ^ 31" using recs_less [OF assms(1)] rec_len_bounds [of x] assms(2,3) by simp
  then show "size_at r off = int (length x)" "length x < 2 ^ 31"
    using assms(1) by (auto intro!: size_at_eq)
qed

text \<open>Where the first record of a non-empty ring is, behind a wrap mark or not.\<close>

lemma ring_rep_Cons:
  assumes "ring_rep r (x # xs)"
  obtains off where "head r \<noteq> tail r" "off \<noteq> tail r"
    "off = head r \<or> off = 0 \<and> size_at r (head r) < 0"
    "size_at r off = int (length x)" "length x < 2 ^ 31"
    "read_bytes (buf r) (unat off + 4) (length x) = x"
    "unat off + rec_len x \<le> unat (rsize r)"
    "\<forall>r'. buf r' = buf r \<and> rsize r' = rsize r \<and>
       unat (head r') = (unat off + rec_len x) mod unat (rsize r) \<longrightarrow> ring_rep r' xs"
proof -
  let ?h = "unat (head r)" and ?t = "unat (tail r)" and ?s = "unat (rsize r)" and ?b = "buf r"
  have ok: "ring_ok r" using assms by (simp add: ring_rep_def)
  then have s: "0 < ?s" "?s < 2 ^ 31" "?h < ?s" "?t < ?s" "8 dvd ?h" "8 dvd ?t" "64 dvd ?s"
    by (auto simp: ring_ok_def)
  have ok': "ring_ok r'" and t': "tail r' = tail r"
    if "buf r' = buf r" "rsize r' = rsize r" "unat (head r') = h mod ?s" "8 dvd h" for r' h
  proof -
    show "tail r' = tail r" using that by (simp add: tail_def trailer_at_def)
    have "8 dvd ?s" by (rule dvd_trans [OF _ s(7)]) simp
    then have "8 dvd h mod ?s" using that(4) by (rule dvd_mod [rotated])
    with \<open>tail r' = tail r\<close> that s show "ring_ok r'" by (simp add: ring_ok_def)
  qed
  have rd: "8 dvd rec_len x" "0 < rec_len x" by (rule rec_len_bounds)+
  then have d: "8 dvd ?h + rec_len x" using s(5) by simp
  from assms consider
      (lin) "?h \<le> ?t" "recs ?b ?h (x # xs) ?t"
    | (wrap) ys zs w where "?t < ?h" "xs = ys @ zs" "recs ?b ?h (x # ys) w" "recs ?b 0 zs ?t" "w \<le> ?s"
        "w = ?s \<or> w < ?s \<and> get_le ?b w 4 = 2 ^ 32 - 1 \<and> zs \<noteq> [] \<and> ?s < w + rec_len (hd zs)"
    | (mark) "?t < ?h" "get_le ?b ?h 4 = 2 ^ 32 - 1" "recs ?b 0 (x # xs) ?t"
    using s(3) unfolding ring_rep_def by (fastforce simp: Cons_eq_append_conv)
  then show ?thesis
  proof cases
    case lin
    show ?thesis
    proof (rule that [of "head r"])
      show "head r \<noteq> tail r" "head r \<noteq> tail r" using recs_less [OF lin(2)] rd by auto
      have nxt: "ring_rep r' xs" if r': "buf r' = buf r" "rsize r' = rsize r"
        "unat (head r') = (?h + rec_len x) mod ?s" for r'
        using ok' [OF r'] t' [OF r'] r' lin recs_less [OF lin(2)] s rd
        by (simp add: ring_rep_def)
      then show "\<forall>r'. buf r' = buf r \<and> rsize r' = rsize r \<and>
          unat (head r') = (?h + rec_len x) mod ?s \<longrightarrow> ring_rep r' xs" by blast
    qed (use recs_first [OF lin(2), of ?s] s lin recs_less [OF lin(2)] in auto)
  next
    case wrap
    have le: "?h + rec_len x \<le> w" by (rule recs_less [OF wrap(3)])
    show ?thesis
    proof (rule that [of "head r"])
      have nxt: "ring_rep r' xs" if r': "buf r' = buf r" "rsize r' = rsize r"
        "unat (head r') = (?h + rec_len x) mod ?s" for r'
      proof (cases "?h + rec_len x = ?s")
        case True
        have "ys = []"
        proof (rule ccontr)
          assume "ys \<noteq> []"
          then obtain y ys' where "ys = y # ys'" by (cases ys) auto
          then have "recs ?b (?h + rec_len x) (y # ys') w" using wrap(3) by simp
          from recs_less [OF this] show False using True wrap(5) rec_len_bounds(3) [of y] by simp
        qed
        then show ?thesis using ok' [OF r' d] t' [OF r' d] r' wrap True s rd by (simp add: ring_rep_def)
      next
        case False
        then have "(?h + rec_len x) mod ?s = ?h + rec_len x" using le wrap(5) by simp
        then show ?thesis using ok' [OF r'] t' [OF r'] r' wrap s rd le
          by (auto simp: ring_rep_def)
      qed
      then show "\<forall>r'. buf r' = buf r \<and> rsize r' = rsize r \<and>
          unat (head r') = (?h + rec_len x) mod ?s \<longrightarrow> ring_rep r' xs" by blast
    qed (use recs_first [OF wrap(3,5)] s wrap le in auto)
  next
    case mark
    have le: "rec_len x \<le> ?t" using recs_less [OF mark(3)] by simp
    show ?thesis
    proof (rule that [of 0])
      have nxt: "ring_rep r' xs" if r': "buf r' = buf r" "rsize r' = rsize r"
        "unat (head r') = (unat (0 :: u32) + rec_len x) mod ?s" for r'
        using ok' [OF r'] t' [OF r'] r' mark le s rd by (simp add: ring_rep_def)
      then show "\<forall>r'. buf r' = buf r \<and> rsize r' = rsize r \<and>
          unat (head r') = (unat (0 :: u32) + rec_len x) mod ?s \<longrightarrow> ring_rep r' xs" by blast
    qed (use recs_first [of r 0 x xs ?t ?s] s mark le rd size_at_mark [of r "head r"] in auto)
  qed
qed

section \<open>Reading\<close>

lemma unat_rec_len:
  assumes "length x + 11 < 2 ^ 32"
  shows "unat (size_aligned (of_nat (length x) + 4)) = rec_len x"
proof -
  have "(of_nat (length x) + 4 :: u32) = of_nat (length x + 4)" by simp
  moreover have "unat (of_nat (length x + 4) :: u32) = length x + 4"
    using assms by (intro of_nat_inverse [OF refl]) simp
  ultimately show ?thesis
    using assms align_up_bounds(2) [of 8 "length x + 4"] by (simp add: unat_size_aligned)
qed

lemma record_read_empty: "ring_rep r [] \<Longrightarrow> record_read r = None"
  using ring_rep_empty [of r] by (simp add: record_read_def numeral_2_eq_2)

lemma record_shift_empty: "ring_rep r [] \<Longrightarrow> record_shift r = (r, EAGAIN)"
  using ring_rep_empty [of r] by (simp add: record_shift_def numeral_2_eq_2)

lemma record_read_first:
  assumes "ring_rep r (x # xs)"
  shows "\<exists>p. record_read r = Some (p, of_nat (length x)) \<and> read_bytes (buf r) p (length x) = x \<and>
     p + length x \<le> unat (rsize r)"
proof -
  from assms obtain off where "head r \<noteq> tail r" "off \<noteq> tail r"
    "off = head r \<or> off = 0 \<and> size_at r (head r) < 0"
    "size_at r off = int (length x)"
    "read_bytes (buf r) (unat off + 4) (length x) = x" "unat off + rec_len x \<le> unat (rsize r)"
    by (rule ring_rep_Cons)
  then show ?thesis using rec_len_bounds(1) [of x]
    by (auto simp: record_read_def numeral_2_eq_2)
qed

lemma sint_small: "unat (w :: u32) < 2 ^ 31 \<Longrightarrow> sint w = int (unat w)"
proof -
  assume "unat w < 2 ^ 31"
  then have "int (unat w) < int (2 ^ 31)" by (simp only: of_nat_less_iff)
  then have "uint w < 2 ^ 31" by simp
  moreover have "- 2147483648 \<le> uint w" using uint_ge_0 [of w] by linarith
  ultimately show ?thesis by (simp add: sint_uint signed_take_bit_int_eq_self)
qed

lemma record_shift_first:
  assumes "ring_rep r (x # xs)"
  shows "\<exists>h. record_shift r = (r\<lparr>generation := generation r + 1, head := h\<rparr>, 0) \<and>
     ring_rep (r\<lparr>generation := generation r + 1, head := h\<rparr>) xs"
proof -
  from assms obtain off where o: "head r \<noteq> tail r" "off \<noteq> tail r"
    "off = head r \<or> off = 0 \<and> size_at r (head r) < 0"
    "size_at r off = int (length x)" "length x < 2 ^ 31"
    "read_bytes (buf r) (unat off + 4) (length x) = x" "unat off + rec_len x \<le> unat (rsize r)"
    "\<forall>r'. buf r' = buf r \<and> rsize r' = rsize r \<and>
       unat (head r') = (unat off + rec_len x) mod unat (rsize r) \<longrightarrow> ring_rep r' xs"
    by (rule ring_rep_Cons)
  let ?h = "(off + size_aligned (of_nat (length x) + 4)) mod rsize r"
  have s: "0 < unat (rsize r)" "unat (rsize r) < 2 ^ 31"
    using assms by (auto simp: ring_rep_def ring_ok_def)
  have "unat (size_aligned (of_nat (length x) + 4)) = rec_len x"
    using o(5) by (intro unat_rec_len) simp
  then have "unat (off + size_aligned (of_nat (length x) + 4)) = unat off + rec_len x"
    using o(7) s by (subst unat_add_lem [THEN iffD1]) auto
  then have h: "unat ?h = (unat off + rec_len x) mod unat (rsize r)" by (simp add: unat_mod)
  moreover have "unat ?h < 2 ^ 31" using less_trans [OF mod_less_divisor [OF s(1)] s(2)] unfolding h .
  then have "\<not> sint ?h < 0" by (simp add: sint_small)
  moreover have "ring_shift_offset 2 r (head r) = Some ?h"
    using o by (auto simp: numeral_2_eq_2)
  ultimately have "record_shift r = (r\<lparr>generation := generation r + 1, head := ?h\<rparr>, 0)"
    by (simp add: record_shift_def)
  moreover have "ring_rep (r\<lparr>generation := generation r + 1, head := ?h\<rparr>) xs"
    using o(8) h by simp
  ultimately show ?thesis by blast
qed

section \<open>Writing\<close>

text \<open>The free space of the ring, and what the writer is told, in natural numbers.\<close>

definition ring_free :: "nat \<Rightarrow> nat \<Rightarrow> nat \<Rightarrow> nat" where
  "ring_free s h t = (if t < h then h - t else s + h - t)"

lemma record_write_begin_eq:
  assumes ok: "ring_ok r" and len: "length x + 11 < 2 ^ 32"
  shows "record_write_begin (of_nat (length x)) r =
    (let s = unat (rsize r); h = unat (head r); t = unat (tail r) in
     if rec_len x > s then (ERANGE, 0)
     else if ring_free s h t \<le> rec_len x then (EAGAIN, 0)
     else if t + rec_len x > s then (if h \<le> rec_len x then (EAGAIN, 0) else (0, 4))
     else (0, t + 4))"
proof -
  let ?s = "unat (rsize r)" and ?h = "unat (head r)" and ?t = "unat (tail r)"
  have s: "0 < ?s" "?s < 2 ^ 31" "?h < ?s" "?t < ?s" using ok by (auto simp: ring_ok_def)
  let ?a = "size_aligned (of_nat (length x) + 4)"
  have a: "unat ?a = rec_len x" by (rule unat_rec_len [OF len])
  have "unat (rsize r + head r) = ?s + ?h" using s by (subst unat_add_lem [THEN iffD1]) auto
  then have "unat (rsize r + head r - tail r) = ?s + ?h - ?t"
    using s by (subst unat_sub_if') auto
  then have "unat (rsize r + head r - tail r - 1) = ?s + ?h - ?t - 1"
    using s by (subst unat_sub_if') auto
  then have f0: "unat ((rsize r + head r - tail r - 1) mod rsize r) = (?s + ?h - ?t - 1) mod ?s"
    by (simp add: unat_mod)
  have f1: "(?s + ?h - ?t - 1) mod ?s = ring_free ?s ?h ?t - 1"
  proof (cases "?t < ?h")
    case True
    then have "?s + ?h - ?t - 1 = ?s + (?h - ?t - 1)" by simp
    then have "(?s + ?h - ?t - 1) mod ?s = (?h - ?t - 1) mod ?s" by (simp only: mod_add_self1)
    then show ?thesis using True s by (simp add: ring_free_def)
  qed (use s in \<open>simp add: ring_free_def\<close>)
  have fp: "0 < ring_free ?s ?h ?t" "ring_free ?s ?h ?t \<le> ?s" using s by (auto simp: ring_free_def)
  have f: "unat ((rsize r + head r - tail r - 1) mod rsize r + 1) = ring_free ?s ?h ?t"
    using f0 f1 fp s by (subst unat_add_lem [THEN iffD1]) auto
  show ?thesis
  proof (cases "rec_len x > ?s")
    case False
    then have "unat (tail r + ?a) = ?t + rec_len x" using s a by (subst unat_add_lem [THEN iffD1]) auto
    then show ?thesis using a f by (simp add: record_write_begin_def Let_def word_less_nat_alt word_le_nat_alt)
  qed (use a in \<open>simp add: record_write_begin_def word_less_nat_alt\<close>)
qed

lemma set_size_at_fields [simp]:
  "rsize (set_size_at off v r) = rsize r" "head (set_size_at off v r) = head r"
  "rsize (set_tail v r) = rsize r" "head (set_tail v r) = head r"
  by (simp_all add: set_size_at_def set_tail_def)

lemma tail_cong: "rsize r' = rsize r \<Longrightarrow> (\<And>a. trailer_at r \<le> a \<Longrightarrow> a < trailer_at r + 4 \<Longrightarrow> buf r' a = buf r a) \<Longrightarrow> tail r' = tail r"
  by (simp add: tail_def trailer_at_def get_le_cong [of "unat (RTAPI_CACHE_ALIGN (rsize r))" 4 "buf r'" "buf r"])

lemma tail_set_size_at: "ring_ok r \<Longrightarrow> unat off + 4 \<le> unat (rsize r) \<Longrightarrow> tail (set_size_at off v r) = tail r"
  using put_le_outside by (intro tail_cong) (simp_all add: trailer_at_eq set_size_at_def)

text \<open>
  What committing a record of \<open>x\<close> at offset \<open>t'\<close> does: a wrapping write leaves
  a mark at the old tail.
\<close>

lemma record_write_end_effect:
  assumes ok: "ring_ok r" and t': "t' = unat (tail r) \<or> t' = 0 \<and> rec_len x \<le> unat (tail r)"
    "t' + rec_len x \<le> unat (rsize r)"
    and r': "r' = record_write_end (t' + 4) (of_nat (length x)) (r\<lparr>buf := write_bytes (buf r) (t' + 4) x\<rparr>)"
  shows "rsize r' = rsize r" "head r' = head r" "unat (tail r') = (t' + rec_len x) mod unat (rsize r)"
    "get_le (buf r') t' 4 = length x" "read_bytes (buf r') (t' + 4) (length x) = x"
    "t' = 0 \<Longrightarrow> rec_len x \<le> unat (tail r) \<Longrightarrow> get_le (buf r') (unat (tail r)) 4 = 2 ^ 32 - 1"
    "\<And>a. a < unat (rsize r) \<Longrightarrow> a < t' \<or> t' + rec_len x \<le> a \<Longrightarrow>
       t' = unat (tail r) \<or> a < unat (tail r) \<or> unat (tail r) + 4 \<le> a \<Longrightarrow> buf r' a = buf r a"
proof -
  let ?s = "unat (rsize r)" and ?T = "unat (tail r)"
  have s: "0 < ?s" "?s < 2 ^ 31" "?T < ?s" "8 dvd ?T" "64 dvd ?s" using ok by (auto simp: ring_ok_def)
  have T4: "?T + 4 \<le> ?s" using s(3-5) by presburger
  have rl: "length x + 4 \<le> rec_len x" by (rule rec_len_bounds)
  define b1 where "b1 = write_bytes (buf r) (t' + 4) x"
  define r1 where "r1 = r\<lparr>buf := b1\<rparr>"
  have b1: "b1 a = buf r a" if "a < t' + 4 \<or> t' + rec_len x \<le> a" for a
    unfolding b1_def using that rl by (intro write_bytes_outside) auto
  have ok1: "ring_ok r1" and T1: "tail r1 = tail r"
  proof -
    show T1: "tail r1 = tail r"
      using ok b1 t'(2) by (intro tail_cong) (auto simp: r1_def trailer_at_eq)
    then show "ring_ok r1" using ok by (simp add: ring_ok_def r1_def)
  qed
  define rm where "rm = (if t' = 0 then set_tail 0 (set_size_at (tail r1) (- 1) r1) else r1)"
  define bm where "bm = (if t' = 0 then put_le (put_le b1 ?T 4 (2 ^ 32 - 1)) ?s 4 0 else b1)"
  have m1: "unat (- 1 :: u32) = 2 ^ 32 - 1" by (simp add: unsigned_minus_1_eq_mask mask_eq_exp_minus_1)
  have rm: "rsize rm = rsize r" "head rm = head r" "unat (tail rm) = t'"
    using t'(1) T1 by (auto simp: rm_def) (auto simp: r1_def)
  have "trailer_at (r\<lparr>buf := b\<rparr>) = ?s" for b using trailer_at_eq [OF ok] by (simp add: trailer_at_def)
  then have bm: "buf rm = bm"
    using T1 m1 by (simp add: rm_def bm_def r1_def set_tail_def set_size_at_def)
  have okm: "ring_ok rm" using ok rm t'(1) s by (auto simp: ring_ok_def)
  let ?v = "(tail rm + size_aligned (of_nat (length x) + 4)) mod rsize r"
  have "length x + 11 < 2 ^ 32" using rl t'(2) s(2) by simp
  from unat_rec_len [OF this] have "unat (tail rm + size_aligned (of_nat (length x) + 4)) = t' + rec_len x"
    using rm t'(2) s by (subst unat_add_lem [THEN iffD1]) auto
  then have v: "unat ?v = (t' + rec_len x) mod ?s" by (simp add: unat_mod)
  have "tail (set_size_at (tail rm) v rm) = tail rm" for v
    using rm t'(2) rl by (intro tail_set_size_at [OF okm]) auto
  moreover have "record_write_end (t' + 4) sz r1 =
      (let r2 = set_size_at (tail rm) sz rm
       in set_tail ((tail r2 + size_aligned (sz + 4)) mod rsize r2) r2)" for sz
    by (simp add: record_write_end_def rm_def Let_def)
  ultimately have r'_eq: "r' = set_tail ?v (set_size_at (tail rm) (of_nat (length x)) rm)"
    using rm(1) by (simp add: r' r1_def [symmetric] b1_def [symmetric] Let_def)
  have "unat (of_nat (length x) :: u32) = length x"
    using rl t'(2) s(2) by (intro of_nat_inverse [OF refl]) simp
  then have b': "buf r' = put_le (put_le bm t' 4 (length x)) ?s 4 (unat ?v)"
    using r'_eq rm bm trailer_at_eq [OF ok]
    by (simp add: set_tail_def set_size_at_def trailer_at_def)
  show "rsize r' = rsize r" "head r' = head r" using r'_eq rm by simp_all
  show "unat (tail r') = (t' + rec_len x) mod ?s" using r'_eq v by simp
  show "get_le (buf r') t' 4 = length x"
    using b' t'(2) rl s(2) by (simp add: get_put_disjoint get_put_same)
  have "read_bytes (buf r') (t' + 4) (length x) = read_bytes b1 (t' + 4) (length x)"
  proof (rule read_bytes_cong)
    fix a assume "t' + 4 \<le> a" "a < t' + 4 + length x"
    then show "buf r' a = b1 a"
      using t' rl T4 unfolding b' bm_def by (auto simp: put_le_outside)
  qed
  then show "read_bytes (buf r') (t' + 4) (length x) = x" by (simp add: b1_def read_write_same)
  show "get_le (buf r') ?T 4 = 2 ^ 32 - 1" if "t' = 0" "rec_len x \<le> ?T"
    using that T4 rl by (simp add: b' bm_def get_put_disjoint get_put_same)
  show "buf r' a = buf r a" if "a < ?s" "a < t' \<or> t' + rec_len x \<le> a"
    "t' = ?T \<or> a < ?T \<or> ?T + 4 \<le> a" for a
    using that b1 [of a] rl unfolding b' bm_def by (auto simp: put_le_outside)
qed

lemma ring_rep_wrapI:
  assumes "ring_ok r" "unat (tail r) < unat (head r)"
    "recs (buf r) (unat (head r)) ys w" "recs (buf r) 0 zs (unat (tail r))"
    "w = unat (rsize r) \<or> w < unat (rsize r) \<and> get_le (buf r) w 4 = 2 ^ 32 - 1 \<and> zs \<noteq> [] \<and> unat (rsize r) < w + rec_len (hd zs)"
  shows "ring_rep r (ys @ zs)"
  using assms unfolding ring_rep_def by blast

lemma record_write_rep:
  assumes rep: "ring_rep r xs" and len: "length x + 11 < 2 ^ 32"
    and w: "record_write x r = (r', rc)"
  shows "rc = 0 \<and> ring_rep r' (xs @ [x]) \<or> rc \<in> {EAGAIN, ERANGE} \<and> r' = r"
proof -
  let ?s = "unat (rsize r)" and ?h = "unat (head r)" and ?t = "unat (tail r)" and ?b = "buf r"
  let ?a = "rec_len x"
  have ok: "ring_ok r" using rep by (simp add: ring_rep_def)
  have s: "0 < ?s" "?h < ?s" "?t < ?s" "8 dvd ?h" "8 dvd ?t" "64 dvd ?s" using ok by (auto simp: ring_ok_def)
  have s8: "8 dvd ?s" by (rule dvd_trans [OF _ s(6)]) simp
  consider (err) rc' where "record_write_begin (of_nat (length x)) r = (rc', 0)" "rc' \<in> {EAGAIN, ERANGE}"
    | (straight) "record_write_begin (of_nat (length x)) r = (0, ?t + 4)"
        "?t + ?a \<le> ?s" "?a < ring_free ?s ?h ?t"
    | (wrap) "record_write_begin (of_nat (length x)) r = (0, 0 + 4)"
        "?t + ?a > ?s" "?a < ?h" "?a < ring_free ?s ?h ?t" "?a \<le> ?s"
    using record_write_begin_eq [OF ok len] by (fastforce simp: Let_def split: if_splits)
  then show ?thesis
  proof cases
    case err
    then show ?thesis using w by (auto simp: record_write_def Let_def)
  next
    case straight
    then have r': "r' = record_write_end (?t + 4) (of_nat (length x)) (r\<lparr>buf := write_bytes ?b (?t + 4) x\<rparr>)"
      and rc: "rc = 0" using w by (auto simp: record_write_def Let_def)
    note e = record_write_end_effect [OF ok disjI1 [OF refl] straight(2) r']
    have eq: "buf r' a = ?b a" if "a < ?s" "a < ?t \<or> ?t + ?a \<le> a" for a using that e(7) by blast
    have ok': "ring_ok r'" using ok e(1-3) s s8 rec_len_bounds(2) [of x] by (simp add: ring_ok_def dvd_mod)
    have new: "recs (buf r') ?t [x] (?t + ?a)" using e(4,5) by simp
    from rep consider (lin) "?h \<le> ?t" "recs ?b ?h xs ?t"
      | (wr) ys zs w where "?t < ?h" "xs = ys @ zs" "recs ?b ?h ys w" "recs ?b 0 zs ?t" "w \<le> ?s"
        "w = ?s \<or> w < ?s \<and> get_le ?b w 4 = 2 ^ 32 - 1 \<and> zs \<noteq> [] \<and> ?s < w + rec_len (hd zs)"
      unfolding ring_rep_def by fastforce
    then have "ring_rep r' (xs @ [x])"
    proof cases
      case lin
      have "recs (buf r') ?h xs ?t" using lin(2) by (rule recs_cong) (use eq s in auto)
      then have all: "recs (buf r') ?h (xs @ [x]) (?t + ?a)" using new unfolding recs_append by blast
      show ?thesis
      proof (cases "?t + ?a = ?s")
        case True
        then have "0 < ?h" using straight(3) lin(1) by (simp add: ring_free_def)
        then show ?thesis using True ok' e(1-3) all ring_rep_wrapI [of r' "xs @ [x]" ?s "[]"] by simp
      next
        case False
        then show ?thesis using straight(2) ok' e(1-3) all lin(1) by (simp add: ring_rep_def)
      qed
    next
      case wr
      have lt: "?t + ?a < ?h" using wr(1) straight(3) by (simp add: ring_free_def)
      have hw: "?h \<le> w" "8 dvd w" using recs_le [OF wr(3)] recs_dvd [OF wr(3) s(4)] by auto
      have "recs (buf r') ?h ys w" using wr(3) by (rule recs_cong) (use eq lt wr(5) in auto)
      moreover have "recs (buf r') 0 zs ?t" using wr(4) by (rule recs_cong) (use eq s in auto)
      then have "recs (buf r') 0 (zs @ [x]) (?t + ?a)" using new unfolding recs_append by blast
      moreover have "get_le (buf r') w 4 = get_le ?b w 4" if "w < ?s"
        using that hw s8 lt eq by (intro get_le_cong) (auto elim!: dvdE)
      moreover have "(?t + ?a) mod ?s = ?t + ?a" using lt s by simp
      ultimately show ?thesis using ok' e(1-3) lt wr(2,6) ring_rep_wrapI [of r' ys w "zs @ [x]"] by auto
    qed
    then show ?thesis using rc by simp
  next
    case wrap
    then have r': "r' = record_write_end (0 + 4) (of_nat (length x)) (r\<lparr>buf := write_bytes ?b (0 + 4) x\<rparr>)"
      and rc: "rc = 0" using w by (auto simp: record_write_def Let_def)
    have hle: "?h \<le> ?t" using wrap(2,4) s by (auto simp: ring_free_def split: if_splits)
    then have at: "?a \<le> ?t" using wrap(3) by simp
    note e = record_write_end_effect [OF ok disjI2 [OF conjI [OF refl at]] _ r', simplified, OF wrap(5)]
    have ok': "ring_ok r'" using ok e(1-3) s s8 rec_len_bounds(2) [of x] by (simp add: ring_ok_def dvd_mod)
    have "recs ?b ?h xs ?t" using rep hle by (auto simp: ring_rep_def)
    then have "recs (buf r') ?h xs ?t" by (rule recs_cong) (use e(7) wrap(3) s in auto)
    moreover have "recs (buf r') 0 [x] ?a" using e(4,5) by simp
    moreover have "?a mod ?s = ?a" using wrap(3) s by simp
    ultimately have "ring_rep r' (xs @ [x])" using ok' e(1-3) e(6) at wrap(2,3) s ring_rep_wrapI [of r' xs ?t "[x]"]
      by simp
    then show ?thesis using rc by simp
  qed
qed

section \<open>Queues of records\<close>

datatype 'a queue_op = Put 'a | Get

fun run_queue ::
  "('a \<Rightarrow> 'q \<Rightarrow> 'q \<times> int) \<Rightarrow> ('q \<Rightarrow> 'a option) \<Rightarrow> ('q \<Rightarrow> 'q \<times> int) \<Rightarrow> 'a queue_op list \<Rightarrow>
   'q \<Rightarrow> 'q \<times> 'a list \<times> 'a list" where
  "run_queue wr rd sh [] q = (q, [], [])"
| "run_queue wr rd sh (Put x # ops) q =
     (case wr x q of (q1, rc) \<Rightarrow>
      case run_queue wr rd sh ops q1 of (q2, acc, got) \<Rightarrow> (q2, if rc = 0 then x # acc else acc, got))"
| "run_queue wr rd sh (Get # ops) q =
     (case rd q of
        None \<Rightarrow> run_queue wr rd sh ops q
      | Some x \<Rightarrow>
         (case run_queue wr rd sh ops (fst (sh q)) of (q2, acc, got) \<Rightarrow> (q2, acc, x # got)))"

locale message_queue =
  fixes rep :: "'q \<Rightarrow> 'a list \<Rightarrow> bool"
    and wr :: "'a \<Rightarrow> 'q \<Rightarrow> 'q \<times> int" and rd :: "'q \<Rightarrow> 'a option" and sh :: "'q \<Rightarrow> 'q \<times> int"
    and fits :: "'a \<Rightarrow> bool"
  assumes put: "rep q xs \<Longrightarrow> fits x \<Longrightarrow> wr x q = (q', rc) \<Longrightarrow>
      rc = 0 \<and> rep q' (xs @ [x]) \<or> rc \<noteq> 0 \<and> q' = q"
    and peek_empty: "rep q [] \<Longrightarrow> rd q = None"
    and peek: "rep q (x # xs) \<Longrightarrow> rd q = Some x"
    and shift_empty: "rep q [] \<Longrightarrow> snd (sh q) \<noteq> 0 \<and> fst (sh q) = q"
    and shift: "rep q (x # xs) \<Longrightarrow> snd (sh q) = 0 \<and> rep (fst (sh q)) xs"
begin

text \<open>Whatever the order of writes and reads, the reader gets the accepted records in order.\<close>

lemma fifo:
  assumes "rep q xs" "\<forall>x. Put x \<in> set ops \<longrightarrow> fits x" "run_queue wr rd sh ops q = (q', acc, got)"
  shows "\<exists>ys. rep q' ys \<and> xs @ acc = got @ ys"
  using assms
proof (induction ops arbitrary: q xs acc got)
  case (Cons oper ops)
  show ?case
  proof (cases oper)
    case (Put x)
    obtain q1 rc where w: "wr x q = (q1, rc)" by fastforce
    obtain acc1 where r: "run_queue wr rd sh ops q1 = (q', acc1, got)"
      and acc: "acc = (if rc = 0 then x # acc1 else acc1)"
      using Cons.prems(3) Put w by (auto split: prod.splits)
    have "fits x" using Cons.prems(2) Put by auto
    from put [OF Cons.prems(1) this w] show ?thesis
    proof
      assume "rc = 0 \<and> rep q1 (xs @ [x])"
      then show ?thesis using Cons.IH [OF _ _ r, of "xs @ [x]"] Cons.prems(2) acc by auto
    next
      assume "rc \<noteq> 0 \<and> q1 = q"
      then show ?thesis using Cons.IH [OF _ _ r, of xs] Cons.prems(1,2) acc by auto
    qed
  next
    case Get
    show ?thesis
    proof (cases xs)
      case Nil
      then show ?thesis using Cons.prems Cons.IH [of q "[]"] Get peek_empty [of q] by auto
    next
      case xs: (Cons y ys)
      then have "rd q = Some y" "rep (fst (sh q)) ys" using peek shift Cons.prems(1) by auto
      then show ?thesis using Cons.prems Cons.IH [of "fst (sh q)" ys] Get xs
        by (auto split: prod.splits)
    qed
  qed
qed simp

text \<open>Reading and shifting until nothing is left returns the whole content.\<close>

lemma drain:
  assumes "rep q xs"
  shows "\<exists>q'. run_queue wr rd sh (replicate (length xs + k) Get) q = (q', [], xs) \<and> rep q' []"
  using assms
proof (induction xs arbitrary: q)
  case Nil
  then show ?case by (induction k) (auto simp: peek_empty)
next
  case (Cons x xs)
  then obtain q' where "run_queue wr rd sh (replicate (length xs + k) Get) (fst (sh q)) = (q', [], xs)"
    "rep q' []" using shift by blast
  then show ?case using peek [OF Cons.prems] by simp
qed

end

definition record_get :: "ringheader \<Rightarrow> u8 list option" where
  "record_get r = map_option (\<lambda>(p, n). read_bytes (buf r) p (unat n)) (record_read r)"

lemma record_get_first: "ring_rep r (x # xs) \<Longrightarrow> record_get r = Some x"
proof -
  assume r: "ring_rep r (x # xs)"
  then obtain p where p: "record_read r = Some (p, of_nat (length x))" "read_bytes (buf r) p (length x) = x"
    "p + length x \<le> unat (rsize r)" using record_read_first by blast
  have "unat (rsize r) < 2 ^ 31" using r by (simp add: ring_rep_def ring_ok_def)
  then have "unat (of_nat (length x) :: u32) = length x"
    using p(3) by (intro of_nat_inverse [OF refl]) simp
  then show ?thesis using p by (simp add: record_get_def)
qed

interpretation ring: message_queue ring_rep record_write record_get record_shift "\<lambda>x. length x + 11 < 2 ^ 32"
proof unfold_locales
  show "rc = 0 \<and> ring_rep q' (xs @ [x]) \<or> rc \<noteq> 0 \<and> q' = q"
    if "ring_rep q xs" "length x + 11 < 2 ^ 32" "record_write x q = (q', rc)" for q xs x q' rc
    using record_write_rep [OF that] by auto
qed (use record_read_empty record_get_first record_shift_empty record_shift_first in
    \<open>fastforce simp: record_get_def\<close>)+

section \<open>Sizes of rings\<close>

text \<open>A new ring in record mode is empty; its storage holds at least the requested size.\<close>

lemma record_storage:
  assumes "flags AND RINGTYPE_MASK \<noteq> RINGTYPE_STREAM" "unat sz \<le> 2 ^ 31 - 128"
  shows "unat (ring_storage_alloc flags sz) = align_up (align_up (unat sz) 8) 64"
    "align_up (align_up (unat sz) 8) 64 < 2 ^ 31" "unat sz \<le> align_up (align_up (unat sz) 8) 64"
proof -
  have b: "align_up (unat sz) 8 < unat sz + 8" "unat sz \<le> align_up (unat sz) 8"
    "align_up (align_up (unat sz) 8) 64 < align_up (unat sz) 8 + 64"
    "align_up (unat sz) 8 \<le> align_up (align_up (unat sz) 8) 64"
    by (rule align_up_bounds; simp)+
  then show lt: "align_up (align_up (unat sz) 8) 64 < 2 ^ 31" using assms(2) by simp
  from b show "unat sz \<le> align_up (align_up (unat sz) 8) 64" by simp
  from lt show "unat (ring_storage_alloc flags sz) = align_up (align_up (unat sz) 8) 64"
    using assms b by (simp add: ring_storage_alloc_def unat_CACHE_ALIGN unat_size_aligned)
qed

lemma ringheader_init_fields:
  "rsize (ringheader_init flags sz sp r) = ring_storage_alloc flags sz"
  "head (ringheader_init flags sz sp r) = 0" "tail (ringheader_init flags sz sp r) = 0"
proof -
  show "rsize (ringheader_init flags sz sp r) = ring_storage_alloc flags sz"
    "head (ringheader_init flags sz sp r) = 0"
    by (simp_all add: ringheader_init_def Let_def set_tail_def)
  show "tail (ringheader_init flags sz sp r) = 0"
    by (simp add: ringheader_init_def Let_def tail_def trailer_at_def set_tail_def get_put_same)
qed

lemma ringheader_init_rep:
  assumes "flags AND RINGTYPE_MASK \<noteq> RINGTYPE_STREAM" "0 < unat sz" "unat sz \<le> 2 ^ 31 - 128"
  shows "ring_rep (ringheader_init flags sz sp r) []"
  using record_storage [OF assms(1,3)] assms(2) align_up_bounds(3) [of 64 "align_up (unat sz) 8"]
  by (simp add: ring_rep_def ring_ok_def ringheader_init_fields)

lemma record_write_space_ok:
  assumes "ring_rep r xs" "length x + 11 < 2 ^ 32"
  shows "snd (record_write x r) = 0 \<longleftrightarrow>
    rec_len x \<le> unat (rsize r) \<and>
    rec_len x < ring_free (unat (rsize r)) (unat (head r)) (unat (tail r)) \<and>
    (unat (tail r) + rec_len x \<le> unat (rsize r) \<or> rec_len x < unat (head r))"
  using record_write_begin_eq [OF _ assms(2), of r] assms(1)
  by (auto simp: record_write_def ring_rep_def Let_def split: if_splits)

lemma recs_uniform: "recs b p xs q \<Longrightarrow> (\<And>x. x \<in> set xs \<Longrightarrow> rec_len x = n) \<Longrightarrow> q = p + length xs * n"
proof (induction xs arbitrary: p)
  case (Cons x xs)
  have "q = (p + rec_len x) + length xs * n" by (rule Cons.IH) (use Cons.prems in auto)
  then show ?case using Cons.prems(2) [of x] by simp
qed simp

text \<open>
  Records of one length are accepted while the ring is large enough for two more
  of them: one is the new record, and what a wrap mark leaves unused is less than
  another.
\<close>

lemma record_write_roomy:
  assumes rep: "ring_rep r xs" and len: "length x + 11 < 2 ^ 32"
    and uni: "\<And>y. y \<in> set xs \<Longrightarrow> rec_len y = rec_len x"
    and room: "(length xs + 2) * rec_len x \<le> unat (rsize r)"
  shows "snd (record_write x r) = 0"
proof -
  let ?s = "unat (rsize r)" and ?h = "unat (head r)" and ?t = "unat (tail r)" and ?n = "rec_len x"
  have n: "0 < ?n" by (rule rec_len_bounds)
  have s: "?h < ?s" "?t < ?s" using rep by (auto simp: ring_rep_def ring_ok_def)
  have room': "length xs * ?n + 2 * ?n \<le> ?s" using room by (simp add: algebra_simps)
  from rep consider (lin) "?h \<le> ?t" "recs (buf r) ?h xs ?t"
    | (wr) ys zs w where "?t < ?h" "xs = ys @ zs" "recs (buf r) ?h ys w" "recs (buf r) 0 zs ?t"
        "w = ?s \<or> zs \<noteq> [] \<and> ?s < w + rec_len (hd zs)"
    unfolding ring_rep_def by fastforce
  then have "?n < ring_free ?s ?h ?t \<and> (?t + ?n \<le> ?s \<or> ?n < ?h)"
  proof cases
    case lin
    have "?t = ?h + length xs * ?n" by (rule recs_uniform [OF lin(2)]) (rule uni)
    then show ?thesis using room' n s by (auto simp: ring_free_def)
  next
    case wr
    have "w = ?h + length ys * ?n" "?t = 0 + length zs * ?n"
      by (rule recs_uniform [OF wr(3)], use uni wr(2) in simp) (rule recs_uniform [OF wr(4)], use uni wr(2) in simp)
    moreover have "?s < w + ?n" using wr(5) uni wr(2) n by (cases zs) auto
    moreover have "length xs * ?n = length ys * ?n + length zs * ?n" using wr(2) by (simp add: algebra_simps)
    ultimately show ?thesis using room' wr(1) n by (simp add: ring_free_def)
  qed
  then show ?thesis using record_write_space_ok [OF rep len] room' by simp
qed

lemma record_write_full:
  assumes rep: "ring_rep r xs" and len: "length x + 11 < 2 ^ 32"
    and uni: "\<And>y. y \<in> set xs \<Longrightarrow> rec_len y = rec_len x"
    and full: "unat (rsize r) \<le> (length xs + 1) * rec_len x"
  shows "snd (record_write x r) \<noteq> 0"
proof -
  let ?s = "unat (rsize r)" and ?h = "unat (head r)" and ?t = "unat (tail r)" and ?n = "rec_len x"
  from rep consider (lin) "?h \<le> ?t" "recs (buf r) ?h xs ?t"
    | (wr) ys zs w where "?t < ?h" "xs = ys @ zs" "recs (buf r) ?h ys w" "recs (buf r) 0 zs ?t" "w \<le> ?s"
    unfolding ring_rep_def by fastforce
  then have "ring_free ?s ?h ?t \<le> ?n"
  proof cases
    case lin
    have "?t = ?h + length xs * ?n" by (rule recs_uniform [OF lin(2)]) (rule uni)
    then show ?thesis using full lin(1) by (simp add: ring_free_def)
  next
    case wr
    have "w = ?h + length ys * ?n" "?t = 0 + length zs * ?n"
      by (rule recs_uniform [OF wr(3)], use uni wr(2) in simp) (rule recs_uniform [OF wr(4)], use uni wr(2) in simp)
    moreover have "length xs * ?n = length ys * ?n + length zs * ?n" using wr(2) by (simp add: algebra_simps)
    ultimately show ?thesis using full wr(1,5) by (simp add: ring_free_def)
  qed
  then show ?thesis using record_write_space_ok [OF rep len] by simp
qed

lemma record_write_ERANGE:
  assumes "ring_rep r xs" "length x + 11 < 2 ^ 32"
  shows "snd (record_write x r) = ERANGE \<longleftrightarrow> rec_len x > unat (rsize r)"
  using record_write_begin_eq [OF _ assms(2), of r] assms(1)
  by (auto simp: record_write_def ring_rep_def Let_def split: if_splits)

lemma flush_loop_rep:
  assumes "ring_rep r xs"
  shows "\<exists>r'. flush_loop (Suc (length xs)) r n = Some (r', n + length xs) \<and> ring_rep r' []"
  using assms
proof (induction xs arbitrary: r n)
  case Nil
  then show ?case by (simp add: record_shift_empty)
next
  case (Cons x xs)
  from record_shift_first [OF Cons.prems] obtain r1 where "record_shift r = (r1, 0)" "ring_rep r1 xs"
    by blast
  then show ?case using Cons.IH [of r1 "n + 1"] by auto
qed

section \<open>Properties\<close>

definition blank_ring :: ringheader where
  "blank_ring = \<lparr>rtype = 0, refcount = 0, reader = 0, writer = 0, trailer_size = 0, size_mask = 0,
     rsize = 0, generation = 0, head = 0, buf = (\<lambda>_. 0)\<rparr>"

definition demo_ring :: ringheader where "demo_ring = ringheader_init RINGTYPE_RECORD 64 0 blank_ring"

lemma demo_ring_rep: "ring_rep demo_ring []"
  unfolding demo_ring_def
  by (rule ringheader_init_rep) (simp_all add: RINGTYPE_RECORD_def RINGTYPE_MASK_def RINGTYPE_STREAM_def)

lemma demo_ring_fields: "unat (rsize demo_ring) = 64" "head demo_ring = 0" "tail demo_ring = 0"
  unfolding demo_ring_def ringheader_init_fields
  using record_storage(1) [of RINGTYPE_RECORD 64]
  by (simp_all add: RINGTYPE_RECORD_def RINGTYPE_MASK_def RINGTYPE_STREAM_def align_up_id)

text \<open>A ring that holds one record.\<close>

definition demo_ring1 :: ringheader where "demo_ring1 = fst (record_write [1, 2, 3] demo_ring)"

lemma demo_ring1_rep: "ring_rep demo_ring1 [[1, 2, 3]]"
proof -
  have "align_up 7 8 = 8" by (simp add: align_up_def)
  then show ?thesis
    using record_write_rep [OF demo_ring_rep, of "[1, 2, 3]"]
      record_write_space_ok [OF demo_ring_rep, of "[1, 2, 3]"]
    by (cases "record_write [1, 2, 3] demo_ring") (auto simp: demo_ring_fields ring_free_def demo_ring1_def)
qed

text \<open>C7: The record ring is a queue. In any sequence of writes, and of reads each followed
  by its shift, the records the reader gets, followed by those still in the ring, are the records
  that were in the ring followed by the accepted ones, in order and byte for byte.\<close>

theorem record_ring_fifo:
  assumes "ring_rep r xs" "\<forall>x. Put x \<in> set ops \<longrightarrow> length x + 11 < 2 ^ 32"
    "run_queue record_write record_get record_shift ops r = (r', acc, got)"
  shows "\<exists>ys. ring_rep r' ys \<and> xs @ acc = got @ ys"
  using assms by (rule ring.fifo)

theorem record_ring_fifo_witness:
  "\<exists>r' acc got ys. run_queue record_write record_get record_shift [Put [1, 2, 3], Put [4], Get] demo_ring
     = (r', acc, got) \<and> ring_rep r' ys \<and> [] @ acc = got @ ys"
proof -
  obtain r' acc got where
    run: "run_queue record_write record_get record_shift [Put [1, 2, 3], Put [4], Get] demo_ring = (r', acc, got)"
    by (metis prod_cases3)
  have "\<forall>x. Put x \<in> set [Put [1, 2, 3], Put [4 :: u8], Get] \<longrightarrow> length x + 11 < 2 ^ 32" by auto
  from record_ring_fifo [OF demo_ring_rep this run] run show ?thesis by blast
qed

text \<open>C17: Writing a record appends it or leaves the ring as it is. It is refused with
  ERANGE exactly when it cannot fit at all, and accepted exactly when its aligned length is less
  than the free space and it fits before the end of the storage or before the read index.\<close>

theorem record_write_correct:
  assumes "ring_rep r xs" "length x + 11 < 2 ^ 32"
  shows "(snd (record_write x r) = 0 \<longrightarrow> ring_rep (fst (record_write x r)) (xs @ [x])) \<and>
    (snd (record_write x r) \<noteq> 0 \<longrightarrow> fst (record_write x r) = r) \<and>
    (snd (record_write x r) = ERANGE \<longleftrightarrow> rec_len x > unat (rsize r)) \<and>
    (snd (record_write x r) = 0 \<longleftrightarrow> rec_len x \<le> unat (rsize r) \<and>
       rec_len x < ring_free (unat (rsize r)) (unat (head r)) (unat (tail r)) \<and>
       (unat (tail r) + rec_len x \<le> unat (rsize r) \<or> rec_len x < unat (head r)))"
proof -
  obtain r' rc where w: "record_write x r = (r', rc)" by fastforce
  then show ?thesis
    using record_write_rep [OF assms w] record_write_ERANGE [OF assms] record_write_space_ok [OF assms]
    by auto
qed

theorem record_write_correct_witness:
  "snd (record_write [1, 2, 3] demo_ring) = 0 \<and> ring_rep (fst (record_write [1, 2, 3] demo_ring)) [[1, 2, 3]]"
proof -
  have "align_up 7 8 = 8" by (simp add: align_up_def)
  then show ?thesis
    using record_write_correct [OF demo_ring_rep, of "[1, 2, 3]"] by (simp add: demo_ring_fields ring_free_def)
qed

text \<open>Reading does not change the ring and returns the oldest record; shifting removes exactly
  that record and counts one generation; on an empty ring both report EAGAIN.\<close>

theorem record_read_shift_correct:
  assumes "ring_rep r xs"
  shows "case xs of
      [] \<Rightarrow> record_read r = None \<and> record_shift r = (r, EAGAIN)
    | x # ys \<Rightarrow> (\<exists>p r'. record_read r = Some (p, of_nat (length x)) \<and>
         read_bytes (buf r) p (length x) = x \<and> p + length x \<le> unat (rsize r) \<and>
         record_shift r = (r', 0) \<and> ring_rep r' ys \<and> generation r' = generation r + 1 \<and> buf r' = buf r)"
proof (cases xs)
  case Nil
  then show ?thesis using assms record_read_empty record_shift_empty by simp
next
  case (Cons x ys)
  then show ?thesis using record_read_first [of r x ys] record_shift_first [of r x ys] assms by fastforce
qed

theorem record_read_shift_correct_witness:
  "\<exists>p r'. record_read demo_ring1 = Some (p, of_nat 3) \<and> read_bytes (buf demo_ring1) p 3 = [1, 2, 3] \<and>
     record_shift demo_ring1 = (r', 0) \<and> ring_rep r' []"
  using record_read_shift_correct [OF demo_ring1_rep] by (auto simp: numeral_3_eq_3)

text \<open>C33: The reader's flush ends: after as many rounds as there are records, and one more to
  see the ring empty, it returns their number and leaves an empty ring.\<close>

theorem record_flush_reader_terminates:
  assumes "ring_rep r xs"
  shows "\<exists>r'. flush_loop (Suc (length xs)) r 0 = Some (r', length xs) \<and> ring_rep r' []"
  using flush_loop_rep [OF assms, of 0] by simp

theorem record_flush_reader_terminates_witness:
  "\<exists>r'. flush_loop 2 demo_ring1 0 = Some (r', 1) \<and> ring_rep r' []"
  using record_flush_reader_terminates [OF demo_ring1_rep] by (simp add: numeral_2_eq_2)

text \<open>A new record ring is empty, its storage is a multiple of the cache line of at least the
  requested size, and the memory asked for covers header, storage and trailer without overflow.\<close>

theorem ringheader_init_correct:
  assumes "flags AND RINGTYPE_MASK \<noteq> RINGTYPE_STREAM" "0 < unat sz" "unat sz \<le> 2 ^ 31 - 128"
    "unat sp_size \<le> 2 ^ 30"
  shows "ring_rep (ringheader_init flags sz sp_size r) [] \<and>
    unat sz \<le> unat (rsize (ringheader_init flags sz sp_size r)) \<and>
    64 dvd unat (rsize (ringheader_init flags sz sp_size r)) \<and>
    unat (ring_memsize flags sz sp_size) =
      128 + unat (rsize (ringheader_init flags sz sp_size r)) + align_up (64 + unat sp_size) 8"
proof -
  note st = record_storage [OF assms(1,3)]
  have "unat (sizeof_ringtrailer + sp_size) = 64 + unat sp_size"
    using assms(4) by (subst unat_add_lem [THEN iffD1]) (auto simp: sizeof_ringtrailer_def)
  moreover have al: "align_up (64 + unat sp_size) 8 < 72 + unat sp_size"
    using align_up_bounds(2) [of 8 "64 + unat sp_size"] by simp
  ultimately have tr: "unat (ring_trailer_alloc sp_size) = align_up (64 + unat sp_size) 8"
    using assms(4) by (simp add: ring_trailer_alloc_def unat_size_aligned)
  have "unat (sizeof_ringheader + ring_storage_alloc flags sz) = 128 + unat (ring_storage_alloc flags sz)"
    using st by (subst unat_add_lem [THEN iffD1]) (auto simp: sizeof_ringheader_def)
  then have "unat (ring_memsize flags sz sp_size) =
      128 + unat (ring_storage_alloc flags sz) + align_up (64 + unat sp_size) 8"
    unfolding ring_memsize_def using tr st al assms(4)
    by (subst unat_add_lem [THEN iffD1]) auto
  then show ?thesis using ringheader_init_rep [OF assms(1-3)] st align_up_bounds(3) [of 64 "align_up (unat sz) 8"]
    by (simp add: ringheader_init_fields)
qed

theorem ringheader_init_correct_witness:
  "ring_rep (ringheader_init RINGTYPE_RECORD 100 0 blank_ring) [] \<and>
   unat (ring_memsize RINGTYPE_RECORD 100 0) = 320"
proof -
  have c: "RINGTYPE_RECORD AND RINGTYPE_MASK \<noteq> RINGTYPE_STREAM"
    by (simp add: RINGTYPE_RECORD_def RINGTYPE_MASK_def RINGTYPE_STREAM_def)
  have "align_up 100 8 = 104" "align_up 104 64 = 128" "align_up 64 8 = 64" by (simp_all add: align_up_def)
  then show ?thesis using ringheader_init_correct [OF c, of 100 0 blank_ring] record_storage(1) [OF c, of 100]
    by (simp add: ringheader_init_fields)
qed

end
