(* ===== verification/Ring_Stream.thy ===== *)
theory Ring_Stream
  imports Ring_Correct
begin

text \<open>
  Stream mode of the ring buffers: the size computation by bit smearing, the
  free and used space, and the transfers. \<open>stream_content\<close> reads the bytes in
  the ring; transfers that stay below the end of the storage append to it and
  consume from it, and a write that passes the end overwrites the trailer.
\<close>

section \<open>The next power of two\<close>

text \<open>Each step of \<open>next_power_of_two\<close> doubles the reach of the set bits downwards.\<close>

lemma smear_step:
  assumes "\<And>n. bit x n \<longleftrightarrow> (\<exists>m. n \<le> m \<and> m < n + k \<and> bit v m)"
  shows "bit (x OR drop_bit k x :: u32) n \<longleftrightarrow> (\<exists>m. n \<le> m \<and> m < n + 2 * k \<and> bit v m)"
proof
  assume "bit (x OR drop_bit k x) n"
  then have "bit x n \<or> bit x (n + k)" by (auto simp: bit_simps add.commute)
  then show "\<exists>m. n \<le> m \<and> m < n + 2 * k \<and> bit v m"
  proof
    assume "bit x n"
    then obtain m where "n \<le> m" "m < n + k" "bit v m" unfolding assms by blast
    then show ?thesis by (intro exI [of _ m]) auto
  next
    assume "bit x (n + k)"
    then obtain m where "n + k \<le> m" "m < n + k + k" "bit v m" unfolding assms by blast
    then show ?thesis by (intro exI [of _ m]) auto
  qed
next
  assume "\<exists>m. n \<le> m \<and> m < n + 2 * k \<and> bit v m"
  then obtain m where m: "n \<le> m" "m < n + 2 * k" "bit v m" by blast
  show "bit (x OR drop_bit k x) n"
  proof (cases "m < n + k")
    case True
    then show ?thesis using m assms [of n] by (auto simp: bit_simps)
  next
    case False
    then have "bit x (n + k)" unfolding assms using m by (intro exI [of _ m]) auto
    then show ?thesis by (auto simp: bit_simps add.commute)
  qed
qed

definition smear :: "u32 \<Rightarrow> u32" where
  "smear v1 =
     (let v2 = v1 OR drop_bit 1 v1; v3 = v2 OR drop_bit 2 v2;
          v4 = v3 OR drop_bit 4 v3; v5 = v4 OR drop_bit 8 v4 in v5 OR drop_bit 16 v5)"

lemma bit_smear: "bit (smear v) n \<longleftrightarrow> (\<exists>m. n \<le> m \<and> bit v m)"
proof -
  have 0: "bit v n \<longleftrightarrow> (\<exists>m. n \<le> m \<and> m < n + 1 \<and> bit v m)" for n
    by (auto simp: less_Suc_eq_le le_antisym)
  note step = smear_step [where v = v]
  define v2 where "v2 = v OR drop_bit 1 v"
  define v3 where "v3 = v2 OR drop_bit 2 v2"
  define v4 where "v4 = v3 OR drop_bit 4 v3"
  define v5 where "v5 = v4 OR drop_bit 8 v4"
  have 2: "bit v2 n \<longleftrightarrow> (\<exists>m. n \<le> m \<and> m < n + 2 \<and> bit v m)" for n
    using step [OF 0] unfolding v2_def by simp
  have 4: "bit v3 n \<longleftrightarrow> (\<exists>m. n \<le> m \<and> m < n + 4 \<and> bit v m)" for n
    using step [OF 2] unfolding v3_def by simp
  have 8: "bit v4 n \<longleftrightarrow> (\<exists>m. n \<le> m \<and> m < n + 8 \<and> bit v m)" for n
    using step [OF 4] unfolding v4_def by simp
  have 16: "bit v5 n \<longleftrightarrow> (\<exists>m. n \<le> m \<and> m < n + 16 \<and> bit v m)" for n
    using step [OF 8] unfolding v5_def by simp
  have "bit (smear v) n \<longleftrightarrow> (\<exists>m. n \<le> m \<and> m < n + 32 \<and> bit v m)"
    using step [OF 16] unfolding smear_def Let_def v5_def v4_def v3_def v2_def by simp
  also have "\<dots> \<longleftrightarrow> (\<exists>m. n \<le> m \<and> bit v m)"
  proof -
    have "m < n + 32" if "bit v m" for m using bit_imp_le_length [OF that] by simp
    then show ?thesis by blast
  qed
  finally show ?thesis .
qed

lemma smear_mask:
  assumes "unat v < 2 ^ k" "k = 0 \<or> 2 ^ (k - 1) \<le> unat v" "k \<le> 32"
  shows "smear v = mask k"
proof (rule bit_word_eqI)
  fix n assume "n < LENGTH(32)"
  have above: "\<not> bit v m" if "k \<le> m" for m
  proof
    assume "bit v m"
    then have "bit (unat v) m" by (simp add: bit_unsigned_iff)
    then have "2 ^ m \<le> unat v" by (cases "unat v < 2 ^ m") (auto simp: bit_iff_odd)
    moreover have "(2 :: nat) ^ k \<le> 2 ^ m" using that by simp
    ultimately show False using assms(1) by simp
  qed
  have top: "bit v (k - 1)" if "0 < k"
  proof -
    have "(2 :: nat) ^ k = 2 * 2 ^ (k - 1)" using that by (cases k) auto
    then have "unat v div 2 ^ (k - 1) = 1"
      using assms(1,2) that by (intro div_nat_eqI) auto
    then have "bit (unat v) (k - 1)" by (simp add: bit_iff_odd)
    then show ?thesis by (simp add: bit_unsigned_iff)
  qed
  show "bit (smear v) n \<longleftrightarrow> bit (mask k :: u32) n"
  proof (cases "n < k")
    case True
    then have "n \<le> k - 1" "bit v (k - 1)" using top by auto
    then have "bit (smear v) n" unfolding bit_smear by blast
    then show ?thesis using True \<open>n < LENGTH(32)\<close> by (simp add: bit_mask_iff)
  next
    case False
    then have "\<not> bit (smear v) n" unfolding bit_smear using above by auto
    then show ?thesis using False by (simp add: bit_mask_iff)
  qed
qed
lemma next_power_of_two_smear: "next_power_of_two v = smear (v - 1) + 1"
  by (simp add: next_power_of_two_def smear_def Let_def)

lemma bit_length_exists:
  fixes u :: nat
  obtains k where "u < 2 ^ k" "k = 0 \<or> 2 ^ (k - 1) \<le> u"
proof -
  define k where "k = (LEAST k. u < 2 ^ k)"
  have "u < 2 ^ k" unfolding k_def by (rule LeastI [of _ u]) (rule less_exp)
  moreover have "2 ^ (k - 1) \<le> u" if "0 < k"
    using not_less_Least [of "k - 1" "\<lambda>k. u < 2 ^ k"] that by (simp add: k_def [symmetric] not_less)
  ultimately show ?thesis using that by auto
qed

lemma unat_exp2: "k < 32 \<Longrightarrow> unat (2 ^ k :: u32) = 2 ^ k"
proof -
  assume "k < 32"
  then have "(2 :: nat) ^ k \<le> 2 ^ 31" by (intro power_increasing) auto
  then have "unat (of_nat (2 ^ k) :: u32) = 2 ^ k" by (intro of_nat_inverse [OF refl]) simp
  then show ?thesis by simp
qed

lemma next_power_of_two_eq:
  assumes "0 < unat v" "unat v \<le> 2 ^ 31"
  obtains k where "k \<le> 31" "unat (next_power_of_two v) = 2 ^ k" "unat v \<le> 2 ^ k"
    "k = 0 \<or> 2 ^ (k - 1) < unat v"
proof -
  have u: "unat (v - 1) = unat v - 1" using assms(1) by (simp add: unat_sub_if')
  obtain k where k: "unat (v - 1) < 2 ^ k" "k = 0 \<or> 2 ^ (k - 1) \<le> unat (v - 1)"
    by (rule bit_length_exists)
  have k31: "k \<le> 31"
  proof (rule ccontr)
    assume "\<not> k \<le> 31"
    then have "(2 :: nat) ^ 31 \<le> 2 ^ (k - 1)" by (intro power_increasing) auto
    then show False using k(2) u assms \<open>\<not> k \<le> 31\<close> by auto
  qed
  have "next_power_of_two v = 2 ^ k"
    using smear_mask [OF k] k31 by (simp add: next_power_of_two_smear mask_eq_exp_minus_1)
  then have "unat (next_power_of_two v) = 2 ^ k" using unat_exp2 [of k] k31 by simp
  then show ?thesis by (rule that [OF k31]) (use k u assms(1) in auto)
qed

section \<open>Stream transfers\<close>

definition stream_ok :: "ringheader \<Rightarrow> bool" where
  "stream_ok r \<longleftrightarrow> (\<exists>k. 6 \<le> k \<and> k < 31 \<and> unat (rsize r) = 2 ^ k) \<and> size_mask r = rsize r - 1 \<and>
     unat (head r) < unat (rsize r) \<and> unat (tail r) < unat (rsize r)"

definition stream_content :: "ringheader \<Rightarrow> u8 list" where
  "stream_content r =
     (let s = unat (rsize r); h = unat (head r); t = unat (tail r) in
      if h \<le> t then read_bytes (buf r) h (t - h)
      else read_bytes (buf r) h (s - h) @ read_bytes (buf r) 0 t)"

lemma stream_mask:
  assumes "stream_ok r" shows "unat (x AND size_mask r) = unat x mod unat (rsize r)"
proof -
  from assms obtain k where k: "6 \<le> k" "k < 31" "unat (rsize r) = 2 ^ k" "size_mask r = rsize r - 1"
    by (auto simp: stream_ok_def)
  have "rsize r = 2 ^ k" using k unat_exp2 [of k] by (simp add: word_unat_eq_iff)
  then have "x AND size_mask r = take_bit k x" using k(4) by (simp add: take_bit_eq_mask mask_eq_exp_minus_1)
  then show ?thesis using k unat_exp2 [of k] by (simp add: take_bit_eq_mod unat_mod)
qed

lemma stream_bounds:
  assumes "stream_ok r"
  shows "64 \<le> unat (rsize r)" "unat (rsize r) < 2 ^ 31" "64 dvd unat (rsize r)"
    "unat (head r) < unat (rsize r)" "unat (tail r) < unat (rsize r)" "trailer_at r = unat (rsize r)"
proof -
  from assms obtain k where k: "6 \<le> k" "k < 31" "unat (rsize r) = 2 ^ k" by (auto simp: stream_ok_def)
  have "(2 :: nat) ^ 6 dvd 2 ^ k" by (rule le_imp_power_dvd) (rule k)
  then show d: "64 dvd unat (rsize r)" using k(3) by simp
  have "(2 :: nat) ^ 6 \<le> 2 ^ k" by (rule power_increasing) (use k in auto)
  then show "64 \<le> unat (rsize r)" using k(3) by simp
  have "(2 :: nat) ^ k < 2 ^ 31" by (rule power_strict_increasing) (use k in auto)
  then show s: "unat (rsize r) < 2 ^ 31" using k(3) by simp
  show "trailer_at r = unat (rsize r)" using d s by (simp add: trailer_at_def unat_CACHE_ALIGN align_up_id)
qed (use assms in \<open>auto simp: stream_ok_def\<close>)

lemma stream_read_space_eq:
  assumes "stream_ok r" shows "unat (stream_read_space r) = length (stream_content r)"
proof -
  note b = stream_bounds [OF assms]
  show ?thesis
  proof (cases "unat (head r) < unat (tail r)")
    case True
    then show ?thesis by (simp add: stream_read_space_def stream_content_def Let_def word_less_nat_alt unat_sub_if')
  next
    case False
    have "unat (rsize r + tail r) = unat (rsize r) + unat (tail r)"
      using b by (subst unat_add_lem [THEN iffD1]) auto
    then have "unat (rsize r + tail r - head r) = unat (rsize r) + unat (tail r) - unat (head r)"
      using b by (subst unat_sub_if') auto
    then have e: "unat (tail r - head r + rsize r) = unat (rsize r) + unat (tail r) - unat (head r)"
      by (simp add: algebra_simps)
    show ?thesis
    proof (cases "unat (head r) = unat (tail r)")
      case True
      then show ?thesis using e b
        by (simp add: stream_read_space_def stream_content_def Let_def word_less_nat_alt stream_mask [OF assms])
    next
      case ne: False
      then show ?thesis using e b False
        by (simp add: stream_read_space_def stream_content_def Let_def word_less_nat_alt stream_mask [OF assms])
    qed
  qed
qed

lemma stream_write_space_eq:
  assumes "stream_ok r"
  shows "unat (stream_write_space r) = unat (rsize r) - 1 - length (stream_content r)"
proof -
  note b = stream_bounds [OF assms]
  consider "unat (head r) < unat (tail r)" | "unat (tail r) < unat (head r)" | "unat (head r) = unat (tail r)"
    by linarith
  then show ?thesis
  proof cases
    case 1
    have "unat (rsize r + head r) = unat (rsize r) + unat (head r)"
      using b by (subst unat_add_lem [THEN iffD1]) auto
    then have "unat (rsize r + head r - tail r) = unat (rsize r) + unat (head r) - unat (tail r)"
      using b by (subst unat_sub_if') auto
    then have e: "unat (head r - tail r + rsize r) = unat (rsize r) + unat (head r) - unat (tail r)"
      by (simp add: algebra_simps)
    have "unat ((head r - tail r + rsize r) AND size_mask r) = unat (rsize r) + unat (head r) - unat (tail r)"
      using 1 b e by (simp add: stream_mask [OF assms])
    then have "unat (((head r - tail r + rsize r) AND size_mask r) - 1) = unat (rsize r) + unat (head r) - unat (tail r) - 1"
      using 1 b by (subst unat_sub_if') auto
    then show ?thesis using 1
      by (simp add: stream_write_space_def stream_content_def Let_def word_less_nat_alt)
  next
    case 2
    then have "unat (head r - tail r - 1) = unat (head r) - unat (tail r) - 1"
      by (simp add: unat_sub_if')
    then show ?thesis using 2 b
      by (simp add: stream_write_space_def stream_content_def Let_def word_less_nat_alt)
  next
    case 3
    then show ?thesis using b
      by (simp add: stream_write_space_def stream_content_def Let_def word_less_nat_alt unat_sub_if')
  qed
qed

lemma read_bytes_append: "read_bytes m a (i + j) = read_bytes m a i @ read_bytes m (a + i) j"
  unfolding read_bytes_def add.assoc [symmetric] by (subst upt_add_eq_append) auto

lemma read_bytes_0 [simp]: "read_bytes m a 0 = []"
  by (simp add: read_bytes_def)

lemma take_read_bytes: "n \<le> k \<Longrightarrow> take n (read_bytes m a k) = read_bytes m a n"
  by (simp add: read_bytes_def take_map)

lemma drop_read_bytes: "n \<le> k \<Longrightarrow> drop n (read_bytes m a k) = read_bytes m (a + n) (k - n)"
  by (simp add: read_bytes_def drop_map)

text \<open>A write that does not run into the end of the storage appends to the content.\<close>

lemma stream_write_append:
  assumes ok: "stream_ok r" and len: "length src < 2 ^ 32"
    and n: "n = min (length src) (unat (rsize r) - 1 - length (stream_content r))"
    and nowrap: "unat (tail r) + n \<le> unat (rsize r)"
  shows "stream_ok (fst (stream_write src r))"
    "stream_content (fst (stream_write src r)) = stream_content r @ take n src"
    "unat (snd (stream_write src r)) = n"
    "head (fst (stream_write src r)) = head r" "rsize (fst (stream_write src r)) = rsize r"
proof -
  note b = stream_bounds [OF ok]
  let ?s = "unat (rsize r)" and ?h = "unat (head r)" and ?t = "unat (tail r)"
  let ?w = "(if of_nat (length src) > stream_write_space r then stream_write_space r else of_nat (length src)) :: u32"
  have sp: "unat (stream_write_space r) = ?s - 1 - length (stream_content r)" by (rule stream_write_space_eq [OF ok])
  have l: "unat (of_nat (length src) :: u32) = length src" using len by (intro of_nat_inverse [OF refl]) simp
  have w: "unat ?w = n" using sp l n by (simp add: word_less_nat_alt min_def)
  have "\<exists>b' t'. stream_write src r = (r\<lparr>buf := b'\<rparr>, ?w) \<and> tail (r\<lparr>buf := b'\<rparr>) = t' \<and>
      unat t' = (?t + n) mod ?s \<and> (\<forall>a < ?s. b' a = write_bytes (buf r) ?t (take n src) a)"
  proof (cases "stream_write_space r = 0")
    case True
    then have "?w = 0" by (simp add: word_gt_0)
    then have "n = 0" using w by simp
    with \<open>?w = 0\<close> show ?thesis using True b
      by (intro exI [of _ "buf r"]) (auto simp add: stream_write_def write_bytes_def)
  next
    case False
    let ?b = "write_bytes (buf r) ?t (take n src)"
    have tw: "unat (tail r + ?w) = ?t + n" using nowrap b w by (subst unat_add_lem [THEN iffD1]) auto
    then have sp: "stream_split r (tail r) ?w = (?w, 0)"
      using nowrap by (simp add: stream_split_def Let_def word_less_nat_alt)
    have tl: "tail (r\<lparr>buf := ?b\<rparr>) = tail r"
      using b nowrap by (intro tail_cong) (auto simp: write_bytes_def)
    have eq: "stream_write src r = (set_tail ((tail r + ?w) AND size_mask r) (r\<lparr>buf := ?b\<rparr>), ?w)"
      using False sp tl w by (simp add: stream_write_def Let_def)
    have "trailer_at (r\<lparr>buf := ?b\<rparr>) = ?s" using b(6) by (simp add: trailer_at_def)
    then have "set_tail v (r\<lparr>buf := ?b\<rparr>) = r\<lparr>buf := put_le ?b ?s 4 (unat v)\<rparr>" for v
      by (simp add: set_tail_def)
    with eq tail_set_tail [of "(tail r + ?w) AND size_mask r" "r\<lparr>buf := ?b\<rparr>"]
    show ?thesis using tw by (intro exI [of _ "put_le ?b ?s 4 (unat ((tail r + ?w) AND size_mask r))"])
        (simp add: stream_mask [OF ok] put_le_outside)
  qed
  then obtain b' where e: "stream_write src r = (r\<lparr>buf := b'\<rparr>, ?w)"
    and t': "unat (tail (r\<lparr>buf := b'\<rparr>)) = (?t + n) mod ?s"
    and b': "\<And>a. a < ?s \<Longrightarrow> b' a = write_bytes (buf r) ?t (take n src) a" by blast
  show "unat (snd (stream_write src r)) = n" "head (fst (stream_write src r)) = head r"
    "rsize (fst (stream_write src r)) = rsize r" using e w by simp_all
  show "stream_ok (fst (stream_write src r))"
    using ok t' b(1) by (simp add: e stream_ok_def)
  have ln: "length (take n src) = n" using n by simp
  have new: "read_bytes b' ?t n = take n src"
  proof -
    have "read_bytes b' ?t n = read_bytes (write_bytes (buf r) ?t (take n src)) ?t (length (take n src))"
      unfolding ln by (rule read_bytes_cong) (use b' nowrap in auto)
    then show ?thesis by (simp only: read_write_same)
  qed
  have old: "read_bytes b' a k = read_bytes (buf r) a k"
    if "a + k \<le> ?s" "a + k \<le> ?t \<or> ?t + n \<le> a" for a k
    using that b' by (intro read_bytes_cong) (auto simp: write_bytes_outside ln)
  show "stream_content (fst (stream_write src r)) = stream_content r @ take n src"
  proof (cases "?h \<le> ?t")
    case True
    have all: "read_bytes b' ?h (?t - ?h + n) = stream_content r @ take n src"
      unfolding read_bytes_append using True old [of ?h "?t - ?h"] new b
      by (simp add: stream_content_def Let_def)
    show ?thesis
    proof (cases "?t + n = ?s")
      case t: True
      have "0 < ?h" using t n True b by (simp add: stream_content_def Let_def min_def split: if_splits)
      moreover have "?t - ?h + n = ?s - ?h" using t True by simp
      ultimately show ?thesis using t t' all by (simp add: e stream_content_def [of "r\<lparr>buf := b'\<rparr>"] Let_def read_bytes_def)
    next
      case False
      then have "(?t + n) mod ?s = ?t + n" using nowrap by simp
      moreover have "?t + n - ?h = ?t - ?h + n" using True by simp
      ultimately show ?thesis using t' all True by (simp add: e stream_content_def [of "r\<lparr>buf := b'\<rparr>"] Let_def)
    qed
  next
    case False
    then have lt: "?t + n < ?h" using n b by (simp add: stream_content_def Let_def)
    then have "(?t + n) mod ?s = ?t + n" using b by simp
    then show ?thesis using t' False lt b old [of ?h "?s - ?h"] old [of 0 ?t] new
      by (simp add: e stream_content_def Let_def read_bytes_append)
  qed
qed

text \<open>Peeking wraps correctly; reading is correct up to the end of the storage.\<close>

lemma stream_request:
  fixes cnt :: u32
  assumes ok: "stream_ok r" and n: "n = min (unat cnt) (length (stream_content r))"
  defines "w \<equiv> if cnt > stream_read_space r then stream_read_space r else cnt"
  shows "unat w = n" "unat (head r + w) = unat (head r) + n"
proof -
  note b = stream_bounds [OF ok]
  show w: "unat w = n" using stream_read_space_eq [OF ok] n by (simp add: w_def word_less_nat_alt min_def)
  have "n \<le> unat (rsize r)" using n b by (auto simp: stream_content_def Let_def)
  then show "unat (head r + w) = unat (head r) + n"
    using b w by (subst unat_add_lem [THEN iffD1]) auto
qed

lemma stream_peek_take:
  assumes ok: "stream_ok r"
  shows "stream_peek cnt r = take (unat cnt) (stream_content r)"
proof -
  let ?s = "unat (rsize r)" and ?h = "unat (head r)" and ?t = "unat (tail r)"
  note b = stream_bounds [OF ok]
  define n where "n = min (unat cnt) (length (stream_content r))"
  define w where "w = (if cnt > stream_read_space r then stream_read_space r else cnt)"
  have w: "unat w = n" and hw: "unat (head r + w) = ?h + n"
    using stream_request [OF ok n_def] by (simp_all add: w_def)
  have tk: "take (unat cnt) (stream_content r) = take n (stream_content r)" by (simp add: n_def min_def)
  show ?thesis
  proof (cases "stream_read_space r = 0")
    case True
    then show ?thesis using stream_read_space_eq [OF ok] by (simp add: stream_peek_def)
  next
    case False
    show ?thesis
    proof (cases "?h + n \<le> ?s")
      case True
      then have "stream_split r (head r) w = (w, 0)"
        using hw by (simp add: stream_split_def Let_def word_less_nat_alt)
      then have "stream_peek cnt r = read_bytes (buf r) ?h n"
        using False w by (simp add: stream_peek_def Let_def w_def)
      moreover have "take n (stream_content r) = read_bytes (buf r) ?h n"
        using True n_def b by (auto simp: stream_content_def Let_def take_read_bytes min_def)
      ultimately show ?thesis using tk by simp
    next
      case wrap: False
      then have lt: "?t < ?h" using b by (auto simp: n_def stream_content_def Let_def min_def split: if_splits)
      have "n \<le> ?s - ?h + ?t" using lt by (simp add: n_def stream_content_def Let_def)
      then have md: "(?h + n) mod ?s = ?h + n - ?s" using wrap b by (simp add: mod_if)
      have "stream_split r (head r) w = (rsize r - head r, (head r + w) AND size_mask r)"
        using hw wrap by (simp add: stream_split_def Let_def word_less_nat_alt)
      moreover have "unat (rsize r - head r) = ?s - ?h" using b by (simp add: unat_sub_if')
      moreover have "unat ((head r + w) AND size_mask r) = ?h + n - ?s"
        using hw md by (simp add: stream_mask [OF ok])
      moreover have "(head r + w) AND size_mask r \<noteq> 0"
        using calculation(3) wrap by auto
      moreover have "unat ((head r + (rsize r - head r)) AND size_mask r) = 0"
        using b by (simp add: stream_mask [OF ok])
      ultimately have "stream_peek cnt r = read_bytes (buf r) ?h (?s - ?h) @ read_bytes (buf r) 0 (?h + n - ?s)"
        using False by (simp add: stream_peek_def Let_def w_def)
      moreover have "take n (stream_content r) = read_bytes (buf r) ?h (?s - ?h) @ read_bytes (buf r) 0 (?h + n - ?s)"
        using lt wrap b \<open>n \<le> ?s - ?h + ?t\<close> by (simp add: stream_content_def Let_def take_read_bytes add.commute)
      ultimately show ?thesis using tk by simp
    qed
  qed
qed

lemma stream_read_take:
  assumes ok: "stream_ok r" and n: "n = min (unat cnt) (length (stream_content r))"
    and nowrap: "unat (head r) + n \<le> unat (rsize r)"
  shows "snd (stream_read cnt r) = take n (stream_content r)"
    "stream_ok (fst (stream_read cnt r))"
    "stream_content (fst (stream_read cnt r)) = drop n (stream_content r)"
proof -
  let ?s = "unat (rsize r)" and ?h = "unat (head r)" and ?t = "unat (tail r)"
  note b = stream_bounds [OF ok]
  define w where "w = (if cnt > stream_read_space r then stream_read_space r else cnt)"
  have w: "unat w = n" and hw: "unat (head r + w) = ?h + n"
    using stream_request [OF ok n] by (simp_all add: w_def)
  have tk: "take n (stream_content r) = read_bytes (buf r) ?h n"
    using nowrap n b by (auto simp: stream_content_def Let_def take_read_bytes min_def)
  define r' where "r' = r\<lparr>head := (head r + w) AND size_mask r\<rparr>"
  have h': "unat (head r') = (?h + n) mod ?s" "tail r' = tail r" "buf r' = buf r" "rsize r' = rsize r"
    "size_mask r' = size_mask r"
    using hw by (simp_all add: r'_def stream_mask [OF ok] tail_def trailer_at_def)
  have eq: "stream_read cnt r = (r', read_bytes (buf r) ?h n)"
  proof (cases "stream_read_space r = 0")
    case True
    then have "w = 0" by (simp add: w_def word_gt_0)
    moreover have "head r AND size_mask r = head r"
      using b by (simp add: word_unat_eq_iff stream_mask [OF ok])
    ultimately show ?thesis using True w by (simp add: stream_read_def r'_def read_bytes_def)
  next
    case False
    have "stream_split r (head r) w = (w, 0)"
      using hw nowrap by (simp add: stream_split_def Let_def word_less_nat_alt)
    then show ?thesis using False w by (simp add: stream_read_def Let_def w_def [symmetric] r'_def)
  qed
  show "snd (stream_read cnt r) = take n (stream_content r)" using eq tk by simp
  show "stream_ok (fst (stream_read cnt r))" using ok h' b eq by (simp add: stream_ok_def)
  show "stream_content (fst (stream_read cnt r)) = drop n (stream_content r)"
  proof (cases "?h + n = ?s")
    case True
    then show ?thesis using eq h' b n
      by (auto simp: stream_content_def Let_def drop_read_bytes min_def)
  next
    case False
    then have "(?h + n) mod ?s = ?h + n" using nowrap by simp
    then show ?thesis using eq h' b n False nowrap
      by (auto simp: stream_content_def Let_def drop_read_bytes min_def split: if_splits)
  qed
qed

section \<open>Properties\<close>

text \<open>Up to half of the 32-bit range, the bit-smearing computation returns the least power of
  two that is not below its argument.\<close>

theorem next_power_of_two_correct:
  assumes "0 < unat v" "unat v \<le> 2 ^ 31"
  shows "unat (next_power_of_two v) = 2 ^ (LEAST k. unat v \<le> 2 ^ k)"
proof -
  obtain k where k: "unat (next_power_of_two v) = 2 ^ k" "unat v \<le> 2 ^ k" "k = 0 \<or> 2 ^ (k - 1) < unat v"
    using next_power_of_two_eq [OF assms] by metis
  have "(LEAST k. unat v \<le> 2 ^ k) = k"
  proof (rule Least_equality [where P = "\<lambda>k. unat v \<le> 2 ^ k", OF k(2)])
    fix j assume j: "unat v \<le> 2 ^ j"
    show "k \<le> j"
    proof (rule ccontr)
      assume "\<not> k \<le> j"
      then have "(2 :: nat) ^ j \<le> 2 ^ (k - 1)" by (intro power_increasing) auto
      moreover have "2 ^ (k - 1) < unat v" using k(3) \<open>\<not> k \<le> j\<close> by auto
      ultimately show False using j by linarith
    qed
  qed
  then show ?thesis using k(1) by simp
qed

theorem next_power_of_two_correct_witness:
  "unat (next_power_of_two 100) = 2 ^ (LEAST k. unat (100 :: u32) \<le> 2 ^ k)"
  by (rule next_power_of_two_correct) simp_all

text \<open>The used and the free space a stream ring reports are the number of bytes in it and the
  storage size less one less that number; neither computation wraps.\<close>

theorem stream_space_correct:
  assumes "stream_ok r"
  shows "unat (stream_read_space r) = length (stream_content r) \<and>
    unat (stream_write_space r) + length (stream_content r) + 1 = unat (rsize r)"
proof -
  note b = stream_bounds [OF assms]
  have "length (stream_content r) < unat (rsize r)" using b by (auto simp: stream_content_def Let_def)
  then show ?thesis using stream_read_space_eq [OF assms] stream_write_space_eq [OF assms] by simp
qed

definition demo_stream :: ringheader where
  "demo_stream = blank_ring\<lparr>rsize := 64, size_mask := 63\<rparr>"

lemma demo_stream_ok: "stream_ok demo_stream"
proof -
  have "tail demo_stream = 0" by (simp add: demo_stream_def blank_ring_def tail_def get_le_zero)
  moreover have "unat (64 :: u32) = 2 ^ 6" by simp
  ultimately show ?thesis unfolding stream_ok_def
    by (intro conjI exI [of _ 6]) (simp_all add: demo_stream_def blank_ring_def)
qed

theorem stream_space_correct_witness:
  "unat (stream_write_space demo_stream) + length (stream_content demo_stream) + 1 = 64"
  using stream_space_correct [OF demo_stream_ok] by (simp add: demo_stream_def blank_ring_def)

text \<open>C18: Bytes written to a stream ring come back. A write that does not pass the end of the
  storage accepts as many bytes as are free and appends them; peeking afterwards returns the old
  bytes followed by the accepted ones.\<close>

theorem stream_write_peek_roundtrip:
  assumes "stream_ok r" "length src < 2 ^ 32"
    "n = min (length src) (unat (rsize r) - 1 - length (stream_content r))"
    "unat (tail r) + n \<le> unat (rsize r)" "length (stream_content r) + n \<le> unat cnt"
  shows "stream_ok (fst (stream_write src r)) \<and> unat (snd (stream_write src r)) = n \<and>
    stream_peek cnt (fst (stream_write src r)) = stream_content r @ take n src"
  using stream_write_append [OF assms(1-4)] stream_peek_take [of "fst (stream_write src r)" cnt] assms(5)
  by simp

theorem stream_write_peek_roundtrip_witness:
  "stream_peek 10 (fst (stream_write [1, 2, 3] demo_stream)) = stream_content demo_stream @ [1, 2, 3]"
proof -
  have f: "head demo_stream = 0" "unat (rsize demo_stream) = 64" "tail demo_stream = 0"
    by (simp_all add: demo_stream_def blank_ring_def tail_def get_le_zero)
  then have "stream_content demo_stream = []" by (simp add: stream_content_def)
  then show ?thesis using stream_write_peek_roundtrip [OF demo_stream_ok, of "[1, 2, 3]" 3 10] f by simp
qed

text \<open>Reading up to the end of the storage returns the oldest bytes and removes them.\<close>

theorem stream_read_correct:
  assumes "stream_ok r" "n = min (unat cnt) (length (stream_content r))"
    "unat (head r) + n \<le> unat (rsize r)"
  shows "snd (stream_read cnt r) = take n (stream_content r) \<and> stream_ok (fst (stream_read cnt r)) \<and>
    stream_content (fst (stream_read cnt r)) = drop n (stream_content r)"
  using stream_read_take [OF assms] by simp

theorem stream_read_correct_witness:
  "snd (stream_read 2 (fst (stream_write [1, 2, 3] demo_stream))) = [1, 2]"
proof -
  have f: "head demo_stream = 0" "unat (rsize demo_stream) = 64" "tail demo_stream = 0"
    by (simp_all add: demo_stream_def blank_ring_def tail_def get_le_zero)
  then have c: "stream_content demo_stream = []" by (simp add: stream_content_def)
  let ?r = "fst (stream_write [1, 2, 3] demo_stream)"
  have w: "stream_ok ?r" "stream_content ?r = [1, 2, 3]" "head ?r = 0" "unat (rsize ?r) = 64"
    using stream_write_append [OF demo_stream_ok, of "[1, 2, 3]" 3] c f by auto
  show ?thesis using stream_read_correct [OF w(1), of 2 2] w by simp
qed

text \<open>
  A write that passes the end copies its second part behind the storage, over
  the trailer: the write index then comes from the data.
\<close>

definition wrap_stream :: ringheader where
  "wrap_stream = set_tail 60 (demo_stream\<lparr>head := 60\<rparr>)"

lemma stream_write_wrap_overruns:
  "stream_ok wrap_stream \<and> stream_content wrap_stream = [] \<and>
   tail (fst (stream_write [1, 2, 3, 4, 5, 6, 7, 8] wrap_stream)) \<noteq> 4"
proof -
  have f: "rsize wrap_stream = 64" "size_mask wrap_stream = 63" "head wrap_stream = 60"
    "tail wrap_stream = 60"
    by (simp_all add: wrap_stream_def demo_stream_def blank_ring_def set_tail_def)
      (simp add: tail_def trailer_at_def get_put_same)
  have ok: "stream_ok wrap_stream" unfolding stream_ok_def using f by (intro conjI exI [of _ 6]) simp_all
  let ?b1 = "write_bytes (buf wrap_stream) 60 [1, 2, 3, 4]"
  let ?b2 = "write_bytes ?b1 64 [5, 6, 7, 8]"
  have tr: "trailer_at wrap_stream = 64" by (rule stream_bounds(6) [OF ok, unfolded f, simplified])
  have t1: "tail (wrap_stream\<lparr>buf := ?b1\<rparr>) = 60"
    using f tr tail_cong [of "wrap_stream\<lparr>buf := ?b1\<rparr>" wrap_stream] by (simp add: write_bytes_def)
  have "tail (wrap_stream\<lparr>buf := ?b2\<rparr>) = 134678021"
    using tr by (simp add: tail_def trailer_at_def get_le_4 write_bytes_def)
  then have "tail (fst (stream_write [1, 2, 3, 4, 5, 6, 7, 8] wrap_stream)) = 13"
    using f t1 by (simp add: stream_write_def stream_write_space_def stream_split_def)
  moreover have "stream_content wrap_stream = []" using f by (simp add: stream_content_def)
  ultimately show ?thesis using ok by simp
qed

end
