(* ===== verification/Triple_Buffer.thy ===== *)
theory Triple_Buffer
  imports Hal_Prelude
begin

text \<open>
  The lock-free triple buffer (\<open>runtime/triple-buffer.h\<close>). One byte of flags
  holds the indices of the buffer the writer fills, of the one last published
  and of the one the reader looks at, and a bit that tells of new data. Writer
  and reader change it by compare-and-swap, so their loops are broken into the
  atomic accesses of the code, which interleave in any order. The
  compare-and-swap of \<open>rtapi_atomics.h\<close> is the weak one, which may fail although
  the byte has the expected value: the argument \<open>weak\<close> of a step says that it
  does. A machine whose compare-and-swap is strong has the runs without it.
\<close>

unbundle bit_operations_syntax

section \<open>The flags\<close>

definition rtapi_tb_init :: "8 word" where "rtapi_tb_init = 0x6"

definition rtapi_tb_snap_idx :: "8 word \<Rightarrow> 8 word" where "rtapi_tb_snap_idx flags = flags AND 0x3"

definition rtapi_tb_write_idx :: "8 word \<Rightarrow> 8 word" where
  "rtapi_tb_write_idx flags = drop_bit 4 (flags AND 0x30)"

definition tb_has_new :: "8 word \<Rightarrow> bool" where "tb_has_new flagsNow \<longleftrightarrow> flagsNow AND 0x40 \<noteq> 0"

definition tb_snapshot_flags :: "8 word \<Rightarrow> 8 word" where
  "tb_snapshot_flags flagsNow =
     ((flagsNow AND 0x30) OR push_bit 2 (flagsNow AND 0x3)) OR drop_bit 2 (flagsNow AND 0xC)"

definition tb_flip_flags :: "8 word \<Rightarrow> 8 word" where
  "tb_flip_flags flagsNow =
     ((0x40 OR push_bit 2 (flagsNow AND 0xC)) OR drop_bit 2 (flagsNow AND 0x30)) OR (flagsNow AND 0x3)"

section \<open>Writer and reader\<close>

text \<open>Where the writer stands in \<open>rtapi_tb_flip\<close> and the reader in
  \<open>rtapi_tb_snapshot\<close>; \<open>W_cas\<close> and \<open>R_cas\<close> hold \<open>flagsNow\<close>.\<close>

datatype writer = W_idle | W_load | W_cas "8 word"
datatype reader = R_idle | R_cas "8 word"

text \<open>\<open>published\<close> is the content of the last buffer flipped, \<open>failed\<close> the
  number of failed attempts of the current flip, \<open>weakly\<close> the number of those
  that failed although the byte had the expected value, \<open>snapped\<close> the last
  result of \<open>rtapi_tb_snapshot\<close>: they observe the run and are not read by the
  code.\<close>

record tb =
  tb_flags :: "8 word"
  tb_buf :: "8 word \<Rightarrow> nat"
  tb_writer :: writer
  tb_reader :: reader
  published :: nat
  failed :: nat
  weakly :: nat
  snapped :: bool

definition tb_fill :: "nat \<Rightarrow> tb \<Rightarrow> tb" where
  "tb_fill v s = (if tb_writer s = W_idle
     then s\<lparr>tb_buf := (tb_buf s)(rtapi_tb_write_idx (tb_flags s) := v)\<rparr> else s)"

definition rtapi_tb_flip :: "bool \<Rightarrow> tb \<Rightarrow> tb" where
  "rtapi_tb_flip weak s = (case tb_writer s of
     W_idle \<Rightarrow> s\<lparr>tb_writer := W_load, failed := 0, weakly := 0\<rparr>
   | W_load \<Rightarrow> s\<lparr>tb_writer := W_cas (tb_flags s)\<rparr>
   | W_cas flagsNow \<Rightarrow>
       if tb_flags s = flagsNow \<and> \<not> weak
       then s\<lparr>tb_flags := tb_flip_flags flagsNow, tb_writer := W_idle,
              published := tb_buf s (rtapi_tb_write_idx flagsNow)\<rparr>
       else s\<lparr>tb_writer := W_load, failed := failed s + 1,
              weakly := weakly s + (if tb_flags s = flagsNow then 1 else 0)\<rparr>)"

definition rtapi_tb_snapshot :: "bool \<Rightarrow> tb \<Rightarrow> tb" where
  "rtapi_tb_snapshot weak s = (case tb_reader s of
     R_idle \<Rightarrow> s\<lparr>tb_reader := R_cas (tb_flags s)\<rparr>
   | R_cas flagsNow \<Rightarrow>
       if \<not> tb_has_new flagsNow then s\<lparr>tb_reader := R_idle, snapped := False\<rparr>
       else if tb_flags s = flagsNow \<and> \<not> weak
       then s\<lparr>tb_flags := tb_snapshot_flags flagsNow, tb_reader := R_idle, snapped := True\<rparr>
       else s)"

inductive tb_step :: "tb \<Rightarrow> tb \<Rightarrow> bool" where
  fill: "tb_step s (tb_fill v s)"
| flip: "tb_step s (rtapi_tb_flip weak s)"
| snapshot: "tb_step s (rtapi_tb_snapshot weak s)"

definition tb_start :: tb where
  "tb_start = \<lparr>tb_flags = rtapi_tb_init, tb_buf = (\<lambda>_. 0), tb_writer = W_idle, tb_reader = R_idle,
     published = 0, failed = 0, weakly = 0, snapped = False\<rparr>"

section \<open>The invariant\<close>

definition tb_clean_idx :: "8 word \<Rightarrow> 8 word" where "tb_clean_idx flags = drop_bit 2 (flags AND 0xC)"

text \<open>The six orders of the indices, with and without new data.\<close>

definition tb_values :: "8 word list" where
  "tb_values = [0x06, 0x09, 0x12, 0x18, 0x21, 0x24, 0x46, 0x49, 0x52, 0x58, 0x61, 0x64]"

lemma tb_values_facts:
  assumes "f \<in> set tb_values"
  shows "tb_flip_flags f \<in> set tb_values" "tb_snapshot_flags f \<in> set tb_values"
    "tb_has_new (tb_flip_flags f)" "\<not> tb_has_new (tb_snapshot_flags f)"
    "rtapi_tb_write_idx (tb_flip_flags f) = tb_clean_idx f" "tb_clean_idx (tb_flip_flags f) = rtapi_tb_write_idx f"
    "rtapi_tb_snap_idx (tb_flip_flags f) = rtapi_tb_snap_idx f"
    "rtapi_tb_write_idx (tb_snapshot_flags f) = rtapi_tb_write_idx f"
    "rtapi_tb_snap_idx (tb_snapshot_flags f) = tb_clean_idx f"
    "rtapi_tb_write_idx f \<noteq> tb_clean_idx f" "rtapi_tb_write_idx f \<noteq> rtapi_tb_snap_idx f"
    "tb_clean_idx f \<noteq> rtapi_tb_snap_idx f"
    "rtapi_tb_write_idx f < 3" "tb_clean_idx f < 3" "rtapi_tb_snap_idx f < 3"
proof -
  note defs = tb_flip_flags_def tb_snapshot_flags_def tb_has_new_def tb_clean_idx_def rtapi_tb_write_idx_def
    rtapi_tb_snap_idx_def
  have all: "\<forall>f \<in> set tb_values. tb_flip_flags f \<in> set tb_values \<and> tb_snapshot_flags f \<in> set tb_values \<and>
    tb_has_new (tb_flip_flags f) \<and> \<not> tb_has_new (tb_snapshot_flags f) \<and>
    rtapi_tb_write_idx (tb_flip_flags f) = tb_clean_idx f \<and> tb_clean_idx (tb_flip_flags f) = rtapi_tb_write_idx f \<and>
    rtapi_tb_snap_idx (tb_flip_flags f) = rtapi_tb_snap_idx f \<and>
    rtapi_tb_write_idx (tb_snapshot_flags f) = rtapi_tb_write_idx f \<and>
    rtapi_tb_snap_idx (tb_snapshot_flags f) = tb_clean_idx f \<and>
    rtapi_tb_write_idx f \<noteq> tb_clean_idx f \<and> rtapi_tb_write_idx f \<noteq> rtapi_tb_snap_idx f \<and>
    tb_clean_idx f \<noteq> rtapi_tb_snap_idx f \<and>
    rtapi_tb_write_idx f < 3 \<and> tb_clean_idx f < 3 \<and> rtapi_tb_snap_idx f < 3"
    by code_simp
  from bspec [OF this assms]
  show "tb_flip_flags f \<in> set tb_values" "tb_snapshot_flags f \<in> set tb_values"
    "tb_has_new (tb_flip_flags f)" "\<not> tb_has_new (tb_snapshot_flags f)"
    "rtapi_tb_write_idx (tb_flip_flags f) = tb_clean_idx f" "tb_clean_idx (tb_flip_flags f) = rtapi_tb_write_idx f"
    "rtapi_tb_snap_idx (tb_flip_flags f) = rtapi_tb_snap_idx f"
    "rtapi_tb_write_idx (tb_snapshot_flags f) = rtapi_tb_write_idx f"
    "rtapi_tb_snap_idx (tb_snapshot_flags f) = tb_clean_idx f"
    "rtapi_tb_write_idx f \<noteq> tb_clean_idx f" "rtapi_tb_write_idx f \<noteq> rtapi_tb_snap_idx f"
    "tb_clean_idx f \<noteq> rtapi_tb_snap_idx f"
    "rtapi_tb_write_idx f < 3" "tb_clean_idx f < 3" "rtapi_tb_snap_idx f < 3"
    by blast+
qed

definition tb_inv :: "tb \<Rightarrow> bool" where
  "tb_inv s \<longleftrightarrow> tb_flags s \<in> set tb_values \<and>
     tb_buf s (if tb_has_new (tb_flags s) then tb_clean_idx (tb_flags s) else rtapi_tb_snap_idx (tb_flags s)) = published s \<and>
     (\<forall>f. tb_writer s = W_cas f \<longrightarrow>
        tb_flags s = f \<or> (f \<in> set tb_values \<and> tb_has_new f \<and> failed s = weakly s \<and> tb_flags s = tb_snapshot_flags f)) \<and>
     weakly s \<le> failed s \<and> failed s \<le> weakly s + 1 \<and>
     (failed s = weakly s + 1 \<and> tb_writer s \<noteq> W_idle \<longrightarrow> \<not> tb_has_new (tb_flags s))"

lemma tb_inv_start: "tb_inv tb_start"
  by code_simp

lemma tb_inv_step: "tb_step s s' \<Longrightarrow> tb_inv s \<Longrightarrow> tb_inv s'"
proof (induction rule: tb_step.induct)
  case (fill s v)
  then show ?case using tb_values_facts(10,11) [of "tb_flags s"] by (auto simp: tb_inv_def tb_fill_def)
next
  case (flip s weak)
  then have fl: "tb_flags s \<in> set tb_values" by (simp add: tb_inv_def)
  show ?case
    using flip tb_values_facts [OF fl] tb_values_facts(4) by (auto simp: tb_inv_def rtapi_tb_flip_def split: writer.splits)
next
  case (snapshot s weak)
  then have fl: "tb_flags s \<in> set tb_values" by (simp add: tb_inv_def)
  show ?case
    using snapshot tb_values_facts [OF fl] tb_values_facts(4) by (auto simp: tb_inv_def rtapi_tb_snapshot_def split: reader.splits)
qed

interpretation triple: transition_invariant tb_step tb_inv
  by unfold_locales (rule tb_inv_step)

lemma tb_reach_inv: "tb_step\<^sup>*\<^sup>* tb_start s \<Longrightarrow> tb_inv s"
  using triple.reach_keeps tb_inv_start by blast


section \<open>Properties\<close>

text \<open>C12: Under every interleaving of writer and reader the three indices are
  distinct and in range, and nothing the writer does, filling its buffer or any
  step of a flip, changes which buffer the reader looks at or what that buffer
  holds.\<close>

theorem tb_reader_undisturbed:
  assumes "tb_step\<^sup>*\<^sup>* tb_start s" "s' = tb_fill v s \<or> s' = rtapi_tb_flip weak s"
  shows "rtapi_tb_write_idx (tb_flags s) < 3 \<and> rtapi_tb_snap_idx (tb_flags s) < 3 \<and>
    rtapi_tb_write_idx (tb_flags s) \<noteq> rtapi_tb_snap_idx (tb_flags s) \<and>
    rtapi_tb_snap_idx (tb_flags s') = rtapi_tb_snap_idx (tb_flags s) \<and>
    tb_buf s' (rtapi_tb_snap_idx (tb_flags s')) = tb_buf s (rtapi_tb_snap_idx (tb_flags s))"
proof -
  have "tb_flags s \<in> set tb_values" using tb_reach_inv [OF assms(1)] by (simp add: tb_inv_def)
  from tb_values_facts [OF this] assms(2) show ?thesis
    by (auto simp: tb_fill_def rtapi_tb_flip_def split: writer.splits)
qed

text \<open>Under every interleaving a snapshot that succeeds makes the reader look
  at the buffer published by the last flip, and without new data the reader
  already looks at it.\<close>

theorem tb_snapshot_latest:
  assumes "tb_step\<^sup>*\<^sup>* tb_start s" "\<not> tb_has_new (tb_flags s) \<or> tb_reader s = R_cas (tb_flags s)"
  shows "tb_buf (rtapi_tb_snapshot False s) (rtapi_tb_snap_idx (tb_flags (rtapi_tb_snapshot False s))) = published s"
proof -
  have inv: "tb_inv s" "tb_flags s \<in> set tb_values" using tb_reach_inv [OF assms(1)] by (simp_all add: tb_inv_def)
  from tb_values_facts [OF inv(2)] assms(2) inv(1) show ?thesis
    by (auto simp: tb_inv_def rtapi_tb_snapshot_def split: reader.splits)
qed


text \<open>The reader of the next lemma has loaded the flags before a flip and never
  loads them again: its loop changes nothing until the writer flips again.\<close>

definition stale_reader :: tb where
  "stale_reader = (rtapi_tb_flip False ^^ 3) (rtapi_tb_snapshot False ((rtapi_tb_flip False ^^ 3) tb_start))"

lemma tb_snapshot_spins:
  "tb_step\<^sup>*\<^sup>* tb_start stale_reader \<and> tb_has_new (tb_flags stale_reader) \<and>
   tb_reader stale_reader \<noteq> R_idle \<and> (rtapi_tb_snapshot weak ^^ n) stale_reader = stale_reader"
proof -
  have r: "tb_step\<^sup>*\<^sup>* s (rtapi_tb_flip False (rtapi_tb_flip False (rtapi_tb_flip False s)))" for s
    by (rule rtranclp.rtrancl_into_rtrancl, rule rtranclp.rtrancl_into_rtrancl,
        rule r_into_rtranclp) (rule tb_step.flip)+
  let ?s1 = "(rtapi_tb_flip False ^^ 3) tb_start"
  have three: "(rtapi_tb_flip False ^^ 3) s = rtapi_tb_flip False (rtapi_tb_flip False (rtapi_tb_flip False s))" for s
    by (simp add: eval_nat_numeral)
  have "tb_step\<^sup>*\<^sup>* tb_start (rtapi_tb_snapshot False ?s1)"
    using r [of tb_start] tb_step.snapshot [of ?s1 False] unfolding three by (rule rtranclp.rtrancl_into_rtrancl)
  then have reach: "tb_step\<^sup>*\<^sup>* tb_start stale_reader"
    using r [of "rtapi_tb_snapshot False ?s1"] unfolding stale_reader_def three [of "rtapi_tb_snapshot False ?s1"]
    by (rule rtranclp_trans)
  have f: "tb_flags stale_reader = 0x46" "tb_reader stale_reader = R_cas 0x52" "tb_has_new 0x46" "tb_has_new 0x52"
    by code_simp+
  then have "rtapi_tb_snapshot weak stale_reader = stale_reader" by (simp add: rtapi_tb_snapshot_def)
  then have "(rtapi_tb_snapshot weak ^^ n) stale_reader = stale_reader" by (induction n) auto
  then show ?thesis using reach f by simp
qed

section \<open>Applications\<close>

theorem tb_reader_undisturbed_witness:
  "rtapi_tb_snap_idx (tb_flags (tb_fill 7 tb_start)) = 2"
proof -
  have "rtapi_tb_snap_idx (tb_flags tb_start) = 2" by code_simp
  then show ?thesis
    using tb_reader_undisturbed [OF rtranclp.rtrancl_refl, of "tb_fill 7 tb_start" 7] by simp
qed

theorem tb_snapshot_latest_witness:
  "tb_buf (rtapi_tb_snapshot False tb_start) (rtapi_tb_snap_idx (tb_flags (rtapi_tb_snapshot False tb_start))) = 0"
proof -
  have "\<not> tb_has_new (tb_flags tb_start)" "published tb_start = 0" by code_simp+
  then show ?thesis using tb_snapshot_latest [OF rtranclp.rtrancl_refl] by simp
qed

text \<open>
  A run in which the reader's snapshot comes between the load and the
  compare-and-swap of the second flip, which fails and tries again; the
  attempt before failed spuriously.
\<close>

definition contended_flip :: tb where
  "contended_flip = foldl (\<lambda>s f. f s) tb_start
     [rtapi_tb_flip False, rtapi_tb_flip False, rtapi_tb_flip False,
      rtapi_tb_flip False, rtapi_tb_flip False, rtapi_tb_flip True, rtapi_tb_flip False,
      rtapi_tb_snapshot False, rtapi_tb_snapshot False, rtapi_tb_flip False, rtapi_tb_flip False]"

lemma tb_steps: "list_all (\<lambda>f. \<forall>s. tb_step s (f s)) fs \<Longrightarrow> tb_step\<^sup>*\<^sup>* s (foldl (\<lambda>s f. f s) s fs)"
  by (induction fs arbitrary: s) (auto intro: converse_rtranclp_into_rtranclp)

lemma contended_reach: "tb_step\<^sup>*\<^sup>* tb_start contended_flip"
  unfolding contended_flip_def by (rule tb_steps) (simp add: tb_step.flip tb_step.snapshot)

lemma contended_flip_state:
  "failed contended_flip = 2" "weakly contended_flip = 1" "tb_writer contended_flip = W_cas 0x18"
  by code_simp+


end
