(* ===== verification/Encoder.thy ===== *)
theory Encoder
  imports Hal_Prelude
begin

text \<open>
  The software encoder counter (\<open>modules/managed/components/encoder\<close>). The fast
  function \<open>update\<close> decodes the quadrature inputs with its lookup tables and
  passes counts, index and latch events through one of two buffers to the slow
  function \<open>capture\<close>, which swaps the buffers. \<open>update\<close> may interrupt \<open>capture\<close>
  between any two statements, so \<open>capture\<close> is modelled statement by statement
  (\<open>capture_step\<close>), and as a whole for runs without interruption. Pins are fields of the counter;
  counts are 32-bit words that wrap. Position and velocity, which are floating
  point, are left out; the one comparison of floats that decides about
  integers, whether the time since the last count is too long, is the argument
  \<open>soon\<close>.
\<close>

unbundle bit_operations_syntax

section \<open>The counter\<close>

record atomic =
  count_detected :: bool
  index_detected :: bool
  latch_detected :: bool
  buf_raw_count :: "32 word"
  buf_timestamp :: "32 word"
  buf_index_count :: "32 word"
  buf_latch_count :: "32 word"

record counter =
  enc_state :: "8 word"
  oldZ :: "8 word"
  Zmask :: "8 word"
  x4_mode :: bool
  counter_mode :: bool
  enc_buf :: "bool \<Rightarrow> atomic"
  enc_bp :: bool
  raw_counts :: "32 word"
  phaseA :: bool
  phaseB :: bool
  phaseZ :: bool
  index_ena :: bool
  enc_reset :: bool
  latch_in :: bool
  latch_rising :: bool
  latch_falling :: bool
  raw_count :: "32 word"
  enc_timestamp :: "32 word"
  index_count :: "32 word"
  latch_count :: "32 word"
  enc_count :: "32 word"
  count_latch :: "32 word"
  old_latch :: bool
  counts_since_timeout :: nat

definition SM_PHASE_A_MASK :: "8 word" where "SM_PHASE_A_MASK = 0x01"
definition SM_PHASE_B_MASK :: "8 word" where "SM_PHASE_B_MASK = 0x02"
definition SM_LOOKUP_MASK :: "8 word" where "SM_LOOKUP_MASK = 0x0F"
definition SM_CNT_UP_MASK :: "8 word" where "SM_CNT_UP_MASK = 0x40"
definition SM_CNT_DN_MASK :: "8 word" where "SM_CNT_DN_MASK = 0x80"

definition lut_x4 :: "8 word list" where
  "lut_x4 = [0x00, 0x44, 0x88, 0x0C, 0x80, 0x04, 0x08, 0x4C,
             0x40, 0x04, 0x08, 0x8C, 0x00, 0x84, 0x48, 0x0C]"

definition lut_x1 :: "8 word list" where
  "lut_x1 = [0x00, 0x44, 0x08, 0x0C, 0x80, 0x04, 0x08, 0x0C,
             0x00, 0x04, 0x08, 0x0C, 0x00, 0x04, 0x08, 0x0C]"

definition lut_ctr :: "8 word list" where
  "lut_ctr = [0x00, 0x48, 0x00, 0x00, 0x00, 0x00, 0x00, 0x00,
              0x00, 0x08, 0x00, 0x00, 0x00, 0x00, 0x00, 0x00]"

section \<open>The fast function\<close>

definition upd_buf :: "(atomic \<Rightarrow> atomic) \<Rightarrow> counter \<Rightarrow> counter" where
  "upd_buf f c = c\<lparr>enc_buf := (enc_buf c)(enc_bp c := f (enc_buf c (enc_bp c)))\<rparr>"

definition next_state :: "counter \<Rightarrow> 8 word" where
  "next_state c =
     (let st = enc_state c;
          st1 = (if phaseA c then st OR SM_PHASE_A_MASK else st);
          st2 = (if phaseB c then st1 OR SM_PHASE_B_MASK else st1)
      in if counter_mode c then lut_ctr ! unat (st2 AND (SM_LOOKUP_MASK AND NOT SM_PHASE_B_MASK))
         else if x4_mode c then lut_x4 ! unat (st2 AND SM_LOOKUP_MASK)
         else lut_x1 ! unat (st2 AND SM_LOOKUP_MASK))"

definition record_raw :: "32 word \<Rightarrow> 32 word \<Rightarrow> counter \<Rightarrow> counter" where
  "record_raw timebase raw c =
     upd_buf (\<lambda>b. b\<lparr>buf_raw_count := raw, buf_timestamp := timebase, count_detected := True\<rparr>) (c\<lparr>raw_counts := raw\<rparr>)"

definition update_count :: "32 word \<Rightarrow> counter \<Rightarrow> counter" where
  "update_count timebase c =
     (let st = next_state c;
          c1 = (if st AND SM_CNT_UP_MASK \<noteq> 0 then record_raw timebase (raw_counts c + 1) c
                else if st AND SM_CNT_DN_MASK \<noteq> 0 then record_raw timebase (raw_counts c - 1) c
                else c)
      in c1\<lparr>enc_state := st\<rparr>)"

definition update_index :: "counter \<Rightarrow> counter" where
  "update_index c =
     (let st0 = push_bit 1 (oldZ c); st = (if phaseZ c then st0 OR 1 else st0);
          c1 = c\<lparr>oldZ := st AND 3\<rparr>
      in if st AND Zmask c = 1
         then (upd_buf (\<lambda>b. b\<lparr>buf_index_count := raw_counts c, index_detected := True\<rparr>) c1)\<lparr>Zmask := 0\<rparr>
         else c1)"

definition update_latch :: "counter \<Rightarrow> counter" where
  "update_latch c =
     (let rising = (latch_in c \<and> \<not> old_latch c); falling = (\<not> latch_in c \<and> old_latch c);
          c1 = (if rising \<and> latch_rising c \<or> falling \<and> latch_falling c
                then upd_buf (\<lambda>b. b\<lparr>latch_detected := True, buf_latch_count := raw_counts c\<rparr>) c
                else c)
      in c1\<lparr>old_latch := latch_in c\<rparr>)"

definition update_channel :: "32 word \<Rightarrow> counter \<Rightarrow> counter" where
  "update_channel timebase c = update_latch (update_index (update_count timebase c))"

definition enc_update :: "32 word \<Rightarrow> counter list \<times> 32 word \<Rightarrow> counter list \<times> 32 word" where
  "enc_update period s = (case s of (cs, timebase) \<Rightarrow> (map (update_channel timebase) cs, timebase + period))"

section \<open>The slow function\<close>

text \<open>The whole function, when it is not interrupted.\<close>

definition capture_events :: "atomic \<Rightarrow> bool \<Rightarrow> counter \<Rightarrow> counter" where
  "capture_events b old c =
     (let c1 = c\<lparr>enc_bp := \<not> old\<rparr>;
          c2 = (if index_detected b
                then c1\<lparr>enc_buf := (enc_buf c1)(old := (enc_buf c1 old)\<lparr>index_detected := False\<rparr>),
                        index_count := buf_index_count b, index_ena := False\<rparr>
                else c1);
          c3 = (if latch_detected b
                then c2\<lparr>enc_buf := (enc_buf c2)(old := (enc_buf c2 old)\<lparr>latch_detected := False\<rparr>),
                        latch_count := buf_latch_count b\<rparr>
                else c2)
      in c3\<lparr>Zmask := (if index_ena c3 then 3 else 0)\<rparr>)"

definition capture_counts :: "(counter \<Rightarrow> 32 word \<Rightarrow> bool) \<Rightarrow> 32 word \<Rightarrow> atomic \<Rightarrow> bool \<Rightarrow> counter \<Rightarrow> counter" where
  "capture_counts soon timebase b old c =
     (let c1 = (if enc_reset c then c\<lparr>raw_count := raw_counts c, index_count := raw_counts c\<rparr> else c);
          c2 = (if count_detected b
                then c1\<lparr>enc_buf := (enc_buf c1)(old := (enc_buf c1 old)\<lparr>count_detected := False\<rparr>),
                        raw_count := buf_raw_count b, enc_timestamp := buf_timestamp b,
                        counts_since_timeout := (if counts_since_timeout c1 < 2 then counts_since_timeout c1 + 1
                                                 else counts_since_timeout c1)\<rparr>
                else if counts_since_timeout c1 \<noteq> 0 \<and> \<not> soon c1 (timebase - enc_timestamp c1)
                then c1\<lparr>counts_since_timeout := 0\<rparr>
                else c1)
      in c2\<lparr>enc_count := raw_count c2 - index_count c2, count_latch := latch_count c2 - index_count c2\<rparr>)"

definition capture_channel :: "(counter \<Rightarrow> 32 word \<Rightarrow> bool) \<Rightarrow> 32 word \<Rightarrow> counter \<Rightarrow> counter" where
  "capture_channel soon timebase c =
     (let old = enc_bp c; b = enc_buf c old
      in capture_counts soon timebase b old (capture_events b old c))"

definition enc_capture ::
  "(counter \<Rightarrow> 32 word \<Rightarrow> bool) \<Rightarrow> counter list \<times> 32 word \<Rightarrow> counter list \<times> 32 word" where
  "enc_capture soon s = (case s of (cs, timebase) \<Rightarrow> (map (capture_channel soon timebase) cs, timebase))"

text \<open>\<open>capture\<close> runs in a slower thread and may be interrupted by \<open>update\<close>
  between any two of its statements. \<open>capture_step\<close> executes one statement for
  one channel; the program counter carries the local variable \<open>buf\<close> and, behind
  the test of \<open>index-enable\<close>, the value that was read.\<close>

datatype capture_pc =
  Cap_Load
| Cap_Swap bool
| Cap_Index bool
| Cap_Index_Clear bool
| Cap_Index_Copy bool
| Cap_Index_Ena bool
| Cap_Latch bool
| Cap_Latch_Clear bool
| Cap_Latch_Copy bool
| Cap_Zmask bool
| Cap_Zmask_Set bool bool
| Cap_Reset bool
| Cap_Reset_Raw bool
| Cap_Reset_Index bool
| Cap_Count bool
| Cap_Count_Clear bool
| Cap_Count_Raw bool
| Cap_Count_Stamp bool
| Cap_Count_Since
| Cap_No_Count
| Cap_Publish
| Cap_Publish_Latch

definition upd_old :: "bool \<Rightarrow> (atomic \<Rightarrow> atomic) \<Rightarrow> counter \<Rightarrow> counter" where
  "upd_old old f c = c\<lparr>enc_buf := (enc_buf c)(old := f (enc_buf c old))\<rparr>"

fun capture_step :: "(counter \<Rightarrow> 32 word \<Rightarrow> bool) \<Rightarrow> 32 word \<Rightarrow> capture_pc \<times> counter \<Rightarrow> capture_pc \<times> counter" where
  "capture_step soon timebase (Cap_Load, c) = (Cap_Swap (enc_bp c), c)"
| "capture_step soon timebase (Cap_Swap old, c) = (Cap_Index old, c\<lparr>enc_bp := \<not> old\<rparr>)"
| "capture_step soon timebase (Cap_Index old, c) =
     (if index_detected (enc_buf c old) then Cap_Index_Clear old else Cap_Latch old, c)"
| "capture_step soon timebase (Cap_Index_Clear old, c) =
     (Cap_Index_Copy old, upd_old old (\<lambda>b. b\<lparr>index_detected := False\<rparr>) c)"
| "capture_step soon timebase (Cap_Index_Copy old, c) =
     (Cap_Index_Ena old, c\<lparr>index_count := buf_index_count (enc_buf c old)\<rparr>)"
| "capture_step soon timebase (Cap_Index_Ena old, c) = (Cap_Latch old, c\<lparr>index_ena := False\<rparr>)"
| "capture_step soon timebase (Cap_Latch old, c) =
     (if latch_detected (enc_buf c old) then Cap_Latch_Clear old else Cap_Zmask old, c)"
| "capture_step soon timebase (Cap_Latch_Clear old, c) =
     (Cap_Latch_Copy old, upd_old old (\<lambda>b. b\<lparr>latch_detected := False\<rparr>) c)"
| "capture_step soon timebase (Cap_Latch_Copy old, c) =
     (Cap_Zmask old, c\<lparr>latch_count := buf_latch_count (enc_buf c old)\<rparr>)"
| "capture_step soon timebase (Cap_Zmask old, c) = (Cap_Zmask_Set old (index_ena c), c)"
| "capture_step soon timebase (Cap_Zmask_Set old ena, c) = (Cap_Reset old, c\<lparr>Zmask := (if ena then 3 else 0)\<rparr>)"
| "capture_step soon timebase (Cap_Reset old, c) = (if enc_reset c then Cap_Reset_Raw old else Cap_Count old, c)"
| "capture_step soon timebase (Cap_Reset_Raw old, c) = (Cap_Reset_Index old, c\<lparr>raw_count := raw_counts c\<rparr>)"
| "capture_step soon timebase (Cap_Reset_Index old, c) = (Cap_Count old, c\<lparr>index_count := raw_count c\<rparr>)"
| "capture_step soon timebase (Cap_Count old, c) =
     (if count_detected (enc_buf c old) then Cap_Count_Clear old else Cap_No_Count, c)"
| "capture_step soon timebase (Cap_Count_Clear old, c) =
     (Cap_Count_Raw old, upd_old old (\<lambda>b. b\<lparr>count_detected := False\<rparr>) c)"
| "capture_step soon timebase (Cap_Count_Raw old, c) =
     (Cap_Count_Stamp old, c\<lparr>raw_count := buf_raw_count (enc_buf c old)\<rparr>)"
| "capture_step soon timebase (Cap_Count_Stamp old, c) =
     (Cap_Count_Since, c\<lparr>enc_timestamp := buf_timestamp (enc_buf c old)\<rparr>)"
| "capture_step soon timebase (Cap_Count_Since, c) =
     (Cap_Publish, if counts_since_timeout c < 2 then c\<lparr>counts_since_timeout := counts_since_timeout c + 1\<rparr> else c)"
| "capture_step soon timebase (Cap_No_Count, c) =
     (Cap_Publish, if counts_since_timeout c \<noteq> 0 \<and> \<not> soon c (timebase - enc_timestamp c)
                   then c\<lparr>counts_since_timeout := 0\<rparr> else c)"
| "capture_step soon timebase (Cap_Publish, c) = (Cap_Publish_Latch, c\<lparr>enc_count := raw_count c - index_count c\<rparr>)"
| "capture_step soon timebase (Cap_Publish_Latch, c) = (Cap_Load, c\<lparr>count_latch := latch_count c - index_count c\<rparr>)"

text \<open>The counter as \<open>rtapi_app_main\<close> leaves it; inputs are low.\<close>

definition empty_atomic :: atomic where
  "empty_atomic = \<lparr>count_detected = False, index_detected = False, latch_detected = False, buf_raw_count = 0,
     buf_timestamp = 0, buf_index_count = 0, buf_latch_count = 0\<rparr>"

definition init_counter :: counter where
  "init_counter = \<lparr>enc_state = 0, oldZ = 0, Zmask = 0, x4_mode = True, counter_mode = False,
     enc_buf = (\<lambda>_. empty_atomic), enc_bp = False, raw_counts = 0, phaseA = False, phaseB = False,
     phaseZ = False, index_ena = False, enc_reset = False, latch_in = False, latch_rising = True,
     latch_falling = True, raw_count = 0, enc_timestamp = 0, index_count = 0, latch_count = 0,
     enc_count = 0, count_latch = 0, old_latch = False, counts_since_timeout = 0\<rparr>"

section \<open>Decoding\<close>

text \<open>The phases of a shaft at a position, and the state that remembers them.\<close>

definition phase_A :: "int \<Rightarrow> bool" where "phase_A p \<longleftrightarrow> p mod 4 \<in> {1, 2}"
definition phase_B :: "int \<Rightarrow> bool" where "phase_B p \<longleftrightarrow> p mod 4 \<in> {2, 3}"

definition phase_code :: "int \<Rightarrow> 8 word" where
  "phase_code p = (if phase_A p then 4 else 0) OR (if phase_B p then 8 else 0)"

text \<open>The full cycles up to a position, counted where A rises with B low.\<close>

definition cycles :: "int \<Rightarrow> int" where "cycles p = (p + 3) div 4"

definition decode_ok :: "bool \<Rightarrow> int \<Rightarrow> int \<Rightarrow> 8 word \<Rightarrow> bool" where
  "decode_ok x4 p q st \<longleftrightarrow> st AND 0x0F = phase_code q \<and>
     (st AND SM_CNT_UP_MASK \<noteq> 0 \<longleftrightarrow> (if x4 then q = p + 1 else cycles q = cycles p + 1)) \<and>
     (st AND SM_CNT_UP_MASK = 0 \<longrightarrow> (st AND SM_CNT_DN_MASK \<noteq> 0 \<longleftrightarrow> (if x4 then q = p - 1 else cycles q = cycles p - 1))) \<and>
     (\<not> x4 \<longrightarrow> cycles q \<in> {cycles p - 1, cycles p, cycles p + 1})"

definition lut_index :: "int \<Rightarrow> int \<Rightarrow> 8 word" where
  "lut_index p q = phase_code p OR (if phase_A q then 1 else 0) OR (if phase_B q then 2 else 0)"

lemma phase_shift:
  "phase_A (4 * k + r) = phase_A r" "phase_B (4 * k + r) = phase_B r" "phase_code (4 * k + r) = phase_code r"
  "cycles (4 * k + r) = k + cycles r" "lut_index (4 * k + r) (4 * k + r') = lut_index r r'"
  by (simp_all add: phase_A_def phase_B_def phase_code_def cycles_def lut_index_def add.assoc)

lemma decode_shift: "decode_ok x4 (4 * k + r) (4 * k + r') st = decode_ok x4 r r' st"
  unfolding decode_ok_def phase_shift by simp

lemma lut_decodes:
  "\<forall>r \<in> set [0, 1, 2, 3]. \<forall>d \<in> set [-1, 0, 1]. \<forall>x4 \<in> set [True, False].
     decode_ok x4 r (r + d) ((if x4 then lut_x4 else lut_x1) ! unat (lut_index r (r + d)))"
  by code_simp

lemma next_state_decodes:
  assumes st: "enc_state c AND 0x0F = phase_code p" and m: "\<not> counter_mode c"
    and ph: "phaseA c = phase_A q" "phaseB c = phase_B q" and d: "\<bar>q - p\<bar> \<le> 1"
  shows "decode_ok (x4_mode c) p q (next_state c)"
proof -
  have "(if phaseB c then (if phaseA c then enc_state c OR SM_PHASE_A_MASK else enc_state c) OR SM_PHASE_B_MASK
      else if phaseA c then enc_state c OR SM_PHASE_A_MASK else enc_state c) AND SM_LOOKUP_MASK = lut_index p q"
    unfolding ph lut_index_def SM_LOOKUP_MASK_def SM_PHASE_A_MASK_def SM_PHASE_B_MASK_def
    by (simp add: bit.conj_disj_distrib2 st or.assoc)
  then have ns: "next_state c = (if x4_mode c then lut_x4 else lut_x1) ! unat (lut_index p q)"
    using m by (simp add: next_state_def Let_def)
  define r k where "r = p mod 4" and "k = p div 4"
  have p: "p = 4 * k + r" "r \<in> set [0, 1, 2, 3]" by (auto simp: r_def k_def)
  have q: "q = 4 * k + (r + (q - p))" "q - p \<in> set [-1, 0, 1]" using p d by auto
  have "decode_ok (x4_mode c) r (r + (q - p)) ((if x4_mode c then lut_x4 else lut_x1) ! unat (lut_index r (r + (q - p))))"
    using lut_decodes p(2) q(2) by auto
  then show ?thesis unfolding ns by (metis decode_shift p(1) phase_shift(5) q(1))
qed

text \<open>A capture that is not interrupted is the whole function.\<close>

lemma capture_steps_events:
  "\<exists>k. (capture_step soon t ^^ k) (Cap_Load, c) =
     (Cap_Reset (enc_bp c), capture_events (enc_buf c (enc_bp c)) (enc_bp c) c)"
proof -
  let ?b = "enc_buf c (enc_bp c)"
  let ?k = "2 + (if index_detected ?b then 4 else 1) + (if latch_detected ?b then 3 else 1) + 2"
  have "(capture_step soon t ^^ ?k) (Cap_Load, c) = (Cap_Reset (enc_bp c), capture_events ?b (enc_bp c) c)"
    by (cases "index_detected ?b"; cases "latch_detected ?b")
      (simp_all add: capture_events_def Let_def upd_old_def eval_nat_numeral)
  then show ?thesis by blast
qed

lemma capture_steps_counts:
  "\<exists>k. (capture_step soon t ^^ k) (Cap_Reset old, c) = (Cap_Load, capture_counts soon t (enc_buf c old) old c)"
proof -
  let ?k = "(if enc_reset c then 3 else 1) + (if count_detected (enc_buf c old) then 5 else 2) + 2"
  have "(capture_step soon t ^^ ?k) (Cap_Reset old, c) = (Cap_Load, capture_counts soon t (enc_buf c old) old c)"
    by (cases "enc_reset c"; cases "count_detected (enc_buf c old)")
      (simp_all add: capture_counts_def Let_def upd_old_def eval_nat_numeral)
  then show ?thesis by blast
qed

lemma capture_counts_buf:
  "count_detected b = count_detected b' \<Longrightarrow> buf_raw_count b = buf_raw_count b' \<Longrightarrow> buf_timestamp b = buf_timestamp b' \<Longrightarrow>
   capture_counts soon t b old c = capture_counts soon t b' old c"
  by (simp add: capture_counts_def)

lemma capture_events_buf:
  "count_detected (enc_buf (capture_events b old c) k) = count_detected (enc_buf c k)"
  "buf_raw_count (enc_buf (capture_events b old c) k) = buf_raw_count (enc_buf c k)"
  "buf_timestamp (enc_buf (capture_events b old c) k) = buf_timestamp (enc_buf c k)"
  by (simp_all add: capture_events_def Let_def)

lemma capture_channel_steps:
  "\<exists>k. (capture_step soon t ^^ k) (Cap_Load, c) = (Cap_Load, capture_channel soon t c)"
proof -
  let ?b = "enc_buf c (enc_bp c)" and ?o = "enc_bp c"
  let ?c = "capture_events ?b ?o c"
  have "capture_counts soon t (enc_buf ?c ?o) ?o ?c = capture_counts soon t ?b ?o ?c"
    by (rule capture_counts_buf) (simp_all add: capture_events_buf)
  moreover obtain j where "(capture_step soon t ^^ j) (Cap_Load, c) = (Cap_Reset ?o, ?c)"
    using capture_steps_events by blast
  moreover obtain k where "(capture_step soon t ^^ k) (Cap_Reset ?o, ?c) = (Cap_Load, capture_counts soon t (enc_buf ?c ?o) ?o ?c)"
    using capture_steps_counts by blast
  ultimately have "(capture_step soon t ^^ (k + j)) (Cap_Load, c) = (Cap_Load, capture_channel soon t c)"
    by (simp add: funpow_add capture_channel_def Let_def)
  then show ?thesis by blast
qed

section \<open>The counter follows the shaft\<close>

text \<open>
  A counter with a capture in progress. \<open>update\<close> runs in the faster thread: it
  is not interrupted by \<open>capture\<close>, but may run between any two statements of it.
  Between two updates the shaft moves by at most one quadrature step; all other
  inputs change at any time. Besides the program the record has the history
  that the properties speak about: the position of the shaft, the levels of
  the index and latch inputs that \<open>update\<close> saw last, the positions of the last
  index and latch edges since \<open>capture\<close> exchanged the buffers, the time of the
  last count, and for the capture in progress, or the last one, the position
  and the time of the last count when it exchanged the buffers, the position at
  which it saw the reset input, and the positions of the index and the latch
  event that its counts refer to.
\<close>

record enc_sys =
  enc :: counter
  cap_pc :: capture_pc
  shaft :: int
  z_level :: bool
  l_level :: bool
  z_edge :: "int option"
  l_edge :: "int option"
  count_time :: "32 word"
  at_swap :: int
  swap_time :: "32 word"
  at_reset :: "int option"
  index_at :: int
  latch_at :: int

datatype enc_op =
  Update int bool bool "32 word"
| Pins bool bool bool bool
| Capture "32 word"

definition set_inputs :: "bool \<Rightarrow> int \<Rightarrow> bool \<Rightarrow> bool \<Rightarrow> counter \<Rightarrow> counter" where
  "set_inputs x4 p z l c = c\<lparr>x4_mode := x4, counter_mode := False, phaseA := phase_A p, phaseB := phase_B p,
     phaseZ := z, latch_in := l\<rparr>"

text \<open>The count of a shaft position: quadrature steps, or full cycles in x1 mode.\<close>

definition counts_at :: "bool \<Rightarrow> int \<Rightarrow> int" where "counts_at x4 p = (if x4 then p else cycles p)"

definition true_count :: "bool \<Rightarrow> int \<Rightarrow> 32 word" where
  "true_count x4 p = of_int (counts_at x4 p)"

definition latch_edge :: "enc_sys \<Rightarrow> bool \<Rightarrow> bool" where
  "latch_edge s l \<longleftrightarrow> l \<and> \<not> l_level s \<and> latch_rising (enc s) \<or> \<not> l \<and> l_level s \<and> latch_falling (enc s)"

definition at_capture :: "enc_sys \<Rightarrow> enc_sys" where
  "at_capture s = (case cap_pc s of
       Cap_Swap old \<Rightarrow> s\<lparr>at_swap := shaft s, swap_time := count_time s, at_reset := None,
         index_at := (case z_edge s of None \<Rightarrow> index_at s | Some p \<Rightarrow> p), z_edge := None,
         latch_at := (case l_edge s of None \<Rightarrow> latch_at s | Some p \<Rightarrow> p), l_edge := None\<rparr>
     | Cap_Reset_Raw old \<Rightarrow> s\<lparr>at_reset := Some (shaft s), index_at := shaft s\<rparr>
     | _ \<Rightarrow> s)"

fun enc_exec :: "(counter \<Rightarrow> 32 word \<Rightarrow> bool) \<Rightarrow> bool \<Rightarrow> enc_op \<Rightarrow> enc_sys \<Rightarrow> enc_sys" where
  "enc_exec soon x4 (Update d z l t) s =
     (let p = shaft s + d
      in s\<lparr>enc := update_channel t (set_inputs x4 p z l (enc s)), shaft := p, z_level := z, l_level := l,
           z_edge := (if z \<and> \<not> z_level s \<and> Zmask (enc s) \<noteq> 0 then Some p else z_edge s),
           l_edge := (if latch_edge s l then Some p else l_edge s),
           count_time := (if counts_at x4 p = counts_at x4 (shaft s) then count_time s else t)\<rparr>)"
| "enc_exec soon x4 (Pins r i lr lf) s =
     s\<lparr>enc := (enc s)\<lparr>enc_reset := r, index_ena := i, latch_rising := lr, latch_falling := lf\<rparr>\<rparr>"
| "enc_exec soon x4 (Capture t) s =
     (case capture_step soon t (cap_pc s, enc s) of (pc, c) \<Rightarrow> (at_capture s)\<lparr>cap_pc := pc, enc := c\<rparr>)"

fun enc_run :: "(counter \<Rightarrow> 32 word \<Rightarrow> bool) \<Rightarrow> bool \<Rightarrow> enc_op list \<Rightarrow> enc_sys \<Rightarrow> enc_sys" where
  "enc_run soon x4 [] s = s"
| "enc_run soon x4 (op # ops) s = enc_run soon x4 ops (enc_exec soon x4 op s)"

definition init_enc :: enc_sys where
  "init_enc = \<lparr>enc = init_counter, cap_pc = Cap_Load, shaft = 0, z_level = False, l_level = False,
     z_edge = None, l_edge = None, count_time = 0, at_swap = 0, swap_time = 0, at_reset = None,
     index_at = 0, latch_at = 0\<rparr>"

section \<open>The invariant\<close>

text \<open>The decoder and the edge detectors are in step with the inputs.\<close>

definition inputs_ok :: "bool \<Rightarrow> enc_sys \<Rightarrow> bool" where
  "inputs_ok x4 s \<longleftrightarrow> (let c = enc s in enc_state c AND 0x0F = phase_code (shaft s) \<and>
     raw_counts c = true_count x4 (shaft s) \<and> Zmask c \<in> {0, 3} \<and>
     oldZ c \<in> (if z_level s then {1, 3} else {0, 2}) \<and> old_latch c = l_level s)"

text \<open>The buffer that \<open>update\<close> writes to.\<close>

definition active_ok :: "bool \<Rightarrow> enc_sys \<Rightarrow> bool" where
  "active_ok x4 s \<longleftrightarrow> (let c = enc s; b = enc_buf c (enc_bp c) in
     (if count_detected b then buf_raw_count b = raw_counts c \<and> buf_timestamp b = count_time s
      else raw_counts c = true_count x4 (at_swap s) \<and> count_time s = swap_time s \<and>
        (case at_reset s of None \<Rightarrow> True | Some p \<Rightarrow> true_count x4 p = true_count x4 (at_swap s))) \<and>
     (case z_edge s of None \<Rightarrow> \<not> index_detected b | Some p \<Rightarrow> index_detected b \<and> buf_index_count b = true_count x4 p) \<and>
     (case l_edge s of None \<Rightarrow> \<not> latch_detected b | Some p \<Rightarrow> latch_detected b \<and> buf_latch_count b = true_count x4 p))"

text \<open>The buffer that \<open>capture\<close> reads, before and after each of its parts.\<close>

definition index_pending :: "bool \<Rightarrow> enc_sys \<Rightarrow> bool \<Rightarrow> bool" where
  "index_pending x4 s old \<longleftrightarrow> (if index_detected (enc_buf (enc s) old)
     then buf_index_count (enc_buf (enc s) old) else index_count (enc s)) = true_count x4 (index_at s)"

definition index_done :: "bool \<Rightarrow> enc_sys \<Rightarrow> bool \<Rightarrow> bool" where
  "index_done x4 s old \<longleftrightarrow> \<not> index_detected (enc_buf (enc s) old) \<and> index_count (enc s) = true_count x4 (index_at s)"

definition latch_pending :: "bool \<Rightarrow> enc_sys \<Rightarrow> bool \<Rightarrow> bool" where
  "latch_pending x4 s old \<longleftrightarrow> (if latch_detected (enc_buf (enc s) old)
     then buf_latch_count (enc_buf (enc s) old) else latch_count (enc s)) = true_count x4 (latch_at s)"

definition latch_done :: "bool \<Rightarrow> enc_sys \<Rightarrow> bool \<Rightarrow> bool" where
  "latch_done x4 s old \<longleftrightarrow> \<not> latch_detected (enc_buf (enc s) old) \<and> latch_count (enc s) = true_count x4 (latch_at s)"

definition count_pending :: "bool \<Rightarrow> enc_sys \<Rightarrow> bool \<Rightarrow> bool" where
  "count_pending x4 s old \<longleftrightarrow> (let b = enc_buf (enc s) old in
     if count_detected b then buf_raw_count b = true_count x4 (at_swap s) \<and> buf_timestamp b = swap_time s
     else enc_timestamp (enc s) = swap_time s)"

definition raw_ok :: "bool \<Rightarrow> enc_sys \<Rightarrow> bool" where
  "raw_ok x4 s \<longleftrightarrow> (case at_reset s of None \<Rightarrow> raw_count (enc s) = true_count x4 (at_swap s)
     | Some p \<Rightarrow> index_at s = p \<and> raw_count (enc s) \<in> {true_count x4 (at_swap s), true_count x4 p})"

definition events_done :: "bool \<Rightarrow> enc_sys \<Rightarrow> bool \<Rightarrow> bool" where
  "events_done x4 s old \<longleftrightarrow> index_done x4 s old \<and> latch_done x4 s old"

definition capture_done :: "bool \<Rightarrow> enc_sys \<Rightarrow> bool" where
  "capture_done x4 s \<longleftrightarrow> events_done x4 s (\<not> enc_bp (enc s)) \<and> \<not> count_detected (enc_buf (enc s) (\<not> enc_bp (enc s))) \<and>
     raw_ok x4 s \<and> enc_timestamp (enc s) = swap_time s"

text \<open>Until the reset input has been tested, the raw count of the last capture
  is good unless the buffer has a newer one.\<close>

definition before_reset :: "bool \<Rightarrow> enc_sys \<Rightarrow> bool \<Rightarrow> bool" where
  "before_reset x4 s old \<longleftrightarrow> enc_bp (enc s) = (\<not> old) \<and> count_pending x4 s old \<and> at_reset s = None \<and>
     (\<not> count_detected (enc_buf (enc s) old) \<longrightarrow> raw_count (enc s) = true_count x4 (at_swap s))"

definition published :: "enc_sys \<Rightarrow> bool" where
  "published s \<longleftrightarrow> enc_count (enc s) = raw_count (enc s) - index_count (enc s) \<and>
     count_latch (enc s) = latch_count (enc s) - index_count (enc s)"

definition capture_ok :: "bool \<Rightarrow> enc_sys \<Rightarrow> bool" where
  "capture_ok x4 s \<longleftrightarrow> (let c = enc s; tc = true_count x4 in case cap_pc s of
       Cap_Load \<Rightarrow> capture_done x4 s \<and> published s
     | Cap_Swap old \<Rightarrow> capture_done x4 s \<and> published s \<and> enc_bp c = old
     | Cap_Index old \<Rightarrow> before_reset x4 s old \<and> index_pending x4 s old \<and> latch_pending x4 s old
     | Cap_Index_Clear old \<Rightarrow> before_reset x4 s old \<and> buf_index_count (enc_buf c old) = tc (index_at s) \<and> latch_pending x4 s old
     | Cap_Index_Copy old \<Rightarrow> before_reset x4 s old \<and> \<not> index_detected (enc_buf c old) \<and>
         buf_index_count (enc_buf c old) = tc (index_at s) \<and> latch_pending x4 s old
     | Cap_Index_Ena old \<Rightarrow> before_reset x4 s old \<and> index_done x4 s old \<and> latch_pending x4 s old
     | Cap_Latch old \<Rightarrow> before_reset x4 s old \<and> index_done x4 s old \<and> latch_pending x4 s old
     | Cap_Latch_Clear old \<Rightarrow> before_reset x4 s old \<and> index_done x4 s old \<and> buf_latch_count (enc_buf c old) = tc (latch_at s)
     | Cap_Latch_Copy old \<Rightarrow> before_reset x4 s old \<and> index_done x4 s old \<and> \<not> latch_detected (enc_buf c old) \<and>
         buf_latch_count (enc_buf c old) = tc (latch_at s)
     | Cap_Zmask old \<Rightarrow> before_reset x4 s old \<and> events_done x4 s old
     | Cap_Zmask_Set old ena \<Rightarrow> before_reset x4 s old \<and> events_done x4 s old
     | Cap_Reset old \<Rightarrow> before_reset x4 s old \<and> events_done x4 s old
     | Cap_Reset_Raw old \<Rightarrow> before_reset x4 s old \<and> events_done x4 s old
     | Cap_Reset_Index old \<Rightarrow> enc_bp c = (\<not> old) \<and> count_pending x4 s old \<and> latch_done x4 s old \<and> \<not> index_detected (enc_buf c old) \<and>
         at_reset s = Some (index_at s) \<and> raw_count c = tc (index_at s)
     | Cap_Count old \<Rightarrow> enc_bp c = (\<not> old) \<and> count_pending x4 s old \<and> events_done x4 s old \<and>
         (\<not> count_detected (enc_buf c old) \<longrightarrow> raw_ok x4 s) \<and> (\<forall>p. at_reset s = Some p \<longrightarrow> index_at s = p)
     | Cap_Count_Clear old \<Rightarrow> enc_bp c = (\<not> old) \<and> events_done x4 s old \<and> (\<forall>p. at_reset s = Some p \<longrightarrow> index_at s = p) \<and>
         buf_raw_count (enc_buf c old) = tc (at_swap s) \<and> buf_timestamp (enc_buf c old) = swap_time s
     | Cap_Count_Raw old \<Rightarrow> enc_bp c = (\<not> old) \<and> events_done x4 s old \<and> (\<forall>p. at_reset s = Some p \<longrightarrow> index_at s = p) \<and>
         \<not> count_detected (enc_buf c old) \<and> buf_raw_count (enc_buf c old) = tc (at_swap s) \<and> buf_timestamp (enc_buf c old) = swap_time s
     | Cap_Count_Stamp old \<Rightarrow> enc_bp c = (\<not> old) \<and> events_done x4 s old \<and> \<not> count_detected (enc_buf c old) \<and>
         raw_ok x4 s \<and> buf_timestamp (enc_buf c old) = swap_time s
     | Cap_Count_Since \<Rightarrow> capture_done x4 s
     | Cap_No_Count \<Rightarrow> capture_done x4 s
     | Cap_Publish \<Rightarrow> capture_done x4 s
     | Cap_Publish_Latch \<Rightarrow> capture_done x4 s \<and> enc_count c = raw_count c - index_count c)"

definition enc_ok :: "bool \<Rightarrow> enc_sys \<Rightarrow> bool" where
  "enc_ok x4 s \<longleftrightarrow> inputs_ok x4 s \<and> active_ok x4 s \<and> capture_ok x4 s"

lemmas capture_ok_defs = capture_ok_def index_pending_def index_done_def latch_pending_def latch_done_def
  count_pending_def raw_ok_def events_done_def capture_done_def before_reset_def published_def

text \<open>What \<open>update\<close> leaves alone: everything that \<open>capture\<close> reads.\<close>

lemma update_parts_frame:
  "enc_buf (update_latch c) (\<not> enc_bp c) = enc_buf c (\<not> enc_bp c)" "enc_bp (update_latch c) = enc_bp c"
  "enc_buf (update_index c) (\<not> enc_bp c) = enc_buf c (\<not> enc_bp c)" "enc_bp (update_index c) = enc_bp c"
  "enc_buf (update_count t c) (\<not> enc_bp c) = enc_buf c (\<not> enc_bp c)" "enc_bp (update_count t c) = enc_bp c"
  by (simp_all add: update_latch_def update_index_def update_count_def record_raw_def upd_buf_def Let_def)

lemma update_frame:
  assumes "c' = update_channel t (set_inputs x4 p z l c)"
  shows "enc_buf c' (\<not> enc_bp c) = enc_buf c (\<not> enc_bp c)" "enc_bp c' = enc_bp c" "index_count c' = index_count c"
    "latch_count c' = latch_count c" "raw_count c' = raw_count c" "enc_timestamp c' = enc_timestamp c"
    "enc_count c' = enc_count c" "count_latch c' = count_latch c"
proof -
  show "enc_bp c' = enc_bp c" unfolding assms update_channel_def by (simp add: update_parts_frame set_inputs_def)
  have "enc_bp (set_inputs x4 p z l c) = enc_bp c" "enc_buf (set_inputs x4 p z l c) = enc_buf c" by (simp_all add: set_inputs_def)
  then show "enc_buf c' (\<not> enc_bp c) = enc_buf c (\<not> enc_bp c)"
    using update_parts_frame(5,6) [of t "set_inputs x4 p z l c"]
      update_parts_frame(3,4) [of "update_count t (set_inputs x4 p z l c)"]
      update_parts_frame(1,2) [of "update_index (update_count t (set_inputs x4 p z l c))"]
    unfolding assms update_channel_def by simp
  show "index_count c' = index_count c" "latch_count c' = latch_count c" "raw_count c' = raw_count c"
    "enc_timestamp c' = enc_timestamp c" "enc_count c' = enc_count c" "count_latch c' = count_latch c"
    unfolding assms update_channel_def
    by (simp_all add: update_latch_def update_index_def update_count_def record_raw_def upd_buf_def set_inputs_def Let_def)
qed

lemma capture_ok_cong:
  assumes "capture_ok x4 s" "cap_pc s' = cap_pc s" "at_swap s' = at_swap s" "swap_time s' = swap_time s"
    "at_reset s' = at_reset s" "index_at s' = index_at s" "latch_at s' = latch_at s"
    "enc_buf (enc s') (\<not> enc_bp (enc s)) = enc_buf (enc s) (\<not> enc_bp (enc s))" "enc_bp (enc s') = enc_bp (enc s)"
    "index_count (enc s') = index_count (enc s)" "latch_count (enc s') = latch_count (enc s)"
    "raw_count (enc s') = raw_count (enc s)" "enc_timestamp (enc s') = enc_timestamp (enc s)"
    "enc_count (enc s') = enc_count (enc s)" "count_latch (enc s') = count_latch (enc s)"
  shows "capture_ok x4 s'"
proof -
  note same = assms(2-7,9-15)
  have parts: "index_pending x4 s' old = index_pending x4 s old" "index_done x4 s' old = index_done x4 s old"
    "latch_pending x4 s' old = latch_pending x4 s old" "latch_done x4 s' old = latch_done x4 s old"
    "count_pending x4 s' old = count_pending x4 s old" "before_reset x4 s' old = before_reset x4 s old"
    "events_done x4 s' old = events_done x4 s old" "enc_buf (enc s') old = enc_buf (enc s) old"
    if "enc_bp (enc s) = (\<not> old)" for old
  proof -
    show b: "enc_buf (enc s') old = enc_buf (enc s) old" using assms(8) that by simp
    show "index_pending x4 s' old = index_pending x4 s old" "index_done x4 s' old = index_done x4 s old"
      "latch_pending x4 s' old = latch_pending x4 s old" "latch_done x4 s' old = latch_done x4 s old"
      "count_pending x4 s' old = count_pending x4 s old"
      by (simp_all only: index_pending_def index_done_def latch_pending_def latch_done_def count_pending_def b same)
    then show "before_reset x4 s' old = before_reset x4 s old" "events_done x4 s' old = events_done x4 s old"
      by (simp_all only: before_reset_def events_done_def b same)
  qed
  have whole: "raw_ok x4 s' = raw_ok x4 s" "capture_done x4 s' = capture_done x4 s" "published s' = published s"
    using parts [of "\<not> enc_bp (enc s)"] by (simp_all only: raw_ok_def capture_done_def published_def same not_not)
  have old: "enc_bp (enc s) = (\<not> old)" if "cap_pc s \<in> {Cap_Index old, Cap_Index_Clear old, Cap_Index_Copy old,
      Cap_Index_Ena old, Cap_Latch old, Cap_Latch_Clear old, Cap_Latch_Copy old, Cap_Zmask old, Cap_Zmask_Set old e,
      Cap_Reset old, Cap_Reset_Raw old, Cap_Reset_Index old, Cap_Count old, Cap_Count_Clear old, Cap_Count_Raw old,
      Cap_Count_Stamp old}" for old e
    using assms(1) that by (auto simp: capture_ok_def before_reset_def Let_def)
  show ?thesis
    using assms(1) unfolding capture_ok_def Let_def assms(2)
    by (cases "cap_pc s"; use old in \<open>simp add: parts whole same\<close>)
qed

lemma decode_counts:
  assumes "decode_ok x4 p q st" "\<bar>q - p\<bar> \<le> 1"
  shows "counts_at x4 q = counts_at x4 p + (if st AND SM_CNT_UP_MASK \<noteq> 0 then 1 else if st AND SM_CNT_DN_MASK \<noteq> 0 then -1 else 0)"
proof -
  have "q = p + 1 \<or> q = p \<or> q = p - 1" using assms(2) by arith
  then show ?thesis using assms(1) unfolding decode_ok_def counts_at_def by (cases x4) auto
qed

text \<open>The fast function: its three parts.\<close>

lemma update_count_fields:
  fixes z l :: bool and t :: "32 word"
  assumes "enc_state c AND 0x0F = phase_code p" "raw_counts c = true_count x4 p" "\<bar>q - p\<bar> \<le> 1"
  defines "c' \<equiv> update_count t (set_inputs x4 q z l c)"
  defines "b \<equiv> enc_buf c (enc_bp c)"
  shows "enc_state c' AND 0x0F = phase_code q" "raw_counts c' = true_count x4 q"
    "enc_buf c' (enc_bp c) = (if counts_at x4 q = counts_at x4 p then b
       else b\<lparr>buf_raw_count := true_count x4 q, buf_timestamp := t, count_detected := True\<rparr>)"
    "enc_bp c' = enc_bp c" "Zmask c' = Zmask c" "oldZ c' = oldZ c" "old_latch c' = old_latch c"
    "phaseZ c' = z" "latch_in c' = l" "latch_rising c' = latch_rising c" "latch_falling c' = latch_falling c"
proof -
  let ?c = "set_inputs x4 q z l c"
  define st where "st = next_state ?c"
  have dec: "decode_ok x4 p q st"
    using next_state_decodes [of ?c p q] assms(1,3) by (simp add: set_inputs_def st_def)
  note cnt = decode_counts [OF dec assms(3)]
  have tc: "true_count x4 q = (if st AND SM_CNT_UP_MASK \<noteq> 0 then true_count x4 p + 1
      else if st AND SM_CNT_DN_MASK \<noteq> 0 then true_count x4 p - 1 else true_count x4 p)"
    unfolding true_count_def cnt by simp
  show "enc_state c' AND 0x0F = phase_code q"
    using dec unfolding c'_def update_count_def Let_def st_def [symmetric] by (simp add: decode_ok_def)
  show "raw_counts c' = true_count x4 q"
    using assms(2) unfolding c'_def update_count_def Let_def st_def [symmetric] tc
    by (simp add: record_raw_def upd_buf_def set_inputs_def)
  have "counts_at x4 q = counts_at x4 p \<longleftrightarrow> st AND SM_CNT_UP_MASK = 0 \<and> st AND SM_CNT_DN_MASK = 0"
    unfolding cnt by simp
  then show "enc_buf c' (enc_bp c) = (if counts_at x4 q = counts_at x4 p then b
       else b\<lparr>buf_raw_count := true_count x4 q, buf_timestamp := t, count_detected := True\<rparr>)"
    using assms(2) unfolding c'_def b_def update_count_def Let_def st_def [symmetric] tc
    by (simp add: record_raw_def upd_buf_def set_inputs_def)
  show "enc_bp c' = enc_bp c" "Zmask c' = Zmask c" "oldZ c' = oldZ c" "old_latch c' = old_latch c"
    "phaseZ c' = z" "latch_in c' = l" "latch_rising c' = latch_rising c" "latch_falling c' = latch_falling c"
    unfolding c'_def update_count_def Let_def by (simp_all add: record_raw_def upd_buf_def set_inputs_def)
qed

lemma update_index_fields:
  assumes "Zmask c \<in> {0, 3}" "oldZ c \<in> (if lev then {1, 3} else {0, 2})"
  defines "c' \<equiv> update_index c" and "edge \<equiv> phaseZ c \<and> \<not> lev \<and> Zmask c \<noteq> 0"
  shows "Zmask c' \<in> {0, 3}" "oldZ c' \<in> (if phaseZ c then {1, 3} else {0, 2})"
    "enc_buf c' (enc_bp c) = (if edge then (enc_buf c (enc_bp c))\<lparr>buf_index_count := raw_counts c, index_detected := True\<rparr>
       else enc_buf c (enc_bp c))"
    "enc_bp c' = enc_bp c" "enc_state c' = enc_state c" "raw_counts c' = raw_counts c" "old_latch c' = old_latch c"
    "latch_in c' = latch_in c" "latch_rising c' = latch_rising c" "latch_falling c' = latch_falling c"
proof -
  let ?st = "if phaseZ c then push_bit 1 (oldZ c) OR 1 else push_bit 1 (oldZ c)"
  have "oldZ c = 0 \<or> oldZ c = 1 \<or> oldZ c = 2 \<or> oldZ c = 3" using assms(2) by (auto split: if_splits)
  then have st: "?st AND Zmask c = 1 \<longleftrightarrow> edge" and z: "?st AND 3 \<in> (if phaseZ c then {1, 3} else {0, 2})"
    using assms(1,2) by (auto simp: edge_def split: if_splits)
  have eq: "update_index c = (if edge
      then (upd_buf (\<lambda>b. b\<lparr>buf_index_count := raw_counts c, index_detected := True\<rparr>) (c\<lparr>oldZ := ?st AND 3\<rparr>))\<lparr>Zmask := 0\<rparr>
      else c\<lparr>oldZ := ?st AND 3\<rparr>)"
    unfolding update_index_def Let_def st ..
  show "oldZ c' \<in> (if phaseZ c then {1, 3} else {0, 2})"
  proof -
    have "oldZ c' = ?st AND 3" unfolding c'_def eq by (simp add: upd_buf_def)
    then show ?thesis using z by (simp only:)
  qed
  show "Zmask c' \<in> {0, 3}" using assms(1) unfolding c'_def eq by (simp add: upd_buf_def)
  show "enc_buf c' (enc_bp c) = (if edge then (enc_buf c (enc_bp c))\<lparr>buf_index_count := raw_counts c, index_detected := True\<rparr>
       else enc_buf c (enc_bp c))"
    "enc_bp c' = enc_bp c" "enc_state c' = enc_state c" "raw_counts c' = raw_counts c" "old_latch c' = old_latch c"
    "latch_in c' = latch_in c" "latch_rising c' = latch_rising c" "latch_falling c' = latch_falling c"
    unfolding c'_def eq by (simp_all add: upd_buf_def)
qed

lemma update_latch_fields:
  fixes c :: counter
  defines "c' \<equiv> update_latch c"
    and "edge \<equiv> latch_in c \<and> \<not> old_latch c \<and> latch_rising c \<or> \<not> latch_in c \<and> old_latch c \<and> latch_falling c"
  shows "old_latch c' = latch_in c" "enc_bp c' = enc_bp c" "enc_state c' = enc_state c" "raw_counts c' = raw_counts c"
    "enc_buf c' (enc_bp c) = (if edge then (enc_buf c (enc_bp c))\<lparr>latch_detected := True, buf_latch_count := raw_counts c\<rparr>
       else enc_buf c (enc_bp c))" "Zmask c' = Zmask c" "oldZ c' = oldZ c"
  unfolding c'_def edge_def update_latch_def Let_def by (auto simp: upd_buf_def)

lemma update_step_ok:
  fixes z l :: bool and t :: "32 word" and soon :: "counter \<Rightarrow> 32 word \<Rightarrow> bool"
  assumes ok: "inputs_ok x4 s" "active_ok x4 s" and d: "\<bar>d\<bar> \<le> 1"
  defines "s' \<equiv> enc_exec soon x4 (Update d z l t) s"
  shows "inputs_ok x4 s'" "active_ok x4 s'"
proof -
  define p q where "p = shaft s" and "q = shaft s + d"
  define c1 where "c1 = update_count t (set_inputs x4 q z l (enc s))"
  define c2 where "c2 = update_index c1"
  define c3 where "c3 = update_latch c2"
  have in_c: "enc_state (enc s) AND 0x0F = phase_code p" "raw_counts (enc s) = true_count x4 p" "\<bar>q - p\<bar> \<le> 1"
    "Zmask (enc s) \<in> {0, 3}" "oldZ (enc s) \<in> (if z_level s then {1, 3} else {0, 2})" "old_latch (enc s) = l_level s"
    using ok(1) d by (simp_all add: inputs_ok_def p_def q_def Let_def)
  note f1 = update_count_fields [OF in_c(1-3), where t = t and z = z and l = l, folded c1_def]
  have "Zmask c1 \<in> {0, 3}" "oldZ c1 \<in> (if z_level s then {1, 3} else {0, 2})" using f1 in_c by simp_all
  note f2 = update_index_fields [OF this, folded c2_def]
  note f3 = update_latch_fields [of c2, folded c3_def]
  have s': "enc s' = c3" "shaft s' = q" "z_level s' = z" "l_level s' = l"
    "z_edge s' = (if z \<and> \<not> z_level s \<and> Zmask (enc s) \<noteq> 0 then Some q else z_edge s)"
    "l_edge s' = (if latch_edge s l then Some q else l_edge s)"
    "count_time s' = (if counts_at x4 q = counts_at x4 p then count_time s else t)"
    "at_swap s' = at_swap s" "swap_time s' = swap_time s" "at_reset s' = at_reset s"
    by (simp_all add: s'_def q_def p_def c3_def c2_def c1_def update_channel_def Let_def)
  show "inputs_ok x4 s'" unfolding inputs_ok_def Let_def s' using f1 f2 f3 by simp
  let ?b = "enc_buf (enc s) (enc_bp (enc s))"
  have le: "latch_edge s l \<longleftrightarrow> (latch_in c2 \<and> \<not> old_latch c2 \<and> latch_rising c2 \<or> \<not> latch_in c2 \<and> old_latch c2 \<and> latch_falling c2)"
    using f1 f2 in_c by (simp add: latch_edge_def)
  have b1: "enc_buf c1 (enc_bp (enc s)) = (if counts_at x4 q = counts_at x4 p then ?b
       else ?b\<lparr>buf_raw_count := true_count x4 q, buf_timestamp := t, count_detected := True\<rparr>)" using f1(3) .
  have b2: "enc_buf c2 (enc_bp (enc s)) = (if z \<and> \<not> z_level s \<and> Zmask (enc s) \<noteq> 0
       then (enc_buf c1 (enc_bp (enc s)))\<lparr>buf_index_count := true_count x4 q, index_detected := True\<rparr>
       else enc_buf c1 (enc_bp (enc s)))" using f2(3) f1 by simp
  have b3: "enc_buf c3 (enc_bp (enc s)) = (if latch_edge s l
       then (enc_buf c2 (enc_bp (enc s)))\<lparr>latch_detected := True, buf_latch_count := true_count x4 q\<rparr>
       else enc_buf c2 (enc_bp (enc s)))" using f3(5) f2 f1 unfolding le by simp
  have bp: "enc_bp c3 = enc_bp (enc s)" "raw_counts c3 = true_count x4 q" using f1 f2 f3 by simp_all
  have raw: "true_count x4 q = true_count x4 p" if "counts_at x4 q = counts_at x4 p"
    using that by (simp add: true_count_def)
  show "active_ok x4 s'"
    using ok(2) raw in_c(2) unfolding active_ok_def Let_def s' bp b3 b2 b1
    by (auto split: option.splits)
qed

text \<open>One statement of \<open>capture\<close>.\<close>

lemma capture_step_inputs:
  assumes "inputs_ok x4 s"
  shows "inputs_ok x4 (enc_exec soon x4 (Capture t) s)"
proof -
  have "inputs_ok x4 ((at_capture s)\<lparr>cap_pc := fst r, enc := snd r\<rparr>)" if "r = capture_step soon t (cap_pc s, enc s)" for r
    using assms that by (cases "cap_pc s") (simp_all add: inputs_ok_def at_capture_def upd_old_def Let_def)
  then show ?thesis by (simp add: split_beta)
qed

lemma swap_step_ok:
  assumes "inputs_ok x4 s" "active_ok x4 s" "capture_ok x4 s" "cap_pc s = Cap_Swap old"
  shows "active_ok x4 (enc_exec soon x4 (Capture t) s)" "capture_ok x4 (enc_exec soon x4 (Capture t) s)"
proof -
  let ?s = "enc_exec soon x4 (Capture t) s"
  have raw: "raw_counts (enc s) = true_count x4 (shaft s)" using assms(1) by (simp add: inputs_ok_def Let_def)
  have bp: "enc_bp (enc s) = old" "capture_done x4 s" using assms(3,4) by (simp_all add: capture_ok_def Let_def)
  have s': "enc ?s = (enc s)\<lparr>enc_bp := \<not> old\<rparr>" "at_swap ?s = shaft s" "swap_time ?s = count_time s" "at_reset ?s = None"
    "z_edge ?s = None" "l_edge ?s = None" "count_time ?s = count_time s" "cap_pc ?s = Cap_Index old"
    "index_at ?s = (case z_edge s of None \<Rightarrow> index_at s | Some p \<Rightarrow> p)"
    "latch_at ?s = (case l_edge s of None \<Rightarrow> latch_at s | Some p \<Rightarrow> p)"
    by (simp_all add: assms(4) at_capture_def)
  show "active_ok x4 ?s"
    using bp raw unfolding active_ok_def Let_def s'
    by (simp add: capture_done_def events_done_def index_done_def latch_done_def)
  have "before_reset x4 ?s old"
    using bp assms(2) raw unfolding before_reset_def count_pending_def Let_def s' active_ok_def
    by (auto simp: capture_done_def raw_ok_def split: option.splits if_splits)
  moreover have "index_pending x4 ?s old" "latch_pending x4 ?s old"
    using bp assms(2) unfolding index_pending_def latch_pending_def Let_def s' active_ok_def
    by (auto simp: capture_done_def events_done_def index_done_def latch_done_def split: option.splits)
  ultimately show "capture_ok x4 ?s" unfolding capture_ok_def s' by simp
qed

lemma quiet_step_ok:
  assumes "active_ok x4 s" "capture_ok x4 s" "\<And>old. cap_pc s \<noteq> Cap_Swap old" "\<And>old. cap_pc s \<noteq> Cap_Reset_Raw old"
  shows "active_ok x4 (enc_exec soon x4 (Capture t) s)" "capture_ok x4 (enc_exec soon x4 (Capture t) s)"
proof -
  show "active_ok x4 (enc_exec soon x4 (Capture t) s)"
  proof -
    have g: "at_capture s = s" unfolding at_capture_def by (cases "cap_pc s") (use assms(3,4) in auto)
    define c where "c = snd (capture_step soon t (cap_pc s, enc s))"
    have c: "enc_bp c = enc_bp (enc s)" "raw_counts c = raw_counts (enc s)"
      "enc_buf c (enc_bp (enc s)) = enc_buf (enc s) (enc_bp (enc s))"
      using assms(2-4) unfolding c_def
      by (cases "cap_pc s"; simp add: upd_old_def Let_def capture_ok_def before_reset_def)+
    have e: "enc_exec soon x4 (Capture t) s = s\<lparr>cap_pc := fst (capture_step soon t (cap_pc s, enc s)), enc := c\<rparr>"
      by (simp add: g c_def split_beta)
    define s' where "s' = enc_exec soon x4 (Capture t) s"
    have f: "enc s' = c" "count_time s' = count_time s" "at_swap s' = at_swap s" "swap_time s' = swap_time s"
      "at_reset s' = at_reset s" "z_edge s' = z_edge s" "l_edge s' = l_edge s" unfolding s'_def e by simp_all
    show ?thesis using assms(1) unfolding s'_def [symmetric] active_ok_def Let_def f c .
  qed
  show "capture_ok x4 (enc_exec soon x4 (Capture t) s)"
    using assms(2-4)
    by (cases "cap_pc s"; simp add: at_capture_def upd_old_def Let_def capture_ok_defs split: option.splits if_splits)
qed

lemma capture_step_ok:
  assumes ok: "enc_ok x4 s"
  shows "enc_ok x4 (enc_exec soon x4 (Capture t) s)"
proof -
  have i: "inputs_ok x4 s" and a: "active_ok x4 s" and c: "capture_ok x4 s" using ok by (simp_all add: enc_ok_def)
  have raw: "raw_counts (enc s) = true_count x4 (shaft s)" using i by (simp add: inputs_ok_def Let_def)
  let ?s = "enc_exec soon x4 (Capture t) s"
  consider (swap) old where "cap_pc s = Cap_Swap old" | (reset) old where "cap_pc s = Cap_Reset_Raw old"
    | (other) "\<And>old. cap_pc s \<noteq> Cap_Swap old" "\<And>old. cap_pc s \<noteq> Cap_Reset_Raw old" by blast
  then have "active_ok x4 ?s \<and> capture_ok x4 ?s"
  proof cases
    case swap
    then show ?thesis using swap_step_ok [OF i a c] by blast
  next
    case (reset old)
    have "active_ok x4 ?s" using a raw reset by (auto simp: active_ok_def at_capture_def Let_def split: option.splits)
    moreover have "capture_ok x4 ?s"
      using c raw reset by (simp add: at_capture_def capture_ok_def Let_def before_reset_def count_pending_def
          events_done_def latch_done_def index_done_def)
    ultimately show ?thesis by blast
  next
    case other
    then show ?thesis using quiet_step_ok [OF a c] by blast
  qed
  then show ?thesis using capture_step_inputs [OF i] by (simp add: enc_ok_def)
qed

lemma enc_exec_ok:
  assumes "enc_ok x4 s" "case op of Update d z l t \<Rightarrow> \<bar>d\<bar> \<le> 1 | _ \<Rightarrow> True"
  shows "enc_ok x4 (enc_exec soon x4 op s)"
proof (cases op)
  case (Update d z l t)
  define s' where "s' = enc_exec soon x4 (Update d z l t) s"
  have ok: "capture_ok x4 s" "inputs_ok x4 s" "active_ok x4 s" "\<bar>d\<bar> \<le> 1" using assms Update by (simp_all add: enc_ok_def)
  have e: "enc s' = update_channel t (set_inputs x4 (shaft s + d) z l (enc s))" by (simp add: s'_def Let_def)
  have f: "cap_pc s' = cap_pc s" "at_swap s' = at_swap s" "swap_time s' = swap_time s" "at_reset s' = at_reset s"
    "index_at s' = index_at s" "latch_at s' = latch_at s" by (simp_all add: s'_def Let_def)
  have "capture_ok x4 s'" by (rule capture_ok_cong [OF ok(1) f update_frame [OF e]])
  then show ?thesis using update_step_ok [OF ok(2-4), of soon z l t] Update unfolding s'_def [symmetric]
    by (simp add: enc_ok_def s'_def)
next
  case (Pins r i lr lf)
  define c where "c = (enc s)\<lparr>enc_reset := r, index_ena := i, latch_rising := lr, latch_falling := lf\<rparr>"
  have e: "enc_exec soon x4 (Pins r i lr lf) s = s\<lparr>enc := c\<rparr>" by (simp add: c_def)
  have ok: "capture_ok x4 s" "inputs_ok x4 s" "active_ok x4 s" using assms by (simp_all add: enc_ok_def)
  have "capture_ok x4 (s\<lparr>enc := c\<rparr>)" by (rule capture_ok_cong [OF ok(1)]) (simp_all add: c_def)
  moreover have "inputs_ok x4 (s\<lparr>enc := c\<rparr>)" using ok(2) by (simp add: inputs_ok_def c_def Let_def)
  moreover have "active_ok x4 (s\<lparr>enc := c\<rparr>)" using ok(3) by (auto simp: active_ok_def c_def Let_def split: option.splits)
  ultimately show ?thesis unfolding Pins e by (simp add: enc_ok_def)
next
  case (Capture t)
  then show ?thesis using capture_step_ok [OF assms(1)] by simp
qed

lemma enc_run_ok:
  assumes "enc_ok x4 s" "\<forall>op \<in> set ops. case op of Update d z l t \<Rightarrow> \<bar>d\<bar> \<le> 1 | _ \<Rightarrow> True"
  shows "enc_ok x4 (enc_run soon x4 ops s)"
  using assms by (induction ops arbitrary: s) (simp_all add: enc_exec_ok)

lemma init_enc_ok: "enc_ok x4 init_enc"
  by (simp add: enc_ok_def inputs_ok_def active_ok_def capture_ok_defs Let_def init_enc_def init_counter_def
      empty_atomic_def phase_code_def phase_A_def phase_B_def true_count_def counts_at_def cycles_def)

text \<open>C21: The encoder counter is exact, although \<open>update\<close> interrupts \<open>capture\<close>
  between any two of its statements. For shaft movements of at most one
  quadrature step per update, and any changes of the other inputs at any time,
  the raw count is always the position of the shaft (in x1 mode the number of
  full cycles), modulo the width of the counter. When a capture has ended, what
  it published is a snapshot of the moment at which it exchanged the buffers:
  the count is the position at that moment minus the position of the last
  index edge that was seen before it (or of an earlier one, or of a reset), the
  time stamp is that of the last count before it, and the latched count is the
  position of the last latch event before it. If the capture saw the reset
  input, the index position is the one at which it saw it, and the published
  count is zero or the movement between the exchange and the reset. \<open>update\<close>
  itself is not interrupted by \<open>capture\<close>: it belongs to the faster thread.\<close>

theorem encoder_tracks_position:
  assumes "\<forall>op \<in> set ops. case op of Update d z l t \<Rightarrow> \<bar>d\<bar> \<le> 1 | _ \<Rightarrow> True"
    and "s = enc_run soon x4 ops init_enc"
  shows "raw_counts (enc s) = of_int (if x4 then shaft s else (shaft s + 3) div 4) \<and>
    (cap_pc s = Cap_Load \<longrightarrow>
       enc_timestamp (enc s) = swap_time s \<and>
       count_latch (enc s) = true_count x4 (latch_at s) - true_count x4 (index_at s) \<and>
       (case at_reset s of
          None \<Rightarrow> enc_count (enc s) = true_count x4 (at_swap s) - true_count x4 (index_at s)
        | Some p \<Rightarrow> index_at s = p \<and> enc_count (enc s) \<in> {0, true_count x4 (at_swap s) - true_count x4 p}))"
proof -
  have ok: "enc_ok x4 s" unfolding assms(2) by (rule enc_run_ok [OF init_enc_ok assms(1)])
  then have "raw_counts (enc s) = true_count x4 (shaft s)" by (simp add: enc_ok_def inputs_ok_def Let_def)
  then have "raw_counts (enc s) = of_int (if x4 then shaft s else (shaft s + 3) div 4)"
    by (simp add: true_count_def counts_at_def cycles_def)
  moreover have "enc_timestamp (enc s) = swap_time s"
    "count_latch (enc s) = true_count x4 (latch_at s) - true_count x4 (index_at s)"
    "case at_reset s of None \<Rightarrow> enc_count (enc s) = true_count x4 (at_swap s) - true_count x4 (index_at s)
        | Some p \<Rightarrow> index_at s = p \<and> enc_count (enc s) \<in> {0, true_count x4 (at_swap s) - true_count x4 p}"
    if "cap_pc s = Cap_Load"
    using ok that by (auto simp: enc_ok_def capture_ok_defs split: option.splits)
  ultimately show ?thesis by blast
qed

text \<open>A capture that is interrupted by an update right behind the exchange of the
  buffers publishes the count from before it.\<close>

definition interrupted_capture :: "enc_op list" where
  "interrupted_capture = [Update 1 False False 5, Update 1 False False 6, Capture 7, Capture 7, Update 1 False False 8] @
     replicate 12 (Capture 9)"

theorem encoder_tracks_position_witness:
  "raw_counts (enc (enc_run (\<lambda>c t. True) True interrupted_capture init_enc)) = 3 \<and>
   enc_count (enc (enc_run (\<lambda>c t. True) True interrupted_capture init_enc)) = 2 \<and>
   enc_timestamp (enc (enc_run (\<lambda>c t. True) True interrupted_capture init_enc)) = 6"
proof -
  let ?s = "enc_run (\<lambda>c t. True) True interrupted_capture init_enc"
  have "cap_pc ?s = Cap_Load" "shaft ?s = 3" "at_swap ?s = 2" "swap_time ?s = 6" "at_reset ?s = None" "index_at ?s = 0"
    by code_simp+
  moreover have "\<forall>op \<in> set interrupted_capture. case op of Update d z l t \<Rightarrow> \<bar>d\<bar> \<le> 1 | _ \<Rightarrow> True" by code_simp
  ultimately show ?thesis
    using encoder_tracks_position [of interrupted_capture ?s "\<lambda>c t. True" True] by (simp add: true_count_def counts_at_def)
qed

text \<open>The two races that are left. A count between the exchange of the buffers
  and the test of the reset input makes the published count differ from zero
  when the buffer had counts as well. An index edge in the same place is
  recorded, but \<open>capture\<close> then arms the index once more, and a second edge
  replaces it.\<close>

lemma reset_race:
  "enc_count (enc (enc_run (\<lambda>c t. True) True
     ([Update 1 False False 5, Pins True False False False, Capture 7, Capture 7, Update 1 False False 8] @
      replicate 14 (Capture 9)) init_enc)) = - 1"
  by code_simp

lemma index_race:
  defines "s \<equiv> enc_run (\<lambda>c t. True) True
     ([Pins False True False False] @ replicate 11 (Capture 0) @ [Capture 1, Capture 1, Update 1 True False 2] @
      replicate 8 (Capture 3) @ [Update 1 False False 4, Update 1 True False 5]) init_enc"
  shows "z_edge s = Some 3 \<and> shaft s = 3"
  unfolding s_def by code_simp

end
