(* ===== verification/Multiframe.thy ===== *)
theory Multiframe
  imports Ring_Correct
begin

text \<open>
  Multi-frame messages on record rings (\<open>runtime/include/runtime/multiframe.h\<close>):
  a message is a record made of frames, each with a header of its size and
  flags. The writer builds the record in the free space of the ring, the reader
  walks through it in place. The ring is passed beside the \<open>msgbuffer\<close> that
  points to it, since a writer and a reader share it.
\<close>

section \<open>The message buffer\<close>

text \<open>Pointers into the storage are offsets; \<open>None\<close> is NULL.\<close>

record msgbuffer =
  mb_write :: "nat option"
  write_size :: u32
  write_off :: u32
  mb_read :: "nat option"
  read_size :: u32
  read_off :: u32

definition sizeof_frameheader :: nat where "sizeof_frameheader = 8"

definition frame_set_size :: "nat \<Rightarrow> u32 \<Rightarrow> ringheader \<Rightarrow> ringheader" where
  "frame_set_size frame v r = r\<lparr>buf := put_le (buf r) frame 4 (unat v)\<rparr>"

definition frame_set_flags :: "nat \<Rightarrow> u32 \<Rightarrow> ringheader \<Rightarrow> ringheader" where
  "frame_set_flags frame v r = r\<lparr>buf := put_le (buf r) (frame + 4) 4 (unat v)\<rparr>"

definition frame_size :: "nat \<Rightarrow> ringheader \<Rightarrow> u32" where
  "frame_size frame r = of_nat (get_le (buf r) frame 4)"

definition frame_flags :: "nat \<Rightarrow> ringheader \<Rightarrow> u32" where
  "frame_flags frame r = of_nat (get_le (buf r) (frame + 4) 4)"

definition msgbuffer_init :: msgbuffer where
  "msgbuffer_init = \<lparr>mb_write = None, write_size = 0, write_off = 0, mb_read = None, read_size = 0, read_off = 0\<rparr>"

section \<open>Writing\<close>

text \<open>
  \<open>frame_write_begin\<close>: the comparison with the size of the record is made in
  64 bits. The frame pointer is computed before the record may move, and not
  again. The result is the error number or the offset of the data.
\<close>

definition frame_write_begin ::
  "u32 \<Rightarrow> u32 \<Rightarrow> msgbuffer \<Rightarrow> ringheader \<Rightarrow> msgbuffer \<times> ringheader \<times> (int + nat)" where
  "frame_write_begin sz flags mb r =
     (let need = sz + 8;
          (mb1, rc) = (case mb_write mb of
             Some p \<Rightarrow> (mb, 0)
           | None \<Rightarrow>
               (case record_write_begin need r of (rc, p) \<Rightarrow>
                  if rc \<noteq> 0 then (mb, rc)
                  else (mb\<lparr>mb_write := Some p, write_size := need, write_off := 0\<rparr>, 0)))
      in if rc \<noteq> 0 then (mb1, r, Inl rc)
         else
          (let old = the (mb_write mb1);
               frame = old + unat (write_off mb1);
               more = unat (write_size mb1) < unat (write_off mb1) + sizeof_frameheader + unat sz;
               (mb2, r2, rc2) =
                 (if more
                  then (case record_write_begin (write_off mb1 + need) r of (rc, p) \<Rightarrow>
                          if rc \<noteq> 0 then (mb1, r, rc)
                          else (mb1\<lparr>mb_write := Some p, write_size := write_off mb1 + need\<rparr>,
                                if old \<noteq> p then r\<lparr>buf := copy_bytes (buf r) p old (unat (write_off mb1))\<rparr> else r, 0))
                  else (mb1, r, 0))
           in if rc2 \<noteq> 0 then (mb2, r2, Inl rc2)
              else (mb2, frame_set_flags frame flags (frame_set_size frame sz r2), Inr (frame + sizeof_frameheader))))"

text \<open>\<open>frame_write_end\<close> counts its offset in frame headers instead of bytes.\<close>

definition frame_write_end :: "u32 \<Rightarrow> msgbuffer \<Rightarrow> ringheader \<Rightarrow> msgbuffer \<times> ringheader \<times> int" where
  "frame_write_end sz mb r =
     (case mb_write mb of
        None \<Rightarrow> (mb, r, EINVAL)
      | Some p \<Rightarrow>
          (let frame = p + sizeof_frameheader * unat (write_off mb);
               r1 = frame_set_size frame sz r
           in (mb\<lparr>write_off := write_off mb + 8 + frame_size frame r1\<rparr>, r1, 0)))"

definition frame_write :: "u8 list \<Rightarrow> u32 \<Rightarrow> msgbuffer \<Rightarrow> ringheader \<Rightarrow> msgbuffer \<times> ringheader \<times> int" where
  "frame_write data flags mb r =
     (case frame_write_begin (of_nat (length data)) flags mb r of
        (mb1, r1, Inl rc) \<Rightarrow> (mb1, r1, rc)
      | (mb1, r1, Inr ptr) \<Rightarrow>
          frame_write_end (of_nat (length data)) mb1 (r1\<lparr>buf := write_bytes (buf r1) ptr data\<rparr>))"

text \<open>\<open>frame_writev\<close>: a vector is the data with their flags.\<close>

definition frame_writev :: "u8 list \<times> u32 \<Rightarrow> msgbuffer \<Rightarrow> ringheader \<Rightarrow> msgbuffer \<times> ringheader \<times> int" where
  "frame_writev rv mb r = frame_write (fst rv) (snd rv) mb r"

text \<open>A NULL pointer is no data area, so it is not the start of the storage.\<close>

definition msg_write_flush :: "msgbuffer \<Rightarrow> ringheader \<Rightarrow> msgbuffer \<times> ringheader \<times> int" where
  "msg_write_flush mb r =
     (mb\<lparr>mb_write := None\<rparr>,
      record_write_end (case mb_write mb of None \<Rightarrow> 0 | Some p \<Rightarrow> p) (write_off mb) r, 0)"

definition msg_write_abort :: "msgbuffer \<Rightarrow> msgbuffer \<times> int" where
  "msg_write_abort mb = (mb\<lparr>mb_write := None\<rparr>, 0)"

section \<open>Reading\<close>

definition frame_read :: "msgbuffer \<Rightarrow> ringheader \<Rightarrow> msgbuffer \<times> (int + (nat \<times> u32 \<times> u32))" where
  "frame_read mb r =
     (let (mb1, rc) = (case mb_read mb of
             Some p \<Rightarrow> (mb, 0)
           | None \<Rightarrow>
               (case record_read r of
                  None \<Rightarrow> (mb, EAGAIN)
                | Some (p, n) \<Rightarrow> (mb\<lparr>mb_read := Some p, read_size := n, read_off := 0\<rparr>, 0)))
      in if rc \<noteq> 0 then (mb1, Inl rc)
         else if read_off mb1 = read_size mb1 then (mb1, Inl EAGAIN)
         else
          (let frame = the (mb_read mb1) + unat (read_off mb1)
           in (mb1, Inr (frame + sizeof_frameheader, frame_size frame r, frame_flags frame r))))"

definition frame_readv :: "msgbuffer \<Rightarrow> ringheader \<Rightarrow> msgbuffer \<times> (int + (nat \<times> u32 \<times> u32))" where
  "frame_readv mb r = frame_read mb r"

definition frame_shift :: "msgbuffer \<Rightarrow> ringheader \<Rightarrow> msgbuffer \<times> int" where
  "frame_shift mb r =
     (case mb_read mb of
        None \<Rightarrow> (mb, EINVAL)
      | Some p \<Rightarrow>
          if read_off mb = read_size mb then (mb, EINVAL)
          else (mb\<lparr>read_off := read_off mb + 8 + frame_size (p + unat (read_off mb)) r\<rparr>, 0))"

definition msg_read_flush :: "msgbuffer \<Rightarrow> ringheader \<Rightarrow> msgbuffer \<times> ringheader \<times> int" where
  "msg_read_flush mb r =
     (case mb_read mb of
        None \<Rightarrow> (mb, r, EINVAL)
      | Some p \<Rightarrow> (case record_shift r of (r1, rc) \<Rightarrow> (mb\<lparr>mb_read := None\<rparr>, r1, rc)))"

definition msg_read_abort :: "msgbuffer \<Rightarrow> msgbuffer \<times> int" where
  "msg_read_abort mb = (if mb_read mb = None then (mb, EINVAL) else (mb\<lparr>mb_read := None\<rparr>, 0))"

section \<open>Frames as bytes\<close>

fun le_bytes :: "nat \<Rightarrow> nat \<Rightarrow> u8 list" where
  "le_bytes 0 v = []"
| "le_bytes (Suc n) v = of_nat (v mod 256) # le_bytes n (v div 256)"

type_synonym frame = "u8 list \<times> u32"

definition frame_bytes :: "frame \<Rightarrow> u8 list" where
  "frame_bytes f = le_bytes 4 (length (fst f)) @ le_bytes 4 (unat (snd f)) @ fst f"

definition msg_bytes :: "frame list \<Rightarrow> u8 list" where
  "msg_bytes fs = concat (map frame_bytes fs)"

lemma length_le_bytes [simp]: "length (le_bytes n v) = n"
  by (induction n arbitrary: v) auto

lemma length_frame_bytes [simp]: "length (frame_bytes f) = 8 + length (fst f)"
  by (simp add: frame_bytes_def)

lemma write_bytes_append:
  "write_bytes (write_bytes m a xs) (a + length xs) ys = write_bytes m a (xs @ ys)"
  by (rule ext) (auto simp: write_bytes_def nth_append)

lemma write_bytes_Cons: "write_bytes m a (x # xs) = write_bytes (m(a := x)) (Suc a) xs"
  by (rule ext) (auto simp: write_bytes_def nth_Cons')

lemma put_le_bytes: "put_le m a n v = write_bytes m a (le_bytes n v)"
proof (induction m a n v rule: put_le.induct)
  case (1 m a v)
  show ?case by (auto simp: write_bytes_def fun_eq_iff)
qed (simp add: write_bytes_Cons fun_upd_def)

lemma write_bytes_twice:
  "length xs = length ys \<Longrightarrow> write_bytes (write_bytes m a xs) a ys = write_bytes m a ys"
  by (rule ext) (auto simp: write_bytes_def)

lemma write_bytes_prefix:
  "write_bytes (write_bytes m a (xs @ ys)) a xs = write_bytes m a (xs @ ys)"
  by (rule ext) (auto simp: write_bytes_def nth_append)

lemma get_le_bytes:
  assumes "read_bytes m a (length (xs @ le_bytes n v @ ys)) = xs @ le_bytes n v @ ys"
  shows "get_le m (a + length xs) n = v mod 256 ^ n"
proof -
  let ?l = "le_bytes n v"
  have "read_bytes m (a + length xs) n = ?l"
  proof (rule nth_equalityI)
    fix i assume i: "i < length (read_bytes m (a + length xs) n)"
    have "read_bytes m a (length (xs @ ?l @ ys)) ! (length xs + i) = ?l ! i"
      unfolding assms using i by (simp add: nth_append)
    then show "read_bytes m (a + length xs) n ! i = ?l ! i"
      using i by (simp add: read_bytes_def add.assoc)
  qed simp
  then have "write_bytes m (a + length xs) ?l b = m b" for b
    by (auto simp: write_bytes_def read_bytes_def dest: arg_cong [of _ _ "\<lambda>zs. zs ! (b - (a + length xs))"])
  then have "put_le m (a + length xs) n v = m" by (simp add: put_le_bytes fun_eq_iff)
  then show ?thesis using get_put_same [of m "a + length xs" n v] by simp
qed

section \<open>One frame\<close>

lemma frame_word: "unat (of_nat n :: u32) = n" if "n < 2 ^ 32" for n
  using that by (intro of_nat_inverse [OF refl]) simp

text \<open>A message of one frame is the record of its bytes.\<close>

lemma frame_write_flush:
  assumes mb: "mb_write mb = None" and len: "length (fst f) + 19 < 2 ^ 32"
    and w: "frame_write (fst f) (snd f) mb r = (mb1, r1, rc)"
  shows "(rc = snd (record_write (frame_bytes f) r)) \<and>
    (rc = 0 \<longrightarrow> fst (snd (msg_write_flush mb1 r1)) = fst (record_write (frame_bytes f) r)) \<and>
    (rc \<noteq> 0 \<longrightarrow> mb1 = mb \<and> r1 = r)"
proof -
  obtain data flags where f: "f = (data, flags)" by fastforce
  let ?n = "of_nat (length data) :: u32" and ?x = "frame_bytes f"
  have n: "unat ?n = length data" using len f by (intro frame_word) simp
  have n8: "unat (?n + 8) = length data + 8"
    using frame_word [of "length data + 8"] len f by simp
  have sz: "of_nat (length ?x) = ?n + 8" by (simp add: f add.commute)
  obtain e p where b: "record_write_begin (?n + 8) r = (e, p)" by fastforce
  show ?thesis
  proof (cases "e = 0")
    case False
    then show ?thesis using w b mb sz by (auto simp: f frame_write_def frame_write_begin_def record_write_def Let_def add.commute)
  next
    case True
    let ?b = "put_le (put_le (buf r) p 4 (length data)) (p + 4) 4 (unat flags)"
    have x: "write_bytes ?b (p + 8) data = write_bytes (buf r) p ?x"
      using write_bytes_append [of "buf r" p "le_bytes 4 (length data)" "le_bytes 4 (unat flags)"]
        write_bytes_append [of "buf r" p "le_bytes 4 (length data) @ le_bytes 4 (unat flags)" data]
      by (simp add: put_le_bytes frame_bytes_def f)
    have x': "put_le (write_bytes (buf r) p ?x) p 4 (length data) = write_bytes (buf r) p ?x"
      by (simp add: put_le_bytes frame_bytes_def f write_bytes_prefix)
    have g: "get_le (write_bytes (buf r) p ?x) p 4 = length data"
      using get_put_same [of "write_bytes (buf r) p ?x" p 4 "length data"] len f unfolding x' by simp
    have "frame_write_begin ?n flags mb r =
        (mb\<lparr>mb_write := Some p, write_size := ?n + 8, write_off := 0\<rparr>, r\<lparr>buf := ?b\<rparr>, Inr (p + 8))"
      using True b mb n n8
      by (simp add: frame_write_begin_def frame_set_size_def frame_set_flags_def sizeof_frameheader_def Let_def)
    then have "frame_write data flags mb r =
        (mb\<lparr>mb_write := Some p, write_size := ?n + 8, write_off := ?n + 8\<rparr>, r\<lparr>buf := write_bytes (buf r) p ?x\<rparr>, 0)"
      by (simp add: frame_write_def frame_write_end_def frame_set_size_def frame_size_def x x' g n Let_def add.commute)
    then show ?thesis using w True b sz by (auto simp: f record_write_def msg_write_flush_def Let_def add.commute)
  qed
qed

section \<open>Reading a message\<close>

text \<open>What a reader does with a message: read and shift until nothing is left.\<close>

fun read_frames :: "nat \<Rightarrow> msgbuffer \<Rightarrow> ringheader \<Rightarrow> msgbuffer \<times> frame list" where
  "read_frames 0 mb r = (mb, [])"
| "read_frames (Suc n) mb r =
     (case frame_read mb r of
        (mb1, Inl rc) \<Rightarrow> (mb1, [])
      | (mb1, Inr (p, sz, flags)) \<Rightarrow>
          (case read_frames n (fst (frame_shift mb1 r)) r of
             (mb2, fs) \<Rightarrow> (mb2, (read_bytes (buf r) p (unat sz), flags) # fs)))"

lemma frame_at:
  assumes rb: "read_bytes (buf r) p (length x) = x" and x: "x = msg_bytes pre @ frame_bytes f @ rest"
    and len: "length x < 2 ^ 31"
  defines "a \<equiv> p + length (msg_bytes pre)"
  shows "frame_size a r = of_nat (length (fst f))" "frame_flags a r = snd f"
    "read_bytes (buf r) (a + 8) (length (fst f)) = fst f"
proof -
  let ?l = "le_bytes 4 (length (fst f))" and ?m = "le_bytes 4 (unat (snd f))" and ?pre = "msg_bytes pre"
  have x1: "x = ?pre @ ?l @ ?m @ fst f @ rest" by (simp add: x frame_bytes_def)
  have x2: "x = (?pre @ ?l) @ ?m @ fst f @ rest" by (simp add: x1)
  have "get_le (buf r) (p + length ?pre) 4 = length (fst f) mod 256 ^ 4"
    using rb unfolding x1 by (rule get_le_bytes)
  moreover have "length (fst f) < 2 ^ 31" using len x by simp
  ultimately show "frame_size a r = of_nat (length (fst f))" by (simp add: frame_size_def a_def)
  have "get_le (buf r) (p + length (?pre @ ?l)) 4 = unat (snd f) mod 256 ^ 4"
    using rb unfolding x2 by (rule get_le_bytes)
  then show "frame_flags a r = snd f" by (simp add: frame_flags_def a_def add.assoc word_of_nat_mod)
  show "read_bytes (buf r) (a + 8) (length (fst f)) = fst f"
  proof (rule nth_equalityI)
    fix i assume i: "i < length (read_bytes (buf r) (a + 8) (length (fst f)))"
    have "read_bytes (buf r) p (length x) ! (length ?pre + 8 + i) = fst f ! i"
      unfolding rb unfolding x1 using i by (simp add: nth_append)
    then show "read_bytes (buf r) (a + 8) (length (fst f)) ! i = fst f ! i"
      using i by (simp add: read_bytes_def a_def x1 add.assoc)
  qed simp
qed

lemma read_frames_from:
  assumes "read_bytes (buf r) p (length x) = x" "length x < 2 ^ 31" "x = msg_bytes pre @ msg_bytes fs"
    and "mb_read mb = Some p" "read_size mb = of_nat (length x)" "read_off mb = of_nat (length (msg_bytes pre))"
  shows "read_frames (Suc (length fs)) mb r = (mb\<lparr>read_off := of_nat (length x)\<rparr>, fs)"
  using assms
proof (induction fs arbitrary: pre mb)
  case Nil
  then have "read_off mb = of_nat (length x)" by (simp add: msg_bytes_def)
  then show ?case using Nil.prems(4,5) by (simp add: frame_read_def)
next
  case (Cons f fs)
  have xs: "x = msg_bytes pre @ frame_bytes f @ msg_bytes fs" using Cons.prems(3) by (simp add: msg_bytes_def)
  have lt: "length (msg_bytes pre) < length x" "length x < 2 ^ 32" using xs Cons.prems(2) by simp_all
  have ne: "(of_nat (length (msg_bytes pre)) :: u32) \<noteq> of_nat (length x)"
    using frame_word [of "length (msg_bytes pre)"] frame_word [of "length x"] lt by auto
  note fr = frame_at [OF Cons.prems(1) xs Cons.prems(2)]
  have off: "unat (of_nat (length (msg_bytes pre)) :: u32) = length (msg_bytes pre)"
    using lt by (intro frame_word) simp
  have sz: "unat (of_nat (length (fst f)) :: u32) = length (fst f)" using lt xs by (intro frame_word) simp
  let ?mb = "mb\<lparr>read_off := of_nat (length (msg_bytes (pre @ [f])))\<rparr>"
  have "read_frames (Suc (length fs)) ?mb r = (?mb\<lparr>read_off := of_nat (length x)\<rparr>, fs)"
    by (rule Cons.IH [where pre = "pre @ [f]"]) (use Cons.prems xs in \<open>simp_all add: msg_bytes_def\<close>)
  moreover have "frame_shift mb r = (?mb, 0)"
    using Cons.prems(4-6) ne off fr(1) by (simp add: frame_shift_def msg_bytes_def add.assoc)
  moreover have "frame_read mb r = (mb, Inr (p + length (msg_bytes pre) + 8, of_nat (length (fst f)), snd f))"
    using Cons.prems(4-6) ne off fr(1,2) by (simp add: frame_read_def sizeof_frameheader_def)
  ultimately show ?case using fr(3) sz by simp
qed

lemma read_message:
  assumes rep: "ring_rep r (msg_bytes fs # xs)" and mb: "mb_read mb = None"
  shows "\<exists>mb1 mb2 r'. read_frames (Suc (length fs)) mb r = (mb1, fs) \<and>
    msg_read_flush mb1 r = (mb2, r', 0) \<and> mb_read mb2 = None \<and> ring_rep r' xs"
proof -
  let ?x = "msg_bytes fs"
  obtain p where p: "record_read r = Some (p, of_nat (length ?x))" "read_bytes (buf r) p (length ?x) = ?x"
    "p + length ?x \<le> unat (rsize r)" using record_read_first [OF rep] by blast
  have len: "length ?x < 2 ^ 31" using p(3) rep by (simp add: ring_rep_def ring_ok_def)
  let ?mb = "mb\<lparr>mb_read := Some p, read_size := of_nat (length ?x), read_off := 0\<rparr>"
  have "frame_read mb r = frame_read ?mb r" using mb p(1) by (simp add: frame_read_def)
  then have "read_frames (Suc n) mb r = read_frames (Suc n) ?mb r" for n by simp
  moreover have "read_frames (Suc (length fs)) ?mb r = (?mb\<lparr>read_off := of_nat (length ?x)\<rparr>, fs)"
    by (rule read_frames_from [where pre = "[]", OF p(2) len]) (simp_all add: msg_bytes_def)
  ultimately have "read_frames (Suc (length fs)) mb r = (?mb\<lparr>read_off := of_nat (length ?x)\<rparr>, fs)" by simp
  then show ?thesis using record_shift_first [OF rep] by (fastforce simp: msg_read_flush_def)
qed

section \<open>A channel of one-frame messages\<close>

text \<open>A writer and a reader on one ring: send a frame as a message, look at the next one, drop it.\<close>

type_synonym channel = "msgbuffer \<times> msgbuffer \<times> ringheader"

fun send_frame :: "frame \<Rightarrow> channel \<Rightarrow> channel \<times> int" where
  "send_frame f (w, m, r) =
     (case frame_writev f w r of
        (w1, r1, rc) \<Rightarrow>
          if rc \<noteq> 0 then ((w1, m, r1), rc)
          else case msg_write_flush w1 r1 of (w2, r2, rc2) \<Rightarrow> ((w2, m, r2), rc2))"

fun peek_frame :: "channel \<Rightarrow> frame option" where
  "peek_frame (w, m, r) =
     (case snd (frame_readv m r) of
        Inl rc \<Rightarrow> None
      | Inr (p, sz, flags) \<Rightarrow> Some (read_bytes (buf r) p (unat sz), flags))"

fun drop_msg :: "channel \<Rightarrow> channel \<times> int" where
  "drop_msg (w, m, r) =
     (case msg_read_flush (fst (frame_read m r)) r of (m1, r1, rc) \<Rightarrow> ((w, m1, r1), rc))"

fun channel_rep :: "channel \<Rightarrow> frame list \<Rightarrow> bool" where
  "channel_rep (w, m, r) fs \<longleftrightarrow> mb_write w = None \<and> mb_read m = None \<and> ring_rep r (map frame_bytes fs)"

lemma send_frame_rep:
  assumes rep: "channel_rep q fs" and len: "length (fst f) + 19 < 2 ^ 32" and s: "send_frame f q = (q', rc)"
  shows "rc = 0 \<and> channel_rep q' (fs @ [f]) \<or> rc \<noteq> 0 \<and> q' = q"
proof -
  obtain w m r where q: "q = (w, m, r)" by (cases q)
  obtain w1 r1 rc1 where fw: "frame_write (fst f) (snd f) w r = (w1, r1, rc1)" by (metis prod_cases3)
  have wr: "mb_write w = None" "mb_read m = None" "ring_rep r (map frame_bytes fs)" using rep q by auto
  note e = frame_write_flush [OF wr(1) len fw]
  obtain r' rcr where rw: "record_write (frame_bytes f) r = (r', rcr)" by fastforce
  have "length (frame_bytes f) + 11 < 2 ^ 32" using len by simp
  note rr = record_write_rep [OF wr(3) this rw]
  show ?thesis
  proof (cases "rc1 = 0")
    case True
    then have "rcr = 0" "fst (snd (msg_write_flush w1 r1)) = r'" using e rw by auto
    moreover have "ring_rep r' (map frame_bytes (fs @ [f]))" using rr \<open>rcr = 0\<close> by auto
    ultimately show ?thesis using True fw s q wr(2) by (auto simp: frame_writev_def msg_write_flush_def)
  next
    case False
    then show ?thesis using e fw s q by (auto simp: frame_writev_def)
  qed
qed

lemma read_first:
  assumes "ring_rep r (frame_bytes f # xs)" "mb_read m = None"
  shows "\<exists>m1. frame_read m r = (m1, Inr (the (mb_read m1) + 8, of_nat (length (fst f)), snd f)) \<and> mb_read m1 \<noteq> None \<and>
    read_bytes (buf r) (the (mb_read m1) + 8) (length (fst f)) = fst f \<and> length (fst f) < 2 ^ 31"
proof -
  let ?x = "frame_bytes f"
  obtain p where p: "record_read r = Some (p, of_nat (length ?x))" "read_bytes (buf r) p (length ?x) = ?x"
    "p + length ?x \<le> unat (rsize r)" using record_read_first [OF assms(1)] by blast
  have len: "length ?x < 2 ^ 31" using p(3) assms(1) by (simp add: ring_rep_def ring_ok_def)
  have ne: "(of_nat (length ?x) :: u32) \<noteq> 0" using frame_word [of "length ?x"] len by auto
  have x: "?x = msg_bytes [] @ ?x @ []" by (simp add: msg_bytes_def)
  note fr = frame_at [OF p(2) x len, simplified msg_bytes_def list.map concat.simps list.size add_0_right]
  show ?thesis using assms(2) p(1) ne fr len
    by (intro exI [of _ "m\<lparr>mb_read := Some p, read_size := of_nat (length ?x), read_off := 0\<rparr>"])
      (simp add: frame_read_def sizeof_frameheader_def)
qed

interpretation channel: message_queue channel_rep send_frame peek_frame drop_msg "\<lambda>f. length (fst f) + 19 < 2 ^ 32"
proof unfold_locales
  show "rc = 0 \<and> channel_rep q' (xs @ [x]) \<or> rc \<noteq> 0 \<and> q' = q"
    if "channel_rep q xs" "length (fst x) + 19 < 2 ^ 32" "send_frame x q = (q', rc)" for q xs x q' rc
    using that by (rule send_frame_rep)
  show "peek_frame q = None" "snd (drop_msg q) \<noteq> 0 \<and> fst (drop_msg q) = q" if "channel_rep q []" for q
    using that record_read_empty by (cases q; auto simp: frame_readv_def frame_read_def msg_read_flush_def)+
  show "peek_frame q = Some x" "snd (drop_msg q) = 0 \<and> channel_rep (fst (drop_msg q)) xs"
    if rep: "channel_rep q (x # xs)" for q x xs
  proof -
    obtain w m r where q: "q = (w, m, r)" by (cases q)
    have wr: "mb_write w = None" "mb_read m = None" "ring_rep r (frame_bytes x # map frame_bytes xs)" using rep q by auto
    obtain m1 where m1: "frame_read m r = (m1, Inr (the (mb_read m1) + 8, of_nat (length (fst x)), snd x))"
      "mb_read m1 \<noteq> None" "read_bytes (buf r) (the (mb_read m1) + 8) (length (fst x)) = fst x" "length (fst x) < 2 ^ 31"
      using read_first [OF wr(3,2)] by blast
    have "unat (of_nat (length (fst x)) :: u32) = length (fst x)" using m1(4) by (intro frame_word) simp
    then show "peek_frame q = Some x" using m1 by (simp add: q frame_readv_def)
    show "snd (drop_msg q) = 0 \<and> channel_rep (fst (drop_msg q)) xs"
      using m1(1,2) record_shift_first [OF wr(3)] wr(1,2) by (auto simp: q msg_read_flush_def)
  qed
qed

section \<open>Properties\<close>

text \<open>C26: messages of one frame travel through a shared record ring as through a FIFO queue: whatever
  the order in which a writer sends frames and a reader takes them, the frames the reader has got
  are, with their flags, the frames that were accepted, in order, and the rest is still in the
  ring. A frame that is refused leaves the ring as it was.\<close>

theorem multiframe_fifo:
  assumes "channel_rep q fs" "\<forall>f. Put f \<in> set ops \<longrightarrow> length (fst f) + 19 < 2 ^ 32"
    "run_queue send_frame peek_frame drop_msg ops q = (q', acc, got)"
  shows "\<exists>gs. channel_rep q' gs \<and> fs @ acc = got @ gs"
  using assms by (rule channel.fifo)

definition demo_channel :: channel where
  "demo_channel = (msgbuffer_init, msgbuffer_init, demo_ring)"

theorem multiframe_fifo_witness:
  "\<exists>q' acc got gs. run_queue send_frame peek_frame drop_msg [Put ([1, 2], 7), Get] demo_channel = (q', acc, got) \<and>
     channel_rep q' gs \<and> [] @ acc = got @ gs"
proof -
  have "channel_rep demo_channel []" using demo_ring_rep by (simp add: demo_channel_def msgbuffer_init_def)
  moreover obtain q' acc got where
    "run_queue send_frame peek_frame drop_msg [Put ([1, 2], 7), Get] demo_channel = (q', acc, got)"
    by (metis prod_cases3)
  ultimately show ?thesis using multiframe_fifo [of demo_channel "[]" "[Put ([1, 2], 7), Get]"] by auto
qed

text \<open>C36: reading a message of any number of frames returns exactly its frames, with their data and
  flags and in order, then reports the end, and flushing the message removes the whole record and
  leaves the messages behind it.\<close>

theorem multiframe_read_message:
  assumes "ring_rep r (msg_bytes fs # xs)" "mb_read mb = None"
  shows "\<exists>mb1 mb2 r'. read_frames (Suc (length fs)) mb r = (mb1, fs) \<and>
    msg_read_flush mb1 r = (mb2, r', 0) \<and> mb_read mb2 = None \<and> ring_rep r' xs"
  using assms by (rule read_message)

theorem multiframe_read_message_witness:
  "\<exists>r mb1. ring_rep r [msg_bytes [([1], 0), ([2, 3], 1)]] \<and>
     read_frames 3 msgbuffer_init r = (mb1, [([1], 0), ([2, 3], 1)])"
proof -
  let ?fs = "[([1], 0), ([2, 3], 1)] :: frame list"
  let ?w = "record_write (msg_bytes ?fs) demo_ring"
  have l: "length (msg_bytes ?fs) = 19" by (simp add: msg_bytes_def)
  have "align_up 23 8 = 24" by (simp add: align_up_def)
  then have "snd ?w = 0"
    using record_write_space_ok [OF demo_ring_rep, of "msg_bytes ?fs"] demo_ring_fields
    by (simp add: l ring_free_def)
  then have "ring_rep (fst ?w) [msg_bytes ?fs]"
    using record_write_rep [OF demo_ring_rep _ prod.collapse [symmetric, of ?w]] l by auto
  then show ?thesis
    using multiframe_read_message [of "fst ?w" ?fs "[]" msgbuffer_init]
    by (auto simp: msgbuffer_init_def numeral_3_eq_3)
qed

section \<open>Messages of several frames\<close>

text \<open>
  The offset that \<open>frame_write_end\<close> scales by the size of a header is 0 only for
  the first frame. In a ring of 128 bytes with one unread record behind the
  writer, sending a second frame stores its size into that record.
\<close>

definition unread_ring :: ringheader where
  "unread_ring = blank_ring\<lparr>rsize := 128, head := 72, buf := put_le (\<lambda>_. 0) 72 4 52\<rparr>"

lemma read_zeros: "(\<And>a. p \<le> a \<Longrightarrow> m a = 0) \<Longrightarrow> read_bytes m p n = replicate n 0"
  by (rule nth_equalityI) (auto simp: read_bytes_def)

lemma read_bytes_Suc: "read_bytes m p (Suc n) = m p # read_bytes m (Suc p) n"
  by (simp add: read_bytes_def upt_conv_Cons del: upt_Suc)

lemma unread_begin:
  assumes "rsize r = 128" "head r = 72" "\<forall>a\<ge>72. buf r a = buf unread_ring a"
  shows "record_write_begin 9 r = (0, 4)" "record_write_begin 18 r = (0, 4)" "tail r = 0"
proof -
  have "buf r a = 0" if "128 \<le> a" for a
    using assms(3) that by (simp add: unread_ring_def put_le_outside)
  then show "tail r = 0"
    by (simp add: tail_def trailer_at_def assms(1) get_le_4 RTAPI_CACHE_ALIGN_def RTAPI_ALIGN32_def CACHELINE_def)
  then show "record_write_begin 9 r = (0, 4)" "record_write_begin 18 r = (0, 4)"
    using assms(1,2) by (simp_all add: record_write_begin_def size_aligned_def RTAPI_ALIGN32_def RB_ALIGN_def)
qed

lemma two_frames_overwrite:
  assumes "frame_write [5] 0 msgbuffer_init unread_ring = (mb1, r1, rc1)" "frame_write [6] 0 mb1 r1 = (mb2, r2, rc2)"
  shows "record_get unread_ring = Some (replicate 52 0)" "rc1 = 0" "rc2 = 0"
    "record_get r2 = Some (1 # replicate 51 0)"
proof -
  have u: "rsize unread_ring = 128" "head unread_ring = 72" "buf unread_ring = put_le (\<lambda>_. 0) 72 4 52"
    by (simp_all add: unread_ring_def)
  let ?mb = "msgbuffer_init\<lparr>mb_write := Some 4, write_size := 9, write_off := 9\<rparr>"
  let ?b1 = "put_le (write_bytes (put_le (put_le (buf unread_ring) 4 4 1) 8 4 0) 12 [5]) 4 4 1"
  have g: "get_le (put_le m a 4 (Suc 0)) a 4 = 1" for m a using get_put_same [of m a 4 1] by simp
  have "frame_write [5] 0 msgbuffer_init unread_ring = (?mb, unread_ring\<lparr>buf := ?b1\<rparr>, 0)"
    using unread_begin(1) [OF u(1,2)]
    by (simp add: frame_write_def frame_write_begin_def frame_write_end_def msgbuffer_init_def frame_set_size_def
        frame_set_flags_def frame_size_def sizeof_frameheader_def g)
  then have 1: "mb1 = ?mb" "r1 = unread_ring\<lparr>buf := ?b1\<rparr>" "rc1 = 0" using assms(1) by simp_all
  have b1: "\<forall>a\<ge>72. ?b1 a = buf unread_ring a" by (simp add: put_le_outside write_bytes_outside)
  let ?b2 = "put_le (write_bytes (put_le (put_le ?b1 13 4 1) 17 4 0) 21 [6]) 76 4 1"
  have "frame_write [6] 0 mb1 r1 = (?mb\<lparr>write_size := 18, write_off := 18\<rparr>, unread_ring\<lparr>buf := ?b2\<rparr>, 0)"
    using unread_begin(2) [of r1] b1 u
    by (simp add: 1 frame_write_def frame_write_begin_def frame_write_end_def frame_set_size_def
        frame_set_flags_def frame_size_def sizeof_frameheader_def g)
  then have 2: "r2 = unread_ring\<lparr>buf := ?b2\<rparr>" "rc2 = 0" using assms(2) by simp_all
  show "rc1 = 0" "rc2 = 0" by fact+
  have rd: "record_get r = Some (read_bytes (buf r) 76 52)"
    if "rsize r = 128" "head r = 72" "\<forall>a\<ge>128. buf r a = 0" "get_le (buf r) 72 4 = 52" for r
  proof -
    have "tail r = 0" using that
      by (simp add: tail_def trailer_at_def get_le_4 RTAPI_CACHE_ALIGN_def RTAPI_ALIGN32_def CACHELINE_def)
    moreover have "size_at r 72 = 52" using size_at_eq [of r 72 52] that(4) by simp
    ultimately have "ring_read_at (Suc (Suc 0)) r 72 = Some (76, 52)" by simp
    then have "record_read r = Some (76, 52)" unfolding record_read_def numeral_2_eq_2 that(2) .
    then show ?thesis by (simp add: record_get_def)
  qed
  have z: "buf unread_ring a = 0" if "76 \<le> a" for a using that by (simp add: u put_le_outside)
  have s: "get_le (buf unread_ring) 72 4 = 52" using get_put_same [of "\<lambda>_. 0" 72 4 52] by (simp add: u)
  have "read_bytes (buf unread_ring) 76 52 = replicate 52 0" using z by (rule read_zeros)
  then show "record_get unread_ring = Some (replicate 52 0)" using rd [of unread_ring] u z s by simp
  have b2: "?b2 a = (if a = 76 then 1 else buf unread_ring a)" if a: "72 \<le> a" for a
  proof -
    have "le_bytes (Suc (Suc (Suc (Suc 0)))) 1 = [1, 0, 0, 0]" by simp
    then have le: "le_bytes 4 1 = [1, 0, 0, 0]" by (simp only: numeral_eq_Suc pred_numeral_simps BitM.simps One_nat_def)
    let ?m = "write_bytes (put_le (put_le ?b1 13 4 1) 17 4 0) 21 [6]"
    have m: "?m a = buf unread_ring a" using a b1 by (simp add: put_le_outside write_bytes_outside)
    have "put_le ?m 76 4 1 a = write_bytes ?m 76 [1, 0, 0, 0] a" unfolding put_le_bytes [of ?m] le ..
    also have "\<dots> = (if a = 76 then 1 else buf unread_ring a)"
    proof (cases "a < 80")
      case True
      then consider "a < 76" | "a = 76" | "a = 77" | "a = 78" | "a = 79" by linarith
      then show ?thesis using m z by cases (simp_all add: write_bytes_def)
    qed (use m in \<open>simp add: write_bytes_outside\<close>)
    finally show ?thesis .
  qed
  have "get_le ?b2 72 4 = 52" using get_le_cong [of 72 4 ?b2 "buf unread_ring"] b2 s by simp
  then have "record_get r2 = Some (read_bytes ?b2 76 52)" using rd [of r2] u b2 z by (simp add: 2)
  moreover have "read_bytes ?b2 76 (Suc 51) = 1 # replicate 51 0"
    unfolding read_bytes_Suc using b2 z by (subst read_zeros) simp_all
  moreover have "(52 :: nat) = Suc 51" by simp
  ultimately show "record_get r2 = Some (1 # replicate 51 0)" by (simp only:)
qed

end
