(* ===== verification/Stepgen.thy ===== *)
theory Stepgen
  imports Hal_Prelude
begin

text \<open>
  The software step generator (\<open>modules/managed/components/stepgen\<close>). The fast
  function \<open>make_pulses\<close> adds a value to an accumulator, starts a step whenever
  bit \<open>PICKOFF\<close> of it changes, and keeps three timers that delay a change of
  direction; \<open>update_freq\<close> validates the timing parameters and sets the value to
  add, \<open>update_pos\<close> reports the count. Pins and parameters are fields of a
  channel. \<open>accum\<close>, \<open>rawcount\<close> and the timers wrap at their width; \<open>addval\<close> and
  its limits are far inside a \<open>long\<close>. The control loop of \<open>update_freq\<close> is
  floating point: the value and the limit it computes are arguments.
\<close>

unbundle bit_operations_syntax

section \<open>A channel\<close>

definition to_u32 :: "int \<Rightarrow> int" where "to_u32 x = x mod 2 ^ 32"
definition to_u64 :: "int \<Rightarrow> int" where "to_u64 x = x mod 2 ^ 64"
definition to_s64 :: "int \<Rightarrow> int" where "to_s64 x = (x + 2 ^ 63) mod 2 ^ 64 - 2 ^ 63"

record stepgen =
  timer1 :: int
  timer2 :: int
  timer3 :: int
  hold_dds :: bool
  addval :: int
  accum :: int
  rawcount :: int
  curr_dir :: int
  sg_state :: int
  sg_enable :: bool
  target_addval :: int
  deltalim :: int
  step_len :: int
  dir_hold_dly :: int
  dir_setup :: int
  step_type :: int
  cycle_max :: int
  num_phases :: nat
  phase :: "bool list"
  lut :: "nat list"
  pos_mode :: bool
  step_space :: int
  sg_count :: int
  old_step_len :: int
  old_step_space :: int
  old_dir_hold_dly :: int
  old_dir_setup :: int

definition PICKOFF :: nat where "PICKOFF = 28"

definition master_lut :: "nat list list" where
  "master_lut =
    [[1, 3, 2, 0, 0, 0, 0, 0, 0, 0], [1, 2, 4, 0, 0, 0, 0, 0, 0, 0], [1, 3, 2, 6, 4, 5, 0, 0, 0, 0],
     [1, 2, 4, 8, 0, 0, 0, 0, 0, 0], [3, 6, 12, 9, 0, 0, 0, 0, 0, 0], [1, 7, 14, 8, 0, 0, 0, 0, 0, 0],
     [5, 6, 10, 9, 0, 0, 0, 0, 0, 0], [1, 3, 2, 6, 4, 12, 8, 9, 0, 0], [1, 5, 7, 6, 14, 10, 8, 9, 0, 0],
     [1, 2, 4, 8, 16, 0, 0, 0, 0, 0], [3, 6, 12, 24, 17, 0, 0, 0, 0, 0], [1, 3, 2, 6, 4, 12, 8, 24, 16, 17],
     [3, 7, 6, 14, 12, 28, 24, 25, 17, 19]]"

definition cycle_len_lut :: "nat list" where
  "cycle_len_lut = [4, 3, 6, 4, 4, 4, 4, 8, 8, 5, 5, 10, 10]"

definition num_phases_lut :: "nat list" where
  "num_phases_lut = [2, 3, 3, 4, 4, 4, 4, 4, 4, 5, 5, 5, 5]"

section \<open>The fast function\<close>

text \<open>A timer is an unsigned 32-bit number, the period a signed one of 64 bits.\<close>

definition countdown :: "int \<Rightarrow> int \<Rightarrow> int" where
  "countdown period t = (if t > 0 then (if t > period then to_u32 (t - period) else 0) else t)"

definition run_timers :: "int \<Rightarrow> stepgen \<Rightarrow> stepgen" where
  "run_timers period g =
     g\<lparr>timer1 := countdown period (timer1 g), timer2 := countdown period (timer2 g),
       timer3 := countdown period (timer3 g),
       hold_dds := (hold_dds g \<and> \<not> (timer3 g > 0 \<and> timer3 g \<le> period))\<rparr>"

definition ramp :: "stepgen \<Rightarrow> int" where
  "ramp g =
     (if deltalim g \<noteq> 0
      then if target_addval g > addval g + deltalim g then addval g + deltalim g
           else if target_addval g < addval g - deltalim g then addval g - deltalim g
           else target_addval g
      else target_addval g)"

definition update_addval :: "stepgen \<Rightarrow> stepgen" where
  "update_addval g =
     (if \<not> hold_dds g \<and> sg_enable g
      then let old = addval g; new = ramp g; g1 = g\<lparr>addval := new\<rparr>
           in if ((new \<ge> 0 \<and> old < 0) \<or> (new < 0 \<and> old \<ge> 0)) \<and> timer3 g \<noteq> 0
              then g1\<lparr>hold_dds := True\<rparr> else g1
      else g)"

text \<open>The result says whether a step begins.\<close>

definition update_dds :: "stepgen \<Rightarrow> stepgen \<times> bool" where
  "update_dds g =
     (if \<not> hold_dds g \<and> sg_enable g
      then let new = to_s64 (accum g + addval g)
           in (g\<lparr>accum := new, rawcount := to_s32 (drop_bit PICKOFF new)\<rparr>,
               (accum g XOR new) AND push_bit PICKOFF 1 \<noteq> 0)
      else (g, False))"

definition update_dir :: "stepgen \<Rightarrow> stepgen" where
  "update_dir g =
     (if timer2 g = 0
      then if addval g > 0 then g\<lparr>curr_dir := 1\<rparr> else if addval g < 0 then g\<lparr>curr_dir := - 1\<rparr> else g
      else g)"

definition start_step :: "stepgen \<Rightarrow> stepgen" where
  "start_step g =
     (let t1 = step_len g; t2 = to_u32 (t1 + dir_hold_dly g); t3 = to_u32 (t2 + dir_setup g);
          g1 = g\<lparr>timer1 := t1, timer2 := t2, timer3 := t3\<rparr>
      in if step_type g \<ge> 2
         then let st = sg_state g + curr_dir g
              in g1\<lparr>sg_state := (if st < 0 then cycle_max g else if st > cycle_max g then 0 else st)\<rparr>
         else g1)"

text \<open>The phase pins for the bits of a table entry.\<close>

definition phase_bits :: "nat \<Rightarrow> nat \<Rightarrow> bool list \<Rightarrow> bool list" where
  "phase_bits n outbits ps = map (\<lambda>p. if p < n then odd (outbits div 2 ^ p) else ps ! p) [0 ..< length ps]"

definition drive_pins :: "stepgen \<Rightarrow> stepgen" where
  "drive_pins g =
     (if step_type g = 0 then g\<lparr>phase := (phase g)[0 := timer1 g \<noteq> 0, 1 := curr_dir g < 0]\<rparr>
      else if step_type g = 1
      then g\<lparr>phase := (phase g)[0 := timer1 g \<noteq> 0 \<and> \<not> curr_dir g < 0, 1 := timer1 g \<noteq> 0 \<and> curr_dir g < 0]\<rparr>
      else g\<lparr>phase := phase_bits (num_phases g) (lut g ! nat (sg_state g)) (phase g)\<rparr>)"

definition make_pulse :: "int \<Rightarrow> stepgen \<Rightarrow> stepgen \<times> bool" where
  "make_pulse period g =
     (case update_dds (update_addval (run_timers period g)) of
        (g1, step_now) \<Rightarrow>
          (let g2 = update_dir g1 in (drive_pins (if step_now then start_step g2 else g2), step_now)))"

definition make_pulses :: "int \<Rightarrow> stepgen list \<Rightarrow> stepgen list" where
  "make_pulses period gs = map (\<lambda>g. fst (make_pulse period g)) gs"

section \<open>The slow functions\<close>

definition update_pos_chan :: "stepgen \<Rightarrow> stepgen" where
  "update_pos_chan g = g\<lparr>sg_count := to_s32 (drop_bit PICKOFF (accum g))\<rparr>"

definition ulceil :: "int \<Rightarrow> int \<Rightarrow> int" where
  "ulceil value increment = (if value = 0 then 0 else to_u64 (increment * ((value - 1) div increment + 1)))"

definition force_timing :: "stepgen \<Rightarrow> stepgen" where
  "force_timing g =
     g\<lparr>old_step_len := 2 ^ 32 - 1, old_step_space := 2 ^ 32 - 1, old_dir_hold_dly := 2 ^ 32 - 1,
       old_dir_setup := 2 ^ 32 - 1\<rparr>"

definition timing_params :: "int \<Rightarrow> stepgen \<Rightarrow> stepgen" where
  "timing_params periodns g =
     (let g1 = (if step_len g \<noteq> old_step_len g
                then let v = to_u32 (ulceil (if step_len g = 0 then 1 else step_len g) periodns)
                     in g\<lparr>old_step_len := v, step_len := v\<rparr>
                else g);
          g2 = (if step_space g1 \<noteq> old_step_space g1
                then let v = to_u32 (ulceil (step_space g1) periodns) in g1\<lparr>old_step_space := v, step_space := v\<rparr>
                else g1);
          g3 = (if dir_setup g2 \<noteq> old_dir_setup g2
                then let v = to_u32 (ulceil (dir_setup g2) periodns) in g2\<lparr>old_dir_setup := v, dir_setup := v\<rparr>
                else g2)
      in if dir_hold_dly g3 \<noteq> old_dir_hold_dly g3
         then let d = (if to_u32 (dir_hold_dly g3 + dir_setup g3) = 0 \<and> step_type g3 < 2 then 1 else dir_hold_dly g3);
                  v = to_u32 (ulceil d periodns)
              in g3\<lparr>old_dir_hold_dly := v, dir_hold_dly := v\<rparr>
         else g3)"

text \<open>The values computed in floating point for an enabled channel are the arguments \<open>target\<close> and \<open>limit\<close>.\<close>

definition update_freq_chan :: "bool \<Rightarrow> int \<Rightarrow> int \<Rightarrow> int \<Rightarrow> stepgen \<Rightarrow> stepgen" where
  "update_freq_chan newperiod periodns target limit g =
     (let g1 = timing_params periodns (if newperiod then force_timing g else g)
      in if \<not> sg_enable g1 then g1\<lparr>addval := 0, target_addval := 0\<rparr>
         else g1\<lparr>target_addval := target, deltalim := limit\<rparr>)"

section \<open>Configuration\<close>

datatype CONTROL = POSITION | VELOCITY | INVALID

definition parse_ctrl_type :: "string option \<Rightarrow> CONTROL" where
  "parse_ctrl_type ctrl =
     (case ctrl of
        None \<Rightarrow> POSITION
      | Some [] \<Rightarrow> POSITION
      | Some (c # _) \<Rightarrow>
          if c = CHR ''p'' \<or> c = CHR ''P'' then POSITION
          else if c = CHR ''v'' \<or> c = CHR ''V'' then VELOCITY else INVALID)"

text \<open>
  \<open>setup_user_step_type\<close>: the table row, the cycle length and the number of
  phases of the user-defined type, or an error. Entries are stored as bytes.
\<close>

definition setup_user_step_type :: "int list \<Rightarrow> int + (nat list \<times> nat \<times> nat)" where
  "setup_user_step_type user =
     (let us = takeWhile (\<lambda>u. u \<noteq> - 1) (take 10 user);
          row = map (\<lambda>u. nat (u mod 256)) us @ replicate (18 - length us) 0;
          used = foldr (OR) us 0
      in if used AND NOT 0x1f \<noteq> 0 then Inl (- EINVAL)
         else Inr (row, length us,
           if used AND 0x10 \<noteq> 0 then 5 else if used AND 0x8 \<noteq> 0 then 4 else if used AND 0x4 \<noteq> 0 then 3
           else if used AND 0x2 \<noteq> 0 then 2 else if used AND 0x1 \<noteq> 0 then 1 else 0))"

text \<open>The start values of \<open>export_stepgen\<close>; \<open>user\<close> is the row of the user-defined type 15.\<close>

definition export_stepgen :: "nat list \<times> nat \<times> nat \<Rightarrow> int \<Rightarrow> bool \<Rightarrow> stepgen" where
  "export_stepgen user type mode =
     (let i = nat (type - 2);
          (row, len, np) = (if i < 13 then (master_lut ! i, cycle_len_lut ! i, num_phases_lut ! i) else user)
      in \<lparr>timer1 = 0, timer2 = 0, timer3 = 0, hold_dds = False, addval = 0, accum = push_bit (PICKOFF - 1) 1,
          rawcount = 0, curr_dir = 0, sg_state = 0, sg_enable = False, target_addval = 0, deltalim = 0,
          step_len = 1, dir_hold_dly = 1, dir_setup = (if type = 0 then 1 else 0), step_type = type,
          cycle_max = (if type \<ge> 2 then int len - 1 else 0), num_phases = (if type \<ge> 2 then np else 0),
          phase = replicate 5 False, lut = (if type \<ge> 2 then row else []), pos_mode = mode,
          step_space = (if type < 2 then 1 else 0), sg_count = 0,
          old_step_len = 2 ^ 32 - 1, old_step_space = 2 ^ 32 - 1, old_dir_hold_dly = 2 ^ 32 - 1,
          old_dir_setup = 2 ^ 32 - 1\<rparr>)"

text \<open>
  The configuration checks of \<open>rtapi_app_main\<close>: the number of channels, or
  failure. \<open>types\<close> and \<open>ctrls\<close> are the module parameters of 16 channels.
\<close>

fun count_chans :: "(int \<times> string option) list \<Rightarrow> nat \<Rightarrow> int" where
  "count_chans [] n = (if n = 0 then - 1 else int n)"
| "count_chans ((t, c) # cs) n =
     (if t = - 1 then (if n = 0 then - 1 else int n)
      else if t > 15 \<or> t < 0 then - 1
      else if parse_ctrl_type c = INVALID then - 1
      else count_chans cs (n + 1))"

section \<open>The accumulator\<close>

lemma to_s64_cong: "to_s64 (to_s64 a + b) = to_s64 (a + b)"
proof -
  have "to_s64 a + b + 2 ^ 63 = (a + 2 ^ 63) mod 2 ^ 64 + b" by (simp add: to_s64_def)
  then have "(to_s64 a + b + 2 ^ 63) mod 2 ^ 64 = (a + 2 ^ 63 + b) mod 2 ^ 64"
    by (simp only: mod_add_left_eq)
  then show ?thesis by (simp add: to_s64_def algebra_simps)
qed

lemma to_s64_eq: obtains k where "to_s64 a = a + k * 2 ^ 64"
proof
  have "(a + 2 ^ 63) mod 2 ^ 64 = a + 2 ^ 63 - (a + 2 ^ 63) div 2 ^ 64 * 2 ^ 64"
    by (simp only: minus_div_mult_eq_mod [symmetric])
  then show "to_s64 a = a + (- ((a + 2 ^ 63) div 2 ^ 64)) * 2 ^ 64" by (simp add: to_s64_def)
qed

text \<open>The count that the accumulator stands for, without wrapping around.\<close>

definition steps :: "int \<Rightarrow> int" where "steps a = a div 2 ^ 28"

lemma steps_wrap:
  obtains k where "steps (to_s64 a) = steps a + k * 2 ^ 36"
proof -
  obtain k where k: "to_s64 a = a + k * 2 ^ 64" by (rule to_s64_eq)
  have "steps (to_s64 a) = (a + k * 2 ^ 36 * 2 ^ 28) div 2 ^ 28" by (simp add: steps_def k)
  also have "\<dots> = steps a + k * 2 ^ 36" unfolding steps_def by (subst div_mult_self1) simp_all
  finally show thesis by (rule that)
qed

lemma drop_PICKOFF: "drop_bit PICKOFF a = steps a" for a :: int
  by (simp add: steps_def PICKOFF_def drop_bit_eq_div)

lemma to_s32_cong: "to_s32 (a + k * 2 ^ 32) = to_s32 a"
proof -
  have "a + k * 2 ^ 32 + 2147483648 = (a + 2147483648) + k * 4294967296" by simp
  then show ?thesis unfolding to_s32_def by (simp only: mod_mult_self1)
qed

lemma rawcount_steps: "to_s32 (steps (to_s64 a)) = to_s32 (steps a)"
proof -
  obtain k where "steps (to_s64 a) = steps a + k * 2 ^ 36" by (rule steps_wrap)
  then have "steps (to_s64 a) = steps a + (k * 16) * 2 ^ 32" by simp
  then show ?thesis by (simp only: to_s32_cong)
qed

lemma bit_PICKOFF: "bit (to_s64 a) PICKOFF \<longleftrightarrow> odd (steps a)"
proof -
  obtain k where k: "steps (to_s64 a) = steps a + k * 2 ^ 36" by (rule steps_wrap)
  have "bit (to_s64 a) PICKOFF \<longleftrightarrow> odd (steps (to_s64 a))" by (simp add: bit_iff_odd steps_def PICKOFF_def)
  also have "\<dots> \<longleftrightarrow> odd (steps a)" unfolding k by simp
  finally show ?thesis .
qed

lemma step_bit: "(a XOR b) AND push_bit PICKOFF 1 \<noteq> 0 \<longleftrightarrow> bit a PICKOFF \<noteq> bit b PICKOFF" for a b :: int
  by (simp add: push_bit_eq_mult and_exp_eq_0_iff_not_bit bit_xor_iff)

lemma steps_move:
  assumes "\<bar>d\<bar> \<le> 2 ^ 28"
  shows "steps (a + d) = steps a \<or> steps (a + d) = steps a + sgn d"
proof -
  consider "d = 0" | "0 < d" "d \<le> 2 ^ 28" | "d < 0" "- (2 ^ 28) \<le> d" using assms by linarith
  then show ?thesis
  proof cases
    case 2
    then have "steps a \<le> steps (a + d)" "steps (a + d) \<le> steps (a + 2 ^ 28)"
      unfolding steps_def by (auto intro!: zdiv_mono1)
    moreover have "steps (a + 2 ^ 28) = steps a + 1" by (simp add: steps_def)
    ultimately show ?thesis using 2(1) by auto
  next
    case 3
    then have "steps (a + d) \<le> steps a" "steps (a - 2 ^ 28) \<le> steps (a + d)"
      unfolding steps_def by (auto intro!: zdiv_mono1)
    moreover have "steps (a - 2 ^ 28) = steps a - 1"
      using div_mult_self1 [of "2 ^ 28 :: int" a "- 1"] by (simp add: steps_def)
    ultimately show ?thesis using 3(1) by auto
  qed simp
qed

lemma step_now_iff:
  assumes "\<bar>d\<bar> \<le> 2 ^ 28"
  shows "(to_s64 a XOR to_s64 (a + d)) AND push_bit PICKOFF 1 \<noteq> 0 \<longleftrightarrow> steps (a + d) \<noteq> steps a"
  unfolding step_bit bit_PICKOFF using steps_move [OF assms, of a] by (auto simp: sgn_if split: if_splits)

section \<open>The invariant\<close>

definition dir_of :: "int \<Rightarrow> int" where "dir_of v = (if v < 0 then - 1 else 1)"

text \<open>The timing parameters are unsigned numbers and their sum does not wrap around.\<close>

definition timing_ok :: "stepgen \<Rightarrow> bool" where
  "timing_ok g \<longleftrightarrow> 0 \<le> step_len g \<and> 0 \<le> dir_hold_dly g \<and> 0 \<le> dir_setup g \<and>
     step_len g + dir_hold_dly g + dir_setup g < 2 ^ 32"

text \<open>
  \<open>pos\<close> is the position of a motor that has followed every step in the
  direction of the moment, without bound.
\<close>

definition stepgen_inv :: "stepgen \<times> int \<Rightarrow> bool" where
  "stepgen_inv gp = (case gp of (g, pos) \<Rightarrow>
     \<bar>addval g\<bar> \<le> 2 ^ 28 \<and> \<bar>target_addval g\<bar> \<le> 2 ^ 28 \<and> 0 \<le> deltalim g \<and>
     0 \<le> timer1 g \<and> timer1 g \<le> timer2 g \<and> timer2 g \<le> timer3 g \<and> timer3 g < 2 ^ 32 \<and>
     (hold_dds g \<longrightarrow> timer3 g \<noteq> 0) \<and>
     (timer3 g \<noteq> 0 \<and> \<not> hold_dds g \<longrightarrow> curr_dir g = dir_of (addval g)) \<and>
     (\<exists>a. accum g = to_s64 a \<and> pos = steps a) \<and> rawcount g = to_s32 pos \<and> length (phase g) = 5 \<and>
     (step_type g \<ge> 2 \<longrightarrow> num_phases g \<le> 5 \<and> 0 \<le> cycle_max g \<and> cycle_max g < int (length (lut g)) \<and> sg_state g = pos mod (cycle_max g + 1)))"

lemma countdown_mono: "0 \<le> t \<Longrightarrow> t \<le> u \<Longrightarrow> u < 2 ^ 32 \<Longrightarrow> 0 \<le> period \<Longrightarrow> countdown period t \<le> countdown period u"
  by (auto simp: countdown_def to_u32_def)

lemma countdown_bounds:
  "0 \<le> t \<Longrightarrow> t < 2 ^ 32 \<Longrightarrow> 0 \<le> period \<Longrightarrow>
     0 \<le> countdown period t \<and> countdown period t \<le> t \<and> t - period \<le> countdown period t \<and>
     (countdown period t = 0 \<longleftrightarrow> t \<le> period)"
  by (auto simp: countdown_def to_u32_def)

lemma ramp_bound:
  "\<bar>addval g\<bar> \<le> b \<Longrightarrow> \<bar>target_addval g\<bar> \<le> b \<Longrightarrow> 0 \<le> deltalim g \<Longrightarrow> \<bar>ramp g\<bar> \<le> b"
  by (auto simp: ramp_def)

section \<open>A cycle keeps the invariant\<close>

lemma run_timers_inv:
  assumes inv: "stepgen_inv (g, pos)" and p: "0 \<le> period"
  shows "stepgen_inv (run_timers period g, pos)"
proof -
  have t: "0 \<le> timer1 g" "timer1 g \<le> timer2 g" "timer2 g \<le> timer3 g" "timer3 g < 2 ^ 32"
    using inv by (simp_all add: stepgen_inv_def)
  let ?c = "countdown period"
  have c: "0 \<le> ?c (timer1 g)" "?c (timer1 g) \<le> ?c (timer2 g)" "?c (timer2 g) \<le> ?c (timer3 g)"
    "?c (timer3 g) < 2 ^ 32" "?c (timer3 g) = 0 \<longleftrightarrow> timer3 g \<le> period"
    using t p countdown_bounds [of "timer1 g" period] countdown_bounds [of "timer3 g" period]
      countdown_mono [of "timer1 g" "timer2 g" period] countdown_mono [of "timer2 g" "timer3 g" period] by auto
  show ?thesis using inv c t p by (auto simp: stepgen_inv_def run_timers_def)
qed

lemma update_addval_inv:
  assumes inv: "stepgen_inv (g, pos)"
  shows "stepgen_inv (update_addval g, pos)"
proof (cases "\<not> hold_dds g \<and> sg_enable g")
  case True
  have b: "\<bar>ramp g\<bar> \<le> 2 ^ 28" using inv by (intro ramp_bound) (simp_all add: stepgen_inv_def)
  show ?thesis
  proof (cases "((ramp g \<ge> 0 \<and> addval g < 0) \<or> (ramp g < 0 \<and> addval g \<ge> 0)) \<and> timer3 g \<noteq> 0")
    case rev: True
    then have "update_addval g = g\<lparr>addval := ramp g, hold_dds := True\<rparr>" using True by (simp add: update_addval_def Let_def)
    then show ?thesis using inv b rev by (simp add: stepgen_inv_def)
  next
    case False
    then have "update_addval g = g\<lparr>addval := ramp g\<rparr>" using True by (simp add: update_addval_def Let_def)
    then show ?thesis using inv b False True by (auto simp: stepgen_inv_def dir_of_def)
  qed
next
  case False
  then have "update_addval g = g" by (auto simp: update_addval_def)
  then show ?thesis using inv by simp
qed

text \<open>The rest of a cycle: accumulator, direction, timers and state.\<close>

lemma step_inv:
  assumes inv: "stepgen_inv (g, pos)" and ok: "timing_ok g" and d: "update_dds g = (g1, step_now)"
  defines "g2 \<equiv> update_dir g1"
  shows "stepgen_inv (if step_now then start_step g2 else g2, if step_now then pos + curr_dir g2 else pos)"
proof (cases "\<not> hold_dds g \<and> sg_enable g")
  case False
  then have "g1 = g" "\<not> step_now" using d by (auto simp: update_dds_def)
  then show ?thesis using inv by (auto simp: g2_def update_dir_def stepgen_inv_def dir_of_def)
next
  case True
  obtain a where a: "accum g = to_s64 a" "pos = steps a" using inv by (auto simp: stepgen_inv_def)
  let ?d = "addval g" and ?a = "a + addval g"
  have b: "\<bar>?d\<bar> \<le> 2 ^ 28" using inv by (simp add: stepgen_inv_def)
  have g1: "g1 = g\<lparr>accum := to_s64 ?a, rawcount := to_s32 (steps ?a)\<rparr>" and sn: "step_now \<longleftrightarrow> steps ?a \<noteq> steps a"
    using d True a step_now_iff [OF b, of a]
    by (auto simp: update_dds_def Let_def to_s64_cong drop_PICKOFF rawcount_steps)
  have t: "0 \<le> timer2 g" "timer2 g \<le> timer3 g" "timer3 g \<noteq> 0 \<Longrightarrow> curr_dir g = dir_of ?d"
    using inv True by (auto simp: stepgen_inv_def)
  have dir: "curr_dir g2 = sgn ?d" if "?d \<noteq> 0"
    using that t by (auto simp: g2_def g1 update_dir_def dir_of_def)
  have fr: "g2 = g1\<lparr>curr_dir := curr_dir g2\<rparr>" "timer3 g \<noteq> 0 \<Longrightarrow> curr_dir g2 = dir_of ?d"
    using t by (auto simp: g2_def g1 update_dir_def dir_of_def)
  show ?thesis
  proof (cases step_now)
    case False
    then have "steps ?a = pos" using sn a(2) by simp
    then have "stepgen_inv (g1\<lparr>curr_dir := curr_dir g2\<rparr>, pos)"
      using inv fr(2) True a(2) by (auto simp: stepgen_inv_def g1)
    then show ?thesis using False fr(1) by simp
  next
    case step: True
    then have mv: "steps ?a = pos + sgn ?d" and nz: "?d \<noteq> 0" using sn steps_move [OF b, of a] a(2) by auto
    have cd: "curr_dir g2 = sgn ?d" using dir [OF nz] .
    let ?g = "start_step g2"
    have f: "step_type g2 = step_type g" "sg_state g2 = sg_state g" "cycle_max g2 = cycle_max g"
      "step_len g2 = step_len g" "dir_hold_dly g2 = dir_hold_dly g" "dir_setup g2 = dir_setup g"
      by (subst fr(1); simp add: g1)+
    have tm: "timer1 ?g = step_len g" "timer2 ?g = step_len g + dir_hold_dly g"
      "timer3 ?g = step_len g + dir_hold_dly g + dir_setup g"
      using ok by (auto simp: start_step_def Let_def f timing_ok_def to_u32_def)
    have rest: "addval ?g = ?d" "target_addval ?g = target_addval g" "deltalim ?g = deltalim g"
      "hold_dds ?g = hold_dds g" "curr_dir ?g = sgn ?d" "accum ?g = to_s64 ?a" "rawcount ?g = to_s32 (steps ?a)"
      "step_type ?g = step_type g" "cycle_max ?g = cycle_max g" "lut ?g = lut g" "phase ?g = phase g"
      "num_phases ?g = num_phases g"
      unfolding start_step_def Let_def using cd
      by (simp_all, (subst fr(1); simp add: g1)+)
    have st: "sg_state ?g = (pos + sgn ?d) mod (cycle_max g + 1)" if "step_type g \<ge> 2"
    proof -
      let ?m = "cycle_max g + 1"
      have m: "0 \<le> cycle_max g" "sg_state g = pos mod ?m" using inv that by (auto simp: stepgen_inv_def)
      have "(pos + sgn ?d) mod ?m = (sg_state g + sgn ?d) mod ?m" by (simp add: m(2) mod_add_left_eq)
      moreover have "0 \<le> sg_state g" "sg_state g \<le> cycle_max g" 
        using m pos_mod_bound [of ?m pos] pos_mod_sign [of ?m pos] by linarith+
      moreover have "(sg_state g + sgn ?d) mod ?m =
          (let st = sg_state g + sgn ?d in if st < 0 then cycle_max g else if st > cycle_max g then 0 else st)"
        using calculation(2,3) nz m(1) zmod_minus1 [of ?m]
        by (cases "sg_state g = 0") (auto simp: Let_def sgn_if)
      moreover have "sg_state ?g = (let st = sg_state g + sgn ?d in if st < 0 then cycle_max g else if st > cycle_max g then 0 else st)"
        using that by (simp add: start_step_def Let_def f cd)
      ultimately show ?thesis by simp
    qed
    have "\<exists>x. accum ?g = to_s64 x \<and> pos + sgn ?d = steps x" using rest(6) mv by metis
    moreover have "\<bar>target_addval g\<bar> \<le> 2 ^ 28" "0 \<le> deltalim g" "length (phase g) = 5"
      "step_type g \<ge> 2 \<longrightarrow> num_phases g \<le> 5 \<and> 0 \<le> cycle_max g \<and> cycle_max g < int (length (lut g))"
      using inv by (simp_all add: stepgen_inv_def)
    moreover have "sgn ?d = dir_of ?d" using nz by (simp add: dir_of_def sgn_if)
    moreover have "0 \<le> timer1 ?g" "timer1 ?g \<le> timer2 ?g" "timer2 ?g \<le> timer3 ?g" "timer3 ?g < 2 ^ 32"
      using ok unfolding tm timing_ok_def by linarith+
    moreover have "rawcount ?g = to_s32 (pos + sgn ?d)" using rest(7) mv by simp
    ultimately have "stepgen_inv (?g, pos + sgn ?d)"
      using b rest(1-5,8-12) st True unfolding stepgen_inv_def prod.case by simp
    then show ?thesis using step cd by simp
  qed
qed

lemma drive_pins_fields:
  "timer1 (drive_pins g) = timer1 g" "timer2 (drive_pins g) = timer2 g" "timer3 (drive_pins g) = timer3 g"
  "hold_dds (drive_pins g) = hold_dds g" "addval (drive_pins g) = addval g" "accum (drive_pins g) = accum g"
  "rawcount (drive_pins g) = rawcount g" "curr_dir (drive_pins g) = curr_dir g" "sg_state (drive_pins g) = sg_state g"
  "target_addval (drive_pins g) = target_addval g" "deltalim (drive_pins g) = deltalim g"
  "step_type (drive_pins g) = step_type g" "cycle_max (drive_pins g) = cycle_max g"
  "step_len (drive_pins g) = step_len g" "dir_hold_dly (drive_pins g) = dir_hold_dly g" "dir_setup (drive_pins g) = dir_setup g"
  "lut (drive_pins g) = lut g" "num_phases (drive_pins g) = num_phases g"
  "length (phase (drive_pins g)) = length (phase g)"
  by (simp_all add: drive_pins_def phase_bits_def)

lemma drive_pins_inv: "stepgen_inv (drive_pins g, pos) \<longleftrightarrow> stepgen_inv (g, pos)"
  by (simp add: stepgen_inv_def drive_pins_fields)

lemma start_step_dir [simp]: "curr_dir (start_step g) = curr_dir g"
  by (simp add: start_step_def Let_def)

lemma timing_ok_cycle: "timing_ok (update_addval (run_timers period g)) = timing_ok g"
  by (simp add: timing_ok_def update_addval_def run_timers_def Let_def)

lemma make_pulse_inv:
  assumes inv: "stepgen_inv (g, pos)" and p: "0 \<le> period" and ok: "timing_ok g"
    and m: "make_pulse period g = (g', step_now)"
  shows "stepgen_inv (g', if step_now then pos + curr_dir g' else pos)"
proof -
  let ?g = "update_addval (run_timers period g)"
  obtain g1 b where d: "update_dds ?g = (g1, b)" by fastforce
  have "step_now = b" and g': "g' = drive_pins (if b then start_step (update_dir g1) else update_dir g1)"
    using m d by (auto simp: make_pulse_def Let_def)
  moreover have "stepgen_inv (?g, pos)" by (intro update_addval_inv run_timers_inv inv p)
  from step_inv [OF this _ d] ok timing_ok_cycle
  have "stepgen_inv (if b then start_step (update_dir g1) else update_dir g1,
      if b then pos + curr_dir (update_dir g1) else pos)" by blast
  ultimately show ?thesis by (cases b) (simp_all add: g' drive_pins_inv drive_pins_fields)
qed

lemma stepgen_inv_cong:
  assumes "timer1 g' = timer1 g" "timer2 g' = timer2 g" "timer3 g' = timer3 g" "hold_dds g' = hold_dds g"
    "addval g' = addval g" "accum g' = accum g" "rawcount g' = rawcount g" "curr_dir g' = curr_dir g"
    "sg_state g' = sg_state g" "target_addval g' = target_addval g" "deltalim g' = deltalim g"
    "step_type g' = step_type g" "cycle_max g' = cycle_max g" "lut g' = lut g" "phase g' = phase g"
    "num_phases g' = num_phases g"
  shows "stepgen_inv (g', pos) = stepgen_inv (g, pos)"
  using assms by (simp add: stepgen_inv_def)

lemma timing_params_fields:
  "timer1 (timing_params p g) = timer1 g" "timer2 (timing_params p g) = timer2 g" "timer3 (timing_params p g) = timer3 g"
  "hold_dds (timing_params p g) = hold_dds g" "addval (timing_params p g) = addval g" "accum (timing_params p g) = accum g"
  "rawcount (timing_params p g) = rawcount g" "curr_dir (timing_params p g) = curr_dir g"
  "sg_state (timing_params p g) = sg_state g" "target_addval (timing_params p g) = target_addval g"
  "deltalim (timing_params p g) = deltalim g" "step_type (timing_params p g) = step_type g"
  "cycle_max (timing_params p g) = cycle_max g" "sg_enable (timing_params p g) = sg_enable g"
  "lut (timing_params p g) = lut g" "phase (timing_params p g) = phase g" "num_phases (timing_params p g) = num_phases g"
  by (simp_all add: timing_params_def Let_def)

lemma update_freq_inv:
  assumes inv: "stepgen_inv (g, pos)" and b: "\<bar>target\<bar> \<le> 2 ^ 28" "0 \<le> limit" and e: "sg_enable g \<or> timer3 g = 0"
  shows "stepgen_inv (update_freq_chan newperiod periodns target limit g, pos)"
proof -
  define g1 where "g1 = timing_params periodns (if newperiod then force_timing g else g)"
  have i1: "stepgen_inv (g1, pos)" and e1: "sg_enable g1 = sg_enable g" "timer3 g1 = timer3 g"
    using inv unfolding g1_def
    by (cases newperiod; simp add: stepgen_inv_def timing_params_fields; simp add: force_timing_def)+
  show ?thesis
  proof (cases "sg_enable g")
    case True
    then have "update_freq_chan newperiod periodns target limit g = g1\<lparr>target_addval := target, deltalim := limit\<rparr>"
      using e1 by (simp add: update_freq_chan_def g1_def [symmetric])
    then show ?thesis using i1 b by (simp add: stepgen_inv_def)
  next
    case False
    then have "update_freq_chan newperiod periodns target limit g = g1\<lparr>addval := 0, target_addval := 0\<rparr>"
      using e1 by (simp add: update_freq_chan_def g1_def [symmetric])
    then show ?thesis using i1 e e1 False by (simp add: stepgen_inv_def)
  qed
qed

section \<open>Runs of a channel\<close>

text \<open>
  What happens to a channel: cycles of the fast function, which move the motor
  by one in the current direction when a step begins, calls of the slow
  functions, and changes of its enable pin and its parameters. The flag says
  whether the run has been regular so far: no cycle began with timing
  parameters whose sum does not fit into 32 bits, the control loop asked for
  at most one step per cycle, and \<open>update_freq\<close> found no disabled channel whose
  timers were still running.
\<close>

inductive stepgen_step :: "stepgen \<times> int \<times> bool \<Rightarrow> stepgen \<times> int \<times> bool \<Rightarrow> bool" where
  pulse: "0 \<le> period \<Longrightarrow> make_pulse period g = (g', step_now) \<Longrightarrow>
    stepgen_step (g, pos, regular) (g', if step_now then pos + curr_dir g' else pos, regular \<and> timing_ok g)"
| freq: "stepgen_step (g, pos, regular) (update_freq_chan newperiod periodns target limit g, pos,
    regular \<and> \<bar>target\<bar> \<le> 2 ^ 28 \<and> 0 \<le> limit \<and> (sg_enable g \<or> timer3 g = 0))"
| capture: "stepgen_step (g, pos, regular) (update_pos_chan g, pos, regular)"
| enable: "stepgen_step (g, pos, regular) (g\<lparr>sg_enable := b\<rparr>, pos, regular)"
| params: "stepgen_step (g, pos, regular)
    (g\<lparr>step_len := l, step_space := sp, dir_hold_dly := h, dir_setup := su\<rparr>, pos, regular)"

definition run_ok :: "stepgen \<times> int \<times> bool \<Rightarrow> bool" where
  "run_ok s = (case s of (g, pos, regular) \<Rightarrow> regular \<longrightarrow> stepgen_inv (g, pos))"

interpretation stepgen: transition_invariant stepgen_step run_ok
proof
  show "run_ok s'" if "stepgen_step s s'" "run_ok s" for s s'
    using that
  proof cases
    case (pulse period g g' step_now pos regular)
    then show ?thesis using make_pulse_inv [of g pos period g' step_now] that(2) by (simp add: run_ok_def)
  next
    case (freq g pos regular newperiod periodns target limit)
    then show ?thesis using update_freq_inv [of g pos target limit newperiod periodns] that(2) by (simp add: run_ok_def)
  qed (simp_all add: run_ok_def stepgen_inv_def update_pos_chan_def)
qed

lemma export_inv:
  fixes type :: int
  assumes "type \<le> 14"
  shows "stepgen_inv (export_stepgen user type mode, 0)"
proof -
  have a: "push_bit (PICKOFF - 1) 1 = to_s64 134217728" "steps 134217728 = 0"
    by (simp_all add: PICKOFF_def push_bit_eq_mult to_s64_def steps_def)
  let ?i = "nat (type - 2)"
  have i: "?i < 13" using assms by linarith
  have "\<forall>x\<in>set cycle_len_lut. 0 < x \<and> x \<le> 10" "length cycle_len_lut = 13"
    by (simp_all add: cycle_len_lut_def)
  then have c: "0 < cycle_len_lut ! ?i" "cycle_len_lut ! ?i \<le> 10" using i nth_mem by metis+
  have "\<forall>x\<in>set num_phases_lut. x \<le> 5" "length num_phases_lut = 13" by (simp_all add: num_phases_lut_def)
  then have n: "num_phases_lut ! ?i \<le> 5" using i nth_mem by metis
  have "\<forall>x\<in>set master_lut. length x = 10" "length master_lut = 13" by (simp_all add: master_lut_def)
  then have "length (master_lut ! ?i) = 10" using i nth_mem by metis
  then show ?thesis using a c i n
    by (simp add: export_stepgen_def stepgen_inv_def Let_def) (auto simp: to_s32_def)
qed

section \<open>The output pins\<close>

text \<open>What the pins of a channel show: the step and the direction, a pulse on the
  pin of the direction, or the phases of the current state.\<close>

definition pins_show :: "stepgen \<Rightarrow> bool" where
  "pins_show g \<longleftrightarrow>
     (step_type g = 0 \<longrightarrow> phase g ! 0 = (timer1 g \<noteq> 0) \<and> phase g ! 1 = (curr_dir g < 0)) \<and>
     (step_type g = 1 \<longrightarrow> phase g ! 0 = (timer1 g \<noteq> 0 \<and> \<not> curr_dir g < 0) \<and>
        phase g ! 1 = (timer1 g \<noteq> 0 \<and> curr_dir g < 0)) \<and>
     (step_type g \<ge> 2 \<longrightarrow> (\<forall>k < num_phases g. phase g ! k = odd (lut g ! nat (sg_state g) div 2 ^ k)))"

lemma drive_pins_show:
  assumes "length (phase g) = 5" "step_type g \<ge> 2 \<longrightarrow> num_phases g \<le> 5"
  shows "pins_show (drive_pins g)"
  using assms unfolding pins_show_def drive_pins_fields by (auto simp: drive_pins_def phase_bits_def)

lemma cycle_config:
  "step_type (start_step g) = step_type g" "num_phases (start_step g) = num_phases g" "phase (start_step g) = phase g"
  "lut (start_step g) = lut g" "cycle_max (start_step g) = cycle_max g"
  "step_type (update_dir g) = step_type g" "num_phases (update_dir g) = num_phases g" "phase (update_dir g) = phase g"
  "lut (update_dir g) = lut g" "cycle_max (update_dir g) = cycle_max g"
  "step_type (update_addval g) = step_type g" "num_phases (update_addval g) = num_phases g" "phase (update_addval g) = phase g"
  "lut (update_addval g) = lut g" "cycle_max (update_addval g) = cycle_max g"
  "step_type (run_timers p g) = step_type g" "num_phases (run_timers p g) = num_phases g" "phase (run_timers p g) = phase g"
  "lut (run_timers p g) = lut g" "cycle_max (run_timers p g) = cycle_max g"
  by (simp_all add: start_step_def update_dir_def update_addval_def run_timers_def Let_def)

lemma update_dds_config:
  assumes "update_dds g = (g1, b)"
  shows "step_type g1 = step_type g" "num_phases g1 = num_phases g" "phase g1 = phase g" "lut g1 = lut g"
    "cycle_max g1 = cycle_max g"
  using assms by (auto simp: update_dds_def Let_def split: if_splits)

lemma make_pulse_config:
  assumes "make_pulse period g = (g', b)"
  shows "step_type g' = step_type g" "num_phases g' = num_phases g" "lut g' = lut g" "cycle_max g' = cycle_max g"
    "length (phase g') = length (phase g)"
    "length (phase g) = 5 \<Longrightarrow> step_type g \<ge> 2 \<longrightarrow> num_phases g \<le> 5 \<Longrightarrow> pins_show g'"
proof -
  obtain g1 where d: "update_dds (update_addval (run_timers period g)) = (g1, b)"
    and g': "g' = drive_pins (if b then start_step (update_dir g1) else update_dir g1)"
    using assms by (auto simp: make_pulse_def Let_def split: prod.splits)
  note c = update_dds_config [OF d]
  show "step_type g' = step_type g" "num_phases g' = num_phases g" "lut g' = lut g" "cycle_max g' = cycle_max g"
    "length (phase g') = length (phase g)"
    unfolding g' drive_pins_fields by (cases b; simp add: cycle_config c)+
  show "pins_show g'" if "length (phase g) = 5" "step_type g \<ge> 2 \<longrightarrow> num_phases g \<le> 5"
    unfolding g' by (rule drive_pins_show) (use that in \<open>cases b; simp add: cycle_config c\<close>)+
qed

lemma make_pulse_step:
  assumes inv: "stepgen_inv (g, pos)" and p: "0 \<le> period" and ok: "timing_ok g"
    and m: "make_pulse period g = (g', True)"
  shows "curr_dir g' = 1 \<or> curr_dir g' = - 1" "timer1 g' = step_len g'"
proof -
  let ?u = "update_addval (run_timers period g)"
  obtain g1 where d: "update_dds ?u = (g1, True)" and g': "g' = drive_pins (start_step (update_dir g1))"
    using m by (auto simp: make_pulse_def Let_def split: prod.splits)
  have u: "stepgen_inv (?u, pos)" by (intro update_addval_inv run_timers_inv inv p)
  have nh: "\<not> hold_dds ?u" "addval ?u \<noteq> 0" "g1 = ?u\<lparr>accum := accum g1, rawcount := rawcount g1\<rparr>"
    using d u by (auto simp: update_dds_def Let_def stepgen_inv_def to_s64_cong split: if_splits)
  have f: "timer2 g1 = timer2 ?u" "addval g1 = addval ?u" "curr_dir g1 = curr_dir ?u" by (subst nh(3); simp)+
  have "timer2 ?u \<noteq> 0 \<Longrightarrow> curr_dir ?u = dir_of (addval ?u)" using u nh by (auto simp: stepgen_inv_def)
  then show "curr_dir g' = 1 \<or> curr_dir g' = - 1"
    using nh(2) unfolding g' drive_pins_fields start_step_dir by (auto simp: update_dir_def f dir_of_def)
  show "timer1 g' = step_len g'" unfolding g' drive_pins_fields by (simp add: start_step_def Let_def)
qed

text \<open>The configuration of a channel never changes.\<close>

definition config_of :: "stepgen \<Rightarrow> int \<times> nat list \<times> int \<times> nat" where
  "config_of g = (step_type g, lut g, cycle_max g, num_phases g)"

lemma step_config: "stepgen_step s s' \<Longrightarrow> config_of (fst s') = config_of (fst s)"
proof (induction rule: stepgen_step.induct)
  case (pulse period g g' step_now pos regular)
  then show ?case using make_pulse_config [of period g g' step_now] by (simp add: config_of_def)
next
  case (freq g pos regular newperiod periodns target limit)
  then show ?case by (simp add: config_of_def update_freq_chan_def timing_params_fields force_timing_def Let_def)
qed (simp_all add: config_of_def update_pos_chan_def)

lemma run_config: "stepgen_step\<^sup>*\<^sup>* s s' \<Longrightarrow> config_of (fst s') = config_of (fst s)"
  by (induction rule: rtranclp_induct) (simp_all add: step_config)


text \<open>A quadrature channel, enabled and told to step forward once per cycle.\<close>

definition demo_stepgen :: stepgen where
  "demo_stepgen = update_freq_chan True 50000 268435456 0 ((export_stepgen ([], 0, 0) 2 True)\<lparr>sg_enable := True\<rparr>)"

lemma demo_reach: "stepgen_step\<^sup>*\<^sup>* (export_stepgen ([], 0, 0) 2 True, 0, True) (demo_stepgen, 0, True)"
proof -
  let ?g = "export_stepgen ([], 0, 0) 2 True"
  have "stepgen_step (?g, 0, True) (?g\<lparr>sg_enable := True\<rparr>, 0, True)" by (rule stepgen_step.enable)
  moreover have "stepgen_step (?g\<lparr>sg_enable := True\<rparr>, 0, True) (demo_stepgen, 0, True)"
    using stepgen_step.freq [of "?g\<lparr>sg_enable := True\<rparr>" 0 True True 50000 268435456 0] by (simp add: demo_stepgen_def)
  ultimately show ?thesis using converse_rtranclp_into_rtranclp [OF _ r_into_rtranclp] by metis
qed

lemma demo_timing: "timing_ok demo_stepgen" "snd (make_pulse 50000 demo_stepgen)"
  "curr_dir (fst (make_pulse 50000 demo_stepgen)) = 1" "step_len demo_stepgen = 50000"
  "step_type (fst (make_pulse 50000 demo_stepgen)) = 2"
  by code_simp+


section \<open>Timing\<close>

text \<open>
  Cycles with fixed timing parameters, which \<open>update_freq\<close> has rounded to the
  period of the thread before. Each cycle has its period; the enable pin may
  change before it, and the slow thread may call \<open>update_freq\<close>.
\<close>

record sg_input =
  in_period :: int
  in_enable :: bool
  in_update :: bool
  in_thread :: int
  in_target :: int
  in_limit :: int

definition settled :: "stepgen \<Rightarrow> bool" where
  "settled g \<longleftrightarrow> step_len g = old_step_len g \<and> step_space g = old_step_space g \<and>
     dir_hold_dly g = old_dir_hold_dly g \<and> dir_setup g = old_dir_setup g"

definition slow_thread :: "sg_input \<Rightarrow> stepgen \<Rightarrow> stepgen" where
  "slow_thread i g =
     (let g1 = g\<lparr>sg_enable := in_enable i\<rparr>
      in if in_update i then update_freq_chan False (in_thread i) (in_target i) (in_limit i) g1 else g1)"

text \<open>The state after the cycles, and the directions of the steps that began in them.\<close>

fun sg_cycles :: "sg_input list \<Rightarrow> stepgen \<Rightarrow> stepgen \<times> int list" where
  "sg_cycles [] g = (g, [])"
| "sg_cycles (i # is) g =
     (case make_pulse (in_period i) (slow_thread i g) of (g1, step_now) \<Rightarrow>
      case sg_cycles is g1 of (g2, ds) \<Rightarrow> (g2, (if step_now then [curr_dir g1] else []) @ ds))"

definition input_ok :: "sg_input \<Rightarrow> bool" where
  "input_ok i \<longleftrightarrow> 0 \<le> in_period i \<and> \<bar>in_target i\<bar> \<le> 2 ^ 28 \<and> 0 \<le> in_limit i"

definition elapsed :: "sg_input list \<Rightarrow> int" where
  "elapsed is = sum_list (map in_period is)"

lemma elapsed_nonneg: "\<forall>i\<in>set is. input_ok i \<Longrightarrow> 0 \<le> elapsed is"
  unfolding elapsed_def by (intro sum_list_nonneg) (auto simp: input_ok_def)

lemma update_dds_fields:
  assumes "update_dds g = (g1, b)"
  shows "timer1 g1 = timer1 g" "timer2 g1 = timer2 g" "timer3 g1 = timer3 g" "hold_dds g1 = hold_dds g"
    "addval g1 = addval g" "curr_dir g1 = curr_dir g" "step_len g1 = step_len g"
    "dir_hold_dly g1 = dir_hold_dly g" "dir_setup g1 = dir_setup g" "b \<Longrightarrow> \<not> hold_dds g"
  using assms by (auto simp: update_dds_def Let_def split: if_splits)

lemma update_dir_fields:
  "timer1 (update_dir g) = timer1 g" "timer2 (update_dir g) = timer2 g" "timer3 (update_dir g) = timer3 g"
  "hold_dds (update_dir g) = hold_dds g" "addval (update_dir g) = addval g" "step_len (update_dir g) = step_len g"
  "dir_hold_dly (update_dir g) = dir_hold_dly g" "dir_setup (update_dir g) = dir_setup g"
  by (simp_all add: update_dir_def)

lemma update_addval_fields:
  "timer1 (update_addval g) = timer1 g" "timer2 (update_addval g) = timer2 g" "timer3 (update_addval g) = timer3 g"
  "curr_dir (update_addval g) = curr_dir g" "step_len (update_addval g) = step_len g"
  "dir_hold_dly (update_addval g) = dir_hold_dly g" "dir_setup (update_addval g) = dir_setup g"
  "\<not> hold_dds (update_addval g) \<Longrightarrow> \<not> hold_dds g"
  "timer3 g \<noteq> 0 \<Longrightarrow> \<not> hold_dds (update_addval g) \<Longrightarrow> dir_of (addval (update_addval g)) = dir_of (addval g)"
  by (auto simp: update_addval_def Let_def dir_of_def split: if_splits)

lemma start_step_fields:
  assumes "timing_ok g"
  shows "timer1 (start_step g) = step_len g" "timer2 (start_step g) = step_len g + dir_hold_dly g"
    "timer3 (start_step g) = step_len g + dir_hold_dly g + dir_setup g"
    "hold_dds (start_step g) = hold_dds g" "addval (start_step g) = addval g" "step_len (start_step g) = step_len g"
    "dir_hold_dly (start_step g) = dir_hold_dly g" "dir_setup (start_step g) = dir_setup g"
  using assms by (auto simp: start_step_def Let_def timing_ok_def to_u32_def)

text \<open>The parameters and what \<open>update_freq\<close> remembers of them.\<close>

definition timing_of :: "stepgen \<Rightarrow> int list" where
  "timing_of g = [step_len g, step_space g, dir_hold_dly g, dir_setup g,
     old_step_len g, old_step_space g, old_dir_hold_dly g, old_dir_setup g]"

lemma timing_of_cong: "timing_of g' = timing_of g \<Longrightarrow> settled g' = settled g \<and> timing_ok g' = timing_ok g \<and>
    step_len g' = step_len g \<and> dir_hold_dly g' = dir_hold_dly g \<and> dir_setup g' = dir_setup g"
  by (simp add: timing_of_def settled_def timing_ok_def)

lemma make_pulse_timing_of:
  assumes "make_pulse period g = (g', b)"
  shows "timing_of g' = timing_of g"
proof -
  obtain g1 where d: "update_dds (update_addval (run_timers period g)) = (g1, b)"
    and g': "g' = drive_pins (if b then start_step (update_dir g1) else update_dir g1)"
    using assms by (auto simp: make_pulse_def Let_def split: prod.splits)
  have parts: "timing_of (drive_pins x) = timing_of x" "timing_of (start_step x) = timing_of x"
    "timing_of (update_dir x) = timing_of x" "timing_of (update_addval x) = timing_of x"
    "timing_of (run_timers period x) = timing_of x" for x
    by (simp_all add: timing_of_def drive_pins_def start_step_def update_dir_def update_addval_def run_timers_def Let_def)
  have "timing_of g1 = timing_of (update_addval (run_timers period g))"
    using d by (auto simp: timing_of_def update_dds_def Let_def split: if_splits)
  then show ?thesis by (simp add: g' parts)
qed

text \<open>What the timers need, whatever the slow thread does.\<close>

definition timers_ok :: "stepgen \<Rightarrow> bool" where
  "timers_ok g \<longleftrightarrow> 0 \<le> timer1 g \<and> timer1 g \<le> timer2 g \<and> timer2 g \<le> timer3 g \<and> timer3 g < 2 ^ 32 \<and>
     timing_ok g \<and> settled g \<and> length (phase g) = 5 \<and> (step_type g \<ge> 2 \<longrightarrow> num_phases g \<le> 5)"

lemma settled_timing_params: "settled g \<Longrightarrow> timing_params p g = g"
  by (simp add: settled_def timing_params_def)

lemma slow_thread_fields:
  fixes i :: sg_input
  assumes "settled g"
  defines "g' \<equiv> slow_thread i g"
  shows "timer1 g' = timer1 g" "timer2 g' = timer2 g" "timer3 g' = timer3 g" "curr_dir g' = curr_dir g"
    "timing_of g' = timing_of g" "phase g' = phase g" "step_type g' = step_type g" "num_phases g' = num_phases g"
    "hold_dds g' = hold_dds g" "in_update i \<longrightarrow> in_enable i \<Longrightarrow> addval g' = addval g"
proof -
  have "settled (g\<lparr>sg_enable := in_enable i\<rparr>)" using assms(1) by (simp add: settled_def)
  note t = settled_timing_params [OF this]
  show "timer1 g' = timer1 g" "timer2 g' = timer2 g" "timer3 g' = timer3 g" "curr_dir g' = curr_dir g"
    "timing_of g' = timing_of g" "phase g' = phase g" "step_type g' = step_type g" "num_phases g' = num_phases g"
    "hold_dds g' = hold_dds g" "in_update i \<longrightarrow> in_enable i \<Longrightarrow> addval g' = addval g"
    by (auto simp: g'_def slow_thread_def update_freq_chan_def t timing_of_def Let_def timing_params_fields)
qed

lemma slow_thread_timers: "timers_ok g \<Longrightarrow> timers_ok (slow_thread i g)"
  using slow_thread_fields [of g i] timing_of_cong [of "slow_thread i g" g] by (simp add: timers_ok_def)

lemma slow_thread_inv:
  assumes "stepgen_inv (g, pos)" "input_ok i" "in_update i \<longrightarrow> in_enable i"
  shows "stepgen_inv (slow_thread i g, pos)"
proof -
  have "stepgen_inv (g\<lparr>sg_enable := in_enable i\<rparr>, pos)" using assms(1) by (simp add: stepgen_inv_def)
  then show ?thesis using assms(2,3) unfolding slow_thread_def Let_def input_ok_def by (auto intro!: update_freq_inv)
qed

text \<open>One cycle: how far the timers get, and when the direction stays.\<close>

lemma make_pulse_timers:
  assumes inv: "timers_ok g" and p: "0 \<le> period" and m: "make_pulse period g = (g', b)"
  shows "R \<le> timer1 g \<Longrightarrow> R \<le> step_len g \<Longrightarrow> R - period \<le> timer1 g'"
    "R \<le> timer2 g \<Longrightarrow> R \<le> step_len g + dir_hold_dly g \<Longrightarrow> R - period \<le> timer2 g'"
    "R \<le> timer3 g \<Longrightarrow> R \<le> step_len g + dir_hold_dly g + dir_setup g \<Longrightarrow> R - period \<le> timer3 g'"
    "period < timer2 g \<Longrightarrow> curr_dir g' = curr_dir g" "timers_ok g'" "pins_show g'"
    "b \<Longrightarrow> timer1 g' = step_len g \<and> timer2 g' = step_len g + dir_hold_dly g \<and>
       timer3 g' = step_len g + dir_hold_dly g + dir_setup g"
proof -
  let ?u = "update_addval (run_timers period g)"
  obtain g1 where d: "update_dds ?u = (g1, b)" and g': "g' = drive_pins (if b then start_step (update_dir g1) else update_dir g1)"
    using m by (auto simp: make_pulse_def Let_def split: prod.splits)
  define g2 where "g2 = update_dir g1"
  note dd = update_dds_fields [OF d]
  have t: "0 \<le> timer1 g" "timer1 g \<le> timer2 g" "timer2 g \<le> timer3 g" "timer3 g < 2 ^ 32" and ok: "timing_ok g"
    using inv by (simp_all add: timers_ok_def)
  have pr: "step_len g2 = step_len g" "dir_hold_dly g2 = dir_hold_dly g" "dir_setup g2 = dir_setup g"
    unfolding g2_def update_dir_fields dd update_addval_fields by (simp_all add: run_timers_def)
  have tm: "timer1 g2 = countdown period (timer1 g)" "timer2 g2 = countdown period (timer2 g)"
    "timer3 g2 = countdown period (timer3 g)"
    unfolding g2_def update_dir_fields dd update_addval_fields by (simp_all add: run_timers_def)
  have ok2: "timing_ok g2" using ok by (simp add: timing_ok_def pr)
  note ss = start_step_fields [OF ok2, unfolded pr]
  have cb: "0 \<le> countdown period t \<and> t - period \<le> countdown period t \<and> countdown period t < 2 ^ 32" if "0 \<le> t" "t < 2 ^ 32" for t
    using countdown_bounds [OF that p] that by auto
  have c: "timer1 g - period \<le> timer1 g2" "timer2 g - period \<le> timer2 g2" "timer3 g - period \<le> timer3 g2"
    "0 \<le> timer1 g2" "timer1 g2 \<le> timer2 g2" "timer2 g2 \<le> timer3 g2" "timer3 g2 < 2 ^ 32"
    unfolding tm using t p cb [of "timer1 g"] cb [of "timer2 g"] cb [of "timer3 g"]
      countdown_mono [of "timer1 g" "timer2 g" period] countdown_mono [of "timer2 g" "timer3 g" period] by auto
  have t': "timer1 g' = (if b then step_len g else timer1 g2)"
    "timer2 g' = (if b then step_len g + dir_hold_dly g else timer2 g2)"
    "timer3 g' = (if b then step_len g + dir_hold_dly g + dir_setup g else timer3 g2)"
    unfolding g' drive_pins_fields g2_def [symmetric] using ss by (simp_all)
  show "R \<le> timer1 g \<Longrightarrow> R \<le> step_len g \<Longrightarrow> R - period \<le> timer1 g'"
    "R \<le> timer2 g \<Longrightarrow> R \<le> step_len g + dir_hold_dly g \<Longrightarrow> R - period \<le> timer2 g'"
    "R \<le> timer3 g \<Longrightarrow> R \<le> step_len g + dir_hold_dly g + dir_setup g \<Longrightarrow> R - period \<le> timer3 g'"
    unfolding t' using c(1-3) p by auto
  show "b \<Longrightarrow> timer1 g' = step_len g \<and> timer2 g' = step_len g + dir_hold_dly g \<and>
       timer3 g' = step_len g + dir_hold_dly g + dir_setup g" unfolding t' by simp
  show "curr_dir g' = curr_dir g" if "period < timer2 g"
  proof -
    have "timer2 g1 \<noteq> 0" using that tm(2) c(2) by (simp add: g2_def update_dir_fields)
    then show ?thesis unfolding g' drive_pins_fields
      by (simp add: update_dir_def dd update_addval_fields run_timers_def)
  qed
  note cf = make_pulse_config [OF m]
  show "pins_show g'" by (rule cf(6)) (use inv in \<open>simp_all add: timers_ok_def\<close>)
  have "0 \<le> timer1 g'" "timer1 g' \<le> timer2 g'" "timer2 g' \<le> timer3 g'" "timer3 g' < 2 ^ 32"
    unfolding t' using c(4-7) ok by (auto simp: timing_ok_def)
  then show "timers_ok g'" using timing_of_cong [OF make_pulse_timing_of [OF m]] cf(1,2,5) inv by (simp add: timers_ok_def)
qed

text \<open>While the last timer runs and no disabled channel is reset, steps keep their direction.\<close>

lemma make_pulse_direction:
  assumes inv: "stepgen_inv (g, pos)" and tok: "timers_ok g" and p: "0 \<le> period" and m: "make_pulse period g = (g', b)"
  shows "period < timer3 g \<Longrightarrow> hold_dds g \<or> dir_of (addval g) = d \<Longrightarrow>
       (hold_dds g' \<or> dir_of (addval g') = d) \<and> (b \<longrightarrow> curr_dir g' = d)"
    "b \<Longrightarrow> \<not> hold_dds g' \<and> (timer3 g' \<noteq> 0 \<longrightarrow> dir_of (addval g') = curr_dir g')"
proof -
  let ?t = "run_timers period g" and ?u = "update_addval (run_timers period g)"
  obtain g1 where dd0: "update_dds ?u = (g1, b)" and g': "g' = drive_pins (if b then start_step (update_dir g1) else update_dir g1)"
    using m by (auto simp: make_pulse_def Let_def split: prod.splits)
  note dd = update_dds_fields [OF dd0]
  have ok: "timing_ok g" and t: "0 \<le> timer3 g" "timer3 g < 2 ^ 32" using tok by (auto simp: timers_ok_def)
  have "timing_ok (update_dir g1)" using ok by (simp add: timing_ok_def update_dir_fields dd update_addval_fields run_timers_def)
  note ss = start_step_fields [OF this]
  have f: "hold_dds g' = hold_dds ?u" "addval g' = addval ?u"
    unfolding g' drive_pins_fields using ss by (simp_all add: update_dir_fields dd)
  have cd: "curr_dir g' = curr_dir (update_dir g1)" unfolding g' drive_pins_fields by simp
  have u: "stepgen_inv (?u, pos)" by (intro update_addval_inv run_timers_inv inv p)
  have i': "stepgen_inv (g', if b then pos + curr_dir g' else pos)" by (rule make_pulse_inv [OF inv p ok m])
  show "(hold_dds g' \<or> dir_of (addval g') = d) \<and> (b \<longrightarrow> curr_dir g' = d)"
    if 3: "period < timer3 g" "hold_dds g \<or> dir_of (addval g) = d"
  proof -
    have t3: "timer3 ?t \<noteq> 0" "hold_dds ?t = hold_dds g" "addval ?t = addval g"
      using 3(1) t countdown_bounds [OF t p] by (auto simp: run_timers_def)
    have h: "hold_dds ?u \<or> dir_of (addval ?u) = d" using update_addval_fields(8,9) [of ?t] t3 3(2) by metis
    have "curr_dir g' = d" if b
    proof -
      have nh: "\<not> hold_dds ?u" using dd(10) that by simp
      then have "curr_dir ?u = dir_of (addval ?u)" using u t3(1) by (simp add: stepgen_inv_def update_addval_fields)
      then have "curr_dir (update_dir g1) = dir_of (addval ?u)" by (auto simp: update_dir_def dd dir_of_def)
      then show ?thesis using cd h nh by auto
    qed
    then show ?thesis using h f by auto
  qed
  show "\<not> hold_dds g' \<and> (timer3 g' \<noteq> 0 \<longrightarrow> dir_of (addval g') = curr_dir g')" if b
    using i' dd(10) that f by (auto simp: stepgen_inv_def)
qed

lemma cycles_pins:
  assumes "timers_ok g" "\<forall>i\<in>set is. input_ok i" "sg_cycles is g = (g', ds)" "pins_show g"
    and "R1 \<le> timer1 g" "R1 \<le> step_len g" "R2 \<le> timer2 g" "R2 \<le> step_len g + dir_hold_dly g"
  shows "(elapsed is < R1 \<longrightarrow> timer1 g' \<noteq> 0) \<and> (elapsed is < R2 \<longrightarrow> curr_dir g' = curr_dir g) \<and> pins_show g' \<and>
    step_type g' = step_type g"
  using assms
proof (induction "is" arbitrary: g ds R1 R2)
  case Nil
  then show ?case by (auto simp: elapsed_def)
next
  case (Cons i rest)
  let ?g = "slow_thread i g" and ?p = "in_period i"
  have i: "0 \<le> ?p" and ro: "\<forall>i\<in>set rest. input_ok i" using Cons.prems(2) by (auto simp: input_ok_def)
  have "settled g" using Cons.prems(1) by (simp add: timers_ok_def)
  note sf = slow_thread_fields [OF this, of i]
  note ok = slow_thread_timers [OF Cons.prems(1), of i]
  obtain g1 b where m: "make_pulse ?p ?g = (g1, b)" by fastforce
  obtain ds1 where r: "sg_cycles rest g1 = (g', ds1)" using Cons.prems(3) m by (auto split: prod.splits)
  note mt = make_pulse_timers [OF ok i m]
  note tc = timing_of_cong [OF trans [OF make_pulse_timing_of [OF m] sf(5)]] timing_of_cong [OF sf(5)]
  have el: "elapsed (i # rest) = ?p + elapsed rest" "0 \<le> elapsed rest"
    using elapsed_nonneg [OF ro] by (simp_all add: elapsed_def)
  have "(elapsed rest < R1 - ?p \<longrightarrow> timer1 g' \<noteq> 0) \<and> (elapsed rest < R2 - ?p \<longrightarrow> curr_dir g' = curr_dir g1) \<and>
      pins_show g' \<and> step_type g' = step_type g1"
  proof (rule Cons.IH [OF mt(5) ro r mt(6)])
    show "R1 - ?p \<le> timer1 g1" "R2 - ?p \<le> timer2 g1"
      using mt(1) [of R1] mt(2) [of R2] Cons.prems(5-8) sf tc by auto
    show "R1 - ?p \<le> step_len g1" "R2 - ?p \<le> step_len g1 + dir_hold_dly g1" using tc Cons.prems(6,8) i by auto
  qed
  moreover have "curr_dir g1 = curr_dir g" if "elapsed rest < R2 - ?p"
    using mt(4) that el(2) Cons.prems(7) sf by simp
  moreover have "step_type g1 = step_type g" using make_pulse_config(1) [OF m] sf(7) by simp
  ultimately show ?case using el by auto
qed

lemma cycles_directions:
  assumes "stepgen_inv (g, pos)" "timers_ok g" "\<forall>i\<in>set is. input_ok i" "sg_cycles is g = (g', ds)"
    and "R \<le> timer3 g" "R \<le> step_len g + dir_hold_dly g + dir_setup g"
    and "0 < R \<Longrightarrow> hold_dds g \<or> dir_of (addval g) = d" "\<forall>i\<in>set is. in_update i \<longrightarrow> in_enable i" "elapsed is < R"
  shows "\<forall>x\<in>set ds. x = d"
  using assms
proof (induction "is" arbitrary: g pos ds R)
  case Nil
  then show ?case by simp
next
  case (Cons i rest)
  let ?g = "slow_thread i g" and ?p = "in_period i"
  have i: "0 \<le> ?p" "in_update i \<longrightarrow> in_enable i" "input_ok i" and ro: "\<forall>i\<in>set rest. input_ok i"
    using Cons.prems(3,8) by (auto simp: input_ok_def)
  have "settled g" using Cons.prems(2) by (simp add: timers_ok_def)
  note sf = slow_thread_fields [OF this, of i]
  note ok = slow_thread_timers [OF Cons.prems(2), of i] and inv = slow_thread_inv [OF Cons.prems(1) i(3,2)]
  obtain g1 b where m: "make_pulse ?p ?g = (g1, b)" by fastforce
  obtain ds1 where r: "sg_cycles rest g1 = (g', ds1)" and ds: "ds = (if b then [curr_dir g1] else []) @ ds1"
    using Cons.prems(4) m by (auto split: prod.splits)
  note mt = make_pulse_timers [OF ok i(1) m]
  note tc = timing_of_cong [OF trans [OF make_pulse_timing_of [OF m] sf(5)]] timing_of_cong [OF sf(5)]
  have inv1: "stepgen_inv (g1, if b then pos + curr_dir g1 else pos)"
    using make_pulse_inv [OF inv i(1) _ m] ok by (simp add: timers_ok_def)
  have el: "elapsed rest < R - ?p" "0 \<le> elapsed rest"
    using elapsed_nonneg [OF ro] Cons.prems(9) by (simp_all add: elapsed_def)
  have j: "(hold_dds g1 \<or> dir_of (addval g1) = d) \<and> (b \<longrightarrow> curr_dir g1 = d)"
    by (rule make_pulse_direction(1) [OF inv ok i(1) m]) (use el i sf Cons.prems(5,7) in auto)
  have "\<forall>x\<in>set ds1. x = d"
  proof (rule Cons.IH [OF inv1 mt(5) ro r _ _ _ _ el(1)])
    show "R - ?p \<le> timer3 g1" using mt(3) [of R] Cons.prems(5,6) sf tc by auto
    show "R - ?p \<le> step_len g1 + dir_hold_dly g1 + dir_setup g1" using tc Cons.prems(6) i by auto
  qed (use j Cons.prems(8) in auto)
  then show ?case using j ds by auto
qed

text \<open>C23: The pulse timing, at the pins. After a step began in a regular run, for all following cycles
  with fixed timing parameters, whatever \<open>update_freq\<close> commands and whether or not the channel is
  enabled: the step pin (the pin of the direction of an up/down channel) is on until the step
  length has passed, and the direction pin does not change before the step length and the
  direction hold time have passed. No step in the other direction begins before the direction setup
  time has passed as well, provided that \<open>update_freq\<close> is not called while the channel is disabled.\<close>

theorem stepgen_timing:
  assumes "stepgen_step\<^sup>*\<^sup>* (export_stepgen user type mode, 0, True) (g, pos, True)" "type \<le> 14"
    and "timing_ok g" "settled g" "0 \<le> period" "make_pulse period g = (g0, True)"
    and "\<forall>i\<in>set is. input_ok i" "sg_cycles is g0 = (g', ds)"
  shows "(elapsed is < step_len g \<longrightarrow> (step_type g = 0 \<longrightarrow> phase g' ! 0) \<and>
      (step_type g = 1 \<longrightarrow> phase g' ! (if curr_dir g0 < 0 then 1 else 0) \<and> \<not> phase g' ! (if curr_dir g0 < 0 then 0 else 1))) \<and>
    (elapsed is < step_len g + dir_hold_dly g \<and> step_type g = 0 \<longrightarrow> phase g' ! 1 = (curr_dir g0 < 0)) \<and>
    (elapsed is < step_len g + dir_hold_dly g + dir_setup g \<and> (\<forall>i\<in>set is. in_update i \<longrightarrow> in_enable i) \<longrightarrow>
       (\<forall>d\<in>set ds. d = curr_dir g0))"
proof -
  have "run_ok (export_stepgen user type mode, 0, True)" using export_inv [OF assms(2)] by (simp add: run_ok_def)
  then have inv: "stepgen_inv (g, pos)" using stepgen.reach_keeps [OF assms(1)] by (simp add: run_ok_def)
  then have ok: "timers_ok g" using assms(3,4) by (simp add: stepgen_inv_def timers_ok_def)
  note mt = make_pulse_timers [OF ok assms(5,6)] and md = make_pulse_direction [OF inv ok assms(5,6)]
  have inv0: "stepgen_inv (g0, pos + curr_dir g0)" using make_pulse_inv [OF inv assms(5,3,6)] by simp
  note tc = timing_of_cong [OF make_pulse_timing_of [OF assms(6)]]
  have A: "(elapsed is < step_len g \<longrightarrow> timer1 g' \<noteq> 0) \<and>
      (elapsed is < step_len g + dir_hold_dly g \<longrightarrow> curr_dir g' = curr_dir g0) \<and> pins_show g' \<and> step_type g' = step_type g0"
    by (rule cycles_pins [OF mt(5) assms(7,8) mt(6)]) (use mt(7) tc in auto)
  have st: "step_type g' = step_type g" using A make_pulse_config(1) [OF assms(6)] by simp
  have hold: "elapsed is < step_len g \<Longrightarrow> elapsed is < step_len g + dir_hold_dly g"
    using assms(3) by (simp add: timing_ok_def)
  have B: "\<forall>d\<in>set ds. d = curr_dir g0"
    if "elapsed is < step_len g + dir_hold_dly g + dir_setup g" "\<forall>i\<in>set is. in_update i \<longrightarrow> in_enable i"
    by (rule cycles_directions [OF inv0 mt(5) assms(7,8) _ _ _ that(2,1)]) (use mt(7) md(2) tc in auto)
  show ?thesis using A B hold unfolding pins_show_def st by auto
qed

text \<open>A step/direction channel that steps forward and is told to go back.\<close>

definition demo_stepdir :: stepgen where
  "demo_stepdir = update_freq_chan True 50000 268435456 0 ((export_stepgen ([], 0, 0) 0 True)\<lparr>sg_enable := True\<rparr>)"

lemma demo_stepdir_reach: "stepgen_step\<^sup>*\<^sup>* (export_stepgen ([], 0, 0) 0 True, 0, True) (demo_stepdir, 0, True)"
proof -
  let ?g = "export_stepgen ([], 0, 0) 0 True"
  have "stepgen_step (?g, 0, True) (?g\<lparr>sg_enable := True\<rparr>, 0, True)" by (rule stepgen_step.enable)
  moreover have "stepgen_step (?g\<lparr>sg_enable := True\<rparr>, 0, True) (demo_stepdir, 0, True)"
    using stepgen_step.freq [of "?g\<lparr>sg_enable := True\<rparr>" 0 True True 50000 268435456 0] by (simp add: demo_stepdir_def)
  ultimately show ?thesis using converse_rtranclp_into_rtranclp [OF _ r_into_rtranclp] by metis
qed

lemma demo_stepdir_facts: "timing_ok demo_stepdir" "settled demo_stepdir" "snd (make_pulse 50000 demo_stepdir)"
  "curr_dir (fst (make_pulse 50000 demo_stepdir)) = 1" "step_len demo_stepdir = 50000" "dir_hold_dly demo_stepdir = 50000"
  "dir_setup demo_stepdir = 50000" "step_type demo_stepdir = 0"
  by code_simp+

theorem stepgen_timing_witness:
  "\<exists>g' ds. sg_cycles [\<lparr>in_period = 20000, in_enable = True, in_update = True, in_thread = 50000, in_target = - 5, in_limit = 0\<rparr>]
       (fst (make_pulse 50000 demo_stepdir)) = (g', ds) \<and> phase g' ! 0 \<and> \<not> phase g' ! 1 \<and> set ds \<subseteq> {1}"
proof -
  let ?is = "[\<lparr>in_period = 20000, in_enable = True, in_update = True, in_thread = 50000, in_target = - 5, in_limit = 0\<rparr>]"
  obtain g where m: "make_pulse 50000 demo_stepdir = (g, True)" using demo_stepdir_facts(3) by (metis prod.collapse)
  obtain g' ds where c: "sg_cycles ?is g = (g', ds)" by fastforce
  have "curr_dir g = 1" using m demo_stepdir_facts(4) by simp
  then show ?thesis
    using stepgen_timing [OF demo_stepdir_reach _ demo_stepdir_facts(1,2) _ m _ c] c m demo_stepdir_facts(5-8)
    by (auto simp: input_ok_def elapsed_def)
qed

section \<open>Two cases the timers do not cover\<close>

text \<open>The invariant for a given content of the accumulator, to evaluate it.\<close>

definition inv_check :: "stepgen \<Rightarrow> int \<Rightarrow> bool" where
  "inv_check g a \<longleftrightarrow>
     \<bar>addval g\<bar> \<le> 2 ^ 28 \<and> \<bar>target_addval g\<bar> \<le> 2 ^ 28 \<and> 0 \<le> deltalim g \<and>
     0 \<le> timer1 g \<and> timer1 g \<le> timer2 g \<and> timer2 g \<le> timer3 g \<and> timer3 g < 2 ^ 32 \<and>
     (hold_dds g \<longrightarrow> timer3 g \<noteq> 0) \<and> (timer3 g \<noteq> 0 \<and> \<not> hold_dds g \<longrightarrow> curr_dir g = dir_of (addval g)) \<and>
     accum g = to_s64 a \<and> rawcount g = to_s32 (steps a) \<and> length (phase g) = 5 \<and> step_type g < 2"

lemma inv_checkD: "inv_check g a \<Longrightarrow> stepgen_inv (g, steps a)"
  by (auto simp: inv_check_def stepgen_inv_def)

text \<open>
  A reversal after the timers have run out changes the direction and begins a
  step in the same cycle, so that the setup time does not pass between them.
\<close>

definition idle_stepgen :: stepgen where
  "idle_stepgen = (export_stepgen ([], 0, 0) 0 False)\<lparr>sg_enable := True, curr_dir := 1, addval := 1, accum := 268435457,
     rawcount := 1, target_addval := - 100, step_len := 100, dir_hold_dly := 100, dir_setup := 100\<rparr>"

lemma reversal_without_setup:
  "stepgen_inv (idle_stepgen, 1) \<and> timing_ok idle_stepgen \<and> snd (make_pulse 10 idle_stepgen) \<and>
   curr_dir idle_stepgen = 1 \<and> curr_dir (fst (make_pulse 10 idle_stepgen)) = - 1"
proof -
  have "inv_check idle_stepgen 268435457" "steps 268435457 = 1" by code_simp+
  then have "stepgen_inv (idle_stepgen, 1)" using inv_checkD by metis
  moreover have "timing_ok idle_stepgen \<and> snd (make_pulse 10 idle_stepgen) \<and>
     curr_dir idle_stepgen = 1 \<and> curr_dir (fst (make_pulse 10 idle_stepgen)) = - 1" by code_simp
  ultimately show ?thesis by blast
qed

text \<open>
  When \<open>update_freq\<close> sees a disabled channel before the timers have run out and the
  channel is enabled again, no reversal is noticed, since the addend starts
  from 0, and a step is counted forward while the direction is still reverse.
\<close>

definition braked_stepgen :: stepgen where
  "braked_stepgen = (export_stepgen ([], 0, 0) 0 False)\<lparr>timer2 := 100, timer3 := 200, curr_dir := - 1, addval := - 5,
     target_addval := - 5, step_len := 100, old_step_len := 100, dir_hold_dly := 100, old_dir_hold_dly := 100,
     dir_setup := 100, old_dir_setup := 100, accum := 268435455\<rparr>"

lemma step_in_wrong_direction:
  "let g = update_freq_chan False 10 (268435456) 0 braked_stepgen;
       g1 = update_freq_chan False 10 (268435456) 0 (g\<lparr>sg_enable := True\<rparr>);
       (g2, step_now) = make_pulse 10 g1
   in stepgen_inv (braked_stepgen, 0) \<and> step_now \<and> rawcount g2 = 1 \<and> curr_dir g2 = - 1"
proof -
  have "inv_check braked_stepgen 268435455" "steps 268435455 = 0" by code_simp+
  then have i: "stepgen_inv (braked_stepgen, 0)" using inv_checkD by metis
  have "let g = update_freq_chan False 10 (268435456) 0 braked_stepgen;
       g1 = update_freq_chan False 10 (268435456) 0 (g\<lparr>sg_enable := True\<rparr>);
       (g2, step_now) = make_pulse 10 g1
   in step_now \<and> rawcount g2 = 1 \<and> curr_dir g2 = - 1" by code_simp
  then show ?thesis using i by (simp add: Let_def split_def)
qed

end
