(* ===== verification/Shmdrv.thy ===== *)
theory Shmdrv
  imports Hal_Prelude
begin

text \<open>
  The shared-memory driver (\<open>libraries/runtime_memory/src/shmdrv.c\<close>): a table of
  segments with keys, allocated on creation, attached from the kernel and
  mapped by processes, and released with the last reference. The kernel's
  allocator is a parameter: an operation that allocates gets the result of
  \<open>vmalloc_user\<close> as an argument, and \<open>vlive\<close> keeps the blocks that are
  allocated; \<open>vfault\<close> records the release of a block that is not. Waiting for
  the driver's mutexes is never interrupted, and copies from and to a
  process succeed.
\<close>

unbundle bit_operations_syntax

section \<open>State\<close>

record shm_segment =
  in_use :: bool
  seg_key :: int
  seg_size :: nat
  act_size :: nat
  n_kattach :: int
  n_uattach :: int
  seg_flags :: nat
  creator :: int
  kmem :: nat

record shmdrv =
  shm_segments :: "shm_segment list"
  nopen :: int
  maxopen :: int
  allocated :: nat
  freed :: nat
  gc :: bool
  vlive :: "nat set"
  vfault :: bool

record shm_status =
  sm_key :: int
  sm_size :: nat
  sm_act_size :: nat
  sm_flags :: nat
  sm_id :: int
  sm_n_kattach :: int
  sm_n_uattach :: int
  sm_creator :: int

definition OUTBOARD1_CREATE :: nat where "OUTBOARD1_CREATE = 1"
definition OUTBOARD2_CREATE :: nat where "OUTBOARD2_CREATE = 2"
definition OUTBOARD_MASK :: nat where "OUTBOARD_MASK = 3"

definition PAGE_ALIGN :: "nat \<Rightarrow> nat" where "PAGE_ALIGN n = (n + 4095) div 4096 * 4096"

definition nseg :: "shmdrv \<Rightarrow> nat" where "nseg d = length (shm_segments d)"

definition seg :: "shmdrv \<Rightarrow> nat \<Rightarrow> shm_segment" where "seg d i = shm_segments d ! i"

definition upd_seg :: "nat \<Rightarrow> (shm_segment \<Rightarrow> shm_segment) \<Rightarrow> shmdrv \<Rightarrow> shmdrv" where
  "upd_seg i f d = d\<lparr>shm_segments := (shm_segments d)[i := f (seg d i)]\<rparr>"

definition empty_segment :: shm_segment where
  "empty_segment = \<lparr>in_use = False, seg_key = 0, seg_size = 0, act_size = 0, n_kattach = 0, n_uattach = 0,
     seg_flags = 0, creator = - 1, kmem = 0\<rparr>"

definition init_shmemdata :: "nat \<Rightarrow> bool \<Rightarrow> shmdrv" where
  "init_shmemdata n g = \<lparr>shm_segments = replicate n empty_segment, nopen = 0, maxopen = - 1, allocated = 0,
     freed = 0, gc = g, vlive = {}, vfault = False\<rparr>"

section \<open>Memory\<close>

text \<open>\<open>shm_malloc\<close>, with the block that \<open>vmalloc_user\<close> returns.\<close>

definition shm_malloc :: "nat option \<Rightarrow> nat \<Rightarrow> shmdrv \<Rightarrow> shmdrv \<times> int" where
  "shm_malloc mem i d =
     (case mem of
        None \<Rightarrow> (d, - ENOMEM)
      | Some p \<Rightarrow>
          (let sz = PAGE_ALIGN (seg_size (seg d i))
           in (upd_seg i (\<lambda>s. s\<lparr>act_size := sz, kmem := p\<rparr>)
                 (d\<lparr>allocated := allocated d + sz, vlive := insert p (vlive d)\<rparr>), 0)))"

text \<open>\<open>shm_free\<close> leaves the pointer of the segment as it is.\<close>

definition shm_free :: "nat \<Rightarrow> shmdrv \<Rightarrow> shmdrv" where
  "shm_free i d =
     (let p = kmem (seg d i) in
      if p = 0 then d
      else d\<lparr>vfault := (vfault d \<or> p \<notin> vlive d), vlive := vlive d - {p}, freed := freed d + act_size (seg d i)\<rparr>)"

definition shm_nonstandard_attach :: "nat \<Rightarrow> shmdrv \<Rightarrow> int" where
  "shm_nonstandard_attach i d =
     (if seg_flags (seg d i) AND OUTBOARD1_CREATE \<noteq> 0 then - EINVAL
      else if seg_flags (seg d i) AND OUTBOARD2_CREATE \<noteq> 0 then - EINVAL
      else - EINVAL)"

definition shm_nonstandard_detach :: "nat \<Rightarrow> shmdrv \<Rightarrow> int" where
  "shm_nonstandard_detach i d =
     (if seg_flags (seg d i) AND OUTBOARD1_CREATE \<noteq> 0 then - EINVAL
      else if seg_flags (seg d i) AND OUTBOARD2_CREATE \<noteq> 0 then - EINVAL
      else - EINVAL)"

text \<open>The release of a segment whose last reference has gone, shared by \<open>shmdrv_vma_close\<close> and \<open>shmdrv_detach\<close>.\<close>

definition release_last :: "nat \<Rightarrow> shmdrv \<Rightarrow> shmdrv \<times> int" where
  "release_last i d =
     (if gc d \<and> n_uattach (seg d i) + n_kattach (seg d i) = 0
      then let (d1, ret) = (if seg_flags (seg d i) AND OUTBOARD_MASK \<noteq> 0 then (d, shm_nonstandard_detach i d)
                            else (shm_free i d, 0))
           in (upd_seg i (\<lambda>s. s\<lparr>in_use := False\<rparr>) d1, ret)
      else (d, 0))"

section \<open>Mappings\<close>

definition shmdrv_vma_open :: "nat \<Rightarrow> shmdrv \<Rightarrow> shmdrv" where
  "shmdrv_vma_open i d = upd_seg i (\<lambda>s. s\<lparr>n_uattach := n_uattach s + 1\<rparr>) d"

definition shmdrv_vma_close :: "nat \<Rightarrow> shmdrv \<Rightarrow> shmdrv" where
  "shmdrv_vma_close i d = fst (release_last i (upd_seg i (\<lambda>s. s\<lparr>n_uattach := n_uattach s - 1\<rparr>) d))"

text \<open>\<open>shm_mmap\<close>: \<open>segno\<close> is what the file descriptor carries, \<open>remap\<close> the result of \<open>remap_vmalloc_range\<close>.\<close>

definition shm_mmap :: "int \<Rightarrow> int \<Rightarrow> nat \<Rightarrow> shmdrv \<Rightarrow> shmdrv \<times> int" where
  "shm_mmap remap segno len d =
     (if segno < 0 \<or> segno > int (nseg d) - 1 then (d, - EINVAL)
      else let i = nat segno in
        if len > act_size (seg d i) then (d, - EINVAL)
        else if \<not> in_use (seg d i) then (d, - EINVAL)
        else if kmem (seg d i) = 0 then (d, - EINVAL)
        else if remap < 0 then (d, remap)
        else (shmdrv_vma_open i d, 0))"

section \<open>The table\<close>

fun find_key_from :: "int \<Rightarrow> nat \<Rightarrow> shm_segment list \<Rightarrow> int" where
  "find_key_from key i [] = - ENOENT"
| "find_key_from key i (s # ss) = (if in_use s \<and> key = seg_key s then int i else find_key_from key (i + 1) ss)"

definition find_shm_by_key :: "int \<Rightarrow> shmdrv \<Rightarrow> int" where
  "find_shm_by_key key d = find_key_from key 0 (shm_segments d)"

fun find_free_from :: "nat \<Rightarrow> shm_segment list \<Rightarrow> int" where
  "find_free_from i [] = - EINVAL"
| "find_free_from i (s # ss) = (if \<not> in_use s then int i else find_free_from (i + 1) ss)"

definition find_free_shm_lot :: "shmdrv \<Rightarrow> int" where
  "find_free_shm_lot d = find_free_from 0 (shm_segments d)"

text \<open>\<open>free_segments\<close>: the number of segments that are mapped by a process.\<close>

fun free_from :: "nat \<Rightarrow> nat \<Rightarrow> shmdrv \<Rightarrow> int \<Rightarrow> shmdrv \<times> int" where
  "free_from 0 i d fail = (d, fail)"
| "free_from (Suc k) i d fail =
     (if \<not> in_use (seg d i) then free_from k (i + 1) d fail
      else if n_uattach (seg d i) \<noteq> 0 then free_from k (i + 1) d (fail + 1)
      else free_from k (i + 1) (shm_free i d) fail)"

definition free_segments :: "shmdrv \<Rightarrow> shmdrv \<times> int" where
  "free_segments d = free_from (nseg d) 0 d 0"

section \<open>The interface inside the kernel\<close>

definition status_of :: "nat \<Rightarrow> shmdrv \<Rightarrow> shm_status \<Rightarrow> shm_status" where
  "status_of i d st =
     st\<lparr>sm_id := int i, sm_n_kattach := n_kattach (seg d i), sm_n_uattach := n_uattach (seg d i),
        sm_size := seg_size (seg d i), sm_act_size := act_size (seg d i), sm_creator := creator (seg d i),
        sm_flags := seg_flags (seg d i)\<rparr>"

definition shmdrv_status :: "shm_status \<Rightarrow> shmdrv \<Rightarrow> shm_status \<times> int" where
  "shmdrv_status st d =
     (let segno = find_shm_by_key (sm_key st) d in
      if segno < 0 then (st, - EINVAL) else (status_of (nat segno) d st, 0))"

text \<open>The third component is the address that a kernel module gets.\<close>

definition shmdrv_attach_pid :: "shm_status \<Rightarrow> int \<Rightarrow> shmdrv \<Rightarrow> shmdrv \<times> shm_status \<times> nat \<times> int" where
  "shmdrv_attach_pid st pid d =
     (let ret = find_shm_by_key (sm_key st) d in
      if ret < 0 then (d, st, 0, ret)
      else let i = nat ret;
               d1 = (if pid = 0 then upd_seg i (\<lambda>s. s\<lparr>n_kattach := n_kattach s + 1\<rparr>) d else d)
           in (d1, status_of i d1 st, kmem (seg d1 i), 0))"

definition new_segment :: "shm_status \<Rightarrow> int \<Rightarrow> shm_segment \<Rightarrow> shm_segment" where
  "new_segment st pid s =
     s\<lparr>creator := pid, in_use := True, seg_key := sm_key st, n_kattach := 0, n_uattach := 0,
       seg_size := sm_size st, seg_flags := sm_flags st\<rparr>"

definition shmdrv_create_pid :: "nat option \<Rightarrow> shm_status \<Rightarrow> int \<Rightarrow> shmdrv \<Rightarrow> shmdrv \<times> int" where
  "shmdrv_create_pid mem st pid d =
     (if sm_size st \<le> 0 then (d, - EINVAL)
      else if find_shm_by_key (sm_key st) d > - 1 then (d, - EINVAL)
      else
       (let segno = find_free_shm_lot d in
        if segno < 0 then (d, - EINVAL)
        else
         (let i = nat segno; d1 = upd_seg i (new_segment st pid) d;
              (d2, ret) = (if seg_flags (seg d1 i) AND OUTBOARD_MASK \<noteq> 0 then (d1, shm_nonstandard_attach i d1)
                           else case shm_malloc mem i d1 of (d2, r) \<Rightarrow> (d2, if kmem (seg d2 i) = 0 then - ENOMEM else r))
          in if ret \<noteq> 0 then (d2, ret) else (d2, segno))))"

definition shmdrv_create :: "nat option \<Rightarrow> shm_status \<Rightarrow> shmdrv \<Rightarrow> shmdrv \<times> int" where
  "shmdrv_create mem st d = shmdrv_create_pid mem st 0 d"

definition shmdrv_attach :: "shm_status \<Rightarrow> shmdrv \<Rightarrow> shmdrv \<times> shm_status \<times> nat \<times> int" where
  "shmdrv_attach st d = shmdrv_attach_pid st 0 d"

definition shmdrv_detach :: "shm_status \<Rightarrow> shmdrv \<Rightarrow> shmdrv \<times> shm_status \<times> int" where
  "shmdrv_detach st d =
     (let segno = find_shm_by_key (sm_key st) d in
      if segno < 0 then (d, st, - EINVAL)
      else let i = nat segno in
        if n_kattach (seg d i) = 0 then (d, st, - EINVAL)
        else
         (let d1 = upd_seg i (\<lambda>s. s\<lparr>n_kattach := n_kattach s - 1\<rparr>) d;
              st1 = st\<lparr>sm_id := segno, sm_n_kattach := n_kattach (seg d1 i), sm_n_uattach := n_uattach (seg d1 i)\<rparr>;
              (d2, ret) = release_last i d1
          in (d2, st1, ret)))"

section \<open>The device\<close>

definition shm_open :: "shmdrv \<Rightarrow> shmdrv \<times> int" where
  "shm_open d = (let d1 = d\<lparr>nopen := nopen d + 1\<rparr> in (if nopen d1 > maxopen d1 then d1\<lparr>maxopen := nopen d1\<rparr> else d1, - 1))"

definition shm_close :: "shmdrv \<Rightarrow> shmdrv" where
  "shm_close d = d\<lparr>nopen := nopen d - 1\<rparr>"

datatype shm_cmd = IOC_SHM_STATUS | IOC_SHM_CREATE | IOC_SHM_ATTACH | IOC_SHM_GC | IOC_OTHER

text \<open>
  \<open>shm_unlocked_ioctl\<close>: the state, the number the descriptor carries, the
  status record and the result. A creation that fails returns the 0 that
  \<open>copy_from_user\<close> left in \<open>ret\<close>.
\<close>

definition shm_unlocked_ioctl :: "nat option \<Rightarrow> int \<Rightarrow> shm_cmd \<Rightarrow> int \<Rightarrow> shm_status \<Rightarrow> shmdrv \<Rightarrow>
    shmdrv \<times> int \<times> shm_status \<times> int" where
  "shm_unlocked_ioctl mem pid cmd private st d =
     (case cmd of
        IOC_SHM_STATUS \<Rightarrow>
          (case shmdrv_status st d of (st1, ret) \<Rightarrow> if ret < 0 then (d, private, st, ret) else (d, private, st1, 0))
      | IOC_SHM_CREATE \<Rightarrow>
          (case shmdrv_create_pid mem st pid d of (d1, segno) \<Rightarrow>
             if segno < 0 then (d1, private, st, 0)
             else let s = seg d1 (nat segno)
                  in (d1, segno, st\<lparr>sm_id := segno, sm_n_kattach := n_kattach s, sm_n_uattach := n_uattach s,
                                   sm_act_size := act_size s, sm_creator := creator s\<rparr>, segno))
      | IOC_SHM_ATTACH \<Rightarrow>
          (case shmdrv_attach_pid st pid d of (d1, st1, _, ret) \<Rightarrow>
             if ret < 0 then (d1, private, st, ret) else (d1, sm_id st1, st1, 0))
      | IOC_SHM_GC \<Rightarrow> (case free_segments d of (d1, fail) \<Rightarrow> (d1, private, st, fail))
      | IOC_OTHER \<Rightarrow> (d, private, st, - EINVAL))"

section \<open>Searching the table\<close>

lemma find_key_from_ge:
  "find_key_from key i ss = int j \<Longrightarrow>
     i \<le> j \<and> j < i + length ss \<and> in_use (ss ! (j - i)) \<and> seg_key (ss ! (j - i)) = key"
proof (induction ss arbitrary: i)
  case (Cons s ss)
  show ?case
  proof (cases "in_use s \<and> key = seg_key s")
    case False
    then have "find_key_from key (i + 1) ss = int j" using Cons.prems by (simp split: if_splits)
    then have "i + 1 \<le> j \<and> j < i + 1 + length ss \<and> in_use (ss ! (j - (i + 1))) \<and> seg_key (ss ! (j - (i + 1))) = key"
      by (rule Cons.IH)
    moreover then have "(s # ss) ! (j - i) = ss ! (j - (i + 1))" by (simp add: nth_Cons')
    ultimately show ?thesis by auto
  qed (use Cons.prems in auto)
qed simp

lemma find_key_from_neg: "find_key_from key i ss < 0 \<longleftrightarrow> (\<forall>s\<in>set ss. in_use s \<longrightarrow> seg_key s \<noteq> key)"
  by (induction ss arbitrary: i) auto

lemma find_free_from_ge:
  "find_free_from i ss = int j \<Longrightarrow> i \<le> j \<and> j < i + length ss \<and> \<not> in_use (ss ! (j - i))"
proof (induction ss arbitrary: i)
  case (Cons s ss)
  show ?case
  proof (cases "in_use s")
    case True
    then have "i + 1 \<le> j \<and> j < i + 1 + length ss \<and> \<not> in_use (ss ! (j - (i + 1)))"
      using Cons.prems by (intro Cons.IH) simp
    moreover then have "(s # ss) ! (j - i) = ss ! (j - (i + 1))" by (simp add: nth_Cons')
    ultimately show ?thesis by auto
  qed (use Cons.prems in auto)
qed simp

lemma find_shm_found:
  assumes "\<not> find_shm_by_key key d < 0"
  obtains i where "find_shm_by_key key d = int i" "i < nseg d" "in_use (seg d i)" "seg_key (seg d i) = key"
proof
  let ?i = "nat (find_shm_by_key key d)"
  show e: "find_shm_by_key key d = int ?i" using assms by simp
  show "?i < nseg d" "in_use (seg d ?i)" "seg_key (seg d ?i) = key"
    using find_key_from_ge [of key 0 "shm_segments d" ?i] e by (auto simp: find_shm_by_key_def nseg_def seg_def)
qed

lemma find_free_found:
  assumes "\<not> find_free_shm_lot d < 0"
  obtains i where "find_free_shm_lot d = int i" "i < nseg d" "\<not> in_use (seg d i)"
proof
  let ?i = "nat (find_free_shm_lot d)"
  show e: "find_free_shm_lot d = int ?i" using assms by simp
  show "?i < nseg d" "\<not> in_use (seg d ?i)"
    using find_free_from_ge [of 0 "shm_segments d" ?i] e by (auto simp: find_free_shm_lot_def nseg_def seg_def)
qed

section \<open>The invariant of the table\<close>

definition used :: "shm_segment list \<Rightarrow> shm_segment list" where "used ss = filter in_use ss"

definition segment_ok :: "shm_segment \<Rightarrow> bool" where
  "segment_ok s \<longleftrightarrow> 0 \<le> n_kattach s \<and> 0 \<le> n_uattach s \<and>
     (if in_use s then kmem s \<noteq> 0 \<and> seg_flags s AND OUTBOARD_MASK = 0 else n_kattach s = 0 \<and> n_uattach s = 0)"

text \<open>Segments in use have distinct keys and own distinct blocks, which are all the blocks allocated.\<close>

definition table_ok :: "shm_segment list \<Rightarrow> nat set \<Rightarrow> nat \<Rightarrow> nat \<Rightarrow> bool" where
  "table_ok ss live a f \<longleftrightarrow> (\<forall>s\<in>set ss. segment_ok s) \<and> distinct (map seg_key (used ss)) \<and>
     distinct (map kmem (used ss)) \<and> live = set (map kmem (used ss)) \<and> a = f + sum_list (map act_size (used ss))"

lemmas table_defs = table_ok_def used_def segment_ok_def

definition shm_inv :: "shmdrv \<Rightarrow> bool" where
  "shm_inv d \<longleftrightarrow> table_ok (shm_segments d) (vlive d) (allocated d) (freed d) \<and> \<not> vfault d"

lemma segs_split:
  "i < nseg d \<Longrightarrow> shm_segments d = take i (shm_segments d) @ seg d i # drop (Suc i) (shm_segments d)"
  by (simp add: id_take_nth_drop seg_def nseg_def)

lemma segs_upd:
  "i < nseg d \<Longrightarrow> shm_segments (upd_seg i f d) = take i (shm_segments d) @ f (seg d i) # drop (Suc i) (shm_segments d)"
  by (simp add: upd_seg_def upd_conv_take_nth_drop nseg_def)

lemma seg_upd [simp]: "i < nseg d \<Longrightarrow> seg (upd_seg i f d) i = f (seg d i)"
  by (simp add: upd_seg_def seg_def nseg_def)

lemma upd_seg_fields [simp]:
  "vlive (upd_seg i f d) = vlive d" "allocated (upd_seg i f d) = allocated d" "freed (upd_seg i f d) = freed d"
  "vfault (upd_seg i f d) = vfault d" "gc (upd_seg i f d) = gc d" "nseg (upd_seg i f d) = nseg d"
  by (simp_all add: upd_seg_def nseg_def)

lemma inv_seg: "shm_inv d \<Longrightarrow> i < nseg d \<Longrightarrow> segment_ok (seg d i)"
  by (auto simp: shm_inv_def table_ok_def seg_def nseg_def)

lemma inv_counts:
  assumes inv: "shm_inv d" and i: "i < nseg d" and u: "in_use (seg d i)"
    and c: "0 \<le> k" "0 \<le> u'"
  shows "shm_inv (upd_seg i (\<lambda>s. s\<lparr>n_kattach := k, n_uattach := u'\<rparr>) d)"
proof -
  define xs ys where "xs = take i (shm_segments d)" and "ys = drop (Suc i) (shm_segments d)"
  have d: "shm_segments d = xs @ seg d i # ys" using segs_split [OF i] by (simp add: xs_def ys_def)
  have "shm_segments (upd_seg i f d) = xs @ f (seg d i) # ys" for f using segs_upd [OF i] by (simp add: xs_def ys_def)
  moreover have "table_ok (xs @ (seg d i)\<lparr>n_kattach := k, n_uattach := u'\<rparr> # ys) (vlive d) (allocated d) (freed d)"
    using inv u c unfolding shm_inv_def d by (simp add: table_defs)
  ultimately show ?thesis using inv by (simp add: shm_inv_def)
qed

text \<open>The last reference goes: the segment is free and its block released, once.\<close>

lemma inv_release:
  assumes inv: "shm_inv d" and i: "i < nseg d" and u: "in_use (seg d i)"
  shows "shm_inv (fst (release_last i d))" "snd (release_last i d) = 0"
    "gc d \<and> n_uattach (seg d i) + n_kattach (seg d i) = 0 \<Longrightarrow> \<not> in_use (seg (fst (release_last i d)) i)"
proof -
  define xs ys where "xs = take i (shm_segments d)" and "ys = drop (Suc i) (shm_segments d)"
  have d: "shm_segments d = xs @ seg d i # ys" using segs_split [OF i] by (simp add: xs_def ys_def)
  have ok: "segment_ok (seg d i)" by (rule inv_seg [OF inv i])
  then have k: "kmem (seg d i) \<noteq> 0" "seg_flags (seg d i) AND OUTBOARD_MASK = 0" using u by (auto simp: segment_ok_def)
  have live: "kmem (seg d i) \<in> vlive d" using inv u by (auto simp: shm_inv_def table_defs d)
  let ?f = "shm_free i d" and ?g = "\<lambda>s. s\<lparr>in_use := False\<rparr>"
  have f: "?f = d\<lparr>vlive := vlive d - {kmem (seg d i)}, freed := freed d + act_size (seg d i)\<rparr>"
    using k(1) live inv by (simp add: shm_free_def Let_def shm_inv_def)
  have s: "seg ?f i = seg d i" "i < nseg ?f" "shm_segments ?f = shm_segments d" using i by (simp_all add: f seg_def nseg_def)
  have segs: "shm_segments (upd_seg i ?g ?f) = xs @ ?g (seg d i) # ys"
    using segs_upd [OF s(2)] s by (simp add: xs_def ys_def)
  show "snd (release_last i d) = 0" using k(2) by (simp add: release_last_def Let_def)
  show "shm_inv (fst (release_last i d))"
  proof (cases "gc d \<and> n_uattach (seg d i) + n_kattach (seg d i) = 0")
    case True
    then have "n_uattach (seg d i) = 0" "n_kattach (seg d i) = 0" using ok by (auto simp: segment_ok_def)
    then have "table_ok (xs @ ?g (seg d i) # ys) (vlive d - {kmem (seg d i)}) (allocated d) (freed d + act_size (seg d i))"
      using inv u unfolding shm_inv_def d by (auto simp: table_defs)
    moreover have "fst (release_last i d) = upd_seg i ?g ?f" using True k(2) by (simp add: release_last_def Let_def)
    ultimately show ?thesis using inv segs by (simp add: shm_inv_def) (simp add: f)
  qed (use inv in \<open>auto simp: release_last_def Let_def\<close>)
  show "\<not> in_use (seg (fst (release_last i d)) i)" if "gc d \<and> n_uattach (seg d i) + n_kattach (seg d i) = 0"
    using that k(2) s(2) by (simp add: release_last_def Let_def)
qed

text \<open>A creation, given a fresh block and no outboard flags.\<close>

lemma inv_create:
  assumes inv: "shm_inv d" and m: "p \<noteq> 0" "p \<notin> vlive d" and fl: "sm_flags st AND OUTBOARD_MASK = 0"
    and c: "shmdrv_create_pid (Some p) st pid d = (d', r)"
  shows "shm_inv d'"
    "if sm_size st = 0 \<or> \<not> find_shm_by_key (sm_key st) d < 0 \<or> find_free_shm_lot d < 0 then r = - EINVAL \<and> d' = d
     else \<exists>i. r = int i \<and> i < nseg d' \<and> \<not> in_use (seg d i) \<and> vlive d' = insert p (vlive d) \<and>
       seg d' i = (new_segment st pid (seg d i))\<lparr>act_size := PAGE_ALIGN (sm_size st), kmem := p\<rparr> \<and>
       (\<forall>j. j \<noteq> i \<longrightarrow> seg d' j = seg d j)"
proof -
  have "shm_inv d' \<and> (if sm_size st = 0 \<or> \<not> find_shm_by_key (sm_key st) d < 0 \<or> find_free_shm_lot d < 0 then r = - EINVAL \<and> d' = d
     else \<exists>i. r = int i \<and> i < nseg d' \<and> \<not> in_use (seg d i) \<and> vlive d' = insert p (vlive d) \<and>
       seg d' i = (new_segment st pid (seg d i))\<lparr>act_size := PAGE_ALIGN (sm_size st), kmem := p\<rparr> \<and>
       (\<forall>j. j \<noteq> i \<longrightarrow> seg d' j = seg d j))"
  proof (cases "sm_size st = 0 \<or> \<not> find_shm_by_key (sm_key st) d < 0 \<or> find_free_shm_lot d < 0")
    case True
    then have "shmdrv_create_pid (Some p) st pid d = (d, - EINVAL)" by (auto simp: shmdrv_create_pid_def Let_def)
    then show ?thesis using c inv True by auto
  next
    case False
    then obtain i where i: "find_free_shm_lot d = int i" "i < nseg d" "\<not> in_use (seg d i)" using find_free_found by metis
    let ?s = "(new_segment st pid (seg d i))\<lparr>act_size := PAGE_ALIGN (sm_size st), kmem := p\<rparr>"
    let ?d1 = "upd_seg i (new_segment st pid) d"
    have s1: "seg ?d1 i = new_segment st pid (seg d i)" using i(2) by simp
    define d2 where "d2 = upd_seg i (\<lambda>s. s\<lparr>act_size := PAGE_ALIGN (sm_size st), kmem := p\<rparr>)
        (?d1\<lparr>allocated := allocated d + PAGE_ALIGN (sm_size st), vlive := insert p (vlive d)\<rparr>)"
    have "shm_malloc (Some p) i ?d1 = (d2, 0)"
      using s1 by (simp add: shm_malloc_def Let_def d2_def new_segment_def)
    moreover have other: "seg d2 j = seg d j" if "j \<noteq> i" for j
      using that by (simp add: d2_def upd_seg_def seg_def)
    moreover have s2: "seg d2 i = ?s"
    proof -
      have "seg (?d1\<lparr>allocated := x, vlive := y\<rparr>) k = seg ?d1 k" "nseg (?d1\<lparr>allocated := x, vlive := y\<rparr>) = nseg d" for x y k
        by (simp_all add: seg_def nseg_def upd_seg_def)
      then show ?thesis unfolding d2_def using i(2) s1 by simp
    qed
    ultimately have c': "shmdrv_create_pid (Some p) st pid d = (d2, int i)"
      using False i m(1) fl s1 by (simp add: shmdrv_create_pid_def Let_def new_segment_def)
    have n: "nseg d2 = nseg d" by (simp add: d2_def nseg_def upd_seg_def)
    define xs ys where "xs = take i (shm_segments d)" and "ys = drop (Suc i) (shm_segments d)"
    have d: "shm_segments d = xs @ seg d i # ys" using segs_split [OF i(2)] by (simp add: xs_def ys_def)
    have d2: "shm_segments d2 = xs @ ?s # ys"
      using i(2) by (simp add: d2_def upd_seg_def seg_def xs_def ys_def nseg_def upd_conv_take_nth_drop nth_append)
    have "find_shm_by_key (sm_key st) d < 0" using False by simp
    then have new: "\<forall>s\<in>set (shm_segments d). in_use s \<longrightarrow> seg_key s \<noteq> sm_key st"
      by (simp add: find_shm_by_key_def find_key_from_neg)
    have "table_ok (xs @ ?s # ys) (insert p (vlive d)) (allocated d + PAGE_ALIGN (sm_size st)) (freed d)"
      using inv i(3) m fl new unfolding shm_inv_def d by (auto simp: table_defs new_segment_def)
    then have "shm_inv d2" using inv d2 by (simp add: shm_inv_def) (simp add: d2_def upd_seg_def)
    moreover have "vlive d2 = insert p (vlive d)" by (simp add: d2_def)
    moreover have rd: "r = int i" "d' = d2" using c c' by simp_all
    ultimately show ?thesis unfolding rd if_not_P [OF False] using i(2,3) s2 other n by (intro conjI exI [of _ i]) simp_all
  qed
  then show "shm_inv d'" "if sm_size st = 0 \<or> \<not> find_shm_by_key (sm_key st) d < 0 \<or> find_free_shm_lot d < 0 then r = - EINVAL \<and> d' = d
     else \<exists>i. r = int i \<and> i < nseg d' \<and> \<not> in_use (seg d i) \<and> vlive d' = insert p (vlive d) \<and>
       seg d' i = (new_segment st pid (seg d i))\<lparr>act_size := PAGE_ALIGN (sm_size st), kmem := p\<rparr> \<and>
       (\<forall>j. j \<noteq> i \<longrightarrow> seg d' j = seg d j)" by blast+
qed

section \<open>Runs of the driver\<close>

text \<open>
  Creation from the kernel or a process, with or without memory and with any
  flags; attaching; detaching; mapping, copying a mapping when a process forks,
  and unmapping; collecting garbage; opening and closing the device. The flag
  says whether the run has been sound so far: no creation has failed after it
  had taken a slot of the table, and no collection has found a segment in use
  that no process maps, whose memory it releases without freeing the slot.
\<close>

inductive shm_step :: "shmdrv \<times> bool \<Rightarrow> shmdrv \<times> bool \<Rightarrow> bool" where
  create: "(mem \<noteq> None \<longrightarrow> the mem \<noteq> 0 \<and> the mem \<notin> vlive d) \<Longrightarrow> shmdrv_create_pid mem st pid d = (d', r) \<Longrightarrow>
    shm_step (d, sound) (d', sound \<and> (r < 0 \<longrightarrow> d' = d))"
| attach: "shm_step (d, sound) (fst (shmdrv_attach_pid st pid d), sound)"
| detach: "shm_step (d, sound) (fst (shmdrv_detach st d), sound)"
| mmap: "shm_step (d, sound) (fst (shm_mmap remap segno len d), sound)"
| fork: "i < nseg d \<Longrightarrow> 0 < n_uattach (seg d i) \<Longrightarrow> shm_step (d, sound) (shmdrv_vma_open i d, sound)"
| munmap: "i < nseg d \<Longrightarrow> 0 < n_uattach (seg d i) \<Longrightarrow> shm_step (d, sound) (shmdrv_vma_close i d, sound)"
| collect: "shm_step (d, sound) (fst (free_segments d), sound \<and> (\<forall>i < nseg d. in_use (seg d i) \<longrightarrow> n_uattach (seg d i) \<noteq> 0))"
| dev_open: "shm_step (d, sound) (fst (shm_open d), sound)"
| dev_close: "shm_step (d, sound) (shm_close d, sound)"

lemma upd_seg_counts:
  "upd_seg i (\<lambda>s. s\<lparr>n_kattach := n_kattach s + a\<rparr>) d =
     upd_seg i (\<lambda>s. s\<lparr>n_kattach := n_kattach (seg d i) + a, n_uattach := n_uattach (seg d i)\<rparr>) d"
  "upd_seg i (\<lambda>s. s\<lparr>n_kattach := n_kattach s - a\<rparr>) d =
     upd_seg i (\<lambda>s. s\<lparr>n_kattach := n_kattach (seg d i) - a, n_uattach := n_uattach (seg d i)\<rparr>) d"
  "upd_seg i (\<lambda>s. s\<lparr>n_uattach := n_uattach s + a\<rparr>) d =
     upd_seg i (\<lambda>s. s\<lparr>n_kattach := n_kattach (seg d i), n_uattach := n_uattach (seg d i) + a\<rparr>) d"
  "upd_seg i (\<lambda>s. s\<lparr>n_uattach := n_uattach s - a\<rparr>) d =
     upd_seg i (\<lambda>s. s\<lparr>n_kattach := n_kattach (seg d i), n_uattach := n_uattach (seg d i) - a\<rparr>) d"
  by (simp_all add: upd_seg_def)

lemma inv_attach: assumes "shm_inv d" shows "shm_inv (fst (shmdrv_attach_pid st pid d))"
proof (cases "find_shm_by_key (sm_key st) d < 0")
  case False
  then obtain i where i: "find_shm_by_key (sm_key st) d = int i" "i < nseg d" "in_use (seg d i)" using find_shm_found by metis
  have "0 \<le> n_kattach (seg d i) + 1" "0 \<le> n_uattach (seg d i)" using inv_seg [OF assms i(2)] by (auto simp: segment_ok_def)
  from inv_counts [OF assms i(2,3) this] show ?thesis
    using assms i(1) by (simp add: shmdrv_attach_pid_def Let_def upd_seg_counts)
qed (simp add: shmdrv_attach_pid_def assms)

lemma inv_detach: assumes "shm_inv d" shows "shm_inv (fst (shmdrv_detach st d))"
proof (cases "find_shm_by_key (sm_key st) d < 0")
  case False
  then obtain i where i: "find_shm_by_key (sm_key st) d = int i" "i < nseg d" "in_use (seg d i)" using find_shm_found by metis
  show ?thesis
  proof (cases "n_kattach (seg d i) = 0")
    case nz: False
    let ?d = "upd_seg i (\<lambda>s. s\<lparr>n_kattach := n_kattach s - 1\<rparr>) d"
    have c: "0 \<le> n_kattach (seg d i) - 1" "0 \<le> n_uattach (seg d i)"
      using inv_seg [OF assms i(2)] nz by (auto simp: segment_ok_def)
    have "shm_inv ?d" using inv_counts [OF assms i(2,3) c] by (simp add: upd_seg_counts)
    from inv_release(1) [OF this, of i] have "shm_inv (fst (release_last i ?d))" using i(2,3) by simp
    then show ?thesis using i(1) nz by (simp add: shmdrv_detach_def Let_def split_def)
  qed (simp add: shmdrv_detach_def i(1) assms)
qed (simp add: shmdrv_detach_def assms)

lemma inv_vma:
  assumes "shm_inv d" "i < nseg d"
  shows "in_use (seg d i) \<Longrightarrow> shm_inv (shmdrv_vma_open i d)"
    "0 < n_uattach (seg d i) \<Longrightarrow> in_use (seg d i)"
    "0 < n_uattach (seg d i) \<Longrightarrow> shm_inv (shmdrv_vma_close i d)"
proof -
  have ok: "segment_ok (seg d i)" by (rule inv_seg [OF assms])
  show u: "in_use (seg d i)" if "0 < n_uattach (seg d i)" using that ok by (auto simp: segment_ok_def split: if_splits)
  have c: "0 \<le> n_kattach (seg d i)" "0 \<le> n_uattach (seg d i) + 1" using ok by (auto simp: segment_ok_def)
  show "shm_inv (shmdrv_vma_open i d)" if "in_use (seg d i)"
    using inv_counts [OF assms that c] by (simp add: shmdrv_vma_open_def upd_seg_counts)
  show "shm_inv (shmdrv_vma_close i d)" if g: "0 < n_uattach (seg d i)"
  proof -
    let ?d = "upd_seg i (\<lambda>s. s\<lparr>n_uattach := n_uattach s - 1\<rparr>) d"
    have "shm_inv ?d" using inv_counts [OF assms u [OF g] c(1), of "n_uattach (seg d i) - 1"] g by (simp add: upd_seg_counts)
    from inv_release(1) [OF this, of i] show ?thesis using assms(2) u [OF g] by (simp add: shmdrv_vma_close_def)
  qed
qed

lemma inv_mmap: assumes "shm_inv d" shows "shm_inv (fst (shm_mmap remap segno len d))"
proof -
  have "nat segno < nseg d" if "\<not> (segno < 0 \<or> segno > int (nseg d) - 1)" using that by linarith
  then show ?thesis using assms inv_vma(1) [of d "nat segno"] by (simp add: shm_mmap_def Let_def)
qed

lemma inv_create_any:
  assumes "shm_inv d" "mem \<noteq> None \<longrightarrow> the mem \<noteq> 0 \<and> the mem \<notin> vlive d" "shmdrv_create_pid mem st pid d = (d', r)"
    "r < 0 \<longrightarrow> d' = d"
  shows "shm_inv d'"
proof (cases "r < 0")
  case False
  then obtain p where "mem = Some p" "sm_flags st AND OUTBOARD_MASK = 0"
  proof -
    have i: "nat (find_free_shm_lot d) < nseg d" if "\<not> find_free_shm_lot d < 0" using that find_free_found nat_int by metis
    have n: "shm_nonstandard_attach i d = - EINVAL" for i d by (simp add: shm_nonstandard_attach_def)
    show ?thesis using assms(3) False i that
      by (cases mem) (auto simp: shmdrv_create_pid_def Let_def shm_malloc_def n new_segment_def split: if_splits)
  qed
  then show ?thesis using inv_create(1) [OF assms(1), of p st pid d' r] assms(2,3) by simp
qed (use assms in simp)

lemma collect_nothing:
  "(\<forall>j. i \<le> j \<and> j < i + k \<and> in_use (seg d j) \<longrightarrow> n_uattach (seg d j) \<noteq> 0) \<Longrightarrow> fst (free_from k i d fail) = d"
  by (induction k i d fail rule: free_from.induct) auto

text \<open>The keys stay distinct in every run.\<close>

definition keys_ok :: "shmdrv \<Rightarrow> bool" where
  "keys_ok d \<longleftrightarrow> distinct (map seg_key (used (shm_segments d)))"

lemma keys_upd:
  assumes "keys_ok d" "in_use (f (seg d i)) \<Longrightarrow> in_use (seg d i) \<and> seg_key (f (seg d i)) = seg_key (seg d i) \<or>
    (\<forall>s\<in>set (shm_segments d). in_use s \<longrightarrow> seg_key s \<noteq> seg_key (f (seg d i)))"
  shows "keys_ok (upd_seg i f d)"
proof (cases "i < nseg d")
  case True
  define xs ys where "xs = take i (shm_segments d)" and "ys = drop (Suc i) (shm_segments d)"
  have d: "shm_segments d = xs @ seg d i # ys" using segs_split [OF True] by (simp add: xs_def ys_def)
  have u: "shm_segments (upd_seg i f d) = xs @ f (seg d i) # ys" using segs_upd [OF True] by (simp add: xs_def ys_def)
  show ?thesis using assms unfolding keys_ok_def u d used_def by (cases "in_use (f (seg d i))") (auto simp: image_iff split: if_splits)
next
  case False
  then show ?thesis using assms(1) by (simp add: keys_ok_def upd_seg_def nseg_def list_update_beyond not_less)
qed

lemma keys_same: "shm_segments d' = shm_segments d \<Longrightarrow> keys_ok d' = keys_ok d"
  by (simp add: keys_ok_def)

lemma keys_free: "keys_ok (shm_free i d) = keys_ok d"
  by (rule keys_same) (simp add: shm_free_def Let_def)

lemma keys_release: "keys_ok d \<Longrightarrow> keys_ok (fst (release_last i d))"
  by (auto simp: release_last_def Let_def keys_free intro!: keys_upd)

lemma keys_create:
  assumes "keys_ok d"
  shows "keys_ok (fst (shmdrv_create_pid mem st pid d))"
proof (cases "sm_size st \<le> 0 \<or> find_shm_by_key (sm_key st) d > - 1 \<or> find_free_shm_lot d < 0")
  case False
  let ?i = "nat (find_free_shm_lot d)" and ?d = "upd_seg (nat (find_free_shm_lot d)) (new_segment st pid) d"
  have "\<forall>s\<in>set (shm_segments d). in_use s \<longrightarrow> seg_key s \<noteq> sm_key st"
    using False find_key_from_neg [of "sm_key st" 0 "shm_segments d"] by (simp add: find_shm_by_key_def)
  then have k: "keys_ok ?d" by (intro keys_upd [OF assms]) (simp add: new_segment_def)
  then have "keys_ok (fst (shm_malloc mem ?i ?d))"
    by (auto simp: shm_malloc_def Let_def split: option.splits intro!: keys_upd) (simp_all add: keys_ok_def seg_def)
  then show ?thesis using False k by (auto simp: shmdrv_create_pid_def Let_def split: prod.splits)
qed (use assms in \<open>auto simp: shmdrv_create_pid_def Let_def\<close>)

lemma keys_step: "shm_step ds ds' \<Longrightarrow> keys_ok (fst ds) \<Longrightarrow> keys_ok (fst ds')"
proof (induction rule: shm_step.induct)
  case (create mem d st pid d' r sound)
  then show ?case using keys_create [of d mem st pid] by simp
next
  case (collect d sound)
  have "keys_ok (fst (free_from k i d fail)) = keys_ok d" for k i fail
    by (induction k i d fail rule: free_from.induct) (simp_all add: keys_free)
  then show ?case using collect by (simp add: free_segments_def)
next
  case (mmap d sound remap segno len)
  then show ?case by (auto simp: shm_mmap_def Let_def shmdrv_vma_open_def intro!: keys_upd)
next
  case (dev_open d sound)
  then show ?case by (simp add: keys_ok_def shm_open_def Let_def)
next
  case (dev_close d sound)
  then show ?case by (simp add: keys_ok_def shm_close_def)
qed (auto simp: shmdrv_attach_pid_def shmdrv_detach_def shmdrv_vma_open_def shmdrv_vma_close_def Let_def split_def
    intro!: keys_upd keys_release)

definition driver_ok :: "shmdrv \<times> bool \<Rightarrow> bool" where
  "driver_ok ds = (case ds of (d, sound) \<Rightarrow> keys_ok d \<and> (sound \<longrightarrow> shm_inv d))"

lemma inv_step: "shm_step ds ds' \<Longrightarrow> snd ds \<longrightarrow> shm_inv (fst ds) \<Longrightarrow> snd ds' \<longrightarrow> shm_inv (fst ds')"
proof (induction rule: shm_step.induct)
  case (create mem d st pid d' r sound)
  then show ?case using inv_create_any [of d mem st pid d' r] by simp
next
  case (fork i d sound)
  then show ?case using inv_vma(1,2) [of d i] by simp
next
  case (munmap i d sound)
  then show ?case using inv_vma(3) [of d i] by simp
next
  case (collect d sound)
  then show ?case using collect_nothing [of 0 "nseg d" d 0] by (simp add: free_segments_def)
next
  case (dev_open d sound)
  then show ?case by (simp add: shm_inv_def shm_open_def Let_def)
next
  case (dev_close d sound)
  then show ?case by (simp add: shm_inv_def shm_close_def)
qed (use inv_attach inv_detach inv_mmap in auto)

interpretation shmdrv: transition_invariant shm_step driver_ok
proof
  show "driver_ok ds'" if "shm_step ds ds'" "driver_ok ds" for ds ds'
    using keys_step [OF that(1)] inv_step [OF that(1)] that(2) by (auto simp: driver_ok_def split: prod.splits)
qed

lemma init_inv: "shm_inv (init_shmemdata n g)"
  by (simp add: shm_inv_def init_shmemdata_def table_defs empty_segment_def)

lemma init_ok: "driver_ok (init_shmemdata n g, True)"
  using init_inv [of n g] by (simp add: driver_ok_def keys_ok_def shm_inv_def table_ok_def)

section \<open>The life of a segment\<close>

lemma distinct_filter_nth:
  "distinct (map f (filter P xs)) \<Longrightarrow> i < length xs \<Longrightarrow> j < length xs \<Longrightarrow> P (xs ! i) \<Longrightarrow> P (xs ! j) \<Longrightarrow>
     f (xs ! i) = f (xs ! j) \<Longrightarrow> i = j"
proof (induction xs arbitrary: i j)
  case (Cons x xs)
  then show ?case by (cases i; cases j) (auto split: if_splits simp: rev_image_eqI image_iff)
qed simp

lemma find_unique:
  assumes "shm_inv d" "i < nseg d" "in_use (seg d i)"
  shows "find_shm_by_key (seg_key (seg d i)) d = int i"
proof -
  let ?k = "seg_key (seg d i)"
  have "seg d i \<in> set (shm_segments d)" using assms(2) by (simp add: seg_def nseg_def)
  then have "\<not> find_shm_by_key ?k d < 0" using assms(3) by (auto simp: find_shm_by_key_def find_key_from_neg)
  then obtain j where j: "find_shm_by_key ?k d = int j" "j < nseg d" "in_use (seg d j)" "seg_key (seg d j) = ?k"
    by (rule find_shm_found)
  have "distinct (map seg_key (filter in_use (shm_segments d)))" using assms(1) by (simp add: shm_inv_def table_defs)
  then have "j = i" by (rule distinct_filter_nth) (use j assms in \<open>simp_all add: seg_def nseg_def\<close>)
  then show ?thesis using j(1) by simp
qed

lemma find_none: "(\<And>j. j < nseg d \<Longrightarrow> in_use (seg d j) \<Longrightarrow> seg_key (seg d j) \<noteq> key) \<Longrightarrow> find_shm_by_key key d < 0"
  unfolding find_shm_by_key_def find_key_from_neg seg_def nseg_def all_set_conv_all_nth by simp

lemma find_noneD: "find_shm_by_key key d < 0 \<Longrightarrow> j < nseg d \<Longrightarrow> in_use (seg d j) \<Longrightarrow> seg_key (seg d j) \<noteq> key"
  by (auto simp: find_shm_by_key_def find_key_from_neg seg_def nseg_def)

lemma seg_upd_other [simp]: "j \<noteq> i \<Longrightarrow> seg (upd_seg i f d) j = seg d j"
  by (simp add: upd_seg_def seg_def)

section \<open>Properties\<close>


definition demo_status :: shm_status where
  "demo_status = \<lparr>sm_key = 42, sm_size = 5000, sm_act_size = 0, sm_flags = 0, sm_id = 0, sm_n_kattach = 0,
     sm_n_uattach = 0, sm_creator = 0\<rparr>"

definition demo_shm :: shmdrv where
  "demo_shm = fst (shmdrv_create_pid (Some 64) demo_status 7 (init_shmemdata 2 True))"

lemma demo_shm_reach: "shm_step\<^sup>*\<^sup>* (init_shmemdata 2 True, True) (demo_shm, True)"
proof -
  let ?r = "shmdrv_create_pid (Some 64) demo_status 7 (init_shmemdata 2 True)"
  have "snd ?r = 0" by code_simp
  moreover have "shm_step (init_shmemdata 2 True, True) (fst ?r, True \<and> (snd ?r < 0 \<longrightarrow> fst ?r = init_shmemdata 2 True))"
    by (rule shm_step.create [of "Some 64" _ demo_status 7]) (simp_all add: init_shmemdata_def)
  ultimately show ?thesis by (simp add: demo_shm_def r_into_rtranclp)
qed


text \<open>C37: a segment lives from its creation to its last detachment. In every state that a sound run
  reaches (as in C27) a creation with a fresh key succeeds while there is room; a kernel module that attaches then gets exactly
  the new block and the requested size, the segment is counted once, and when it detaches the
  driver, collecting garbage, releases the block and forgets the key, with the other segments
  untouched.\<close>

theorem shmdrv_create_attach_detach:
  assumes "shm_step\<^sup>*\<^sup>* (init_shmemdata n g, True) (d, True)" "gc d" "p \<noteq> 0" "p \<notin> vlive d" "sm_flags st AND OUTBOARD_MASK = 0"
    and "0 < sm_size st" "find_shm_by_key (sm_key st) d < 0" "\<not> find_free_shm_lot d < 0"
  shows "\<exists>d1 d2 d3 i st2 st3. shmdrv_create (Some p) st d = (d1, int i) \<and>
    shmdrv_attach st d1 = (d2, st2, p, 0) \<and> sm_size st2 = sm_size st \<and> sm_n_kattach st2 = 1 \<and>
    shmdrv_detach st d2 = (d3, st3, 0) \<and> find_shm_by_key (sm_key st) d3 < 0 \<and> vlive d3 = vlive d \<and> \<not> vfault d3 \<and>
    (\<forall>j. j \<noteq> i \<longrightarrow> seg d3 j = seg d j)"
proof -
  have inv: "shm_inv d" using shmdrv.reach_keeps [OF assms(1) init_ok] by (simp add: driver_ok_def)
  obtain d1 r where c: "shmdrv_create_pid (Some p) st 0 d = (d1, r)" by fastforce
  note cr = inv_create [OF inv assms(3-5) c]
  have "\<not> (sm_size st = 0 \<or> \<not> find_shm_by_key (sm_key st) d < 0 \<or> find_free_shm_lot d < 0)" using assms(6-8) by simp
  then obtain i where i: "r = int i" "i < nseg d1" "vlive d1 = insert p (vlive d)"
    "seg d1 i = (new_segment st 0 (seg d i))\<lparr>act_size := PAGE_ALIGN (sm_size st), kmem := p\<rparr>"
    "\<forall>j. j \<noteq> i \<longrightarrow> seg d1 j = seg d j" using cr(2) by (simp only: if_False) blast
  have s1: "in_use (seg d1 i)" "seg_key (seg d1 i) = sm_key st" "n_kattach (seg d1 i) = 0" "n_uattach (seg d1 i) = 0"
    "seg_size (seg d1 i) = sm_size st" "kmem (seg d1 i) = p" "seg_flags (seg d1 i) AND OUTBOARD_MASK = 0"
    using assms(5) by (simp_all add: i(4) new_segment_def)
  have gd: "gc d1" "nseg d1 = nseg d"
    using c assms(2) by (auto simp: shmdrv_create_pid_def Let_def shm_malloc_def nseg_def upd_seg_def split: if_splits)
  have f1: "find_shm_by_key (sm_key st) d1 = int i" using find_unique [OF cr(1) i(2) s1(1)] s1(2) by simp
  define d2 where "d2 = upd_seg i (\<lambda>s. s\<lparr>n_kattach := n_kattach s + 1\<rparr>) d1"
  have a: "shmdrv_attach st d1 = (d2, status_of i d2 st, p, 0)"
    using f1 i(2) s1 by (simp add: shmdrv_attach_def shmdrv_attach_pid_def Let_def d2_def)
  have inv2: "shm_inv d2" using inv_attach [OF cr(1), of st 0] a by (simp add: shmdrv_attach_def)
  have s2: "seg d2 i = (seg d1 i)\<lparr>n_kattach := 1\<rparr>" "i < nseg d2" using i(2) s1(3) by (simp_all add: d2_def)
  have f2: "find_shm_by_key (sm_key st) d2 = int i"
    using find_unique [OF inv2 s2(2)] s1(1,2) s2(1) by simp
  define d3 where "d3 = upd_seg i (\<lambda>s. s\<lparr>n_kattach := n_kattach s - 1\<rparr>) d2"
  have s3: "seg d3 i = (seg d1 i)\<lparr>n_kattach := 0\<rparr>" "i < nseg d3" "gc d3" using s2 gd by (simp_all add: d3_def d2_def)
  let ?d4 = "upd_seg i (\<lambda>s. s\<lparr>in_use := False\<rparr>) (shm_free i d3)"
  have "release_last i d3 = (?d4, 0)" using s3 s1 by (simp add: release_last_def Let_def)
  then obtain st3 where dt: "shmdrv_detach st d2 = (?d4, st3, 0)"
    using f2 s2(1) by (auto simp: shmdrv_detach_def Let_def d3_def [symmetric])
  have inv4: "shm_inv ?d4" using inv_detach [OF inv2, of st] dt by simp
  have fr: "seg (shm_free i d3) j = seg d3 j" "nseg (shm_free i d3) = nseg d3" "vlive (shm_free i d3) = vlive d3 - {p}" for j
    using s3 s1 assms(3) by (simp_all add: shm_free_def Let_def seg_def nseg_def)
  have o: "seg ?d4 j = seg d j" if "j \<noteq> i" for j using that i(5) fr(1) by (simp add: d3_def d2_def)
  have "find_shm_by_key (sm_key st) ?d4 < 0"
  proof (rule find_none)
    fix j assume j: "j < nseg ?d4" "in_use (seg ?d4 j)"
    have "\<not> in_use (seg ?d4 i)" using s3(2) fr by simp
    then have "j \<noteq> i" using j(2) by auto
    moreover have "j < nseg d" using j(1) gd(2) fr(2) by (simp add: d3_def d2_def)
    ultimately show "seg_key (seg ?d4 j) \<noteq> sm_key st" using j(2) o find_noneD [OF assms(7)] by simp
  qed
  moreover have "vlive ?d4 = vlive d" using fr(3) i(3) assms(4) by (simp add: d3_def d2_def)
  moreover have "sm_size (status_of i d2 st) = sm_size st" "sm_n_kattach (status_of i d2 st) = 1"
    using s2 s1 by (simp_all add: status_of_def)
  ultimately show ?thesis using c i(1) a dt inv4 o by (force simp: shmdrv_create_def shm_inv_def)
qed

theorem shmdrv_create_attach_detach_witness:
  "\<exists>d1 d2 d3 i st2 st3. shmdrv_create (Some 64) demo_status (init_shmemdata 2 True) = (d1, int i) \<and>
    shmdrv_attach demo_status d1 = (d2, st2, 64, 0) \<and> shmdrv_detach demo_status d2 = (d3, st3, 0) \<and> vlive d3 = {}"
proof -
  let ?d = "init_shmemdata 2 True"
  have r: "shm_step\<^sup>*\<^sup>* (?d, True) (?d, True)" by simp
  have f: "find_shm_by_key (sm_key demo_status) ?d < 0" "\<not> find_free_shm_lot ?d < 0"
    by (simp_all add: find_shm_by_key_def find_free_shm_lot_def init_shmemdata_def empty_segment_def numeral_2_eq_2)
  show ?thesis
    using shmdrv_create_attach_detach [OF r _ _ _ _ _ f, of 64]
    by (simp add: init_shmemdata_def demo_status_def) blast
qed

section \<open>Where the driver's memory is not safe\<close>

text \<open>
  A creation that finds no memory leaves its slot in use: the key is taken by a
  segment without memory, and the process is told success.
\<close>

lemma create_failure_takes_key:
  "let (d, private, st, ret) = shm_unlocked_ioctl None 7 IOC_SHM_CREATE (- 1) demo_status (init_shmemdata 2 True)
   in ret = 0 \<and> find_shm_by_key 42 d = 0 \<and> kmem (seg d 0) = 0"
  by code_simp

text \<open>Collecting twice releases the block of an unmapped segment twice.\<close>

lemma collect_twice:
  "let d = fst (free_segments demo_shm) in find_shm_by_key 42 d = 0 \<and> \<not> vfault d \<and> vfault (fst (free_segments d))"
  by code_simp

end
