(* ===== verification/Scope_Rt.thy ===== *)
theory Scope_Rt
  imports Hal_Types
begin

text \<open>
  The realtime half of the oscilloscope (\<open>modules/managed/components/scope_rt\<close>):
  a state machine run by \<open>sample\<close> that fills a circular buffer in shared memory
  and looks for a trigger. The control structures of \<open>scope_shm.h\<close> and
  \<open>scope_rt.h\<close> are one record, as is the static variable of \<open>check_trigger\<close>;
  the pins and signals sampled are an argument, the eight bytes at each offset
  of the HAL segment. The user interface, which writes the same structure, is
  part of the step relation. Counters stay far inside an \<open>int\<close>.
\<close>

unbundle bit_operations_syntax

section \<open>State\<close>

datatype scope_state = IDLE | INIT | PRE_TRIG | TRIG_WAIT | POST_TRIG | DONE | RESET

record scope_shm_control =
  buf_len :: int
  watchdog :: int
  mult :: int
  rec_len :: int
  sample_len :: int
  pre_trig :: int
  trig_chan :: nat
  trig_level :: u64
  trig_edge :: bool
  force_trig :: bool
  auto_trig :: bool
  scope_start :: int
  curr :: int
  samples :: int
  state :: scope_state
  data_offset :: "nat list"
  data_type :: "nat list"
  data_len :: "nat list"

record scope_rt_control = scope_shm_control +
  buffer :: "int \<Rightarrow> u64"
  mult_cntr :: int
  auto_timer :: int
  rt_data_len :: "nat list"
  data_addr :: "nat list"
  rt_data_type :: "nat list"
  compare_result :: int

text \<open>The content of the HAL segment, eight bytes from each offset.\<close>

type_synonym hal_image = "nat \<Rightarrow> u64"

section \<open>Capturing a sample\<close>

text \<open>A store to one member of the union \<open>scope_data_t\<close> leaves its other bytes as they are.\<close>

definition store_value :: "nat \<Rightarrow> u64 \<Rightarrow> u64 \<Rightarrow> u64" where
  "store_value len v old =
     (if len = 1 then (old AND NOT 0xff) OR (v AND 0xff)
      else if len = 4 then (old AND NOT 0xffffffff) OR (v AND 0xffffffff)
      else v)"

definition sampled :: "nat \<Rightarrow> bool" where "sampled len \<longleftrightarrow> len = 1 \<or> len = 4 \<or> len = 8"

fun capture_chans :: "hal_image \<Rightarrow> (nat \<times> nat) list \<Rightarrow> int \<Rightarrow> (int \<Rightarrow> u64) \<Rightarrow> int \<Rightarrow> u64" where
  "capture_chans mem [] dest b = b"
| "capture_chans mem ((len, addr) # cs) dest b =
     (if sampled len
      then capture_chans mem cs (dest + 1) (b(dest := store_value len (mem addr) (b dest)))
      else capture_chans mem cs dest b)"

definition next_pos :: "scope_rt_control \<Rightarrow> int \<Rightarrow> int" where
  "next_pos s p = (let q = p + sample_len s in if q + sample_len s > buf_len s then 0 else q)"

definition capture_sample :: "hal_image \<Rightarrow> scope_rt_control \<Rightarrow> scope_rt_control" where
  "capture_sample mem s =
     s\<lparr>buffer := capture_chans mem (zip (rt_data_len s) (data_addr s)) (curr s) (buffer s),
       curr := next_pos s (curr s)\<rparr>"

section \<open>The trigger\<close>

text \<open>The comparison of two doubles by their bits.\<close>

definition SIGN_BIT :: u64 where "SIGN_BIT = 0x8000000000000000"

definition float_above :: "u64 \<Rightarrow> u64 \<Rightarrow> bool" where
  "float_above tmp1 tmp2 =
     (if tmp1 AND SIGN_BIT \<noteq> 0
      then if tmp2 AND SIGN_BIT \<noteq> 0 then tmp1 XOR SIGN_BIT < tmp2 XOR SIGN_BIT else False
      else if tmp2 AND SIGN_BIT \<noteq> 0 then True else tmp1 > tmp2)"

definition low_s32 :: "u64 \<Rightarrow> int" where "low_s32 v = sint (ucast v :: 32 word)"
definition low_u32 :: "u64 \<Rightarrow> int" where "low_u32 v = uint (ucast v :: 32 word)"

definition compare_value :: "nat \<Rightarrow> u64 \<Rightarrow> u64 \<Rightarrow> int" where
  "compare_value t v lev =
     (if t = HAL_BIT then uint (v AND 0xff)
      else if t = HAL_FLOAT then of_bool (float_above v lev)
      else if t = HAL_S32 then of_bool (low_s32 v > low_s32 lev)
      else if t = HAL_U32 then of_bool (low_u32 v > low_u32 lev)
      else if t = HAL_S64 then of_bool (sint v > sint lev)
      else if t = HAL_U64 then of_bool (v > lev)
      else 0)"

definition check_trigger :: "hal_image \<Rightarrow> scope_rt_control \<Rightarrow> scope_rt_control \<times> bool" where
  "check_trigger mem s =
     (if force_trig s then (s, True)
      else
       (let s1 = (if auto_trig s then s\<lparr>auto_timer := auto_timer s + 1\<rparr> else s\<lparr>auto_timer := 0\<rparr>)
        in if auto_trig s \<and> auto_timer s1 \<ge> rec_len s then (s1, True)
           else if trig_chan s = 0 then (s1, False)
           else
            (let i = trig_chan s - 1; prev = compare_result s;
                 c = compare_value (rt_data_type s ! i) (mem (data_addr s ! i)) (trig_level s);
                 s2 = s1\<lparr>compare_result := c\<rparr>
             in (s2, (trig_edge s \<and> c \<noteq> 0 \<and> prev = 0) \<or> (\<not> trig_edge s \<and> c = 0 \<and> prev \<noteq> 0)))))"

section \<open>The state machine\<close>

definition start_record :: "scope_rt_control \<Rightarrow> scope_rt_control" where
  "start_record s = s\<lparr>curr := 0, scope_start := 0, samples := 0, force_trig := False\<rparr>"

definition load_channels :: "scope_rt_control \<Rightarrow> scope_rt_control" where
  "load_channels s = s\<lparr>data_addr := data_offset s, rt_data_type := data_type s, rt_data_len := data_len s\<rparr>"

text \<open>Three states acquire a sample and count it.\<close>

definition acquire :: "hal_image \<Rightarrow> scope_rt_control \<Rightarrow> scope_rt_control" where
  "acquire mem s = (let s1 = capture_sample mem s in s1\<lparr>samples := samples s1 + 1\<rparr>)"

definition run_state :: "hal_image \<Rightarrow> scope_rt_control \<Rightarrow> scope_rt_control" where
  "run_state mem s =
     (case state s of
        IDLE \<Rightarrow> s
      | INIT \<Rightarrow> (load_channels ((start_record s)\<lparr>auto_timer := 0\<rparr>))\<lparr>state := PRE_TRIG\<rparr>
      | PRE_TRIG \<Rightarrow>
          (let s2 = acquire mem s
           in if samples s2 \<ge> pre_trig s2 then fst (check_trigger mem (s2\<lparr>state := TRIG_WAIT\<rparr>)) else s2)
      | TRIG_WAIT \<Rightarrow>
          (let s2 = acquire mem s
           in case check_trigger mem s2 of (s3, fired) \<Rightarrow>
                if fired then s3\<lparr>state := POST_TRIG\<rparr>
                else s3\<lparr>samples := samples s3 - 1, scope_start := next_pos s3 (scope_start s3)\<rparr>)
      | POST_TRIG \<Rightarrow>
          (let s2 = acquire mem s
           in if samples s2 \<ge> rec_len s2 then s2\<lparr>state := DONE\<rparr> else s2)
      | DONE \<Rightarrow> s
      | RESET \<Rightarrow> s\<lparr>state := IDLE\<rparr>)"

definition sample :: "hal_image \<Rightarrow> scope_rt_control \<Rightarrow> scope_rt_control" where
  "sample mem s =
     (let s1 = s\<lparr>watchdog := 0\<rparr>;
          s2 = (if state s1 = RESET then (start_record s1)\<lparr>state := IDLE\<rparr> else s1);
          s3 = s2\<lparr>mult_cntr := mult_cntr s2 + 1\<rparr>
      in if mult_cntr s3 < mult s3 then s3 else run_state mem (s3\<lparr>mult_cntr := 0\<rparr>))"

text \<open>\<open>init_rt_control_struct\<close> and \<open>init_shm_control_struct\<close>: everything 0 but these two.\<close>

definition init_rt_control_struct :: "int \<Rightarrow> (int \<Rightarrow> u64) \<Rightarrow> scope_rt_control" where
  "init_rt_control_struct len b =
     \<lparr>buf_len = len, watchdog = 0, mult = 1, rec_len = 0, sample_len = 0, pre_trig = 0, trig_chan = 0,
      trig_level = 0, trig_edge = False, force_trig = False, auto_trig = False, scope_start = 0, curr = 0,
      samples = 0, state = IDLE, data_offset = replicate 16 0, data_type = replicate 16 0,
      data_len = replicate 16 0, buffer = b, mult_cntr = 0, auto_timer = 0, rt_data_len = replicate 16 0,
      data_addr = replicate 16 0, rt_data_type = replicate 16 0, compare_result = 0\<rparr>"

section \<open>The user interface\<close>

text \<open>
  The accesses of \<open>halscope\<close> to the control structure: \<open>start_capture\<close> with the
  channels it has resolved and the trigger position, and \<open>capture_copy_data\<close>,
  which unrolls the circular buffer into the display buffer.
\<close>

definition start_capture :: "nat list \<Rightarrow> nat list \<Rightarrow> nat list \<Rightarrow> int \<Rightarrow> scope_rt_control \<Rightarrow> scope_rt_control" where
  "start_capture offs types lens pre s =
     (if state s \<noteq> IDLE then s
      else s\<lparr>data_offset := offs, data_type := types, data_len := lens, pre_trig := pre, state := INIT\<rparr>)"

fun copy_samples :: "nat \<Rightarrow> int \<Rightarrow> int \<Rightarrow> scope_rt_control \<Rightarrow> (int \<Rightarrow> u64) \<Rightarrow> int \<Rightarrow> u64" where
  "copy_samples 0 src dst s disp = disp"
| "copy_samples (Suc n) src dst s disp =
     (let disp1 = (\<lambda>i. if dst \<le> i \<and> i < dst + sample_len s then buffer s (src + (i - dst)) else disp i);
          src1 = src + sample_len s
      in copy_samples n (if src1 \<ge> rec_len s * sample_len s then 0 else src1) (dst + sample_len s) s disp1)"

definition capture_copy_data :: "scope_rt_control \<Rightarrow> int \<Rightarrow> u64" where
  "capture_copy_data s = copy_samples (nat (samples s)) (scope_start s) 0 s (\<lambda>_. 0)"

definition capture_complete :: "scope_rt_control \<Rightarrow> scope_rt_control \<times> (int \<Rightarrow> u64)" where
  "capture_complete s = (s\<lparr>state := IDLE\<rparr>, capture_copy_data s)"

section \<open>Doubles compared by their bits\<close>

text \<open>The value of a double as a multiple of the least positive one; infinities are the largest values.\<close>

definition float_exp :: "u64 \<Rightarrow> nat" where "float_exp w = unat w div 2 ^ 52 mod 2 ^ 11"
definition float_frac :: "u64 \<Rightarrow> nat" where "float_frac w = unat w mod 2 ^ 52"
definition float_neg :: "u64 \<Rightarrow> bool" where "float_neg w \<longleftrightarrow> 2 ^ 63 \<le> unat w"

definition float_mag :: "nat \<Rightarrow> nat \<Rightarrow> nat" where
  "float_mag e f = (if e = 0 then f else (2 ^ 52 + f) * 2 ^ (e - 1))"

definition float_value :: "u64 \<Rightarrow> int" where
  "float_value w = (if float_neg w then - 1 else 1) * int (float_mag (float_exp w) (float_frac w))"

lemma float_mag_less: "f < 2 ^ 52 \<Longrightarrow> e < e' \<Longrightarrow> float_mag e f < float_mag e' f'"
proof -
  assume f: "f < 2 ^ 52" and e: "e < e'"
  then obtain k where k: "e' = Suc k" "e \<le> k" by (metis less_imp_Suc_add le_add1)
  have "float_mag e f < 2 ^ 52 * 2 ^ e"
  proof (cases e)
    case 0
    then show ?thesis using f by (simp add: float_mag_def)
  next
    case (Suc j)
    have "(2 ^ 52 + f) * 2 ^ j < (2 ^ 52 + 2 ^ 52) * 2 ^ j" using f by (intro mult_strict_right_mono) simp_all
    then show ?thesis using Suc by (simp add: float_mag_def)
  qed
  also have "2 ^ 52 * 2 ^ e \<le> (2 ^ 52 + f') * (2 ^ k :: nat)"
    using k(2) by (intro mult_mono power_increasing) simp_all
  finally show ?thesis using k by (simp add: float_mag_def)
qed

lemma float_mag_mono_frac: "f < f' \<Longrightarrow> float_mag e f < float_mag e f'"
  by (simp add: float_mag_def)

text \<open>The magnitude grows with the pattern without its sign.\<close>

lemma pattern_order:
  assumes "f < 2 ^ 52" "f' < 2 ^ 52"
  shows "float_mag e f < float_mag e' f' \<longleftrightarrow> e * 2 ^ 52 + f < e' * 2 ^ 52 + f'"
proof -
  have lt: "float_mag a g < float_mag b h \<and> a * 2 ^ 52 + g < b * 2 ^ 52 + h"
    if "a < b" "g < 2 ^ 52" for a b g h :: nat
  proof
    show "float_mag a g < float_mag b h" by (rule float_mag_less [OF that(2,1)])
    have "a * 2 ^ 52 + g < Suc a * 2 ^ 52" using that(2) by simp
    also have "\<dots> \<le> b * 2 ^ 52" using that(1) by (intro mult_right_mono) simp_all
    finally show "a * 2 ^ 52 + g < b * 2 ^ 52 + h" by simp
  qed
  consider "e < e'" | "e' < e" | "e = e'" by linarith
  then show ?thesis
  proof cases
    case 1
    then show ?thesis using lt [OF 1 assms(1), of f'] by simp
  next
    case 2
    then show ?thesis using lt [OF 2 assms(2), of f] by simp
  next
    case 3
    then show ?thesis using float_mag_mono_frac by (metis add_less_cancel_left not_less_iff_gr_or_eq)
  qed
qed

lemma pattern_split: "float_exp w * 2 ^ 52 + float_frac w = unat w mod 2 ^ 63" "float_frac w < 2 ^ 52"
proof -
  have "unat w mod (2 ^ 52 * 2 ^ 11) = 2 ^ 52 * (unat w div 2 ^ 52 mod 2 ^ 11) + unat w mod 2 ^ 52"
    by (rule mod_mult2_eq)
  then show "float_exp w * 2 ^ 52 + float_frac w = unat w mod 2 ^ 63"
    by (simp add: float_exp_def float_frac_def)
qed (simp add: float_frac_def)

lemma sign_bit: "w AND SIGN_BIT \<noteq> 0 \<longleftrightarrow> float_neg w"
proof -
  have e: "SIGN_BIT = 2 ^ 63" by (simp add: SIGN_BIT_def)
  have "w AND SIGN_BIT \<noteq> 0 \<longleftrightarrow> bit w 63"
    unfolding e and_exp_eq_0_iff_not_bit by simp
  also have "\<dots> \<longleftrightarrow> odd (unat w div 2 ^ 63)"
    using bit_unsigned_iff [of w 63, where ?'a = nat] by (simp add: bit_iff_odd possible_bit_def)
  also have "\<dots> \<longleftrightarrow> float_neg w"
  proof -
    have "unat w < 2 ^ 64" using unsigned_less [of w, where ?'a = nat] by simp
    then have "unat w div 2 ^ 63 = (if 2 ^ 63 \<le> unat w then 1 else 0)" by auto
    then show ?thesis by (simp add: float_neg_def)
  qed
  finally show ?thesis .
qed

lemma clear_sign: "float_neg w \<Longrightarrow> unat (w XOR SIGN_BIT) = unat w mod 2 ^ 63"
proof -
  assume n: "float_neg w"
  have e: "SIGN_BIT = 2 ^ 63" by (simp add: SIGN_BIT_def)
  have b: "bit w 63" using n sign_bit [of w] unfolding e and_exp_eq_0_iff_not_bit by simp
  have "w XOR SIGN_BIT = take_bit 63 w"
  proof (rule bit_word_eqI)
    fix k assume "k < LENGTH(64)"
    then show "bit (w XOR SIGN_BIT) k = bit (take_bit 63 w) k"
      using b unfolding e bit_xor_iff bit_exp_iff bit_take_bit_iff by (cases "k = 63") auto
  qed
  then have "unat (w XOR SIGN_BIT) = take_bit 63 (unat w)" by (simp only: unsigned_take_bit_eq)
  then show ?thesis by (simp add: take_bit_eq_mod)
qed

lemma float_neg_mod: "unat w = (if float_neg w then 2 ^ 63 else 0) + unat w mod 2 ^ 63"
proof -
  have "unat w < 2 ^ 63 + 2 ^ 63" using unsigned_less [of w, where ?'a = nat] by simp
  then show ?thesis by (auto simp: float_neg_def mod_if)
qed


section \<open>Samples in the buffer\<close>

definition chan_value :: "nat \<Rightarrow> u64 \<Rightarrow> u64" where
  "chan_value len v = (if len = 1 then v AND 0xff else if len = 4 then v AND 0xffffffff else v)"

fun snapshot :: "hal_image \<Rightarrow> (nat \<times> nat) list \<Rightarrow> u64 list" where
  "snapshot mem [] = []"
| "snapshot mem ((len, addr) # cs) =
     (if sampled len then chan_value len (mem addr) # snapshot mem cs else snapshot mem cs)"

fun read_chans :: "(nat \<times> nat) list \<Rightarrow> int \<Rightarrow> (int \<Rightarrow> u64) \<Rightarrow> u64 list" where
  "read_chans [] p b = []"
| "read_chans ((len, addr) # cs) p b =
     (if sampled len then chan_value len (b p) # read_chans cs (p + 1) b else read_chans cs p b)"

fun width :: "(nat \<times> nat) list \<Rightarrow> int" where
  "width [] = 0"
| "width ((len, addr) # cs) = (if sampled len then 1 + width cs else width cs)"

lemma width_nonneg: "0 \<le> width cs"
  by (induction cs rule: width.induct) auto

lemma chan_value_store [simp]: "chan_value len (store_value len v old) = chan_value len v"
proof -
  have "((old AND NOT m) OR (v AND m)) AND m = v AND m" for m :: u64
    by (rule bit_word_eqI) (auto simp: bit_simps)
  note m = this
  show ?thesis using m [of "0xff"] m [of "0xffffffff"] by (simp add: chan_value_def store_value_def)
qed

lemma capture_frame: "p < dest \<or> dest + width cs \<le> p \<Longrightarrow> capture_chans mem cs dest b p = b p"
proof (induction mem cs dest b rule: capture_chans.induct)
  case (2 mem len addr cs dest b)
  show ?case
  proof (cases "sampled len")
    case True
    have "p < dest + 1 \<or> dest + 1 + width cs \<le> p" "p \<noteq> dest" using 2(3) True width_nonneg [of cs] by auto
    then show ?thesis using 2(1) [OF True] True by (simp del: fun_upd_apply) simp
  qed (use 2 in auto)
qed simp

lemma read_chans_cong:
  "(\<And>q. p \<le> q \<Longrightarrow> q < p + width cs \<Longrightarrow> b q = b' q) \<Longrightarrow> read_chans cs p b = read_chans cs p b'"
proof (induction cs p b rule: read_chans.induct)
  case (2 len addr cs p b)
  show ?case
  proof (cases "sampled len")
    case True
    have "b p = b' p" by (rule 2(3)) (use True width_nonneg [of cs] in auto)
    moreover have "read_chans cs (p + 1) b = read_chans cs (p + 1) b'"
      by (rule 2(1) [OF True]) (rule 2(3), use True in auto)
    ultimately show ?thesis using True by simp
  qed (use 2 in auto)
qed simp

lemma capture_read: "read_chans cs dest (capture_chans mem cs dest b) = snapshot mem cs"
proof (induction mem cs dest b rule: capture_chans.induct)
  case (2 mem len addr cs dest b)
  then show ?case by (cases "sampled len") (simp_all add: capture_frame del: fun_upd_apply, simp)
qed simp

section \<open>The circular buffer\<close>

definition chans :: "scope_rt_control \<Rightarrow> (nat \<times> nat) list" where "chans s = zip (rt_data_len s) (data_addr s)"

definition slot_read :: "scope_rt_control \<Rightarrow> int \<Rightarrow> u64 list" where
  "slot_read s i = read_chans (chans s) (sample_len s * i) (buffer s)"

text \<open>The record in the buffer, oldest sample first.\<close>

definition scope_record :: "scope_rt_control \<Rightarrow> u64 list list" where
  "scope_record s =
     map (\<lambda>k. slot_read s ((scope_start s div sample_len s + int k) mod rec_len s)) [0 ..< nat (samples s)]"

definition geometry :: "scope_rt_control \<Rightarrow> bool" where
  "geometry s \<longleftrightarrow> 0 < sample_len s \<and> rec_len s = buf_len s div sample_len s \<and> 3 \<le> rec_len s \<and> pre_trig s \<le> rec_len s - 2"

definition scope_rep :: "scope_rt_control \<Rightarrow> u64 list list \<Rightarrow> bool" where
  "scope_rep s H \<longleftrightarrow> width (chans s) \<le> sample_len s \<and>
     (\<exists>t. 0 \<le> t \<and> t < rec_len s \<and> scope_start s = sample_len s * t \<and> 0 \<le> samples s \<and> samples s \<le> rec_len s \<and>
        curr s = sample_len s * ((t + samples s) mod rec_len s) \<and> samples s \<le> int (length H)) \<and>
     scope_record s = drop (length H - nat (samples s)) H"

lemma next_pos_slot:
  assumes "geometry s" "0 \<le> c" "c < rec_len s"
  shows "next_pos s (sample_len s * c) = sample_len s * ((c + 1) mod rec_len s)"
proof -
  let ?L = "sample_len s" and ?K = "rec_len s"
  have L: "0 < ?L" and b: "buf_len s = ?L * ?K + buf_len s mod ?L" using assms(1) by (simp_all add: geometry_def)
  have m: "0 \<le> buf_len s mod ?L" "buf_len s mod ?L < ?L" using L by simp_all
  have "?L * c + ?L + ?L > buf_len s \<longleftrightarrow> c + 1 = ?K"
  proof
    assume k: "c + 1 = ?K"
    have "buf_len s = ?L * (c + 1) + buf_len s mod ?L" using b k by simp
    then show "?L * c + ?L + ?L > buf_len s" using m(2) by (simp add: distrib_left)
  next
    assume a: "?L * c + ?L + ?L > buf_len s"
    have "\<not> c + 2 \<le> ?K"
    proof
      assume "c + 2 \<le> ?K"
      then have "?L * (c + 2) \<le> ?L * ?K" using L by simp
      then show False using a b m(1) by (simp add: algebra_simps)
    qed
    then show "c + 1 = ?K" using assms(3) by linarith
  qed
  moreover have "(c + 1) mod ?K = (if c + 1 = ?K then 0 else c + 1)" using assms(2,3) by auto
  ultimately show ?thesis by (simp add: next_pos_def Let_def algebra_simps)
qed

lemma slot_read_other:
  assumes "sample_len s' = sample_len s" "chans s' = chans s" "buffer s' = capture_chans mem (chans s) (sample_len s * c) (buffer s)"
    and "0 < sample_len s" "width (chans s) \<le> sample_len s"
  shows "slot_read s' i = (if i = c then snapshot mem (chans s) else slot_read s i)"
proof (cases "i = c")
  case True
  then show ?thesis using assms(1-3) by (simp add: slot_read_def capture_read)
next
  case False
  have "sample_len s * i + sample_len s \<le> sample_len s * c \<or> sample_len s * c + sample_len s \<le> sample_len s * i"
  proof -
    have "i + 1 \<le> c \<or> c + 1 \<le> i" using False by linarith
    then have "sample_len s * (i + 1) \<le> sample_len s * c \<or> sample_len s * (c + 1) \<le> sample_len s * i"
      using assms(4) by simp
    then show ?thesis by (simp add: distrib_left)
  qed
  then have "buffer s' q = buffer s q" if "sample_len s * i \<le> q" "q < sample_len s * i + width (chans s)" for q
    unfolding assms(3) by (rule_tac capture_frame) (use that assms(5) in linarith)
  then have "read_chans (chans s) (sample_len s * i) (buffer s') = read_chans (chans s) (sample_len s * i) (buffer s)"
    by (rule read_chans_cong)
  then show ?thesis using False assms(1,2) by (simp add: slot_read_def)
qed

lemma slots_distinct:
  assumes "0 \<le> k" "k < n" "n < K"
  shows "(t + k) mod K \<noteq> (t + n) mod (K :: int)"
proof
  assume "(t + k) mod K = (t + n) mod K"
  then have "K dvd (t + n) - (t + k)" by (metis mod_eq_dvd_iff)
  then have "K dvd n - k" by simp
  then show False using assms zdvd_imp_le [of K "n - k"] by simp
qed

lemma acquire_fields:
  "chans (acquire mem s) = chans s" "sample_len (acquire mem s) = sample_len s" "rec_len (acquire mem s) = rec_len s"
  "buf_len (acquire mem s) = buf_len s" "pre_trig (acquire mem s) = pre_trig s"
  "scope_start (acquire mem s) = scope_start s" "samples (acquire mem s) = samples s + 1" "state (acquire mem s) = state s"
  "curr (acquire mem s) = next_pos s (curr s)"
  "buffer (acquire mem s) = capture_chans mem (chans s) (curr s) (buffer s)" "force_trig (acquire mem s) = force_trig s"
  by (simp_all add: acquire_def capture_sample_def Let_def chans_def)

lemma acquire_rep:
  assumes g: "geometry s" and rep: "scope_rep s H" and n: "samples s < rec_len s"
  shows "scope_rep (acquire mem s) (H @ [snapshot mem (chans s)])"
proof -
  let ?L = "sample_len s" and ?K = "rec_len s" and ?n = "samples s" and ?s = "acquire mem s"
  obtain t where t: "0 \<le> t" "t < ?K" "scope_start s = ?L * t" "0 \<le> ?n" "curr s = ?L * ((t + ?n) mod ?K)" "?n \<le> int (length H)"
    and w: "width (chans s) \<le> ?L" and r: "scope_record s = drop (length H - nat ?n) H"
    using rep by (auto simp: scope_rep_def)
  have L: "0 < ?L" and K: "0 < ?K" using g by (simp_all add: geometry_def)
  let ?c = "(t + ?n) mod ?K"
  have c: "0 \<le> ?c" "?c < ?K" using K by simp_all
  have sl: "slot_read ?s i = (if i = ?c then snapshot mem (chans s) else slot_read s i)" for i
    by (rule slot_read_other) (use L w t(5) in \<open>simp_all add: acquire_fields\<close>)
  have d: "scope_start s div ?L = t" using t(3) L by simp
  have "scope_record ?s = map (\<lambda>k. slot_read ?s ((t + int k) mod ?K)) [0 ..< Suc (nat ?n)]"
    using t(4) d by (simp add: scope_record_def acquire_fields nat_add_distrib)
  also have "\<dots> = map (\<lambda>k. slot_read s ((t + int k) mod ?K)) [0 ..< nat ?n] @ [snapshot mem (chans s)]"
  proof -
    have "slot_read ?s ((t + int k) mod ?K) = slot_read s ((t + int k) mod ?K)" if "k < nat ?n" for k
      using slots_distinct [of "int k" ?n ?K t] that n by (simp add: sl)
    then show ?thesis using t(4) by (simp add: sl)
  qed
  also have "\<dots> = drop (length H - nat ?n) H @ [snapshot mem (chans s)]"
    using r d by (simp add: scope_record_def)
  finally have "scope_record ?s = drop (length (H @ [snapshot mem (chans s)]) - nat (samples ?s)) (H @ [snapshot mem (chans s)])"
    using t(4,6) by (simp add: acquire_fields nat_add_distrib)
  moreover have "curr ?s = ?L * ((t + samples ?s) mod ?K)"
    using next_pos_slot [OF g c] t(5) by (simp add: acquire_fields mod_add_left_eq add.assoc)
  ultimately show ?thesis
    using t w n unfolding scope_rep_def acquire_fields by auto
qed

lemma discard_rep:
  assumes g: "geometry s" and rep: "scope_rep s H" and n: "1 \<le> samples s"
  shows "scope_rep (s\<lparr>samples := samples s - 1, scope_start := next_pos s (scope_start s)\<rparr>) H"
proof -
  let ?L = "sample_len s" and ?K = "rec_len s" and ?n = "samples s"
  let ?s = "s\<lparr>samples := samples s - 1, scope_start := next_pos s (scope_start s)\<rparr>"
  obtain t where t: "0 \<le> t" "t < ?K" "scope_start s = ?L * t" "?n \<le> ?K" "curr s = ?L * ((t + ?n) mod ?K)" "?n \<le> int (length H)"
    and w: "width (chans s) \<le> ?L" and r: "scope_record s = drop (length H - nat ?n) H"
    using rep by (auto simp: scope_rep_def)
  have L: "0 < ?L" and K: "0 < ?K" using g by (simp_all add: geometry_def)
  let ?t = "(t + 1) mod ?K"
  have st: "scope_start ?s = ?L * ?t" using next_pos_slot [OF g t(1,2)] t(3) by simp
  obtain m where m: "nat ?n = Suc m" using n by (cases "nat ?n") simp_all
  have "scope_record ?s = map (\<lambda>k. slot_read s ((?t + int k) mod ?K)) [0 ..< m]"
    using st L m n by (simp add: scope_record_def slot_read_def chans_def nat_diff_distrib)
  also have "\<dots> = map (\<lambda>k. slot_read s ((t + int (Suc k)) mod ?K)) [0 ..< m]"
    by (simp add: mod_add_left_eq add.assoc)
  also have "\<dots> = tl (scope_record s)"
    using t(3) L m by (simp add: scope_record_def map_upt_Suc del: upt_Suc)
  also have "\<dots> = drop (length H - nat (samples ?s)) H"
    using r m n t(6) by (simp add: drop_Suc [symmetric] tl_drop Suc_diff_le nat_diff_distrib) (metis Suc_diff_Suc Suc_le_lessD drop_Suc nat_le_iff tl_drop)
  finally have "scope_record ?s = drop (length H - nat (samples ?s)) H" .
  moreover have "curr ?s = ?L * ((?t + samples ?s) mod ?K)" using t(5) by (simp add: mod_add_left_eq)
  moreover have "0 \<le> ?t" "?t < ?K" using K by simp_all
  moreover have "0 \<le> samples ?s" "samples ?s \<le> ?K" "samples ?s \<le> int (length H)" using n t(4,6) by simp_all
  ultimately show ?thesis using w st unfolding scope_rep_def by (intro conjI exI [of _ ?t]) (simp_all add: chans_def)
qed

section \<open>Recording\<close>

text \<open>
  A state together with the samples captured so far and the index of the one at
  which the trigger fired last. The index of the trigger in a record is
  \<open>trigger_at\<close>: at least one sample is taken before it.
\<close>

type_synonym recording = "scope_rt_control \<times> u64 list list \<times> nat option"

definition trigger_at :: "scope_rt_control \<Rightarrow> int" where "trigger_at s = max 1 (pre_trig s)"

definition active :: "scope_state \<Rightarrow> bool" where "active st \<longleftrightarrow> st = PRE_TRIG \<or> st = TRIG_WAIT \<or> st = POST_TRIG"

definition captures :: "scope_rt_control \<Rightarrow> bool" where
  "captures s \<longleftrightarrow> active (state s) \<and> mult s \<le> mult_cntr s + 1"

definition triggered :: "scope_rt_control \<Rightarrow> u64 list list \<Rightarrow> nat option \<Rightarrow> bool" where
  "triggered s H T \<longleftrightarrow> T = Some (length H - nat (samples s) + nat (trigger_at s))"

fun scope_inv :: "recording \<Rightarrow> bool" where
  "scope_inv (s, H, T) \<longleftrightarrow>
     (case state s of
        INIT \<Rightarrow> geometry s \<and> width (zip (data_len s) (data_offset s)) \<le> sample_len s
      | PRE_TRIG \<Rightarrow> geometry s \<and> scope_rep s H \<and> samples s < trigger_at s
      | TRIG_WAIT \<Rightarrow> geometry s \<and> scope_rep s H \<and> samples s = trigger_at s
      | POST_TRIG \<Rightarrow> geometry s \<and> scope_rep s H \<and> trigger_at s < samples s \<and> samples s < rec_len s \<and> triggered s H T
      | DONE \<Rightarrow> geometry s \<and> scope_rep s H \<and> samples s = rec_len s \<and> triggered s H T
      | _ \<Rightarrow> True)"

inductive scope_step :: "recording \<Rightarrow> recording \<Rightarrow> bool" where
  sample: "H' = (if captures s then H @ [snapshot mem (chans s)] else H) \<Longrightarrow> s' = sample mem s \<Longrightarrow>
    T' = (if state s = TRIG_WAIT \<and> state s' = POST_TRIG then Some (length H) else T) \<Longrightarrow>
    scope_step (s, H, T) (s', H', T')"
| configure: "state s = IDLE \<Longrightarrow> scope_step (s, H, T) (s\<lparr>sample_len := l, rec_len := buf_len s div l\<rparr>, H, T)"
| start: "state s = IDLE \<Longrightarrow> s' = start_capture offs types lens pre s \<Longrightarrow> geometry s' \<Longrightarrow>
    width (zip lens offs) \<le> sample_len s \<Longrightarrow> scope_step (s, H, T) (s', H, T)"
| trigger: "scope_step (s, H, T) (s\<lparr>trig_chan := c, trig_level := l, trig_edge := e, auto_trig := a, mult := m\<rparr>, H, T)"
| force: "scope_step (s, H, T) (s\<lparr>force_trig := True\<rparr>, H, T)"
| stop: "scope_step (s, H, T) (s\<lparr>state := RESET\<rparr>, H, T)"
| complete: "state s = DONE \<Longrightarrow> scope_step (s, H, T) (fst (capture_complete s), H, T)"

text \<open>Fields that the record in the buffer does not depend on.\<close>

lemmas rep_defs = scope_rep_def scope_record_def slot_read_def chans_def geometry_def triggered_def trigger_at_def

lemma same_rep:
  assumes "s' = s\<lparr>auto_timer := a, compare_result := c, state := st\<rparr>"
  shows "scope_rep s' H = scope_rep s H" "geometry s' = geometry s" "triggered s' H T = triggered s H T"
    "trigger_at s' = trigger_at s" "samples s' = samples s" "rec_len s' = rec_len s" "state s' = st"
    "next_pos s' p = next_pos s p" "scope_start s' = scope_start s"
  using assms by (simp_all add: rep_defs next_pos_def)

lemma check_trigger_same:
  assumes "check_trigger mem s = (s', f)"
  obtains a c where "s' = s\<lparr>auto_timer := a, compare_result := c, state := state s\<rparr>"
proof -
  have "s' = s\<lparr>auto_timer := auto_timer s', compare_result := compare_result s', state := state s\<rparr>"
    using assms by (auto simp: check_trigger_def Let_def split: if_splits)
  then show thesis by (rule that)
qed

lemma acquire_geometry: "geometry (acquire mem s) = geometry s" "trigger_at (acquire mem s) = trigger_at s"
  by (simp_all add: geometry_def trigger_at_def acquire_fields)

lemma trigger_room: "geometry s \<Longrightarrow> 1 \<le> trigger_at s \<and> trigger_at s + 1 < rec_len s"
  by (auto simp: geometry_def trigger_at_def)

lemma inv_pre:
  assumes "geometry s" "scope_rep s H" "samples s < trigger_at s" "state s = PRE_TRIG" "s' = run_state mem s"
  shows "scope_inv (s', H @ [snapshot mem (chans s)], T)"
proof -
  let ?a = "acquire mem s"
  have room: "samples s < rec_len s" using trigger_room [OF assms(1)] assms(3) by linarith
  have rep: "scope_rep ?a (H @ [snapshot mem (chans s)])" by (rule acquire_rep [OF assms(1,2) room])
  have pos: "0 \<le> samples s" using assms(2) by (auto simp: scope_rep_def)
  show ?thesis
  proof (cases "samples ?a \<ge> pre_trig ?a")
    case True
    then have eq: "samples s + 1 = trigger_at s" using assms(3) pos by (auto simp: acquire_fields trigger_at_def)
    obtain s2 f where c: "check_trigger mem (?a\<lparr>state := TRIG_WAIT\<rparr>) = (s2, f)" by fastforce
    obtain x y where "s2 = (?a\<lparr>state := TRIG_WAIT\<rparr>)\<lparr>auto_timer := x, compare_result := y, state := TRIG_WAIT\<rparr>"
      by (rule check_trigger_same [OF c]) simp
    then have s2: "s2 = ?a\<lparr>auto_timer := x, compare_result := y, state := TRIG_WAIT\<rparr>" by simp
    have "s' = s2" using assms(4,5) True c by (simp add: run_state_def Let_def)
    then show ?thesis using same_rep [OF s2] rep assms(1) eq by (simp add: acquire_geometry acquire_fields)
  next
    case False
    then have "s' = ?a" using assms(4,5) by (simp add: run_state_def Let_def)
    then show ?thesis using False rep assms(1,4) by (simp add: acquire_geometry acquire_fields trigger_at_def)
  qed
qed

lemma inv_wait:
  assumes "geometry s" "scope_rep s H" "samples s = trigger_at s" "state s = TRIG_WAIT" "s' = run_state mem s"
    and "T' = (if state s' = POST_TRIG then Some (length H) else T)"
  shows "scope_inv (s', H @ [snapshot mem (chans s)], T')"
proof -
  let ?a = "acquire mem s" and ?H = "H @ [snapshot mem (chans s)]"
  note room = trigger_room [OF assms(1)]
  have rep: "scope_rep ?a ?H" by (rule acquire_rep [OF assms(1,2)]) (use room assms(3) in linarith)
  have len: "samples s \<le> int (length H)" using assms(2) by (auto simp: scope_rep_def)
  obtain s2 f where c: "check_trigger mem ?a = (s2, f)" by fastforce
  obtain x y where s2: "s2 = ?a\<lparr>auto_timer := x, compare_result := y, state := TRIG_WAIT\<rparr>"
    by (rule check_trigger_same [OF c]) (simp add: acquire_fields assms(4))
  note same = same_rep [OF s2]
  show ?thesis
  proof (cases f)
    case True
    then have s': "s' = ?a\<lparr>auto_timer := x, compare_result := y, state := POST_TRIG\<rparr>"
      using assms(4,5) c s2 by (simp add: run_state_def Let_def)
    note same' = same_rep [OF s']
    have "triggered ?a ?H (Some (length H))"
      using room len assms(3) by (simp add: triggered_def acquire_geometry acquire_fields nat_add_distrib)
    then show ?thesis
      using same' rep assms(1,3,6) room by (simp add: acquire_geometry acquire_fields)
  next
    case False
    then have s': "s' = s2\<lparr>samples := samples s2 - 1, scope_start := next_pos s2 (scope_start s2)\<rparr>"
      using assms(4,5) c by (simp add: run_state_def Let_def)
    have "geometry s2" "scope_rep s2 ?H" "1 \<le> samples s2" using same rep assms(1,3) room by (simp_all add: acquire_geometry acquire_fields)
    then have "scope_rep s' ?H" unfolding s' by (rule discard_rep)
    moreover have "geometry s'" "trigger_at s' = trigger_at s" "samples s' = trigger_at s" "state s' = TRIG_WAIT"
      using assms(1,3) same \<open>geometry s2\<close> unfolding s' by (simp_all add: geometry_def trigger_at_def acquire_fields s2)
    ultimately show ?thesis by simp
  qed
qed

lemma inv_post:
  assumes "geometry s" "scope_rep s H" "trigger_at s < samples s" "samples s < rec_len s" "triggered s H T"
    and "state s = POST_TRIG" "s' = run_state mem s"
  shows "scope_inv (s', H @ [snapshot mem (chans s)], T)"
proof -
  let ?a = "acquire mem s" and ?H = "H @ [snapshot mem (chans s)]"
  have rep: "scope_rep ?a ?H" by (rule acquire_rep [OF assms(1,2,4)])
  have "0 \<le> samples s" "samples s \<le> int (length H)" using assms(2) by (auto simp: scope_rep_def)
  then have tr: "triggered ?a ?H T"
    using assms(5) by (simp add: triggered_def acquire_geometry acquire_fields nat_add_distrib)
  show ?thesis
  proof (cases "samples ?a \<ge> rec_len ?a")
    case True
    then have s': "s' = ?a\<lparr>auto_timer := auto_timer ?a, compare_result := compare_result ?a, state := DONE\<rparr>"
      using assms(6,7) by (simp add: run_state_def Let_def)
    show ?thesis using same_rep [OF s'] rep tr assms(1,4) True by (simp add: acquire_geometry acquire_fields)
  next
    case False
    then have "s' = ?a" using assms(6,7) by (simp add: run_state_def Let_def)
    then show ?thesis using False rep tr assms(1,3,6) by (simp add: acquire_geometry acquire_fields)
  qed
qed

lemma inv_init:
  assumes "geometry s" "width (zip (data_len s) (data_offset s)) \<le> sample_len s" "state s = INIT" "s' = run_state mem s"
  shows "scope_inv (s', H, T)"
proof -
  have "s' = s\<lparr>curr := 0, scope_start := 0, samples := 0, force_trig := False, auto_timer := 0, data_addr := data_offset s,
      rt_data_type := data_type s, rt_data_len := data_len s, state := PRE_TRIG\<rparr>"
    using assms(3,4) by (simp add: run_state_def load_channels_def start_record_def)
  moreover have "0 < rec_len s" using assms(1) by (simp add: geometry_def)
  ultimately show ?thesis using assms(1,2) by (simp add: rep_defs)
qed

text \<open>The fields that \<open>sample\<close> sets before the state machine runs.\<close>

lemma inv_cong:
  assumes "s' = s\<lparr>watchdog := w, mult_cntr := k\<rparr>"
  shows "scope_inv (s', H, T) = scope_inv (s, H, T)" "chans s' = chans s" "state s' = state s"
  using assms by (simp_all add: rep_defs split: scope_state.split)

lemma inv_sample:
  assumes inv: "scope_inv (s, H, T)" and H': "H' = (if captures s then H @ [snapshot mem (chans s)] else H)"
    and s': "s' = sample mem s" and T': "T' = (if state s = TRIG_WAIT \<and> state s' = POST_TRIG then Some (length H) else T)"
  shows "scope_inv (s', H', T')"
proof (cases "state s = RESET")
  case True
  then have "state s' = IDLE" unfolding s' by (simp add: sample_def Let_def start_record_def run_state_def)
  then show ?thesis by simp
next
  case reset: False
  show ?thesis
  proof (cases "mult_cntr s + 1 < mult s")
    case True
    then have e: "s' = s\<lparr>watchdog := 0, mult_cntr := mult_cntr s + 1\<rparr>" using reset by (simp add: s' sample_def Let_def)
    have "H' = H" "T' = T" using True H' T' e by (auto simp: captures_def)
    then show ?thesis using inv_cong(1) [OF e] inv by simp
  next
    case False
    define r where "r = s\<lparr>watchdog := 0, mult_cntr := 0\<rparr>"
    note c = inv_cong [OF r_def]
    have run: "s' = run_state mem r" using reset False by (simp add: s' sample_def Let_def r_def)
    have i: "scope_inv (r, H, T)" using c(1) inv by simp
    have Hr: "H' = (if active (state r) then H @ [snapshot mem (chans r)] else H)"
      using False H' c(2,3) by (simp add: captures_def)
    have Tr: "T' = (if state r = TRIG_WAIT \<and> state s' = POST_TRIG then Some (length H) else T)" using T' c(3) by simp
    show ?thesis
    proof (cases "state r")
      case INIT
      then show ?thesis using inv_init [OF _ _ INIT run] i Hr Tr by (simp add: active_def)
    next
      case PRE_TRIG
      then show ?thesis using inv_pre [OF _ _ _ PRE_TRIG run] i Hr Tr by (simp add: active_def)
    next
      case TRIG_WAIT
      then show ?thesis using inv_wait [OF _ _ _ TRIG_WAIT run] i Hr Tr by (simp add: active_def)
    next
      case POST_TRIG
      then show ?thesis using inv_post [OF _ _ _ _ _ POST_TRIG run] i Hr Tr by (simp add: active_def)
    qed (use i Hr Tr run in \<open>simp_all add: active_def run_state_def\<close>)
  qed
qed

lemma scope_step_inv: "scope_step R R' \<Longrightarrow> scope_inv R \<Longrightarrow> scope_inv R'"
proof (induction rule: scope_step.induct)
  case (sample H' s H mem s' T' T)
  then show ?case using inv_sample by blast
next
  case (start s s' offs types lens pre H T)
  then show ?case by (simp add: start_capture_def)
qed (auto simp: capture_complete_def rep_defs split: scope_state.splits)

interpretation scope: transition_invariant scope_step scope_inv
  by unfold_locales (rule scope_step_inv)

section \<open>The record displayed\<close>

lemma copy_samples_frame:
  "0 \<le> sample_len s \<Longrightarrow> i < dst \<Longrightarrow> copy_samples n src dst s disp i = disp i"
  by (induction n arbitrary: src dst disp) (simp_all add: Let_def)

lemma copy_samples_nth:
  assumes "0 < sample_len s" "0 \<le> q" "q < sample_len s"
  shows "k < n \<Longrightarrow> 0 \<le> t \<Longrightarrow> t < rec_len s \<Longrightarrow>
    copy_samples n (sample_len s * t) dst s disp (dst + sample_len s * int k + q) =
      buffer s (sample_len s * ((t + int k) mod rec_len s) + q)"
proof (induction n arbitrary: k t dst disp)
  case (Suc n)
  let ?L = "sample_len s" and ?K = "rec_len s"
  let ?disp = "\<lambda>i. if dst \<le> i \<and> i < dst + ?L then buffer s (?L * t + (i - dst)) else disp i"
  have "?L * t + ?L \<ge> ?K * ?L \<longleftrightarrow> ?L * (t + 1) \<ge> ?L * ?K" by (simp add: distrib_left mult.commute)
  also have "\<dots> \<longleftrightarrow> t + 1 = ?K" using assms(1) Suc.prems(3) by auto
  finally have src: "(if ?L * t + ?L \<ge> ?K * ?L then 0 else ?L * t + ?L) = ?L * ((t + 1) mod ?K)"
    using Suc.prems(2,3) by (auto simp: distrib_left)
  have step: "copy_samples (Suc n) (?L * t) dst s disp = copy_samples n (?L * ((t + 1) mod ?K)) (dst + ?L) s ?disp"
    using src by (simp add: Let_def)
  show ?case
  proof (cases k)
    case 0
    then show ?thesis
      unfolding step using copy_samples_frame [of s "dst + q" "dst + ?L"] assms Suc.prems(2,3) by simp
  next
    case (Suc j)
    have "copy_samples n (?L * ((t + 1) mod ?K)) (dst + ?L) s ?disp (dst + ?L + ?L * int j + q) =
        buffer s (?L * (((t + 1) mod ?K + int j) mod ?K) + q)"
      by (rule Suc.IH) (use Suc.prems Suc in simp_all)
    moreover have "((t + 1) mod ?K + int j) mod ?K = (t + int (Suc j)) mod ?K" by (simp add: mod_add_left_eq add.assoc)
    moreover have "dst + ?L + ?L * int j + q = dst + ?L * int (Suc j) + q" by (simp add: distrib_left)
    ultimately show ?thesis unfolding step Suc by simp
  qed
qed simp

lemma read_chans_shift:
  "(\<And>q. 0 \<le> q \<Longrightarrow> q < width cs \<Longrightarrow> b (p + q) = b' (p' + q)) \<Longrightarrow> read_chans cs p b = read_chans cs p' b'"
proof (induction cs arbitrary: p p')
  case (Cons a cs)
  obtain len addr where a: "a = (len, addr)" by fastforce
  show ?case
  proof (cases "sampled len")
    case True
    have "b p = b' p'" using Cons.prems [of 0] True a width_nonneg [of cs] by simp
    moreover have "read_chans cs (p + 1) b = read_chans cs (p' + 1) b'"
    proof (rule Cons.IH)
      fix q assume "0 \<le> q" "q < width cs"
      then show "b (p + 1 + q) = b' (p' + 1 + q)" using Cons.prems [of "1 + q"] True a by (simp add: add.assoc)
    qed
    ultimately show ?thesis using True a by simp
  qed (use Cons a in auto)
qed simp

lemma copy_data_record:
  assumes "geometry s" "scope_rep s H" "k < nat (samples s)"
  shows "read_chans (chans s) (sample_len s * int k) (capture_copy_data s) = H ! (length H - nat (samples s) + k)"
proof -
  let ?L = "sample_len s"
  obtain t where t: "0 \<le> t" "t < rec_len s" "scope_start s = ?L * t" "samples s \<le> int (length H)" and w: "width (chans s) \<le> ?L"
    and r: "scope_record s = drop (length H - nat (samples s)) H" using assms(2) by (auto simp: scope_rep_def)
  have L: "0 < ?L" using assms(1) by (simp add: geometry_def)
  have "read_chans (chans s) (?L * int k) (capture_copy_data s) = slot_read s ((t + int k) mod rec_len s)"
    unfolding slot_read_def capture_copy_data_def t(3)
  proof (rule read_chans_shift)
    fix q assume "0 \<le> q" "q < width (chans s)"
    then show "copy_samples (nat (samples s)) (?L * t) 0 s (\<lambda>_. 0) (?L * int k + q) =
        buffer s (?L * ((t + int k) mod rec_len s) + q)"
      using copy_samples_nth [OF L _ _ assms(3) t(1,2), of q 0 "\<lambda>_. 0"] w by simp
  qed
  also have "\<dots> = scope_record s ! k" using t(3) L assms(3) by (simp add: scope_record_def)
  finally show ?thesis using r assms(3) t(4) by simp
qed

section \<open>Completion\<close>

lemma mult_cntr_step: "scope_step R R' \<Longrightarrow> 0 \<le> mult_cntr (fst R) \<Longrightarrow> 0 \<le> mult_cntr (fst R')"
proof (induction rule: scope_step.induct)
  case (sample H' s H mem s' T' T)
  have "mult_cntr (run_state mem r) = mult_cntr r" for r
    by (auto simp: run_state_def Let_def check_trigger_def acquire_def capture_sample_def load_channels_def start_record_def
        split: scope_state.split prod.split if_splits)
  then show ?case using sample by (simp add: sample_def Let_def start_record_def)
qed (simp_all add: start_capture_def capture_complete_def)

interpretation divider: transition_invariant scope_step "\<lambda>R. 0 \<le> mult_cntr (fst R)"
  by unfold_locales (rule mult_cntr_step)

definition calls_left :: "scope_rt_control \<Rightarrow> int" where
  "calls_left s = (rec_len s - samples s) * max 1 (mult s) - min (mult_cntr s) (max 1 (mult s) - 1)"

lemma run_state_forced:
  assumes "active (state r)" "force_trig r"
  shows "samples (run_state mem r) = samples r + 1" "rec_len (run_state mem r) = rec_len r" "mult (run_state mem r) = mult r"
    "mult_cntr (run_state mem r) = mult_cntr r" "force_trig (run_state mem r)"
    "state (run_state mem r) = DONE \<or> active (state (run_state mem r))"
  using assms by (auto simp: active_def run_state_def check_trigger_def acquire_def capture_sample_def Let_def split: if_splits)

lemma calls_left_pos: "samples s < rec_len s \<Longrightarrow> 0 < calls_left s"
proof -
  assume "samples s < rec_len s"
  then have "1 * max 1 (mult s) \<le> (rec_len s - samples s) * max 1 (mult s)" by (intro mult_right_mono) auto
  moreover have "min (mult_cntr s) (max 1 (mult s) - 1) < max 1 (mult s)" by linarith
  ultimately show ?thesis unfolding calls_left_def by linarith
qed

lemma sample_forced:
  assumes "active (state s)" "force_trig s" "0 \<le> mult_cntr s" "s' = sample mem s"
  shows "calls_left s' < calls_left s" "force_trig s'" "0 \<le> mult_cntr s'" "state s' = DONE \<or> active (state s')"
proof -
  have "calls_left s' < calls_left s \<and> force_trig s' \<and> 0 \<le> mult_cntr s' \<and> (state s' = DONE \<or> active (state s'))"
  proof (cases "mult_cntr s + 1 < mult s")
    case True
    then have e: "s' = s\<lparr>watchdog := 0, mult_cntr := mult_cntr s + 1\<rparr>"
      using assms(1,4) by (auto simp: sample_def Let_def active_def)
    then show ?thesis using assms True by (simp add: calls_left_def)
  next
    case False
    define r where "r = s\<lparr>watchdog := 0, mult_cntr := 0\<rparr>"
    have e: "s' = run_state mem r" using assms(1,4) False by (auto simp: r_def sample_def Let_def active_def)
    have a: "active (state r)" "force_trig r" using assms(1,2) by (simp_all add: r_def)
    note f = run_state_forced [OF a, of mem, folded e]
    have "calls_left s' = (rec_len s - samples s) * max 1 (mult s) - max 1 (mult s)"
      using f(1-4) by (simp add: calls_left_def r_def algebra_simps)
    then have "calls_left s' < calls_left s" by (simp add: calls_left_def)
    then show ?thesis using f(4-6) by (simp add: r_def)
  qed
  then show "calls_left s' < calls_left s" "force_trig s'" "0 \<le> mult_cntr s'" "state s' = DONE \<or> active (state s')" by blast+
qed

lemma done_stays: "state s = DONE \<Longrightarrow> state (fold sample ms s) = DONE"
  by (induction ms arbitrary: s) (simp_all add: sample_def Let_def run_state_def)

lemma forced_done:
  "scope_inv (s, H, T) \<Longrightarrow> active (state s) \<Longrightarrow> force_trig s \<Longrightarrow> 0 \<le> mult_cntr s \<Longrightarrow> calls_left s \<le> int (length ms) \<Longrightarrow>
     state (fold sample ms s) = DONE"
proof (induction ms arbitrary: s H T)
  case Nil
  have "samples s < rec_len s"
    using Nil.prems(1,2) trigger_room [of s] by (auto simp: active_def)
  then show ?case using calls_left_pos [of s] Nil.prems(5) by simp
next
  case (Cons m ms)
  note f = sample_forced [OF Cons.prems(2-4) refl, of m]
  have i: "scope_inv (sample m s, if captures s then H @ [snapshot m (chans s)] else H,
      if state s = TRIG_WAIT \<and> state (sample m s) = POST_TRIG then Some (length H) else T)"
    by (rule inv_sample [OF Cons.prems(1) refl refl refl])
  from f(4) show ?case
  proof
    assume "state (sample m s) = DONE"
    then show ?thesis by (simp add: done_stays)
  next
    assume "active (state (sample m s))"
    then show ?thesis using Cons.IH [OF i _ f(2,3)] f(1) Cons.prems(5) by simp
  qed
qed

text \<open>A buffer of four samples, one channel of eight bytes, the trigger forced.\<close>

definition demo_scope :: scope_rt_control where
  "demo_scope = (sample (\<lambda>_. 5) (start_capture (replicate 16 0) (replicate 16 0) (8 # replicate 15 0) 1
     ((init_rt_control_struct 4 (\<lambda>_. 0))\<lparr>sample_len := 1, rec_len := 4 div 1\<rparr>)))\<lparr>force_trig := True\<rparr>"

lemma demo_scope_fields:
  "state demo_scope = PRE_TRIG" "force_trig demo_scope" "rec_len demo_scope = 4" "samples demo_scope = 0" "mult demo_scope = 1"
  "mult_cntr demo_scope = 0"
  by (simp_all add: demo_scope_def start_capture_def init_rt_control_struct_def sample_def run_state_def load_channels_def
      start_record_def Let_def)

lemma demo_scope_reach: "\<exists>H T. scope_step\<^sup>*\<^sup>* (init_rt_control_struct 4 (\<lambda>_. 0), [], None) (demo_scope, H, T)"
proof -
  define s0 where "s0 = init_rt_control_struct 4 (\<lambda>_. 0)"
  define s1 where "s1 = s0\<lparr>sample_len := 1, rec_len := buf_len s0 div 1\<rparr>"
  define s2 where "s2 = start_capture (replicate 16 0) (replicate 16 0) (8 # replicate 15 0) 1 s1"
  have f: "state s0 = IDLE" "buf_len s0 = 4" by (simp_all add: s0_def init_rt_control_struct_def)
  have w: "width (zip (8 # replicate 15 0) (replicate 16 0)) = 1" by code_simp
  have g: "state s1 = IDLE" "geometry s2" "width (zip (8 # replicate 15 0) (replicate 16 0)) \<le> sample_len s1"
    using f w by (simp_all add: s2_def s1_def start_capture_def geometry_def)
  have "scope_step (s0, [], None) (s1, [], None)" unfolding s1_def by (rule scope_step.configure [OF f(1)])
  moreover have "scope_step (s1, [], None) (s2, [], None)" by (rule scope_step.start [OF g(1) s2_def g(2,3)])
  moreover obtain H T where "scope_step (s2, [], None) (sample (\<lambda>_. 5) s2, H, T)" using scope_step.sample by blast
  moreover have "scope_step (sample (\<lambda>_. 5) s2, H, T) (demo_scope, H, T)" for H T
  proof -
    have "demo_scope = (sample (\<lambda>_. 5) s2)\<lparr>force_trig := True\<rparr>" by (simp add: demo_scope_def s2_def s1_def s0_def f(2) [unfolded s0_def])
    then show ?thesis using scope_step.force by metis
  qed
  ultimately show ?thesis unfolding s0_def [symmetric]
    by (meson rtranclp.rtrancl_into_rtrancl rtranclp.rtrancl_refl)
qed

lemma samples_reach: "\<exists>H' T'. scope_step\<^sup>*\<^sup>* (s, H, T) (fold sample ms s, H', T')"
proof (induction ms arbitrary: s H T)
  case (Cons m ms)
  obtain H1 T1 where "scope_step (s, H, T) (sample m s, H1, T1)" using scope_step.sample by blast
  then show ?case using Cons.IH [of "sample m s" H1 T1] by (auto intro: converse_rtranclp_into_rtranclp)
qed auto

section \<open>Properties\<close>

text \<open>C25: what the oscilloscope displays. When an acquisition is done, in any run of samplings, settings,
  forced triggers, interruptions and restarts, the data copied for display are the latest samples
  captured, as many as the record is long, complete and in order although the buffer is circular,
  and the sample at which the trigger fired stands where the pre-trigger setting puts it.\<close>

theorem scope_display_correct:
  assumes "scope_step\<^sup>*\<^sup>* (init_rt_control_struct len b, [], None) (s, H, T)" "state s = DONE"
  shows "rec_len s \<le> int (length H) \<and> T = Some (length H - nat (rec_len s) + nat (max 1 (pre_trig s))) \<and>
    (\<forall>k < nat (rec_len s). read_chans (chans s) (sample_len s * int k) (capture_copy_data s) =
       H ! (length H - nat (rec_len s) + k))"
proof -
  have "scope_inv (init_rt_control_struct len b, [], None)" by (simp add: init_rt_control_struct_def)
  then have "scope_inv (s, H, T)" by (rule scope.reach_keeps [OF assms(1)])
  then have i: "geometry s" "scope_rep s H" "samples s = rec_len s" "triggered s H T" using assms(2) by simp_all
  then have "rec_len s \<le> int (length H)" by (auto simp: scope_rep_def)
  then show ?thesis using i copy_data_record [OF i(1,2)] by (simp add: triggered_def trigger_at_def)
qed

theorem scope_display_correct_witness:
  "\<exists>s H T. scope_step\<^sup>*\<^sup>* (init_rt_control_struct 4 (\<lambda>_. 0), [], None) (s, H, T) \<and> state s = DONE \<and>
     (\<forall>k < nat (rec_len s). read_chans (chans s) (sample_len s * int k) (capture_copy_data s) =
        H ! (length H - nat (rec_len s) + k))"
proof -
  let ?ms = "replicate 4 (\<lambda>_. 5)"
  obtain H T where r: "scope_step\<^sup>*\<^sup>* (init_rt_control_struct 4 (\<lambda>_. 0), [], None) (demo_scope, H, T)"
    using demo_scope_reach by blast
  have "scope_inv (init_rt_control_struct 4 (\<lambda>_. 0), [], None)" by (simp add: init_rt_control_struct_def)
  then have "scope_inv (demo_scope, H, T)" by (rule scope.reach_keeps [OF r])
  then have d: "state (fold sample ?ms demo_scope) = DONE"
    by (rule forced_done) (simp_all add: demo_scope_fields active_def calls_left_def)
  obtain H' T' where "scope_step\<^sup>*\<^sup>* (demo_scope, H, T) (fold sample ?ms demo_scope, H', T')" using samples_reach by blast
  then have r': "scope_step\<^sup>*\<^sup>* (init_rt_control_struct 4 (\<lambda>_. 0), [], None) (fold sample ?ms demo_scope, H', T')"
    using r by simp
  show ?thesis using scope_display_correct [OF r' d] r' d by blast
qed

text \<open>C38: a forced acquisition ends. In every reachable state in which samples are being taken and the
  trigger is forced, a number of calls of the sampling function that depends only on the record
  length and the sample rate divider completes the record, whatever values are sampled.\<close>

theorem scope_completes:
  assumes "scope_step\<^sup>*\<^sup>* (init_rt_control_struct len b, [], None) (s, H, T)"
    and "active (state s)" "force_trig s" "(rec_len s - samples s) * max 1 (mult s) \<le> int (length ms)"
  shows "state (fold sample ms s) = DONE"
proof -
  have "scope_inv (init_rt_control_struct len b, [], None)" by (simp add: init_rt_control_struct_def)
  then have i: "scope_inv (s, H, T)" by (rule scope.reach_keeps [OF assms(1)])
  have m: "0 \<le> mult_cntr s" using divider.reach_keeps [OF assms(1)] by (simp add: init_rt_control_struct_def)
  have "calls_left s \<le> int (length ms)" using assms(4) m by (auto simp: calls_left_def min_def)
  then show ?thesis by (rule forced_done [OF i assms(2,3) m])
qed

theorem scope_completes_witness: "state (fold sample (replicate 4 (\<lambda>_. 5)) demo_scope) = DONE"
proof -
  obtain H T where r: "scope_step\<^sup>*\<^sup>* (init_rt_control_struct 4 (\<lambda>_. 0), [], None) (demo_scope, H, T)"
    using demo_scope_reach by blast
  show ?thesis by (rule scope_completes [OF r]) (simp_all add: demo_scope_fields active_def)
qed

end
