(* ===== verification/Halcmd_Parse.thy ===== *)
theory Halcmd_Parse
  imports Hal_Prelude
begin

text \<open>
  The line reader of halcmd (\<open>hal_command/src/halcmd.c\<close>): comment stripping,
  replacement of environment and ini-file variables, tokenizing, the command
  table and the dispatcher. A C string is the list of its characters without
  the terminating NUL. The process environment (\<open>getenv\<close>), the ini-file reader
  (\<open>iniFind\<close>) and the expansion of a leading tilde (\<open>TildeExpansion\<close>), which are
  not part of the repository, are arguments of the definitions that use them.
\<close>

section \<open>C strings\<close>

definition isspace :: "char \<Rightarrow> bool" where
  "isspace c \<longleftrightarrow> c = CHR '' '' \<or> c = CHR 0x09 \<or> c = CHR 0x0A \<or> c = CHR 0x0B \<or>
     c = CHR 0x0C \<or> c = CHR 0x0D"

abbreviation squote :: char where "squote \<equiv> CHR 0x27"
abbreviation dquote :: char where "dquote \<equiv> CHR 0x22"
abbreviation newline :: char where "newline \<equiv> CHR 0x0A"
abbreviation carriage_return :: char where "carriage_return \<equiv> CHR 0x0D"

definition tolower :: "char \<Rightarrow> char" where
  "tolower c = (if 65 \<le> (of_char c :: nat) \<and> (of_char c :: nat) \<le> 90 then char_of ((of_char c :: nat) + 32) else c)"

text \<open>\<open>strcasecmp (a, b) == 0\<close>.\<close>

definition strcase_eq :: "string \<Rightarrow> string \<Rightarrow> bool" where
  "strcase_eq a b \<longleftrightarrow> map tolower a = map tolower b"

text \<open>Length of the initial segment without, or with only, the given characters.\<close>

definition strcspn :: "string \<Rightarrow> string \<Rightarrow> nat" where
  "strcspn s reject = length (takeWhile (\<lambda>c. c \<notin> set reject) s)"

definition strspn :: "string \<Rightarrow> string \<Rightarrow> nat" where
  "strspn s accept = length (takeWhile (\<lambda>c. c \<in> set accept) s)"

section \<open>Comments\<close>

datatype strip_state = NORMAL | STRIP_SINGLE | STRIP_DOUBLE

text \<open>The pair is the return value and what the buffer holds afterwards.\<close>

fun strip_loop :: "strip_state \<Rightarrow> string \<Rightarrow> int \<times> string" where
  "strip_loop NORMAL [] = (0, [])"
| "strip_loop STRIP_SINGLE [] = (-1, [])"
| "strip_loop STRIP_DOUBLE [] = (-1, [])"
| "strip_loop NORMAL (c # cs) =
     (if c = CHR ''#'' \<or> c = newline then (0, [])
      else let (rc, r) = strip_loop (if c = squote then STRIP_SINGLE
                                     else if c = dquote then STRIP_DOUBLE else NORMAL) cs
           in (rc, c # r))"
| "strip_loop STRIP_SINGLE (c # cs) =
     (if c = newline then (-1, [])
      else let (rc, r) = strip_loop (if c = squote then NORMAL else STRIP_SINGLE) cs in (rc, c # r))"
| "strip_loop STRIP_DOUBLE (c # cs) =
     (if c = newline then (-1, [])
      else let (rc, r) = strip_loop (if c = dquote then NORMAL else STRIP_DOUBLE) cs in (rc, c # r))"

definition strip_comments :: "string \<Rightarrow> int \<times> string" where
  "strip_comments buf = strip_loop NORMAL buf"

section \<open>Variables\<close>

text \<open>
  An error of \<open>replace_vars\<close> is its negative return value with the text stored
  through \<open>detail\<close>; \<open>Rv_overrun\<close> says that the source pointer has moved past the
  terminating NUL of the source, from where the loop would go on reading.
\<close>

datatype rv_fail = Rv_error int "string option" | Rv_overrun

type_synonym env = "string \<Rightarrow> string option"
type_synonym ini = "string \<Rightarrow> string option \<Rightarrow> string option"

definition var_words :: string where
  "var_words = ''0123456789abcdefghijklmnopqrstuvwxyzABCDEFGHIJKLMNOPQRSTUVWXYZ.-_''"

text \<open>
  \<open>strlimcpy\<close> appends \<open>srclen\<close> characters to the destination when they fit in the
  remaining space.
\<close>

definition strlimcpy :: "string \<Rightarrow> string \<Rightarrow> nat \<Rightarrow> nat \<Rightarrow> (string \<times> nat) option" where
  "strlimcpy dest src srclen destspace =
     (if destspace < srclen then None
      else let copied = take srclen src in Some (dest @ copied, destspace - length copied))"

text \<open>
  The two kinds of reference, given the source after the delimiter: the
  replacement and the rest of the source (\<open>None\<close> when the pointer has passed
  the end).
\<close>

definition env_ref :: "env \<Rightarrow> string \<Rightarrow> rv_fail + (string \<times> string option)" where
  "env_ref getenv sp =
     (let paren = (sp \<noteq> [] \<and> hd sp = CHR ''('');
          varP = (if paren then tl sp else sp);
          next_delim = (if paren then strcspn varP '')'' else strspn varP var_words)
      in if paren \<and> next_delim \<ge> length varP then Inl (Rv_error (-1) None)
         else if next_delim = 0 then Inl (Rv_error (-2) None)
         else if next_delim > 127 then Inl (Rv_error (-7) None)
         else let var = take next_delim varP in
           case getenv var of
             None \<Rightarrow> Inl (Rv_error (-4) (Some var))
           | Some r \<Rightarrow> Inr (r, Some (drop (next_delim + (if paren then 1 else 0)) varP)))"

definition ini_ref :: "ini \<Rightarrow> string \<Rightarrow> rv_fail + (string \<times> string option)" where
  "ini_ref iniFind secP =
     (let sec_delim = strcspn secP '']'' in
      if sec_delim \<ge> length secP then Inl (Rv_error (-3) None)
      else if sec_delim > 127 then Inl (Rv_error (-7) None)
      else
       (let sec = take sec_delim secP;
            sp = drop (sec_delim + 1) secP;
            paren = (sp \<noteq> [] \<and> hd sp = CHR ''('');
            varP = (if paren then tl sp else sp);
            next_delim = (if paren then strcspn varP '')'' else strspn varP var_words)
        in if paren \<and> next_delim > length varP then Inl (Rv_error (-1) None)
           else if next_delim = 0 then Inl (Rv_error (-2) None)
           else if next_delim > 127 then Inl (Rv_error (-7) None)
           else let var = take next_delim varP in
             case iniFind var (if length sec > 0 then Some sec else None) of
               None \<Rightarrow> Inl (Rv_error (-5) (Some (take 254 (''['' @ sec @ '']'' @ var))))
             | Some r \<Rightarrow>
                 Inr (r, let advance = next_delim + (if paren then 1 else 0) in
                         if advance > length varP then None else Some (drop advance varP))))"

function replace_loop :: "env \<Rightarrow> ini \<Rightarrow> string \<Rightarrow> string \<Rightarrow> nat \<Rightarrow> (rv_fail \<times> string) + string" where
  "replace_loop getenv iniFind sp dest buf_space =
     (if sp = [] then Inr dest
      else let next_delim = strcspn sp ''$['' in
        case strlimcpy dest sp next_delim buf_space of
          None \<Rightarrow> Inl (Rv_error (-6) None, dest)
        | Some (dest, buf_space) \<Rightarrow>
            if next_delim < length sp then
              (case (if sp ! next_delim = CHR ''$'' then env_ref getenv else ini_ref iniFind)
                      (drop (next_delim + 1) sp) of
                 Inl e \<Rightarrow> Inl (e, dest)
               | Inr (replacement, rest) \<Rightarrow>
                   (case strlimcpy dest replacement (length replacement) buf_space of
                      None \<Rightarrow> Inl (Rv_error (-6) None, dest)
                    | Some (dest, buf_space) \<Rightarrow>
                        (case rest of
                           None \<Rightarrow> Inl (Rv_overrun, dest)
                         | Some sp \<Rightarrow> replace_loop getenv iniFind sp dest buf_space)))
            else Inr dest)"
  by pat_completeness auto

lemma env_ref_shrinks: "env_ref getenv sp = Inr (r, Some sp') \<Longrightarrow> length sp' \<le> length sp"
  by (auto simp: env_ref_def Let_def split: if_splits option.splits)

lemma ini_ref_shrinks: "ini_ref iniFind sp = Inr (r, Some sp') \<Longrightarrow> length sp' \<le> length sp"
  by (auto simp: ini_ref_def Let_def split: if_splits option.splits)

termination replace_loop
proof (relation "measure (\<lambda>(getenv, iniFind, sp, dest, buf_space). length sp)", goal_cases)
  case (2 getenv iniFind sp dest buf_space nd x d b y r rest z d' b' sp')
  let ?arg = "drop (nd + 1) sp"
  have "length sp' \<le> length ?arg"
    using 2 env_ref_shrinks [of getenv ?arg r sp'] ini_ref_shrinks [of iniFind ?arg r sp']
    by (auto split: if_splits)
  with 2 show ?case by auto
qed auto

text \<open>The result carries the destination string also on an error.\<close>

definition replace_vars :: "env \<Rightarrow> ini \<Rightarrow> string \<Rightarrow> nat \<Rightarrow> (rv_fail \<times> string) + string" where
  "replace_vars getenv iniFind source_str max_chars =
     replace_loop getenv iniFind source_str [] (max_chars - 1)"

section \<open>Tokens\<close>

definition MAX_TOK :: nat where "MAX_TOK = 20"
definition MAX_CMD_LEN :: nat where "MAX_CMD_LEN = 1024"

datatype tok_state = BETWEEN_TOKENS | IN_TOKEN | SINGLE_QUOTE | DOUBLE_QUOTE | END_OF_LINE

text \<open>A carriage return that is not followed by a newline or the end of the line.\<close>

definition embedded_cr :: "string \<Rightarrow> bool" where
  "embedded_cr cp \<longleftrightarrow> cp \<noteq> [] \<and> hd cp = carriage_return \<and> tl cp \<noteq> [] \<and> hd (tl cp) \<noteq> newline"

text \<open>
  \<open>tokens\<close> are the finished tokens (their number is \<open>m\<close>), \<open>cur\<close> is the text of the
  token being read, \<open>cp\<close> the rest of the line. \<open>None\<close> is the return value -1.
\<close>

function tokenize_loop :: "tok_state \<Rightarrow> string list \<Rightarrow> string \<Rightarrow> string \<Rightarrow> string list option" where
  "tokenize_loop state tokens cur cp =
     (if MAX_TOK \<le> length tokens then (if state \<noteq> END_OF_LINE then None else Some tokens)
      else if embedded_cr cp then None
      else
        (case state of
           BETWEEN_TOKENS \<Rightarrow>
             (case cp of
                [] \<Rightarrow> tokenize_loop END_OF_LINE tokens [] cp
              | c # cs \<Rightarrow>
                  if isspace c then tokenize_loop BETWEEN_TOKENS tokens [] cs
                  else if c = squote then tokenize_loop SINGLE_QUOTE tokens [c] cs
                  else if c = dquote then tokenize_loop DOUBLE_QUOTE tokens [c] cs
                  else tokenize_loop IN_TOKEN tokens [c] cs)
         | IN_TOKEN \<Rightarrow>
             (case cp of
                [] \<Rightarrow> tokenize_loop END_OF_LINE (tokens @ [cur]) [] cp
              | c # cs \<Rightarrow>
                  if c = squote then tokenize_loop SINGLE_QUOTE tokens (cur @ [c]) cs
                  else if c = dquote then tokenize_loop DOUBLE_QUOTE tokens (cur @ [c]) cs
                  else if isspace c then tokenize_loop BETWEEN_TOKENS (tokens @ [cur]) [] cs
                  else tokenize_loop IN_TOKEN tokens (cur @ [c]) cs)
         | SINGLE_QUOTE \<Rightarrow>
             (case cp of
                [] \<Rightarrow> tokenize_loop END_OF_LINE (tokens @ [cur]) [] cp
              | c # cs \<Rightarrow>
                  if c = squote then tokenize_loop IN_TOKEN tokens (cur @ [c]) cs
                  else tokenize_loop SINGLE_QUOTE tokens (cur @ [c]) cs)
         | DOUBLE_QUOTE \<Rightarrow>
             (case cp of
                [] \<Rightarrow> tokenize_loop END_OF_LINE (tokens @ [cur]) [] cp
              | c # cs \<Rightarrow>
                  if c = dquote then tokenize_loop IN_TOKEN tokens (cur @ [c]) cs
                  else tokenize_loop DOUBLE_QUOTE tokens (cur @ [c]) cs)
         | END_OF_LINE \<Rightarrow> tokenize_loop END_OF_LINE (tokens @ [[]]) [] cp))"
  by pat_completeness auto
termination
  by (relation "measures [\<lambda>(st, toks, cur, cp). if st = END_OF_LINE then 0 else 1,
                          \<lambda>(st, toks, cur, cp). length cp,
                          \<lambda>(st, toks, cur, cp). MAX_TOK - length toks]") auto

definition tokenize :: "string \<Rightarrow> string list option" where
  "tokenize cmd_buf = tokenize_loop BETWEEN_TOKENS [] [] cmd_buf"

section \<open>A line\<close>

datatype line_error =
    Unterminated_quote
  | Replacement rv_fail
  | Tokenization

text \<open>
  The return value of \<open>halcmd_preprocess_line\<close> for an error; there is none once
  the source has been left.
\<close>

fun line_rc :: "line_error \<Rightarrow> int option" where
  "line_rc Unterminated_quote = Some (-1)"
| "line_rc (Replacement (Rv_error rc detail)) = Some (-2)"
| "line_rc (Replacement Rv_overrun) = None"
| "line_rc Tokenization = Some (-3)"

definition halcmd_preprocess_line :: "env \<Rightarrow> ini \<Rightarrow> string \<Rightarrow> line_error + string list" where
  "halcmd_preprocess_line getenv iniFind line =
     (let (retval, line) = strip_comments line in
      if retval \<noteq> 0 then Inl Unterminated_quote
      else case replace_vars getenv iniFind line (2 * MAX_CMD_LEN - 2) of
        Inl (e, dest) \<Rightarrow> Inl (Replacement e)
      | Inr cmd_buf \<Rightarrow>
          (case tokenize cmd_buf of
             None \<Rightarrow> Inl Tokenization
           | Some tokens \<Rightarrow> Inr (tokens @ [[]])))"

section \<open>Commands\<close>

abbreviation A_ZERO :: u32 where "A_ZERO \<equiv> 0"
abbreviation A_ONE :: u32 where "A_ONE \<equiv> 1"
abbreviation A_TWO :: u32 where "A_TWO \<equiv> 2"
abbreviation A_THREE :: u32 where "A_THREE \<equiv> 3"
abbreviation A_PLUS :: u32 where "A_PLUS \<equiv> 0x100"
abbreviation A_REMOVE_ARROWS :: u32 where "A_REMOVE_ARROWS \<equiv> 0x200"
abbreviation A_OPTIONAL :: u32 where "A_OPTIONAL \<equiv> 0x400"
abbreviation A_TILDE :: u32 where "A_TILDE \<equiv> 0x800"

text \<open>
  The table of commands with the type of each; the function a row points to is
  known by the name of the row.
\<close>

definition halcmd_commands :: "(string \<times> u32) list" where
  "halcmd_commands =
    [(''addf'', A_TWO OR A_PLUS),
     (''delf'', A_TWO OR A_OPTIONAL),
     (''delsig'', A_ONE),
     (''echo'', A_ZERO),
     (''delthread'', A_ONE),
     (''getp'', A_ONE),
     (''gets'', A_ONE),
     (''ptype'', A_ONE),
     (''stype'', A_ONE),
     (''help'', A_ONE OR A_OPTIONAL),
     (''linkpp'', A_TWO OR A_REMOVE_ARROWS),
     (''linkps'', A_TWO OR A_REMOVE_ARROWS),
     (''linksp'', A_TWO OR A_REMOVE_ARROWS),
     (''list'', A_ONE OR A_PLUS),
     (''loadrt'', A_ONE OR A_PLUS),
     (''loadusr'', A_PLUS OR A_TILDE),
     (''lock'', A_ONE OR A_OPTIONAL),
     (''log'', A_TWO OR A_OPTIONAL),
     (''net'', A_ONE OR A_PLUS OR A_REMOVE_ARROWS),
     (''newsig'', A_TWO),
     (''ping'', A_ZERO),
     (''save'', A_TWO OR A_OPTIONAL OR A_TILDE),
     (''setexact_for_test_suite_only'', A_ZERO),
     (''setp'', A_TWO),
     (''sets'', A_TWO),
     (''sete'', A_TWO),
     (''show'', A_ONE OR A_OPTIONAL OR A_PLUS),
     (''sweep'', A_ONE OR A_OPTIONAL),
     (''shutdown'', A_ZERO),
     (''sleep'', A_ONE),
     (''source'', A_ONE OR A_TILDE),
     (''start'', A_ZERO),
     (''status'', A_ONE OR A_OPTIONAL),
     (''stop'', A_ZERO),
     (''unecho'', A_ZERO),
     (''unlinkp'', A_ONE),
     (''unload'', A_ONE),
     (''unloadrt'', A_ONE),
     (''unloadusr'', A_ONE),
     (''unlock'', A_ONE OR A_OPTIONAL),
     (''waitusr'', A_TWO OR A_OPTIONAL),
     (''newthread'', A_ONE OR A_PLUS),
     (''newg'', A_ONE OR A_PLUS),
     (''delg'', A_ONE),
     (''newm'', A_TWO OR A_OPTIONAL OR A_PLUS),
     (''delm'', A_TWO),
     (''setrmb'', A_ONE),
     (''setwmb'', A_ONE),
     (''clearrmb'', A_ONE),
     (''clearwmb'', A_ONE),
     (''newring'', A_TWO OR A_PLUS),
     (''delring'', A_ONE),
     (''ringdump'', A_ONE),
     (''ringflush'', A_ONE),
     (''ringwrite'', A_ONE OR A_OPTIONAL OR A_PLUS),
     (''newcomp'', A_ONE OR A_PLUS),
     (''newpin'', A_THREE OR A_PLUS),
     (''ready'', A_ONE OR A_OPTIONAL),
     (''waitbound'', A_ONE OR A_OPTIONAL),
     (''waitexists'', A_ONE),
     (''waitunbound'', A_ONE OR A_OPTIONAL),
     (''newinst'', A_TWO OR A_PLUS),
     (''delinst'', A_ONE),
     (''call'', A_ONE OR A_PLUS),
     (''autoload'', A_ONE OR A_OPTIONAL)]"

text \<open>The leading tokens that are not empty.\<close>

definition count_args :: "string list \<Rightarrow> nat" where
  "count_args argv = length (takeWhile (\<lambda>t. t \<noteq> []) argv)"

text \<open>
  The call that the dispatcher makes: the function of a row with its positional
  arguments (\<open>None\<close> is a null pointer) and, for a type with \<open>A_PLUS\<close>, the rest.
\<close>

datatype halcmd_call =
    No_command
  | Einval
  | Setp string string
  | Invoke string "string option list" "string list"

definition is_arrow :: "string \<Rightarrow> bool" where
  "is_arrow t \<longleftrightarrow> hd t = CHR ''<'' \<or> hd t = CHR ''=''"

definition ARG :: "string list \<Rightarrow> nat \<Rightarrow> string option" where
  "ARG argv i = (if i < length argv then Some (argv ! i) else None)"

definition parse_cmd1 :: "(string \<Rightarrow> string) \<Rightarrow> string list \<Rightarrow> halcmd_call" where
  "parse_cmd1 TildeExpansion argv0 =
     (let argc = count_args argv0; argv = take argc argv0 in
      if argc = 0 then No_command
      else case map_of halcmd_commands (argv ! 0) of
        None \<Rightarrow> (if argc = 3 \<and> argv ! 1 \<noteq> ''='' then Setp (argv ! 0) (argv ! 2) else Einval)
      | Some type \<Rightarrow>
          let is_optional = (type AND A_OPTIONAL \<noteq> 0);
              is_plus = (type AND A_PLUS \<noteq> 0);
              nargs = unat (type AND 0xff);
              argv = (if type AND A_REMOVE_ARROWS \<noteq> 0 then filter (\<lambda>t. \<not> is_arrow t) argv else argv);
              posargs = length argv - 1
          in if posargs < nargs \<and> \<not> is_optional then Einval
             else if posargs > nargs \<and> \<not> is_plus then Einval
             else let name = argv ! 0;
                      argv = (if type AND A_TILDE \<noteq> 0 then map TildeExpansion argv else argv)
                  in if nargs \<le> 3
                     then Invoke name (map (ARG argv) [1..<nargs + 1])
                            (if is_plus then drop (nargs + 1) argv else [])
                     else Einval)"

end
