(* ===== verification/Halcmd_Values.thy ===== *)
theory Halcmd_Values
  imports Halcmd_Parse Hal_Thread
begin

text \<open>
  Values as text, in \<open>hal_command/src/halcmd_commands.c\<close>: the C library's integer
  scanners with base 0, the assignment of a text to a typed location
  (\<open>set_common\<close>), and the two printers of values, types and directions. Scanning
  and printing floating-point numbers are arguments (\<open>strtod\<close>, and \<open>fmt_g\<close> for the
  conversion \<open>%.7g\<close>).
\<close>

section \<open>Scanning integers\<close>

text \<open>The value of a digit, or 36 for a character that is none.\<close>

definition digit_val :: "char \<Rightarrow> nat" where
  "digit_val c =
     (let n = of_char c in
      if 48 \<le> n \<and> n \<le> 57 then n - 48
      else if 97 \<le> n \<and> n \<le> 122 then n - 87
      else if 65 \<le> n \<and> n \<le> 90 then n - 55 else 36)"

definition is_digit :: "nat \<Rightarrow> char \<Rightarrow> bool" where
  "is_digit base c \<longleftrightarrow> digit_val c < base"

definition digits_val :: "nat \<Rightarrow> string \<Rightarrow> nat" where
  "digits_val base ds = foldl (\<lambda>a c. a * base + digit_val c) 0 ds"

text \<open>Base 0: the prefix chooses between hexadecimal, octal and decimal.\<close>

definition scan_base :: "string \<Rightarrow> nat \<times> string" where
  "scan_base s =
     (if length s > 2 \<and> s ! 0 = CHR ''0'' \<and> tolower (s ! 1) = CHR ''x'' \<and> is_digit 16 (s ! 2)
      then (16, drop 2 s)
      else if s \<noteq> [] \<and> hd s = CHR ''0'' then (8, s)
      else (10, s))"

text \<open>The common part of \<open>strtol\<close> and \<open>strtoul\<close>: sign, magnitude and what follows.\<close>

definition scan_digits :: "nat option \<Rightarrow> string \<Rightarrow> bool \<times> nat \<times> string" where
  "scan_digits base0 value =
     (let s = dropWhile isspace value;
          neg = (s \<noteq> [] \<and> hd s = CHR ''-'');
          s = (if s \<noteq> [] \<and> (hd s = CHR ''-'' \<or> hd s = CHR ''+'') then tl s else s);
          (base, s) = (case base0 of None \<Rightarrow> scan_base s | Some b \<Rightarrow> (b, s));
          ds = takeWhile (is_digit base) s
      in if ds = [] then (False, 0, value)
         else (neg, digits_val base ds, dropWhile (is_digit base) s))"

definition strtol :: "string \<Rightarrow> int \<times> string" where
  "strtol value =
     (case scan_digits None value of (neg, m, cp) \<Rightarrow>
        (max (- (2 ^ 63)) (min (2 ^ 63 - 1) (if neg then - int m else int m)), cp))"

definition ulong_of :: "bool \<Rightarrow> nat \<Rightarrow> int" where
  "ulong_of neg m = (if int m > 2 ^ 64 - 1 then 2 ^ 64 - 1 else (if neg then - int m else int m) mod 2 ^ 64)"

definition strtoul :: "string \<Rightarrow> int \<times> string" where
  "strtoul value = (case scan_digits None value of (neg, m, cp) \<Rightarrow> (ulong_of neg m, cp))"

definition strtoul10 :: "string \<Rightarrow> int \<times> string" where
  "strtoul10 value = (case scan_digits (Some 10) value of (neg, m, cp) \<Rightarrow> (ulong_of neg m, cp))"

text \<open>The test that follows every scan: nothing, or a blank, after the number.\<close>

definition clean_end :: "string \<Rightarrow> bool" where
  "clean_end cp \<longleftrightarrow> cp = [] \<or> isspace (hd cp)"

section \<open>Assigning a text\<close>

text \<open>The return value and the new content of the location.\<close>

definition set_common :: "(string \<Rightarrow> u64 \<times> string) \<Rightarrow> nat \<Rightarrow> u64 \<Rightarrow> string \<Rightarrow> int \<times> u64" where
  "set_common strtod type d value =
     (if type = HAL_BIT then
        (if value = ''1'' \<or> strcase_eq ''TRUE'' value then (0, set_bit_value d 1)
         else if value = ''0'' \<or> strcase_eq ''FALSE'' value then (0, set_bit_value d 0)
         else (- EINVAL, d))
      else if type = HAL_FLOAT then
        (case strtod value of (fval, cp) \<Rightarrow>
           if \<not> clean_end cp then (- EINVAL, d) else (0, set_float_value d fval))
      else if type = HAL_S32 then
        (case strtol value of (lval, cp) \<Rightarrow>
           if \<not> clean_end cp then (- EINVAL, d) else (0, set_s32_value d (word_of_int lval)))
      else if type = HAL_U32 then
        (case strtoul value of (ulval, cp) \<Rightarrow>
           if \<not> clean_end cp then (- EINVAL, d) else (0, set_u32_value d (word_of_int ulval)))
      else if type = HAL_S64 then
        (case strtol value of (llval, cp) \<Rightarrow>
           if \<not> clean_end cp then (- EINVAL, d) else (0, set_s64_value d (word_of_int llval)))
      else if type = HAL_U64 then
        (case strtoul value of (ullval, cp) \<Rightarrow>
           if \<not> clean_end cp then (- EINVAL, d) else (0, set_u64_value d (word_of_int ullval)))
      else (- EINVAL, d))"

definition yesno :: "string option \<Rightarrow> int" where
  "yesno what =
     (case what of None \<Rightarrow> -1
      | Some s \<Rightarrow>
          if s = ''1'' \<or> strcase_eq ''true'' s \<or> strcase_eq ''yes'' s then 1
          else if s = ''0'' \<or> strcase_eq ''false'' s \<or> strcase_eq ''no'' s then 0 else -1)"

text \<open>A type by its name.\<close>

definition type_by_name :: "string \<Rightarrow> nat option" where
  "type_by_name type =
     (if strcase_eq type ''bit'' then Some HAL_BIT
      else if strcase_eq type ''float'' then Some HAL_FLOAT
      else if strcase_eq type ''u32'' then Some HAL_U32
      else if strcase_eq type ''s32'' then Some HAL_S32
      else if strcase_eq type ''u64'' then Some HAL_U64
      else if strcase_eq type ''s64'' then Some HAL_S64 else None)"

section \<open>Printing\<close>

definition pad_left :: "nat \<Rightarrow> char \<Rightarrow> string \<Rightarrow> string" where
  "pad_left n c s = replicate (n - length s) c @ s"

definition int_str :: "int \<Rightarrow> string" where
  "int_str i = (if i < 0 then CHR ''-'' # nat_str (nat (- i)) else nat_str (nat i))"

definition hex_digit :: "nat \<Rightarrow> char" where
  "hex_digit d = (if d < 10 then char_of (48 + d) else char_of (55 + d))"

fun hex_digits :: "nat \<Rightarrow> nat \<Rightarrow> string" where
  "hex_digits 0 n = []"
| "hex_digits (Suc k) n = (if n < 16 then [] else hex_digits k (n div 16)) @ [hex_digit (n mod 16)]"

definition hex_str :: "nat \<Rightarrow> string" where "hex_str n = hex_digits (Suc n) n"

definition data_type :: "nat \<Rightarrow> string" where
  "data_type type =
     (if type = HAL_BIT then ''bit  '' else if type = HAL_FLOAT then ''float''
      else if type = HAL_S32 then ''s32  '' else if type = HAL_U32 then ''u32  ''
      else if type = HAL_S64 then ''s64  '' else if type = HAL_U64 then ''u64  '' else ''undef'')"

definition data_type2 :: "nat \<Rightarrow> string" where "data_type2 type = hals_type type"

definition pin_data_dir :: "nat \<Rightarrow> string" where
  "pin_data_dir dir =
     (if dir = HAL_IN then ''IN'' else if dir = HAL_OUT then ''OUT''
      else if dir = HAL_IO then ''I/O'' else ''???'')"

definition param_data_dir :: "nat \<Rightarrow> string" where
  "param_data_dir dir = (if dir = HAL_RO then ''RO'' else if dir = HAL_RW then ''RW'' else ''??'')"

definition data_arrow1 :: "nat \<Rightarrow> string" where
  "data_arrow1 dir =
     (if dir = HAL_IN then ''<=='' else if dir = HAL_OUT then ''==>''
      else if dir = HAL_IO then ''<=>'' else ''???'')"

definition data_arrow2 :: "nat \<Rightarrow> string" where
  "data_arrow2 dir =
     (if dir = HAL_IN then ''==>'' else if dir = HAL_OUT then ''<==''
      else if dir = HAL_IO then ''<=>'' else ''???'')"

text \<open>The buffers are cut at 13 characters by \<open>snprintf\<close>.\<close>

definition data_value :: "(u64 \<Rightarrow> string) \<Rightarrow> nat \<Rightarrow> u64 \<Rightarrow> string" where
  "data_value fmt_g type v =
     (if type = HAL_BIT then (if get_bit_value v = 0 then ''       FALSE'' else ''        TRUE'')
      else if type = HAL_FLOAT then take 13 (pad_left 12 (CHR '' '') (fmt_g v))
      else if type = HAL_S32 then take 13 (''  '' @ pad_left 10 (CHR '' '') (int_str (word_s32 v)))
      else if type = HAL_U32 then take 13 (''  0x'' @ pad_left 8 (CHR ''0'') (hex_str (unat (get_u32_value v))))
      else if type = HAL_S64 then take 13 (''  '' @ int_str (sint v))
      else if type = HAL_U64 then take 13 (''  '' @ nat_str (unat v))
      else ''   undef    '')"

definition data_value2 :: "(u64 \<Rightarrow> string) \<Rightarrow> nat \<Rightarrow> u64 \<Rightarrow> string" where
  "data_value2 fmt_g type v =
     (if type = HAL_BIT then (if get_bit_value v = 0 then ''FALSE'' else ''TRUE'')
      else if type = HAL_FLOAT then take 13 (fmt_g v)
      else if type = HAL_S32 then take 13 (int_str (word_s32 v))
      else if type = HAL_U32 then take 13 (nat_str (unat (get_u32_value v)))
      else ''unknown_type'')"

end
