(* ===== verification/Halcmd_Parse_Correct.thy ===== *)
theory Halcmd_Parse_Correct
  imports Halcmd_Parse
begin

text \<open>
  The line reader of halcmd: variable replacement keeps to its buffer, comment
  stripping cuts a line at the right place, and on plain lines the tokens are
  the words of the line.
\<close>

declare replace_loop.simps [simp del] tokenize_loop.simps [simp del]

section \<open>Variable replacement\<close>

lemma strlimcpy_space:
  "strlimcpy dest src n sp = Some (dest', sp') \<Longrightarrow>
     length dest' + sp' = length dest + sp"
  by (auto simp: strlimcpy_def Let_def split: if_splits)

text \<open>What \<open>replace_vars\<close> leaves in the destination, also when it fails.\<close>

fun dest_of :: "(rv_fail \<times> string) + string \<Rightarrow> string" where
  "dest_of (Inl (e, d)) = d"
| "dest_of (Inr d) = d"

lemma replace_loop_bound:
  "length (dest_of (replace_loop getenv iniFind sp dest buf_space)) \<le> length dest + buf_space"
proof (induction "length sp" arbitrary: sp dest buf_space rule: less_induct)
  case less
  let ?nd = "strcspn sp ''$[''"
  let ?ref = "(if sp ! ?nd = CHR ''$'' then env_ref getenv else ini_ref iniFind) (drop (?nd + 1) sp)"
  note rl = replace_loop.simps [of getenv iniFind sp dest buf_space]
  show ?case
  proof (cases "sp = []")
    case False
    show ?thesis
    proof (cases "strlimcpy dest sp ?nd buf_space")
      case None
      with False show ?thesis by (simp add: rl)
    next
      case (Some x)
      obtain d b where x: "x = (d, b)" by force
      have db: "length d + b = length dest + buf_space"
        using strlimcpy_space [OF Some [unfolded x]] .
      show ?thesis
      proof (cases "?nd < length sp")
        case False
        with \<open>sp \<noteq> []\<close> Some x db show ?thesis by (simp add: rl Let_def)
      next
        case lt: True
        show ?thesis
        proof (cases ?ref)
          case (Inl e)
          with \<open>sp \<noteq> []\<close> Some x db lt show ?thesis by (simp add: rl Let_def)
        next
          case (Inr y)
          obtain r rest where y: "y = (r, rest)" by force
          show ?thesis
          proof (cases "strlimcpy d r (length r) b")
            case None
            with \<open>sp \<noteq> []\<close> Some x db lt Inr y show ?thesis by (simp add: rl Let_def)
          next
            case (Some z)
            obtain d' b' where z: "z = (d', b')" by force
            have eq: "length d' + b' = length dest + buf_space"
              using strlimcpy_space [OF Some [unfolded z]] db by simp
            have "length sp' < length sp" if "rest = Some sp'" for sp'
            proof -
              have "length sp' \<le> length (drop (?nd + 1) sp)"
                using Inr y that by (auto split: if_splits dest!: env_ref_shrinks ini_ref_shrinks)
              with lt show ?thesis by simp
            qed
            with less [of _ d' b'] \<open>sp \<noteq> []\<close> \<open>strlimcpy dest sp ?nd buf_space = Some x\<close> x lt Inr y Some z eq
            show ?thesis by (cases rest) (simp_all add: rl Let_def)
          qed
        qed
      qed
    qed
  qed (simp add: replace_loop.simps)
qed

lemma strcspn_all: "(\<forall>c\<in>set s. c \<notin> set r) \<Longrightarrow> strcspn s r = length s"
  by (simp add: strcspn_def takeWhile_eq_all_conv [THEN iffD2])

lemma replace_vars_plain:
  assumes "CHR ''$'' \<notin> set s" "CHR ''['' \<notin> set s" "length s < max_chars"
  shows "replace_vars getenv iniFind s max_chars = Inr s"
proof -
  have "strcspn s ''$['' = length s" using assms by (intro strcspn_all) auto
  moreover have "\<not> max_chars - Suc 0 < length s" using assms(3) by linarith
  ultimately show ?thesis
    by (simp add: replace_vars_def replace_loop.simps strlimcpy_def Let_def)
qed

section \<open>Comments\<close>

lemma strip_loop_effect:
  "strip_loop st buf = (rc, r) \<Longrightarrow>
     newline \<notin> set r \<and>
     (\<exists>rest. buf = r @ rest \<and>
       (rest = [] \<or> hd rest = newline \<or> (rc = 0 \<and> hd rest = CHR ''#'')) \<and>
       strip_loop st r = (rc, r))"
  by (induction st buf arbitrary: rc r rule: strip_loop.induct)
     (auto split: if_splits prod.splits)

lemma strip_plain:
  "\<lbrakk>CHR ''#'' \<notin> set s; newline \<notin> set s; squote \<notin> set s; dquote \<notin> set s;
    rest = [] \<or> hd rest = newline \<or> hd rest = CHR ''#''\<rbrakk> \<Longrightarrow>
     strip_loop NORMAL (s @ rest) = (0, s)"
  by (induction s) (cases rest, auto)

section \<open>Tokens\<close>

text \<open>The reference: the maximal blank-free pieces of a line.\<close>

function words :: "string \<Rightarrow> string list" where
  "words s = (let s' = dropWhile isspace s in
     if s' = [] then [] else takeWhile (\<lambda>c. \<not> isspace c) s' # words (dropWhile (\<lambda>c. \<not> isspace c) s'))"
  by pat_completeness auto
termination
proof (relation "measure length", goal_cases)
  case (2 s x)
  have le: "length x \<le> length s" using 2(1) by (simp add: length_dropWhile_le)
  have "\<not> isspace (hd x)" using 2 hd_dropWhile by blast
  then have "dropWhile (\<lambda>c. \<not> isspace c) x = dropWhile (\<lambda>c. \<not> isspace c) (tl x)"
    using 2(2) by (cases x) auto
  moreover have "length (dropWhile (\<lambda>c. \<not> isspace c) (tl x)) \<le> length (tl x)"
    by (rule length_dropWhile_le)
  moreover have "length (tl x) < length x" using 2(2) by simp
  ultimately have "length (dropWhile (\<lambda>c. \<not> isspace c) x) < length s"
    using le by (metis order_le_less_trans order_less_le_trans)
  then show ?case by simp
qed simp

declare words.simps [simp del]

definition trailing_blank :: "string \<Rightarrow> bool" where
  "trailing_blank s \<longleftrightarrow> s \<noteq> [] \<and> isspace (last s)"

definition word_char :: "char \<Rightarrow> bool" where
  "word_char c \<longleftrightarrow> \<not> isspace c \<and> c \<noteq> squote \<and> c \<noteq> dquote"

lemma words_Nil [simp]: "words [] = []"
  by (simp add: words.simps)

lemma words_blank [simp]: "isspace c \<Longrightarrow> words (c # s) = words s"
  by (subst (1 2) words.simps) simp

lemma words_empty: "words s = [] \<Longrightarrow> c \<in> set s \<Longrightarrow> isspace c"
  by (subst (asm) words.simps) (auto simp: Let_def split: if_splits)

lemma words_word:
  assumes "w \<noteq> []" "\<forall>c\<in>set w. \<not> isspace c" "s = [] \<or> isspace (hd s)"
  shows "words (w @ s) = w # words s"
proof -
  have h: "dropWhile isspace (w @ s) = w @ s"
    using assms by (cases w) auto
  have "takeWhile (\<lambda>c. \<not> isspace c) (w @ s) = w" "dropWhile (\<lambda>c. \<not> isspace c) (w @ s) = s"
    using assms by (auto simp: takeWhile_append2 dropWhile_append2) (cases s; simp)+
  with h assms show ?thesis by (subst words.simps) simp
qed

lemma tokenize_pad:
  "length tokens \<le> MAX_TOK \<Longrightarrow>
     tokenize_loop END_OF_LINE tokens cur [] = Some (tokens @ replicate (MAX_TOK - length tokens) [])"
proof (induction "MAX_TOK - length tokens" arbitrary: tokens cur)
  case (Suc n)
  then have lt: "length tokens < MAX_TOK" by simp
  have "tokenize_loop END_OF_LINE tokens cur [] = tokenize_loop END_OF_LINE (tokens @ [[]]) [] []"
    using lt by (subst tokenize_loop.simps) (simp add: embedded_cr_def)
  also have "\<dots> = Some ((tokens @ [[]]) @ replicate (MAX_TOK - length (tokens @ [[]])) [])"
    using Suc lt by (intro Suc.hyps) auto
  also have "\<dots> = Some (tokens @ replicate (MAX_TOK - length tokens) [])"
    using lt by (simp add: Suc_diff_Suc flip: replicate_Suc)
  finally show ?case .
qed (subst tokenize_loop.simps, simp)

lemma tokenize_in_word:
  assumes "\<forall>c\<in>set w. word_char c" "length tokens < MAX_TOK"
  shows "tokenize_loop IN_TOKEN tokens cur (w @ s) = tokenize_loop IN_TOKEN tokens (cur @ w) s"
  using assms
proof (induction w arbitrary: cur)
  case (Cons c w)
  have "\<not> embedded_cr ((c # w) @ s)"
    using Cons.prems by (auto simp: embedded_cr_def word_char_def isspace_def)
  then have "tokenize_loop IN_TOKEN tokens cur ((c # w) @ s) =
      tokenize_loop IN_TOKEN tokens (cur @ [c]) (w @ s)"
    using Cons.prems by (subst tokenize_loop.simps) (simp add: word_char_def)
  with Cons show ?case by simp
qed simp

lemma tokenize_blank:
  assumes "isspace c" "c \<noteq> carriage_return" "length tokens < MAX_TOK"
  shows "tokenize_loop BETWEEN_TOKENS tokens cur (c # s) = tokenize_loop BETWEEN_TOKENS tokens [] s"
  using assms by (subst tokenize_loop.simps) (simp add: embedded_cr_def)

lemma tokenize_word:
  assumes "w \<noteq> []" "\<forall>c\<in>set w. word_char c" "length tokens < MAX_TOK"
  shows "tokenize_loop BETWEEN_TOKENS tokens cur (w @ s) = tokenize_loop IN_TOKEN tokens w s"
proof (cases w)
  case (Cons c w')
  have "\<not> embedded_cr ((c # w') @ s)"
    using assms Cons by (auto simp: embedded_cr_def word_char_def isspace_def)
  then have "tokenize_loop BETWEEN_TOKENS tokens cur ((c # w') @ s) =
      tokenize_loop IN_TOKEN tokens [c] (w' @ s)"
    using assms Cons by (subst tokenize_loop.simps) (simp add: word_char_def)
  with assms Cons tokenize_in_word [of w' tokens "[c]" s] show ?thesis by simp
qed (use assms in simp)

text \<open>The number of tokens a line needs: a blank after the last word asks for one more.\<close>

definition tokens_needed :: "string \<Rightarrow> nat" where
  "tokens_needed s = length (words s) + (if words s \<noteq> [] \<and> trailing_blank s then 1 else 0)"

definition padded :: "string list \<Rightarrow> string list" where
  "padded ts = ts @ replicate (MAX_TOK - length ts) []"

lemma tokenize_full: "tokenize_loop BETWEEN_TOKENS tokens cur s = None" if "MAX_TOK \<le> length tokens"
  using that by (subst tokenize_loop.simps) simp

lemma word_split:
  fixes s :: string
  assumes "s \<noteq> []" "\<not> isspace (hd s)"
  obtains w r where "s = w @ r" "w \<noteq> []" "\<forall>c\<in>set w. \<not> isspace c" "r = [] \<or> isspace (hd r)"
proof
  show "s = takeWhile (\<lambda>c. \<not> isspace c) s @ dropWhile (\<lambda>c. \<not> isspace c) s" by simp
  show "takeWhile (\<lambda>c. \<not> isspace c) s \<noteq> []" using assms by (cases s) auto
  show "\<forall>c\<in>set (takeWhile (\<lambda>c. \<not> isspace c) s). \<not> isspace c" by (auto dest: set_takeWhileD)
  show "dropWhile (\<lambda>c. \<not> isspace c) s = [] \<or> isspace (hd (dropWhile (\<lambda>c. \<not> isspace c) s))"
    using hd_dropWhile [of "\<lambda>c. \<not> isspace c" s] by auto
qed

lemma tokenize_loop_words:
  assumes "squote \<notin> set s" "dquote \<notin> set s" "carriage_return \<notin> set s" "length tokens < MAX_TOK"
  shows "tokenize_loop BETWEEN_TOKENS tokens cur s =
           (if length tokens + tokens_needed s \<le> MAX_TOK then Some (padded (tokens @ words s)) else None)"
  using assms
proof (induction "length s" arbitrary: s tokens cur rule: less_induct)
  case less
  show ?case
  proof (cases "s = [] \<or> isspace (hd s)")
    case True
    show ?thesis
    proof (cases s)
      case Nil
      have "tokenize_loop BETWEEN_TOKENS tokens cur [] = tokenize_loop END_OF_LINE tokens [] []"
        using less.prems by (subst tokenize_loop.simps) (simp add: embedded_cr_def)
      with Nil less.prems show ?thesis by (simp add: tokens_needed_def padded_def tokenize_pad)
    next
      case (Cons c s')
      have "tokens_needed s = tokens_needed s'"
        using True Cons by (cases s') (auto simp: tokens_needed_def trailing_blank_def)
      moreover have "tokenize_loop BETWEEN_TOKENS tokens cur s = tokenize_loop BETWEEN_TOKENS tokens [] s'"
        using less.prems True Cons by (auto intro: tokenize_blank)
      ultimately show ?thesis using less True Cons by simp
    qed
  next
    case False
    then obtain w r where s: "s = w @ r" "w \<noteq> []" "\<forall>c\<in>set w. \<not> isspace c" and r: "r = [] \<or> isspace (hd r)"
      by (metis word_split)
    have wc: "\<forall>c\<in>set w. word_char c" using s less.prems by (auto simp: word_char_def)
    have ws: "words s = w # words r" using s r words_word by simp
    have tl: "tokenize_loop BETWEEN_TOKENS tokens cur s = tokenize_loop IN_TOKEN tokens w r"
      using s wc less.prems by (simp add: tokenize_word)
    show ?thesis
    proof (cases r)
      case Nil
      have "tokenize_loop IN_TOKEN tokens w [] = tokenize_loop END_OF_LINE (tokens @ [w]) [] []"
        using less.prems by (subst tokenize_loop.simps) (simp add: embedded_cr_def)
      moreover have "\<not> trailing_blank s" using s Nil by (auto simp: trailing_blank_def)
      ultimately show ?thesis using tl ws Nil less.prems
        by (simp add: tokens_needed_def padded_def tokenize_pad)
    next
      case (Cons c r')
      with s r less.prems have c: "isspace c" "c \<noteq> carriage_return" "c \<noteq> squote" "c \<noteq> dquote" by auto
      have "tokenize_loop IN_TOKEN tokens w (c # r') = tokenize_loop BETWEEN_TOKENS (tokens @ [w]) [] r'"
        using c less.prems by (subst tokenize_loop.simps) (simp add: embedded_cr_def)
      with tl Cons have tl': "tokenize_loop BETWEEN_TOKENS tokens cur s =
          tokenize_loop BETWEEN_TOKENS (tokens @ [w]) [] r'" by simp
      have need: "tokens_needed s = (if words r' = [] then 2 else Suc (tokens_needed r'))"
        using s c Cons ws words_empty [of r' "last r'"]
        by (cases r') (auto simp: tokens_needed_def trailing_blank_def split: if_splits)
      show ?thesis
      proof (cases "length (tokens @ [w]) < MAX_TOK")
        case True
        with less s Cons have "tokenize_loop BETWEEN_TOKENS (tokens @ [w]) [] r' =
           (if length (tokens @ [w]) + tokens_needed r' \<le> MAX_TOK
            then Some (padded ((tokens @ [w]) @ words r')) else None)"
          by simp
        with tl' need ws Cons c True show ?thesis by (auto simp: tokens_needed_def)
      next
        case False
        with less.prems have "length tokens = MAX_TOK - 1" by simp
        moreover have "2 \<le> tokens_needed s" using need by (auto simp: tokens_needed_def Suc_le_eq)
        ultimately show ?thesis using tl' False by (simp add: tokenize_full MAX_TOK_def)
      qed
    qed
  qed
qed

lemma preprocess_plain:
  assumes "\<forall>c\<in>{squote, dquote, carriage_return, newline, CHR ''#'', CHR ''$'', CHR ''[''}. c \<notin> set s"
    and "length s < 2 * MAX_CMD_LEN - 2"
    and "rest = [] \<or> hd rest = newline \<or> hd rest = CHR ''#''"
  shows "halcmd_preprocess_line getenv iniFind (s @ rest) =
           (if tokens_needed s \<le> MAX_TOK then Inr (padded (words s) @ [[]]) else Inl Tokenization)"
proof -
  have "strip_comments (s @ rest) = (0, s)"
    using assms by (simp add: strip_comments_def strip_plain)
  moreover have "replace_vars getenv iniFind s (2 * MAX_CMD_LEN - 2) = Inr s"
    using assms by (simp add: replace_vars_plain)
  moreover have "tokenize s = (if tokens_needed s \<le> MAX_TOK then Some (padded (words s)) else None)"
    using assms tokenize_loop_words [of s "[]" "[]"] by (simp add: tokenize_def MAX_TOK_def)
  ultimately show ?thesis by (simp add: halcmd_preprocess_line_def)
qed

section \<open>Properties\<close>

text \<open>\<open>strip_comments\<close> removes exactly the comment or the newline that ends a line outside quotes:
  the text it keeps is a prefix of the line without any newline, what follows it starts with a
  newline or, when the quotes are closed, with a hash sign, and stripping the kept text again
  changes nothing. The return value says whether a quote is left open.\<close>

theorem strip_comments_correct:
  assumes "strip_comments buf = (rc, r)"
  shows "newline \<notin> set r \<and>
    (\<exists>rest. buf = r @ rest \<and>
       (rest = [] \<or> hd rest = newline \<or> (rc = 0 \<and> hd rest = CHR ''#''))) \<and>
    strip_comments r = (rc, r)"
  using strip_loop_effect assms unfolding strip_comments_def by blast

theorem strip_comments_correct_witness:
  "newline \<notin> set ''net a '' \<and>
    (\<exists>rest. ''net a # b'' = ''net a '' @ rest \<and>
       (rest = [] \<or> hd rest = newline \<or> ((0 :: int) = 0 \<and> hd rest = CHR ''#''))) \<and>
    strip_comments ''net a '' = (0, ''net a '')"
  by (rule strip_comments_correct) (simp add: strip_comments_def)

text \<open>C35: \<open>replace_vars\<close> never writes past its destination buffer: whatever the environment
  and the ini file substitute, on success and on every error the text it has produced leaves room
  for the terminating NUL in \<open>max_chars\<close> characters.\<close>

theorem replace_vars_bounded:
  assumes "0 < max_chars"
  shows "length (dest_of (replace_vars getenv iniFind source_str max_chars)) < max_chars"
  using replace_loop_bound [of getenv iniFind source_str "[]" "max_chars - 1"] assms
  by (simp add: replace_vars_def)

theorem replace_vars_bounded_witness:
  "length (dest_of (replace_vars (\<lambda>v. Some ''xyz'') (\<lambda>v s. None) ''a $HOME'' 4)) < 4"
  using replace_vars_bounded [of 4 "\<lambda>v. Some ''xyz''" "\<lambda>v s. None" "''a $HOME''"] by simp

text \<open>C30: on a line without quotes, variable references and carriage returns,
  \<open>halcmd_preprocess_line\<close> is the reference that splits the line at blanks after dropping the
  comment: it returns the words of the line padded with empty tokens to \<open>MAX_TOK + 1\<close> entries, and
  refuses the line exactly when the words, with one more for a blank after the last of them, do not
  fit.\<close>

theorem preprocess_line_words:
  assumes "\<forall>c\<in>{squote, dquote, carriage_return, newline, CHR ''#'', CHR ''$'', CHR ''[''}. c \<notin> set s"
    and "length s < 2 * MAX_CMD_LEN - 2"
    and "rest = [] \<or> hd rest = newline \<or> hd rest = CHR ''#''"
  shows "halcmd_preprocess_line getenv iniFind (s @ rest) =
           (if tokens_needed s \<le> MAX_TOK then Inr (padded (words s) @ [[]]) else Inl Tokenization)"
  using assms by (rule preprocess_plain)

theorem preprocess_line_words_witness:
  "halcmd_preprocess_line (\<lambda>v. None) (\<lambda>v s. None) (''net  a b'' @ ''# c'') =
     (if tokens_needed ''net  a b'' \<le> MAX_TOK then Inr (padded (words ''net  a b'') @ [[]])
      else Inl Tokenization)"
  by (rule preprocess_line_words) (simp_all add: MAX_CMD_LEN_def)

end
