(* ===== verification/Halcmd_Values_Correct.thy ===== *)
theory Halcmd_Values_Correct
  imports Halcmd_Values Halcmd_Parse_Correct
begin

text \<open>
  Printing and scanning of integer values agree: the text that halcmd prints
  for a value of a bit, s32 or u32 location, assigned with \<open>set_common\<close>, stores
  that value again.
\<close>

section \<open>Digits\<close>

lemma digit_val_dec [simp]: "d < 10 \<Longrightarrow> digit_val (char_of (48 + d :: nat)) = d"
  by (simp add: digit_val_def)

lemma digit_val_hex [simp]: "d < 16 \<Longrightarrow> digit_val (hex_digit d) = d"
  by (simp add: digit_val_def hex_digit_def Let_def)

lemma digits_val_snoc [simp]: "digits_val b (ds @ [c]) = digits_val b ds * b + digit_val c"
  by (simp add: digits_val_def)

lemma digits_val_digits: "n < 10 ^ k \<Longrightarrow> digits_val 10 (digits k n) = n"
proof (induction k arbitrary: n)
  case (Suc k)
  have "n div 10 < 10 ^ k" using Suc.prems by (simp add: less_mult_imp_div_less mult.commute)
  with Suc.IH [of "n div 10"] show ?case
    by (cases "n < 10") (simp_all add: digits_val_def)
qed (simp add: digits_val_def)

lemma digits_val_hex: "n < 16 ^ k \<Longrightarrow> digits_val 16 (hex_digits k n) = n"
proof (induction k arbitrary: n)
  case (Suc k)
  have "n div 16 < 16 ^ k" using Suc.prems by (simp add: less_mult_imp_div_less mult.commute)
  with Suc.IH [of "n div 16"] show ?case
    by (cases "n < 16") (simp_all add: digits_val_def)
qed (simp add: digits_val_def)

lemma set_digits: "c \<in> set (digits k n) \<Longrightarrow> \<exists>d<10. c = char_of (48 + d :: nat)"
  by (induction k arbitrary: n) (auto split: if_splits intro: exI [of _ "_ mod 10"])

lemma set_hex_digits: "c \<in> set (hex_digits k n) \<Longrightarrow> \<exists>d<16. c = hex_digit d"
  by (induction k arbitrary: n) (auto split: if_splits intro: exI [of _ "_ mod 16"])

lemma length_digits: "n < 10 ^ d \<Longrightarrow> 0 < d \<Longrightarrow> length (digits k n) \<le> d"
proof (induction k arbitrary: n d)
  case (Suc k)
  show ?case
  proof (cases "n < 10")
    case False
    with Suc.prems obtain d' where d: "d = Suc d'" "0 < d'" by (cases d; cases "d - 1") auto
    then have "n div 10 < 10 ^ d'" using Suc.prems by (simp add: less_mult_imp_div_less mult.commute)
    with Suc.IH d False show ?thesis by simp
  qed (use Suc.prems in simp)
qed simp

lemma length_hex_digits: "n < 16 ^ d \<Longrightarrow> 0 < d \<Longrightarrow> length (hex_digits k n) \<le> d"
proof (induction k arbitrary: n d)
  case (Suc k)
  show ?case
  proof (cases "n < 16")
    case False
    with Suc.prems obtain d' where d: "d = Suc d'" "0 < d'" by (cases d; cases "d - 1") auto
    then have "n div 16 < 16 ^ d'" using Suc.prems by (simp add: less_mult_imp_div_less mult.commute)
    with Suc.IH d False show ?thesis by simp
  qed (use Suc.prems in simp)
qed simp

lemma digits_ne: "0 < k \<Longrightarrow> digits k n \<noteq> []"
  by (cases k) simp_all

lemma hd_digits: "0 < n \<Longrightarrow> 0 < k \<Longrightarrow> n < 10 ^ k \<Longrightarrow> \<exists>d. 0 < d \<and> d < 10 \<and> hd (digits k n) = char_of (48 + d :: nat)"
proof (induction k arbitrary: n)
  case (Suc k)
  show ?case
  proof (cases "n < 10")
    case True
    with Suc.prems show ?thesis by auto
  next
    case False
    then have "n div 10 < 10 ^ k" "0 < n div 10"
      using Suc.prems by (simp_all add: less_mult_imp_div_less mult.commute div_greater_zero_iff)
    moreover then have "0 < k" by (cases k) auto
    ultimately show ?thesis using Suc.IH [of "n div 10"] False digits_ne [of k "n div 10"]
      by simp
  qed
qed simp

lemma less_power_Suc: "n < b ^ Suc n" if "2 \<le> b" for n b :: nat
  using that less_exp [of "Suc n"] power_mono [of 2 b "Suc n"] by simp

lemma nat_str_val: "digits_val 10 (nat_str n) = n"
  using less_power_Suc [of 10 n] by (simp del: digits.simps add: nat_str_def digits_val_digits)

lemma nat_str_set: "c \<in> set (nat_str n) \<Longrightarrow> \<exists>d<10. c = char_of (48 + d :: nat)"
  unfolding nat_str_def by (rule set_digits)

lemma nat_str_length: "n < 10 ^ d \<Longrightarrow> 0 < d \<Longrightarrow> length (nat_str n) \<le> d"
  unfolding nat_str_def by (rule length_digits)

lemma nat_str_hd: "0 < n \<Longrightarrow> \<exists>d. 0 < d \<and> d < 10 \<and> hd (nat_str n) = char_of (48 + d :: nat)"
  unfolding nat_str_def using less_power_Suc [of 10 n] by (intro hd_digits) simp_all

lemma nat_str_ne [simp]: "nat_str n \<noteq> []"
  by (simp add: nat_str_def)

lemma nat_str_zero: "nat_str 0 = ''0''"
  by code_simp

section \<open>Scanning what was printed\<close>

lemma char_eq_iff: "c = d \<longleftrightarrow> (of_char c :: nat) = of_char d"
  by (metis char_of_char)

lemma dec_char:
  assumes "d < 10"
  shows "is_digit 10 (char_of (48 + d :: nat)) \<and> char_of (48 + d :: nat) \<noteq> CHR ''-'' \<and>
    char_of (48 + d :: nat) \<noteq> CHR ''+'' \<and> (char_of (48 + d :: nat) = CHR ''0'' \<longrightarrow> d = 0) \<and>
    word_char (char_of (48 + d :: nat))"
  using assms by (simp add: is_digit_def word_char_def isspace_def char_eq_iff)

lemma hex_char:
  assumes "d < 16"
  shows "is_digit 16 (hex_digit d) \<and> word_char (hex_digit d)"
  using assms digit_val_hex [OF assms]
  by (simp add: is_digit_def word_char_def isspace_def char_eq_iff) (simp add: hex_digit_def)

lemma dec_first:
  assumes "0 < n"
  shows "hd (nat_str n) \<noteq> CHR ''-''" "hd (nat_str n) \<noteq> CHR ''+''" "hd (nat_str n) \<noteq> CHR ''0''"
    "\<not> isspace (hd (nat_str n))"
proof -
  obtain d where d: "0 < d" "d < 10" "hd (nat_str n) = char_of (48 + d :: nat)"
    using nat_str_hd [OF assms] by blast
  from dec_char [OF d(2)] d(1) show "hd (nat_str n) \<noteq> CHR ''-''" "hd (nat_str n) \<noteq> CHR ''+''"
    "hd (nat_str n) \<noteq> CHR ''0''" "\<not> isspace (hd (nat_str n))"
    unfolding d(3) word_char_def by blast+
qed

lemma dec_scan:
  assumes "0 < n"
  shows "scan_base (nat_str n) = (10, nat_str n)"
    "takeWhile (is_digit 10) (nat_str n) = nat_str n" "dropWhile (is_digit 10) (nat_str n) = []"
proof -
  show "scan_base (nat_str n) = (10, nat_str n)"
    using dec_first [OF assms] by (cases "nat_str n") (auto simp: scan_base_def)
  have "\<forall>c\<in>set (nat_str n). is_digit 10 c" using nat_str_set dec_char by blast
  then show "takeWhile (is_digit 10) (nat_str n) = nat_str n" "dropWhile (is_digit 10) (nat_str n) = []"
    by (simp_all add: takeWhile_eq_all_conv dropWhile_eq_Nil_conv)
qed

lemma dropWhile_hd: "xs \<noteq> [] \<Longrightarrow> \<not> P (hd xs) \<Longrightarrow> dropWhile P xs = xs"
  by (cases xs) auto

lemma scan_dec: "scan_digits None (nat_str n) = (False, n, [])"
proof (cases "n = 0")
  case True
  then show ?thesis by (simp only: nat_str_zero) code_simp
next
  case False
  then show ?thesis
    by (simp add: scan_digits_def dropWhile_hd dec_first dec_scan nat_str_val)
qed

lemma scan_dec_neg: "0 < n \<Longrightarrow> scan_digits None (CHR ''-'' # nat_str n) = (True, n, [])"
  by (simp add: scan_digits_def isspace_def dec_scan nat_str_val)

lemma strtol_int_str: "- (2 ^ 63) \<le> i \<Longrightarrow> i < 2 ^ 63 \<Longrightarrow> strtol (int_str i) = (i, [])"
  by (simp add: strtol_def int_str_def scan_dec scan_dec_neg)

lemma strtoul_nat_str: "n < 2 ^ 64 \<Longrightarrow> strtoul (nat_str n) = (int n, [])"
  by (simp add: strtoul_def ulong_of_def scan_dec)

lemma strtoul_hex:
  assumes "s = pad_left 8 (CHR ''0'') (hex_str n)" "n < 2 ^ 32"
  shows "strtoul (CHR ''0'' # CHR ''x'' # s) = (int n, [])"
proof -
  let ?h = "hex_digits (Suc n) n"
  have "\<forall>c\<in>set ?h. is_digit 16 c" using set_hex_digits hex_char by blast
  moreover have z: "is_digit 16 (CHR ''0'')" by code_simp
  ultimately have dg: "\<forall>c\<in>set s. is_digit 16 c"
    by (auto simp: assms(1) pad_left_def hex_str_def simp del: hex_digits.simps)
  have len: "s \<noteq> []" by (auto simp: assms(1) pad_left_def hex_str_def)
  have "foldl (\<lambda>a c. a * 16 + digit_val c) 0 (replicate k (CHR ''0'')) = 0" for k
    by (induction k) (simp_all add: digit_val_def)
  then have "digits_val 16 s = digits_val 16 ?h"
    by (simp add: assms(1) pad_left_def hex_str_def digits_val_def del: hex_digits.simps)
  also have "\<dots> = n" using less_power_Suc [of 16 n] by (intro digits_val_hex) simp
  finally have v: "digits_val 16 s = n" .
  have tw: "takeWhile (is_digit 16) s = s" "dropWhile (is_digit 16) s = []"
    using dg by (simp_all add: takeWhile_eq_all_conv dropWhile_eq_Nil_conv)
  have base: "scan_base (CHR ''0'' # CHR ''x'' # s) = (16, s)"
    using dg len by (cases s) (simp_all add: scan_base_def tolower_def)
  have "scan_digits None (CHR ''0'' # CHR ''x'' # s) = (False, n, [])"
    by (simp add: scan_digits_def isspace_def Let_def base tw v len)
  with assms(2) show ?thesis by (simp add: strtoul_def ulong_of_def)
qed

section \<open>Assigning what was printed\<close>

lemma word_s32_bounds: "- (2 ^ 31) \<le> word_s32 v" "word_s32 v < 2 ^ 31"
  by (simp_all add: word_s32_def to_s32_def)

lemma take_bit_to_s32: "take_bit 32 (to_s32 x) = take_bit 32 x"
  by (simp add: take_bit_eq_mod to_s32_def mod_diff_left_eq)

lemma set_low_cong: "take_bit n v = take_bit n w \<Longrightarrow> set_low n d v = set_low n d w"
  by (simp add: set_low_def take_bit_eq_mask)

lemma get_low_take_bit: "get_low n v = take_bit n v"
  by (simp add: get_low_def take_bit_eq_mask)

lemma set_s32_printed: "set_s32_value d (word_of_int (word_s32 v)) = set_s32_value d v"
proof -
  have "take_bit 32 (word_of_int (word_s32 v) :: u64) = word_of_int (take_bit 32 (uint (take_bit 32 v)))"
    by (simp only: take_bit_of_int word_s32_def take_bit_to_s32 get_low_take_bit)
  also have "\<dots> = take_bit 32 v"
    by (simp only: unsigned_take_bit_eq take_bit_of_int [symmetric] word_of_int_uint take_bit_take_bit min.idem)
  finally show ?thesis unfolding set_s32_value_def by (rule set_low_cong)
qed

lemma set_u32_printed: "set_u32_value d (get_u32_value v) = set_u32_value d v"
  unfolding set_u32_value_def get_u32_value_def get_low_take_bit
  by (rule set_low_cong) simp

lemma u32_bound: "unat (get_u32_value v) < 2 ^ 32"
  unfolding get_u32_value_def get_low_take_bit unsigned_take_bit_eq by (rule take_bit_nat_less_exp)

text \<open>What a printed value stores: a bit is printed as a truth value.\<close>

definition printed :: "nat \<Rightarrow> u64 \<Rightarrow> u64" where
  "printed type v = (if type = HAL_BIT then of_bool (get_bit_value v \<noteq> 0) else v)"

lemma int_str_length: "\<bar>i\<bar> < 10 ^ d \<Longrightarrow> 0 < d \<Longrightarrow> length (int_str i) \<le> Suc d"
  by (auto simp: int_str_def nat_less_iff intro!: nat_str_length le_SucI)

lemma s32_text: "strtol (int_str (word_s32 v)) = (word_s32 v, [])" "length (int_str (word_s32 v)) \<le> 11"
proof -
  show "strtol (int_str (word_s32 v)) = (word_s32 v, [])"
    using word_s32_bounds [of v] by (intro strtol_int_str) simp_all
  have "\<bar>word_s32 v\<bar> < 10 ^ 10" using word_s32_bounds [of v] by simp
  then show "length (int_str (word_s32 v)) \<le> 11" using int_str_length [of "word_s32 v" 10] by simp
qed

lemma u32_text:
  "strtoul (nat_str (unat (get_u32_value v))) = (uint (get_u32_value v), [])"
  "length (nat_str (unat (get_u32_value v))) \<le> 10"
  "length (hex_str (unat (get_u32_value v))) \<le> 8"
  using u32_bound [of v] strtoul_nat_str [of "unat (get_u32_value v)"]
  by (auto simp: hex_str_def simp del: hex_digits.simps intro!: nat_str_length length_hex_digits)

lemma set_printed2:
  assumes "type \<in> {HAL_BIT, HAL_S32, HAL_U32}"
  shows "set_common strtod type d (data_value2 fmt_g type v) = (0, set_typed type d (printed type v))"
proof -
  consider "type = HAL_BIT" | "type = HAL_S32" | "type = HAL_U32" using assms by auto
  then show ?thesis
  proof cases
    case 1
    then show ?thesis
      by (simp add: set_common_def data_value2_def printed_def set_typed_def strcase_eq_def)
  next
    case 2
    have "take 13 (int_str (word_s32 v)) = int_str (word_s32 v)" using s32_text(2) [of v] by simp
    with 2 show ?thesis
      by (simp add: set_common_def data_value2_def printed_def set_typed_def s32_text(1) clean_end_def
          set_s32_printed)
  next
    case 3
    have "take 13 (nat_str (unat (get_u32_value v))) = nat_str (unat (get_u32_value v))"
      using u32_text(2) [of v] by simp
    with 3 show ?thesis
      by (simp add: set_common_def data_value2_def printed_def set_typed_def u32_text(1) clean_end_def
          set_u32_printed)
  qed
qed

lemma words_padded: "w \<noteq> [] \<Longrightarrow> \<forall>c\<in>set w. \<not> isspace c \<Longrightarrow> words (replicate k (CHR '' '') @ w) = [w]"
  using words_word [of w "[]"] by (induction k) (simp_all add: isspace_def)

lemma int_str_plain: "c \<in> set (int_str i) \<Longrightarrow> word_char c \<and> c \<notin> {CHR ''#'', CHR ''$'', CHR ''['', CHR ''<'', CHR ''=''}"
  by (auto simp: int_str_def word_char_def isspace_def char_eq_iff dest!: nat_str_set split: if_splits)

lemma set_printed:
  assumes "type \<in> {HAL_BIT, HAL_S32, HAL_U32}"
  obtains w where "words (data_value fmt_g type v) = [w]"
    "set_common strtod type d w = (0, set_typed type d (printed type v))"
proof -
  consider "type = HAL_BIT" | "type = HAL_S32" | "type = HAL_U32" using assms by auto
  then show ?thesis
  proof cases
    case 1
    let ?w = "if get_bit_value v = 0 then ''FALSE'' else ''TRUE''"
    have "words (data_value fmt_g type v) = [?w]"
      using words_padded [of "''FALSE''" 7] words_padded [of "''TRUE''" 8]
      by (simp add: 1 data_value_def numeral_eq_Suc isspace_def)
    moreover have "set_common strtod type d ?w = (0, set_typed type d (printed type v))"
      using 1 by (simp add: set_common_def printed_def set_typed_def strcase_eq_def)
    ultimately show ?thesis by (rule that)
  next
    case 2
    let ?w = "int_str (word_s32 v)"
    have "data_value fmt_g type v = replicate (2 + (10 - length ?w)) (CHR '' '') @ ?w"
      using s32_text(2) [of v] 2 by (simp add: data_value_def pad_left_def)
    moreover have "?w \<noteq> []" by (simp add: int_str_def)
    ultimately have "words (data_value fmt_g type v) = [?w]"
      using int_str_plain words_padded [of ?w] by (metis word_char_def)
    moreover have "set_common strtod type d ?w = (0, set_typed type d (printed type v))"
      using 2 by (simp add: set_common_def printed_def set_typed_def s32_text(1) clean_end_def set_s32_printed)
    ultimately show ?thesis by (rule that)
  next
    case 3
    let ?w = "CHR ''0'' # CHR ''x'' # pad_left 8 (CHR ''0'') (hex_str (unat (get_u32_value v)))"
    have "data_value fmt_g type v = replicate 2 (CHR '' '') @ ?w"
      using u32_text(3) [of v] 3 by (simp add: data_value_def pad_left_def numeral_eq_Suc)
    moreover have "\<forall>c\<in>set ?w. \<not> isspace c"
      using set_hex_digits hex_char
      by (fastforce simp: pad_left_def hex_str_def word_char_def isspace_def simp del: hex_digits.simps)
    ultimately have "words (data_value fmt_g type v) = [?w]" using words_padded [of ?w] by simp
    moreover have "set_common strtod type d ?w = (0, set_typed type d (printed type v))"
      using 3 strtoul_hex [OF refl u32_bound [of v]]
      by (simp add: set_common_def printed_def set_typed_def clean_end_def set_u32_printed)
    ultimately show ?thesis by (rule that)
  qed
qed

section \<open>Properties\<close>

text \<open>C31: for bit, s32 and u32 values the texts that halcmd prints are read back: assigning
  to any location what \<open>getp\<close> prints (\<open>data_value2\<close>), or the only word of the padded form that
  \<open>save\<close> writes (\<open>data_value\<close>), succeeds and stores the printed value, leaving the bytes of the
  location beyond its type as they were. A bit is stored as its truth value.\<close>

theorem print_scan_value:
  assumes "type \<in> {HAL_BIT, HAL_S32, HAL_U32}"
  shows "set_common strtod type d (data_value2 fmt_g type v) = (0, set_typed type d (printed type v)) \<and>
    (\<exists>w. words (data_value fmt_g type v) = [w] \<and>
       set_common strtod type d w = (0, set_typed type d (printed type v)))"
  using set_printed2 [OF assms] set_printed [OF assms] by metis

theorem print_scan_value_witness:
  "set_common (\<lambda>s. (0, s)) HAL_S32 0 (data_value2 (\<lambda>v. []) HAL_S32 (- 5)) =
     (0, set_typed HAL_S32 0 (printed HAL_S32 (- 5))) \<and>
    (\<exists>w. words (data_value (\<lambda>v. []) HAL_S32 (- 5)) = [w] \<and>
       set_common (\<lambda>s. (0, s)) HAL_S32 0 w = (0, set_typed HAL_S32 0 (printed HAL_S32 (- 5))))"
  by (rule print_scan_value) simp

end
