(* ===== verification/Sampler.thy ===== *)
theory Sampler
  imports Halcmd_Values_Correct
begin

text \<open>
  The sampler (\<open>modules/managed/components/sampler\<close> and the process
  \<open>sampler_usr\<close>): a realtime function copies pins into a fifo in shared memory
  (\<open>samstr_memdefs.h\<close>), overwriting the oldest sample when the fifo is full, and a
  process takes the samples out. They share no lock. The realtime function is
  not interrupted by the process, so it is one step; the process is broken into
  its accesses to the shared memory. A data word is the 64-bit union
  \<open>shmem_data_t\<close>; the values of the pins are an argument.
\<close>

section \<open>State\<close>

record fifo_t =
  fifo_in :: nat
  fifo_out :: nat
  fifo_depth :: nat
  num_pins :: nat
  last_sample :: u64
  fifo_type :: "nat list"
  fifo_data :: "nat \<Rightarrow> u64"

record sampler = fifo_t +
  curr_depth :: int
  full :: bool
  enable :: bool
  overruns :: int
  sample_num :: int

definition MAX_PINS :: nat where "MAX_PINS = 20"
definition MAX_SAMPLERS :: nat where "MAX_SAMPLERS = 8"
definition MAX_SHMEM :: nat where "MAX_SHMEM = 128000"

section \<open>Configuration\<close>

fun parse_types_from :: "nat \<Rightarrow> nat list \<Rightarrow> string \<Rightarrow> nat list option" where
  "parse_types_from n ts [] = Some ts"
| "parse_types_from n ts (c # cs) =
     (if n \<ge> MAX_PINS then None
      else if c = CHR ''f'' \<or> c = CHR ''F'' then parse_types_from (n + 1) (ts @ [HAL_FLOAT]) cs
      else if c = CHR ''b'' \<or> c = CHR ''B'' then parse_types_from (n + 1) (ts @ [HAL_BIT]) cs
      else if c = CHR ''u'' \<or> c = CHR ''U'' then parse_types_from (n + 1) (ts @ [HAL_U32]) cs
      else if c = CHR ''s'' \<or> c = CHR ''S'' then parse_types_from (n + 1) (ts @ [HAL_S32]) cs
      else None)"

text \<open>The types of the pins; the number 0 of the code, for an error, is \<open>None\<close> or no pin.\<close>

definition parse_types :: "string \<Rightarrow> nat list option" where
  "parse_types cfg = parse_types_from 0 [] cfg"

text \<open>
  The checks of \<open>rtapi_app_main\<close>: the fifos of the channels configured, or an
  error. Channels end at the first without a string or a positive depth.
\<close>

fun check_channels :: "nat \<Rightarrow> (string option \<times> int) list \<Rightarrow> (nat list \<times> nat) list \<Rightarrow> int + (nat list \<times> nat) list" where
  "check_channels n [] fs = (if fs = [] then Inl (- EINVAL) else Inr fs)"
| "check_channels n ((cfg, d) # cs) fs =
     (if n \<ge> MAX_SAMPLERS \<or> cfg = None \<or> d \<le> 0 then (if fs = [] then Inl (- EINVAL) else Inr fs)
      else case parse_types (the cfg) of
             None \<Rightarrow> Inl (- EINVAL)
           | Some ts \<Rightarrow>
               if ts = [] then Inl (- EINVAL)
               else if d > int (MAX_SHMEM div (8 * (length ts + 1))) then Inl (- ENOMEM)
               else check_channels (n + 1) cs (fs @ [(ts, nat d)]))"

definition init_sampler :: "nat list \<Rightarrow> nat \<Rightarrow> (nat \<Rightarrow> u64) \<Rightarrow> sampler" where
  "init_sampler types depth data =
     \<lparr>fifo_in = 0, fifo_out = 0, fifo_depth = depth, num_pins = length types, last_sample = - 1, fifo_type = types,
      fifo_data = data, curr_depth = 0, full = False, enable = True, overruns = 0, sample_num = 0\<rparr>"

section \<open>The realtime function\<close>

text \<open>A pin stored in the member of the union for its type.\<close>

definition store_pin :: "nat \<Rightarrow> u64 \<Rightarrow> u64 \<Rightarrow> u64" where
  "store_pin t v old =
     (if t = HAL_FLOAT then v
      else if t = HAL_BIT then set_low 8 old (if get_low 8 v \<noteq> 0 then 1 else 0)
      else if t = HAL_U32 \<or> t = HAL_S32 then set_low 32 old v
      else old)"

fun store_pins :: "nat list \<Rightarrow> u64 list \<Rightarrow> nat \<Rightarrow> (nat \<Rightarrow> u64) \<Rightarrow> nat \<Rightarrow> u64" where
  "store_pins (t # ts) (v # vs) p d = store_pins ts vs (p + 1) (d(p := store_pin t v (d p)))"
| "store_pins _ _ p d = d"

definition sampler_sample :: "u64 list \<Rightarrow> sampler \<Rightarrow> sampler" where
  "sampler_sample pins s =
     (if \<not> enable s then s
      else
       (let tmpin = fifo_in s; newin = (if tmpin + 1 \<ge> fifo_depth s then 0 else tmpin + 1);
            tmpout = (if newin = fifo_out s
                      then if fifo_out s + 1 \<ge> fifo_depth s then 0 else fifo_out s + 1 else fifo_out s);
            s1 = (if newin = fifo_out s
                  then s\<lparr>fifo_out := tmpout, overruns := to_s32 (overruns s + 1), full := True\<rparr>
                  else s\<lparr>full := False\<rparr>);
            p = tmpin * (num_pins s + 1);
            d = store_pins (fifo_type s) pins p (fifo_data s);
            q = p + num_pins s
        in s1\<lparr>fifo_data := d(q := set_low 32 (d q) (of_int (sample_num s))),
             sample_num := to_s32 (sample_num s + 1), fifo_in := newin,
             curr_depth := int (if newin < tmpout then newin + fifo_depth s else newin) - int tmpout\<rparr>))"

section \<open>The process\<close>

text \<open>
  The loop of \<open>sampler_usr\<close>: it waits until the fifo is not empty, loads \<open>out\<close>,
  copies the words of the record one by one, checks that \<open>out\<close> has not moved,
  and stores the next \<open>out\<close>. A report is the overrun message, the number and the
  words of a sample.
\<close>

datatype usr_reader = Wait | Load | Copy nat "u64 list" | Store nat "u64 list"

type_synonym report = "bool \<times> u64 \<times> u64 list"

fun read_step :: "usr_reader \<Rightarrow> sampler \<Rightarrow> usr_reader \<times> sampler \<times> report list" where
  "read_step Wait s = (if fifo_in s = fifo_out s then Wait else Load, s, [])"
| "read_step Load s = (Copy (fifo_out s) [], s, [])"
| "read_step (Copy t ws) s =
     (if length ws < num_pins s + 1
      then (Copy t (ws @ [fifo_data s (t * (num_pins s + 1) + length ws)]), s, [])
      else if fifo_out s \<noteq> t then (Wait, s, []) else (Store t ws, s, []))"
| "read_step (Store t ws) s =
     (let this_sample = get_low 32 (ws ! num_pins s)
      in (Wait, s\<lparr>fifo_out := (if t + 1 \<ge> fifo_depth s then 0 else t + 1), last_sample := this_sample\<rparr>,
          [(this_sample \<noteq> last_sample s + 1, this_sample, take (num_pins s) ws)]))"

section \<open>Interleavings\<close>

text \<open>
  A run keeps, beside the fifo and the reader, the samples taken, the reports
  made, the number of the sample being copied and how many samples were taken
  since the copy began. The test of \<open>out\<close> after the copy cannot see a whole turn
  of the fifo, so \<open>turned\<close> remembers whether as many samples as the fifo has
  slots were ever taken during one copy.
\<close>

record run =
  fifo_of :: sampler
  reader_of :: usr_reader
  taken :: "u64 list list"
  reports :: "report list"
  copied :: nat
  since :: nat
  turned :: bool

text \<open>The number of the sample \<open>out\<close> points at, of \<open>n\<close> samples.\<close>

definition oldest :: "sampler \<Rightarrow> nat \<Rightarrow> nat" where
  "oldest s n = n - (n - fifo_out s) mod fifo_depth s"

definition may_sample :: "run \<Rightarrow> bool" where
  "may_sample r \<longleftrightarrow> (case reader_of r of Copy _ _ \<Rightarrow> since r + 1 < fifo_depth (fifo_of r) | _ \<Rightarrow> True)"

inductive sampler_step :: "run \<Rightarrow> run \<Rightarrow> bool" where
  sample: "enable (fifo_of r) \<Longrightarrow> length pins = num_pins (fifo_of r) \<Longrightarrow>
    sampler_step r (r\<lparr>fifo_of := sampler_sample pins (fifo_of r), taken := taken r @ [pins], since := since r + 1,
      turned := turned r \<or> \<not> may_sample r\<rparr>)"
| idle: "\<not> enable (fifo_of r) \<Longrightarrow> sampler_step r (r\<lparr>fifo_of := sampler_sample pins (fifo_of r)\<rparr>)"
| switch: "sampler_step r (r\<lparr>fifo_of := (fifo_of r)\<lparr>enable := e\<rparr>\<rparr>)"
| read: "read_step (reader_of r) (fifo_of r) = (rd, s, out) \<Longrightarrow>
    sampler_step r (r\<lparr>fifo_of := s, reader_of := rd, reports := reports r @ out,
      copied := (if reader_of r = Load then oldest (fifo_of r) (length (taken r)) else copied r),
      since := (if reader_of r = Load then 0 else since r)\<rparr>)"

section \<open>Records\<close>

definition valid_types :: "nat list \<Rightarrow> bool" where
  "valid_types ts \<longleftrightarrow> set ts \<subseteq> {HAL_FLOAT, HAL_BIT, HAL_U32, HAL_S32}"

text \<open>A word holds the value of a pin; a bit is 0 or 1.\<close>

definition word_ok :: "nat \<Rightarrow> u64 \<Rightarrow> u64 \<Rightarrow> bool" where
  "word_ok t w v \<longleftrightarrow> get_typed t w = (if t = HAL_BIT then of_bool (get_low 8 v \<noteq> 0) else get_typed t v)"

definition vals_ok :: "nat list \<Rightarrow> u64 list \<Rightarrow> u64 list \<Rightarrow> bool" where
  "vals_ok ts ws vs \<longleftrightarrow> length ws = length ts \<and> (\<forall>n < length ts. word_ok (ts ! n) (ws ! n) (vs ! n))"

definition rec_ok :: "nat list \<Rightarrow> u64 list \<Rightarrow> u64 list \<Rightarrow> nat \<Rightarrow> bool" where
  "rec_ok ts ws vs i \<longleftrightarrow> length ws = length ts + 1 \<and> vals_ok ts (take (length ts) ws) vs \<and> get_low 32 (ws ! length ts) = of_nat i"

definition slot_words :: "sampler \<Rightarrow> nat \<Rightarrow> u64 list" where
  "slot_words s j = map (\<lambda>n. fifo_data s (j * (num_pins s + 1) + n)) [0 ..< num_pins s + 1]"

lemma get_set_low: "get_low n (set_low n w v) = get_low n v"
  unfolding get_low_def set_low_def by (auto intro!: bit_word_eqI simp: bit_simps)

lemma store_word_ok: "t \<in> {HAL_FLOAT, HAL_BIT, HAL_U32, HAL_S32} \<Longrightarrow> word_ok t (store_pin t v old) v"
  by (auto simp: word_ok_def store_pin_def get_typed_def get_bit_value_def get_s32_value_def get_u32_value_def get_set_low)
    (simp_all add: get_low_take_bit)

lemma store_pins_frame: "q < p \<or> p + length ts \<le> q \<Longrightarrow> store_pins ts vs p d q = d q"
  by (induction ts vs p d rule: store_pins.induct) auto

lemma store_pins_nth:
  "length vs = length ts \<Longrightarrow> n < length ts \<Longrightarrow> store_pins ts vs p d (p + n) = store_pin (ts ! n) (vs ! n) (d (p + n))"
proof (induction ts vs p d arbitrary: n rule: store_pins.induct)
  case (1 t ts v vs p d)
  show ?case
  proof (cases n)
    case 0
    then show ?thesis by (simp add: store_pins_frame)
  next
    case (Suc m)
    have "store_pins ts vs (p + 1) (d(p := store_pin t v (d p))) (p + 1 + m) = store_pin (ts ! m) (vs ! m) ((d(p := store_pin t v (d p))) (p + 1 + m))"
      by (rule 1(1)) (use 1(2,3) Suc in simp_all)
    then show ?thesis using Suc by simp
  qed
qed auto

lemma slots_apart: "j \<noteq> k \<Longrightarrow> n < w \<Longrightarrow> j * w + n < k * w \<or> k * w + w \<le> j * (w :: nat) + n"
proof -
  assume "j \<noteq> k" "n < w"
  consider "Suc j \<le> k" | "Suc k \<le> j" using \<open>j \<noteq> k\<close> by linarith
  then show ?thesis
  proof cases
    case 1
    then have "Suc j * w \<le> k * w" by (rule mult_le_mono1)
    then show ?thesis using \<open>n < w\<close> by simp
  next
    case 2
    then have "Suc k * w \<le> j * w" by (rule mult_le_mono1)
    then show ?thesis by simp
  qed
qed

definition sampler_ok :: "sampler \<Rightarrow> u64 list list \<Rightarrow> bool" where
  "sampler_ok s H \<longleftrightarrow> 2 \<le> fifo_depth s \<and> length (fifo_type s) = num_pins s \<and> valid_types (fifo_type s) \<and>
     fifo_in s = length H mod fifo_depth s \<and> sample_num s = to_s32 (int (length H)) \<and>
     fifo_out s < fifo_depth s \<and> fifo_out s \<le> length H \<and> length H < 2 ^ 32 \<and>
     (\<forall>i < length H. length H \<le> i + fifo_depth s \<longrightarrow>
        rec_ok (fifo_type s) (slot_words s (i mod fifo_depth s)) (H ! i) i)"

lemma oldest_out:
  assumes "fifo_out s < fifo_depth s" "fifo_out s \<le> n"
  shows "oldest s n \<le> n" "n - oldest s n < fifo_depth s" "oldest s n mod fifo_depth s = fifo_out s"
proof -
  let ?D = "fifo_depth s" and ?k = "(n - fifo_out s) div fifo_depth s"
  have "(n - fifo_out s) mod ?D + ?D * ?k = n - fifo_out s" by simp
  then have o: "oldest s n = fifo_out s + ?D * ?k" using assms(2) unfolding oldest_def by linarith
  show "oldest s n \<le> n" by (simp add: oldest_def)
  have "(n - fifo_out s) mod ?D < ?D" using assms(1) by simp
  moreover have "(n - fifo_out s) mod ?D \<le> n" by (meson diff_le_self le_trans mod_less_eq_dividend)
  ultimately show "n - oldest s n < ?D" by (simp add: oldest_def)
  show "oldest s n mod ?D = fifo_out s" using assms(1) by (simp add: o)
qed

lemma oldest_eqI:
  assumes "fifo_out s = a mod fifo_depth s" "a \<le> n" "n - a < fifo_depth s"
  shows "oldest s n = a"
proof -
  let ?D = "fifo_depth s"
  have "a = fifo_out s + ?D * (a div ?D)" using assms(1) by simp
  then have "n - fifo_out s = n - a + ?D * (a div ?D)" using assms(2) by linarith
  then have "(n - fifo_out s) mod ?D = n - a" using assms(3) by simp
  then show ?thesis using assms(2) by (simp add: oldest_def)
qed

section \<open>Taking a sample\<close>

lemma sample_fields:
  assumes "enable s" "2 \<le> fifo_depth s" "fifo_in s < fifo_depth s" "fifo_out s < fifo_depth s" "s' = sampler_sample pins s"
  shows "fifo_depth s' = fifo_depth s" "num_pins s' = num_pins s" "fifo_type s' = fifo_type s" "last_sample s' = last_sample s"
    "fifo_in s' = Suc (fifo_in s) mod fifo_depth s"
    "fifo_out s' = (if fifo_in s' = fifo_out s then Suc (fifo_out s) mod fifo_depth s else fifo_out s)"
    "sample_num s' = to_s32 (sample_num s + 1)"
proof -
  have b: "(if i + 1 \<ge> fifo_depth s then 0 else i + 1) = Suc i mod fifo_depth s" if "i < fifo_depth s" for i
    using that by (cases "Suc i = fifo_depth s") auto
  show "fifo_depth s' = fifo_depth s" "num_pins s' = num_pins s" "fifo_type s' = fifo_type s" "last_sample s' = last_sample s"
    "fifo_in s' = Suc (fifo_in s) mod fifo_depth s"
    "fifo_out s' = (if fifo_in s' = fifo_out s then Suc (fifo_out s) mod fifo_depth s else fifo_out s)"
    "sample_num s' = to_s32 (sample_num s + 1)"
    unfolding assms(5) sampler_sample_def Let_def b [OF assms(3)] b [OF assms(4)] using assms(1) by simp_all
qed

lemma sample_data:
  assumes "enable s"
  shows "fifo_data (sampler_sample pins s) =
    (let p = fifo_in s * (num_pins s + 1); d = store_pins (fifo_type s) pins p (fifo_data s); q = p + num_pins s
     in d(q := set_low 32 (d q) (of_int (sample_num s))))"
  using assms by (simp add: sampler_sample_def Let_def)

lemma sample_other_slot:
  assumes "enable s" "length (fifo_type s) = num_pins s" "num_pins (sampler_sample pins s) = num_pins s" "j \<noteq> fifo_in s"
  shows "slot_words (sampler_sample pins s) j = slot_words s j"
proof -
  have "fifo_data (sampler_sample pins s) (j * (num_pins s + 1) + n) = fifo_data s (j * (num_pins s + 1) + n)"
    if "n < num_pins s + 1" for n
  proof -
    let ?w = "num_pins s + 1"
    have "j * ?w + n < fifo_in s * ?w \<or> fifo_in s * ?w + num_pins s < j * ?w + n"
      using slots_apart [OF assms(4), of n ?w] that by auto
    then have "j * ?w + n \<noteq> fifo_in s * ?w + num_pins s"
      "j * ?w + n < fifo_in s * ?w \<or> fifo_in s * ?w + length (fifo_type s) \<le> j * ?w + n"
      using assms(2) by linarith+
    then show ?thesis unfolding sample_data [OF assms(1)] Let_def by (simp only: store_pins_frame fun_upd_other simp_thms)
  qed
  then show ?thesis unfolding slot_words_def assms(3) by (intro map_cong) auto
qed

lemma sample_own_slot:
  assumes "enable s" "length (fifo_type s) = num_pins s" "num_pins (sampler_sample pins s) = num_pins s" "valid_types (fifo_type s)"
    and "length pins = num_pins s" "sample_num s = to_s32 (int n)" "n < 2 ^ 32"
  shows "rec_ok (fifo_type s) (slot_words (sampler_sample pins s) (fifo_in s)) pins n"
proof -
  let ?p = "fifo_in s * (num_pins s + 1)" and ?ws = "slot_words (sampler_sample pins s) (fifo_in s)"
  have w: "?ws ! k = fifo_data (sampler_sample pins s) (?p + k)" if "k < num_pins s + 1" for k
    using that by (simp add: slot_words_def assms(3) del: upt_Suc)
  have "word_ok (fifo_type s ! k) (?ws ! k) (pins ! k)" if "k < num_pins s" for k
  proof -
    have "?ws ! k = store_pin (fifo_type s ! k) (pins ! k) (fifo_data s (?p + k))"
      using that assms(2,5) w [of k] store_pins_nth [of pins "fifo_type s" k ?p "fifo_data s"]
      by (simp add: sample_data [OF assms(1)] Let_def)
    moreover have "fifo_type s ! k \<in> {HAL_FLOAT, HAL_BIT, HAL_U32, HAL_S32}"
      by (rule subsetD [OF assms(4) [unfolded valid_types_def]]) (use assms(2) that in simp)
    ultimately show ?thesis by (simp only: store_word_ok)
  qed
  moreover have "get_low 32 (?ws ! num_pins s) = of_nat n"
  proof -
    have "get_low 32 (?ws ! num_pins s) = get_low 32 (of_int (to_s32 (int n)))"
      using w [of "num_pins s"] assms(6) by (simp add: sample_data [OF assms(1)] Let_def get_set_low)
    also have "\<dots> = take_bit 32 (of_int (to_s32 (int n)))" by (rule get_low_take_bit)
    also have "\<dots> = of_int (take_bit 32 (int n))" by (simp only: take_bit_of_int take_bit_to_s32)
    also have "\<dots> = of_nat n" using assms(7) by (simp add: take_bit_int_eq_self)
    finally show ?thesis .
  qed
  moreover have "length ?ws = num_pins s + 1" by (simp add: slot_words_def assms(3) del: upt_Suc)
  ultimately show ?thesis using assms(2) by (simp add: rec_ok_def vals_ok_def)
qed

lemma to_s32_incr: "to_s32 (to_s32 x + 1) = to_s32 (x + 1)"
proof -
  have "(to_s32 x + 1 + 2147483648) mod 4294967296 = ((x + 2147483648) mod 4294967296 + 1) mod 4294967296"
    by (simp add: to_s32_def add.commute)
  also have "\<dots> = (x + 2147483648 + 1) mod 4294967296" by (rule mod_add_left_eq)
  finally show ?thesis by (simp add: to_s32_def algebra_simps)
qed

lemma sample_ok:
  assumes ok: "sampler_ok s H" and e: "enable s" "length pins = num_pins s" "length H < 2 ^ 32 - 1" "s' = sampler_sample pins s"
  shows "sampler_ok s' (H @ [pins])"
    and "oldest s' (Suc (length H)) = (if Suc (length H) - oldest s (length H) = fifo_depth s then Suc (oldest s (length H)) else oldest s (length H))"
    and "j \<noteq> length H mod fifo_depth s \<Longrightarrow> slot_words s' j = slot_words s j"
proof -
  let ?D = "fifo_depth s" and ?n = "length H" and ?a = "oldest s (length H)"
  have D: "2 \<le> ?D" and ty: "length (fifo_type s) = num_pins s" "valid_types (fifo_type s)"
    and i: "fifo_in s = ?n mod ?D" and sn: "sample_num s = to_s32 (int ?n)"
    and out: "fifo_out s < ?D" "fifo_out s \<le> ?n" and n32: "?n < 2 ^ 32"
    and slots: "\<And>i. i < ?n \<Longrightarrow> ?n \<le> i + ?D \<Longrightarrow> rec_ok (fifo_type s) (slot_words s (i mod ?D)) (H ! i) i"
    using ok by (auto simp: sampler_ok_def)
  have iD: "fifo_in s < ?D" using D i by simp
  note f = sample_fields [OF e(1) D iD out(1) e(4)]
  note a = oldest_out [OF out]
  have np: "num_pins (sampler_sample pins s) = num_pins s" using f(2) e(4) by simp
  show other: "slot_words s' j = slot_words s j" if "j \<noteq> ?n mod ?D" for j
    unfolding e(4) by (rule sample_other_slot [OF e(1) ty(1) np]) (use that i in simp)
  have own: "rec_ok (fifo_type s) (slot_words s' (?n mod ?D)) pins ?n"
    using sample_own_slot [OF e(1) ty(1) np ty(2) e(2) sn n32] i e(4) by simp
  have newin: "fifo_in s' = Suc ?n mod ?D" using f(5) i by (simp add: mod_Suc_eq)
  have full: "fifo_in s' = fifo_out s \<longleftrightarrow> Suc ?n - ?a = ?D"
  proof -
    have "Suc ?n mod ?D = ?a mod ?D \<longleftrightarrow> ?D dvd Suc ?n - ?a"
      using a(1) by (metis le_SucI mod_eq_dvd_iff_nat)
    also have "\<dots> \<longleftrightarrow> Suc ?n - ?a = ?D"
    proof
      assume "?D dvd Suc ?n - ?a"
      then have "?D \<le> Suc ?n - ?a" using a(1) by (intro dvd_imp_le) simp_all
      then show "Suc ?n - ?a = ?D" using a(2) by linarith
    qed simp
    finally show ?thesis using newin a(3) by simp
  qed
  let ?b = "if Suc ?n - ?a = ?D then Suc ?a else ?a"
  have outb: "fifo_out s' = ?b mod ?D" using f(6) full a(3) mod_Suc_eq [of ?a ?D] by auto
  have b: "?b \<le> Suc ?n" "Suc ?n - ?b < ?D" using a(1,2) D by auto
  show "oldest s' (Suc ?n) = ?b" by (rule oldest_eqI) (use outb b f(1) in simp_all)
  have "fifo_out s' < ?D" "fifo_out s' \<le> Suc ?n" using outb b(1) D by (simp, metis le_trans mod_less_eq_dividend)
  moreover have "rec_ok (fifo_type s) (slot_words s' (k mod ?D)) ((H @ [pins]) ! k) k" if "k < Suc ?n" "Suc ?n \<le> k + ?D" for k
  proof (cases "k = ?n")
    case True
    then show ?thesis using own by simp
  next
    case False
    have "k mod ?D \<noteq> ?n mod ?D"
    proof
      assume "k mod ?D = ?n mod ?D"
      then have "?D dvd ?n - k" using that False by (metis less_Suc_eq less_or_eq_imp_le mod_eq_dvd_iff_nat)
      then show False using that False by (auto dest: dvd_imp_le)
    qed
    then show ?thesis using other slots [of k] that False by (simp add: nth_append)
  qed
  moreover have "sample_num s' = to_s32 (int (Suc ?n))"
    using f(7) sn to_s32_incr [of "int ?n"] by (simp add: add.commute)
  ultimately show "sampler_ok s' (H @ [pins])"
    using D ty newin f(1-3) e(3) by (simp add: sampler_ok_def)
qed

section \<open>The reports\<close>

definition num :: "report \<Rightarrow> u64" where "num e = fst (snd e)"

fun flags_ok :: "u64 \<Rightarrow> report list \<Rightarrow> bool" where
  "flags_ok prev [] = True"
| "flags_ok prev (e # es) \<longleftrightarrow> (fst e \<longleftrightarrow> num e \<noteq> prev + 1) \<and> flags_ok (num e) es"

definition last_num :: "report list \<Rightarrow> u64" where
  "last_num es = (if es = [] then - 1 else num (last es))"

definition reports_ok :: "nat list \<Rightarrow> u64 list list \<Rightarrow> report list \<Rightarrow> bool" where
  "reports_ok ts H es \<longleftrightarrow> (\<forall>e\<in>set es. unat (num e) < length H \<and> vals_ok ts (snd (snd e)) (H ! unat (num e))) \<and>
     sorted_wrt (\<lambda>e f. unat (num e) < unat (num f)) es \<and> flags_ok (- 1) es"

lemma flags_ok_snoc:
  "flags_ok prev (es @ [e]) \<longleftrightarrow> flags_ok prev es \<and> (fst e \<longleftrightarrow> num e \<noteq> (if es = [] then prev else num (last es)) + 1)"
  by (induction es arbitrary: prev) auto

lemma reports_mono: "reports_ok ts H es \<Longrightarrow> reports_ok ts (H @ [x]) es"
  by (auto simp: reports_ok_def nth_append)

definition reports_below :: "report list \<Rightarrow> nat \<Rightarrow> bool" where
  "reports_below es k \<longleftrightarrow> (\<forall>e\<in>set es. unat (num e) < k)"

lemma reports_below_mono: "reports_below es k \<Longrightarrow> k \<le> l \<Longrightarrow> reports_below es l"
  by (auto simp: reports_below_def)

definition run_inv :: "run \<Rightarrow> bool" where
  "run_inv r \<longleftrightarrow>
     (let s = fifo_of r; H = taken r; a = oldest s (length H); x = copied r in
      sampler_ok s H \<and> reports_ok (fifo_type s) H (reports r) \<and> last_sample s = last_num (reports r) \<and>
      (case reader_of r of
         Wait \<Rightarrow> reports_below (reports r) a
       | Load \<Rightarrow> reports_below (reports r) a \<and> a < length H
       | Copy t ws \<Rightarrow>
           reports_below (reports r) x \<and> x < length H \<and> t = x mod fifo_depth s \<and> x \<le> a \<and> a \<le> x + since r \<and>
           since r < fifo_depth s \<and> length ws \<le> num_pins s + 1 \<and> (a = x \<longrightarrow> ws = take (length ws) (slot_words s t))
       | Store t ws \<Rightarrow>
           reports_below (reports r) x \<and> x < length H \<and> t = x mod fifo_depth s \<and> rec_ok (fifo_type s) ws (H ! x) x))"

lemma run_inv_sample:
  assumes inv: "run_inv r" and e: "enable (fifo_of r)" "length pins = num_pins (fifo_of r)" "may_sample r" "length (taken r) < 2 ^ 32 - 1"
  shows "run_inv (r\<lparr>fifo_of := sampler_sample pins (fifo_of r), taken := taken r @ [pins], since := since r + 1, turned := b\<rparr>)"
proof -
  define s H D where "s = fifo_of r" and "H = taken r" and "D = fifo_depth s"
  define s' where "s' = sampler_sample pins s"
  define a a' where "a = oldest s (length H)" and "a' = oldest s' (Suc (length H))"
  have ok: "sampler_ok s H" and rep: "reports_ok (fifo_type s) H (reports r)" and ls: "last_sample s = last_num (reports r)"
    using inv by (simp_all add: run_inv_def Let_def s_def H_def)
  note sok = sample_ok [OF ok e(1) [folded s_def] e(2) [folded s_def] e(4) [folded H_def] s'_def]
  have D: "2 \<le> D" "fifo_in s < D" "fifo_out s < D" "fifo_out s \<le> length H" using ok by (auto simp: sampler_ok_def D_def)
  note f = sample_fields [OF e(1) [folded s_def] D(1-3) [unfolded D_def] s'_def]
  have a: "a \<le> length H" "length H - a < D" using oldest_out [OF D(3,4) [unfolded D_def]] by (simp_all add: a_def D_def)
  have a': "a' = (if Suc (length H) - a = D then Suc a else a)" using sok(2) by (simp add: a'_def a_def D_def)
  show ?thesis
  proof (cases "reader_of r")
    case (Copy t ws)
    have c: "copied r < length H" "t = copied r mod D" "copied r \<le> a" "a \<le> copied r + since r" "length ws \<le> num_pins s + 1"
      "a = copied r \<longrightarrow> ws = take (length ws) (slot_words s t)" "reports_below (reports r) (copied r)" "since r + 1 < D"
      using inv e(3) Copy by (auto simp: run_inv_def Let_def s_def H_def a_def D_def may_sample_def)
    have "ws = take (length ws) (slot_words s' t)" if "a' = copied r"
    proof -
      have eq: "a = copied r" "Suc (length H) - a \<noteq> D" using that a' c(3) by (auto split: if_splits)
      have "t \<noteq> length H mod D"
      proof
        assume "t = length H mod D"
        then have "D dvd length H - copied r" using c(1,2) by (metis less_imp_le mod_eq_dvd_iff_nat)
        then show False using a(2) eq(1) c(1) by (auto dest: dvd_imp_le)
      qed
      then show ?thesis using sok(3) [of t] c(6) eq(1) by (simp add: D_def)
    qed
    then show ?thesis
      using Copy c sok(1) rep ls f a' reports_mono
      by (auto simp: run_inv_def Let_def s_def [symmetric] s'_def [symmetric] H_def [symmetric] a'_def [symmetric] D_def)
  next
    case (Store t ws)
    then show ?thesis
      using inv sok(1) rep ls f reports_mono
      by (auto simp: run_inv_def Let_def s_def [symmetric] s'_def [symmetric] H_def [symmetric] nth_append)
  next
    case Wait
    then have "reports_below (reports r) a" using inv by (simp add: run_inv_def Let_def s_def H_def a_def)
    then have "reports_below (reports r) a'" using a' by (auto intro: reports_below_mono)
    then show ?thesis
      using Wait sok(1) rep ls f reports_mono
      by (auto simp: run_inv_def Let_def s_def [symmetric] s'_def [symmetric] H_def [symmetric] a'_def [symmetric])
  next
    case Load
    then have "reports_below (reports r) a" "a < length H" using inv by (simp_all add: run_inv_def Let_def s_def H_def a_def)
    then have "reports_below (reports r) a'" "a' < Suc (length H)" using a' by (auto intro: reports_below_mono)
    then show ?thesis
      using Load sok(1) rep ls f reports_mono
      by (auto simp: run_inv_def Let_def s_def [symmetric] s'_def [symmetric] H_def [symmetric] a'_def [symmetric])
  qed
qed

lemma inv_load:
  assumes inv: "run_inv r" and rd: "reader_of r = Load"
  shows "run_inv (r\<lparr>reader_of := Copy (fifo_out (fifo_of r)) [], copied := oldest (fifo_of r) (length (taken r)), since := 0\<rparr>)"
proof -
  have "fifo_out (fifo_of r) < fifo_depth (fifo_of r)" "fifo_out (fifo_of r) \<le> length (taken r)" "2 \<le> fifo_depth (fifo_of r)"
    using inv by (auto simp: run_inv_def Let_def sampler_ok_def)
  then show ?thesis using inv rd oldest_out(3) by (simp add: run_inv_def Let_def)
qed

text \<open>When \<open>out\<close> has not moved, no sample was overwritten since the copy began.\<close>

lemma copy_intact:
  assumes inv: "run_inv r" and rd: "reader_of r = Copy t ws" and full: "length ws = num_pins (fifo_of r) + 1" and same: "fifo_out (fifo_of r) = t"
  shows "rec_ok (fifo_type (fifo_of r)) ws (taken r ! copied r) (copied r)"
proof -
  let ?s = "fifo_of r" and ?H = "taken r" and ?x = "copied r" and ?a = "oldest (fifo_of r) (length (taken r))"
  have c: "?x < length ?H" "t = ?x mod fifo_depth ?s" "?x \<le> ?a" "?a \<le> ?x + since r" "since r < fifo_depth ?s"
    "?a = ?x \<longrightarrow> ws = take (length ws) (slot_words ?s t)"
    using inv rd by (auto simp: run_inv_def Let_def)
  have ok: "sampler_ok ?s ?H" using inv by (simp add: run_inv_def Let_def)
  then have o: "fifo_out ?s < fifo_depth ?s" "fifo_out ?s \<le> length ?H" by (auto simp: sampler_ok_def)
  note a = oldest_out [OF o]
  have "fifo_depth ?s dvd ?a - ?x" using a(3) same c(2,3) by (metis mod_eq_dvd_iff_nat)
  moreover have "?a - ?x < fifo_depth ?s" using c(4,5) by linarith
  ultimately have "?a - ?x = 0" by (metis dvd_imp_le not_less neq0_conv)
  then have x: "?a = ?x" using c(3) by linarith
  have "ws = slot_words ?s t" using c(6) x full by (simp add: slot_words_def del: upt_Suc)
  moreover have "rec_ok (fifo_type ?s) (slot_words ?s (?x mod fifo_depth ?s)) (?H ! ?x) ?x"
    using ok c(1) a(2) x by (simp add: sampler_ok_def)
  ultimately show ?thesis using c(2) by simp
qed

lemma inv_copy:
  assumes inv: "run_inv r" and rd: "reader_of r = Copy t ws"
    and st: "read_step (Copy t ws) (fifo_of r) = (rd', s, out)"
  shows "run_inv (r\<lparr>fifo_of := s, reader_of := rd', reports := reports r @ out\<rparr>)"
proof (cases "length ws < num_pins (fifo_of r) + 1")
  case True
  then have "rd' = Copy t (ws @ [fifo_data (fifo_of r) (t * (num_pins (fifo_of r) + 1) + length ws)])" "s = fifo_of r" "out = []"
    using st by auto
  moreover have "ws = take (length ws) (slot_words (fifo_of r) t) \<Longrightarrow>
      ws @ [fifo_data (fifo_of r) (t * (num_pins (fifo_of r) + 1) + length ws)] = take (Suc (length ws)) (slot_words (fifo_of r) t)"
    using True by (simp add: take_Suc_conv_app_nth slot_words_def del: upt_Suc)
  ultimately show ?thesis using inv rd True by (auto simp: run_inv_def Let_def)
next
  case False
  have c: "copied r < length (taken r)" "t = copied r mod fifo_depth (fifo_of r)" "copied r \<le> oldest (fifo_of r) (length (taken r))"
    "length ws = num_pins (fifo_of r) + 1" "reports_below (reports r) (copied r)"
    using inv rd False by (auto simp: run_inv_def Let_def)
  show ?thesis
  proof (cases "fifo_out (fifo_of r) = t")
    case True
    then have "rd' = Store t ws" "s = fifo_of r" "out = []" using st False by auto
    then show ?thesis using inv c copy_intact [OF inv rd c(4) True] by (simp add: run_inv_def Let_def)
  next
    case moved: False
    then have "rd' = Wait" "s = fifo_of r" "out = []" using st False by auto
    then show ?thesis using inv reports_below_mono [OF c(5,3)] by (simp add: run_inv_def Let_def)
  qed
qed

lemma inv_store:
  assumes inv: "run_inv r" and rd: "reader_of r = Store t ws"
    and st: "read_step (Store t ws) (fifo_of r) = (rd', s, out)"
  shows "run_inv (r\<lparr>fifo_of := s, reader_of := rd', reports := reports r @ out\<rparr>)"
proof -
  let ?s = "fifo_of r" and ?H = "taken r" and ?x = "copied r" and ?n = "length (taken r)"
  let ?D = "fifo_depth ?s"
  have c: "reports_below (reports r) ?x" "?x < ?n" "t = ?x mod ?D" "rec_ok (fifo_type ?s) ws (?H ! ?x) ?x"
    and ok: "sampler_ok ?s ?H" and rep: "reports_ok (fifo_type ?s) ?H (reports r)" and ls: "last_sample ?s = last_num (reports r)"
    using inv rd by (auto simp: run_inv_def Let_def)
  have D: "2 \<le> ?D" "length (fifo_type ?s) = num_pins ?s" "?n < 2 ^ 32" using ok by (auto simp: sampler_ok_def)
  define k where "k = get_low 32 (ws ! num_pins ?s)"
  have k: "k = of_nat ?x" "unat k = ?x"
  proof -
    show "k = of_nat ?x" using c(4) D(2) by (simp add: k_def rec_ok_def)
    moreover have "?x < 2 ^ 64" using c(2) D(3) by simp
    ultimately show "unat k = ?x" by (simp add: unat_of_nat)
  qed
  let ?out = "(k \<noteq> last_sample ?s + 1, k, take (num_pins ?s) ws)"
  have s: "rd' = Wait" "s = ?s\<lparr>fifo_out := Suc ?x mod ?D, last_sample := k\<rparr>" "out = [?out]"
  proof -
    have "(if t + 1 \<ge> ?D then 0 else t + 1) = Suc ?x mod ?D"
    proof -
      have "t < ?D" using c(3) D(1) by simp
      then have "(if t + 1 \<ge> ?D then 0 else t + 1) = Suc t mod ?D" by (cases "Suc t = ?D") auto
      then show ?thesis using c(3) mod_Suc_eq [of ?x ?D] by simp
    qed
    then show "rd' = Wait" "s = ?s\<lparr>fifo_out := Suc ?x mod ?D, last_sample := k\<rparr>" "out = [?out]"
      using st by (simp_all add: Let_def k_def)
  qed
  have out: "fifo_out s < fifo_depth s" "fifo_out s \<le> ?n"
    using s(2) D(1) c(2) le_trans [OF mod_less_eq_dividend [of "Suc ?x" ?D]] by simp_all
  have ok': "sampler_ok s ?H" using ok out s(2) by (simp add: sampler_ok_def slot_words_def)
  have new: "Suc ?x \<le> oldest s ?n"
  proof -
    have e: "?D * (Suc ?x div ?D) + Suc ?x mod ?D = Suc ?x" by (rule mult_div_mod_eq)
    have o: "fifo_out s = Suc ?x mod ?D" using s(2) by simp
    have "?n - fifo_out s = ?n - Suc ?x + ?D * (Suc ?x div ?D)" unfolding o using c(2) e by linarith
    then have "(?n - fifo_out s) mod ?D = (?n - Suc ?x) mod ?D" by simp
    then have "(?n - fifo_out s) mod fifo_depth s \<le> ?n - Suc ?x" using s(2) by simp
    then show ?thesis using c(2) unfolding oldest_def by linarith
  qed
  have "vals_ok (fifo_type ?s) (take (num_pins ?s) ws) (?H ! ?x)" using c(4) D(2) by (simp add: rec_ok_def)
  then have "reports_ok (fifo_type ?s) ?H (reports r @ [?out])"
    using rep c(1,2) k(2) ls by (auto simp: reports_ok_def num_def sorted_wrt_append flags_ok_snoc reports_below_def last_num_def)
  moreover have "reports_below (reports r @ [?out]) (oldest s ?n)"
    using c(1) new k(2) by (auto simp: reports_below_def num_def)
  ultimately show ?thesis using s ok' by (simp add: run_inv_def Let_def last_num_def num_def)
qed

lemma read_inv:
  assumes "read_step (reader_of r) (fifo_of r) = (rd, s, out)" "run_inv r"
  shows "run_inv (r\<lparr>fifo_of := s, reader_of := rd, reports := reports r @ out,
      copied := (if reader_of r = Load then oldest (fifo_of r) (length (taken r)) else copied r),
      since := (if reader_of r = Load then 0 else since r)\<rparr>)"
proof -
  note read = assms
  show ?thesis
  proof (cases "reader_of r")
    case Wait
    have D: "2 \<le> fifo_depth (fifo_of r)" "fifo_in (fifo_of r) = length (taken r) mod fifo_depth (fifo_of r)"
      "fifo_out (fifo_of r) < fifo_depth (fifo_of r)" "fifo_out (fifo_of r) \<le> length (taken r)"
      using read(2) by (auto simp: run_inv_def Let_def sampler_ok_def)
    note o = oldest_out [OF D(3,4)]
    have "oldest (fifo_of r) (length (taken r)) < length (taken r)" if "fifo_in (fifo_of r) \<noteq> fifo_out (fifo_of r)"
      using that D(2) o(1,3) by (cases "oldest (fifo_of r) (length (taken r)) = length (taken r)") auto
    then show ?thesis using Wait read by (auto simp: run_inv_def Let_def)
  next
    case Load
    then show ?thesis using inv_load [OF read(2) Load] read(1) by (auto simp: run_inv_def Let_def)
  next
    case (Copy t ws)
    then show ?thesis using inv_copy [OF read(2) Copy] read(1) by simp
  next
    case (Store t ws)
    then show ?thesis using inv_store [OF read(2) Store] read(1) by simp
  qed
qed

lemma switch_inv: "run_inv r \<Longrightarrow> run_inv (r\<lparr>fifo_of := (fifo_of r)\<lparr>enable := e\<rparr>\<rparr>)"
  by (simp add: run_inv_def Let_def sampler_ok_def slot_words_def oldest_def split: usr_reader.splits)

text \<open>The invariant holds until a copy takes too long or the numbers of the
  samples wrap around.\<close>

definition regular :: "run \<Rightarrow> bool" where
  "regular r \<longleftrightarrow> \<not> turned r \<and> length (taken r) < 2 ^ 32"

lemma sampler_step_inv: "sampler_step r r' \<Longrightarrow> (regular r \<longrightarrow> run_inv r) \<Longrightarrow> (regular r' \<longrightarrow> run_inv r')"
proof (induction rule: sampler_step.induct)
  case (sample r pins)
  then show ?case using run_inv_sample [of r pins] by (auto simp: regular_def)
next
  case (idle r pins)
  then show ?case by (simp add: sampler_sample_def)
next
  case (switch r e)
  then show ?case using switch_inv [of r e] by (simp add: regular_def)
next
  case (read r rd s out)
  then show ?case using read_inv [of r rd s out] by (simp add: regular_def)
qed

interpretation sampler: transition_invariant sampler_step "\<lambda>r. regular r \<longrightarrow> run_inv r"
  by unfold_locales (rule sampler_step_inv)

definition start_run :: "nat list \<Rightarrow> nat \<Rightarrow> (nat \<Rightarrow> u64) \<Rightarrow> run" where
  "start_run types depth data =
     \<lparr>fifo_of = init_sampler types depth data, reader_of = Wait, taken = [], reports = [], copied = 0, since = 0,
      turned = False\<rparr>"

lemma start_inv: "2 \<le> depth \<Longrightarrow> valid_types types \<Longrightarrow> run_inv (start_run types depth data)"
  by (simp add: run_inv_def Let_def start_run_def sampler_ok_def init_sampler_def reports_ok_def last_num_def reports_below_def to_s32_def)

text \<open>The types that a configuration string gives are those the fifo can hold.\<close>

lemma parse_types_valid: "parse_types cfg = Some ts \<Longrightarrow> valid_types ts \<and> length ts \<le> MAX_PINS"
proof -
  have "parse_types_from n us cs = Some ts \<Longrightarrow> valid_types us \<Longrightarrow> length us = n \<Longrightarrow> n \<le> MAX_PINS \<Longrightarrow> valid_types ts \<and> length ts \<le> MAX_PINS"
    for n us cs
    by (induction n us cs rule: parse_types_from.induct) (auto simp: valid_types_def split: if_splits)
  from this [of 0 "[]" cfg] show "parse_types cfg = Some ts \<Longrightarrow> valid_types ts \<and> length ts \<le> MAX_PINS"
    by (simp add: parse_types_def valid_types_def)
qed


definition do_read :: "run \<Rightarrow> run" where
  "do_read r =
     (case read_step (reader_of r) (fifo_of r) of (rd, s, out) \<Rightarrow>
        r\<lparr>fifo_of := s, reader_of := rd, reports := reports r @ out,
          copied := (if reader_of r = Load then oldest (fifo_of r) (length (taken r)) else copied r),
          since := (if reader_of r = Load then 0 else since r)\<rparr>)"

lemma do_read_reach: "sampler_step\<^sup>*\<^sup>* r ((do_read ^^ n) r)"
proof (induction n)
  case (Suc n)
  obtain rd s out where "read_step (reader_of ((do_read ^^ n) r)) (fifo_of ((do_read ^^ n) r)) = (rd, s, out)"
    using prod_cases3 by blast
  then have "sampler_step ((do_read ^^ n) r) (do_read ((do_read ^^ n) r))"
    using sampler_step.read by (simp add: do_read_def)
  then show ?case using Suc by simp
qed simp

definition demo_run :: run where
  "demo_run = (let r = start_run [HAL_U32] 2 (\<lambda>_. 0)
     in r\<lparr>fifo_of := sampler_sample [7] (fifo_of r), taken := taken r @ [[7]], since := since r + 1, turned := False\<rparr>)"

lemma demo_run_reach: "sampler_step\<^sup>*\<^sup>* (start_run [HAL_U32] 2 (\<lambda>_. 0)) ((do_read ^^ 6) demo_run)"
proof -
  have "sampler_step (start_run [HAL_U32] 2 (\<lambda>_. 0)) demo_run"
    using sampler_step.sample [of "start_run [HAL_U32] 2 (\<lambda>_. 0)" "[7]"]
    by (simp add: demo_run_def start_run_def init_sampler_def may_sample_def)
  then show ?thesis using do_read_reach converse_rtranclp_into_rtranclp by metis
qed

lemma demo_run_report: "length (reports ((do_read ^^ 6) demo_run)) = 1" "\<not> turned ((do_read ^^ 6) demo_run)"
  "length (taken ((do_read ^^ 6) demo_run)) = 1"
  by (simp_all add: numeral_eq_Suc demo_run_def start_run_def init_sampler_def do_read_def sampler_sample_def Let_def)


section \<open>Samples lost between the test and the store\<close>

text \<open>
  The process tests \<open>out\<close> and stores it in two accesses. When the realtime function
  overwrites two samples between them, \<open>out\<close> is moved back to \<open>in\<close>, and the fifo
  that holds two samples not yet read looks empty.
\<close>

lemma late_store_empties:
  "let s = sampler_sample [2] (sampler_sample [1] (init_sampler [HAL_U32] 3 (\<lambda>_. 0)));
       s' = sampler_sample [4] (sampler_sample [3] s);
       (rd, s'', rs) = read_step (Store 0 [1, 0]) s'
   in fifo_in s \<noteq> fifo_out s \<and> fifo_out s = 0 \<and> curr_depth s' = 2 \<and> fifo_in s'' = fifo_out s''"
  by (simp add: init_sampler_def sampler_sample_def Let_def)

section \<open>Outside of these limits\<close>

text \<open>
  When the fifo turns round during a copy, a record is reported that was never
  taken: the value of one sample with the number of another. When the number of
  a sample wraps around at 32 bits, an overrun is reported without one.
\<close>

definition do_sample :: "u64 list \<Rightarrow> run \<Rightarrow> run" where
  "do_sample pins r = r\<lparr>fifo_of := sampler_sample pins (fifo_of r), taken := taken r @ [pins], since := since r + 1,
     turned := turned r \<or> \<not> may_sample r\<rparr>"

lemma turn_unnoticed:
  "let r = (do_read ^^ 3) (do_sample [3] (do_sample [2] ((do_read ^^ 3) (do_sample [1] (start_run [HAL_U32] 2 (\<lambda>_. 0))))))
   in turned r \<and> reports r = [(True, 2, [1])] \<and> taken r ! 2 = [3]"
  by code_simp

lemma number_wraps:
  "num_pins s = 1 \<Longrightarrow> last_sample s = 2 ^ 32 - 1 \<Longrightarrow> snd (snd (read_step (Store t [v, 0]) s)) = [(True, 0, [v])]"
  by (simp add: Let_def get_low_def)

end
