(* ===== verification/Streamer.thy ===== *)
theory Streamer
  imports Sampler
begin

text \<open>
  The streamer (\<open>modules/managed/components/streamer\<close> and the process
  \<open>streamer_usr\<close>): a process parses lines of text and puts their values into a fifo
  of the same layout as the sampler's, and a realtime function copies one
  record per call to its pins. Scanning floating-point numbers is an argument.
  The process writes into the record that is not published yet, so that a whole
  line is one step; a full fifo makes it wait and try again.
\<close>

record streamer = fifo_t +
  str_curr_depth :: int
  str_empty :: bool
  str_enable :: bool
  underruns :: int
  str_pins :: "u64 list"

definition init_streamer :: "nat list \<Rightarrow> nat \<Rightarrow> (nat \<Rightarrow> u64) \<Rightarrow> streamer" where
  "init_streamer types depth data =
     \<lparr>fifo_in = 0, fifo_out = 0, fifo_depth = depth, num_pins = length types, last_sample = 0, fifo_type = types,
      fifo_data = data, str_curr_depth = 0, str_empty = True, str_enable = True, underruns = 0,
      str_pins = replicate (length types) 0\<rparr>"

section \<open>The realtime function\<close>

fun load_pins :: "nat list \<Rightarrow> (nat \<Rightarrow> u64) \<Rightarrow> nat \<Rightarrow> u64 list \<Rightarrow> u64 list" where
  "load_pins (t # ts) d p (v # vs) = store_pin t (d p) v # load_pins ts d (p + 1) vs"
| "load_pins _ d p vs = vs"

definition stream_update :: "streamer \<Rightarrow> streamer" where
  "stream_update s =
     (if \<not> str_enable s then s
      else if fifo_out s = fifo_in s
      then s\<lparr>underruns := to_s32 (underruns s + 1), str_empty := True, str_curr_depth := 0\<rparr>
      else
       (let tmpout = fifo_out s; tmpin = (if fifo_in s < tmpout then fifo_in s + fifo_depth s else fifo_in s)
        in s\<lparr>str_empty := False, str_curr_depth := int tmpin - int tmpout,
             str_pins := load_pins (fifo_type s) (fifo_data s) (tmpout * num_pins s) (str_pins s),
             fifo_out := (if tmpout + 1 \<ge> fifo_depth s then 0 else tmpout + 1)\<rparr>))"

section \<open>The process\<close>

definition strtol10 :: "string \<Rightarrow> int \<times> string" where
  "strtol10 value =
     (case scan_digits (Some 10) value of (neg, m, cp) \<Rightarrow>
        (max (- (2 ^ 63)) (min (2 ^ 63 - 1) (if neg then - int m else int m)), cp))"

datatype stream_error = BitNot01 | PrematureEnd | BadChar

text \<open>The value of a field and what follows it.\<close>

definition scan_field :: "(string \<Rightarrow> u64 \<times> string) \<Rightarrow> nat \<Rightarrow> string \<Rightarrow> stream_error + (u64 \<times> string)" where
  "scan_field strtod t cp =
     (if t = HAL_FLOAT then Inr (strtod cp)
      else if t = HAL_BIT
      then if cp \<noteq> [] \<and> hd cp = CHR ''0'' then Inr (0, tl cp)
           else if cp \<noteq> [] \<and> hd cp = CHR ''1'' then Inr (1, tl cp) else Inl BitNot01
      else if t = HAL_U32 then (case strtoul10 cp of (v, cp2) \<Rightarrow> Inr (of_int v, cp2))
      else (case strtol10 cp of (v, cp2) \<Rightarrow> Inr (of_int v, cp2)))"

text \<open>The values stored, and the error that ends a line early; a field with a bad end is stored all the same.\<close>

fun parse_fields :: "(string \<Rightarrow> u64 \<times> string) \<Rightarrow> nat list \<Rightarrow> string \<Rightarrow> u64 list \<times> stream_error option" where
  "parse_fields strtod [] cp = ([], None)"
| "parse_fields strtod (t # ts) cp =
     (case scan_field strtod t (dropWhile isspace cp) of
        Inl e \<Rightarrow> ([], Some e)
      | Inr (v, cp2) \<Rightarrow>
          if cp2 = [] then ([v], Some PrematureEnd)
          else if \<not> isspace (hd cp2) then ([v], Some BadChar)
          else case parse_fields strtod ts cp2 of (vs, e) \<Rightarrow> (v # vs, e))"

definition put_line :: "(string \<Rightarrow> u64 \<times> string) \<Rightarrow> string \<Rightarrow> streamer \<Rightarrow> streamer \<times> int" where
  "put_line strtod line s =
     (let newin = (if fifo_in s + 1 \<ge> fifo_depth s then 0 else fifo_in s + 1) in
      if newin = fifo_out s then (s, EAGAIN)
      else case parse_fields strtod (fifo_type s) line of (vs, e) \<Rightarrow>
        (let s1 = s\<lparr>fifo_data := store_pins (fifo_type s) vs (fifo_in s * num_pins s) (fifo_data s)\<rparr>
         in if e = None then (s1\<lparr>fifo_in := newin\<rparr>, 0) else (s1, EINVAL)))"

section \<open>The fifo as a queue\<close>

definition str_words :: "streamer \<Rightarrow> nat \<Rightarrow> u64 list" where
  "str_words s j = map (\<lambda>n. fifo_data s (j * num_pins s + n)) [0 ..< num_pins s]"

definition stream_rep :: "streamer \<Rightarrow> u64 list list \<Rightarrow> bool" where
  "stream_rep s xs \<longleftrightarrow> 2 \<le> fifo_depth s \<and> length (fifo_type s) = num_pins s \<and> valid_types (fifo_type s) \<and>
     length (str_pins s) = num_pins s \<and> fifo_out s < fifo_depth s \<and> length xs < fifo_depth s \<and>
     fifo_in s = (fifo_out s + length xs) mod fifo_depth s \<and>
     (\<forall>k < length xs. vals_ok (fifo_type s) (str_words s ((fifo_out s + k) mod fifo_depth s)) (xs ! k))"

lemma parse_fields_length: "parse_fields strtod ts cp = (vs, None) \<Longrightarrow> length vs = length ts"
  by (induction strtod ts cp arbitrary: vs rule: parse_fields.induct) (auto split: sum.splits prod.splits if_splits)

lemma parse_fields_le: "parse_fields strtod ts cp = (vs, e) \<Longrightarrow> length vs \<le> length ts"
  by (induction strtod ts cp arbitrary: vs rule: parse_fields.induct) (auto split: sum.splits prod.splits if_splits)

lemma load_pins_nth:
  "length vs = length ts \<Longrightarrow> length (load_pins ts d p vs) = length vs \<and>
     (\<forall>n < length ts. load_pins ts d p vs ! n = store_pin (ts ! n) (d (p + n)) (vs ! n))"
proof (induction ts d p vs rule: load_pins.induct)
  case (1 t ts d p v vs)
  then show ?case by (auto simp: nth_Cons')
qed auto

lemma word_ok_trans:
  assumes "t \<in> {HAL_FLOAT, HAL_BIT, HAL_U32, HAL_S32}" "word_ok t w v"
  shows "word_ok t (store_pin t w old) v"
  using store_word_ok [OF assms(1), of w old] assms(2)
  by (auto simp: word_ok_def get_typed_def get_bit_value_def split: if_splits)

lemma bump_mod: "i < D \<Longrightarrow> (if i + 1 \<ge> D then 0 else i + 1) = Suc i mod (D :: nat)"
  by (cases "Suc i = D") auto

lemma turn_distinct: "k < n \<Longrightarrow> n < D \<Longrightarrow> (a + k) mod D \<noteq> (a + n) mod (D :: nat)"
proof
  assume k: "k < n" "n < D" and "(a + k) mod D = (a + n) mod D"
  then have "D dvd (a + n) - (a + k)" by (metis add_le_cancel_left less_imp_le mod_eq_dvd_iff_nat)
  then show False using k by (auto dest: dvd_imp_le)
qed

lemma store_other_words:
  assumes "length (fifo_type s) = num_pins s" "j \<noteq> i"
  shows "str_words (s\<lparr>fifo_data := store_pins (fifo_type s) vs (i * num_pins s) (fifo_data s)\<rparr>) j = str_words s j"
proof -
  have "store_pins (fifo_type s) vs (i * num_pins s) (fifo_data s) (j * num_pins s + n) = fifo_data s (j * num_pins s + n)"
    if "n < num_pins s" for n
    using slots_apart [OF assms(2) that] assms(1) by (intro store_pins_frame) simp
  then show ?thesis by (simp add: str_words_def)
qed

lemma store_own_words:
  assumes "length (fifo_type s) = num_pins s" "valid_types (fifo_type s)" "length vs = num_pins s"
  shows "vals_ok (fifo_type s) (str_words (s\<lparr>fifo_data := store_pins (fifo_type s) vs (i * num_pins s) (fifo_data s)\<rparr>) i) vs"
proof -
  have "word_ok (fifo_type s ! n) (store_pins (fifo_type s) vs (i * num_pins s) (fifo_data s) (i * num_pins s + n)) (vs ! n)"
    if "n < num_pins s" for n
  proof -
    have "fifo_type s ! n \<in> {HAL_FLOAT, HAL_BIT, HAL_U32, HAL_S32}"
      by (rule subsetD [OF assms(2) [unfolded valid_types_def]]) (use assms(1) that in simp)
    then show ?thesis using store_pins_nth [of vs "fifo_type s" n] assms(1,3) that by (simp only: store_word_ok)
  qed
  then show ?thesis using assms(1) by (simp add: vals_ok_def str_words_def)
qed

text \<open>A line is refused when the fifo is full, skipped when it cannot be parsed, and appended otherwise.\<close>

lemma put_line_rep:
  assumes rep: "stream_rep s xs" and put: "put_line strtod line s = (s', rc)" and p: "parse_fields strtod (fifo_type s) line = (vs, e)"
  shows "fifo_type s' = fifo_type s" "str_enable s' = str_enable s" "underruns s' = underruns s"
    and "if length xs + 1 = fifo_depth s then rc = EAGAIN \<and> s' = s
      else if e = None then rc = 0 \<and> stream_rep s' (xs @ [vs]) else rc = EINVAL \<and> stream_rep s' xs"
proof -
  let ?D = "fifo_depth s" and ?i = "fifo_in s" and ?n = "length xs"
  have D: "2 \<le> ?D" and ty: "length (fifo_type s) = num_pins s" "valid_types (fifo_type s)" and lp: "length (str_pins s) = num_pins s"
    and o: "fifo_out s < ?D" and n: "?n < ?D" and i: "?i = (fifo_out s + ?n) mod ?D"
    and slots: "\<And>k. k < ?n \<Longrightarrow> vals_ok (fifo_type s) (str_words s ((fifo_out s + k) mod ?D)) (xs ! k)"
    using rep by (auto simp: stream_rep_def)
  have iD: "?i < ?D" using D i by simp
  have newin: "(if ?i + 1 \<ge> ?D then 0 else ?i + 1) = (fifo_out s + Suc ?n) mod ?D"
    using bump_mod [OF iD] i by (simp add: mod_Suc_eq)
  have full: "(fifo_out s + Suc ?n) mod ?D = fifo_out s \<longleftrightarrow> ?n + 1 = ?D"
  proof
    assume "(fifo_out s + Suc ?n) mod ?D = fifo_out s"
    then show "?n + 1 = ?D" using turn_distinct [of 0 "Suc ?n" ?D "fifo_out s"] n o by (cases "Suc ?n < ?D") auto
  next
    assume e: "?n + 1 = ?D"
    then have "fifo_out s + Suc ?n = fifo_out s + ?D" by simp
    then show "(fifo_out s + Suc ?n) mod ?D = fifo_out s" using o by simp
  qed
  define s1 where "s1 = s\<lparr>fifo_data := store_pins (fifo_type s) vs (?i * num_pins s) (fifo_data s)\<rparr>"
  have res: "put_line strtod line s =
      (if ?n + 1 = ?D then (s, EAGAIN) else if e = None then (s1\<lparr>fifo_in := (fifo_out s + Suc ?n) mod ?D\<rparr>, 0) else (s1, EINVAL))"
    unfolding put_line_def Let_def newin p full by (simp add: s1_def)
  have s1: "fifo_type s1 = fifo_type s" "num_pins s1 = num_pins s" "fifo_depth s1 = ?D" "fifo_out s1 = fifo_out s" "fifo_in s1 = ?i"
    "str_pins s1 = str_pins s" "str_enable s1 = str_enable s" "underruns s1 = underruns s" by (simp_all add: s1_def)
  show "fifo_type s' = fifo_type s" "str_enable s' = str_enable s" "underruns s' = underruns s"
    using put res s1 by (auto split: if_splits)
  have old: "vals_ok (fifo_type s) (str_words s1 ((fifo_out s + k) mod ?D)) (xs ! k)" if "k < ?n" for k
    using slots [OF that] store_other_words [OF ty(1), of "(fifo_out s + k) mod ?D" ?i vs] turn_distinct [OF that n] i
    by (simp add: s1_def)
  have rep1: "stream_rep s1 xs" using D ty lp o n i old s1 by (simp add: stream_rep_def)
  have "stream_rep (s1\<lparr>fifo_in := (fifo_out s + Suc ?n) mod ?D\<rparr>) (xs @ [vs])" if "e = None" "?n + 1 \<noteq> ?D"
  proof -
    have "length vs = num_pins s" using parse_fields_length p that(1) ty(1) by simp
    then have own: "vals_ok (fifo_type s) (str_words s1 ?i) vs" using store_own_words [OF ty] by (simp add: s1_def)
    have w: "str_words (s1\<lparr>fifo_in := j\<rparr>) k = str_words s1 k" for j k by (simp add: str_words_def)
    have "vals_ok (fifo_type s) (str_words s1 ((fifo_out s + k) mod ?D)) ((xs @ [vs]) ! k)" if "k < Suc ?n" for k
      using old [of k] own i that by (cases "k = ?n") (auto simp: nth_append)
    then show ?thesis using D ty lp o n s1 that(2) by (simp add: stream_rep_def w)
  qed
  then show "if ?n + 1 = ?D then rc = EAGAIN \<and> s' = s else if e = None then rc = 0 \<and> stream_rep s' (xs @ [vs]) else rc = EINVAL \<and> stream_rep s' xs"
    using put res rep1 by auto
qed

lemma update_rep_Nil:
  assumes "stream_rep s []"
  shows "stream_update s = (if str_enable s then s\<lparr>underruns := to_s32 (underruns s + 1), str_empty := True, str_curr_depth := 0\<rparr> else s)"
  using assms by (simp add: stream_rep_def stream_update_def)

lemma update_rep_Cons:
  assumes rep: "stream_rep s (x # xs)" and e: "str_enable s" and s': "s' = stream_update s"
  shows "stream_rep s' xs" "vals_ok (fifo_type s) (str_pins s') x" "str_curr_depth s' = int (length (x # xs))" "\<not> str_empty s'"
    "fifo_type s' = fifo_type s" "str_enable s'" "underruns s' = underruns s"
proof -
  let ?D = "fifo_depth s" and ?n = "length (x # xs)" and ?o = "fifo_out s"
  have D: "2 \<le> ?D" and ty: "length (fifo_type s) = num_pins s" "valid_types (fifo_type s)" and lp: "length (str_pins s) = num_pins s"
    and o: "?o < ?D" and n: "?n < ?D" and i: "fifo_in s = (?o + ?n) mod ?D"
    and slots: "\<And>k. k < ?n \<Longrightarrow> vals_ok (fifo_type s) (str_words s ((?o + k) mod ?D)) ((x # xs) ! k)"
    using rep by (auto simp: stream_rep_def)
  have ne: "?o \<noteq> fifo_in s" using turn_distinct [of 0 ?n ?D ?o] n o i by auto
  let ?pins = "load_pins (fifo_type s) (fifo_data s) (?o * num_pins s) (str_pins s)"
  have eq: "s' = s\<lparr>str_empty := False, str_curr_depth := int (if fifo_in s < ?o then fifo_in s + ?D else fifo_in s) - int ?o,
      str_pins := ?pins, fifo_out := Suc ?o mod ?D\<rparr>"
    unfolding s' stream_update_def Let_def bump_mod [OF o] using e ne by simp
  have x: "vals_ok (fifo_type s) (str_words s ?o) x" using slots [of 0] o by simp
  have lpins: "length ?pins = num_pins s" using load_pins_nth [of "str_pins s" "fifo_type s"] ty(1) lp by simp
  show "vals_ok (fifo_type s) (str_pins s') x"
  proof -
    have "word_ok (fifo_type s ! n) (?pins ! n) (x ! n)" if "n < num_pins s" for n
    proof -
      have "word_ok (fifo_type s ! n) (fifo_data s (?o * num_pins s + n)) (x ! n)"
        using x that ty(1) by (simp add: vals_ok_def str_words_def)
      moreover have "fifo_type s ! n \<in> {HAL_FLOAT, HAL_BIT, HAL_U32, HAL_S32}"
        by (rule subsetD [OF ty(2) [unfolded valid_types_def]]) (use ty(1) that in simp)
      ultimately show ?thesis using load_pins_nth [of "str_pins s" "fifo_type s"] ty(1) lp that by (simp only: word_ok_trans)
    qed
    then show ?thesis using ty(1) lpins by (simp add: vals_ok_def eq)
  qed
  have w: "str_words s' k = str_words s k" for k by (simp add: str_words_def eq)
  have "vals_ok (fifo_type s) (str_words s ((Suc ?o mod ?D + k) mod ?D)) (xs ! k)" if "k < length xs" for k
    using slots [of "Suc k"] that by (simp add: mod_add_left_eq)
  moreover have "fifo_in s = (Suc ?o mod ?D + length xs) mod ?D" using i by (simp add: mod_add_left_eq)
  ultimately show "stream_rep s' xs" using D ty lpins n by (simp add: stream_rep_def w) (simp add: eq)
  show "str_curr_depth s' = int ?n"
  proof (cases "?o + ?n < ?D")
    case True
    then show ?thesis using i by (simp add: eq)
  next
    case False
    then have "fifo_in s = ?o + ?n - ?D" using i o n by (simp add: mod_if)
    then show ?thesis using False n o by (simp add: eq)
  qed
  show "\<not> str_empty s'" "fifo_type s' = fifo_type s" "str_enable s'" "underruns s' = underruns s" using e by (simp_all add: eq)
qed

section \<open>Lines become pin values\<close>

datatype stream_op = Line string | Update

text \<open>The state after the operations, the values of the lines accepted, and the pins after each update that found a record.\<close>

fun stream_run :: "(string \<Rightarrow> u64 \<times> string) \<Rightarrow> stream_op list \<Rightarrow> streamer \<Rightarrow> streamer \<times> u64 list list \<times> u64 list list" where
  "stream_run strtod [] s = (s, [], [])"
| "stream_run strtod (Line l # ops) s =
     (case put_line strtod l s of (s1, rc) \<Rightarrow>
      case stream_run strtod ops s1 of (s2, acc, shown) \<Rightarrow>
        (s2, if rc = 0 then fst (parse_fields strtod (fifo_type s) l) # acc else acc, shown))"
| "stream_run strtod (Update # ops) s =
     (case stream_run strtod ops (stream_update s) of (s2, acc, shown) \<Rightarrow>
        (s2, acc, if fifo_out s \<noteq> fifo_in s then str_pins (stream_update s) # shown else shown))"

lemma stream_empty_iff: "stream_rep s xs \<Longrightarrow> fifo_out s = fifo_in s \<longleftrightarrow> xs = []"
  using turn_distinct [of 0 "length xs" "fifo_depth s" "fifo_out s"] by (auto simp: stream_rep_def)

lemma stream_run_rep:
  assumes "stream_rep s xs" "str_enable s" "stream_run strtod ops s = (s', acc, shown)"
  shows "\<exists>zs ys. xs @ acc = zs @ ys \<and> list_all2 (vals_ok (fifo_type s)) shown zs \<and> stream_rep s' ys"
  using assms
proof (induction strtod ops s arbitrary: xs acc shown rule: stream_run.induct)
  case (1 strtod s)
  then show ?case by simp
next
  case (2 strtod l ops s)
  obtain s1 rc where w: "put_line strtod l s = (s1, rc)" by fastforce
  obtain vs e where p: "parse_fields strtod (fifo_type s) l = (vs, e)" by fastforce
  obtain acc1 where r: "stream_run strtod ops s1 = (s', acc1, shown)" and acc: "acc = (if rc = 0 then vs # acc1 else acc1)"
    using 2(4) w p by (auto split: prod.splits)
  note f = put_line_rep [OF 2(2) w p]
  have e1: "str_enable s1" using f(2) 2(3) by simp
  show ?case
  proof (cases "rc = 0")
    case True
    then have "stream_rep s1 (xs @ [vs])" using f(4) by (auto split: if_splits)
    from 2(1) [OF w [symmetric] this e1 r] show ?thesis using True acc f(1) by auto
  next
    case False
    then have "stream_rep s1 xs" using f(4) 2(2) by (auto split: if_splits)
    from 2(1) [OF w [symmetric] this e1 r] show ?thesis using False acc f(1) by auto
  qed
next
  case (3 strtod ops s)
  obtain shown1 where r: "stream_run strtod ops (stream_update s) = (s', acc, shown1)"
    and sh: "shown = (if fifo_out s \<noteq> fifo_in s then str_pins (stream_update s) # shown1 else shown1)"
    using 3(4) by (auto split: prod.splits)
  show ?case
  proof (cases xs)
    case Nil
    have u: "stream_update s = s\<lparr>underruns := to_s32 (underruns s + 1), str_empty := True, str_curr_depth := 0\<rparr>"
      using update_rep_Nil 3(2,3) Nil by simp
    have "stream_rep (stream_update s) []" using 3(2) Nil by (simp add: u stream_rep_def)
    moreover have "str_enable (stream_update s)" "fifo_type (stream_update s) = fifo_type s" using 3(3) by (simp_all add: u)
    ultimately show ?thesis using 3(1) [OF _ _ r, of "[]"] sh Nil stream_empty_iff [OF 3(2)] by simp
  next
    case (Cons y ys)
    note u = update_rep_Cons [OF 3(2) [unfolded Cons] 3(3) refl]
    obtain zs us where z: "ys @ acc = zs @ us" "list_all2 (vals_ok (fifo_type s)) shown1 zs" "stream_rep s' us"
      using 3(1) [OF u(1,6) r] u(5) by auto
    have "shown = str_pins (stream_update s) # shown1" using sh stream_empty_iff [OF 3(2)] Cons by simp
    then have "list_all2 (vals_ok (fifo_type s)) shown (y # zs)" using u(2) z(2) by simp
    then show ?thesis using z(1,3) Cons by (metis append_Cons)
  qed
qed

lemma init_stream_rep: "2 \<le> depth \<Longrightarrow> valid_types types \<Longrightarrow> stream_rep (init_streamer types depth data) []"
  by (simp add: stream_rep_def init_streamer_def)

text \<open>C40: lines become pin values in order. However the lines of the process and the calls of the realtime
  function are mixed, the pins show the values of the lines that were accepted, each once and in
  order, converted to the types of the pins, and the lines not yet shown are in the fifo. Lines
  that cannot be parsed are skipped, and a line that arrives at a full fifo is not accepted.\<close>

theorem streamer_shows_lines:
  assumes "stream_run strtod ops (init_streamer types depth data) = (s, acc, shown)" "2 \<le> depth" "parse_types cfg = Some types"
  shows "\<exists>rest. acc = take (length shown) acc @ rest \<and> list_all2 (vals_ok types) shown (take (length shown) acc) \<and> stream_rep s rest"
proof -
  have "stream_rep (init_streamer types depth data) []" "str_enable (init_streamer types depth data)"
    using init_stream_rep assms(2) parse_types_valid [OF assms(3)] by (simp_all add: init_streamer_def)
  from stream_run_rep [OF this assms(1)] obtain zs ys
    where z: "acc = zs @ ys" "list_all2 (vals_ok types) shown zs" "stream_rep s ys" by (auto simp: init_streamer_def)
  then have "length shown = length zs" by (simp add: list_all2_lengthD)
  then show ?thesis using z by auto
qed

theorem streamer_shows_lines_witness:
  "\<exists>s acc shown rest. stream_run (\<lambda>c. (0, c)) [Line (''7'' @ [CHR 0x0A]), Update] (init_streamer [HAL_U32] 2 (\<lambda>_. 0)) = (s, acc, shown) \<and>
     acc = take (length shown) acc @ rest \<and> list_all2 (vals_ok [HAL_U32]) shown (take (length shown) acc) \<and> stream_rep s rest"
proof -
  have "parse_types ''u'' = Some [HAL_U32]" by (simp add: parse_types_def MAX_PINS_def)
  then show ?thesis using streamer_shows_lines [of "\<lambda>c. (0, c)"] by (metis order_refl prod_cases3)
qed

end
