(* ===== verification/Delayline.thy ===== *)
theory Delayline
  imports Ring_Correct Hal_Link
begin

text \<open>
  The delay line (\<open>modules/managed/components/delayline\<close>), a component built on a
  record ring: one function writes the input pins with a time stamp into the
  ring, another takes out the records that are due and copies them to the
  output pins. Pins, parameters and the scratchpad of the ring are one record;
  a sample is a record of the ring, eight bytes of time stamp and eight per
  value, of which a store changes only the bytes of its type. The reading loop
  has a bound on its rounds.
\<close>

section \<open>State\<close>

record delayline =
  dl_ring :: ringheader
  dl_enable :: bool
  dl_abort :: bool
  pins_in :: "u64 list"
  pins_out :: "u64 list"
  pin_delay :: u32
  write_fail :: u32
  too_old :: u32
  pintype :: "nat list"
  output_ts :: u64
  input_ts :: u64
  max_delay :: u32
  dl_delay :: u32
  sample_size :: u32
  last_abort :: bool

definition word_at :: "bytes \<Rightarrow> nat \<Rightarrow> u64" where "word_at b p = of_nat (get_le b p 8)"

definition put_word :: "bytes \<Rightarrow> nat \<Rightarrow> u64 \<Rightarrow> bytes" where "put_word b p w = put_le b p 8 (unat w)"

section \<open>Writing a sample\<close>

text \<open>The type switch that copies one value, and the values of all pins.\<close>

definition copy_value :: "nat \<Rightarrow> u64 \<Rightarrow> u64 \<Rightarrow> u64" where
  "copy_value t old v = (if hal_valid_type t then set_typed t old (get_typed t v) else old)"

fun store_values :: "nat list \<Rightarrow> u64 list \<Rightarrow> nat \<Rightarrow> bytes \<Rightarrow> bytes" where
  "store_values (t # ts) (v # vs) p b = store_values ts vs (p + 8) (put_word b p (copy_value t (word_at b p) v))"
| "store_values _ _ p b = b"

fun pass_values :: "nat list \<Rightarrow> u64 list \<Rightarrow> u64 list \<Rightarrow> u64 list" where
  "pass_values (t # ts) (v # vs) (w # ws) = copy_value t w v # pass_values ts vs ws"
| "pass_values _ _ ws = ws"

definition longer_delay :: "delayline \<Rightarrow> delayline" where
  "longer_delay s =
     (if pin_delay s > ucast (input_ts s - output_ts s)
      then let d = (if pin_delay s > max_delay s then max_delay s else pin_delay s)
           in s\<lparr>dl_delay := d, input_ts := output_ts s + ucast d\<rparr>
      else s)"

definition write_sample_to_ring :: "delayline \<Rightarrow> delayline" where
  "write_sample_to_ring s0 =
     (let s = longer_delay s0;
          s' = (if \<not> dl_enable s then s\<lparr>pins_out := pass_values (pintype s) (pins_in s) (pins_out s)\<rparr>
                else case record_write_begin (sample_size s) (dl_ring s) of (rc, p) \<Rightarrow>
                  if rc \<noteq> 0 then s\<lparr>write_fail := write_fail s + 1\<rparr>
                  else let r = dl_ring s;
                           b = store_values (pintype s) (pins_in s) (p + 8) (put_word (buf r) p (input_ts s))
                       in s\<lparr>dl_ring := record_write_end p (sample_size s) (r\<lparr>buf := b\<rparr>)\<rparr>)
      in s'\<lparr>input_ts := input_ts s' + 1\<rparr>)"

section \<open>Reading samples\<close>

fun load_values :: "nat list \<Rightarrow> bytes \<Rightarrow> nat \<Rightarrow> u64 list \<Rightarrow> u64 list" where
  "load_values (t # ts) b p (w # ws) = copy_value t w (word_at b p) # load_values ts b (p + 8) ws"
| "load_values _ b p ws = ws"

definition dl_apply :: "nat \<Rightarrow> delayline \<Rightarrow> delayline" where
  "dl_apply p s = s\<lparr>pins_out := load_values (pintype s) (buf (dl_ring s)) (p + 8) (pins_out s)\<rparr>"

text \<open>The code changes the input time stamp where its comment speaks of the output time stamp; \<open>pin_delay\<close> is never negative.\<close>

definition shorter_delay :: "delayline \<Rightarrow> delayline" where
  "shorter_delay s =
     (if pin_delay s < ucast (input_ts s - output_ts s)
      then s\<lparr>dl_delay := pin_delay s, input_ts := input_ts s - ucast (pin_delay s)\<rparr>
      else s)"

fun read_loop :: "nat \<Rightarrow> delayline \<Rightarrow> delayline option" where
  "read_loop 0 s = None"
| "read_loop (Suc k) s =
     (case record_read (dl_ring s) of
        None \<Rightarrow> Some s
      | Some (p, n) \<Rightarrow>
          (let ts = word_at (buf (dl_ring s)) p in
           if ts > output_ts s then Some s
           else let s1 = (if ts = output_ts s then dl_apply p s else s\<lparr>too_old := too_old s + 1\<rparr>)
                in read_loop k (s1\<lparr>dl_ring := fst (record_shift (dl_ring s1))\<rparr>)))"

definition read_sample_from_ring :: "nat \<Rightarrow> delayline \<Rightarrow> delayline option" where
  "read_sample_from_ring fuel s0 =
     (case (if dl_abort s0 \<and> \<not> last_abort s0
            then map_option (\<lambda>(r, n). s0\<lparr>dl_ring := r\<rparr>) (flush_loop fuel (dl_ring s0) 0) else Some s0) of
        None \<Rightarrow> None
      | Some s1 \<Rightarrow>
          (case read_loop fuel (shorter_delay s1) of
             None \<Rightarrow> None
           | Some s2 \<Rightarrow> Some (s2\<lparr>output_ts := output_ts s2 + 1, last_abort := dl_abort s2\<rparr>)))"

section \<open>Configuration\<close>

text \<open>\<open>return_instance_samples\<close>: the number of pins, or -1 for a bad character.\<close>

fun return_instance_samples :: "string \<Rightarrow> int \<Rightarrow> int" where
  "return_instance_samples [] n = n"
| "return_instance_samples (c # cs) n =
     (if c \<in> set ''bBfFsSuU'' then return_instance_samples cs (n + 1) else - 1)"

definition pintype_of :: "char \<Rightarrow> nat option" where
  "pintype_of c =
     (if c = CHR ''b'' \<or> c = CHR ''B'' then Some HAL_BIT
      else if c = CHR ''f'' \<or> c = CHR ''F'' then Some HAL_FLOAT
      else if c = CHR ''s'' then Some HAL_S32 else if c = CHR ''u'' then Some HAL_U32
      else if c = CHR ''S'' then Some HAL_S64 else if c = CHR ''U'' then Some HAL_U64 else None)"

text \<open>
  The check of the \<open>samples\<close> strings in \<open>rtapi_app_main\<close>. The loop runs on while a
  name is left, and reads a null pointer, \<open>None\<close>, when there are fewer strings
  than names.
\<close>

fun check_samples :: "nat \<Rightarrow> nat \<Rightarrow> string list \<Rightarrow> int option" where
  "check_samples cnt n [] = (if n < cnt then None else Some (if n \<noteq> cnt then - 1 else 0))"
| "check_samples cnt n (s # ss) =
     (if return_instance_samples s 0 \<le> 0 then Some (- 1) else check_samples cnt (n + 1) ss)"

definition samples_ok :: "nat \<Rightarrow> string list \<Rightarrow> int option" where
  "samples_ok cnt samples = (if samples = [] then Some (- 1) else check_samples cnt 0 samples)"

definition MAX_SAMPLES :: nat where "MAX_SAMPLES = 9"

text \<open>
  The size asked of the ring. \<open>RB_HEADROOM\<close> is 1.2, and the product in double
  precision, cut to an integer, is that of the rationals for all sizes below
  \<open>2 ^ 50\<close>.
\<close>

definition delayline_rbsize :: "int \<Rightarrow> u32 \<Rightarrow> nat" where
  "delayline_rbsize nr_of_samples m = unat (record_space (of_int (8 + 8 * nr_of_samples))) * unat m * 6 div 5"

text \<open>
  \<open>export_delayline\<close>, when the calls of HAL succeed: \<open>r\<close> is the memory the ring
  is made in and \<open>sp\<close> the size of the instance data. The arrays of the instance have
  nine elements and the code does not compare: a longer string writes behind
  them, \<open>None\<close>.
\<close>

definition export_delayline :: "string \<Rightarrow> u32 \<Rightarrow> u32 \<Rightarrow> ringheader \<Rightarrow> (int + delayline) option" where
  "export_delayline cfg m sp r =
     (let nr = return_instance_samples cfg 0; cs = take (nat nr) cfg; n = length cs in
      if n > MAX_SAMPLES then None
      else if list_ex (\<lambda>c. pintype_of c = None) cs then Some (Inl (- EINVAL))
      else Some (Inr \<lparr>dl_ring = ringheader_init ALLOC_HALMEM (of_nat (delayline_rbsize nr m)) sp r,
        dl_enable = False, dl_abort = False, pins_in = replicate n 0, pins_out = replicate n 0, pin_delay = 0,
        write_fail = 0, too_old = 0, pintype = map (the \<circ> pintype_of) cs, output_ts = 0, input_ts = 0,
        max_delay = m, dl_delay = 0, sample_size = of_int (8 + 8 * nr), last_abort = False\<rparr>))"

section \<open>Samples as records\<close>

lemma get_le_shift: "(\<And>k. k < n \<Longrightarrow> m (a + k) = m' (a' + k)) \<Longrightarrow> get_le m a n = get_le m' a' n"
proof (induction n arbitrary: a a')
  case (Suc n)
  have "get_le m (Suc a) n = get_le m' (Suc a') n" by (rule Suc.IH) (use Suc.prems [of "Suc k" for k] in simp)
  then show ?case using Suc.prems [of 0] by simp
qed simp

lemma word_put_same [simp]: "word_at (put_word b p w) p = w"
proof -
  have "unat w < 256 ^ 8" using unsigned_less [of w, where ?'a = nat] by simp
  then show ?thesis by (simp add: word_at_def put_word_def get_put_same)
qed

lemma word_put_other: "p + 8 \<le> q \<or> q + 8 \<le> p \<Longrightarrow> word_at (put_word b p w) q = word_at b q"
  by (simp add: word_at_def put_word_def get_put_disjoint)

lemma put_word_outside: "q < p \<or> p + 8 \<le> q \<Longrightarrow> put_word b p w q = b q"
  by (simp add: put_word_def put_le_outside)

lemma store_values_outside: "q < p \<or> p + 8 * length ts \<le> q \<Longrightarrow> store_values ts vs p b q = b q"
  by (induction ts vs p b rule: store_values.induct) (auto simp: put_word_outside)

lemma store_values_before: "q + 8 \<le> p \<Longrightarrow> word_at (store_values ts vs p b) q = word_at b q"
  unfolding word_at_def by (intro arg_cong [of _ _ of_nat] get_le_cong) (simp add: store_values_outside)

lemma copy_value_typed: "hal_valid_type t \<Longrightarrow> get_typed t (copy_value t old v) = get_typed t v"
  by (simp add: copy_value_def)

lemma store_values_nth:
  "length vs = length ts \<Longrightarrow> j < length ts \<Longrightarrow> hal_valid_type (ts ! j) \<Longrightarrow>
     get_typed (ts ! j) (word_at (store_values ts vs p b) (p + 8 * j)) = get_typed (ts ! j) (vs ! j)"
proof (induction ts vs p b arbitrary: j rule: store_values.induct)
  case (1 t ts v vs p b)
  show ?case
  proof (cases j)
    case 0
    then show ?thesis using 1(4) by (simp add: store_values_before copy_value_typed)
  next
    case (Suc k)
    have "get_typed (ts ! k) (word_at (store_values ts vs (p + 8) (put_word b p (copy_value t (word_at b p) v))) (p + 8 + 8 * k)) = get_typed (ts ! k) (vs ! k)"
      by (rule 1(1)) (use 1(2-4) Suc in simp_all)
    then show ?thesis using Suc by (simp add: add.assoc)
  qed
qed auto

text \<open>The bytes of a record that holds a time stamp and the values of the pins.\<close>

definition sample_of :: "nat list \<Rightarrow> u64 \<times> u64 list \<Rightarrow> u8 list \<Rightarrow> bool" where
  "sample_of types q x \<longleftrightarrow> length x = 8 + 8 * length types \<and>
     (\<forall>b p. read_bytes b p (length x) = x \<longrightarrow> word_at b p = fst q \<and>
        (\<forall>j<length types. get_typed (types ! j) (word_at b (p + 8 + 8 * j)) = get_typed (types ! j) (snd q ! j)))"

lemma read_bytes_word:
  assumes "read_bytes b p n = read_bytes b' p' n" "k + 8 \<le> n"
  shows "word_at b (p + k) = word_at b' (p' + k)"
proof -
  have "b (p + i) = b' (p' + i)" if "i < n" for i
    using arg_cong [OF assms(1), of "\<lambda>xs. xs ! i"] that by (simp add: read_bytes_def)
  then show ?thesis
    unfolding word_at_def using assms(2) by (intro arg_cong [of _ _ of_nat] get_le_shift) (simp add: add.assoc)
qed

lemma sample_ofI:
  assumes "word_at b p = ts" "\<And>j. j < length types \<Longrightarrow>
      get_typed (types ! j) (word_at b (p + 8 + 8 * j)) = get_typed (types ! j) (vs ! j)"
  shows "sample_of types (ts, vs) (read_bytes b p (8 + 8 * length types))"
proof -
  have *: "word_at b' p' = ts \<and> (\<forall>j<length types.
        get_typed (types ! j) (word_at b' (p' + 8 + 8 * j)) = get_typed (types ! j) (vs ! j))"
    if "read_bytes b' p' (8 + 8 * length types) = read_bytes b p (8 + 8 * length types)" for b' p'
    using assms read_bytes_word [OF that, of 0] read_bytes_word [OF that, of "8 + 8 * j" for j]
    by (simp add: add.assoc)
  then show ?thesis by (simp add: sample_of_def)
qed

lemma write_read_bytes:
  assumes "\<And>a. a < p \<or> p + n \<le> a \<Longrightarrow> b' a = b a"
  shows "write_bytes b p (read_bytes b' p n) = b'"
proof
  fix a
  show "write_bytes b p (read_bytes b' p n) a = b' a"
    using assms [of a] by (cases "p \<le> a \<and> a < p + n") (auto simp: write_bytes_def read_bytes_def)
qed

lemma load_values_length [simp]: "length (load_values ts b p ws) = length ws"
  by (induction ts b p ws rule: load_values.induct) auto

lemma load_values_nth:
  "length ws = length ts \<Longrightarrow> j < length ts \<Longrightarrow> hal_valid_type (ts ! j) \<Longrightarrow>
     get_typed (ts ! j) (load_values ts b p ws ! j) = get_typed (ts ! j) (word_at b (p + 8 * j))"
proof (induction ts b p ws arbitrary: j rule: load_values.induct)
  case (1 t ts b p w ws)
  then show ?case by (cases j) (auto simp: copy_value_typed add.assoc)
qed auto

section \<open>The queue of samples\<close>

definition queue_of :: "delayline \<Rightarrow> (u64 \<times> u64 list) list \<Rightarrow> bool" where
  "queue_of s qs \<longleftrightarrow> (\<exists>xs. ring_rep (dl_ring s) xs \<and> list_all2 (sample_of (pintype s)) qs xs)"

abbreviation sample_space :: "nat \<Rightarrow> nat" where "sample_space n \<equiv> align_up (8 + 8 * n + 4) 8"

definition dl_ok :: "delayline \<Rightarrow> bool" where
  "dl_ok s \<longleftrightarrow> dl_enable s \<and> \<not> dl_abort s \<and> (\<forall>t \<in> set (pintype s). hal_valid_type t) \<and>
     unat (sample_size s) = 8 + 8 * length (pintype s) \<and>
     length (pins_in s) = length (pintype s) \<and> length (pins_out s) = length (pintype s)"

lemma longer_delay_fields [simp]:
  "dl_ring (longer_delay s) = dl_ring s" "dl_enable (longer_delay s) = dl_enable s"
  "dl_abort (longer_delay s) = dl_abort s" "pins_in (longer_delay s) = pins_in s"
  "pins_out (longer_delay s) = pins_out s" "pin_delay (longer_delay s) = pin_delay s"
  "write_fail (longer_delay s) = write_fail s" "too_old (longer_delay s) = too_old s"
  "pintype (longer_delay s) = pintype s" "output_ts (longer_delay s) = output_ts s"
  "max_delay (longer_delay s) = max_delay s" "sample_size (longer_delay s) = sample_size s"
  "last_abort (longer_delay s) = last_abort s"
  by (simp_all add: longer_delay_def Let_def)

text \<open>A write into a ring with room appends the sample under the input time stamp.\<close>

lemma write_queue:
  assumes q: "queue_of s qs" and ok: "dl_ok s"
    and room: "(length qs + 2) * sample_space (length (pintype s)) \<le> unat (rsize (dl_ring s))"
  defines "s1 \<equiv> longer_delay s"
  shows "\<exists>r. write_sample_to_ring s = s1\<lparr>dl_ring := r, input_ts := input_ts s1 + 1\<rparr> \<and>
     rsize r = rsize (dl_ring s) \<and> queue_of (s\<lparr>dl_ring := r\<rparr>) (qs @ [(input_ts s1, pins_in s)])"
proof -
  let ?n = "8 + 8 * length (pintype s)" and ?r = "dl_ring s"
  from q obtain xs where xs: "ring_rep ?r xs" "list_all2 (sample_of (pintype s)) qs xs"
    by (auto simp: queue_of_def)
  have "of_nat (unat (sample_size s)) = sample_size s" by simp
  then have sz: "sample_size s = of_nat ?n" using ok unfolding dl_ok_def by (elim conjE) (rule sym, metis)
  have "unat (rsize ?r) < 2 ^ 31" using xs(1) by (simp add: ring_rep_def ring_ok_def)
  moreover have "?n + 4 \<le> sample_space (length (pintype s))" by (rule align_up_bounds) simp
  moreover have "1 * sample_space (length (pintype s)) \<le> (length qs + 2) * sample_space (length (pintype s))"
    by (rule mult_right_mono) auto
  ultimately have "?n + 4 < 2 ^ 31" using room by linarith
  then have len: "?n + 11 < 2 ^ 32" by simp
  obtain rc p where wb: "record_write_begin (of_nat ?n) ?r = (rc, p)" by fastforce
  define b where "b = store_values (pintype s) (pins_in s) (p + 8) (put_word (buf ?r) p (input_ts s1))"
  define x where "x = read_bytes b p ?n"
  have b: "write_bytes (buf ?r) p x = b" unfolding x_def b_def
    by (rule write_read_bytes) (auto simp: store_values_outside put_word_outside)
  have sx: "sample_of (pintype s) (input_ts s1, pins_in s) x"
    unfolding x_def by (rule sample_ofI) (use ok in \<open>auto simp: b_def dl_ok_def store_values_before store_values_nth\<close>)
  have lx: "length x = ?n" by (simp add: x_def)
  have uni: "rec_len y = rec_len x" if "y \<in> set xs" for y
    using that xs(2) lx by (auto simp: list_all2_conv_all_nth in_set_conv_nth sample_of_def)
  have "snd (record_write x ?r) = 0"
    by (rule record_write_roomy [OF xs(1)]) (use len lx uni room list_all2_lengthD [OF xs(2)] in auto)
  then obtain r where r: "record_write x ?r = (r, 0)" by (cases "record_write x ?r") simp
  then have "ring_rep r (xs @ [x])" using record_write_rep [OF xs(1) _ r] len lx by auto
  moreover have rc: "rc = 0" "r = record_write_end p (of_nat ?n) (?r\<lparr>buf := b\<rparr>)"
    using r wb lx b by (auto simp: record_write_def Let_def split: if_splits)
  moreover from rc have "rsize r = rsize ?r" by (simp add: record_write_end_def Let_def)
  moreover have "list_all2 (sample_of (pintype s)) (qs @ [(input_ts s1, pins_in s)]) (xs @ [x])"
    using xs(2) sx by (simp add: list_all2_appendI)
  moreover have "write_sample_to_ring s = s1\<lparr>dl_ring := r, input_ts := input_ts s1 + 1\<rparr>"
    using ok wb rc sz by (simp add: write_sample_to_ring_def s1_def [symmetric] Let_def)
      (simp add: s1_def b_def dl_ok_def Let_def)
  ultimately show ?thesis by (auto simp: queue_of_def)
qed

text \<open>The reader stops at a sample of the future and hands out one that is due.\<close>

lemma read_loop_stop:
  assumes "queue_of s qs" "qs = [] \<or> fst (hd qs) > output_ts s"
  shows "read_loop (Suc k) s = Some s"
proof (cases qs)
  case Nil
  then show ?thesis using assms(1) by (simp add: queue_of_def record_read_empty)
next
  case (Cons q qs')
  with assms(1) obtain x xs where x: "ring_rep (dl_ring s) (x # xs)" "sample_of (pintype s) q x"
    by (auto simp: queue_of_def list_all2_Cons1)
  from record_read_first [OF x(1)] obtain p where
    "record_read (dl_ring s) = Some (p, of_nat (length x))" "read_bytes (buf (dl_ring s)) p (length x) = x"
    by blast
  then show ?thesis using x(2) assms(2) Cons by (simp add: sample_of_def)
qed

lemma read_loop_due:
  assumes q: "queue_of s ((output_ts s, vs) # qs)" and ok: "dl_ok s"
  shows "\<exists>r po. read_loop (Suc k) s = read_loop k (s\<lparr>pins_out := po, dl_ring := r\<rparr>) \<and>
     rsize r = rsize (dl_ring s) \<and> queue_of (s\<lparr>dl_ring := r\<rparr>) qs \<and> length po = length (pintype s) \<and>
     (\<forall>j<length (pintype s). get_typed (pintype s ! j) (po ! j) = get_typed (pintype s ! j) (vs ! j))"
proof -
  from q obtain x xs where x: "ring_rep (dl_ring s) (x # xs)" "sample_of (pintype s) (output_ts s, vs) x"
      "list_all2 (sample_of (pintype s)) qs xs"
    by (auto simp: queue_of_def list_all2_Cons1)
  from record_read_first [OF x(1)] obtain p where p:
    "record_read (dl_ring s) = Some (p, of_nat (length x))" "read_bytes (buf (dl_ring s)) p (length x) = x"
    by blast
  from record_shift_first [OF x(1)] obtain h where h: "ring_rep
      (dl_ring s\<lparr>generation := generation (dl_ring s) + 1, head := h\<rparr>) xs"
    "record_shift (dl_ring s) = (dl_ring s\<lparr>generation := generation (dl_ring s) + 1, head := h\<rparr>, 0)" by blast
  let ?r = "dl_ring s\<lparr>generation := generation (dl_ring s) + 1, head := h\<rparr>"
  let ?po = "load_values (pintype s) (buf (dl_ring s)) (p + 8) (pins_out s)"
  have "get_typed (pintype s ! j) (?po ! j) = get_typed (pintype s ! j) (vs ! j)" if "j < length (pintype s)" for j
    using that ok x(2) p(2) by (simp add: dl_ok_def sample_of_def load_values_nth)
  moreover have "read_loop (Suc k) s = read_loop k (s\<lparr>pins_out := ?po, dl_ring := ?r\<rparr>)"
    using p h(2) x(2) by (simp add: sample_of_def dl_apply_def)
  ultimately show ?thesis using h(1) x(3) ok
    by (intro exI [of _ ?r] exI [of _ ?po]) (auto simp: queue_of_def dl_ok_def)
qed

section \<open>A constant delay\<close>

text \<open>
  One period: the input pins are set, the writing function runs and then the
  reading function. A run collects the output pins of the periods.
\<close>

definition delay_cycle :: "nat \<Rightarrow> u64 list \<Rightarrow> delayline \<Rightarrow> delayline option" where
  "delay_cycle fuel pins s = read_sample_from_ring fuel (write_sample_to_ring (s\<lparr>pins_in := pins\<rparr>))"

fun delay_run :: "nat \<Rightarrow> u64 list list \<Rightarrow> delayline \<Rightarrow> (u64 list list \<times> delayline) option" where
  "delay_run fuel [] s = Some ([], s)"
| "delay_run fuel (pins # ins) s =
     (case delay_cycle fuel pins s of
        None \<Rightarrow> None
      | Some s1 \<Rightarrow> map_option (\<lambda>(outs, s2). (pins_out s1 # outs, s2)) (delay_run fuel ins s1))"

definition delay_queue :: "nat \<Rightarrow> u64 list list \<Rightarrow> (u64 \<times> u64 list) list" where
  "delay_queue d ins = map (\<lambda>k. (of_nat (k + d), ins ! k)) [length ins - d ..< length ins]"

definition delay_inv :: "nat \<Rightarrow> u64 list list \<Rightarrow> delayline \<Rightarrow> bool" where
  "delay_inv d ins s \<longleftrightarrow> dl_ok s \<and> write_fail s = 0 \<and> too_old s = 0 \<and>
     input_ts s = of_nat (length ins) \<and> output_ts s = of_nat (length ins) \<and>
     pin_delay s = of_nat d \<and> d \<le> unat (max_delay s) \<and>
     (d + 2) * sample_space (length (pintype s)) \<le> unat (rsize (dl_ring s)) \<and> queue_of s (delay_queue d ins)"

lemma delay_queue_snoc:
  "delay_queue d ins @ [(of_nat (length ins + d), v)] =
     (if length ins < d then [] else [(of_nat (length ins), (ins @ [v]) ! (length ins - d))]) @ delay_queue d (ins @ [v])"
proof -
  have eq: "map (\<lambda>k. (of_nat (k + d), (ins @ [v]) ! k)) [length ins - d ..< length ins] = delay_queue d ins"
    by (simp add: delay_queue_def nth_append)
  have "delay_queue d ins @ [(of_nat (length ins + d), v)] =
      map (\<lambda>k. (of_nat (k + d), (ins @ [v]) ! k)) [length ins - d ..< Suc (length ins)]"
    by (simp add: eq flip: eq)
  also have "[length ins - d ..< Suc (length ins)] = (if length ins < d then [] else [length ins - d]) @
      [Suc (length ins) - d ..< Suc (length ins)]"
    by (auto simp: upt_conv_Cons Suc_diff_le not_less)
  finally show ?thesis by (auto simp: delay_queue_def not_less)
qed

lemma longer_delay_constant:
  assumes "delay_inv d ins s" "d < 2 ^ 31"
  shows "input_ts (longer_delay s) = of_nat (length ins + d)"
proof -
  have u: "unat (of_nat d :: u32) = d" using assms(2) by (intro of_nat_inverse [OF refl]) simp
  then have "\<not> of_nat d > max_delay s" using assms(1) by (simp add: delay_inv_def word_less_nat_alt)
  moreover have "ucast (of_nat d :: u32) = (of_nat d :: u64)"
    using assms(2) by (simp add: unsigned_of_nat take_bit_nat_eq_self)
  moreover have "d = 0" if "\<not> (0 :: u32) < of_nat d" using that u by (simp add: word_gt_0 flip: unat_eq_zero)
  ultimately show ?thesis using assms(1) by (auto simp: longer_delay_def delay_inv_def Let_def)
qed

lemma shorter_delay_constant:
  assumes "input_ts s = of_nat (t + d) + 1" "output_ts s = of_nat t" "pin_delay s = of_nat d" "d < 2 ^ 31"
  shows "shorter_delay s = s\<lparr>dl_delay := of_nat d, input_ts := of_nat (Suc t)\<rparr>"
proof -
  have u: "unat (of_nat d :: u32) = d" "unat (of_nat (Suc d) :: u32) = Suc d"
    using assms(4) by (intro of_nat_inverse [OF refl]; simp)+
  have "input_ts s - output_ts s = of_nat (Suc d)" using assms by simp
  moreover have "ucast (of_nat (Suc d) :: u64) = (of_nat (Suc d) :: u32)"
    using assms(4) by (simp only: unsigned_of_nat) (simp add: take_bit_nat_eq_self)
  moreover have "(of_nat d :: u32) < of_nat (Suc d)" using u by (simp only: word_less_nat_alt)
  moreover have "ucast (of_nat d :: u32) = (of_nat d :: u64)"
    using assms(4) by (simp add: unsigned_of_nat take_bit_nat_eq_self)
  moreover have "input_ts s - of_nat d = of_nat (Suc t)" using assms(1) by simp
  ultimately show ?thesis unfolding shorter_delay_def assms(3) by (simp only: if_True)
qed

lemma delay_inv_bound: "delay_inv d ins s \<Longrightarrow> d < 2 ^ 31"
proof -
  assume i: "delay_inv d ins s"
  have "(d + 2) * 1 \<le> (d + 2) * sample_space (length (pintype s))"
    using align_up_bounds(1) [of 8 "8 + 8 * length (pintype s) + 4"] by (intro mult_left_mono) auto
  moreover have "unat (rsize (dl_ring s)) < 2 ^ 31"
    using i by (auto simp: delay_inv_def queue_of_def ring_rep_def ring_ok_def)
  ultimately show "d < 2 ^ 31" using i by (simp add: delay_inv_def)
qed

lemma queue_of_cong: "queue_of s qs \<Longrightarrow> dl_ring s' = dl_ring s \<Longrightarrow> pintype s' = pintype s \<Longrightarrow> queue_of s' qs"
  by (simp add: queue_of_def)

lemma delay_write:
  assumes i: "delay_inv d ins s" and v: "length v = length (pintype s)"
  defines "s' \<equiv> write_sample_to_ring (s\<lparr>pins_in := v\<rparr>)"
  shows "dl_ok s' \<and> pintype s' = pintype s \<and>
     write_fail s' = 0 \<and> too_old s' = 0 \<and> input_ts s' = of_nat (length ins + d) + 1 \<and>
     output_ts s' = of_nat (length ins) \<and> pin_delay s' = of_nat d \<and> max_delay s' = max_delay s \<and>
     rsize (dl_ring s') = rsize (dl_ring s) \<and> pins_out s' = pins_out s \<and>
     queue_of s' (delay_queue d ins @ [(of_nat (length ins + d), v)])"
proof -
  let ?s = "s\<lparr>pins_in := v\<rparr>"
  have i': "delay_inv d ins ?s" using i v by (auto simp: delay_inv_def dl_ok_def queue_of_def)
  note ts = longer_delay_constant [OF i' delay_inv_bound [OF i']]
  have "length (delay_queue d ins) \<le> d" by (simp add: delay_queue_def)
  then have "(length (delay_queue d ins) + 2) * sample_space (length (pintype ?s)) \<le> (d + 2) * sample_space (length (pintype ?s))"
    by (intro mult_right_mono) auto
  also have "\<dots> \<le> unat (rsize (dl_ring ?s))" using i' by (simp add: delay_inv_def)
  finally have room: "(length (delay_queue d ins) + 2) * sample_space (length (pintype ?s)) \<le> unat (rsize (dl_ring ?s))" .
  have q: "queue_of ?s (delay_queue d ins)" "dl_ok ?s" using i' by (simp_all add: delay_inv_def)
  from write_queue [OF q room] obtain r where r: "write_sample_to_ring ?s = (longer_delay ?s)\<lparr>dl_ring := r, input_ts := input_ts (longer_delay ?s) + 1\<rparr>"
    "rsize r = rsize (dl_ring s)" "queue_of (?s\<lparr>dl_ring := r\<rparr>) (delay_queue d ins @ [(of_nat (length ins + d), v)])"
    unfolding ts by auto
  have "queue_of s' (delay_queue d ins @ [(of_nat (length ins + d), v)])"
    unfolding s'_def r(1) by (rule queue_of_cong [OF r(3)]) simp_all
  then show ?thesis unfolding s'_def r(1) using i' ts r(2) by (auto simp: delay_inv_def dl_ok_def)
qed

lemma delay_queue_hd:
  assumes "length ins + d < 2 ^ 64" "0 < d"
  shows "delay_queue d ins = [] \<or> of_nat (length ins) \<le> fst (hd (delay_queue d ins))"
proof (cases "delay_queue d ins = []")
  case False
  then have "ins \<noteq> []" by (auto simp: delay_queue_def)
  then have "fst (hd (delay_queue d ins)) = of_nat (length ins - d + d)"
    using assms(2) by (simp add: delay_queue_def upt_conv_Cons)
  moreover have "(of_nat (length ins) :: u64) \<le> of_nat (length ins - d + d)"
    using assms by (subst word_of_nat_less_eq_iff) (auto simp: take_bit_nat_eq_self)
  ultimately show ?thesis by simp
qed simp

text \<open>One period with the delay \<open>d\<close> on the pin: the output pins show the input of \<open>d\<close> periods before.\<close>

lemma delay_cycle_constant:
  assumes i: "delay_inv d ins s" and v: "length v = length (pintype s)" and t: "length ins + d + 1 < 2 ^ 64"
  shows "\<exists>s'. delay_cycle (Suc (Suc k)) v s = Some s' \<and> delay_inv d (ins @ [v]) s' \<and> pintype s' = pintype s \<and>
     (if length ins < d then pins_out s' = pins_out s
      else \<forall>j<length (pintype s). get_typed (pintype s ! j) (pins_out s' ! j) =
             get_typed (pintype s ! j) ((ins @ [v]) ! (length ins - d) ! j))"
proof -
  define s1 where "s1 = write_sample_to_ring (s\<lparr>pins_in := v\<rparr>)"
  define s2 where "s2 = s1\<lparr>dl_delay := of_nat d, input_ts := of_nat (Suc (length ins))\<rparr>"
  note w = delay_write [OF i v, folded s1_def]
  have sh: "shorter_delay s1 = s2"
    unfolding s2_def by (rule shorter_delay_constant) (use w delay_inv_bound [OF i] in auto)
  have q: "queue_of s2 ((if length ins < d then [] else [(of_nat (length ins), (ins @ [v]) ! (length ins - d))]) @
      delay_queue d (ins @ [v]))"
    using w unfolding delay_queue_snoc by (auto simp: s2_def queue_of_def)
  have fut: "delay_queue d (ins @ [v]) = [] \<or> fst (hd (delay_queue d (ins @ [v]))) > of_nat (length ins)"
  proof (cases "d = 0")
    case False
    have "(of_nat (length ins) :: u64) < of_nat (Suc (length ins))"
      using t by (subst word_of_nat_less_iff) (auto simp: take_bit_nat_eq_self)
    then show ?thesis using delay_queue_hd [of "ins @ [v]" d] t False by auto
  qed (simp add: delay_queue_def)
  from w have "dl_ok s1" by simp
  then have ok: "dl_ok s2" by (simp add: s2_def dl_ok_def)
  have fin: "\<exists>s'. delay_cycle (Suc (Suc k)) v s = Some s' \<and> delay_inv d (ins @ [v]) s' \<and> pintype s' = pintype s \<and> pins_out s' = po"
    if "read_loop (Suc (Suc k)) s2 = Some (s2\<lparr>pins_out := po, dl_ring := r\<rparr>)" "queue_of (s2\<lparr>dl_ring := r\<rparr>) (delay_queue d (ins @ [v]))"
      "length po = length (pintype s)" "rsize r = rsize (dl_ring s)" for po r
  proof -
    have "\<not> dl_abort s1" using w by (simp add: dl_ok_def)
    moreover have "queue_of (s2\<lparr>pins_out := po, dl_ring := r, output_ts := x, last_abort := y\<rparr>) (delay_queue d (ins @ [v]))" for x y
      by (rule queue_of_cong [OF that(2)]) simp_all
    ultimately show ?thesis using that(1,3,4) w i sh ok
      by (auto simp: delay_cycle_def read_sample_from_ring_def s1_def [symmetric] delay_inv_def s2_def dl_ok_def)
  qed
  show ?thesis
  proof (cases "length ins < d")
    case True
    then show ?thesis using q fut w i fin [where po = "pins_out s" and r = "dl_ring s2"] read_loop_stop [of s2 _ "Suc k"]
      by (auto simp: s2_def dl_ok_def delay_inv_def)
  next
    case False
    have o: "output_ts s2 = of_nat (length ins)" "pintype s2 = pintype s" "rsize (dl_ring s2) = rsize (dl_ring s)"
      using w by (simp_all add: s2_def)
    from False q o have "queue_of s2 ((output_ts s2, (ins @ [v]) ! (length ins - d)) # delay_queue d (ins @ [v]))" by simp
    from read_loop_due [OF this ok, of "Suc k"] obtain r po where
      r: "read_loop (Suc (Suc k)) s2 = read_loop (Suc k) (s2\<lparr>pins_out := po, dl_ring := r\<rparr>)"
        "rsize r = rsize (dl_ring s)" "queue_of (s2\<lparr>dl_ring := r\<rparr>) (delay_queue d (ins @ [v]))" "length po = length (pintype s)"
        "\<forall>j<length (pintype s). get_typed (pintype s ! j) (po ! j) = get_typed (pintype s ! j) ((ins @ [v]) ! (length ins - d) ! j)"
      unfolding o by blast
    have "read_loop (Suc k) (s2\<lparr>pins_out := po, dl_ring := r\<rparr>) = Some (s2\<lparr>pins_out := po, dl_ring := r\<rparr>)"
      by (rule read_loop_stop [OF queue_of_cong [OF r(3)]]) (use fut o in auto)
    then show ?thesis using fin [OF _ r(3,4,2)] r(1,5) False by auto
  qed
qed

lemma delay_run_constant:
  assumes "delay_inv d ins s" "\<And>v. v \<in> set rest \<Longrightarrow> length v = length (pintype s)"
    "length ins + length rest + d < 2 ^ 64"
  shows "\<exists>outs s'. delay_run (Suc (Suc k)) rest s = Some (outs, s') \<and> delay_inv d (ins @ rest) s' \<and>
     length outs = length rest \<and>
     (\<forall>i<length rest. \<forall>j<length (pintype s). get_typed (pintype s ! j) (outs ! i ! j) =
        get_typed (pintype s ! j) (if length ins + i < d then pins_out s ! j else (ins @ rest) ! (length ins + i - d) ! j))"
  using assms
proof (induction rest arbitrary: ins s)
  case (Cons v rest)
  have "length v = length (pintype s)" "length ins + d + 1 < 2 ^ 64" using Cons.prems(2,3) by auto
  from delay_cycle_constant [OF Cons.prems(1) this, of k] obtain s1 where
    c: "delay_cycle (Suc (Suc k)) v s = Some s1" "delay_inv d (ins @ [v]) s1" "pintype s1 = pintype s"
      "if length ins < d then pins_out s1 = pins_out s
       else \<forall>j<length (pintype s). get_typed (pintype s ! j) (pins_out s1 ! j) =
              get_typed (pintype s ! j) ((ins @ [v]) ! (length ins - d) ! j)" by blast
  have "\<exists>outs s'. delay_run (Suc (Suc k)) rest s1 = Some (outs, s') \<and> delay_inv d ((ins @ [v]) @ rest) s' \<and>
     length outs = length rest \<and>
     (\<forall>i<length rest. \<forall>j<length (pintype s1). get_typed (pintype s1 ! j) (outs ! i ! j) =
        get_typed (pintype s1 ! j) (if length (ins @ [v]) + i < d then pins_out s1 ! j
          else ((ins @ [v]) @ rest) ! (length (ins @ [v]) + i - d) ! j))"
    by (rule Cons.IH [OF c(2)]) (use Cons.prems(2,3) c(3) in auto)
  then obtain outs s' where r: "delay_run (Suc (Suc k)) rest s1 = Some (outs, s')" "delay_inv d (ins @ v # rest) s'"
    "length outs = length rest"
    "\<forall>i<length rest. \<forall>j<length (pintype s). get_typed (pintype s ! j) (outs ! i ! j) =
        get_typed (pintype s ! j) (if Suc (length ins + i) < d then pins_out s1 ! j else (ins @ v # rest) ! (Suc (length ins + i) - d) ! j)"
    using c(3) by auto
  have "get_typed (pintype s ! j) ((pins_out s1 # outs) ! i ! j) = get_typed (pintype s ! j)
      (if length ins + i < d then pins_out s ! j else (ins @ v # rest) ! (length ins + i - d) ! j)"
    if "i < Suc (length rest)" "j < length (pintype s)" for i j
  proof (cases i)
    case 0
    then show ?thesis using c(4) that by (auto simp: nth_append split: if_splits)
  next
    case (Suc i')
    then show ?thesis using r(4) c(4) that by (auto split: if_splits)
  qed
  then show ?case using c(1) r(1-3) by auto
qed simp

lemma pintype_of_valid: "pintype_of c = Some t \<Longrightarrow> hal_valid_type t"
  by (auto simp: pintype_of_def hal_valid_type_def split: if_splits)

lemma pintype_of_None: "pintype_of c = None \<longleftrightarrow> c \<notin> set ''bBfFsSuU''"
  by (auto simp: pintype_of_def)

lemma return_instance_samples_types:
  "0 \<le> n \<Longrightarrow> return_instance_samples cfg n \<noteq> - 1 \<Longrightarrow>
     \<not> list_ex (\<lambda>c. pintype_of c = None) cfg \<and> return_instance_samples cfg n = n + int (length cfg)"
  by (induction cfg n rule: return_instance_samples.induct)
    (simp_all add: pintype_of_None del: list.set split: if_splits)

lemma sample_space_word: "n \<le> MAX_SAMPLES \<Longrightarrow> unat (record_space (of_int (8 + 8 * int n))) = sample_space n"
  using unat_rec_len [of "replicate (8 + 8 * n) 0"] by (simp add: record_space_def MAX_SAMPLES_def)

lemma export_delayline_eq:
  assumes "export_delayline cfg m sp r = Some (Inr s)" "0 < return_instance_samples cfg 0"
  shows "length cfg \<le> MAX_SAMPLES" "list_all hal_valid_type (pintype s)" "length (pintype s) = length cfg"
    "dl_ring s = ringheader_init ALLOC_HALMEM (of_nat (delayline_rbsize (int (length cfg)) m)) sp r"
    "pins_in s = replicate (length cfg) 0" "pins_out s = replicate (length cfg) 0" "write_fail s = 0" "too_old s = 0"
    "output_ts s = 0" "input_ts s = 0" "max_delay s = m" "unat (sample_size s) = 8 + 8 * length cfg"
    "\<not> dl_abort s"
proof -
  have nr: "return_instance_samples cfg 0 = int (length cfg)" "\<not> list_ex (\<lambda>c. pintype_of c = None) cfg"
    using return_instance_samples_types [of 0 cfg] assms(2) by auto
  then show n: "length cfg \<le> MAX_SAMPLES" using assms(1) by (auto simp: export_delayline_def Let_def split: if_splits)
  have s: "s = \<lparr>dl_ring = ringheader_init ALLOC_HALMEM (of_nat (delayline_rbsize (int (length cfg)) m)) sp r,
        dl_enable = False, dl_abort = False, pins_in = replicate (length cfg) 0, pins_out = replicate (length cfg) 0,
        pin_delay = 0, write_fail = 0, too_old = 0, pintype = map (the \<circ> pintype_of) cfg, output_ts = 0,
        input_ts = 0, max_delay = m, dl_delay = 0, sample_size = of_int (8 + 8 * int (length cfg)), last_abort = False\<rparr>"
    using assms(1) nr n by (auto simp: export_delayline_def Let_def)
  have "of_int (8 + 8 * int (length cfg)) = (of_nat (8 + 8 * length cfg) :: u32)" by simp
  then show "unat (sample_size s) = 8 + 8 * length cfg"
    using n of_nat_inverse [OF refl, of "8 + 8 * length cfg", where 'a = 32] by (simp add: s MAX_SAMPLES_def)
  show "list_all hal_valid_type (pintype s)"
    using nr(2) pintype_of_valid by (fastforce simp: s list_all_iff list_ex_iff)
  show "length (pintype s) = length cfg" "pins_in s = replicate (length cfg) 0" "pins_out s = replicate (length cfg) 0"
    "dl_ring s = ringheader_init ALLOC_HALMEM (of_nat (delayline_rbsize (int (length cfg)) m)) sp r"
    "write_fail s = 0" "too_old s = 0" "output_ts s = 0" "input_ts s = 0" "max_delay s = m" "\<not> dl_abort s"
    by (simp_all add: s)
qed

text \<open>From a maximum of ten periods on, the ring has room for the largest delay.\<close>

lemma export_delayline_inv:
  assumes e: "export_delayline cfg m sp r = Some (Inr s)" "0 < return_instance_samples cfg 0"
    and m: "10 \<le> unat m" "unat m \<le> 2 ^ 24" "d \<le> unat m"
  shows "delay_inv d [] (s\<lparr>dl_enable := True, pin_delay := of_nat d\<rparr>)"
proof -
  let ?n = "length cfg" and ?sz = "delayline_rbsize (int (length cfg)) m"
  note x = export_delayline_eq [OF e]
  have L: "0 < sample_space ?n" "sample_space ?n \<le> 88"
    using x(1) align_up_bounds [of 8 "8 + 8 * ?n + 4"] by (auto simp: MAX_SAMPLES_def)
  have size: "?sz = sample_space ?n * unat m * 6 div 5" by (simp only: delayline_rbsize_def sample_space_word [OF x(1)])
  have "sample_space ?n * unat m \<le> 88 * 2 ^ 24" using L(2) m(2) by (rule mult_le_mono)
  then have "?sz \<le> 2 ^ 31 - 128" unfolding size by simp
  moreover have room: "(d + 2) * sample_space ?n \<le> ?sz"
  proof -
    have "(d + 2) * 5 \<le> unat m * 6" using m by simp
    then have "sample_space ?n * ((d + 2) * 5) \<le> sample_space ?n * (unat m * 6)" by (rule mult_left_mono) simp
    then show ?thesis unfolding size by (simp add: algebra_simps)
  qed
  moreover have "0 < (d + 2) * sample_space ?n" using L(1) by simp
  moreover have u: "unat (of_nat ?sz :: u32) = ?sz" using calculation(1) by (intro of_nat_inverse [OF refl]) simp
  moreover have fl: "ALLOC_HALMEM AND RINGTYPE_MASK \<noteq> RINGTYPE_STREAM"
    by (simp add: ALLOC_HALMEM_def RINGTYPE_MASK_def RINGTYPE_STREAM_def)
  ultimately have "ring_rep (dl_ring s) []" "?sz \<le> unat (rsize (dl_ring s))"
    using ringheader_init_rep [OF fl, of "of_nat ?sz" sp r] record_storage [OF fl, of "of_nat ?sz"]
    by (auto simp: x(4) ringheader_init_fields)
  then show ?thesis using x room m
    by (auto simp: delay_inv_def dl_ok_def queue_of_def delay_queue_def list_all_iff)
qed

text \<open>A ring that has no room for another sample refuses it; the counter goes up.\<close>

lemma write_refused:
  assumes q: "queue_of s qs" and ok: "dl_ok s"
    and full: "unat (rsize (dl_ring s)) \<le> (length qs + 1) * sample_space (length (pintype s))"
    and n: "length (pintype s) \<le> MAX_SAMPLES"
  shows "write_fail (write_sample_to_ring s) = write_fail s + 1 \<and> dl_ring (write_sample_to_ring s) = dl_ring s"
proof -
  let ?n = "8 + 8 * length (pintype s)" and ?x = "replicate (8 + 8 * length (pintype s)) (0 :: u8)"
  from q obtain xs where xs: "ring_rep (dl_ring s) xs" "list_all2 (sample_of (pintype s)) qs xs"
    by (auto simp: queue_of_def)
  have "of_nat (unat (sample_size s)) = sample_size s" by simp
  then have sz: "sample_size s = of_nat ?n" using ok unfolding dl_ok_def by (elim conjE) (rule sym, metis)
  have "snd (record_write ?x (dl_ring s)) \<noteq> 0"
    by (rule record_write_full [OF xs(1)]) (use n full xs(2) list_all2_lengthD [OF xs(2)] in
      \<open>auto simp: MAX_SAMPLES_def list_all2_conv_all_nth in_set_conv_nth sample_of_def\<close>)
  then have "fst (record_write_begin (of_nat ?n) (dl_ring s)) \<noteq> 0"
    by (auto simp: record_write_def Let_def split: prod.splits if_splits)
  then show ?thesis using ok sz
    by (cases "record_write_begin (of_nat ?n) (dl_ring s)") (simp add: write_sample_to_ring_def Let_def dl_ok_def)
qed

section \<open>Properties\<close>

text \<open>C28: The delay line delays. In a line of at most nine pins with a maximum of at least
  ten periods, with the delay pin at \<open>d\<close> within the maximum and the line enabled,
  every period ends with the output pins showing the values that the input pins
  had \<open>d\<close> periods before, each in its type, and zero in the first \<open>d\<close> periods.
  No write is refused and no sample is too old.
\<close>

theorem delayline_delays:
  assumes "export_delayline cfg m sp r = Some (Inr s)" "0 < return_instance_samples cfg 0" "10 \<le> unat m" "unat m \<le> 2 ^ 24" "d \<le> unat m"
    "\<forall>v \<in> set ins. length v = length cfg" "length ins + d < 2 ^ 64"
  shows "\<exists>outs s'. delay_run (Suc (Suc k)) ins (s\<lparr>dl_enable := True, pin_delay := of_nat d\<rparr>) = Some (outs, s') \<and>
    write_fail s' = 0 \<and> too_old s' = 0 \<and> length outs = length ins \<and>
    (\<forall>t<length ins. \<forall>j<length cfg. get_typed (pintype s ! j) (outs ! t ! j) =
       get_typed (pintype s ! j) (if t < d then 0 else ins ! (t - d) ! j))"
proof -
  have s: "length (pintype s) = length cfg" "pins_out s = replicate (length cfg) 0"
    using export_delayline_eq [OF assms(1,2)] by simp_all
  note inv = export_delayline_inv [OF assms(1-5)]
  have "length v = length (pintype (s\<lparr>dl_enable := True, pin_delay := of_nat d\<rparr>))" if "v \<in> set ins" for v
    using that assms(6) s(1) by simp
  from delay_run_constant [OF inv this, where rest = ins and k = k] assms(7) obtain outs s' where
    "delay_run (Suc (Suc k)) ins (s\<lparr>dl_enable := True, pin_delay := of_nat d\<rparr>) = Some (outs, s')"
    "delay_inv d ins s'" "length outs = length ins"
    "\<forall>i<length ins. \<forall>j<length cfg. get_typed (pintype s ! j) (outs ! i ! j) =
       get_typed (pintype s ! j) (if i < d then pins_out s ! j else ins ! (i - d) ! j)"
    using s(1) by auto
  then show ?thesis using s(2) by (auto simp: delay_inv_def)
qed

theorem delayline_delays_witness:
  "\<exists>s outs s'. export_delayline ''fb'' 10 0 blank_ring = Some (Inr s) \<and>
     delay_run 2 [[5, 1], [6, 0], [7, 1]] (s\<lparr>dl_enable := True, pin_delay := of_nat 1\<rparr>) = Some (outs, s') \<and>
     write_fail s' = 0 \<and> get_typed HAL_FLOAT (outs ! 2 ! 0) = get_typed HAL_FLOAT 6 \<and>
     get_typed HAL_FLOAT (outs ! 0 ! 0) = get_typed HAL_FLOAT 0 \<and> get_typed HAL_BIT (outs ! 1 ! 1) = get_typed HAL_BIT 1"
proof -
  obtain s where s: "export_delayline ''fb'' 10 0 blank_ring = Some (Inr s)"
    by (simp add: export_delayline_def Let_def pintype_of_def MAX_SAMPLES_def)
  then have t: "pintype s = [HAL_FLOAT, HAL_BIT]"
    by (auto simp: export_delayline_def Let_def pintype_of_def MAX_SAMPLES_def)
  let ?ins = "[[5, 1], [6, 0], [7, 1]] :: u64 list list"
  have "0 < return_instance_samples ''fb'' 0" "10 \<le> unat (10 :: u32)" "unat (10 :: u32) \<le> 2 ^ 24" "1 \<le> unat (10 :: u32)"
    "\<forall>v \<in> set ?ins. length v = length ''fb''" "length ?ins + 1 < 2 ^ 64" by simp_all
  from delayline_delays [OF s this, of 0] obtain outs s' where
    r: "delay_run 2 ?ins (s\<lparr>dl_enable := True, pin_delay := of_nat 1\<rparr>) = Some (outs, s')" "write_fail s' = 0"
      "\<forall>t<length ?ins. \<forall>j<length ''fb''. get_typed (pintype s ! j) (outs ! t ! j) =
         get_typed (pintype s ! j) (if t < 1 then 0 else ?ins ! (t - 1) ! j)"
    unfolding numeral_2_eq_2 [symmetric] by blast
  have "get_typed HAL_FLOAT (outs ! 2 ! 0) = get_typed HAL_FLOAT 6" using r(3) [rule_format, of 2 0] t by simp
  moreover have "get_typed HAL_FLOAT (outs ! 0 ! 0) = get_typed HAL_FLOAT 0" using r(3) [rule_format, of 0 0] t by simp
  moreover have "get_typed HAL_BIT (outs ! 1 ! 1) = get_typed HAL_BIT 1" using r(3) [rule_format, of 1 1] t by simp
  ultimately show ?thesis using s r(1,2) by blast
qed

text \<open>
  The headroom is not enough for short lines: with a maximum of two periods
  the ring has 64 bytes, and the third sample of a delay of two is refused.
\<close>

theorem delayline_short_fails:
  assumes "export_delayline [c] 2 sp r = Some (Inr s0)" "0 < return_instance_samples [c] 0" "rsize (dl_ring s) = rsize (dl_ring s0)"
    "pintype s = pintype s0" "dl_ok s" "queue_of s qs" "length qs = 2"
  shows "write_fail (write_sample_to_ring s) = write_fail s + 1"
proof -
  note x = export_delayline_eq [OF assms(1,2)]
  have n: "length (pintype s) = 1" using x(3) assms(4) by simp
  have L: "sample_space 1 = 24" by (simp add: align_up_def)
  have fl: "ALLOC_HALMEM AND RINGTYPE_MASK \<noteq> RINGTYPE_STREAM"
    by (simp add: ALLOC_HALMEM_def RINGTYPE_MASK_def RINGTYPE_STREAM_def)
  have "delayline_rbsize 1 2 = 57"
    unfolding delayline_rbsize_def using sample_space_word [of 1] L by (simp add: MAX_SAMPLES_def)
  then have "unat (rsize (dl_ring s)) = 64"
    using assms(3) record_storage(1) [OF fl, of 57] by (simp add: x(4) ringheader_init_fields align_up_def)
  then show ?thesis using write_refused [OF assms(6,5)] n L assms(7) by (simp add: MAX_SAMPLES_def)
qed

end
