(* ===== verification/Halcmd_Commands.thy ===== *)
theory Halcmd_Commands
  imports Halcmd_Values Hal_Group
begin

text \<open>
  The commands of halcmd (\<open>hal_command/src/halcmd_commands.c\<close>), one definition per
  handler. A handler works on the state below and returns the C return value;
  what it prints on the standard output, or writes to the destination of
  \<open>save\<close>, is appended to the state's lines. Diagnostics on the standard error are
  not modelled.
\<close>

section \<open>State and surroundings\<close>

text \<open>
  \<open>hc_mem\<close> is the memory of components that legacy parameters point into,
  \<open>hc_strings\<close> the argument strings of loaded modules by offset, \<open>hc_files\<close> the
  contents of files, \<open>hc_epsilon\<close> the array of \<open>hal_data\<close> that \<open>sete\<close> changes, \<open>hc_killed\<close> the
  processes that were sent \<open>SIGTERM\<close>, \<open>hc_autoload\<close> and \<open>hc_echo\<close> the flags of
  the program.
\<close>

record halcmd =
  hc_hal :: hal
  hc_mem :: "nat \<Rightarrow> u64"
  hc_strings :: "nat \<Rightarrow> string"
  hc_files :: "string \<Rightarrow> string option"
  hc_epsilon :: "u64 list"
  hc_out :: "string list"
  hc_killed :: "int list"
  hc_autoload :: bool
  hc_echo :: bool

text \<open>
  What the handlers use of their surroundings: the conversions of
  floating-point numbers, the destructors of instances, the requests to
  \<open>rtapi_app\<close> (\<open>rtapi_loadrt\<close> and the others of \<open>halcmd_rtapiapp.cc\<close>), and the
  tags of a module file, whether a file can be opened for writing, whether
  messages are switched off, the variables of the line reader, and the commands
  that are not modelled.
\<close>

record surroundings =
  strtod :: "string \<Rightarrow> u64 \<times> string"
  fmt_g :: "u64 \<Rightarrow> string"
  inst_dtor :: dtor_code
  may_write :: "string \<Rightarrow> bool"
  msg_none :: bool
  rtapi_get_tags :: "string \<Rightarrow> int"
  rtapi_loadrt :: "string \<Rightarrow> string list \<Rightarrow> hal \<Rightarrow> hal \<times> int"
  rtapi_unloadrt :: "string \<Rightarrow> hal \<Rightarrow> hal \<times> int"
  rtapi_newinst :: "string \<Rightarrow> string \<Rightarrow> string list \<Rightarrow> hal \<Rightarrow> hal \<times> int"
  rtapi_delinst :: "string \<Rightarrow> hal \<Rightarrow> hal \<times> int"
  rtapi_callfunc :: "string \<Rightarrow> string list \<Rightarrow> hal \<Rightarrow> hal \<times> int"
  rtapi_newthread :: "string \<Rightarrow> int \<Rightarrow> int \<Rightarrow> string \<Rightarrow> int \<Rightarrow> int \<Rightarrow> hal \<Rightarrow> hal \<times> int"
  rtapi_delthread :: "string \<Rightarrow> hal \<Rightarrow> hal \<times> int"
  sr_getenv :: env
  sr_iniFind :: ini
  sr_tilde :: "string \<Rightarrow> string"
  other_cmd :: "string \<Rightarrow> string option list \<Rightarrow> string list \<Rightarrow> halcmd \<Rightarrow> (halcmd \<times> int) option"

definition on_hal :: "(hal \<Rightarrow> hal \<times> int) \<Rightarrow> halcmd \<Rightarrow> halcmd \<times> int" where
  "on_hal f c = (case f (hc_hal c) of (s, rc) \<Rightarrow> (c\<lparr>hc_hal := s\<rparr>, rc))"

definition halcmd_output :: "string list \<Rightarrow> halcmd \<Rightarrow> halcmd" where
  "halcmd_output ls c = c\<lparr>hc_out := hc_out c @ ls\<rparr>"

section \<open>Locks\<close>

definition do_lock_cmd :: "string option \<Rightarrow> hal \<Rightarrow> hal \<times> int" where
  "do_lock_cmd command s =
     (case command of
        None \<Rightarrow> hal_set_lock HAL_LOCK_ALL s
      | Some c \<Rightarrow>
          if c = ''all'' then hal_set_lock HAL_LOCK_ALL s
          else if c = ''none'' then hal_set_lock HAL_LOCK_NONE s
          else if c = ''tune'' then hal_set_lock (HAL_LOCK_LOAD AND HAL_LOCK_CONFIG) s
          else (s, 0))"

definition do_unlock_cmd :: "string option \<Rightarrow> hal \<Rightarrow> hal \<times> int" where
  "do_unlock_cmd command s =
     (case command of
        None \<Rightarrow> hal_set_lock HAL_LOCK_NONE s
      | Some c \<Rightarrow>
          if c = ''all'' then hal_set_lock HAL_LOCK_NONE s
          else if c = ''tune'' then hal_set_lock (HAL_LOCK_LOAD AND HAL_LOCK_CONFIG) s
          else (s, 0))"

section \<open>Links\<close>

definition do_linkps_cmd :: "string \<Rightarrow> string \<Rightarrow> hal \<Rightarrow> hal \<times> int" where
  "do_linkps_cmd pin sig s = halg_link (Some pin) (Some sig) s"

definition do_linksp_cmd :: "string \<Rightarrow> string \<Rightarrow> hal \<Rightarrow> hal \<times> int" where
  "do_linksp_cmd sig pin s = do_linkps_cmd pin sig s"

definition do_unlinkp_cmd :: "string \<Rightarrow> hal \<Rightarrow> hal \<times> int" where
  "do_unlinkp_cmd pin s = halg_unlink (Some pin) s"

definition do_linkpp_cmd :: "string \<Rightarrow> string \<Rightarrow> hal \<Rightarrow> hal \<times> int" where
  "do_linkpp_cmd first_pin_name second_pin_name s =
     (case halg_find_object_by_name HAL_PIN (Some first_pin_name) s of
        None \<Rightarrow> (s, - EINVAL)
      | Some first_pin \<Rightarrow>
     (case halg_find_object_by_name HAL_PIN (Some second_pin_name) s of
        None \<Rightarrow> (s, - EINVAL)
      | Some second_pin \<Rightarrow>
          if pin_type (pin_of s first_pin) \<noteq> pin_type (pin_of s second_pin) then (s, - EINVAL)
          else case halg_signal_new (Some first_pin_name) (pin_type (pin_of s first_pin)) s of
            (s1, retval) \<Rightarrow>
              if retval \<noteq> 0 then (s1, retval)
              else case halg_link (Some first_pin_name) (Some first_pin_name) s1 of
                (s2, retval) \<Rightarrow>
                  if retval \<noteq> 0 then (s2, retval)
                  else halg_link (Some second_pin_name) (Some first_pin_name) s2))"

text \<open>
  \<open>preflight_net_cmd\<close>. The counters are those of the signal, if there is one,
  and grow with the pins looked at; the names it collects are only printed.
\<close>

fun preflight_pins :: "nat option \<Rightarrow> hal \<Rightarrow> string list \<Rightarrow> nat option \<Rightarrow> int \<Rightarrow> int \<Rightarrow> nat \<Rightarrow> int" where
  "preflight_pins sig s [] type writers bidirs pincnt = (if pincnt \<noteq> 0 then 0 else - EINVAL)"
| "preflight_pins sig s (p # pins) type writers bidirs pincnt =
     (case halg_find_object_by_name HAL_PIN (Some p) s of
        None \<Rightarrow> - ENOENT
      | Some pin \<Rightarrow>
          if signal_of s pin = sig then preflight_pins sig s pins type writers bidirs (pincnt + 1)
          else if pin_is_linked s pin then - EINVAL
          else
           (let type' = (case type of None \<Rightarrow> pin_type (pin_of s pin) | Some t \<Rightarrow> t);
                dir = pin_dir (pin_of s pin)
            in if type' \<noteq> pin_type (pin_of s pin) then - EINVAL
               else if dir = HAL_OUT \<and> (writers \<noteq> 0 \<or> bidirs \<noteq> 0) then - EINVAL
               else
                (let writers' = (if dir = HAL_OUT then writers + 1 else writers)
                 in if dir = HAL_IO \<and> writers' \<noteq> 0 then - EINVAL
                    else preflight_pins sig s pins (Some type') writers'
                           (if dir = HAL_IO then bidirs + 1 else bidirs) (pincnt + 1))))"

definition preflight_net_cmd :: "nat option \<Rightarrow> string list \<Rightarrow> hal \<Rightarrow> int" where
  "preflight_net_cmd sig pins s =
     (case sig of
        None \<Rightarrow> preflight_pins sig s pins None 0 0 0
      | Some a \<Rightarrow> preflight_pins sig s pins (Some (sig_type (sig_of s a)))
                    (sig_writers (sig_of s a)) (sig_bidirs (sig_of s a)) 0)"

fun link_pins :: "string \<Rightarrow> string list \<Rightarrow> hal \<Rightarrow> hal \<times> int" where
  "link_pins signal [] s = (s, 0)"
| "link_pins signal (p # pins) s =
     (case do_linkps_cmd p signal s of
        (s1, retval) \<Rightarrow> if retval = 0 then link_pins signal pins s1 else (s1, retval))"

definition do_net_cmd :: "string \<Rightarrow> string list \<Rightarrow> hal \<Rightarrow> hal \<times> int" where
  "do_net_cmd signal pins s =
     (let sig = halg_find_object_by_name HAL_SIGNAL (Some signal) s;
          retval = preflight_net_cmd sig pins s
      in if retval < 0 then (s, retval)
         else if halg_find_object_by_name HAL_PIN (Some signal) s \<noteq> None then (s, - ENOENT)
         else case sig of
           Some a \<Rightarrow> if retval = 0 then link_pins signal pins s else (s, retval)
         | None \<Rightarrow>
             (case halg_find_object_by_name HAL_PIN (Some (hd pins)) s of
                None \<Rightarrow> (s, - ENOENT)
              | Some pin \<Rightarrow>
                  (case halg_signal_new (Some signal) (pin_type (pin_of s pin)) s of
                     (s1, retval) \<Rightarrow> if retval = 0 then link_pins signal pins s1 else (s1, retval))))"

section \<open>Signals\<close>

definition do_newsig_cmd :: "string \<Rightarrow> string \<Rightarrow> hal \<Rightarrow> hal \<times> int" where
  "do_newsig_cmd name type s =
     (case type_by_name type of
        None \<Rightarrow> (s, - EINVAL)
      | Some t \<Rightarrow> halg_signal_new (Some name) t s)"

definition unlocked_delete_halobject :: "nat \<Rightarrow> nat \<Rightarrow> hal \<Rightarrow> unit \<Rightarrow> hal \<times> unit \<times> int" where
  "unlocked_delete_halobject type a s u =
     (if type = HAL_SIGNAL
      then case halg_signal_delete (Some (ho_name s a)) s of (s1, rc) \<Rightarrow> (s1, u, rc)
      else (s, u, -1))"

definition do_delsig_cmd :: "string \<Rightarrow> hal \<Rightarrow> hal \<times> int" where
  "do_delsig_cmd sig_name s =
     (let args = no_args\<lparr>fa_type := HAL_SIGNAL,
                         fa_name := (if sig_name \<noteq> ''all'' then None else Some sig_name)\<rparr>
      in case halg_foreach args (unlocked_delete_halobject HAL_SIGNAL) s () of
           (s1, _, retval) \<Rightarrow> (s1, if retval < 0 then retval else 0))"

section \<open>Threads\<close>

definition do_start_cmd :: "hal \<Rightarrow> hal \<times> int" where
  "do_start_cmd s = (fst (hal_start_threads s), 0)"

definition do_stop_cmd :: "hal \<Rightarrow> hal \<times> int" where
  "do_stop_cmd s = (fst (hal_stop_threads s), 0)"

text \<open>An invalid position is only reported; the scan's value is used.\<close>

fun addf_opts :: "string list \<Rightarrow> int \<times> int \<times> int \<Rightarrow> int \<times> int \<times> int" where
  "addf_opts [] r = r"
| "addf_opts (opt # opts) (position, rmb, wmb) =
     (if strcase_eq opt ''rmb'' then addf_opts opts (position, 1, wmb)
      else if strcase_eq opt ''wmb'' then addf_opts opts (position, rmb, 1)
      else addf_opts opts (to_s32 (fst (strtol opt)), rmb, wmb))"

definition do_addf_cmd :: "string \<Rightarrow> string \<Rightarrow> string list \<Rightarrow> hal \<Rightarrow> hal \<times> int" where
  "do_addf_cmd func thread opt s =
     (case addf_opts opt (-1, 0, 0) of (position, rmb, wmb) \<Rightarrow>
        hal_add_funct_to_thread (Some func) (Some thread) position rmb wmb s)"

definition do_delf_cmd :: "string option \<Rightarrow> string option \<Rightarrow> hal \<Rightarrow> hal \<times> int" where
  "do_delf_cmd func thread s = hal_del_funct_from_thread func thread s"

definition do_setexact_cmd :: "hal \<Rightarrow> hal \<times> int" where
  "do_setexact_cmd s =
     (if base_period s \<noteq> 0 then (s, - EINVAL) else (s\<lparr>exact_base_period := 1\<rparr>, 0))"

section \<open>Values\<close>

text \<open>A parameter lies in its descriptor or, a legacy one, in the memory of its component.\<close>

definition param_get :: "nat \<Rightarrow> halcmd \<Rightarrow> u64" where
  "param_get a c =
     (let p = param_of (hc_hal c) a in
      if param_data_ptr p = param_value_of a then param_val p else hc_mem c (param_data_ptr p))"

definition param_set :: "nat \<Rightarrow> u64 \<Rightarrow> halcmd \<Rightarrow> halcmd" where
  "param_set a v c =
     (let d = param_data_ptr (param_of (hc_hal c) a) in
      if d = param_value_of a then c\<lparr>hc_hal := upd_param a (\<lambda>p. p\<lparr>param_val := v\<rparr>) (hc_hal c)\<rparr>
      else c\<lparr>hc_mem := (hc_mem c)(d := v)\<rparr>)"

text \<open>
  An output pin can be set only while its component is unbound; a pin whose
  component cannot be found is followed through a null pointer.
\<close>

definition do_setp_cmd :: "surroundings \<Rightarrow> string \<Rightarrow> string \<Rightarrow> halcmd \<Rightarrow> halcmd \<times> int" where
  "do_setp_cmd env name value c =
     (let s = hc_hal c in
      case halg_find_object_by_name HAL_PARAM (Some name) s of
        Some param \<Rightarrow>
          if param_dir (param_of s param) = HAL_RO then (c, - EINVAL)
          else case set_common (strtod env) (param_type (param_of s param)) (param_get param c) value of
            (retval, v) \<Rightarrow> (param_set param v c, retval)
      | None \<Rightarrow>
     (case halg_find_object_by_name HAL_PIN (Some name) s of
        None \<Rightarrow> (c, - EINVAL)
      | Some pin \<Rightarrow>
          let p = pin_of s pin; cmp = halpr_find_owning_comp (ho_owner_id s pin) s in
          if pin_dir p = HAL_OUT \<and> cmp = None then (c\<lparr>hc_hal := s\<lparr>fault := True\<rparr>\<rparr>, - EINVAL)
          else if pin_dir p = HAL_OUT \<and> state_of_comp s (the cmp) \<noteq> COMP_UNBOUND then (c, - EINVAL)
          else if pin_is_linked s pin then (c, - EINVAL)
          else case set_common (strtod env) (pin_type p) (pin_dummysig p) value of
            (retval, v) \<Rightarrow>
              (c\<lparr>hc_hal := upd_pin pin (\<lambda>p. p\<lparr>pin_dummysig := v\<rparr>) s\<rparr>, retval)))"

definition MAX_EPSILON :: int where "MAX_EPSILON = 5"

definition do_sete_cmd :: "surroundings \<Rightarrow> string \<Rightarrow> string \<Rightarrow> halcmd \<Rightarrow> halcmd \<times> int" where
  "do_sete_cmd env pos value c =
     (case strtoul pos of (ulval, cp) \<Rightarrow>
        let index = ulval mod 2 ^ 32 in
        if \<not> clean_end cp then (c, - EINVAL)
        else if index > MAX_EPSILON - 1 then (c, - EINVAL)
        else case strtod env value of (epsilon, cp) \<Rightarrow>
          if \<not> clean_end cp then (c, - EINVAL)
          else (c\<lparr>hc_epsilon := (hc_epsilon c)[nat index := epsilon]\<rparr>, 0))"

definition do_ptype_cmd :: "string \<Rightarrow> halcmd \<Rightarrow> halcmd \<times> int" where
  "do_ptype_cmd name c =
     (let s = hc_hal c in
      case halg_find_object_by_name HAL_PARAM (Some name) s of
        Some param \<Rightarrow> (halcmd_output [data_type2 (param_type (param_of s param))] c, 0)
      | None \<Rightarrow>
     (case halg_find_object_by_name HAL_PIN (Some name) s of
        Some pin \<Rightarrow> (halcmd_output [data_type2 (pin_type (pin_of s pin))] c, 0)
      | None \<Rightarrow> (c, - EINVAL)))"

definition do_getp_cmd :: "surroundings \<Rightarrow> string \<Rightarrow> halcmd \<Rightarrow> halcmd \<times> int" where
  "do_getp_cmd env name c =
     (let s = hc_hal c in
      case halg_find_object_by_name HAL_PARAM (Some name) s of
        Some param \<Rightarrow>
          (halcmd_output [data_value2 (fmt_g env) (param_type (param_of s param)) (param_get param c)] c, 0)
      | None \<Rightarrow>
     (case halg_find_object_by_name HAL_PIN (Some name) s of
        Some pin \<Rightarrow>
          (halcmd_output [data_value2 (fmt_g env) (pin_type (pin_of s pin)) (pin_value s pin)] c, 0)
      | None \<Rightarrow> (c, - EINVAL)))"

definition do_sets_cmd :: "surroundings \<Rightarrow> string \<Rightarrow> string \<Rightarrow> hal \<Rightarrow> hal \<times> int" where
  "do_sets_cmd env name value s =
     (case halg_find_object_by_name HAL_SIGNAL (Some name) s of
        None \<Rightarrow> (s, - EINVAL)
      | Some sig \<Rightarrow>
          if sig_writers (sig_of s sig) > 0 then (s, - EINVAL)
          else case set_common (strtod env) (sig_type (sig_of s sig)) (sig_value (sig_of s sig)) value of
            (retval, v) \<Rightarrow> (upd_sig sig (\<lambda>x. x\<lparr>sig_value := v\<rparr>) s, retval))"

definition do_stype_cmd :: "string \<Rightarrow> halcmd \<Rightarrow> halcmd \<times> int" where
  "do_stype_cmd name c =
     (case halg_find_object_by_name HAL_SIGNAL (Some name) (hc_hal c) of
        None \<Rightarrow> (c, - EINVAL)
      | Some sig \<Rightarrow> (halcmd_output [data_type2 (sig_type (sig_of (hc_hal c) sig))] c, 0))"

definition do_gets_cmd :: "surroundings \<Rightarrow> string \<Rightarrow> halcmd \<Rightarrow> halcmd \<times> int" where
  "do_gets_cmd env name c =
     (case halg_find_object_by_name HAL_SIGNAL (Some name) (hc_hal c) of
        None \<Rightarrow> (c, - EINVAL)
      | Some sig \<Rightarrow>
          (let x = sig_of (hc_hal c) sig in
           (halcmd_output [data_value2 (fmt_g env) (sig_type x) (sig_value x)] c, 0)))"

section \<open>Barriers\<close>

text \<open>The callback stops the iteration at the first object of the name.\<close>

definition yield_objects :: "int \<Rightarrow> int \<Rightarrow> nat \<Rightarrow> hal \<Rightarrow> unit \<Rightarrow> hal \<times> unit \<times> int" where
  "yield_objects read_barrier write_barrier a s u =
     (case halg_object_setbarriers a read_barrier write_barrier s of
        (s1, retval) \<Rightarrow> (s1, u, if retval < 0 then retval else 1))"

definition change_barrier :: "string \<Rightarrow> int \<Rightarrow> int \<Rightarrow> hal \<Rightarrow> hal \<times> int" where
  "change_barrier object read_barrier write_barrier s =
     (case halg_foreach (no_args\<lparr>fa_name := Some object\<rparr>) (yield_objects read_barrier write_barrier) s () of
        (s1, _, rc) \<Rightarrow> (s1, rc))"

definition barrier_rc :: "hal \<times> int \<Rightarrow> hal \<times> int" where
  "barrier_rc r = (fst r, if snd r < 0 then snd r else 0)"

definition do_setrmb_cmd :: "string \<Rightarrow> hal \<Rightarrow> hal \<times> int" where
  "do_setrmb_cmd object s = barrier_rc (change_barrier object 1 (-1) s)"
definition do_setwmb_cmd :: "string \<Rightarrow> hal \<Rightarrow> hal \<times> int" where
  "do_setwmb_cmd object s = barrier_rc (change_barrier object (-1) 1 s)"
definition do_clear_rmb_cmd :: "string \<Rightarrow> hal \<Rightarrow> hal \<times> int" where
  "do_clear_rmb_cmd object s = barrier_rc (change_barrier object 0 (-1) s)"
definition do_clear_wmb_cmd :: "string \<Rightarrow> hal \<Rightarrow> hal \<times> int" where
  "do_clear_wmb_cmd object s = barrier_rc (change_barrier object (-1) 0 s)"

section \<open>Options of the form key=value\<close>

definition eq_sign :: char where "eq_sign = CHR ''=''"

text \<open>Two calls of \<open>strtok_r\<close> with the delimiter \<open>=\<close>.\<close>

definition strtok_eq :: "string \<Rightarrow> string option \<times> string" where
  "strtok_eq s =
     (let s1 = dropWhile (\<lambda>c. c = eq_sign) s in
      if s1 = [] then (None, [])
      else (Some (takeWhile (\<lambda>c. c \<noteq> eq_sign) s1), tl (dropWhile (\<lambda>c. c \<noteq> eq_sign) s1 @ [eq_sign])))"

definition key_value :: "string \<Rightarrow> string option \<times> string option" where
  "key_value s = (case strtok_eq s of (None, _) \<Rightarrow> (None, None)
     | (Some s1, rest) \<Rightarrow> (Some s1, fst (strtok_eq rest)))"

text \<open>An integer option: the value, or \<open>None\<close> for the return value \<open>-EINVAL\<close>.\<close>

definition int_opt :: "string \<Rightarrow> int option" where
  "int_opt s = (case strtol s of (v, cp) \<Rightarrow> if clean_end cp then Some (to_s32 v) else None)"

fun newg_opts :: "string list \<Rightarrow> int \<times> int \<Rightarrow> (int \<times> int) option" where
  "newg_opts [] r = Some r"
| "newg_opts (opt # opts) (arg1, arg2) =
     (case key_value opt of
        (None, _) \<Rightarrow> newg_opts opts (arg1, arg2)
      | (Some s1, Some s2) \<Rightarrow>
          if s1 = ''timer''
          then (case int_opt s2 of None \<Rightarrow> None | Some v \<Rightarrow> newg_opts opts (v, arg2))
          else None
      | (Some s1, None) \<Rightarrow>
          if s1 = ''onchange'' then newg_opts opts (arg1, arg2 OR uint GROUP_REPORT_ON_CHANGE)
          else if s1 = ''always'' then newg_opts opts (arg1, arg2 AND NOT (uint GROUP_REPORT_ON_CHANGE))
          else if s1 = ''monitorall'' then newg_opts opts (arg1, arg2 OR uint GROUP_MONITOR_ALL_MEMBERS)
          else if s1 = ''reportchanged''
          then newg_opts opts (arg1, arg2 OR uint GROUP_REPORT_CHANGED_MEMBERS)
          else if s1 = ''reportall''
          then newg_opts opts (arg1, arg2 AND NOT (uint GROUP_REPORT_CHANGED_MEMBERS))
          else (case int_opt s1 of None \<Rightarrow> None | Some v \<Rightarrow> newg_opts opts (arg1, v)))"

section \<open>Groups\<close>

definition do_newg_cmd :: "string \<Rightarrow> string list \<Rightarrow> hal \<Rightarrow> hal \<times> int" where
  "do_newg_cmd grp opt s =
     (case newg_opts opt (0, uint (GROUP_REPORT_ON_CHANGE OR GROUP_REPORT_CHANGED_MEMBERS)) of
        None \<Rightarrow> (s, - EINVAL)
      | Some (arg1, arg2) \<Rightarrow> halg_group_new (Some grp) arg1 arg2 s)"

definition do_delg_cmd :: "string \<Rightarrow> hal \<Rightarrow> hal \<times> int" where
  "do_delg_cmd grp s = halg_group_delete (Some grp) s"

text \<open>\<open>sig_float\<close> says that there is no signal of that name or that it is a float.\<close>

fun newm_opts :: "bool \<Rightarrow> string list \<Rightarrow> int \<times> int \<Rightarrow> (int \<times> int) option" where
  "newm_opts sig_float [] r = Some r"
| "newm_opts sig_float (opt # opts) (arg1, eps_index) =
     (case key_value opt of
        (None, _) \<Rightarrow> newm_opts sig_float opts (arg1, eps_index)
      | (Some s1, Some s2) \<Rightarrow>
          if s1 = ''epsilon''
          then (case strtoul s2 of (v, cp) \<Rightarrow>
                  if \<not> clean_end cp then None
                  else if \<not> sig_float then None
                  else newm_opts sig_float opts (arg1, to_s32 v))
          else None
      | (Some s1, None) \<Rightarrow>
          if s1 = ''nomonitor'' then newm_opts sig_float opts (arg1 AND NOT (uint MEMBER_MONITOR_CHANGE), eps_index)
          else (case int_opt s1 of None \<Rightarrow> None | Some v \<Rightarrow> newm_opts sig_float opts (v, eps_index)))"

definition do_newm_cmd :: "string option \<Rightarrow> string option \<Rightarrow> string list \<Rightarrow> hal \<Rightarrow> hal \<times> int" where
  "do_newm_cmd grp member opt s =
     (let sig = halg_find_object_by_name HAL_SIGNAL member s in
      if sig = None \<and> halg_find_object_by_name HAL_GROUP member s = None then (s, - EINVAL)
      else case newm_opts (case sig of None \<Rightarrow> True | Some a \<Rightarrow> sig_type (sig_of s a) = HAL_FLOAT) opt
                  (uint MEMBER_MONITOR_CHANGE, 0) of
        None \<Rightarrow> (s, - EINVAL)
      | Some (arg1, eps_index) \<Rightarrow>
          halg_member_new grp member arg1 (nat (eps_index mod 256)) s)"

definition do_delm_cmd :: "string \<Rightarrow> string \<Rightarrow> hal \<Rightarrow> hal \<times> int" where
  "do_delm_cmd grp member s = halg_member_delete (Some grp) (Some member) s"

section \<open>Rings\<close>

definition USE_RMUTEX :: u32 where "USE_RMUTEX = 4"
definition USE_WMUTEX :: u32 where "USE_WMUTEX = 8"

definition case_prefix :: "string \<Rightarrow> string \<Rightarrow> bool" where
  "case_prefix prefix s \<longleftrightarrow> strcase_eq prefix (take (length prefix) s)"

definition after_eq :: "string \<Rightarrow> string" where
  "after_eq s = tl (dropWhile (\<lambda>c. c \<noteq> eq_sign) s)"

text \<open>The mode and the scratchpad size, or \<open>None\<close> for \<open>-EINVAL\<close>.\<close>

fun newring_opts :: "string list \<Rightarrow> u32 \<times> int \<Rightarrow> (u32 \<times> int) option" where
  "newring_opts [] r = Some r"
| "newring_opts (opt # opts) (mode, spsize) =
     (if strcase_eq opt ''rmutex'' then newring_opts opts (mode OR USE_RMUTEX, spsize)
      else if strcase_eq opt ''wmutex'' then newring_opts opts (mode OR USE_WMUTEX, spsize)
      else if strcase_eq opt ''halmem'' then newring_opts opts (mode OR ALLOC_HALMEM, spsize)
      else if strcase_eq opt ''record'' then newring_opts opts (mode, spsize)
      else if strcase_eq opt ''stream'' then newring_opts opts (mode OR RINGTYPE_STREAM, spsize)
      else if strcase_eq opt ''multi'' then newring_opts opts (mode OR RINGTYPE_MULTIPART, spsize)
      else if case_prefix ''scratchpad='' opt
      then (case strtol (after_eq opt) of (v, cp) \<Rightarrow>
              let sz = to_s32 v in
              if \<not> clean_end cp then None
              else if sz < 0 \<or> sz > 1048576 then None
              else newring_opts opts (mode, sz))
      else None)"

text \<open>A negative size is compared as an unsigned number and so is too large.\<close>

definition do_newring_cmd :: "string \<Rightarrow> string \<Rightarrow> string list \<Rightarrow> hal \<Rightarrow> hal \<times> int" where
  "do_newring_cmd ring ring_size opt s =
     (case strtol ring_size of (v, r) \<Rightarrow>
        let sz = to_s32 v in
        if \<not> clean_end r then (s, - EINVAL)
        else if sz mod 2 ^ 64 > 50000000 then (s, - EINVAL)
        else case newring_opts opt (0, 0) of
          None \<Rightarrow> (s, - EINVAL)
        | Some (mode, spsize) \<Rightarrow>
            (case halg_ring_newfv (word_of_int sz) (word_of_int spsize) mode (Some ring) s of
               (s1, None) \<Rightarrow> (s1, halerrno s1)
             | (s1, Some rptr) \<Rightarrow> (s1, 0)))"

definition do_delring_cmd :: "string \<Rightarrow> hal \<Rightarrow> hal \<times> int" where
  "do_delring_cmd ring s = halg_ring_deletefv (Some ring) s"

section \<open>Remote components\<close>

definition RCOMP_ACCEPT_VALUES_ON_BIND :: int where "RCOMP_ACCEPT_VALUES_ON_BIND = 1"

fun newcomp_opts :: "string list \<Rightarrow> int \<times> int \<Rightarrow> (int \<times> int) option" where
  "newcomp_opts [] r = Some r"
| "newcomp_opts (opt # opts) (arg1, arg2) =
     (case key_value opt of
        (None, _) \<Rightarrow> newcomp_opts opts (arg1, arg2)
      | (Some s1, Some s2) \<Rightarrow>
          if s1 = ''timer''
          then (case int_opt s2 of None \<Rightarrow> None | Some v \<Rightarrow> newcomp_opts opts (v, arg2))
          else None
      | (Some s1, None) \<Rightarrow>
          if s1 = ''acceptdefaults'' then newcomp_opts opts (arg1, arg2 OR RCOMP_ACCEPT_VALUES_ON_BIND)
          else (case int_opt s1 of None \<Rightarrow> None | Some v \<Rightarrow> newcomp_opts opts (arg1, v)))"

definition do_newcomp_cmd :: "string \<Rightarrow> string list \<Rightarrow> hal \<Rightarrow> hal \<times> int" where
  "do_newcomp_cmd name opt s =
     (case newcomp_opts opt (0, 0) of
        None \<Rightarrow> (s, - EINVAL)
      | Some (arg1, arg2) \<Rightarrow>
          (case hal_xinit TYPE_REMOTE arg1 arg2 0 0 (Some name) s of
             (s1, comp_id) \<Rightarrow> (s1, if comp_id < 1 then - EINVAL else 0)))"

definition do_ready_cmd :: "string option \<Rightarrow> hal \<Rightarrow> hal \<times> int" where
  "do_ready_cmd comp_name s =
     (case halg_find_object_by_name HAL_COMPONENT comp_name s of
        None \<Rightarrow> (s, - ENOENT)
      | Some cmp \<Rightarrow>
          if type_of_comp s cmp \<noteq> TYPE_REMOTE then (s, - ENOSYS)
          else case halg_ready (ho_id s cmp) s of
            (s1, retval) \<Rightarrow> (s1, if retval < 0 then - EINVAL else 0))"

text \<open>
  An unknown pin type is reported and then ignored, so the pin is a bit.
  Direction, epsilon index and flags, or \<open>None\<close> for \<open>-EINVAL\<close>.
\<close>

fun newpin_opts :: "nat \<Rightarrow> string list \<Rightarrow> nat \<times> int \<times> int \<Rightarrow> (nat \<times> int \<times> int) option" where
  "newpin_opts type [] r = Some r"
| "newpin_opts type (opt # opts) (dir, eps_index, flags) =
     (if strcase_eq opt ''in'' then newpin_opts type opts (HAL_IN, eps_index, flags)
      else if strcase_eq opt ''out'' then newpin_opts type opts (HAL_OUT, eps_index, flags)
      else if strcase_eq opt ''inout'' \<or> strcase_eq opt ''io''
      then newpin_opts type opts (HAL_IO, eps_index, flags)
      else if case_prefix ''eps='' opt
      then (if type \<noteq> HAL_FLOAT then None
            else case strtoul (after_eq opt) of (v, cp) \<Rightarrow>
              if clean_end cp then newpin_opts type opts (dir, to_s32 v, flags) else None)
      else if case_prefix ''flags='' opt
      then (case strtoul10 (after_eq opt) of (v, cp) \<Rightarrow>
              if clean_end cp then newpin_opts type opts (dir, eps_index, to_s32 v) else None)
      else None)"

definition do_newpin_cmd :: "string \<Rightarrow> string \<Rightarrow> string \<Rightarrow> string list \<Rightarrow> hal \<Rightarrow> hal \<times> int" where
  "do_newpin_cmd comp_name pin_name type_name args s =
     (case halg_find_object_by_name HAL_COMPONENT (Some comp_name) s of
        None \<Rightarrow> (s, - ENOENT)
      | Some cmp \<Rightarrow>
          if type_of_comp s cmp \<noteq> TYPE_REMOTE then (s, - ENOSYS)
          else if halg_find_object_by_name HAL_PIN (Some pin_name) s \<noteq> None then (s, - ENOENT)
          else
           (let type = (case type_by_name type_name of None \<Rightarrow> HAL_BIT | Some t \<Rightarrow> t)
            in case newpin_opts type args (HAL_IN, 0, 0) of
                 None \<Rightarrow> (s, - EINVAL)
               | Some (dir, eps_index, flags) \<Rightarrow>
                   (case halg_pin_newf type dir None (ho_id s cmp) (Some pin_name) s of
                      (s1, None) \<Rightarrow> (s1, - EINVAL)
                    | (s1, Some pin) \<Rightarrow>
                        (upd_pin pin (\<lambda>p. p\<lparr>pin_eps_index := nat (eps_index mod 256),
                                            pin_flags := flags\<rparr>) s1, 0))))"

section \<open>Modules and instances\<close>

definition module_loaded :: "string \<Rightarrow> hal \<Rightarrow> hal \<times> bool" where
  "module_loaded mod_name s =
     (if \<not> hal_attached s then (halfail EINVAL s, True)
      else (s, halg_find_object_by_name HAL_COMPONENT (Some mod_name) s \<noteq> None))"

definition inst_name_exists :: "string \<Rightarrow> hal \<Rightarrow> bool" where
  "inst_name_exists name s \<longleftrightarrow>
     \<not> hal_attached s \<or> halg_find_object_by_name HAL_INST (Some name) s \<noteq> None"

definition base_name :: "string \<Rightarrow> string" where
  "base_name path = rev (takeWhile (\<lambda>c. c \<noteq> CHR ''/'') (rev path))"

text \<open>
  \<open>loadrt\<close>: the arguments are joined in a buffer of \<open>MAX_CMD_LEN + 1\<close>
  characters, which a longer list overruns.
\<close>

definition join_args :: "string list \<Rightarrow> string" where
  "join_args args = concat (map (\<lambda>a. a @ '' '') args)"

definition loadrt :: "surroundings \<Rightarrow> string \<Rightarrow> string list \<Rightarrow> halcmd \<Rightarrow> halcmd \<times> int" where
  "loadrt env mod_path args c =
     (case rtapi_loadrt env mod_path args (hc_hal c) of
        (s1, retval) \<Rightarrow>
          if retval \<noteq> 0 then (c\<lparr>hc_hal := s1\<rparr>, -1)
          else
           (let arg_string = join_args args;
                s1 = (if length arg_string > MAX_CMD_LEN then s1\<lparr>fault := True\<rparr> else s1)
            in case halg_malloc (length arg_string + 1) s1 of
                 (s2, None) \<Rightarrow> (c\<lparr>hc_hal := s2\<rparr>, -1)
               | (s2, Some cp1) \<Rightarrow>
                   (let c2 = c\<lparr>hc_hal := s2, hc_strings := (hc_strings c)(cp1 := arg_string)\<rparr>
                    in case halg_find_object_by_name HAL_COMPONENT (Some (base_name mod_path)) s2 of
                         None \<Rightarrow> (c2, - EINVAL)
                       | Some cmp \<Rightarrow>
                           (c2\<lparr>hc_hal := upd_comp cmp (\<lambda>x. x\<lparr>comp_insmod_args := cp1\<rparr>) s2\<rparr>, 0))))"

text \<open>The checks before a module is loaded: a return value, or \<open>None\<close> to go on.\<close>

definition load_refused :: "surroundings \<Rightarrow> string \<Rightarrow> hal \<Rightarrow> int option" where
  "load_refused env mod_name s =
     (if snd (hal_get_lock s) AND HAL_LOCK_LOAD \<noteq> 0 then Some (- EPERM)
      else if rtapi_get_tags env mod_name = -1 then Some (-1) else None)"

definition HC_INSTANTIABLE :: int where "HC_INSTANTIABLE = 1"

text \<open>\<open>loadrt_cmd\<close> when called from \<open>newinst\<close>: the module is only loaded.\<close>

definition loadrt_only :: "surroundings \<Rightarrow> string \<Rightarrow> string list \<Rightarrow> halcmd \<Rightarrow> halcmd \<times> int" where
  "loadrt_only env mod_name args c =
     (case load_refused env mod_name (hc_hal c) of
        Some rc \<Rightarrow> (c, rc) | None \<Rightarrow> loadrt env mod_name args c)"

datatype cstatus = CS_NOT_LOADED | CS_NOT_RT | CS_RTLOADED_NOT_INSTANTIABLE | CS_RTLOADED_AND_INSTANTIABLE

text \<open>Before HAL is attached the function returns \<open>-EINVAL\<close>, which the caller treats like the last status.\<close>

definition classify_comp :: "string \<Rightarrow> hal \<Rightarrow> cstatus" where
  "classify_comp name s =
     (if \<not> hal_attached s then CS_RTLOADED_AND_INSTANTIABLE
      else case halg_find_object_by_name HAL_COMPONENT (Some name) s of
        None \<Rightarrow> CS_NOT_LOADED
      | Some c \<Rightarrow>
          if comp_type (the_comp s c) \<noteq> TYPE_RT then CS_NOT_RT
          else if comp_ctor (the_comp s c) = 0 then CS_RTLOADED_NOT_INSTANTIABLE
          else CS_RTLOADED_AND_INSTANTIABLE)"

definition newinst_request :: "surroundings \<Rightarrow> string \<Rightarrow> string \<Rightarrow> string list \<Rightarrow> halcmd \<Rightarrow> halcmd \<times> int" where
  "newinst_request env name inst args c =
     (case load_refused env name (hc_hal c) of
        Some rc \<Rightarrow> (c, rc)
      | None \<Rightarrow> on_hal (rtapi_newinst env name inst args) c)"

text \<open>
  \<open>do_newinst_cmd\<close> calls itself after it has loaded the module; the first
  argument bounds these calls, \<open>None\<close> says that the bound was reached. A
  component that is not loaded, with \<open>autoload\<close> off, is reported and then
  requested all the same.
\<close>

fun do_newinst_cmd ::
  "nat \<Rightarrow> surroundings \<Rightarrow> string \<Rightarrow> string \<Rightarrow> string list \<Rightarrow> halcmd \<Rightarrow> (halcmd \<times> int) option" where
  "do_newinst_cmd 0 env name inst args c = None"
| "do_newinst_cmd (Suc n) env name inst args c =
     (case classify_comp name (hc_hal c) of
        CS_NOT_LOADED \<Rightarrow>
          if hc_autoload c
          then (case loadrt_only env name [] c of
                  (c1, retval) \<Rightarrow>
                    if retval \<noteq> 0 then Some (c1, retval) else do_newinst_cmd n env name inst args c1)
          else Some (newinst_request env name inst args c)
      | CS_NOT_RT \<Rightarrow> Some (c, - EINVAL)
      | CS_RTLOADED_NOT_INSTANTIABLE \<Rightarrow> Some (c, - EINVAL)
      | CS_RTLOADED_AND_INSTANTIABLE \<Rightarrow> Some (newinst_request env name inst args c))"

definition do_delinst_cmd :: "surroundings \<Rightarrow> string \<Rightarrow> hal \<Rightarrow> hal \<times> int" where
  "do_delinst_cmd env inst s =
     (if halg_find_object_by_name HAL_INST (Some inst) s = None then (s, -1)
      else rtapi_delinst env inst s)"

text \<open>The first free instance name from number \<open>w\<close> on, with a bound on the search.\<close>

definition inst_name :: "string \<Rightarrow> nat \<Rightarrow> string" where
  "inst_name mod_name w = mod_name @ ''.'' @ nat_str w"

fun free_inst :: "nat \<Rightarrow> string \<Rightarrow> nat \<Rightarrow> hal \<Rightarrow> nat option" where
  "free_inst 0 mod_name w s = None"
| "free_inst (Suc n) mod_name w s =
     (if inst_name_exists (inst_name mod_name w) s then free_inst n mod_name (w + 1) s else Some w)"

definition free_inst_from :: "string \<Rightarrow> nat \<Rightarrow> hal \<Rightarrow> nat option" where
  "free_inst_from mod_name w s = free_inst (length (halobjects s) + 1) mod_name w s"

definition ensure_loaded :: "surroundings \<Rightarrow> string \<Rightarrow> halcmd \<Rightarrow> halcmd \<times> int" where
  "ensure_loaded env mod_name c =
     (case module_loaded mod_name (hc_hal c) of
        (s1, loaded) \<Rightarrow> if loaded then (c\<lparr>hc_hal := s1\<rparr>, 0) else loadrt env mod_name [] (c\<lparr>hc_hal := s1\<rparr>))"

fun newinst_count ::
  "nat \<Rightarrow> surroundings \<Rightarrow> string \<Rightarrow> nat \<Rightarrow> nat \<Rightarrow> halcmd \<Rightarrow> (halcmd \<times> int) option" where
  "newinst_count fuel env mod_name 0 v c = Some (c, 0)"
| "newinst_count fuel env mod_name (Suc n) v c =
     (case free_inst_from mod_name v (hc_hal c) of
        None \<Rightarrow> None
      | Some v' \<Rightarrow>
          (case do_newinst_cmd fuel env mod_name (inst_name mod_name v') [] c of
             None \<Rightarrow> None
           | Some (c1, retval) \<Rightarrow>
               if retval \<noteq> 0 then Some (c1, retval)
               else newinst_count fuel env mod_name n (v' + 1) c1))"

fun newinst_names ::
  "nat \<Rightarrow> surroundings \<Rightarrow> string \<Rightarrow> string list \<Rightarrow> halcmd \<Rightarrow> (halcmd \<times> int) option" where
  "newinst_names fuel env mod_name [] c = Some (c, 0)"
| "newinst_names fuel env mod_name (i # is) c =
     (if inst_name_exists i (hc_hal c) then Some (c, -1)
      else case do_newinst_cmd fuel env mod_name i [] c of
        None \<Rightarrow> None
      | Some (c1, retval) \<Rightarrow>
          if retval \<noteq> 0 then Some (c1, retval) else newinst_names fuel env mod_name is c1)"

text \<open>The pieces that repeated \<open>strtok\<close> calls with a comma give.\<close>

fun split_comma :: "string \<Rightarrow> string \<Rightarrow> string list" where
  "split_comma cur [] = (if cur = [] then [] else [cur])"
| "split_comma cur (c # cs) =
     (if c = CHR '','' then (if cur = [] then split_comma [] cs else cur # split_comma [] cs)
      else split_comma (cur @ [c]) cs)"

definition MAX_ARGS :: nat where "MAX_ARGS = 20"

text \<open>
  \<open>do_loadrt_cmd\<close>, that is \<open>loadrt_cmd\<close> with instances. A first argument longer
  than its buffer, and more than \<open>MAX_ARGS\<close> names, overrun arrays on the stack.
\<close>

definition do_loadrt_cmd ::
  "nat \<Rightarrow> surroundings \<Rightarrow> string \<Rightarrow> string list \<Rightarrow> halcmd \<Rightarrow> (halcmd \<times> int) option" where
  "do_loadrt_cmd fuel env mod_name args c =
     (case load_refused env mod_name (hc_hal c) of
        Some rc \<Rightarrow> Some (c, rc)
      | None \<Rightarrow>
          if rtapi_get_tags env mod_name AND HC_INSTANTIABLE \<noteq> HC_INSTANTIABLE
          then Some (loadrt env mod_name args c)
          else case args of
            [] \<Rightarrow>
              (case ensure_loaded env mod_name c of
                 (c1, retval) \<Rightarrow>
                   if retval \<noteq> 0 then Some (c1, retval)
                   else case free_inst_from mod_name 0 (hc_hal c1) of
                     None \<Rightarrow> None
                   | Some w \<Rightarrow> do_newinst_cmd fuel env mod_name (inst_name mod_name w) [] c1)
          | arg # _ \<Rightarrow>
              if length arg > MAX_CMD_LEN then Some (c\<lparr>hc_hal := (hc_hal c)\<lparr>fault := True\<rparr>\<rparr>, -1)
              else if take 6 arg = ''count='' then
                (let n = to_s32 (case scan_digits (Some 10) (drop 6 arg) of (neg, m, _) \<Rightarrow>
                                   max (- (2 ^ 63)) (min (2 ^ 63 - 1) (if neg then - int m else int m)))
                 in if n > 0
                    then (case ensure_loaded env mod_name c of
                            (c1, retval) \<Rightarrow>
                              if retval \<noteq> 0 then Some (c1, retval)
                              else newinst_count fuel env mod_name (nat n) 0 c1)
                    else Some (c, -1))
              else if take 6 arg = ''names='' then
                (let names = split_comma [] (drop 6 arg)
                 in if length names > MAX_ARGS
                    then Some (c\<lparr>hc_hal := (hc_hal c)\<lparr>fault := True\<rparr>\<rparr>, -1)
                    else if names = [] then Some (c, 0)
                    else case ensure_loaded env mod_name c of
                      (c1, retval) \<Rightarrow>
                        if retval \<noteq> 0 then Some (c1, retval)
                        else newinst_names fuel env mod_name names c1)
              else Some (c, -1))"

definition do_callfunc_cmd :: "surroundings \<Rightarrow> string \<Rightarrow> string list \<Rightarrow> hal \<Rightarrow> hal \<times> int" where
  "do_callfunc_cmd env func args s =
     (case rtapi_callfunc env func args s of (s1, retval) \<Rightarrow> (s1, if retval < 0 then retval else 0))"

definition do_autoload_cmd :: "string option \<Rightarrow> halcmd \<Rightarrow> halcmd \<times> int" where
  "do_autoload_cmd what c =
     (if what = None
      then (halcmd_output [''component autoload on '' @ [CHR 0x27] @ ''newinst'' @ [CHR 0x27] @ '' is '' @
                     (if hc_autoload c then ''ON'' else ''OFF'')] c, 0)
      else if yesno what < 0 then (c, - EINVAL)
      else (c\<lparr>hc_autoload := (yesno what \<noteq> 0)\<rparr>, 0))"

section \<open>Realtime threads\<close>

definition TF_NONRT :: int where "TF_NONRT = 1"
definition TF_NOWAIT :: int where "TF_NOWAIT = 2"
definition RTAPI_LINELEN :: nat where "RTAPI_LINELEN = 255"

record thread_opts =
  to_fp :: bool
  to_cpu :: int
  to_cgname :: string
  to_per :: int
  to_flags :: int
  to_overrun :: bool

text \<open>The conversions \<open>sscanf (s, "cpu=%d")\<close> and \<open>sscanf (s, "cgname=%s")\<close>.\<close>

definition scan_cpu :: "string \<Rightarrow> int option" where
  "scan_cpu s =
     (if take 4 s \<noteq> ''cpu='' then None
      else case scan_digits (Some 10) (drop 4 s) of (neg, m, rest) \<Rightarrow>
        if rest = drop 4 s then None else Some (to_s32 (if neg then - int m else int m)))"

definition scan_cgname :: "string \<Rightarrow> string option" where
  "scan_cgname s =
     (if take 7 s \<noteq> ''cgname='' then None
      else let w = takeWhile (\<lambda>c. \<not> isspace c) (dropWhile isspace (drop 7 s))
           in if w = [] then None else Some w)"

text \<open>A period that is not a number is reported and then used as scanned.\<close>

fun newthread_opts :: "string list \<Rightarrow> thread_opts \<Rightarrow> thread_opts" where
  "newthread_opts [] r = r"
| "newthread_opts (opt # opts) r =
     newthread_opts opts
       (case scan_cpu opt of
          Some v \<Rightarrow> r\<lparr>to_cpu := v\<rparr>
        | None \<Rightarrow>
            if opt = ''fp'' then r\<lparr>to_fp := True\<rparr>
            else if opt = ''nofp'' then r\<lparr>to_fp := False\<rparr>
            else if opt = ''posix'' then r\<lparr>to_flags := to_flags r OR TF_NONRT\<rparr>
            else if opt = ''nowait'' then r\<lparr>to_flags := to_flags r OR TF_NOWAIT\<rparr>
            else case scan_cgname opt of
              Some w \<Rightarrow> r\<lparr>to_cgname := w, to_overrun := to_overrun r \<or> length w \<ge> RTAPI_LINELEN\<rparr>
            | None \<Rightarrow> r\<lparr>to_per := to_s32 (fst (strtol opt))\<rparr>)"

definition do_newthread_cmd :: "surroundings \<Rightarrow> string \<Rightarrow> string list \<Rightarrow> hal \<Rightarrow> hal \<times> int" where
  "do_newthread_cmd env name args s =
     (let r = newthread_opts args \<lparr>to_fp = False, to_cpu = -1, to_cgname = [], to_per = 1000000,
                                   to_flags = 0, to_overrun = False\<rparr>;
          s1 = (if to_overrun r then s\<lparr>fault := True\<rparr> else s)
      in rtapi_newthread env name (to_per r) (to_cpu r) (to_cgname r) (of_bool (to_fp r)) (to_flags r) s1)"

definition do_delthread_cmd :: "surroundings \<Rightarrow> string \<Rightarrow> hal \<Rightarrow> hal \<times> int" where
  "do_delthread_cmd env name s = rtapi_delthread env name s"

section \<open>Unloading\<close>

text \<open>\<open>unload_usr_cb\<close> of halcmd spares the component of halcmd itself.\<close>

definition halcmd_unload_usr_cb :: "dtor_code \<Rightarrow> int \<Rightarrow> nat \<Rightarrow> hal \<Rightarrow> int list \<Rightarrow> hal \<times> int list \<times> int" where
  "halcmd_unload_usr_cb dtor self cmp s killed =
     (let x = the_comp s cmp in
      if comp_type x = TYPE_REMOTE \<and> comp_pid x = 0
      then (fst (halg_exit dtor (ho_id s cmp) s), killed, 0)
      else if (comp_type x = TYPE_REMOTE \<and> comp_pid x \<noteq> 0) \<or> (comp_type x = TYPE_USER \<and> comp_pid x \<noteq> self)
      then (s, killed @ [\<bar>comp_pid x\<bar>], 0)
      else (s, killed, 0))"

definition all_or_name :: "string \<Rightarrow> string option" where
  "all_or_name name = (if name = ''all'' then None else Some name)"

definition do_unloadusr_cmd :: "surroundings \<Rightarrow> string \<Rightarrow> halcmd \<Rightarrow> halcmd \<times> int" where
  "do_unloadusr_cmd env name c =
     (case halg_foreach (no_args\<lparr>fa_type := HAL_COMPONENT, fa_name := all_or_name name\<rparr>)
             (halcmd_unload_usr_cb (inst_dtor env) (hal_pid (hc_hal c))) (hc_hal c) [] of
        (s1, killed, _) \<Rightarrow> (c\<lparr>hc_hal := s1, hc_killed := hc_killed c @ killed\<rparr>, 0))"

text \<open>The user state is the return value that the callback passes back.\<close>

definition unload_rt_cb :: "surroundings \<Rightarrow> bool \<Rightarrow> nat \<Rightarrow> hal \<Rightarrow> int \<Rightarrow> hal \<times> int \<times> int" where
  "unload_rt_cb env skip cmp s u =
     (if comp_type (the_comp s cmp) \<noteq> TYPE_RT then (s, u, 0)
      else if skip \<and> halg_count_exported_vtables (ho_id s cmp) s \<noteq> 0 then (s, u, 0)
      else case rtapi_unloadrt env (ho_name s cmp) s of
        (s1, retval) \<Rightarrow> (s1, retval, if retval < -1 then retval else 0))"

definition do_unloadrt_cmd :: "surroundings \<Rightarrow> string \<Rightarrow> hal \<Rightarrow> hal \<times> int" where
  "do_unloadrt_cmd env name s =
     (let args = no_args\<lparr>fa_type := HAL_COMPONENT, fa_name := all_or_name name\<rparr> in
      case halg_foreach args (unload_rt_cb env True) s 0 of
        (s1, u1, ret) \<Rightarrow>
          if ret < 0 then (s1, u1)
          else case halg_foreach args (unload_rt_cb env False) s1 u1 of
            (s2, u2, ret) \<Rightarrow> (s2, if ret < 0 then u2 else 0))"

definition do_unload_cmd :: "surroundings \<Rightarrow> string \<Rightarrow> halcmd \<Rightarrow> halcmd \<times> int" where
  "do_unload_cmd env mod_name c =
     (if mod_name = ''all''
      then (case do_unloadusr_cmd env mod_name c of
              (c1, res) \<Rightarrow> if res \<noteq> 0 then (c1, res) else on_hal (do_unloadrt_cmd env mod_name) c1)
      else case halg_find_object_by_name HAL_COMPONENT (Some mod_name) (hc_hal c) of
        None \<Rightarrow> (c, -1)
      | Some cmp \<Rightarrow>
          (let t = comp_type (the_comp (hc_hal c) cmp)
           in if t = TYPE_RT then on_hal (do_unloadrt_cmd env mod_name) c
              else if t = TYPE_USER \<or> t = TYPE_REMOTE then do_unloadusr_cmd env mod_name c
              else (c, -1)))"

text \<open>Tracing, which a flag switches on for the time of the sweep, only prints.\<close>

definition do_sweep_cmd :: "halcmd \<Rightarrow> halcmd \<times> int" where
  "do_sweep_cmd c =
     (case hal_sweep (hc_hal c) of
        (s1, retval) \<Rightarrow>
          (let c1 = c\<lparr>hc_hal := s1\<rparr>
           in (if retval \<noteq> 0 then halcmd_output [int_str retval @ '' objects freed''] c1 else c1, 0)))"

section \<open>Saving\<close>

text \<open>The lines of a file; each function gives the lines it writes.\<close>

definition save_comp_line :: "(nat \<Rightarrow> string) \<Rightarrow> nat \<Rightarrow> hal \<Rightarrow> string list \<Rightarrow> hal \<times> string list \<times> int" where
  "save_comp_line strings cmp s ls =
     (s, if comp_type (the_comp s cmp) \<noteq> TYPE_RT then ls
         else if comp_insmod_args (the_comp s cmp) = 0
         then ls @ [''#loadrt '' @ ho_name s cmp @ ''  (not loaded by loadrt, no args saved)'']
         else ls @ [''loadrt '' @ ho_name s cmp @ '' '' @ strings (comp_insmod_args (the_comp s cmp))], 0)"

definition save_sig_line :: "bool \<Rightarrow> nat \<Rightarrow> hal \<Rightarrow> string list \<Rightarrow> hal \<times> string list \<times> int" where
  "save_sig_line only_unlinked sig s ls =
     (s, if only_unlinked \<and> (sig_readers (sig_of s sig) \<noteq> 0 \<or> sig_writers (sig_of s sig) \<noteq> 0) then ls
         else ls @ [''newsig '' @ ho_name s sig @ '' '' @ data_type (sig_type (sig_of s sig))], 0)"

definition save_fill_pin_array :: "nat \<Rightarrow> nat \<Rightarrow> hal \<Rightarrow> string list \<Rightarrow> hal \<times> string list \<times> int" where
  "save_fill_pin_array pin sig s ls =
     (let dir = pin_dir (pin_of s pin);
          line = (\<lambda>arrow. ''net '' @ ho_name s sig @ arrow @ ho_name s pin)
      in (s, if dir = HAL_IN then ls @ [line '' => '']
             else if dir = HAL_OUT then ls @ [line '' <= '']
             else if dir = HAL_IO then ls @ [line '' <=> ''] else ls, 0))"

definition save_net_line :: "nat \<Rightarrow> hal \<Rightarrow> string list \<Rightarrow> hal \<times> string list \<times> int" where
  "save_net_line sig s ls =
     (case halg_foreach_pin_by_signal sig (Some save_fill_pin_array) s ls of (s1, ls1, _) \<Rightarrow> (s1, ls1, 0))"

definition save_param_line :: "surroundings \<Rightarrow> halcmd \<Rightarrow> nat \<Rightarrow> hal \<Rightarrow> string list \<Rightarrow> hal \<times> string list \<times> int" where
  "save_param_line env c param s ls =
     (s, if param_dir (param_of s param) \<noteq> HAL_RO
         then ls @ [''setp '' @ ho_name s param @ '' '' @
                    data_value (fmt_g env) (param_type (param_of s param)) (param_get param c)]
         else ls, 0)"

definition save_thread_line :: "nat \<Rightarrow> hal \<Rightarrow> string list \<Rightarrow> hal \<times> string list \<times> int" where
  "save_thread_line th s ls =
     (s, ls @ map (\<lambda>e. ''addf '' @ ho_name s (fe_funct_ptr (entry_of s e)) @ '' '' @ ho_name s th)
                (thr_funct_list (thread_of s th)), 0)"

definition saved ::
  "nat \<Rightarrow> (nat \<Rightarrow> hal \<Rightarrow> string list \<Rightarrow> hal \<times> string list \<times> int) \<Rightarrow> hal \<Rightarrow> string list" where
  "saved type line s = fst (snd (halg_foreach (no_args\<lparr>fa_type := type\<rparr>) line s []))"

definition save_comps :: "halcmd \<Rightarrow> string list" where
  "save_comps c = ''# components'' # saved HAL_COMPONENT (save_comp_line (hc_strings c)) (hc_hal c) @ [[]]"
definition save_signals :: "bool \<Rightarrow> halcmd \<Rightarrow> string list" where
  "save_signals only_unlinked c =
     ''# signals'' # saved HAL_SIGNAL (save_sig_line only_unlinked) (hc_hal c) @ [[]]"
definition save_nets :: "halcmd \<Rightarrow> string list" where
  "save_nets c = ''# nets'' # saved HAL_SIGNAL save_net_line (hc_hal c) @ [[]]"
definition save_params :: "surroundings \<Rightarrow> halcmd \<Rightarrow> string list" where
  "save_params env c = ''# parameter values'' # saved HAL_PARAM (save_param_line env c) (hc_hal c) @ [[]]"
definition save_threads :: "halcmd \<Rightarrow> string list" where
  "save_threads c =
     ''# realtime thread/function links'' # saved HAL_THREAD save_thread_line (hc_hal c) @ [[]]"

text \<open>The lines for a type of \<open>save\<close>; \<open>None\<close> for an unknown type. \<open>link\<close> and \<open>linka\<close> only report.\<close>

definition save_lines :: "surroundings \<Rightarrow> string \<Rightarrow> halcmd \<Rightarrow> string list option" where
  "save_lines env type c =
     (if type = ''all''
      then Some (save_comps c @ save_signals True c @ save_nets c @ save_params env c @ save_threads c)
      else if type = ''comp'' then Some (save_comps c)
      else if type = ''sig'' \<or> type = ''signal'' then Some (save_signals False c)
      else if type = ''sigu'' then Some (save_signals True c)
      else if type = ''link'' \<or> type = ''linka'' then Some []
      else if type = ''net'' \<or> type = ''neta'' \<or> type = ''netl'' \<or> type = ''netla'' \<or> type = ''netal''
      then Some (save_nets c)
      else if type = ''param'' \<or> type = ''parameter'' then Some (save_params env c)
      else if type = ''thread'' then Some (save_threads c)
      else None)"

definition file_text :: "string list \<Rightarrow> string" where
  "file_text ls = concat (map (\<lambda>l. l @ [newline]) ls)"

definition do_save_cmd :: "surroundings \<Rightarrow> string option \<Rightarrow> string option \<Rightarrow> halcmd \<Rightarrow> halcmd \<times> int" where
  "do_save_cmd env type filename c =
     (if msg_none env then (c, 0)
      else
       (let to_file = (filename \<noteq> None \<and> filename \<noteq> Some []);
            type = (if type = None \<or> type = Some [] then ''all'' else the type)
        in if to_file \<and> \<not> may_write env (the filename) then (c, -1)
           else
            (let lines = save_lines env type c;
                 out = (case lines of None \<Rightarrow> [] | Some ls \<Rightarrow> ls);
                 c1 = (if to_file then c\<lparr>hc_files := (hc_files c)(the filename \<mapsto> file_text out)\<rparr>
                       else halcmd_output out c)
             in (c1, if lines = None then -1 else 0))))"

end
