(* ===== verification/Halcmd.thy ===== *)
theory Halcmd
  imports Halcmd_Commands
begin

text \<open>
  halcmd as a whole: the dispatcher of \<open>halcmd.c\<close> on the handlers of
  \<open>halcmd_commands.c\<close>, a line, and a file of lines (\<open>source\<close>). The result is
  \<open>None\<close> when the model has no value for the C program's behaviour: the line
  reader has left its buffer, or files source each other, or \<open>newinst\<close> loads
  modules, deeper than the given bound.
\<close>

section \<open>Dispatch\<close>

definition run_source :: "(string \<Rightarrow> halcmd \<Rightarrow> (halcmd \<times> int) option) \<Rightarrow> nat \<Rightarrow> surroundings \<Rightarrow>
    string \<Rightarrow> string option list \<Rightarrow> string list \<Rightarrow> halcmd \<Rightarrow> (halcmd \<times> int) option" where
  "run_source source fuel env name args rest c =
     (case args of
        [Some x] \<Rightarrow>
          if name = ''source'' then source x c
          else if name = ''loadrt'' then do_loadrt_cmd fuel env x rest c
          else other_cmd env name args rest c
      | [Some x, Some y] \<Rightarrow>
          if name = ''newinst'' then do_newinst_cmd fuel env x y rest c
          else other_cmd env name args rest c
      | _ \<Rightarrow> other_cmd env name args rest c)"

text \<open>Commands on the HAL state alone, and commands that print or use files.\<close>

definition hal_command ::
  "surroundings \<Rightarrow> string \<Rightarrow> string option list \<Rightarrow> string list \<Rightarrow> (hal \<Rightarrow> hal \<times> int) option" where
  "hal_command env name args rest =
     (case args of
        [] \<Rightarrow>
          if name = ''start'' then Some do_start_cmd
          else if name = ''stop'' then Some do_stop_cmd
          else if name = ''setexact_for_test_suite_only'' then Some do_setexact_cmd
          else None
      | [a] \<Rightarrow>
          if name = ''lock'' then Some (do_lock_cmd a)
          else if name = ''unlock'' then Some (do_unlock_cmd a)
          else if name = ''ready'' then Some (do_ready_cmd a)
          else (case a of
            None \<Rightarrow> None
          | Some x \<Rightarrow>
              if name = ''net'' then Some (do_net_cmd x rest)
              else if name = ''unlinkp'' then Some (do_unlinkp_cmd x)
              else if name = ''delsig'' then Some (do_delsig_cmd x)
              else if name = ''setrmb'' then Some (do_setrmb_cmd x)
              else if name = ''setwmb'' then Some (do_setwmb_cmd x)
              else if name = ''clearrmb'' then Some (do_clear_rmb_cmd x)
              else if name = ''clearwmb'' then Some (do_clear_wmb_cmd x)
              else if name = ''newg'' then Some (do_newg_cmd x rest)
              else if name = ''delg'' then Some (do_delg_cmd x)
              else if name = ''delring'' then Some (do_delring_cmd x)
              else if name = ''newcomp'' then Some (do_newcomp_cmd x rest)
              else if name = ''unloadrt'' then Some (do_unloadrt_cmd env x)
              else if name = ''delinst'' then Some (do_delinst_cmd env x)
              else if name = ''newthread'' then Some (do_newthread_cmd env x rest)
              else if name = ''delthread'' then Some (do_delthread_cmd env x)
              else if name = ''call'' then Some (do_callfunc_cmd env x rest)
              else None)
      | [a, b] \<Rightarrow>
          if name = ''delf'' then Some (do_delf_cmd a b)
          else if name = ''newm'' then Some (do_newm_cmd a b rest)
          else (case (a, b) of
            (Some x, Some y) \<Rightarrow>
              if name = ''linkpp'' then Some (do_linkpp_cmd x y)
              else if name = ''linkps'' then Some (do_linkps_cmd x y)
              else if name = ''linksp'' then Some (do_linksp_cmd x y)
              else if name = ''newsig'' then Some (do_newsig_cmd x y)
              else if name = ''sets'' then Some (do_sets_cmd env x y)
              else if name = ''addf'' then Some (do_addf_cmd x y rest)
              else if name = ''delm'' then Some (do_delm_cmd x y)
              else if name = ''newring'' then Some (do_newring_cmd x y rest)
              else None
          | _ \<Rightarrow> None)
      | [Some x, Some y, Some z] \<Rightarrow>
          if name = ''newpin'' then Some (do_newpin_cmd x y z rest) else None
      | _ \<Rightarrow> None)"

definition print_command ::
  "surroundings \<Rightarrow> string \<Rightarrow> string option list \<Rightarrow> (halcmd \<Rightarrow> halcmd \<times> int) option" where
  "print_command env name args =
     (case args of
        [] \<Rightarrow>
          if name = ''echo'' then Some (\<lambda>c. (halcmd_output [''Echo on''] (c\<lparr>hc_echo := True\<rparr>), 0))
          else if name = ''unecho'' then Some (\<lambda>c. (halcmd_output [''Echo off''] (c\<lparr>hc_echo := False\<rparr>), 0))
          else None
      | [a] \<Rightarrow>
          if name = ''autoload'' then Some (do_autoload_cmd a)
          else if name = ''sweep'' then Some do_sweep_cmd
          else (case a of
            None \<Rightarrow> None
          | Some x \<Rightarrow>
              if name = ''getp'' then Some (do_getp_cmd env x)
              else if name = ''gets'' then Some (do_gets_cmd env x)
              else if name = ''ptype'' then Some (do_ptype_cmd x)
              else if name = ''stype'' then Some (do_stype_cmd x)
              else if name = ''unload'' then Some (do_unload_cmd env x)
              else if name = ''unloadusr'' then Some (do_unloadusr_cmd env x)
              else None)
      | [a, b] \<Rightarrow>
          if name = ''save'' then Some (do_save_cmd env a b)
          else (case (a, b) of
            (Some x, Some y) \<Rightarrow>
              if name = ''setp'' then Some (do_setp_cmd env x y)
              else if name = ''sete'' then Some (do_sete_cmd env x y)
              else None
          | _ \<Rightarrow> None)
      | _ \<Rightarrow> None)"

text \<open>\<open>halcmd_parse_cmd\<close>: the call that \<open>parse_cmd1\<close> makes for the tokens.\<close>

definition halcmd_parse_cmd :: "(string \<Rightarrow> halcmd \<Rightarrow> (halcmd \<times> int) option) \<Rightarrow> nat \<Rightarrow> surroundings \<Rightarrow>
    string list \<Rightarrow> halcmd \<Rightarrow> (halcmd \<times> int) option" where
  "halcmd_parse_cmd source fuel env tokens c =
     (case parse_cmd1 (sr_tilde env) tokens of
        No_command \<Rightarrow> Some (c, 0)
      | Einval \<Rightarrow> Some (c, - EINVAL)
      | Setp x y \<Rightarrow> Some (do_setp_cmd env x y c)
      | Invoke name args rest \<Rightarrow>
          (case hal_command env name args rest of
             Some f \<Rightarrow> Some (on_hal f c)
           | None \<Rightarrow>
               (case print_command env name args of
                  Some f \<Rightarrow> Some (f c)
                | None \<Rightarrow> run_source source fuel env name args rest c)))"

section \<open>Lines and files\<close>

definition run_line :: "(string \<Rightarrow> halcmd \<Rightarrow> (halcmd \<times> int) option) \<Rightarrow> nat \<Rightarrow> surroundings \<Rightarrow>
    string \<Rightarrow> halcmd \<Rightarrow> (halcmd \<times> int) option" where
  "run_line source fuel env line c =
     (case halcmd_preprocess_line (sr_getenv env) (sr_iniFind env) line of
        Inl e \<Rightarrow> map_option (\<lambda>rc. (c, rc)) (line_rc e)
      | Inr tokens \<Rightarrow> halcmd_parse_cmd source fuel env tokens c)"

text \<open>\<open>fgets\<close>: up to \<open>n - 1\<close> characters, to the end of a line at most.\<close>

fun fgets :: "nat \<Rightarrow> string \<Rightarrow> string \<times> string" where
  "fgets 0 s = ([], s)"
| "fgets (Suc 0) s = ([], s)"
| "fgets (Suc (Suc n)) [] = ([], [])"
| "fgets (Suc (Suc n)) (c # cs) =
     (if c = newline then ([c], cs) else case fgets (Suc n) cs of (l, r) \<Rightarrow> (c # l, r))"

lemma fgets_le: "length (snd (fgets n s)) \<le> length s"
  by (induction n s rule: fgets.induct) (auto split: prod.splits)

text \<open>The buffers that successive calls fill.\<close>

function file_lines :: "nat \<Rightarrow> string \<Rightarrow> string list" where
  "file_lines n s = (if s = [] \<or> n < 2 then [] else fst (fgets n s) # file_lines n (snd (fgets n s)))"
  by pat_completeness auto

termination file_lines
proof (relation "measure (\<lambda>(n, s). length s)", goal_cases)
  case (2 n s)
  then obtain k c cs where [simp]: "n = Suc (Suc k)" "s = c # cs"
    by (cases s; cases n; cases "n - 1") auto
  show ?case using fgets_le [of "Suc k" cs] by (auto split: prod.splits)
qed simp

fun run_lines :: "(string \<Rightarrow> halcmd \<Rightarrow> (halcmd \<times> int) option) \<Rightarrow> string list \<Rightarrow> halcmd \<Rightarrow> (halcmd \<times> int) option" where
  "run_lines run [] c = Some (c, 0)"
| "run_lines run (l # ls) c =
     (case run l c of
        None \<Rightarrow> None
      | Some (c1, result) \<Rightarrow> if result \<noteq> 0 then Some (c1, result) else run_lines run ls c1)"

fun do_source_cmd :: "nat \<Rightarrow> surroundings \<Rightarrow> string \<Rightarrow> halcmd \<Rightarrow> (halcmd \<times> int) option" where
  "do_source_cmd 0 env hal_filename c = None"
| "do_source_cmd (Suc n) env hal_filename c =
     (case hc_files c hal_filename of
        None \<Rightarrow> Some (c, - EINVAL)
      | Some text \<Rightarrow>
          run_lines (run_line (do_source_cmd n env) n env) (file_lines MAX_CMD_LEN text) c)"

definition halcmd_parse_line :: "nat \<Rightarrow> surroundings \<Rightarrow> string \<Rightarrow> halcmd \<Rightarrow> (halcmd \<times> int) option" where
  "halcmd_parse_line fuel env line c = run_line (do_source_cmd fuel env) fuel env line c"

end
