(* ===== verification/Halcmd_Net.thy ===== *)
theory Halcmd_Net
  imports Halcmd_Commands Hal_Network
begin

text \<open>
  The commands of halcmd on the network of pins and signals: what linking
  leaves unchanged, the equivalence of \<open>net\<close>'s preflight check with the success
  of all its links, and the commands as sequences of steps of the network.
\<close>

section \<open>What linking leaves unchanged\<close>

text \<open>The same objects with the same names, types and directions, and the same locks.\<close>

definition net_frame :: "hal \<Rightarrow> hal \<Rightarrow> bool" where
  "net_frame s s' \<longleftrightarrow> hal_attached s' = hal_attached s \<and> hal_lock s' = hal_lock s \<and>
     halobjects s' = halobjects s \<and> ho_name s' = ho_name s \<and> ho_valid s' = ho_valid s \<and>
     ho_object_type s' = ho_object_type s \<and>
     (\<forall>a. map_option (\<lambda>p. (pin_type p, pin_dir p)) (pin_at s' a) =
          map_option (\<lambda>p. (pin_type p, pin_dir p)) (pin_at s a)) \<and>
     (\<forall>a. map_option sig_type (sig_at s' a) = map_option sig_type (sig_at s a))"

lemma net_frame_refl [simp]: "net_frame s s"
  by (simp add: net_frame_def)

lemma net_frame_trans: "net_frame s t \<Longrightarrow> net_frame t u \<Longrightarrow> net_frame s u"
  by (simp add: net_frame_def)

lemma net_frame_sym: "net_frame s t \<Longrightarrow> net_frame t s"
  by (simp add: net_frame_def)

lemma net_frame_upd_pin:
  assumes "\<And>p. pin_type (f p) = pin_type p" "\<And>p. pin_dir (f p) = pin_dir p"
  shows "net_frame s (upd_pin a f s)"
proof -
  have "ho_valid (upd_pin a f s) = ho_valid s" "ho_object_type (upd_pin a f s) = ho_object_type s"
    "ho_name (upd_pin a f s) = ho_name s"
    unfolding upd_pin_def by (rule ho_upd_obj_hdr; simp add: upd_pin_body)+
  then show ?thesis
    by (simp add: net_frame_def link_simps option.map_comp comp_def assms)
      (simp add: upd_pin_def upd_obj_def)
qed

lemma net_frame_upd_sig:
  assumes "\<And>x. sig_type (f x) = sig_type x"
  shows "net_frame s (upd_sig a f s)"
proof -
  have "ho_valid (upd_sig a f s) = ho_valid s" "ho_object_type (upd_sig a f s) = ho_object_type s"
    "ho_name (upd_sig a f s) = ho_name s"
    unfolding upd_sig_def by (rule ho_upd_obj_hdr; simp add: upd_sig_body)+
  then show ?thesis
    by (simp add: net_frame_def link_simps option.map_comp comp_def assms)
      (simp add: upd_sig_def upd_obj_def)
qed

lemma net_frame_objs:
  assumes "objs s' = objs s" "halobjects s' = halobjects s" "hal_attached s' = hal_attached s"
    "hal_lock s' = hal_lock s"
  shows "net_frame s s'"
  using assms objs_only_at [OF assms(1,2)] by (simp add: net_frame_def ho_name_def fun_eq_iff)

lemma net_frame_upd_hdr:
  assumes "\<And>hh. hh_valid (f hh) = hh_valid hh" "\<And>hh. hh_object_type (f hh) = hh_object_type hh"
    "\<And>hh. hh_get_name (f hh) = hh_get_name hh"
  shows "net_frame s (upd_hdr a f s)"
proof -
  have "pin_at (upd_hdr a f s) = pin_at s" "sig_at (upd_hdr a f s) = sig_at s"
    by (rule ext, simp add: upd_hdr_def upd_obj_at at_bind [of s a])+
  moreover have "ho_valid (upd_hdr a f s) = ho_valid s" "ho_object_type (upd_hdr a f s) = ho_object_type s"
    "ho_name (upd_hdr a f s) = ho_name s"
    by (rule ext, simp add: ho_valid_def ho_object_type_def ho_name_def upd_hdr_def frame_simps assms
        split: option.splits)+
  ultimately show ?thesis
    by (simp add: net_frame_def) (simp add: upd_hdr_def upd_obj_def)
qed

lemma net_frame_propagate: "net_frame s (fst (halg_signal_propagate_barriers sig s))"
proof -
  have r: "net_frame s (upd_hdr a (hh_set_rmb b) s)" "net_frame s (upd_hdr a (hh_set_wmb b) s)" for s a b
    by (rule net_frame_upd_hdr; simp add: hh_set_rmb_def hh_set_wmb_def hh_get_name_def)+
  have cb: "net_frame s (fst (propagate_barriers_cb pin sig s u))" for pin s u
    unfolding propagate_barriers_cb_def Let_def
    using r r(1) [THEN net_frame_trans, OF r(2)] by (simp split del: if_split) (simp add: r)
  have "net_frame s (fst (halg_foreach args (pin_by_signal_callback sig (Some propagate_barriers_cb)) s ()))" for args
    unfolding halg_foreach_def
  proof (rule foreach_loop_rel [where R = net_frame])
    show "net_frame s s" for s by simp
    show "net_frame s u" if "net_frame s t" "net_frame t u" for s t u using that by (rule net_frame_trans)
    show "net_frame s (fst (pin_by_signal_callback sig (Some propagate_barriers_cb) a s u))" for a s u
      by (simp add: pin_by_signal_callback_def cb)
  qed
  then show ?thesis
    by (simp add: halg_signal_propagate_barriers_def halfail_rc_def net_frame_objs halfail_def)
qed

lemma net_frame_link: "net_frame s (fst (halg_link pn sn s))"
proof -
  have cell: "net_frame s (link_legacy_cell pin sig s)" for pin sig s
    by (rule net_frame_objs)
      (simp_all add: link_legacy_cell_def set_cell_def hal_assert_def Let_def split: option.splits)
  have f: "net_frame s (halfail e s)" for e s by (rule net_frame_objs) (simp_all add: halfail_def)
  have p: "net_frame s (upd_pin a (\<lambda>p. p\<lparr>pin_data_ptr := v\<rparr>) s)" for a v s by (rule net_frame_upd_pin) simp_all
  have g: "net_frame s (set_sig t a v s)" for t a v s unfolding set_sig_def by (rule net_frame_upd_sig) simp
  have c: "net_frame s (upd_sig a (sig_counts_up d) s)" for a d s
    by (rule net_frame_upd_sig) (simp add: sig_counts_up_def Let_def)
  have t: "net_frame s (set_signal a b s)" for a b s unfolding set_signal_def by (rule net_frame_upd_pin) simp_all
  note tr = net_frame_trans
  have 1: "net_frame s (upd_pin a (\<lambda>p. p\<lparr>pin_data_ptr := v\<rparr>) (link_legacy_cell pin sig s))" for a v pin sig s
    by (rule tr [OF cell p])
  have 2: "net_frame s (set_signal a b (upd_sig k (sig_counts_up d) s))" for s a b k d
    by (rule tr [OF c t])
  show ?thesis
    unfolding halg_link_def Let_def halfail_rc_def
    by (auto simp: f split: option.split intro: tr [OF 1 f] tr [OF tr [OF 1 tr [OF g 2]] net_frame_propagate]
        tr [OF tr [OF 1 2] net_frame_propagate])
qed

section \<open>The net command\<close>

lemma find_frame: "net_frame s t \<Longrightarrow> halg_find_object_by_name ty nm t = halg_find_object_by_name ty nm s"
proof -
  assume "net_frame s t"
  then have "selected ty nm t = selected ty nm s" "halobjects t = halobjects s"
    by (auto simp: net_frame_def selected_def fun_eq_iff)
  then show ?thesis by (simp add: find_by_name_eq)
qed

lemma frame_pin: "net_frame s t \<Longrightarrow> pin_at s a = Some p \<Longrightarrow>
    \<exists>q. pin_at t a = Some q \<and> pin_type q = pin_type p \<and> pin_dir q = pin_dir p"
  by (auto simp: net_frame_def dest!: spec [of _ a])

lemma frame_sig: "net_frame s t \<Longrightarrow> sig_at s a = Some x \<Longrightarrow> \<exists>y. sig_at t a = Some y \<and> sig_type y = sig_type x"
  by (auto simp: net_frame_def dest!: spec [of _ a])

lemma signal_of_map: "pin_at s a = Some p \<Longrightarrow> signal_of s a = link_map s a"
  by (simp add: signal_of_def link_map_def pin_of_at)

lemma linked_pins_map:
  "g \<noteq> 0 \<Longrightarrow> a \<in> linked_pins (pin_at s) g D \<longleftrightarrow> link_map s a = Some g \<and> (\<exists>p. pin_at s a = Some p \<and> pin_dir p \<in> D)"
  by (auto simp: linked_pins_def link_map_def split: option.splits if_splits)

text \<open>The hypotheses of a request on an existing signal, and what holds between the pins.\<close>

definition net_request :: "hal \<Rightarrow> string \<Rightarrow> nat \<Rightarrow> bool" where
  "net_request s signal sig \<longleftrightarrow> links_ok s \<and> hal_attached s \<and> \<not> locked HAL_LOCK_CONFIG s \<and>
     length signal \<le> HAL_NAME_LEN \<and> halg_find_object_by_name HAL_SIGNAL (Some signal) s = Some sig"

lemma net_request_frame: "net_request s signal sig \<Longrightarrow> net_frame s t \<Longrightarrow> links_ok t \<Longrightarrow> net_request t signal sig"
  using find_frame [of s t] unfolding net_request_def by (auto simp: net_frame_def locked_def)

lemma net_link_one:
  assumes r: "net_request t signal sig" and f: "halg_find_object_by_name HAL_PIN (Some p) t = Some pin"
    and n: "length p \<le> HAL_NAME_LEN" and m: "may_link t pin sig"
  shows "\<exists>t'. do_linkps_cmd p signal t = (t', 0) \<and> links_ok t' \<and> net_frame t t' \<and>
           link_map t' = (link_map t)(pin \<mapsto> sig)"
proof -
  have req: "link_request t (Some p) (Some signal) = Some (pin, sig)"
    using assms by (simp add: net_request_def link_request_def bad_str_def)
  obtain t' rc where l: "halg_link (Some p) (Some signal) t = (t', rc)" by fastforce
  have ok: "links_ok t" using r by (simp add: net_request_def)
  have fr: "net_frame t t'" using net_frame_link [of t "Some p" "Some signal"] l by simp
  from ok l have "rc = 0 \<and> links_ok t' \<and> link_map t' = (link_map t)(pin \<mapsto> sig)"
    by (cases rule: halg_link_cases) (use req ok in \<open>auto simp: fun_upd_idem\<close>)
  then show ?thesis using l fr by (simp add: do_linkps_cmd_def)
qed

lemma may_linkI:
  assumes "links_ok t" "pin_at t pin = Some q" "sig_at t sig = Some y"
    and "link_map t pin = Some sig \<or> link_map t pin = None \<and> pin_type q = sig_type y \<and>
      (pin_dir q = HAL_OUT \<longrightarrow> linked_pins (pin_at t) sig {HAL_OUT} = {} \<and> linked_pins (pin_at t) sig {HAL_IO} = {}) \<and>
      (pin_dir q = HAL_IO \<longrightarrow> linked_pins (pin_at t) sig {HAL_OUT} = {})"
  shows "may_link t pin sig"
proof -
  have "linked_pins (pin_at t) sig {HAL_OUT, HAL_IO} =
      linked_pins (pin_at t) sig {HAL_OUT} \<union> linked_pins (pin_at t) sig {HAL_IO}"
    by (auto simp: linked_pins_def)
  with assms show ?thesis by (auto simp: may_link_def)
qed

lemma sig_nonzero: "links_ok s \<Longrightarrow> sig_at s g = Some x \<Longrightarrow> g \<noteq> 0"
  by (cases "g = 0") (auto simp: links_ok_def links_wf_def)

definition found :: "hal \<Rightarrow> string list \<Rightarrow> nat set" where
  "found s pins = {a. \<exists>p\<in>set pins. halg_find_object_by_name HAL_PIN (Some p) s = Some a}"

lemma link_pins_accepted:
  assumes "net_request s signal sig" "sig_at s sig = Some x" "\<forall>p\<in>set pins. length p \<le> HAL_NAME_LEN"
    and "links_ok t" "net_frame s t" "\<forall>a. link_map t a = (if a \<in> D then Some sig else link_map s a)"
    and "linked_pins (pin_at t) sig {HAL_OUT} \<noteq> {} \<Longrightarrow> writers \<noteq> 0" "0 \<le> writers"
    and "linked_pins (pin_at t) sig {HAL_IO} \<noteq> {} \<Longrightarrow> bidirs \<noteq> 0" "0 \<le> bidirs"
    and "preflight_pins (Some sig) s pins (Some (sig_type x)) writers bidirs n = 0"
  shows "\<exists>t'. link_pins signal pins t = (t', 0) \<and> links_ok t' \<and> net_frame s t' \<and>
    (\<forall>a. link_map t' a = (if a \<in> D \<union> found s pins then Some sig else link_map s a))"
  using assms
proof (induction pins arbitrary: t D writers bidirs n)
  case Nil
  then show ?case by (auto simp: found_def)
next
  case (Cons p pins)
  note r = Cons.prems(1) and x = Cons.prems(2) and fr = Cons.prems(5) and lm = Cons.prems(6)
  have ok: "links_ok s" "typed_objs s" using r by (auto simp: net_request_def links_ok_def)
  have s0: "sig \<noteq> 0" by (rule sig_nonzero [OF ok(1) x])
  obtain pin where f: "halg_find_object_by_name HAL_PIN (Some p) s = Some pin"
    using Cons.prems(11) by (cases "halg_find_object_by_name HAL_PIN (Some p) s") auto
  obtain q where q: "pin_at s pin = Some q" using find_pin [OF f ok(2)] by metis
  obtain q' where q': "pin_at t pin = Some q'" "pin_type q' = pin_type q" "pin_dir q' = pin_dir q"
    using frame_pin [OF fr q] by auto
  obtain y where y: "sig_at t sig = Some y" "sig_type y = sig_type x" using frame_sig [OF fr x] by auto
  note of = pin_of_at [OF q] and sof = signal_of_map [OF q]
  have lk: "pin_is_linked s pin \<longleftrightarrow> link_map s pin \<noteq> None"
    using links_ok_pin(1) [OF ok(1) q] q by (simp add: link_map_def)
  have dirs: "pin_dir q \<noteq> HAL_OUT \<or> pin_dir q \<noteq> HAL_IO" by auto
  define w' where "w' = (if link_map s pin = Some sig \<or> pin_dir q \<noteq> HAL_OUT then writers else writers + 1)"
  define b' where "b' = (if link_map s pin = Some sig \<or> pin_dir q \<noteq> HAL_IO then bidirs else bidirs + 1)"
  have pre: "link_map s pin = Some sig \<or> link_map s pin = None \<and> pin_type q = sig_type x \<and>
      (pin_dir q = HAL_OUT \<longrightarrow> writers = 0 \<and> bidirs = 0) \<and> (pin_dir q = HAL_IO \<longrightarrow> writers = 0)"
    and rest: "preflight_pins (Some sig) s pins (Some (sig_type x)) w' b' (n + 1) = 0"
    using Cons.prems(11) f of sof lk
    by (auto simp: Let_def w'_def b'_def split: if_splits)
  have ml: "may_link t pin sig"
    by (rule may_linkI [OF Cons.prems(4) q'(1) y(1)]) (use pre lm q' y Cons.prems(7,9) in auto)
  have ft: "halg_find_object_by_name HAL_PIN (Some p) t = Some pin" using f find_frame [OF fr] by simp
  obtain t' where t': "do_linkps_cmd p signal t = (t', 0)" "links_ok t'" "net_frame t t'"
    "link_map t' = (link_map t)(pin \<mapsto> sig)"
    using net_link_one [OF net_request_frame [OF r fr Cons.prems(4)] ft _ ml] Cons.prems(3) by auto
  have fr': "net_frame s t'" by (rule net_frame_trans [OF fr t'(3)])
  have lp: "a \<in> linked_pins (pin_at t') sig {d} \<Longrightarrow> a \<in> linked_pins (pin_at t) sig {d} \<or> (a = pin \<and> pin_dir q = d \<and> (link_map s pin = Some sig \<longrightarrow> a \<in> linked_pins (pin_at t) sig {d}))" for a d
  proof -
    assume "a \<in> linked_pins (pin_at t') sig {d}"
    then obtain u where u: "link_map t' a = Some sig" "pin_at t' a = Some u" "pin_dir u = d"
      using linked_pins_map [OF s0] by auto
    obtain u' where u': "pin_at t a = Some u'" "pin_dir u' = d"
      using frame_pin [OF net_frame_sym [OF t'(3)] u(2)] u(3) by auto
    show ?thesis using u u' t'(4) q' lm linked_pins_map [OF s0] by (cases "a = pin") auto
  qed
  have grow: "linked_pins (pin_at t') sig {d} \<noteq> {} \<Longrightarrow> linked_pins (pin_at t) sig {d} \<noteq> {} \<or>
      pin_dir q = d \<and> link_map s pin \<noteq> Some sig" for d
    using lp [of _ d] by blast
  have "\<exists>t''. link_pins signal pins t' = (t'', 0) \<and> links_ok t'' \<and> net_frame s t'' \<and>
      (\<forall>a. link_map t'' a = (if a \<in> insert pin D \<union> found s pins then Some sig else link_map s a))"
  proof (rule Cons.IH [OF r x _ t'(2) fr' _ _ _ _ _ rest])
    show "\<forall>p\<in>set pins. length p \<le> HAL_NAME_LEN" using Cons.prems(3) by simp
    show "\<forall>a. link_map t' a = (if a \<in> insert pin D then Some sig else link_map s a)" using t'(4) lm by simp
    show "w' \<noteq> 0" if "linked_pins (pin_at t') sig {HAL_OUT} \<noteq> {}"
      using grow [OF that] Cons.prems(7,8) by (auto simp: w'_def)
    show "b' \<noteq> 0" if "linked_pins (pin_at t') sig {HAL_IO} \<noteq> {}"
      using grow [OF that] Cons.prems(9,10) by (auto simp: b'_def)
  qed (use Cons.prems(8,10) in \<open>auto simp: w'_def b'_def\<close>)
  moreover have eq: "insert pin D \<union> found s pins = D \<union> found s (p # pins)" using f by (auto simp: found_def)
  moreover have e: "link_pins signal (p # pins) t = link_pins signal pins t'" using t'(1) by simp
  ultimately show ?case by (simp only: e eq)
qed

lemma preflight_rc: "preflight_pins sig s pins type writers bidirs n \<le> 0"
  by (induction sig s pins type writers bidirs n rule: preflight_pins.induct)
    (simp_all add: Let_def split: option.split)

lemma do_net_existing:
  assumes r: "net_request s signal sig" and n: "\<forall>p\<in>set pins. length p \<le> HAL_NAME_LEN"
  obtains (refused) rc where "do_net_cmd signal pins s = (s, rc)" "rc < 0"
    "preflight_net_cmd (Some sig) pins s \<noteq> 0 \<or> halg_find_object_by_name HAL_PIN (Some signal) s \<noteq> None"
  | (accepted) s' where "do_net_cmd signal pins s = (s', 0)" "links_ok s'" "net_frame s s'"
      "\<forall>a. link_map s' a = (if a \<in> found s pins then Some sig else link_map s a)"
proof -
  have ok: "links_ok s" "typed_objs s" and f: "halg_find_object_by_name HAL_SIGNAL (Some signal) s = Some sig"
    using r by (auto simp: net_request_def links_ok_def)
  obtain x where x: "sig_at s sig = Some x" using find_sig [OF f ok(2)] by metis
  note of = sig_of_at [OF x]
  let ?pre = "preflight_net_cmd (Some sig) pins s"
  have le: "?pre \<le> 0" using preflight_rc by (simp add: preflight_net_cmd_def)
  show thesis
  proof (cases "?pre = 0 \<and> halg_find_object_by_name HAL_PIN (Some signal) s = None")
    case False
    have "\<exists>rc<0. do_net_cmd signal pins s = (s, rc)" using False f le by (auto simp: do_net_cmd_def Let_def)
    then show thesis using False refused by blast
  next
    case True
    have so: "sig_ok (pin_at s) (live s) sig x" by (rule links_ok_sig [OF ok(1) x])
    have fin: "finite (linked_pins (pin_at s) sig D)" for D
      using ok(1) linked_pins_finite by (auto simp: links_ok_def links_wf_def)
    have "\<exists>s'. link_pins signal pins s = (s', 0) \<and> links_ok s' \<and> net_frame s s' \<and>
        (\<forall>a. link_map s' a = (if a \<in> {} \<union> found s pins then Some sig else link_map s a))"
      by (rule link_pins_accepted [OF r x n ok(1), where writers = "sig_writers x" and bidirs = "sig_bidirs x" and n = 0])
        (use so fin True of in \<open>auto simp: sig_ok_def preflight_net_cmd_def\<close>)
    moreover have "do_net_cmd signal pins s = link_pins signal pins s"
      using True f by (simp add: do_net_cmd_def)
    ultimately show thesis using accepted by auto
  qed
qed

text \<open>A new signal: the check sees an unlinked pin as one that is on the signal already.\<close>

lemma preflight_new:
  assumes "\<forall>p\<in>set pins. \<exists>a. halg_find_object_by_name HAL_PIN (Some p) s = Some a \<and> signal_of s a = None"
    "pins \<noteq> [] \<or> n \<noteq> 0"
  shows "preflight_pins None s pins ty w b n = 0"
  using assms
proof (induction pins arbitrary: n)
  case (Cons p pins)
  then show ?case by auto
qed simp

text \<open>
  When the check accepts, over the map of links: every name is a pin that is on
  the signal or free and of its type, and among the pins that would be on the
  signal an output stands alone beside inputs.
\<close>

definition pin_accepted :: "hal \<Rightarrow> nat \<Rightarrow> string \<Rightarrow> bool" where
  "pin_accepted s sig p \<longleftrightarrow>
     (\<exists>a. halg_find_object_by_name HAL_PIN (Some p) s = Some a \<and>
        (link_map s a = Some sig \<or>
         link_map s a = None \<and> map_option pin_type (pin_at s a) = map_option sig_type (sig_at s sig)))"

definition single_writer :: "hal \<Rightarrow> nat set \<Rightarrow> bool" where
  "single_writer s A \<longleftrightarrow> (\<forall>a\<in>A. \<forall>b\<in>A. a \<noteq> b \<longrightarrow> map_option pin_dir (pin_at s a) = Some HAL_OUT \<longrightarrow>
     map_option pin_dir (pin_at s b) = Some HAL_IN)"

definition new_with_dir :: "hal \<Rightarrow> nat \<Rightarrow> nat \<Rightarrow> string \<Rightarrow> bool" where
  "new_with_dir s sig d p \<longleftrightarrow>
     (\<exists>a. halg_find_object_by_name HAL_PIN (Some p) s = Some a \<and> link_map s a \<noteq> Some sig \<and>
        map_option pin_dir (pin_at s a) = Some d)"

lemma preflight_iff:
  assumes ok: "links_ok s" and x: "sig_at s sig = Some x" and "0 \<le> w" "0 \<le> b"
  shows "preflight_pins (Some sig) s pins (Some (sig_type x)) w b n = 0 \<longleftrightarrow>
    (pins \<noteq> [] \<or> n \<noteq> 0) \<and> (\<forall>p\<in>set pins. pin_accepted s sig p) \<and>
    (let outs = filter (new_with_dir s sig HAL_OUT) pins; ios = filter (new_with_dir s sig HAL_IO) pins
     in (outs \<noteq> [] \<longrightarrow> w = 0 \<and> b = 0 \<and> length outs = 1 \<and> ios = []) \<and> (ios \<noteq> [] \<longrightarrow> w = 0))"
  using assms(3,4)
proof (induction pins arbitrary: w b n)
  case (Cons p pins)
  show ?case
  proof (cases "halg_find_object_by_name HAL_PIN (Some p) s")
    case None
    then show ?thesis by (simp add: pin_accepted_def)
  next
    case (Some pin)
    have ty: "typed_objs s" using ok by (simp add: links_ok_def)
    obtain q where q: "pin_at s pin = Some q" using find_pin [OF Some ty] by metis
    note of = pin_of_at [OF q] and sof = signal_of_map [OF q]
    have lk: "pin_is_linked s pin \<longleftrightarrow> link_map s pin \<noteq> None"
      using links_ok_pin(1) [OF ok q] q by (simp add: link_map_def)
    have d: "new_with_dir s sig dd p \<longleftrightarrow> link_map s pin \<noteq> Some sig \<and> pin_dir q = dd" for dd
      using Some q by (simp add: new_with_dir_def)
    have acc: "pin_accepted s sig p \<longleftrightarrow> link_map s pin = Some sig \<or>
        link_map s pin = None \<and> pin_type q = sig_type x"
      using Some q x by (simp add: pin_accepted_def)
    show ?thesis
    proof (cases "link_map s pin = Some sig")
      case True
      have st: "preflight_pins (Some sig) s (p # pins) (Some (sig_type x)) w b n =
          preflight_pins (Some sig) s pins (Some (sig_type x)) w b (n + 1)"
        using True Some sof by simp
      show ?thesis unfolding st Cons.IH [OF Cons.prems, of "n + 1"] using True by (simp add: d acc)
    next
      case new: False
      show ?thesis
      proof (cases "pin_accepted s sig p")
        case False
        then have "pin_is_linked s pin \<or> sig_type x \<noteq> pin_type q" using new acc lk by auto
        then have "preflight_pins (Some sig) s (p # pins) (Some (sig_type x)) w b n = - EINVAL"
          using new Some of sof by (auto simp: Let_def)
        then show ?thesis using False by simp
      next
        case True
        with new acc have t: "link_map s pin = None" "pin_type q = sig_type x" by auto
        consider "pin_dir q = HAL_OUT" | "pin_dir q = HAL_IO" | "pin_dir q \<noteq> HAL_OUT" "pin_dir q \<noteq> HAL_IO" by blast
        then show ?thesis
        proof cases
          case 1
          have "preflight_pins (Some sig) s (p # pins) (Some (sig_type x)) w b n =
            (if w \<noteq> 0 \<or> b \<noteq> 0 then - EINVAL
             else preflight_pins (Some sig) s pins (Some (sig_type x)) (w + 1) b (n + 1))"
            using Some of sof lk t new 1 by simp
          moreover have "0 \<le> w + 1" using Cons.prems by simp
          note Cons.IH [OF this Cons.prems(2), of "n + 1"]
          ultimately show ?thesis using Cons.prems True new 1 by (auto simp: Let_def d)
        next
          case 2
          have "preflight_pins (Some sig) s (p # pins) (Some (sig_type x)) w b n =
            (if w \<noteq> 0 then - EINVAL
             else preflight_pins (Some sig) s pins (Some (sig_type x)) w (b + 1) (n + 1))"
            using Some of sof lk t new 2 by simp
          moreover have "0 \<le> b + 1" using Cons.prems by simp
          note Cons.IH [OF Cons.prems(1) this, of "n + 1"]
          ultimately show ?thesis using Cons.prems True new 2 by (auto simp: Let_def d)
        next
          case 3
          have st: "preflight_pins (Some sig) s (p # pins) (Some (sig_type x)) w b n =
            preflight_pins (Some sig) s pins (Some (sig_type x)) w b (n + 1)"
            using Some of sof lk t new 3 by simp
          show ?thesis unfolding st Cons.IH [OF Cons.prems, of "n + 1"] using True 3 by (simp add: d)
        qed
      qed
    qed
  qed
qed simp

lemma distinct_one: "distinct xs \<Longrightarrow> length xs = 1 \<longleftrightarrow> xs \<noteq> [] \<and> (\<forall>x\<in>set xs. \<forall>y\<in>set xs. x = y)"
  by (cases xs; cases "tl xs") auto

lemma find_inj:
  "\<lbrakk>halg_find_object_by_name t (Some p) s = Some a; halg_find_object_by_name t (Some q) s = Some a\<rbrakk> \<Longrightarrow> p = q"
  using find_by_name_Some(4) by metis

lemma pin_dirs:
  assumes "links_ok s" "pin_at s a = Some p"
  shows "pin_dir p = HAL_IN \<or> pin_dir p = HAL_OUT \<or> pin_dir p = HAL_IO"
  using links_ok_pin(2) [OF assms] by (auto simp: pin_ok_def)

text \<open>The counters of a signal, over the map of links.\<close>

definition on_sig :: "hal \<Rightarrow> nat \<Rightarrow> nat \<Rightarrow> nat \<Rightarrow> bool" where
  "on_sig s sig d a \<longleftrightarrow> link_map s a = Some sig \<and> map_option pin_dir (pin_at s a) = Some d"

lemma counters_map:
  assumes "links_ok s" "sig_at s sig = Some x"
  shows "sig_writers x = 0 \<longleftrightarrow> (\<forall>a. \<not> on_sig s sig HAL_OUT a)" "sig_bidirs x = 0 \<longleftrightarrow> (\<forall>a. \<not> on_sig s sig HAL_IO a)"
    "0 \<le> sig_writers x" "0 \<le> sig_bidirs x"
    "on_sig s sig HAL_OUT a \<Longrightarrow> on_sig s sig HAL_OUT b \<Longrightarrow> a = b"
    "on_sig s sig HAL_OUT a \<Longrightarrow> \<not> on_sig s sig HAL_IO b"
proof -
  have so: "sig_ok (pin_at s) (live s) sig x" by (rule links_ok_sig [OF assms])
  have fin: "finite (linked_pins (pin_at s) sig D)" for D
    using assms(1) linked_pins_finite by (auto simp: links_ok_def links_wf_def)
  have e: "linked_pins (pin_at s) sig {d} = {a. on_sig s sig d a}" for d
    using linked_pins_map [OF sig_nonzero [OF assms]] by (auto simp: on_sig_def)
  note c = so [unfolded sig_ok_def e] and f = fin [of "{HAL_OUT}", unfolded e] fin [of "{HAL_IO}", unfolded e]
  show w: "sig_writers x = 0 \<longleftrightarrow> (\<forall>a. \<not> on_sig s sig HAL_OUT a)" and
    b: "sig_bidirs x = 0 \<longleftrightarrow> (\<forall>a. \<not> on_sig s sig HAL_IO a)" "0 \<le> sig_writers x" "0 \<le> sig_bidirs x"
    using c f by auto
  have "card {a. on_sig s sig HAL_OUT a} \<le> 1" using c by auto
  then show "on_sig s sig HAL_OUT a \<Longrightarrow> on_sig s sig HAL_OUT b \<Longrightarrow> a = b"
    using f(1) by (auto simp: card_le_Suc0_iff_eq)
  show "on_sig s sig HAL_OUT a \<Longrightarrow> \<not> on_sig s sig HAL_IO b"
    using w b c by (metis zle_iff_zadd add_0 linorder_not_less int_one_le_iff_zero_less order_le_less verit_la_disequality)
qed

lemma new_with_dirE:
  assumes "new_with_dir s sig d p" "p \<in> set pins"
  obtains a where "halg_find_object_by_name HAL_PIN (Some p) s = Some a" "a \<in> found s pins" "link_map s a \<noteq> Some sig"
    "map_option pin_dir (pin_at s a) = Some d"
  using assms by (auto simp: new_with_dir_def found_def)

lemma member_cases:
  assumes "a \<in> {a. link_map s a = Some sig} \<union> found s pins" "map_option pin_dir (pin_at s a) = Some d"
  obtains "on_sig s sig d a" | p where "p \<in> set (filter (new_with_dir s sig d) pins)"
    "halg_find_object_by_name HAL_PIN (Some p) s = Some a" "link_map s a \<noteq> Some sig"
  using assms by (cases "link_map s a = Some sig") (auto simp: on_sig_def found_def new_with_dir_def)

lemma preflight_single_writer:
  assumes ok: "links_ok s" and x: "sig_at s sig = Some x" and dp: "distinct pins"
  defines "outs \<equiv> filter (new_with_dir s sig HAL_OUT) pins" and "ios \<equiv> filter (new_with_dir s sig HAL_IO) pins"
  shows "(outs \<noteq> [] \<longrightarrow> sig_writers x = 0 \<and> sig_bidirs x = 0 \<and> length outs = 1 \<and> ios = []) \<and>
     (ios \<noteq> [] \<longrightarrow> sig_writers x = 0) \<longleftrightarrow>
    single_writer s ({a. link_map s a = Some sig} \<union> found s pins)" (is "?C \<longleftrightarrow> single_writer s ?A")
proof
  note cm = counters_map [OF ok x]
  assume C: ?C
  show "single_writer s ?A"
    unfolding single_writer_def
  proof (intro ballI impI)
    fix a b assume a: "a \<in> ?A" and b: "b \<in> ?A" and ne: "a \<noteq> b" and da: "map_option pin_dir (pin_at s a) = Some HAL_OUT"
    have "pin_at s b \<noteq> None"
    proof (cases "link_map s b = Some sig")
      case False
      then obtain p where "halg_find_object_by_name HAL_PIN (Some p) s = Some b" using b by (auto simp: found_def)
      then show ?thesis using find_pin ok by (metis links_ok_def option.distinct(1))
    qed (auto simp: link_map_def split: option.splits)
    then consider (i) "map_option pin_dir (pin_at s b) = Some HAL_IN" | (o) "map_option pin_dir (pin_at s b) = Some HAL_OUT"
      | (io) "map_option pin_dir (pin_at s b) = Some HAL_IO" using pin_dirs [OF ok] by fastforce
    then show "map_option pin_dir (pin_at s b) = Some HAL_IN"
    proof cases
      case o
      have "outs = [] \<or> (\<forall>p\<in>set outs. \<forall>q\<in>set outs. p = q)"
        using C distinct_one [of outs] dp by (auto simp: outs_def)
      then show ?thesis using member_cases [OF a da] member_cases [OF b o] C cm ne
        unfolding outs_def [symmetric] by (metis list.set_cases empty_iff list.set(1) option.inject)
    next
      case io
      show ?thesis using member_cases [OF a da] member_cases [OF b io] C cm ne
        unfolding outs_def [symmetric] ios_def [symmetric]
        by (metis empty_iff list.set(1))
    qed simp
  qed
next
  note cm = counters_map [OF ok x]
  assume S: "single_writer s ?A"
  have clash: False if "a \<in> ?A" "b \<in> ?A" "a \<noteq> b" "map_option pin_dir (pin_at s a) = Some HAL_OUT"
    "map_option pin_dir (pin_at s b) \<noteq> Some HAL_IN" for a b
    using S that unfolding single_writer_def by blast
  have old: "sig_writers x = 0 \<or> (\<exists>a. on_sig s sig HAL_OUT a)" "sig_bidirs x = 0 \<or> (\<exists>a. on_sig s sig HAL_IO a)"
    using cm by blast+
  have new: "\<exists>a\<in>?A. halg_find_object_by_name HAL_PIN (Some p) s = Some a \<and> link_map s a \<noteq> Some sig \<and>
      map_option pin_dir (pin_at s a) = Some d" if "p \<in> set (filter (new_with_dir s sig d) pins)" for p d
    using that by (auto elim!: new_with_dirE)
  have oldA: "a \<in> ?A \<and> map_option pin_dir (pin_at s a) = Some d \<and> link_map s a = Some sig" if "on_sig s sig d a" for a d
    using that by (simp add: on_sig_def)
  show ?C
  proof (intro conjI impI)
    assume o: "outs \<noteq> []"
    then obtain p where "p \<in> set outs" by (cases outs) auto
    then obtain a where a: "a \<in> ?A" "link_map s a \<noteq> Some sig" "map_option pin_dir (pin_at s a) = Some HAL_OUT"
      and pa: "halg_find_object_by_name HAL_PIN (Some p) s = Some a"
      using new unfolding outs_def by blast
    show "sig_writers x = 0" using old(1) oldA clash [OF a(1)] a by fastforce
    show "sig_bidirs x = 0" using old(2) oldA clash [OF a(1)] a by fastforce
    show "ios = []"
    proof (rule ccontr)
      assume "ios \<noteq> []"
      then obtain q where "q \<in> set ios" by (cases ios) auto
      then obtain b where b: "b \<in> ?A" "map_option pin_dir (pin_at s b) = Some HAL_IO"
        using new unfolding ios_def by blast
      have "a \<noteq> b" using a(3) b(2) by auto
      then show False using clash [OF a(1) b(1) _ a(3)] b(2) by simp
    qed
    have "q = r" if qr: "q \<in> set outs" "r \<in> set outs" for q r
    proof -
      obtain b where b: "b \<in> ?A" "map_option pin_dir (pin_at s b) = Some HAL_OUT"
        "halg_find_object_by_name HAL_PIN (Some q) s = Some b"
        using new [OF qr(1) [unfolded outs_def]] by blast
      obtain c where c: "c \<in> ?A" "map_option pin_dir (pin_at s c) = Some HAL_OUT"
        "halg_find_object_by_name HAL_PIN (Some r) s = Some c"
        using new [OF qr(2) [unfolded outs_def]] by blast
      have "b = c"
      proof (rule ccontr)
        assume "b \<noteq> c"
        then show False using clash [OF b(1) c(1) _ b(2)] c(2) by simp
      qed
      then show "q = r" using find_inj b(3) c(3) by blast
    qed
    then show "length outs = 1" using o dp distinct_one [of outs] by (simp add: outs_def)
  next
    assume "ios \<noteq> []"
    then obtain q where "q \<in> set ios" by (cases ios) auto
    then obtain b where b: "b \<in> ?A" "map_option pin_dir (pin_at s b) = Some HAL_IO" "link_map s b \<noteq> Some sig"
      using new unfolding ios_def by blast
    show "sig_writers x = 0" using old(1) oldA clash [OF _ b(1)] b by fastforce
  qed
qed

lemma preflight_legal:
  assumes r: "net_request s signal sig" and dp: "distinct pins"
  shows "preflight_net_cmd (Some sig) pins s = 0 \<longleftrightarrow> pins \<noteq> [] \<and> (\<forall>p\<in>set pins. pin_accepted s sig p) \<and>
    single_writer s ({a. link_map s a = Some sig} \<union> found s pins)"
proof -
  have ok: "links_ok s" "typed_objs s" and f: "halg_find_object_by_name HAL_SIGNAL (Some signal) s = Some sig"
    using r by (auto simp: net_request_def links_ok_def)
  obtain x where x: "sig_at s sig = Some x" using find_sig [OF f ok(2)] by metis
  have "preflight_net_cmd (Some sig) pins s =
      preflight_pins (Some sig) s pins (Some (sig_type x)) (sig_writers x) (sig_bidirs x) 0"
    using sig_of_at [OF x] by (simp add: preflight_net_cmd_def)
  then show ?thesis
    using preflight_iff [OF ok(1) x, of "sig_writers x" "sig_bidirs x" pins 0] counters_map(3,4) [OF ok(1) x]
      preflight_single_writer [OF ok(1) x dp] by (simp add: Let_def)
qed

section \<open>Properties\<close>

text \<open>C4: \<open>net\<close> on an existing signal is all or nothing. With the names of distinct pins that
  \<open>hal_link\<close> accepts by length, it succeeds exactly when there is a pin, no pin bears the name of
  the signal, every pin is on the signal already or is free and of its type, and an output among
  the resulting pins of the signal has only inputs beside it; then all the pins are linked to the
  signal and nothing else changes in the network. Otherwise nothing at all has changed.\<close>

theorem do_net_cmd_correct:
  assumes "net_request s signal sig" "\<forall>p\<in>set pins. length p \<le> HAL_NAME_LEN" "distinct pins"
  shows "\<exists>s' rc. do_net_cmd signal pins s = (s', rc) \<and> links_ok s' \<and>
    (if pins \<noteq> [] \<and> halg_find_object_by_name HAL_PIN (Some signal) s = None \<and>
        (\<forall>p\<in>set pins. pin_accepted s sig p) \<and>
        single_writer s ({a. link_map s a = Some sig} \<union> found s pins)
     then rc = 0 \<and> link_map s' = (\<lambda>a. if a \<in> found s pins then Some sig else link_map s a)
     else rc < 0 \<and> s' = s)"
proof (cases rule: do_net_existing [OF assms(1,2)])
  case (1 rc)
  then show ?thesis using preflight_legal [OF assms(1,3)] assms(1) by (auto simp: net_request_def)
next
  case (2 s')
  have "preflight_net_cmd (Some sig) pins s = 0 \<and> halg_find_object_by_name HAL_PIN (Some signal) s = None"
    using 2(1) assms(1) preflight_rc
    by (auto simp: do_net_cmd_def Let_def net_request_def preflight_net_cmd_def order_le_less split: if_splits)
  then show ?thesis using 2 preflight_legal [OF assms(1,3)] by (auto simp: fun_eq_iff)
qed

text \<open>For a signal that does not exist yet the check of \<open>net\<close> looks at nothing but the
  existence of the pins: any list of free pins passes, whatever their types and directions, so that
  \<open>net\<close> creates the signal and links some of them before \<open>hal_link\<close> refuses one.\<close>

theorem preflight_new_signal_unchecked:
  assumes "pins \<noteq> []"
    "\<forall>p\<in>set pins. \<exists>a. halg_find_object_by_name HAL_PIN (Some p) s = Some a \<and> signal_of s a = None"
  shows "preflight_net_cmd None pins s = 0"
  using preflight_new [of pins s] assms by (simp add: preflight_net_cmd_def)

lemma demo_net_request: "net_request demo_hal ''sig'' 456"
  using demo_open demo_find demo_links_ok by (simp add: net_request_def bad_str_def)

theorem do_net_cmd_correct_witness:
  "\<exists>s'. do_net_cmd ''sig'' [''out'', ''in''] demo_hal = (s', 0) \<and> link_map s' = [392 \<mapsto> 456, 584 \<mapsto> 456]"
proof -
  have f: "found demo_hal [''out'', ''in''] = {392, 584}" using demo_find by (auto simp: found_def)
  have np: "halg_find_object_by_name HAL_PIN (Some ''sig'') demo_hal = None"
    by (simp add: find_by_name_eq selected_def demo_obj)
  have "pin_accepted demo_hal 456 ''out''" "pin_accepted demo_hal 456 ''in''"
    using demo_find by (simp_all add: pin_accepted_def demo_link_map demo_at demo_pin_def)
  moreover have "single_writer demo_hal ({a. link_map demo_hal a = Some 456} \<union> found demo_hal [''out'', ''in''])"
    unfolding f by (simp add: single_writer_def demo_link_map demo_at demo_pin_def)
  ultimately show ?thesis
    using do_net_cmd_correct [OF demo_net_request, of "[''out'', ''in'']"] np f
    by (auto simp: HAL_NAME_LEN_def demo_link_map fun_eq_iff)
qed

theorem preflight_new_signal_unchecked_witness:
  "preflight_net_cmd None [''out'', ''in''] demo_hal = 0"
  using demo_find
  by (intro preflight_new_signal_unchecked)
    (auto simp: signal_of_map [of demo_hal 392] signal_of_map [of demo_hal 584] demo_link_map demo_at)

end
