(* ===== verification/Halcmd_Script.thy ===== *)
theory Halcmd_Script
  imports Halcmd Halcmd_Net
begin

text \<open>
  Scripts: running the lines of a file keeps the network of pins and signals
  well formed, for the commands that work on the network, on values and on
  the locks.
\<close>

section \<open>Commands that keep the network well formed\<close>

named_theorems keeps \<open>operations under which the network stays well formed\<close>

lemma links_ok_fields:
  assumes "links_ok s" "objs s' = objs s" "halobjects s' = halobjects s" "hal_heap s' = hal_heap s"
    "shmem_bot s' = shmem_bot s" "shmem_top s' = shmem_top s" "hal_attached s' = hal_attached s"
    "global_heap s' = global_heap s" "hal_descriptor_alignment s' = hal_descriptor_alignment s"
  shows "links_ok s'"
  using assms objs_only_at [OF assms(2,3)] store_ok_cong [of s s'] by (simp add: links_ok_def)

lemma links_ok_values [keeps]:
  "links_ok s \<Longrightarrow> links_ok (upd_pin a (\<lambda>p. p\<lparr>pin_dummysig := v\<rparr>) s)"
  "links_ok s \<Longrightarrow> links_ok (upd_sig g (\<lambda>x. x\<lparr>sig_value := v\<rparr>) s)"
  unfolding links_ok_def by (auto simp: link_simps intro!: links_wf_values)

lemma links_ok_param [keeps]: "links_ok s \<Longrightarrow> links_ok (upd_param a h s)"
proof -
  have b: "pin_body (body (case body ob of Param p \<Rightarrow> ob\<lparr>body := Param (h p)\<rparr> | _ \<Rightarrow> ob)) = pin_body (body ob)"
    "sig_body (body (case body ob of Param p \<Rightarrow> ob\<lparr>body := Param (h p)\<rparr> | _ \<Rightarrow> ob)) = sig_body (body ob)"
    "hdr (case body ob of Param p \<Rightarrow> ob\<lparr>body := Param (h p)\<rparr> | _ \<Rightarrow> ob) = hdr ob" for ob
    by (simp_all add: pin_body_def sig_body_def split: hal_body.splits)
  have "pin_at (upd_param a h s) = pin_at s" "sig_at (upd_param a h s) = sig_at s"
    by (rule ext, cases "objs s a"; simp add: upd_param_def upd_obj_at b at_bind [of s a])+
  moreover have "live (upd_param a h s) = live s"
    unfolding upd_param_def by (rule ho_upd_obj_hdr(8)) (simp add: b)
  moreover have "typed_objs s \<Longrightarrow> typed_objs (upd_param a h s)" "store_ok s \<Longrightarrow> store_ok (upd_param a h s)"
    unfolding upd_param_def by (rule typed_objs_upd_obj store_ok_upd_obj; simp add: b)+
  ultimately show "links_ok s \<Longrightarrow> ?thesis" by (simp add: links_ok_def)
qed

lemmas net_step_keeps [keeps] = net_step.intros [THEN net_step_ok]

lemma foreach_keeps:
  assumes "\<And>a s u. links_ok s \<Longrightarrow> links_ok (fst (cb a s u))" "links_ok s"
  shows "links_ok (fst (halg_foreach args cb s u))"
proof -
  have "links_ok s \<longrightarrow> links_ok (fst (foreach_loop sel cb xs s u n))" for sel xs n
    by (rule foreach_loop_rel [where R = "\<lambda>s s'. links_ok s \<longrightarrow> links_ok s'"]) (use assms(1) in auto)
  with assms(2) show ?thesis by (simp add: halg_foreach_def)
qed

lemma do_lock_keeps [keeps]: "links_ok s \<Longrightarrow> links_ok (fst (do_lock_cmd c s))" "links_ok s \<Longrightarrow> links_ok (fst (do_unlock_cmd c s))"
proof -
  have "links_ok s \<Longrightarrow> links_ok (fst (hal_set_lock l s))" for l
    by (erule links_ok_fields) (simp_all add: hal_set_lock_def halfail_rc_def halfail_def)
  then show "links_ok s \<Longrightarrow> links_ok (fst (do_lock_cmd c s))" "links_ok s \<Longrightarrow> links_ok (fst (do_unlock_cmd c s))"
    by (simp_all add: do_lock_cmd_def do_unlock_cmd_def split: option.split)
qed

lemma do_start_keeps [keeps]: "links_ok s \<Longrightarrow> links_ok (fst (do_start_cmd s))" "links_ok s \<Longrightarrow> links_ok (fst (do_stop_cmd s))"
  "links_ok s \<Longrightarrow> links_ok (fst (do_setexact_cmd s))"
  by (erule links_ok_fields; simp add: do_start_cmd_def do_stop_cmd_def do_setexact_cmd_def hal_start_threads_def
      hal_stop_threads_def halfail_rc_def halfail_def)+

lemma do_link_keeps [keeps]:
  "links_ok s \<Longrightarrow> links_ok (fst (do_linkps_cmd x y s))" "links_ok s \<Longrightarrow> links_ok (fst (do_linksp_cmd x y s))"
  "links_ok s \<Longrightarrow> links_ok (fst (do_unlinkp_cmd x s))"
  by (simp_all add: do_linkps_cmd_def do_linksp_cmd_def do_unlinkp_cmd_def keeps)

lemma link_pins_keeps [keeps]: "links_ok s \<Longrightarrow> links_ok (fst (link_pins sig pins s))"
proof (induction pins arbitrary: s)
  case (Cons p pins)
  then show ?case using do_link_keeps(1) [OF Cons.prems, of p sig] by (auto split: prod.split)
qed simp

lemma do_linkpp_keeps [keeps]: "links_ok s \<Longrightarrow> links_ok (fst (do_linkpp_cmd x y s))"
  using net_step_keeps(3) [of s "Some x"] net_step_keeps(1)
  by (auto simp: do_linkpp_cmd_def split: option.split prod.split) (metis fst_conv)+

lemma do_net_keeps [keeps]: "links_ok s \<Longrightarrow> links_ok (fst (do_net_cmd sig pins s))"
  using net_step_keeps(3) [of s "Some sig"] link_pins_keeps
  by (auto simp: do_net_cmd_def Let_def split: option.split prod.split) (metis fst_conv)+

lemma do_newsig_keeps [keeps]: "links_ok s \<Longrightarrow> links_ok (fst (do_newsig_cmd x y s))"
  by (simp add: do_newsig_cmd_def keeps split: option.split)

lemma do_delsig_keeps [keeps]: "links_ok s \<Longrightarrow> links_ok (fst (do_delsig_cmd x s))"
proof -
  assume ok: "links_ok s"
  have cb: "links_ok (fst (unlocked_delete_halobject HAL_SIGNAL a s u))" if "links_ok s" for a s u
    using net_step_keeps(4) [OF that, of "Some (ho_name s a)"]
    by (cases "halg_signal_delete (Some (ho_name s a)) s") (simp add: unlocked_delete_halobject_def)
  have "links_ok (fst (halg_foreach args (unlocked_delete_halobject HAL_SIGNAL) s ()))" for args
    by (rule foreach_keeps [where cb = "unlocked_delete_halobject HAL_SIGNAL"]) (rule cb ok, assumption?)+
  moreover have "fst (do_delsig_cmd x s) = fst (halg_foreach (no_args\<lparr>fa_type := HAL_SIGNAL,
      fa_name := (if x \<noteq> ''all'' then None else Some x)\<rparr>) (unlocked_delete_halobject HAL_SIGNAL) s ())"
    by (simp add: do_delsig_cmd_def Let_def split: prod.split)
  ultimately show ?thesis by simp
qed

lemma do_sets_keeps [keeps]: "links_ok s \<Longrightarrow> links_ok (fst (do_sets_cmd env x y s))"
  by (simp add: do_sets_cmd_def keeps split: option.split prod.split)

lemma change_barrier_keeps: "links_ok s \<Longrightarrow> links_ok (fst (change_barrier x r w s))"
proof -
  assume ok: "links_ok s"
  have cb: "links_ok (fst (yield_objects r w a s u))" if "links_ok s" for a s u
    using net_step_keeps(8) [OF that, of a r w]
    by (cases "halg_object_setbarriers a r w s") (simp add: yield_objects_def)
  have "links_ok (fst (halg_foreach args (yield_objects r w) s ()))" for args
    by (rule foreach_keeps [where cb = "yield_objects r w"]) (rule cb ok, assumption?)+
  moreover have "fst (change_barrier x r w s) = fst (halg_foreach (no_args\<lparr>fa_name := Some x\<rparr>) (yield_objects r w) s ())"
    by (simp add: change_barrier_def split: prod.split)
  ultimately show ?thesis by simp
qed

lemma do_barrier_keeps [keeps]:
  "links_ok s \<Longrightarrow> links_ok (fst (do_setrmb_cmd x s))" "links_ok s \<Longrightarrow> links_ok (fst (do_setwmb_cmd x s))"
  "links_ok s \<Longrightarrow> links_ok (fst (do_clear_rmb_cmd x s))" "links_ok s \<Longrightarrow> links_ok (fst (do_clear_wmb_cmd x s))"
  by (simp_all add: do_setrmb_cmd_def do_setwmb_cmd_def do_clear_rmb_cmd_def do_clear_wmb_cmd_def barrier_rc_def
      change_barrier_keeps)

lemma do_setp_keeps [keeps]: "links_ok (hc_hal c) \<Longrightarrow> links_ok (hc_hal (fst (do_setp_cmd env x y c)))"
proof -
  have f: "links_ok s \<Longrightarrow> links_ok (s\<lparr>fault := True\<rparr>)" for s by (erule links_ok_fields) simp_all
  show "links_ok (hc_hal c) \<Longrightarrow> ?thesis"
    by (auto simp: do_setp_cmd_def Let_def param_set_def keeps f split: option.split prod.split)
qed

section \<open>Scripts\<close>

text \<open>The commands on the network, on values and on locks, and those that only print.\<close>

definition network_commands :: "string list" where
  "network_commands =
     [''net'', ''linkps'', ''linksp'', ''linkpp'', ''unlinkp'', ''newsig'', ''delsig'', ''sets'', ''setp'',
      ''setrmb'', ''setwmb'', ''clearrmb'', ''clearwmb'', ''sweep'', ''start'', ''stop'', ''lock'', ''unlock'',
      ''setexact_for_test_suite_only'', ''getp'', ''gets'', ''ptype'', ''stype'', ''save'', ''sete'',
      ''autoload'', ''echo'', ''unecho'']"

definition network_line :: "surroundings \<Rightarrow> string \<Rightarrow> bool" where
  "network_line env line \<longleftrightarrow>
     (case halcmd_preprocess_line (sr_getenv env) (sr_iniFind env) line of
        Inl e \<Rightarrow> line_rc e \<noteq> None
      | Inr tokens \<Rightarrow>
          (case parse_cmd1 (sr_tilde env) tokens of
             Invoke name args rest \<Rightarrow>
               name \<in> set network_commands \<and>
               (hal_command env name args rest \<noteq> None \<or> print_command env name args \<noteq> None)
           | _ \<Rightarrow> True))"

lemma hal_command_keeps:
  assumes "hal_command env name args rest = Some f" "name \<in> set network_commands" "links_ok s"
  shows "links_ok (fst (f s))"
  using assms
  by (auto simp: hal_command_def network_commands_def keeps split: list.splits if_splits option.splits prod.splits)

lemma output_hal [simp]: "hc_hal (halcmd_output ls c) = hc_hal c"
  by (simp add: halcmd_output_def)

lemma reading_keeps [keeps]:
  "hc_hal (fst (do_getp_cmd env x c)) = hc_hal c" "hc_hal (fst (do_gets_cmd env x c)) = hc_hal c"
  "hc_hal (fst (do_ptype_cmd x c)) = hc_hal c" "hc_hal (fst (do_stype_cmd x c)) = hc_hal c"
  "hc_hal (fst (do_save_cmd env a b c)) = hc_hal c" "hc_hal (fst (do_sete_cmd env x y c)) = hc_hal c"
  "hc_hal (fst (do_autoload_cmd a c)) = hc_hal c"
  by (simp_all add: do_getp_cmd_def do_gets_cmd_def do_ptype_cmd_def do_stype_cmd_def do_save_cmd_def
      do_sete_cmd_def do_autoload_cmd_def Let_def split: option.split prod.split)

lemma do_sweep_keeps [keeps]: "links_ok (hc_hal c) \<Longrightarrow> links_ok (hc_hal (fst (do_sweep_cmd c)))"
  using net_step_keeps(7) [of "hc_hal c"] by (cases "hal_sweep (hc_hal c)") (simp add: do_sweep_cmd_def Let_def)

lemma print_command_keeps:
  assumes "print_command env name args = Some f" "name \<in> set network_commands" "links_ok (hc_hal c)"
  shows "links_ok (hc_hal (fst (f c)))"
  using assms
  by (auto simp: print_command_def network_commands_def keeps split: list.splits if_splits option.splits prod.splits)

lemma network_line_keeps:
  assumes "network_line env line" "links_ok (hc_hal c)"
  obtains c' rc where "run_line source fuel env line c = Some (c', rc)" "links_ok (hc_hal c')"
proof (cases "halcmd_preprocess_line (sr_getenv env) (sr_iniFind env) line")
  case (Inl e)
  then show ?thesis using assms that by (auto simp: run_line_def network_line_def)
next
  case (Inr tokens)
  have run: "run_line source fuel env line c = halcmd_parse_cmd source fuel env tokens c"
    by (simp add: run_line_def Inr)
  note ok = assms(1) [unfolded network_line_def Inr sum.case]
  show ?thesis
  proof (cases "parse_cmd1 (sr_tilde env) tokens")
    case (Setp x y)
    have "run_line source fuel env line c = Some (do_setp_cmd env x y c)"
      by (simp add: run halcmd_parse_cmd_def Setp)
    then show ?thesis using do_setp_keeps [OF assms(2), of env x y] that by (metis prod.collapse)
  next
    case (Invoke name args rest)
    note ok' = ok [unfolded Invoke halcmd_call.case]
    show ?thesis
    proof (cases "hal_command env name args rest")
      case (Some f)
      have "run_line source fuel env line c = Some (on_hal f c)"
        by (simp add: run halcmd_parse_cmd_def Invoke Some)
      then show ?thesis using ok' hal_command_keeps [OF Some _ assms(2)] that
        by (cases "f (hc_hal c)") (auto simp: on_hal_def)
    next
      case None
      then obtain g where g: "print_command env name args = Some g" using ok' by auto
      have "run_line source fuel env line c = Some (g c)"
        by (simp add: run halcmd_parse_cmd_def Invoke None g)
      then show ?thesis using ok' print_command_keeps [OF g _ assms(2)] that by (metis prod.collapse)
    qed
  qed (use run assms(2) that in \<open>auto simp: halcmd_parse_cmd_def\<close>)
qed

section \<open>Properties\<close>

text \<open>C9: a script of network commands runs to its end or to its first failing line, whatever the
  lines ask for, and the network is well formed afterwards: no request of \<open>net\<close>, \<open>linkps\<close>,
  \<open>linkpp\<close>, \<open>unlinkp\<close>, \<open>newsig\<close>, \<open>delsig\<close>, \<open>setp\<close>, \<open>sets\<close>, \<open>sweep\<close> or of the barrier and lock
  commands, and no failure of one, breaks the agreement of pins and signals.\<close>

theorem script_keeps_network:
  assumes "\<forall>l\<in>set ls. network_line env l" "links_ok (hc_hal c)"
  shows "\<exists>c' rc. run_lines (run_line source fuel env) ls c = Some (c', rc) \<and> links_ok (hc_hal c')"
  using assms
proof (induction ls arbitrary: c)
  case (Cons l ls)
  obtain c1 r where "run_line source fuel env l c = Some (c1, r)" "links_ok (hc_hal c1)"
    using network_line_keeps Cons.prems by (metis list.set_intros(1))
  then show ?case using Cons by simp
qed simp

definition demo_env :: surroundings where
  "demo_env = \<lparr>strtod = (\<lambda>s. (0, s)), fmt_g = (\<lambda>v. []), inst_dtor = (\<lambda>d n p z s. s), may_write = (\<lambda>f. True),
     msg_none = False, rtapi_get_tags = (\<lambda>m. 0), rtapi_loadrt = (\<lambda>m a s. (s, 0)), rtapi_unloadrt = (\<lambda>m s. (s, 0)),
     rtapi_newinst = (\<lambda>m i a s. (s, 0)), rtapi_delinst = (\<lambda>i s. (s, 0)), rtapi_callfunc = (\<lambda>f a s. (s, 0)),
     rtapi_newthread = (\<lambda>n p cpu cg fp fl s. (s, 0)), rtapi_delthread = (\<lambda>n s. (s, 0)), sr_getenv = (\<lambda>v. None),
     sr_iniFind = (\<lambda>v sec. None), sr_tilde = (\<lambda>s. s), other_cmd = (\<lambda>n a r c. None)\<rparr>"

definition demo_cmd :: halcmd where
  "demo_cmd = \<lparr>hc_hal = demo_hal, hc_mem = (\<lambda>a. 0), hc_strings = (\<lambda>a. []), hc_files = (\<lambda>f. None),
     hc_epsilon = [], hc_out = [], hc_killed = [], hc_autoload = False, hc_echo = False\<rparr>"

lemma demo_network_line: "network_line demo_env ''net sig <= out''"
  by code_simp

theorem script_keeps_network_witness:
  "\<exists>c' rc. run_lines (run_line (\<lambda>f c. None) 0 demo_env) [''net sig <= out''] demo_cmd = Some (c', rc) \<and>
     links_ok (hc_hal c')"
  by (rule script_keeps_network) (simp_all add: demo_network_line demo_cmd_def demo_links_ok)

end
