(* ===== verification/Halcmd_Save.thy ===== *)
theory Halcmd_Save
  imports Halcmd_Parse_Correct Halcmd_Script
begin

text \<open>
  Saving the network and sourcing the saved file: the lines that \<open>save net\<close>
  writes, read back by the line reader and run by \<open>net\<close>, link every pin to the
  signal it was linked to.
\<close>

section \<open>A line of save\<close>

definition plain_name :: "string \<Rightarrow> bool" where
  "plain_name nm \<longleftrightarrow> nm \<noteq> [] \<and> length nm \<le> HAL_NAME_LEN \<and> hd nm \<noteq> CHR ''<'' \<and> hd nm \<noteq> CHR ''='' \<and>
     (\<forall>c\<in>set nm. word_char c \<and> c \<noteq> CHR ''#'' \<and> c \<noteq> CHR ''$'' \<and> c \<noteq> CHR ''['')"

definition arrow_of :: "nat \<Rightarrow> string" where
  "arrow_of dir = (if dir = HAL_IN then ''=>'' else if dir = HAL_OUT then ''<='' else ''<=>'')"

definition net_line :: "string \<Rightarrow> nat \<Rightarrow> string \<Rightarrow> string" where
  "net_line sig dir pin = ''net '' @ sig @ '' '' @ arrow_of dir @ '' '' @ pin"

lemma words_more:
  "w \<noteq> [] \<Longrightarrow> \<forall>c\<in>set w. \<not> isspace c \<Longrightarrow> words (w @ CHR '' '' # s) = w # words s"
  using words_word [of w "CHR '' '' # s"] by (simp add: isspace_def)

lemma arrow_plain: "arrow_of d \<noteq> []" "\<forall>c\<in>set (arrow_of d). \<not> isspace c" "is_arrow (arrow_of d)"
  "length (arrow_of d) \<le> 3"
  by (auto simp: arrow_of_def is_arrow_def isspace_def)

lemma net_line_words:
  assumes "plain_name sig" "plain_name pin"
  shows "words (net_line sig dir pin) = [''net'', sig, arrow_of dir, pin]"
proof -
  have s: "sig \<noteq> []" "\<forall>c\<in>set sig. \<not> isspace c" "pin \<noteq> []" "\<forall>c\<in>set pin. \<not> isspace c"
    using assms by (auto simp: plain_name_def word_char_def)
  have e: "net_line sig dir pin = ''net'' @ CHR '' '' # sig @ CHR '' '' # arrow_of dir @ CHR '' '' # pin"
    by (simp add: net_line_def)
  have n: "words (''net'' @ CHR '' '' # r) = ''net'' # words r" for r
    by (rule words_more) (auto simp: isspace_def)
  have "words pin = [pin]" using words_word [of pin "[]"] s by simp
  then show ?thesis
    unfolding e n using s arrow_plain [of dir] by (simp add: words_more del: append.simps append_Cons)
qed

lemma net_line_chars:
  assumes "plain_name sig" "plain_name pin"
  shows "\<forall>c\<in>{squote, dquote, carriage_return, newline, CHR ''#'', CHR ''$'', CHR ''[''}. c \<notin> set (net_line sig dir pin)"
    "length (net_line sig dir pin) \<le> 91" "\<not> trailing_blank (net_line sig dir pin)"
proof -
  have p: "squote \<notin> set nm" "dquote \<notin> set nm" "carriage_return \<notin> set nm" "newline \<notin> set nm"
    "CHR ''#'' \<notin> set nm" "CHR ''$'' \<notin> set nm" "CHR ''['' \<notin> set nm" if "plain_name nm" for nm
    using that by (auto simp: plain_name_def word_char_def isspace_def)
  show "\<forall>c\<in>{squote, dquote, carriage_return, newline, CHR ''#'', CHR ''$'', CHR ''[''}. c \<notin> set (net_line sig dir pin)"
    using p [OF assms(1)] p [OF assms(2)] by (simp add: net_line_def arrow_of_def)
  show "length (net_line sig dir pin) \<le> 91"
    using assms arrow_plain(4) [of dir] by (simp add: net_line_def plain_name_def HAL_NAME_LEN_def)
  show "\<not> trailing_blank (net_line sig dir pin)"
    using assms by (auto simp: net_line_def trailing_blank_def plain_name_def word_char_def)
qed

lemma net_command: "map_of halcmd_commands ''net'' = Some (A_ONE OR A_PLUS OR A_REMOVE_ARROWS)"
  by (simp add: halcmd_commands_def)

lemma parse_net:
  assumes "plain_name sig" "plain_name pin"
  shows "parse_cmd1 tilde (padded [''net'', sig, arrow_of dir, pin] @ [[]]) = Invoke ''net'' [Some sig] [pin]"
proof -
  have ne: "sig \<noteq> []" "pin \<noteq> []" "\<not> is_arrow sig" "\<not> is_arrow pin" "\<not> is_arrow ''net''"
    using assms by (auto simp: plain_name_def is_arrow_def)
  have "takeWhile (\<lambda>t. t \<noteq> []) (padded [''net'', sig, arrow_of dir, pin] @ [[]]) = [''net'', sig, arrow_of dir, pin]"
    using ne arrow_plain(1) by (simp add: padded_def MAX_TOK_def numeral_eq_Suc)
  then have c: "count_args (padded [''net'', sig, arrow_of dir, pin] @ [[]]) = 4"
    by (simp add: count_args_def)
  have t: "take 4 (padded [''net'', sig, arrow_of dir, pin] @ [[]]) = [''net'', sig, arrow_of dir, pin]"
    by (simp add: padded_def)
  show ?thesis
    unfolding parse_cmd1_def c t Let_def
    using ne arrow_plain(3) [of dir] net_command by (simp add: ARG_def)
qed

lemma run_net_line:
  assumes "plain_name sig" "plain_name pin"
  shows "run_line source fuel env (net_line sig dir pin @ [newline]) c = Some (on_hal (do_net_cmd sig [pin]) c)"
proof -
  have need: "tokens_needed (net_line sig dir pin) \<le> MAX_TOK"
    using net_line_chars(3) [OF assms] net_line_words [OF assms] by (simp add: tokens_needed_def MAX_TOK_def)
  have "halcmd_preprocess_line (sr_getenv env) (sr_iniFind env) (net_line sig dir pin @ [newline]) =
      Inr (padded [''net'', sig, arrow_of dir, pin] @ [[]])"
    using preprocess_plain [OF net_line_chars(1) [OF assms], of dir "[newline]"] net_line_chars(2) [OF assms, of dir] need
    by (simp add: MAX_CMD_LEN_def net_line_words [OF assms])
  then show ?thesis
    by (simp add: run_line_def halcmd_parse_cmd_def parse_net [OF assms] hal_command_def)
qed

lemma run_comment:
  assumes "l = [] \<or> hd l = CHR ''#''"
  shows "run_line source fuel env (l @ [newline]) c = Some (c, 0)"
proof -
  have "halcmd_preprocess_line (sr_getenv env) (sr_iniFind env) ([] @ l @ [newline]) = Inr (padded [] @ [[]])"
    using assms by (subst preprocess_plain) (cases l; auto simp: MAX_CMD_LEN_def tokens_needed_def)+
  then show ?thesis
    by (simp add: run_line_def halcmd_parse_cmd_def parse_cmd1_def count_args_def padded_def MAX_TOK_def numeral_eq_Suc)
qed

section \<open>The lines of save net\<close>

lemma foreach_collect:
  assumes "\<And>a ls. a \<in> set xs \<Longrightarrow> sel s a \<Longrightarrow> cb a s ls = (s, ls @ g a, 0)"
  shows "\<exists>n'. foreach_loop sel cb xs s ls n = (s, ls @ concat (map g (filter (sel s) xs)), n')"
  using assms
proof (induction xs arbitrary: ls n)
  case (Cons a xs)
  then show ?case using Cons.IH [of "ls @ g a" "n + 1"] Cons.IH [of ls n] by (cases "sel s a") auto
qed simp

definition live_of :: "hal \<Rightarrow> nat \<Rightarrow> nat list" where
  "live_of s t = filter (\<lambda>a. ho_valid s a \<and> ho_object_type s a = t) (halobjects s)"

lemma match_type: "t \<noteq> 0 \<Longrightarrow> match_args (no_args\<lparr>fa_type := t\<rparr>) s a \<longleftrightarrow> ho_valid s a \<and> ho_object_type s a = t"
  by (auto simp: match_args_def match_ids_def no_args_def)

lemma foreach_type:
  assumes "t \<noteq> 0" "\<And>a ls. a \<in> set (live_of s t) \<Longrightarrow> cb a s ls = (s, ls @ g a, 0)"
  shows "\<exists>n. halg_foreach (no_args\<lparr>fa_type := t\<rparr>) cb s ls = (s, ls @ concat (map g (live_of s t)), n)"
proof -
  have m: "match_args (no_args\<lparr>fa_type := t\<rparr>) s = (\<lambda>a. ho_valid s a \<and> ho_object_type s a = t)"
    using assms(1) by (intro ext match_type)
  show ?thesis
    using foreach_collect [of "halobjects s" "match_args (no_args\<lparr>fa_type := t\<rparr>)" s cb g ls 0] assms(2)
    by (simp add: halg_foreach_def live_of_def m)
qed

text \<open>The pairs of a signal and a pin on it, in the order of the file.\<close>

definition saved_links :: "hal \<Rightarrow> (nat \<times> nat) list" where
  "saved_links s =
     concat (map (\<lambda>sig. map (Pair sig) (filter (\<lambda>pin. pin_signal (pin_of s pin) = sig) (live_of s HAL_PIN)))
       (live_of s HAL_SIGNAL))"

definition link_line :: "hal \<Rightarrow> nat \<times> nat \<Rightarrow> string" where
  "link_line s sp = net_line (ho_name s (fst sp)) (pin_dir (pin_of s (snd sp))) (ho_name s (snd sp))"

lemma live_of_pin:
  assumes "links_ok s" "pin \<in> set (live_of s HAL_PIN)"
  obtains p where "pin_at s pin = Some p" "pin_of s pin = p" "pin \<in> live s"
proof -
  have v: "pin \<in> set (halobjects s)" "ho_valid s pin" "ho_object_type s pin = HAL_PIN"
    using assms(2) by (auto simp: live_of_def)
  then obtain ob where ob: "objs s pin = Some ob" "hh_object_type (hdr ob) = HAL_PIN"
    by (auto simp: ho_valid_def ho_object_type_def split: option.splits)
  then have "pin_body (body ob) \<noteq> None" using assms(1) unfolding links_ok_def typed_objs_def by blast
  then obtain p where p: "pin_at s pin = Some p" using ob by (auto simp: pin_at_def)
  then show thesis using that pin_of_at [OF p] v by (auto simp: live_def)
qed

lemma saved_nets:
  assumes ok: "links_ok s"
  shows "saved HAL_SIGNAL save_net_line s = map (link_line s) (saved_links s)"
proof -
  let ?L = "\<lambda>sig pin. if pin_signal (pin_of s pin) = sig then [link_line s (sig, pin)] else []"
  have dirs: "save_fill_pin_array pin sig s ls = (s, ls @ [link_line s (sig, pin)], 0)"
    if "pin \<in> set (live_of s HAL_PIN)" for pin sig ls
  proof -
    obtain p where p: "pin_at s pin = Some p" "pin_of s pin = p" using live_of_pin [OF ok \<open>pin \<in> _\<close>] by metis
    show ?thesis using pin_dirs [OF ok p(1)] p(2)
      by (auto simp: save_fill_pin_array_def link_line_def net_line_def arrow_of_def Let_def)
  qed
  have inner: "save_net_line sig s ls = (s, ls @ concat (map (?L sig) (live_of s HAL_PIN)), 0)" for sig ls
  proof -
    have "\<exists>n. halg_foreach (no_args\<lparr>fa_type := HAL_PIN\<rparr>) (pin_by_signal_callback sig (Some save_fill_pin_array)) s ls =
        (s, ls @ concat (map (?L sig) (live_of s HAL_PIN)), n)"
      by (rule foreach_type) (simp_all add: pin_by_signal_callback_def pin_linked_to_def dirs)
    then show ?thesis by (auto simp: save_net_line_def halg_foreach_pin_by_signal_def)
  qed
  obtain n where "halg_foreach (no_args\<lparr>fa_type := HAL_SIGNAL\<rparr>) save_net_line s [] =
      (s, [] @ concat (map (\<lambda>sig. concat (map (?L sig) (live_of s HAL_PIN))) (live_of s HAL_SIGNAL)), n)"
    using foreach_type [of HAL_SIGNAL s save_net_line _ "[]", OF _ inner] by auto
  moreover have "concat (map (?L sig) xs) = map (link_line s) (map (Pair sig) (filter (\<lambda>pin. pin_signal (pin_of s pin) = sig) xs))"
    for sig xs by (induction xs) auto
  ultimately show ?thesis by (simp add: saved_def saved_links_def map_concat comp_def)
qed

section \<open>Replaying the lines\<close>

text \<open>
  Names that the line reader passes on unchanged and that find their object;
  no signal has the name of a pin.
\<close>

definition named :: "hal \<Rightarrow> bool" where
  "named s \<longleftrightarrow>
     (\<forall>t\<in>{HAL_PIN, HAL_SIGNAL}. \<forall>a\<in>set (live_of s t). plain_name (ho_name s a) \<and>
        halg_find_object_by_name t (Some (ho_name s a)) s = Some a) \<and>
     (\<forall>a\<in>set (live_of s HAL_SIGNAL). halg_find_object_by_name HAL_PIN (Some (ho_name s a)) s = None)"

lemma single_writer_links:
  assumes ok: "links_ok s" and x: "sig_at s sig = Some x"
  shows "single_writer s {a. link_map s a = Some sig}"
proof -
  note cm = counters_map [OF ok x]
  show ?thesis unfolding single_writer_def
  proof (intro ballI impI)
    fix a b assume ab: "a \<in> {a. link_map s a = Some sig}" "b \<in> {a. link_map s a = Some sig}" "a \<noteq> b"
      "map_option pin_dir (pin_at s a) = Some HAL_OUT"
    then have a: "on_sig s sig HAL_OUT a" by (simp add: on_sig_def)
    obtain q where q: "pin_at s b = Some q" using ab(2) by (auto simp: link_map_def split: option.splits)
    have "\<not> on_sig s sig HAL_OUT b" "\<not> on_sig s sig HAL_IO b" using cm(5,6) [OF a] ab(3) by auto
    then show "map_option pin_dir (pin_at s b) = Some HAL_IN"
      using pin_dirs [OF ok q] ab(2) q by (auto simp: on_sig_def)
  qed
qed

lemma single_writer_frame:
  assumes "net_frame s t" "single_writer s A" "B \<subseteq> A"
  shows "single_writer t B"
proof -
  have d: "map_option pin_dir (pin_at t a) = map_option pin_dir (pin_at s a)" for a
  proof -
    have "map_option snd (map_option (\<lambda>p. (pin_type p, pin_dir p)) (pin_at t a)) =
        map_option snd (map_option (\<lambda>p. (pin_type p, pin_dir p)) (pin_at s a))"
      using assms(1) by (simp add: net_frame_def)
    then show ?thesis by (simp add: option.map_comp comp_def)
  qed
  show ?thesis using assms(2,3) unfolding single_writer_def d by blast
qed

lemma saved_link:
  assumes "links_ok s" "(sig, pin) \<in> set (saved_links s)"
  shows "sig \<in> set (live_of s HAL_SIGNAL)" "pin \<in> set (live_of s HAL_PIN)" "link_map s pin = Some sig"
proof -
  have g: "pin_signal (pin_of s pin) = sig" using assms(2) by (auto simp: saved_links_def)
  show l: "sig \<in> set (live_of s HAL_SIGNAL)" "pin \<in> set (live_of s HAL_PIN)"
    using assms(2) by (auto simp: saved_links_def)
  obtain p where p: "pin_at s pin = Some p" "pin_of s pin = p" using live_of_pin [OF assms(1) l(2)] by metis
  have "objs s 0 = None" using assms(1) by (simp add: links_ok_def typed_objs_def)
  moreover have "objs s sig \<noteq> None" using l(1) by (auto simp: live_of_def ho_valid_def split: option.splits)
  ultimately have "sig \<noteq> 0" by (cases "sig = 0") auto
  then show "link_map s pin = Some sig" using p g by (simp add: link_map_def)
qed

lemma replay_one:
  assumes ok: "links_ok s" and nm: "named s" and op: "hal_attached s" "\<not> locked HAL_LOCK_CONFIG s"
    and sp: "(sig, pin) \<in> set (saved_links s)" and t: "links_ok t" "net_frame s t"
    and lm: "\<forall>a. link_map t a = (if a \<in> D then link_map s a else None)"
  shows "\<exists>t'. do_net_cmd (ho_name s sig) [ho_name s pin] t = (t', 0) \<and> links_ok t' \<and> net_frame s t' \<and>
    (\<forall>a. link_map t' a = (if a \<in> insert pin D then link_map s a else None))"
proof -
  let ?sn = "ho_name s sig" and ?pn = "ho_name s pin"
  note sl = saved_link [OF ok sp]
  have pl: "plain_name ?sn" "plain_name ?pn" and f: "halg_find_object_by_name HAL_SIGNAL (Some ?sn) s = Some sig"
    "halg_find_object_by_name HAL_PIN (Some ?pn) s = Some pin" "halg_find_object_by_name HAL_PIN (Some ?sn) s = None"
    using nm sl(1,2) by (auto simp: named_def)
  obtain p x where px: "pin_at s pin = Some p" "sig_at s sig = Some x" "sig_type x = pin_type p"
    using linked_sig_at [OF ok sl(3)] by metis
  obtain p' where p': "pin_at t pin = Some p'" "pin_type p' = pin_type p" using frame_pin [OF t(2) px(1)] by auto
  obtain x' where x': "sig_at t sig = Some x'" "sig_type x' = sig_type x" using frame_sig [OF t(2) px(2)] by auto
  have r: "net_request t ?sn sig"
    by (rule net_request_frame [OF _ t(2,1)]) (use ok op pl f in \<open>simp add: net_request_def plain_name_def\<close>)
  have ft: "found t [?pn] = {pin}" using f(2) find_frame [OF t(2)] by (simp add: found_def)
  have acc: "pin_accepted t sig ?pn"
    using f(2) find_frame [OF t(2)] lm sl(3) p' x' px by (auto simp: pin_accepted_def)
  have sub: "{a. link_map t a = Some sig} \<union> found t [?pn] \<subseteq> {a. link_map s a = Some sig}"
    using lm sl(3) ft by (auto split: if_splits)
  have "preflight_net_cmd (Some sig) [?pn] t = 0"
    using preflight_legal [OF r, of "[?pn]"] acc single_writer_frame [OF t(2) single_writer_links [OF ok px(2)] sub]
    by simp
  moreover have "halg_find_object_by_name HAL_PIN (Some ?sn) t = None" using f(3) find_frame [OF t(2)] by simp
  moreover have len: "\<forall>q\<in>set [?pn]. length q \<le> HAL_NAME_LEN" using pl by (simp add: plain_name_def)
  ultimately show ?thesis
    using lm sl(3) ft
    by (cases rule: do_net_existing [OF r len]) (auto intro: net_frame_trans [OF t(2)])
qed

lemma replay:
  assumes ok: "links_ok s" and nm: "named s" and op: "hal_attached s" "\<not> locked HAL_LOCK_CONFIG s"
    and ps: "set ps \<subseteq> set (saved_links s)" and t: "links_ok (hc_hal c)" "net_frame s (hc_hal c)"
    and lm: "\<forall>a. link_map (hc_hal c) a = (if a \<in> D then link_map s a else None)"
  shows "\<exists>c'. run_lines (run_line source fuel env) (map (\<lambda>sp. link_line s sp @ [newline]) ps) c = Some (c', 0) \<and>
    links_ok (hc_hal c') \<and> (\<forall>a. link_map (hc_hal c') a = (if a \<in> D \<union> snd ` set ps then link_map s a else None))"
  using ps t lm
proof (induction ps arbitrary: c D)
  case (Cons sp ps)
  obtain sig pin where sp: "sp = (sig, pin)" by fastforce
  have mem: "(sig, pin) \<in> set (saved_links s)" using Cons.prems(1) sp by simp
  note sl = saved_link [OF ok mem]
  have pl: "plain_name (ho_name s sig)" "plain_name (ho_name s pin)" using nm sl(1,2) by (auto simp: named_def)
  obtain t' where t': "do_net_cmd (ho_name s sig) [ho_name s pin] (hc_hal c) = (t', 0)" "links_ok t'" "net_frame s t'"
    "\<forall>a. link_map t' a = (if a \<in> insert pin D then link_map s a else None)"
    using replay_one [OF ok nm op mem Cons.prems(2-4)] by auto
  have "run_line source fuel env (link_line s sp @ [newline]) c = Some (c\<lparr>hc_hal := t'\<rparr>, 0)"
    using t'(1) by (simp add: link_line_def sp run_net_line [OF pl] on_hal_def)
  moreover have "\<exists>c'. run_lines (run_line source fuel env) (map (\<lambda>sp. link_line s sp @ [newline]) ps) (c\<lparr>hc_hal := t'\<rparr>) = Some (c', 0) \<and>
    links_ok (hc_hal c') \<and> (\<forall>a. link_map (hc_hal c') a = (if a \<in> insert pin D \<union> snd ` set ps then link_map s a else None))"
    by (rule Cons.IH) (use Cons.prems(1) t' in auto)
  ultimately show ?case by (simp add: sp)
qed (simp add: ok)

section \<open>The file\<close>

lemma fgets_line: "newline \<notin> set l \<Longrightarrow> length l + 2 \<le> n \<Longrightarrow> fgets n (l @ newline # r) = (l @ [newline], r)"
proof (induction l arbitrary: n)
  case Nil
  then obtain k where "n = Suc (Suc k)" by (metis add_2_eq_Suc le_Suc_ex list.size(3) add_0)
  then show ?case by simp
next
  case (Cons c l)
  then obtain k where "n = Suc (Suc k)" by (metis add_2_eq_Suc' le_Suc_ex add_Suc)
  with Cons show ?case by auto
qed

declare file_lines.simps [simp del]

lemma file_lines_text:
  assumes "\<forall>l\<in>set ls. newline \<notin> set l \<and> length l + 2 \<le> n"
  shows "file_lines n (file_text ls) = map (\<lambda>l. l @ [newline]) ls"
  using assms
proof (induction ls)
  case (Cons l ls)
  then have "fgets n (file_text (l # ls)) = (l @ [newline], file_text ls)"
    using fgets_line [of l n "file_text ls"] by (simp add: file_text_def)
  with Cons show ?case by (subst file_lines.simps) (simp add: file_text_def)
qed (simp add: file_lines.simps file_text_def)

lemma run_lines_append:
  "run_lines run xs c = Some (c1, 0) \<Longrightarrow> run_lines run (xs @ ys) c = run_lines run ys c1"
  by (induction xs arbitrary: c) (auto split: option.splits if_splits)

lemma saved_links_all:
  assumes "links_ok s" "link_map s a = Some g"
  shows "(g, a) \<in> set (saved_links s)"
proof -
  obtain p x where px: "pin_at s a = Some p" "pin_signal p = g" "sig_at s g = Some x" "a \<in> live s" "g \<in> live s"
    using linked_sig_at [OF assms] by metis
  have "ho_object_type s a = HAL_PIN" "ho_object_type s g = HAL_SIGNAL"
    using px assms(1)
    by (auto simp: pin_at_def sig_at_def ho_object_type_def links_ok_def typed_objs_def split: option.splits)
  then show ?thesis using px pin_of_at [OF px(1)]
    by (auto simp: saved_links_def live_of_def live_def)
qed

lemma link_line_ok:
  assumes "links_ok s" "named s" "sp \<in> set (saved_links s)"
  shows "newline \<notin> set (link_line s sp) \<and> length (link_line s sp) + 2 \<le> MAX_CMD_LEN"
proof -
  obtain sig pin where sp: "sp = (sig, pin)" by fastforce
  note sl = saved_link [OF assms(1) assms(3) [unfolded sp]]
  have pl: "plain_name (ho_name s sig)" "plain_name (ho_name s pin)" using assms(2) sl(1,2) by (auto simp: named_def)
  show ?thesis using net_line_chars(1,2) [OF pl, of "pin_dir (pin_of s pin)"]
    by (simp add: sp link_line_def MAX_CMD_LEN_def)
qed

lemma run_saved_nets:
  assumes ok: "links_ok s" and nm: "named s" and op: "hal_attached s" "\<not> locked HAL_LOCK_CONFIG s"
    and t: "links_ok (hc_hal c)" "net_frame s (hc_hal c)" "link_map (hc_hal c) = Map.empty"
  defines "ls \<equiv> ''# nets'' # map (link_line s) (saved_links s) @ [[]]"
  shows "\<exists>c'. run_lines (run_line source fuel env) (file_lines MAX_CMD_LEN (file_text ls)) c = Some (c', 0) \<and>
    links_ok (hc_hal c') \<and> link_map (hc_hal c') = link_map s"
proof -
  let ?run = "run_lines (run_line source fuel env)"
  have fl: "file_lines MAX_CMD_LEN (file_text ls) =
      (''# nets'' @ [newline]) # map (\<lambda>sp. link_line s sp @ [newline]) (saved_links s) @ [[newline]]"
    using link_line_ok [OF ok nm] by (subst file_lines_text) (auto simp: ls_def MAX_CMD_LEN_def)
  obtain c' where c': "?run (map (\<lambda>sp. link_line s sp @ [newline]) (saved_links s)) c = Some (c', 0)"
    "links_ok (hc_hal c')" "\<forall>a. link_map (hc_hal c') a = (if a \<in> {} \<union> snd ` set (saved_links s) then link_map s a else None)"
    using replay [OF ok nm op _ t(1,2), where ps = "saved_links s" and D = "{}" and source = source
      and fuel = fuel and env = env] t(3) by auto
  have "run_line source fuel env (''# nets'' @ [newline]) c = Some (c, 0)" for c by (rule run_comment) simp
  moreover have "run_line source fuel env ([] @ [newline]) c' = Some (c', 0)" by (rule run_comment) simp
  ultimately have "?run (file_lines MAX_CMD_LEN (file_text ls)) c = Some (c', 0)"
    using run_lines_append [OF c'(1), of "[[newline]]"] by (simp add: fl)
  moreover have "link_map (hc_hal c') = link_map s"
  proof (rule ext)
    show "link_map (hc_hal c') a = link_map s a" for a
      using c'(3) saved_links_all [OF ok, of a] by (cases "link_map s a") force+
  qed
  ultimately show ?thesis using c'(2) by blast
qed

lemma save_net_file:
  assumes "do_save_cmd env (Some ''net'') (Some f) c0 = (c1, 0)" "f \<noteq> []" "\<not> msg_none env" "links_ok (hc_hal c0)"
  shows "hc_files c1 f =
    Some (file_text (''# nets'' # map (link_line (hc_hal c0)) (saved_links (hc_hal c0)) @ [[]]))"
proof -
  have "save_lines env ''net'' c0 = Some (save_nets c0)" by (simp add: save_lines_def)
  then show ?thesis
    using assms saved_nets [OF assms(4)] by (auto simp: do_save_cmd_def Let_def save_nets_def split: if_splits)
qed

section \<open>Properties\<close>

text \<open>C3: what \<open>save net\<close> writes to a file, \<open>source\<close> restores. When a well-formed network whose
  names the line reader can pass on is saved, and the file is sourced in a session with the same
  pins and signals and no links, every line runs, and each pin is again linked to the signal it was
  linked to and no other. The path runs through the printer, \<open>fgets\<close>, the comment stripper,
  variable replacement, the tokenizer, the dispatcher, \<open>net\<close> with its check, and \<open>hal_link\<close>.\<close>

theorem save_net_source_restores:
  assumes "do_save_cmd env (Some ''net'') (Some f) c0 = (c1, 0)" "f \<noteq> []" "\<not> msg_none env"
    and "links_ok (hc_hal c0)" "named (hc_hal c0)" "hal_attached (hc_hal c0)" "\<not> locked HAL_LOCK_CONFIG (hc_hal c0)"
    and "hc_files c f = hc_files c1 f" "links_ok (hc_hal c)" "net_frame (hc_hal c0) (hc_hal c)"
    and "link_map (hc_hal c) = Map.empty"
  shows "\<exists>c'. do_source_cmd (Suc n) env' f c = Some (c', 0) \<and> links_ok (hc_hal c') \<and>
    link_map (hc_hal c') = link_map (hc_hal c0)"
  using run_saved_nets [OF assms(4-7,9-11), of "do_source_cmd n env'" n env'] save_net_file [OF assms(1-4)] assms(8)
  by simp

lemma named_frame:
  assumes "net_frame s t" "named s"
  shows "named t"
proof -
  have e: "ho_name t = ho_name s" "live_of t = live_of s"
    using assms(1) by (auto simp: net_frame_def live_of_def)
  have "halg_find_object_by_name ty nm t = halg_find_object_by_name ty nm s" for ty nm
    using find_frame [OF assms(1)] by simp
  then show ?thesis using assms(2) by (simp add: named_def e)
qed

lemma demo_named: "named demo_hal"
proof -
  have "live_of demo_hal HAL_PIN = [584, 392]" "live_of demo_hal HAL_SIGNAL = [456]"
    by (simp_all add: live_of_def demo_obj)
  moreover have "halg_find_object_by_name HAL_PIN (Some ''sig'') demo_hal = None"
    by (simp add: find_by_name_eq selected_def demo_obj)
  ultimately show ?thesis using demo_find
    by (simp add: named_def demo_obj plain_name_def word_char_def isspace_def HAL_NAME_LEN_def)
qed

definition demo_linked_hal :: hal where
  "demo_linked_hal = fst (halg_link (Some ''out'') (Some ''sig'') demo_hal)"

lemma demo_linked_hal:
  "links_ok demo_linked_hal" "net_frame demo_hal demo_linked_hal" "link_map demo_linked_hal = [392 \<mapsto> 456]"
proof -
  obtain s' rc where l: "halg_link (Some ''out'') (Some ''sig'') demo_hal = (s', rc)" by fastforce
  have "net_step demo_hal demo_linked_hal" unfolding demo_linked_hal_def by (rule net_step.link)
  then show "links_ok demo_linked_hal" by (rule net_step_ok [OF _ demo_links_ok])
  show "net_frame demo_hal demo_linked_hal" by (simp add: demo_linked_hal_def net_frame_link)
  from demo_links_ok l have "link_map s' = [392 \<mapsto> 456]"
    by (cases rule: halg_link_cases) (use l demo_request demo_link_map in auto)
  then show "link_map demo_linked_hal = [392 \<mapsto> 456]" by (simp add: demo_linked_hal_def l)
qed

theorem save_net_source_restores_witness:
  "\<exists>c1 c'. do_save_cmd demo_env (Some ''net'') (Some ''f'') (demo_cmd\<lparr>hc_hal := demo_linked_hal\<rparr>) = (c1, 0) \<and>
     do_source_cmd 1 demo_env ''f'' (demo_cmd\<lparr>hc_files := hc_files c1\<rparr>) = Some (c', 0) \<and>
     link_map (hc_hal c') = [392 \<mapsto> 456]"
proof -
  let ?c0 = "demo_cmd\<lparr>hc_hal := demo_linked_hal\<rparr>"
  obtain c1 where c1: "do_save_cmd demo_env (Some ''net'') (Some ''f'') ?c0 = (c1, 0)"
    by (simp add: do_save_cmd_def demo_env_def save_lines_def Let_def)
  have o: "hal_attached demo_linked_hal" "\<not> locked HAL_LOCK_CONFIG demo_linked_hal"
    using demo_open demo_linked_hal(2) by (simp_all add: net_frame_def locked_def)
  have "\<exists>c'. do_source_cmd (Suc 0) demo_env ''f'' (demo_cmd\<lparr>hc_files := hc_files c1\<rparr>) = Some (c', 0) \<and>
      links_ok (hc_hal c') \<and> link_map (hc_hal c') = link_map (hc_hal ?c0)"
    by (rule save_net_source_restores [OF c1])
      (simp_all add: demo_cmd_def o demo_linked_hal(1) named_frame [OF demo_linked_hal(2) demo_named] demo_links_ok
        demo_link_map net_frame_sym [OF demo_linked_hal(2)], simp add: demo_env_def)
  then show ?thesis using c1 demo_linked_hal(3) by auto
qed

end
