(* ===== verification/Spec2Isabelle.thy ===== *)
theory Spec2Isabelle
  imports Hal_Group Hal_Funct_Correct Rtapi_Task_Correct Ring_Stream Triple_Buffer Encoder
    Multiframe Stepgen Shmdrv Scope_Rt Streamer Delayline Halcmd_Save Halcmd_Values_Correct
begin

text \<open>
  Verification of the hardware abstraction layer of Machinekit-HAL.

  \<^bold>\<open>The program.\<close> HAL connects realtime components through named objects in
  one shared-memory segment. Components own pins; signals join pins; functions
  of components are put into the function lists of threads, which run them
  periodically; rings, groups, remote components and vtables are further kinds
  of objects. A configuration is built by commands, one per line, which the
  command interpreter runs as calls of the library. The code modelled is under
  \<open>src/src/libraries\<close>: \<open>runtime\<close> (the heap, ring buffers, tasks, shared memory,
  triple buffer), \<open>hal\<close> (object store, pins, signals, parameters, functions,
  threads, components, instances, remote components, groups, vtables) and
  \<open>hal_command\<close> (the interpreter).

  \<^bold>\<open>Layers.\<close>
  \<^item> \<open>Hal_Prelude\<close>: types, shared lemmas, the interface \<open>transition_invariant\<close>
    of step relations with an invariant. \<open>Byte_Memory\<close>: byte-addressed memory
    with little-endian words.
  \<^item> \<open>Rtapi_Heap\<close> (\<open>rtapi_heap.c\<close>): the free-list allocator over byte memory,
    with 24-bit sizes and a circular list; a walk that would not end is the
    error \<open>Hang\<close>. \<open>Rtapi_Heap_Correct\<close>: the heap invariant; allocation,
    release with coalescing and growth keep it, end, and hand out disjoint
    blocks; the interface is the locale \<open>block_allocator\<close>.
  \<^item> \<open>Hal_List\<close> (\<open>hal_list.h\<close>): circular doubly linked lists refine sequences
    (locale \<open>linked_list\<close>).
  \<^item> \<open>Ring\<close> (\<open>ring.h\<close>): record and stream rings at their 32-bit width.
    \<open>Ring_Correct\<close>: the record ring is a FIFO queue (locale \<open>message_queue\<close>).
    \<open>Ring_Stream\<close>: space computations, round trips, the power-of-two
    computation, and the lemma \<open>stream_write_wrap_overruns\<close>: a wrapping write
    leaves the buffer. \<open>Multiframe\<close> (\<open>multiframe.h\<close>): messages of frames on top of
    a record ring; a message is read back frame by frame, and messages of one
    frame form a FIFO queue. The lemma \<open>two_frames_overwrite\<close> shows a writer of two
    frames losing the size of the second one.
  \<^item> \<open>Triple_Buffer\<close> (\<open>triple-buffer.h\<close>): the atomic steps of writer and reader
    and every interleaving of them.
  \<^item> \<open>Rtapi_Task\<close> (\<open>rtapi_task.c\<close>, \<open>rtapi_time.c\<close>, \<open>rtapi_shmem.c\<close>): task
    slots, time base, shared-memory handles; \<open>Rtapi_Task_Correct\<close> its
    properties. \<open>Shmdrv\<close> (\<open>runtime_memory/src/shmdrv.c\<close>): the kernel driver that
    owns the segments, as a table with reference counts over a set of live
    blocks; no block is released twice or lost in runs of its operations
    without forced garbage collection and failing allocations, which the
    lemmas \<open>collect_twice\<close> and \<open>create_failure_takes_key\<close> show to be unsafe.
  \<^item> \<open>Hal_Types\<close>, \<open>Hal_Memory\<close>, \<open>Hal_Object\<close>: the segment as the record
    \<open>hal\<close>, with object headers and descriptors as records, errors (negative
    codes, with \<open>halerrno\<close> set as \<open>HALFAIL_RC\<close> does), memory allocation and
    the object store of \<open>hal_object.c\<close>. \<open>Hal_Segment\<close>, \<open>Hal_Store\<close>,
    \<open>Hal_Object_Correct\<close>: the segment and store invariants under allocation,
    creation, insertion, lookup, release and the sweep.
  \<^item> \<open>Hal_Value\<close>, \<open>Hal_Pin\<close>, \<open>Hal_Signal\<close>, \<open>Hal_Param\<close>, \<open>Hal_Ring\<close>,
    \<open>Hal_Funct\<close>, \<open>Hal_Thread\<close>, \<open>Hal_Comp\<close>, \<open>Hal_Rcomp\<close>, \<open>Hal_Group\<close>: one
    theory per source file of the library, in its order, every operation with
    its guards and error exits.
  \<^item> \<open>Hal_Link\<close>, \<open>Hal_Network\<close>: the network of pins and signals. Linking,
    unlinking and deletion refine updates of the map from pins to signals; the
    invariant (types agree, counts are exact, one writer) holds in every
    reachable state; values stored through a pin reach exactly the pins of the
    same signal.
  \<^item> \<open>Hal_Funct_Correct\<close>: function lists of threads, user counts, reentrancy.
  \<^item> \<open>Halcmd_Parse\<close> (\<open>halcmd.c\<close>): from a line to a call of a handler, that is comment
    stripping, variable replacement, the tokenizer, the command table and
    \<open>parse_cmd1\<close>. \<open>Halcmd_Values\<close> (\<open>halcmd_commands.c\<close>): scanning and printing of
    values. \<open>Halcmd_Commands\<close>: the handlers that change the state, each as a
    function on the state of the library and of the program (\<open>halcmd\<close>).
    \<open>Halcmd\<close>: dispatch, a line, and a file of lines (\<open>source\<close>).
    \<open>Halcmd_Parse_Correct\<close>: the line reader keeps to its buffers and equals a
    plain split into words on plain lines. \<open>Halcmd_Values_Correct\<close>: printed
    values are scanned back. \<open>Halcmd_Net\<close>: the \<open>net\<close> command is all or nothing.
    \<open>Halcmd_Script\<close>: scripts keep the network well formed. \<open>Halcmd_Save\<close>: a
    network saved to a file and sourced again is the same network.
  \<^item> \<open>Encoder\<close> (\<open>modules/managed/components/encoder\<close>): the quadrature counter, a
    component that uses the library: decoding tables, index, latch and the
    double buffer between its two functions. \<open>Stepgen\<close>
    (\<open>modules/managed/components/stepgen\<close>): the step generator. Its count is the
    position its steps have moved the motor to, and its timers keep the pulse,
    hold and setup times; the lemmas \<open>reversal_without_setup\<close> and
    \<open>step_in_wrong_direction\<close> are two cases the timers do not cover.
    \<open>Scope_Rt\<close> (\<open>scope_rt\<close>, \<open>halscope\<close>): the oscilloscope's state machine and
    circular buffer; what is displayed is the latest record with the trigger in
    its place, and a forced acquisition ends. \<open>Sampler\<close> (\<open>sampler\<close>, \<open>sampler_usr\<close>):
    the lock-free fifo under every interleaving with the process that reads it.
    \<open>Streamer\<close> (\<open>streamer\<close>, \<open>streamer_usr\<close>): lines of text become pin values in order.
    \<open>Delayline\<close> (\<open>delayline\<close>): two functions with a record ring between them; the
    output is the input some periods before, given a ring with room for two
    records more than the delay, which a line of ten periods or more has.
  \<^item> \<open>Hal_Demo\<close>: a small concrete state on which the theorems are applied.
  \<^item> This theory: threads and the network together.

  \<^bold>\<open>Correspondence.\<close> An object is the offset of its descriptor in the segment;
  \<open>objs\<close> maps offsets to header and body. A legacy pin's pointer cell is an
  entry of \<open>cells\<close>. Names live in the global heap as blocks whose text is kept
  in the header. Every operation runs under the HAL mutex, so operations are
  atomic and state is passed explicitly; only the triple buffer, which takes no
  lock, is broken into smaller steps. Values are the 64-bit union, floats as
  bit patterns; their conversion to and from text is a parameter. Code reached through function pointers (thread functions,
  constructors, user functions), the clock, the thread flavor and the shared
  memory driver, the requests to the realtime process, the environment and the
  ini file are parameters.

  \<^bold>\<open>Loops and bounds.\<close> Loops over lists are structural recursions; the
  free-list walks and the slot searches have termination proofs or return
  \<open>None\<close> when they do not end, and the theorems show that on well-formed
  states they end. A failed assertion or a null dereference of the code sets
  \<open>fault\<close>.

  \<^bold>\<open>Not modelled.\<close> The variance statistics of a thread (floating point),
  message printing, memory barriers, the operating-system threads behind the
  flavor hooks, the floating-point control loops of components, the commands of halcmd that
  only print (\<open>show\<close>, \<open>list\<close>, \<open>status\<close>, \<open>help\<close>), start and await processes
  (\<open>loadusr\<close>, \<open>waitbound\<close>, \<open>sleep\<close>) or move ring contents (\<open>ringwrite\<close>), which the
  dispatcher passes to a parameter, its interactive main program, network services, component generators and the other components and the
  drivers under \<open>src/src/modules\<close>. Of the modelled components, remote
  components, groups, vtables, rings in the segment and instances have
  definitions for all their operations but few theorems yet.
\<close>

section \<open>Threads and the network\<close>

definition keeps_network :: "(hal \<Rightarrow> hal) \<Rightarrow> bool" where
  "keeps_network g \<longleftrightarrow> (\<forall>s. links_ok s \<longrightarrow> links_ok (g s) \<and> link_map (g s) = link_map s)"

lemma keeps_networkD: "keeps_network g \<Longrightarrow> links_ok s \<Longrightarrow> links_ok (g s) \<and> link_map (g s) = link_map s"
  by (simp add: keeps_network_def)

lemma set_s32_keeps: "keeps_network (set_s32_pin a v)"
  by (simp add: keeps_network_def set_s32_pin_def set_pin_links)

lemma upd_thread_keeps: "keeps_network (upd_thread a h)"
proof -
  have b: "pin_body (body (case body ob of Thread p \<Rightarrow> ob\<lparr>body := Thread (h p)\<rparr> | _ \<Rightarrow> ob)) = pin_body (body ob)"
    "sig_body (body (case body ob of Thread p \<Rightarrow> ob\<lparr>body := Thread (h p)\<rparr> | _ \<Rightarrow> ob)) = sig_body (body ob)" for ob
    by (simp_all add: pin_body_def sig_body_def split: hal_body.splits)
  have "same_links s (upd_thread a h s)" for s
  proof -
    have "pin_at (upd_thread a h s) = pin_at s" "sig_at (upd_thread a h s) = sig_at s"
      by (rule ext, cases "objs s a"; simp add: upd_thread_def upd_obj_at b at_bind [of s a])+
    moreover have "live (upd_thread a h s) = live s"
      unfolding upd_thread_def by (rule ho_upd_obj_hdr(8)) (simp add: upd_thread_body)
    moreover have "typed_objs s \<Longrightarrow> typed_objs (upd_thread a h s)" "store_ok s \<Longrightarrow> store_ok (upd_thread a h s)"
      unfolding upd_thread_def by (rule typed_objs_upd_obj store_ok_upd_obj; simp add: b upd_thread_body)+
    ultimately show ?thesis by (simp add: same_links_def)
  qed
  then show ?thesis using same_links_ok same_links_map unfolding keeps_network_def by blast
qed

lemma update_times_keeps: "keeps_network (update_times fn delta)"
  using set_s32_keeps by (auto simp: keeps_network_def update_times_def Let_def)

lemma run_functs_keeps:
  assumes "\<forall>c a p. keeps_network (lcode c a p)" "\<forall>c a fa. keeps_network (xcode c a fa)" "links_ok s"
  shows "links_ok (snd (run_functs lcode xcode clk period es fa s)) \<and>
    link_map (snd (run_functs lcode xcode clk period es fa s)) = link_map s"
  using assms(3)
proof (induction es arbitrary: fa s)
  case (Cons e es)
  define fn where "fn = fe_funct_ptr (entry_of s e)"
  define fa1 where "fa1 = fa\<lparr>fa_funct := fn\<rparr>"
  define s1 where "s1 = run_funct lcode xcode period e fa1 s"
  obtain t fa2 where t: "get_time clk fa1 = (t, fa2)" by fastforce
  define s2 where "s2 = update_times fn (to_s32 (t - fa_start_time fa2)) s1"
  have eq: "run_functs lcode xcode clk period (e # es) fa s =
      run_functs lcode xcode clk period es (fa2\<lparr>fa_start_time := t, fa_end_time := t\<rparr>) s2"
    using t by (simp add: Let_def fn_def fa1_def s1_def s2_def)
  have "links_ok s1 \<and> link_map s1 = link_map s"
    using keeps_networkD [OF assms(1) [rule_format] Cons.prems] keeps_networkD [OF assms(2) [rule_format] Cons.prems]
      Cons.prems by (simp add: s1_def run_funct_def Let_def)
  then have "links_ok s2 \<and> link_map s2 = link_map s"
    using keeps_networkD [OF update_times_keeps, of s1] by (simp add: s2_def)
  then show ?case unfolding eq using Cons.IH [of s2] by auto
qed simp

lemma thread_cycle_keeps:
  assumes "\<forall>c a p. keeps_network (lcode c a p)" "\<forall>c a fa. keeps_network (xcode c a fa)" "links_ok s"
  shows "links_ok (snd (thread_cycle lcode xcode clk th fa s)) \<and>
    link_map (snd (thread_cycle lcode xcode clk th fa s)) = link_map s"
proof (cases "threads_running s > 0")
  case True
  define es where "es = thr_funct_list (thread_of s th)"
  obtain now fa1 where g: "get_time clk fa = (now, fa1)" by fastforce
  define s1 where "s1 = set_s32_pin (thr_curr_period (thread_of s th)) (to_s32 (now - fa_last_start_time fa1)) s"
  define fa2 where "fa2 = fa1\<lparr>fa_start_time := now, fa_last_start_time := now, fa_thread_start_time := now\<rparr>"
  obtain fa3 s2 where r: "run_functs lcode xcode clk (thr_period (thread_of s1 th)) es fa2 s1 = (fa3, s2)" by fastforce
  define rt where "rt = to_s32 (fa_end_time fa3 - fa_thread_start_time fa3)"
  define s3 where "s3 = set_s32_pin (thr_runtime (thread_of s2 th)) rt s2"
  define mx where "mx = thr_maxtime (thread_of s3 th)"
  define s4 where "s4 = (if rt > get_s32_pin mx s3 then set_s32_pin mx rt s3 else s3)"
  have eq: "snd (thread_cycle lcode xcode clk th fa s) = upd_thread th (\<lambda>t. t\<lparr>thr_cycles := thr_cycles t + 1\<rparr>) s4"
    unfolding thread_cycle_def es_def [symmetric] Let_def g prod.case s1_def [symmetric] fa2_def [symmetric] r
      rt_def [symmetric] s3_def [symmetric] mx_def [symmetric] s4_def [symmetric] using True by simp
  note set = keeps_networkD [OF set_s32_keeps]
  have "links_ok s1 \<and> link_map s1 = link_map s" unfolding s1_def by (rule set [OF assms(3)])
  then have "links_ok s2 \<and> link_map s2 = link_map s"
    using run_functs_keeps [OF assms(1,2), of s1 clk "thr_period (thread_of s1 th)" es fa2] r by simp
  then have "links_ok s3 \<and> link_map s3 = link_map s" using set [of s2] by (simp add: s3_def)
  then have "links_ok s4 \<and> link_map s4 = link_map s" using set [of s3] by (simp add: s4_def)
  then show ?thesis unfolding eq using keeps_networkD [OF upd_thread_keeps, of s4] by simp
next
  case False
  have "\<exists>v. snd (thread_cycle lcode xcode clk th fa s) = set_s32_pin (thr_curr_period (thread_of s th)) v s"
    using False by (simp add: thread_cycle_def Let_def split: prod.split) blast
  then show ?thesis using keeps_networkD [OF set_s32_keeps assms(3)] by auto
qed

lemma thread_iterate_keeps:
  assumes "\<forall>c a p. keeps_network (lcode c a p)" "\<forall>c a fa. keeps_network (xcode c a fa)" "links_ok s"
  shows "links_ok (snd (thread_iterate lcode xcode clk th n fa s)) \<and>
    link_map (snd (thread_iterate lcode xcode clk th n fa s)) = link_map s"
  using assms(3)
proof (induction n arbitrary: fa s)
  case (Suc n)
  obtain fa1 s1 where c: "thread_cycle lcode xcode clk th fa s = (fa1, s1)" by fastforce
  have "links_ok s1 \<and> link_map s1 = link_map s" using thread_cycle_keeps [OF assms(1,2) Suc.prems, of clk th fa] c by simp
  then show ?case using Suc.IH [of s1 fa1] c by simp
qed simp


text \<open>A component that writes its argument, a pin, on every cycle.\<close>

definition pin_writer :: lfunct where "pin_writer c a p s = set_pin HAL_S32 a (of_nat c) s"


end
